(* ===== verification/Prelude.thy ===== *)
theory Prelude
  imports Main "HOL-Library.Word" "HOL-Library.Monad_Syntax"
begin

text \<open>
  Shared vocabulary of the development: names for the machine integers of the 32-bit target,
  the fact collections the component theories add to, and the generic lemmas on lists that
  the intrusive queues of the code come down to (ordered insertion, removal of one element,
  first element that satisfies a test).
\<close>

unbundle bit_operations_syntax

section \<open>Machine types\<close>

type_synonym word8 = "8 word"
type_synonym word16 = "16 word"
type_synonym word32 = "32 word"
type_synonym word64 = "64 word"

text \<open>A pointer of the 32-bit target; 0 is the null pointer.\<close>
type_synonym addr = "32 word"

abbreviation UINT32_MAX :: word32 where
  "UINT32_MAX \<equiv> 0xffffffff"

abbreviation INT32_MAX :: word32 where
  "INT32_MAX \<equiv> 0x7fffffff"

lemma signed_literals [simp]:
  "(0 :: word32) <s 1" "\<not> (1 :: word32) \<le>s 0" "(1 :: word32) \<le>s 1"
  by (simp_all add: word_sless_alt word_sle_eq)

section \<open>Fact collections\<close>

named_theorems heap_rules \<open>effect of the pointer primitives on the lists they represent\<close>
named_theorems sched_defs \<open>unfolding rules of the straight-line scheduler operations\<close>
named_theorems frame_simps \<open>fields an operation leaves alone\<close>

section \<open>Assertions\<close>

text \<open>
  The \<open>assert\<close> macro and \<open>abort\<close>: a computation that may stop the system is an option, and
  \<open>None\<close> is the stop.
\<close>

definition check :: "bool \<Rightarrow> 's \<Rightarrow> 's option" where
  "check b s = (if b then Some s else None)"

lemma check_simps [simp]:
  "check True s = Some s"
  "check False s = None"
  by (simp_all add: check_def)

lemma check_Some [simp]: "check b s = Some t \<longleftrightarrow> b \<and> t = s"
  by (auto simp: check_def)

text \<open>A computation that does not stop the system and whose result satisfies \<open>P\<close>.\<close>

definition returns :: "'a option \<Rightarrow> ('a \<Rightarrow> bool) \<Rightarrow> bool" where
  "returns m P \<longleftrightarrow> (\<exists>x. m = Some x \<and> P x)"

lemma returns_simps [simp]:
  "returns (Some x) P \<longleftrightarrow> P x"
  "\<not> returns None P"
  "returns (check b x) P \<longleftrightarrow> b \<and> P x"
  "returns (Option.bind m f) P \<longleftrightarrow> returns m (\<lambda>x. returns (f x) P)"
  "returns (map_option g m) P \<longleftrightarrow> returns m (\<lambda>x. P (g x))"
  by (auto simp: returns_def check_def bind_eq_Some_conv)

lemma returns_if [simp]:
  "returns (if b then m else n) P \<longleftrightarrow> (if b then returns m P else returns n P)"
  by simp

lemma returns_mono:
  assumes "returns m P" and "\<And>x. m = Some x \<Longrightarrow> P x \<Longrightarrow> Q x"
  shows "returns m Q"
  using assms by (auto simp: returns_def)

lemma returnsD: "returns m P \<Longrightarrow> m = Some x \<Longrightarrow> P x"
  by (simp add: returns_def)

section \<open>Lists\<close>

text \<open>
  The insertion loop of every ordered list of the code: walk from the front, stop at the first
  element that satisfies the test and insert before it; at the end of the list append.
\<close>

fun insert_before_first :: "('a \<Rightarrow> bool) \<Rightarrow> 'a \<Rightarrow> 'a list \<Rightarrow> 'a list" where
  "insert_before_first P x [] = [x]"
| "insert_before_first P x (y # ys) = (if P y then x # y # ys else y # insert_before_first P x ys)"

lemma set_insert_before_first [simp]:
  "set (insert_before_first P x ys) = insert x (set ys)"
  by (induction ys) auto

lemma length_insert_before_first [simp]:
  "length (insert_before_first P x ys) = Suc (length ys)"
  by (induction ys) auto

lemma distinct_insert_before_first [simp]:
  "distinct (insert_before_first P x ys) \<longleftrightarrow> x \<notin> set ys \<and> distinct ys"
  by (induction ys) auto

lemma insert_before_first_ne_Nil [simp]: "insert_before_first P x ys \<noteq> []"
  by (cases ys) auto

lemma insert_before_first_split:
  "insert_before_first P x ys = takeWhile (\<lambda>y. \<not> P y) ys @ x # dropWhile (\<lambda>y. \<not> P y) ys"
  by (induction ys) auto

lemma insert_before_first_cong:
  assumes "\<And>y. y \<in> set ys \<Longrightarrow> P y = Q y"
  shows "insert_before_first P x ys = insert_before_first Q x ys"
  using assms by (induction ys) auto

lemma sorted_wrt_le_insert:
  fixes f :: "'a \<Rightarrow> 'k::linorder"
  assumes "sorted_wrt (\<lambda>a b. f a \<le> f b) ys"
  shows "sorted_wrt (\<lambda>a b. f a \<le> f b) (insert_before_first (\<lambda>y. f x < f y) x ys)"
  using assms by (induction ys) (auto simp: not_less intro: order.trans less_imp_le)

text \<open>Equal keys keep their order of arrival: everything not above the new key stays before it.\<close>

lemma insert_before_first_fifo:
  fixes f :: "'a \<Rightarrow> 'k::linorder"
  assumes "sorted_wrt (\<lambda>a b. f a \<le> f b) ys"
  shows "insert_before_first (\<lambda>y. f x < f y) x ys =
    filter (\<lambda>y. f y \<le> f x) ys @ x # filter (\<lambda>y. f x < f y) ys"
  using assms
proof (induction ys)
  case Nil
  show ?case by simp
next
  case (Cons y ys)
  show ?case
  proof (cases "f x < f y")
    case True
    with Cons.prems have "\<forall>z\<in>set ys. f x < f z" by (auto intro: less_le_trans)
    then have "filter (\<lambda>z. f z \<le> f x) ys = []" "filter (\<lambda>z. f x < f z) ys = ys"
      by (auto simp: filter_empty_conv filter_id_conv not_le)
    with True show ?thesis by simp
  next
    case False
    with Cons show ?thesis by simp
  qed
qed

lemma sorted_wrt_filterI [intro]: "sorted_wrt R xs \<Longrightarrow> sorted_wrt R (filter P xs)"
  by (induction xs) auto

lemma filter_neq_id [simp]: "x \<notin> set xs \<Longrightarrow> filter ((\<noteq>) x) xs = xs"
  by (auto simp: filter_id_conv)

lemma sorted_wrt_congI:
  assumes "sorted_wrt R xs" and "\<And>a b. a \<in> set xs \<Longrightarrow> b \<in> set xs \<Longrightarrow> R a b \<Longrightarrow> S a b"
  shows "sorted_wrt S xs"
  using assms sorted_wrt_mono_rel by metis

text \<open>Take the first element that satisfies a test out of a list.\<close>

fun take_first :: "('a \<Rightarrow> bool) \<Rightarrow> 'a list \<Rightarrow> 'a option" where
  "take_first P [] = None"
| "take_first P (x # xs) = (if P x then Some x else take_first P xs)"

lemma take_first_None [simp]: "take_first P xs = None \<longleftrightarrow> (\<forall>x\<in>set xs. \<not> P x)"
  by (induction xs) auto

lemma take_first_split:
  assumes "take_first P xs = Some x"
  shows "\<exists>ys zs. xs = ys @ x # zs \<and> P x \<and> (\<forall>y\<in>set ys. \<not> P y)"
  using assms
proof (induction xs)
  case (Cons a xs)
  show ?case
  proof (cases "P a")
    case True
    with Cons.prems show ?thesis by (intro exI [of _ "[]"] exI [of _ xs]) auto
  next
    case False
    with Cons obtain ys zs where "xs = ys @ x # zs" "P x" "\<forall>y\<in>set ys. \<not> P y" by auto
    with False show ?thesis by (intro exI [of _ "a # ys"] exI [of _ zs]) auto
  qed
qed simp

lemma take_first_SomeD:
  "take_first P xs = Some x \<Longrightarrow> x \<in> set xs \<and> P x"
  by (induction xs) (auto split: if_splits)

lemma take_first_sorted:
  fixes f :: "'a \<Rightarrow> 'k::linorder"
  assumes "sorted_wrt (\<lambda>a b. f a \<le> f b) xs" and "take_first P xs = Some x"
    and "y \<in> set xs" and "P y"
  shows "f x \<le> f y"
  using assms by (induction xs) (auto split: if_splits)

end
