(* ===== verification/Linked_List.thy ===== *)
theory Linked_List
  imports Prelude
begin

text \<open>
  The intrusive circular doubly linked lists: \<open>struct linked_list\<close> of
  \<open>toolkit-support/include/pico/toolkit/linked-list.h\<close> and \<open>struct sched_list\<close> of
  \<open>pico-scheduler/scheduler.c\<close>. The model is at pointer level: the heap is the two pointer
  fields as functions on node addresses, and each primitive is its sequence of assignments in
  the order of the source, so that aliasing has the effect it has in C.

  The predicate \<open>rep h H L\<close> says that the heap \<open>h\<close> holds, for each list head \<open>m\<close> of \<open>H\<close>, the
  list \<open>L m\<close>, that no node is in two lists and that every other node is linked to itself. The
  locale \<open>intrusive_list\<close> is the contract both implementations fulfil: what every primitive
  does to \<open>L\<close>. The loops of the clients (ordered insertion, pop, size) are proved once against
  that contract; this is what allows the scheduler and RTOS theories to work on lists.
\<close>

section \<open>The heap of list nodes\<close>

record 'n list_heap =
  nxt :: "'n \<Rightarrow> 'n"
  prv :: "'n \<Rightarrow> 'n"

definition set_nxt :: "'n \<Rightarrow> 'n \<Rightarrow> 'n list_heap \<Rightarrow> 'n list_heap" where
  "set_nxt n v h = h\<lparr>nxt := (nxt h)(n := v)\<rparr>"

definition set_prv :: "'n \<Rightarrow> 'n \<Rightarrow> 'n list_heap \<Rightarrow> 'n list_heap" where
  "set_prv n v h = h\<lparr>prv := (prv h)(n := v)\<rparr>"

lemma set_link_simps [simp]:
  "nxt (set_nxt n v h) = (nxt h)(n := v)"
  "prv (set_nxt n v h) = prv h"
  "nxt (set_prv n v h) = nxt h"
  "prv (set_prv n v h) = (prv h)(n := v)"
  by (simp_all add: set_nxt_def set_prv_def)

section \<open>The operations of linked-list.h\<close>

definition list_init :: "'n \<Rightarrow> 'n list_heap \<Rightarrow> 'n list_heap" where
  "list_init list h = set_prv list list (set_nxt list list h)"

definition list_is_empty :: "'n \<Rightarrow> 'n list_heap \<Rightarrow> bool" where
  "list_is_empty list h \<longleftrightarrow> nxt h list = list \<and> prv h list = list"

definition list_insert_after :: "'n \<Rightarrow> 'n \<Rightarrow> 'n list_heap \<Rightarrow> 'n list_heap" where
  "list_insert_after entry node h =
    (let h = set_nxt node (nxt h entry) h;
         h = set_prv node entry h;
         h = set_prv (nxt h entry) node h
     in set_nxt entry node h)"

definition list_insert_before :: "'n \<Rightarrow> 'n \<Rightarrow> 'n list_heap \<Rightarrow> 'n list_heap" where
  "list_insert_before entry node h =
    (let h = set_nxt node entry h;
         h = set_prv node (prv h entry) h;
         h = set_nxt (prv h entry) node h
     in set_prv entry node h)"

definition list_remove :: "'n \<Rightarrow> 'n list_heap \<Rightarrow> 'n list_heap" where
  "list_remove node h =
    (let h = set_prv (nxt h node) (prv h node) h;
         h = set_nxt (prv h node) (nxt h node) h
     in list_init node h)"

definition list_front :: "'n \<Rightarrow> 'n list_heap \<Rightarrow> 'n option" where
  "list_front list h = (if list_is_empty list h then None else Some (nxt h list))"

definition list_back :: "'n \<Rightarrow> 'n list_heap \<Rightarrow> 'n option" where
  "list_back list h = (if list_is_empty list h then None else Some (prv h list))"

definition list_add :: "'n \<Rightarrow> 'n \<Rightarrow> 'n list_heap \<Rightarrow> 'n list_heap" where
  "list_add list node h =
    (let h = set_nxt node list h;
         h = set_prv node (prv h list) h;
         h = set_nxt (prv h list) node h
     in set_prv list node h)"

definition list_push :: "'n \<Rightarrow> 'n \<Rightarrow> 'n list_heap \<Rightarrow> 'n list_heap" where
  "list_push list node h =
    (let h = set_nxt node (nxt h list) h;
         h = set_prv node list h;
         h = set_prv (nxt h list) node h
     in set_nxt list node h)"

definition list_pop :: "'n \<Rightarrow> 'n list_heap \<Rightarrow> 'n option \<times> 'n list_heap" where
  "list_pop list h =
    (if \<not> list_is_empty list h
     then let front = nxt h list in (Some front, list_remove front h)
     else (None, h))"

definition list_next :: "'n \<Rightarrow> 'n \<Rightarrow> 'n list_heap \<Rightarrow> 'n option" where
  "list_next list node h = (if nxt h node = list then None else Some (nxt h node))"

definition list_prev :: "'n \<Rightarrow> 'n \<Rightarrow> 'n list_heap \<Rightarrow> 'n option" where
  "list_prev list node h = (if prv h node = list then None else Some (prv h node))"

definition list_is_linked :: "'n \<Rightarrow> 'n list_heap \<Rightarrow> bool" where
  "list_is_linked node h \<longleftrightarrow> nxt h node \<noteq> node \<and> prv h node \<noteq> node"

text \<open>The loop of \<open>list_size\<close>; a walk that never comes back to the head does not return.\<close>

partial_function (option) list_size_loop ::
  "'n list_heap \<Rightarrow> 'n \<Rightarrow> 'n \<Rightarrow> nat \<Rightarrow> nat option" where
  "list_size_loop h list cursor n =
    (if cursor = list then Some n else list_size_loop h list (nxt h cursor) (Suc n))"

definition list_size :: "'n \<Rightarrow> 'n list_heap \<Rightarrow> nat option" where
  "list_size list h = list_size_loop h list (nxt h list) 0"

text \<open>
  \<open>list_for_each\<close> with a test and a \<open>break\<close>: the node it stops at, the head when no node
  satisfies the test.
\<close>

partial_function (option) list_find :: "'n list_heap \<Rightarrow> ('n \<Rightarrow> bool) \<Rightarrow> 'n \<Rightarrow> 'n \<Rightarrow> 'n option" where
  "list_find h P list cursor =
    (if cursor = list then Some list
     else if P cursor then Some cursor
     else list_find h P list (nxt h cursor))"

section \<open>The operations of struct sched_list\<close>

definition sched_list_init :: "'n \<Rightarrow> 'n list_heap \<Rightarrow> 'n list_heap" where
  "sched_list_init list h = set_prv list list (set_nxt list list h)"

definition sched_list_empty :: "'n \<Rightarrow> 'n list_heap \<Rightarrow> bool" where
  "sched_list_empty list h \<longleftrightarrow> nxt h list = list"

definition sched_list_insert :: "'n \<Rightarrow> 'n \<Rightarrow> 'n \<Rightarrow> 'n list_heap \<Rightarrow> 'n list_heap" where
  "sched_list_insert node first second h =
    (let h = set_prv second node h;
         h = set_nxt node second h;
         h = set_prv node first h
     in set_nxt first node h)"

definition sched_list_insert_after :: "'n \<Rightarrow> 'n \<Rightarrow> 'n list_heap \<Rightarrow> 'n list_heap" where
  "sched_list_insert_after entry node h =
    (let h = set_nxt node (nxt h entry) h;
         h = set_prv node entry h;
         h = set_prv (nxt h entry) node h
     in set_nxt entry node h)"

definition sched_list_insert_before :: "'n \<Rightarrow> 'n \<Rightarrow> 'n list_heap \<Rightarrow> 'n list_heap" where
  "sched_list_insert_before entry node h =
    (let h = set_nxt node entry h;
         h = set_prv node (prv h entry) h;
         h = set_nxt (prv h entry) node h
     in set_prv entry node h)"

definition sched_list_add :: "'n \<Rightarrow> 'n \<Rightarrow> 'n list_heap \<Rightarrow> 'n list_heap" where
  "sched_list_add list node h =
    (let h = set_nxt node list h;
         h = set_prv node (prv h list) h;
         h = set_nxt (prv h list) node h
     in set_prv list node h)"

definition sched_list_remove :: "'n \<Rightarrow> 'n list_heap \<Rightarrow> 'n list_heap" where
  "sched_list_remove node h =
    (let h = set_prv (nxt h node) (prv h node) h;
         h = set_nxt (prv h node) (nxt h node) h;
         h = set_nxt node node h
     in set_prv node node h)"

text \<open>\<open>sched_list_push\<close> puts the node at the tail, where \<open>list_push\<close> puts it at the front.\<close>

definition sched_list_push :: "'n \<Rightarrow> 'n \<Rightarrow> 'n list_heap \<Rightarrow> 'n list_heap" where
  "sched_list_push list node h = sched_list_insert node (prv h list) list h"

definition sched_list_pop :: "'n \<Rightarrow> 'n list_heap \<Rightarrow> 'n option \<times> 'n list_heap" where
  "sched_list_pop list h =
    (let node = nxt h list
     in if node = list then (None, h) else (Some node, sched_list_remove node h))"

definition sched_list_is_linked :: "'n \<Rightarrow> 'n list_heap \<Rightarrow> bool" where
  "sched_list_is_linked node h \<longleftrightarrow> nxt h node \<noteq> node"

text \<open>
  The pointer part of \<open>sched_queue_push\<close>: find the first queued node of a numerically larger
  priority, insert before it or, when there is none, push at the tail. \<open>prio\<close> is
  \<open>sched_container_of(node, struct task, queue_node)->current_priority\<close>.
\<close>

definition sched_queue_push_ptr ::
  "('n \<Rightarrow> word32) \<Rightarrow> 'n \<Rightarrow> 'n \<Rightarrow> 'n list_heap \<Rightarrow> 'n list_heap option" where
  "sched_queue_push_ptr prio queue node h = do {
     entry \<leftarrow> list_find h (\<lambda>n. prio n > prio node) queue (nxt h queue);
     Some (if entry \<noteq> queue then sched_list_insert_before entry node h
           else sched_list_push queue node h)
   }"

text \<open>
  The pointer part of \<open>scheduler_timer_push\<close>, of \<open>osMessageQueuePut\<close> and of \<open>osTimerStart\<close>:
  the cursor the loop stops at may be the head itself, and the node goes before it.
\<close>

definition ordered_insert_ptr ::
  "('n \<Rightarrow> 'n \<Rightarrow> 'n list_heap \<Rightarrow> 'n list_heap) \<Rightarrow> ('n \<Rightarrow> bool) \<Rightarrow> 'n \<Rightarrow> 'n \<Rightarrow> 'n list_heap
    \<Rightarrow> 'n list_heap option" where
  "ordered_insert_ptr insert_before P list node h = do {
     entry \<leftarrow> list_find h P list (nxt h list);
     Some (insert_before entry node h)
   }"

section \<open>Lists represented in the heap\<close>

fun linked :: "'n list_heap \<Rightarrow> 'n list \<Rightarrow> bool" where
  "linked h (a # b # xs) \<longleftrightarrow> nxt h a = b \<and> prv h b = a \<and> linked h (b # xs)"
| "linked h xs \<longleftrightarrow> True"

definition is_list :: "'n list_heap \<Rightarrow> 'n \<Rightarrow> 'n list \<Rightarrow> bool" where
  "is_list h l xs \<longleftrightarrow> distinct (l # xs) \<and> linked h (l # xs @ [l])"

definition rep :: "'n list_heap \<Rightarrow> 'n set \<Rightarrow> ('n \<Rightarrow> 'n list) \<Rightarrow> bool" where
  "rep h H L \<longleftrightarrow>
    (\<forall>l\<in>H. is_list h l (L l)) \<and>
    (\<forall>l\<in>H. \<forall>m\<in>H. l \<noteq> m \<longrightarrow> set (l # L l) \<inter> set (m # L m) = {}) \<and>
    (\<forall>n. (\<forall>l\<in>H. n \<notin> set (l # L l)) \<longrightarrow> nxt h n = n \<and> prv h n = n)"

definition unlinked :: "'n set \<Rightarrow> ('n \<Rightarrow> 'n list) \<Rightarrow> 'n \<Rightarrow> bool" where
  "unlinked H L n \<longleftrightarrow> (\<forall>l\<in>H. n \<notin> set (l # L l))"

lemma linked_append:
  "linked h (xs @ a # ys) \<longleftrightarrow> linked h (xs @ [a]) \<and> linked h (a # ys)"
proof (induction xs)
  case (Cons x xs)
  then show ?case by (cases xs) auto
qed (cases ys; simp)

lemma linked_cong:
  assumes "linked h xs"
    and "\<And>x. x \<in> set (butlast xs) \<Longrightarrow> nxt h' x = nxt h x"
    and "\<And>x. x \<in> set (tl xs) \<Longrightarrow> prv h' x = prv h x"
  shows "linked h' xs"
  using assms by (induction h xs rule: linked.induct) auto

lemma linked_join:
  assumes "linked h (xs @ [a])" and "nxt h a = b" and "prv h b = a" and "linked h (b # ys)"
  shows "linked h (xs @ a # b # ys)"
  using assms linked_append [of h xs a "b # ys"] by simp

lemma is_list_frame:
  assumes "is_list h l xs"
    and "\<And>x. x \<in> set (l # xs) \<Longrightarrow> nxt h' x = nxt h x \<and> prv h' x = prv h x"
  shows "is_list h' l xs"
  using assms unfolding is_list_def
  by (auto intro!: linked_cong [of h "l # xs @ [l]"] simp: butlast_append)

lemma ring_parts:
  "l # xs = butlast (l # xs) @ [last (l # xs)]"
  "ys @ [l] = hd (ys @ [l]) # tl (ys @ [l])"
  by (rule append_butlast_last_id [symmetric]; simp) (cases ys; simp)

lemma butlast_ne_last: "distinct xs \<Longrightarrow> x \<in> set (butlast xs) \<Longrightarrow> x \<noteq> last xs"
  by (induction xs) (auto split: if_splits)

text \<open>A ring is cut at one place: the part that ends in the last node before the cut and the rest.\<close>

lemma is_list_cut:
  assumes "is_list h l (xs @ ys)"
  shows "nxt h (last (l # xs)) = hd (ys @ [l])" "prv h (hd (ys @ [l])) = last (l # xs)"
    "linked h (l # xs)" "linked h (ys @ [l])"
proof -
  define A a b B where defs: "A = butlast (l # xs)" "a = last (l # xs)" "b = hd (ys @ [l])"
    "B = tl (ys @ [l])"
  have A: "l # xs = A @ [a]" and B: "ys @ [l] = b # B"
    unfolding defs by (rule ring_parts)+
  have "l # (xs @ ys) @ [l] = (l # xs) @ (ys @ [l])" by simp
  then have "linked h (A @ a # b # B)" using assms unfolding is_list_def A B by simp
  then have "linked h (A @ [a]) \<and> nxt h a = b \<and> prv h b = a \<and> linked h (b # B)"
    using linked_append [of h A a "b # B"] by simp
  then show "nxt h (last (l # xs)) = hd (ys @ [l])" "prv h (hd (ys @ [l])) = last (l # xs)"
    "linked h (l # xs)" "linked h (ys @ [l])"
    unfolding A B by (simp_all add: defs)
qed

lemma is_list_join:
  assumes "distinct (l # xs @ ys)" and "linked h (l # xs)" and "linked h (ys @ [l])"
    and "nxt h (last (l # xs)) = hd (ys @ [l])" and "prv h (hd (ys @ [l])) = last (l # xs)"
  shows "is_list h l (xs @ ys)"
proof -
  define A a b B where defs: "A = butlast (l # xs)" "a = last (l # xs)" "b = hd (ys @ [l])"
    "B = tl (ys @ [l])"
  have A: "l # xs = A @ [a]" and B: "ys @ [l] = b # B"
    unfolding defs by (rule ring_parts)+
  have "linked h (A @ a # b # B)"
    by (rule linked_join) (use assms(2-5) in \<open>simp_all add: A B\<close>)
  moreover have "A @ a # b # B = l # (xs @ ys) @ [l]" using A B by (metis append.assoc append_Cons append_Nil)
  ultimately show ?thesis using assms(1) by (simp add: is_list_def)
qed

lemma is_list_insert:
  assumes l: "is_list h l (xs @ ys)" and n: "n \<notin> set (l # xs @ ys)"
    and nxt: "nxt h' = (nxt h)(n := hd (ys @ [l]), last (l # xs) := n)"
    and prv: "prv h' = (prv h)(n := last (l # xs), hd (ys @ [l]) := n)"
  shows "is_list h' l (xs @ n # ys)"
proof (rule is_list_join)
  have d: "distinct (l # xs @ ys)" using l by (simp add: is_list_def)
  then show "distinct (l # xs @ n # ys)" using n by auto
  have last: "last (l # xs) \<in> set (l # xs)" by (rule last_in_set) simp
  have hd: "hd (ys @ [l]) \<in> set (ys @ [l])" by (rule hd_in_set) simp
  have ne: "last (l # xs) \<noteq> n" "hd (ys @ [l]) \<noteq> n" using last hd n by auto
  show "nxt h' (last (l # xs)) = hd ((n # ys) @ [l])" by (simp add: nxt)
  show "prv h' (hd ((n # ys) @ [l])) = last (l # xs)" using ne by (simp add: prv)
  show "linked h' (l # xs)"
  proof (rule linked_cong [OF is_list_cut(3) [OF l]])
    fix x assume "x \<in> set (butlast (l # xs))"
    then have "x \<noteq> n" "x \<noteq> last (l # xs)"
      using n d butlast_ne_last [of "l # xs" x] by (auto dest: in_set_butlastD split: if_splits)
    then show "nxt h' x = nxt h x" by (simp add: nxt)
  next
    fix x assume "x \<in> set (tl (l # xs))"
    then have "x \<noteq> n" "x \<noteq> hd (ys @ [l])"
      using n d hd by auto
    then show "prv h' x = prv h x" by (simp add: prv)
  qed
  have B: "linked h' (ys @ [l])"
  proof (rule linked_cong [OF is_list_cut(4) [OF l]])
    fix x assume "x \<in> set (butlast (ys @ [l]))"
    then have "x \<noteq> n" "x \<noteq> last (l # xs)"
      using n d last by auto
    then show "nxt h' x = nxt h x" by (simp add: nxt)
  next
    fix x assume x: "x \<in> set (tl (ys @ [l]))"
    then have "x \<noteq> n" "x \<noteq> hd (ys @ [l])"
      using n d by (cases ys; auto)+
    then show "prv h' x = prv h x" by (simp add: prv)
  qed
  have "nxt h' n = hd (ys @ [l])" "prv h' (hd (ys @ [l])) = n"
    using ne by (simp_all add: nxt prv)
  with B show "linked h' ((n # ys) @ [l])" by (cases ys) auto
qed

lemma is_list_delete:
  assumes l: "is_list h l (xs @ n # ys)"
    and nxt: "nxt h' = (nxt h)(last (l # xs) := hd (ys @ [l]), n := n)"
    and prv: "prv h' = (prv h)(hd (ys @ [l]) := last (l # xs), n := n)"
  shows "is_list h' l (xs @ ys)"
proof (rule is_list_join)
  have d: "distinct (l # xs @ n # ys)" using l by (simp add: is_list_def)
  then show "distinct (l # xs @ ys)" by auto
  have last: "last (l # xs) \<in> set (l # xs)" by (rule last_in_set) simp
  have hd: "hd (ys @ [l]) \<in> set (ys @ [l])" by (rule hd_in_set) simp
  have ne: "last (l # xs) \<noteq> n" "hd (ys @ [l]) \<noteq> n" using last hd d by auto
  show "nxt h' (last (l # xs)) = hd (ys @ [l])" using ne by (simp add: nxt)
  show "prv h' (hd (ys @ [l])) = last (l # xs)" using ne by (simp add: prv)
  show "linked h' (l # xs)"
  proof (rule linked_cong [OF is_list_cut(3) [OF l]])
    fix x assume "x \<in> set (butlast (l # xs))"
    then have "x \<noteq> n" "x \<noteq> last (l # xs)"
      using d butlast_ne_last [of "l # xs" x] by (auto dest: in_set_butlastD split: if_splits)
    then show "nxt h' x = nxt h x" by (simp add: nxt)
  next
    fix x assume "x \<in> set (tl (l # xs))"
    then have "x \<noteq> n" "x \<noteq> hd (ys @ [l])" using d hd by auto
    then show "prv h' x = prv h x" by (simp add: prv)
  qed
  have "linked h (ys @ [l])"
    using is_list_cut(4) [OF l] by (cases ys) auto
  then show "linked h' (ys @ [l])"
  proof (rule linked_cong)
    fix x assume "x \<in> set (butlast (ys @ [l]))"
    then have "x \<noteq> n" "x \<noteq> last (l # xs)" using d last by auto
    then show "nxt h' x = nxt h x" by (simp add: nxt)
  next
    fix x assume "x \<in> set (tl (ys @ [l]))"
    then have "x \<noteq> n" "x \<noteq> hd (ys @ [l])" using d by (cases ys; auto)+
    then show "prv h' x = prv h x" by (simp add: prv)
  qed
qed

lemma is_list_around:
  assumes "is_list h l (xs @ n # ys)"
  shows "prv h n = last (l # xs)" "nxt h n = hd (ys @ [l])"
    "nxt h (last (l # xs)) = n" "prv h (hd (ys @ [l])) = n"
  using is_list_cut [OF assms] is_list_cut [of h l "xs @ [n]" ys] assms by auto

section \<open>The store of all lists\<close>

lemma rep_is_list: "rep h H L \<Longrightarrow> l \<in> H \<Longrightarrow> is_list h l (L l)"
  by (simp add: rep_def)

lemma rep_cong: "(\<And>l. l \<in> H \<Longrightarrow> L l = L' l) \<Longrightarrow> rep h H L = rep h H L'"
  by (simp add: rep_def)

lemma rep_disjoint:
  "rep h H L \<Longrightarrow> l \<in> H \<Longrightarrow> m \<in> H \<Longrightarrow> l \<noteq> m \<Longrightarrow> x \<in> set (l # L l) \<Longrightarrow> x \<notin> set (m # L m)"
  unfolding rep_def by (metis disjoint_iff)

lemma rep_unlinked: "rep h H L \<Longrightarrow> unlinked H L n \<Longrightarrow> nxt h n = n \<and> prv h n = n"
  unfolding rep_def unlinked_def by blast

lemma rep_distinct: "rep h H L \<Longrightarrow> l \<in> H \<Longrightarrow> distinct (l # L l)"
  by (simp add: rep_def is_list_def)

lemma rep_head_not_member: "rep h H L \<Longrightarrow> l \<in> H \<Longrightarrow> m \<in> H \<Longrightarrow> l \<notin> set (L m)"
  using rep_disjoint [of h H L l m l] rep_distinct [of h H L m] by (cases "l = m") auto

lemma ring_ends: "last (l # xs) \<in> set (l # xs @ ys)" "hd (ys @ [l]) \<in> set (l # xs @ ys)"
proof -
  show "last (l # xs) \<in> set (l # xs @ ys)" using last_in_set [of "l # xs"] by auto
  show "hd (ys @ [l]) \<in> set (l # xs @ ys)" by (cases ys) auto
qed

lemma rep_insert:
  assumes r: "rep h H L" and m: "m \<in> H" and L: "L m = xs @ ys" and n: "unlinked H L n"
    and nxt: "nxt h' = (nxt h)(n := hd (ys @ [m]), last (m # xs) := n)"
    and prv: "prv h' = (prv h)(n := last (m # xs), hd (ys @ [m]) := n)"
  shows "rep h' H (L(m := xs @ n # ys))"
  unfolding rep_def
proof (intro conjI ballI allI impI)
  fix l assume lH: "l \<in> H"
  show "is_list h' l ((L(m := xs @ n # ys)) l)"
  proof (cases "l = m")
    case True
    have "is_list h m (xs @ ys)" using rep_is_list [OF r m] L by simp
    moreover have "n \<notin> set (m # xs @ ys)" using n m L by (auto simp: unlinked_def)
    ultimately show ?thesis using True is_list_insert [OF _ _ nxt prv] by simp
  next
    case False
    have "nxt h' x = nxt h x \<and> prv h' x = prv h x" if x: "x \<in> set (l # L l)" for x
    proof -
      have "x \<notin> set (m # xs @ ys)" using rep_disjoint [OF r lH m False x] L by simp
      then have "x \<noteq> last (m # xs)" "x \<noteq> hd (ys @ [m])" using ring_ends by metis+
      moreover have "x \<noteq> n" using n lH x unfolding unlinked_def by blast
      ultimately show ?thesis by (simp only: nxt prv fun_upd_apply if_False refl conj_absorb)
    qed
    then show ?thesis using is_list_frame [OF rep_is_list [OF r lH]] False by simp
  qed
next
  fix l k assume lk: "l \<in> H" "k \<in> H" "l \<noteq> k"
  have "x \<notin> set (k # (L(m := xs @ n # ys)) k)" if "x \<in> set (l # (L(m := xs @ n # ys)) l)" for x
    using that rep_disjoint [OF r lk, of x] n lk L by (auto simp: unlinked_def split: if_splits)
  then show "set (l # (L(m := xs @ n # ys)) l) \<inter> set (k # (L(m := xs @ n # ys)) k) = {}"
    by blast
next
  fix x assume x: "\<forall>l\<in>H. x \<notin> set (l # (L(m := xs @ n # ys)) l)"
  have xm: "x \<notin> set (m # xs @ n # ys)" using bspec [OF x m] by simp
  have "unlinked H L x"
    unfolding unlinked_def
  proof
    fix l assume l: "l \<in> H"
    show "x \<notin> set (l # L l)" using bspec [OF x l] xm L by (cases "l = m") simp_all
  qed
  with xm show "nxt h' x = x" "prv h' x = x"
    using rep_unlinked [OF r] ring_ends [where l = m and xs = xs and ys = ys] by (auto simp: nxt prv)
qed

lemma rep_delete:
  assumes r: "rep h H L" and m: "m \<in> H" and L: "L m = xs @ n # ys"
    and nxt: "nxt h' = (nxt h)(last (m # xs) := hd (ys @ [m]), n := n)"
    and prv: "prv h' = (prv h)(hd (ys @ [m]) := last (m # xs), n := n)"
  shows "rep h' H (L(m := xs @ ys))"
  unfolding rep_def
proof (intro conjI ballI allI impI)
  fix l assume lH: "l \<in> H"
  show "is_list h' l ((L(m := xs @ ys)) l)"
  proof (cases "l = m")
    case True
    have "is_list h m (xs @ n # ys)" using rep_is_list [OF r m] L by simp
    then show ?thesis using True is_list_delete [OF _ nxt prv] by simp
  next
    case False
    have "nxt h' x = nxt h x \<and> prv h' x = prv h x" if x: "x \<in> set (l # L l)" for x
    proof -
      have xm: "x \<notin> set (m # xs @ n # ys)" using rep_disjoint [OF r lH m False x] L by simp
      then have "x \<notin> set (m # xs @ ys)" by simp
      then have "x \<noteq> last (m # xs)" "x \<noteq> hd (ys @ [m])" using ring_ends by metis+
      moreover have "x \<noteq> n" using xm by simp
      ultimately show ?thesis by (simp only: nxt prv fun_upd_apply if_False refl conj_absorb)
    qed
    then show ?thesis using is_list_frame [OF rep_is_list [OF r lH]] False by simp
  qed
next
  fix l k assume lk: "l \<in> H" "k \<in> H" "l \<noteq> k"
  have "x \<notin> set (k # (L(m := xs @ ys)) k)" if "x \<in> set (l # (L(m := xs @ ys)) l)" for x
    using that rep_disjoint [OF r lk, of x] L by (auto split: if_splits)
  then show "set (l # (L(m := xs @ ys)) l) \<inter> set (k # (L(m := xs @ ys)) k) = {}"
    by blast
next
  fix x assume x: "\<forall>l\<in>H. x \<notin> set (l # (L(m := xs @ ys)) l)"
  show "nxt h' x = x" "prv h' x = x"
  proof (atomize (full), cases "x = n")
    case False
    have xm: "x \<notin> set (m # xs @ ys)" using bspec [OF x m] by simp
    have "unlinked H L x"
      unfolding unlinked_def
    proof
      fix l assume l: "l \<in> H"
      show "x \<notin> set (l # L l)" using bspec [OF x l] xm L False by (cases "l = m") simp_all
    qed
    with xm show "nxt h' x = x \<and> prv h' x = x"
      using rep_unlinked [OF r] ring_ends [where l = m and xs = xs and ys = ys] False by (auto simp: nxt prv)
  qed (simp add: nxt prv)
qed

text \<open>
  Removal takes a node out of whichever list holds it, and leaves a node that is in no list
  alone: the code calls it without knowing which of the two it is.
\<close>

lemma rep_remove:
  assumes r: "rep h H L" and n: "n \<notin> H"
    and nxt: "\<And>a b. prv h n = a \<Longrightarrow> nxt h n = b \<Longrightarrow> nxt h' = (nxt h)(a := b, n := n)"
    and prv: "\<And>a b. prv h n = a \<Longrightarrow> nxt h n = b \<Longrightarrow> prv h' = (prv h)(b := a, n := n)"
  shows "rep h' H (\<lambda>l. filter ((\<noteq>) n) (L l))"
proof (cases "unlinked H L n")
  case True
  then have self: "nxt h n = n" "prv h n = n" using rep_unlinked [OF r] by auto
  have "nxt h' = nxt h" "prv h' = prv h"
    using nxt [OF self(2,1)] prv [OF self(2,1)] self by (auto simp: fun_upd_idem)
  then have "h' = h" by simp
  moreover have "rep h H (\<lambda>l. filter ((\<noteq>) n) (L l)) = rep h H L"
    by (rule rep_cong) (use True in \<open>simp add: unlinked_def\<close>)
  ultimately show ?thesis using r by simp
next
  case False
  then obtain m where m: "m \<in> H" "n \<in> set (L m)" using n by (auto simp: unlinked_def)
  then obtain xs ys where L: "L m = xs @ n # ys" by (meson split_list)
  have il: "is_list h m (xs @ n # ys)" using rep_is_list [OF r m(1)] L by simp
  have d: "distinct (xs @ n # ys)" using il by (simp add: is_list_def)
  have del: "rep h' H (L(m := xs @ ys))"
    by (rule rep_delete [OF r m(1) L nxt [OF is_list_around(1,2) [OF il]] prv [OF is_list_around(1,2) [OF il]]])
  have "filter ((\<noteq>) n) (L l) = (L(m := xs @ ys)) l" if "l \<in> H" for l
    using d L rep_disjoint [OF r m(1) that, of n] m(2) by (cases "l = m") auto
  then have "rep h' H (\<lambda>l. filter ((\<noteq>) n) (L l)) = rep h' H (L(m := xs @ ys))"
    by (rule rep_cong)
  then show ?thesis using del by simp
qed

section \<open>The contract of an intrusive list\<close>

locale intrusive_list =
  fixes insert_before :: "'n \<Rightarrow> 'n \<Rightarrow> 'n list_heap \<Rightarrow> 'n list_heap"
    and add_tail :: "'n \<Rightarrow> 'n \<Rightarrow> 'n list_heap \<Rightarrow> 'n list_heap"
    and remove :: "'n \<Rightarrow> 'n list_heap \<Rightarrow> 'n list_heap"
    and pop :: "'n \<Rightarrow> 'n list_heap \<Rightarrow> 'n option \<times> 'n list_heap"
    and is_linked :: "'n \<Rightarrow> 'n list_heap \<Rightarrow> bool"
    and is_empty :: "'n \<Rightarrow> 'n list_heap \<Rightarrow> bool"
  assumes insert_before_rep: "rep h H L \<Longrightarrow> m \<in> H \<Longrightarrow> L m = xs @ e # ys \<Longrightarrow> unlinked H L n \<Longrightarrow>
      rep (insert_before e n h) H (L(m := xs @ n # e # ys))"
    and insert_before_head_rep: "rep h H L \<Longrightarrow> m \<in> H \<Longrightarrow> unlinked H L n \<Longrightarrow>
      rep (insert_before m n h) H (L(m := L m @ [n]))"
    and add_tail_rep: "rep h H L \<Longrightarrow> m \<in> H \<Longrightarrow> unlinked H L n \<Longrightarrow>
      rep (add_tail m n h) H (L(m := L m @ [n]))"
    and remove_rep: "rep h H L \<Longrightarrow> n \<notin> H \<Longrightarrow> rep (remove n h) H (\<lambda>l. filter ((\<noteq>) n) (L l))"
    and pop_def: "pop m h = (if is_empty m h then (None, h) else (Some (nxt h m), remove (nxt h m) h))"
    and is_linked_rep: "rep h H L \<Longrightarrow> n \<notin> H \<Longrightarrow> is_linked n h \<longleftrightarrow> \<not> unlinked H L n"
    and is_empty_rep: "rep h H L \<Longrightarrow> m \<in> H \<Longrightarrow> is_empty m h \<longleftrightarrow> L m = []"
begin

text \<open>A walk from the head finds the first node that satisfies the test, and always ends.\<close>

lemma find_list_from:
  assumes "is_list h m (xs @ ys)" and "\<forall>x\<in>set xs. \<not> P x"
  shows "list_find h P m (hd (ys @ [m])) = Some (case take_first P ys of None \<Rightarrow> m | Some e \<Rightarrow> e)"
  using assms
proof (induction ys arbitrary: xs)
  case Nil
  then show ?case by (simp add: list_find.simps)
next
  case (Cons y ys)
  have ne: "y \<noteq> m" using Cons.prems by (auto simp: is_list_def)
  show ?case
  proof (cases "P y")
    case True
    with ne show ?thesis by (simp add: list_find.simps)
  next
    case False
    have "is_list h m ((xs @ [y]) @ ys)" using Cons.prems by simp
    moreover have "\<forall>x\<in>set (xs @ [y]). \<not> P x" using Cons.prems False by auto
    ultimately have "list_find h P m (hd (ys @ [m])) = Some (case take_first P ys of None \<Rightarrow> m | Some e \<Rightarrow> e)"
      by (rule Cons.IH)
    moreover have "nxt h y = hd (ys @ [m])" using is_list_around(2) Cons.prems(1) by metis
    ultimately show ?thesis using False ne by (simp add: list_find.simps [of h P m y])
  qed
qed

lemma find_list:
  assumes "is_list h m xs"
  shows "list_find h P m (nxt h m) = Some (case take_first P xs of None \<Rightarrow> m | Some e \<Rightarrow> e)"
  using find_list_from [of h m "[]" xs P] is_list_cut(1) [of h m "[]" xs] assms by simp

text \<open>The ordered insertion loop does on the heap what \<open>insert_before_first\<close> does on the list.\<close>

lemma ordered_insert:
  assumes r: "rep h H L" and m: "m \<in> H" and n: "unlinked H L n"
  shows "\<exists>h'. ordered_insert_ptr insert_before P m n h = Some h' \<and>
    rep h' H (L(m := insert_before_first P n (L m)))"
proof (cases "take_first P (L m)")
  case None
  then have "insert_before_first P n (L m) = L m @ [n]"
    by (simp add: insert_before_first_split takeWhile_eq_all_conv [THEN iffD2] dropWhile_eq_Nil_conv [THEN iffD2])
  then show ?thesis
    using None insert_before_head_rep [OF r m n] find_list [OF rep_is_list [OF r m], of P]
    by (simp add: ordered_insert_ptr_def del: take_first_None)
next
  case (Some e)
  then obtain xs ys where L: "L m = xs @ e # ys" "P e" "\<forall>x\<in>set xs. \<not> P x"
    using take_first_split by metis
  then have "insert_before_first P n (L m) = xs @ n # e # ys"
    by (simp add: insert_before_first_split takeWhile_append dropWhile_append)
  then show ?thesis
    using Some insert_before_rep [OF r m L(1) n] find_list [OF rep_is_list [OF r m], of P]
    by (simp add: ordered_insert_ptr_def)
qed

lemma pop_rep:
  assumes r: "rep h H L" and m: "m \<in> H"
  shows "case L m of
      [] \<Rightarrow> pop m h = (None, h)
    | x # xs \<Rightarrow> fst (pop m h) = Some x \<and> rep (snd (pop m h)) H (L(m := xs))"
proof (cases "L m")
  case Nil
  then show ?thesis using is_empty_rep [OF r m] by (simp add: pop_def)
next
  case (Cons x xs)
  then have "nxt h m = x" using is_list_cut(1) [of h m "[]" "x # xs"] rep_is_list [OF r m] by simp
  moreover have "x \<notin> H" using rep_head_not_member [OF r _ m, of x] Cons by auto
  then have "rep (remove x h) H (\<lambda>l. filter ((\<noteq>) x) (L l))" by (rule remove_rep [OF r])
  moreover have "filter ((\<noteq>) x) (L l) = (L(m := xs)) l" if "l \<in> H" for l
    using rep_disjoint [OF r m that, of x] rep_distinct [OF r m] Cons by (cases "l = m") auto
  then have "rep (remove x h) H (\<lambda>l. filter ((\<noteq>) x) (L l)) = rep (remove x h) H (L(m := xs))"
    by (rule rep_cong)
  ultimately show ?thesis using Cons is_empty_rep [OF r m] by (simp add: pop_def)
qed

text \<open>Move a node into another list whatever list it is in: the requeue of the scheduler.\<close>

lemma requeue:
  assumes r: "rep h H L" and m: "m \<in> H" and n: "n \<notin> H"
  shows "\<exists>h'. ordered_insert_ptr insert_before P m n (remove n h) = Some h' \<and>
    rep h' H ((\<lambda>l. filter ((\<noteq>) n) (L l))(m := insert_before_first P n (filter ((\<noteq>) n) (L m))))"
proof -
  have "rep (remove n h) H (\<lambda>l. filter ((\<noteq>) n) (L l))" by (rule remove_rep [OF r n])
  moreover have "unlinked H (\<lambda>l. filter ((\<noteq>) n) (L l)) n" using n by (auto simp: unlinked_def)
  ultimately show ?thesis using ordered_insert [OF _ m] by blast
qed

end

section \<open>Both implementations fulfil the contract\<close>

lemma rep_insert_before:
  assumes r: "rep h H L" and m: "m \<in> H" and L: "L m = xs @ ys" and n: "unlinked H L n"
    and e: "e = hd (ys @ [m])"
    and nxt: "nxt h' = (nxt h)(n := e, prv h e := n)"
    and prv: "prv h' = (prv h)(n := prv h e, e := n)"
  shows "rep h' H (L(m := xs @ n # ys))"
proof (rule rep_insert [OF r m L n])
  have "prv h e = last (m # xs)"
    using is_list_cut(2) [of h m xs ys] rep_is_list [OF r m] by (simp add: L e)
  then show "nxt h' = (nxt h)(n := hd (ys @ [m]), last (m # xs) := n)"
    "prv h' = (prv h)(n := last (m # xs), hd (ys @ [m]) := n)"
    using nxt prv by (simp_all only: e)
qed

lemma unlinked_ne:
  assumes "m \<in> H" and "L m = xs @ ys" and "unlinked H L n"
  shows "n \<noteq> hd (ys @ [m])" "n \<noteq> m"
  using assms by (cases ys; auto simp: unlinked_def)+

lemma rep_linked_iff:
  assumes r: "rep h H L" and n: "n \<notin> H"
  shows "nxt h n \<noteq> n \<longleftrightarrow> \<not> unlinked H L n" "prv h n \<noteq> n \<longleftrightarrow> \<not> unlinked H L n"
proof -
  have "nxt h n \<noteq> n \<and> prv h n \<noteq> n" if nu: "\<not> unlinked H L n"
  proof -
    obtain m where m: "m \<in> H" "n \<in> set (L m)" using n nu by (auto simp: unlinked_def)
    then obtain xs ys where L: "L m = xs @ n # ys" by (meson split_list)
    have il: "is_list h m (xs @ n # ys)" using rep_is_list [OF r m(1)] L by simp
    then have d: "distinct (m # xs @ n # ys)" by (simp add: is_list_def)
    have "hd (ys @ [m]) \<noteq> n" "last (m # xs) \<noteq> n"
      using d ring_ends [where l = m and xs = xs and ys = ys] by auto
    then show ?thesis using is_list_around(1,2) [OF il] by simp
  qed
  then show "nxt h n \<noteq> n \<longleftrightarrow> \<not> unlinked H L n" "prv h n \<noteq> n \<longleftrightarrow> \<not> unlinked H L n"
    using rep_unlinked [OF r] by blast+
qed

lemma rep_empty_iff:
  assumes r: "rep h H L" and m: "m \<in> H"
  shows "nxt h m = m \<longleftrightarrow> L m = []" "prv h m = m \<longleftrightarrow> L m = []"
proof -
  have il: "is_list h m (L m)" by (rule rep_is_list [OF r m])
  have d: "m \<notin> set (L m)" using il by (simp add: is_list_def)
  have "nxt h m = hd (L m @ [m])" using is_list_cut(1) [of h m "[]" "L m"] il by simp
  then show "nxt h m = m \<longleftrightarrow> L m = []" using d by (cases "L m") auto
  have "prv h m = last (m # L m)" using is_list_cut(2) [of h m "L m" "[]"] il by simp
  then show "prv h m = m \<longleftrightarrow> L m = []" using d by (cases "L m = []") (auto, metis last_in_set)
qed

interpretation ll: intrusive_list list_insert_before list_add list_remove list_pop
  list_is_linked list_is_empty
proof unfold_locales
  fix h :: "'a list_heap" and H L m xs e ys n
  assume "rep h H L" "m \<in> H" "L m = xs @ e # ys" "unlinked H L n"
  then show "rep (list_insert_before e n h) H (L(m := xs @ n # e # ys))"
    using unlinked_ne [of m H L xs "e # ys" n]
    by (intro rep_insert_before) (auto simp: list_insert_before_def Let_def)
next
  fix h :: "'a list_heap" and H L m n
  assume "rep h H L" "m \<in> H" "unlinked H L n"
  then show "rep (list_insert_before m n h) H (L(m := L m @ [n]))"
    "rep (list_add m n h) H (L(m := L m @ [n]))"
    using unlinked_ne [of m H L "L m" "[]" n]
    by (auto simp: list_insert_before_def list_add_def Let_def intro!: rep_insert_before)
next
  fix h :: "'a list_heap" and H L n
  assume "rep h H L" "n \<notin> H"
  then show "rep (list_remove n h) H (\<lambda>l. filter ((\<noteq>) n) (L l))"
    by (rule rep_remove) (auto simp: list_remove_def list_init_def Let_def fun_upd_def)
  show "list_is_linked n h \<longleftrightarrow> \<not> unlinked H L n"
    using rep_linked_iff [OF \<open>rep h H L\<close> \<open>n \<notin> H\<close>] by (auto simp: list_is_linked_def)
next
  fix h :: "'a list_heap" and H L m
  assume "rep h H L" "m \<in> H"
  then show "list_is_empty m h \<longleftrightarrow> L m = []"
    using rep_empty_iff [of h H L m] by (auto simp: list_is_empty_def)
qed (auto simp: list_pop_def Let_def)

interpretation sl: intrusive_list sched_list_insert_before sched_list_push sched_list_remove
  sched_list_pop sched_list_is_linked sched_list_empty
proof unfold_locales
  fix h :: "'a list_heap" and H L m xs e ys n
  assume "rep h H L" "m \<in> H" "L m = xs @ e # ys" "unlinked H L n"
  then show "rep (sched_list_insert_before e n h) H (L(m := xs @ n # e # ys))"
    using unlinked_ne [of m H L xs "e # ys" n]
    by (intro rep_insert_before) (auto simp: sched_list_insert_before_def Let_def)
next
  fix h :: "'a list_heap" and H L m n
  assume "rep h H L" "m \<in> H" "unlinked H L n"
  then show "rep (sched_list_insert_before m n h) H (L(m := L m @ [n]))"
    "rep (sched_list_push m n h) H (L(m := L m @ [n]))"
    using unlinked_ne [of m H L "L m" "[]" n]
    by (auto simp: sched_list_insert_before_def sched_list_push_def sched_list_insert_def Let_def
        fun_upd_twist intro!: rep_insert_before)
next
  fix h :: "'a list_heap" and H L n
  assume "rep h H L" "n \<notin> H"
  then show "rep (sched_list_remove n h) H (\<lambda>l. filter ((\<noteq>) n) (L l))"
    by (rule rep_remove) (auto simp: sched_list_remove_def Let_def fun_upd_def)
  show "sched_list_is_linked n h \<longleftrightarrow> \<not> unlinked H L n"
    using rep_linked_iff [OF \<open>rep h H L\<close> \<open>n \<notin> H\<close>] by (auto simp: sched_list_is_linked_def)
next
  fix h :: "'a list_heap" and H L m
  assume "rep h H L" "m \<in> H"
  then show "sched_list_empty m h \<longleftrightarrow> L m = []"
    using rep_empty_iff [of h H L m] by (auto simp: sched_list_empty_def)
qed (auto simp: sched_list_pop_def sched_list_empty_def Let_def)

section \<open>What the pointer code guarantees\<close>

definition fresh_heap :: "'n list_heap" where
  "fresh_heap = \<lparr>nxt = (\<lambda>n. n), prv = (\<lambda>n. n)\<rparr>"

lemma rep_fresh: "rep fresh_heap H (\<lambda>_. [])"
  by (simp add: rep_def is_list_def fresh_heap_def)

lemma unlinked_fresh: "n \<notin> H \<Longrightarrow> unlinked H (\<lambda>_. []) n"
  by (auto simp: unlinked_def)

text \<open>A heap with one list, at head 0, that holds the nodes 3 and 4.\<close>

definition sample_heap :: "nat list_heap" where
  "sample_heap = sched_list_push 0 4 (sched_list_push 0 3 fresh_heap)"

lemma rep_sample: "rep sample_heap {0} ((\<lambda>_. [])(0 := [3, 4]))"
proof -
  have "rep (sched_list_push 0 3 fresh_heap) {0::nat} ((\<lambda>_. [])(0 := [3]))"
    using sl.add_tail_rep [OF rep_fresh, of 0 "{0::nat}" 3] by (simp add: unlinked_fresh)
  then show ?thesis
    using sl.add_tail_rep [of _ "{0::nat}" "(\<lambda>_. [])(0 := [3])" 0 4]
    by (simp add: unlinked_def sample_heap_def)
qed

text \<open>
  C26. \<open>sched_queue_push\<close> on the pointers: for a node that is in no list, the search loop ends and
  the heap afterwards holds the queue with the node inserted before the first entry of larger
  priority value, at the tail when there is none; every other list is as before.
\<close>

theorem sched_queue_push_refines:
  assumes "rep h H L" and "queue \<in> H" and "unlinked H L node"
  shows "\<exists>h'. sched_queue_push_ptr p queue node h = Some h' \<and>
    rep h' H (L(queue := insert_before_first (\<lambda>n. p n > p node) node (L queue)))"
proof -
  define P where "P = (\<lambda>n. p n > p node)"
  note find = sl.find_list [OF rep_is_list [OF assms(1,2)], of P]
  have "\<exists>h'. sched_queue_push_ptr p queue node h = Some h' \<and>
    rep h' H (L(queue := insert_before_first P node (L queue)))"
  proof (cases "take_first P (L queue)")
    case None
    then have "insert_before_first P node (L queue) = L queue @ [node]"
      by (simp add: insert_before_first_split takeWhile_eq_all_conv [THEN iffD2]
          dropWhile_eq_Nil_conv [THEN iffD2])
    then show ?thesis
      using find None sl.add_tail_rep [OF assms]
      by (simp add: sched_queue_push_ptr_def P_def [symmetric] del: take_first_None)
  next
    case (Some e)
    then obtain xs ys where L: "L queue = xs @ e # ys" "P e" "\<forall>x\<in>set xs. \<not> P x"
      using take_first_split by metis
    then have "insert_before_first P node (L queue) = xs @ node # e # ys"
      by (simp add: insert_before_first_split takeWhile_append dropWhile_append)
    moreover have "e \<noteq> queue" using L(1) rep_is_list [OF assms(1,2)] by (auto simp: is_list_def)
    ultimately show ?thesis
      using find Some sl.insert_before_rep [OF assms(1,2) L(1) assms(3)]
      by (simp add: sched_queue_push_ptr_def P_def [symmetric])
  qed
  then show ?thesis by (simp add: P_def)
qed

theorem sched_queue_push_refines_witness:
  "\<exists>h'. sched_queue_push_ptr (\<lambda>n. if n = 3 then 10 else if n = 4 then 20 else 15) 0 9 sample_heap = Some h' \<and>
    rep h' {0} ((\<lambda>_. [])(0 := [3, 9, 4]))"
  using sched_queue_push_refines [OF rep_sample, of 0 9
      "\<lambda>n. if n = 3 then 10 else if n = 4 then 20 else 15"]
  by (simp add: unlinked_def)

text \<open>
  C27. Removal works without knowing the list: both \<open>sched_list_remove\<close> and \<open>list_remove\<close> take a
  node out of whichever list holds it, leave all else as it was, and do nothing to a node that
  is in no list; afterwards the node counts as unlinked.
\<close>

theorem list_remove_anywhere:
  assumes "rep h H L" and "node \<notin> H"
  shows "rep (sched_list_remove node h) H (\<lambda>l. filter ((\<noteq>) node) (L l)) \<and>
    rep (list_remove node h) H (\<lambda>l. filter ((\<noteq>) node) (L l)) \<and>
    \<not> sched_list_is_linked node (sched_list_remove node h) \<and>
    \<not> list_is_linked node (list_remove node h)"
proof -
  have u: "unlinked H (\<lambda>l. filter ((\<noteq>) node) (L l)) node" using assms(2) by (auto simp: unlinked_def)
  note s = sl.remove_rep [OF assms] and l = ll.remove_rep [OF assms]
  show ?thesis
    using s l sl.is_linked_rep [OF s assms(2)] ll.is_linked_rep [OF l assms(2)] u by simp
qed

theorem list_remove_anywhere_witness:
  "rep (sched_list_remove 3 sample_heap) {0} (\<lambda>l. filter ((\<noteq>) 3) (((\<lambda>_. [])(0 := [3, 4])) l)) \<and>
   \<not> list_is_linked 3 (list_remove 3 sample_heap)"
  using list_remove_anywhere [OF rep_sample, of 3] by simp

lemma list_size_loop_ring:
  assumes "is_list h m (xs @ ys)"
  shows "list_size_loop h m (hd (ys @ [m])) n = Some (n + length ys)"
  using assms
proof (induction ys arbitrary: xs n)
  case Nil
  show ?case by (simp add: list_size_loop.simps)
next
  case (Cons y ys)
  have "y \<noteq> m" using Cons.prems by (auto simp: is_list_def)
  moreover have "nxt h y = hd (ys @ [m])" using is_list_around(2) Cons.prems by metis
  moreover have "list_size_loop h m (hd (ys @ [m])) (Suc n) = Some (Suc n + length ys)"
    using Cons.IH [of "xs @ [y]"] Cons.prems by simp
  ultimately show ?case by (simp add: list_size_loop.simps [of h m y])
qed

text \<open>
  \<open>list_size\<close> returns on every well-formed list, with the number of its nodes.
\<close>

theorem list_size_total:
  assumes "rep h H L" and "l \<in> H"
  shows "list_size l h = Some (length (L l))"
proof -
  have il: "is_list h l (L l)" by (rule rep_is_list [OF assms])
  then have "nxt h l = hd (L l @ [l])" using is_list_cut(1) [of h l "[]" "L l"] by simp
  then show ?thesis using list_size_loop_ring [of h l "[]" "L l" 0] il by (simp add: list_size_def)
qed

theorem list_size_total_witness: "list_size 0 sample_heap = Some 2"
  using list_size_total [OF rep_sample, of 0] by simp

text \<open>
  Adding at the tail and popping at the front make a first-in first-out queue: \<open>list_pop\<close>
  after \<open>list_add\<close> returns the oldest node (the new one only when the list was empty) and
  leaves the others in order.
\<close>

theorem list_pop_add:
  assumes "rep h H L" and "l \<in> H" and "unlinked H L node"
  shows "fst (list_pop l (list_add l node h)) = Some (hd (L l @ [node])) \<and>
    rep (snd (list_pop l (list_add l node h))) H (L(l := tl (L l @ [node])))"
proof -
  have "rep (list_add l node h) H (L(l := L l @ [node]))" by (rule ll.add_tail_rep [OF assms])
  from ll.pop_rep [OF this assms(2)] show ?thesis by (cases "L l") auto
qed

theorem list_pop_add_witness:
  "fst (list_pop 0 (list_add 0 9 sample_heap)) = Some 3 \<and>
   rep (snd (list_pop 0 (list_add 0 9 sample_heap))) {0} ((\<lambda>_. [])(0 := [4, 9]))"
  using list_pop_add [OF rep_sample, of 0 9] by (simp add: unlinked_def)

end
