(* ===== verification/Sched_State.thy ===== *)
theory Sched_State
  imports Linked_List
begin

text \<open>
  The state of the SMP scheduler of \<open>pico-scheduler\<close>: the structures of \<open>scheduler.h\<close> and the
  core local variables of \<open>scheduler.c\<close>, in one record \<open>sys\<close> that the operations pass on.

  A pointer to a task, a futex or a \<open>long\<close> is a 32-bit address, since the code stores task
  pointers with a flag bit in futex words. The object behind a pointer is looked up in
  \<open>task_of\<close>, \<open>futex_of\<close> and, for plain words, \<open>mem\<close>. An intrusive list is the list of the objects linked into
  it: \<open>queues\<close> holds the ready queue and the waiters queue of each futex, \<open>owned\<close> the
  contended futexes of each task, \<open>tasks\<close> and \<open>timers\<close> the two lists of the scheduler; the
  theory Linked_List shows that the pointer code keeps exactly these lists. A saved register
  frame is reached through the \<open>psp\<close> of its task only, and is kept there by value.
\<close>

section \<open>Constants\<close>

abbreviation SCHEDULER_TASK_MARKER :: word32 where "SCHEDULER_TASK_MARKER \<equiv> 0x137aa731"
abbreviation SCHEDULER_FUTEX_MARKER :: word32 where "SCHEDULER_FUTEX_MARKER \<equiv> 0x137bb731"
abbreviation SCHEDULER_STACK_MARKER :: word32 where "SCHEDULER_STACK_MARKER \<equiv> 0x137cc731"
abbreviation SCHEDULER_MARKER :: word32 where "SCHEDULER_MARKER \<equiv> 0x13700731"

abbreviation SCHEDULER_NUM_TASK_PRIORITIES :: word32 where "SCHEDULER_NUM_TASK_PRIORITIES \<equiv> 64"
abbreviation SCHEDULER_MIN_TASK_PRIORITY :: word32 where "SCHEDULER_MIN_TASK_PRIORITY \<equiv> 63"
abbreviation SCHEDULER_WAIT_FOREVER :: word32 where "SCHEDULER_WAIT_FOREVER \<equiv> 0xffffffff"
abbreviation SCHEDULER_MAX_DEFERED_WAKE :: nat where "SCHEDULER_MAX_DEFERED_WAKE \<equiv> 8"

abbreviation SCHEDULER_IGNORE_VIABLE :: word32 where "SCHEDULER_IGNORE_VIABLE \<equiv> 0x01"
abbreviation SCHEDULER_TASK_STACK_CHECK :: word32 where "SCHEDULER_TASK_STACK_CHECK \<equiv> 0x02"
abbreviation SCHEDULER_NO_TLS_INIT :: word32 where "SCHEDULER_NO_TLS_INIT \<equiv> 0x04"
abbreviation SCHEDULER_NO_FRAME_INIT :: word32 where "SCHEDULER_NO_FRAME_INIT \<equiv> 0x08"
abbreviation SCHEDULER_PRIMORDIAL_TASK :: word32 where "SCHEDULER_PRIMORDIAL_TASK \<equiv> 0x10"
abbreviation SCHEDULER_CORE_AFFINITY :: word32 where "SCHEDULER_CORE_AFFINITY \<equiv> 0x20"
abbreviation SCHEDULER_CREATE_SUSPENDED :: word32 where "SCHEDULER_CREATE_SUSPENDED \<equiv> 0x40"

abbreviation SCHEDULER_FUTEX_CONTENTION_TRACKING :: word32 where
  "SCHEDULER_FUTEX_CONTENTION_TRACKING \<equiv> 0x01"
abbreviation SCHEDULER_FUTEX_PI :: word32 where "SCHEDULER_FUTEX_PI \<equiv> 0x02"
abbreviation SCHEDULER_FUTEX_OWNER_TRACKING :: word32 where "SCHEDULER_FUTEX_OWNER_TRACKING \<equiv> 0x04"

text \<open>Error numbers of the C library, as the 32-bit values the system calls return negated.\<close>

abbreviation ESRCH :: word32 where "ESRCH \<equiv> 3"
abbreviation EFAULT :: word32 where "EFAULT \<equiv> 14"
abbreviation EINVAL :: word32 where "EINVAL \<equiv> 22"
abbreviation ENOSPC :: word32 where "ENOSPC \<equiv> 28"
abbreviation ETIMEDOUT :: word32 where "ETIMEDOUT \<equiv> 116"
abbreviation ECANCELED :: word32 where "ECANCELED \<equiv> 140"

section \<open>Structures\<close>

datatype task_state =
  TASK_TERMINATED | TASK_BLOCKED | TASK_SUSPENDED | TASK_READY | TASK_RUNNING | TASK_RESERVED

text \<open>The value of the enumerator: \<open>scheduler_is_viable\<close> compares states with \<open>>=\<close>.\<close>

fun task_state_value :: "task_state \<Rightarrow> nat" where
  "task_state_value TASK_TERMINATED = 1"
| "task_state_value TASK_BLOCKED = 2"
| "task_state_value TASK_SUSPENDED = 4"
| "task_state_value TASK_READY = 5"
| "task_state_value TASK_RUNNING = 6"
| "task_state_value TASK_RESERVED = 0x7fffffff"

record exception_frame =
  ef_r0 :: word32
  ef_r1 :: word32
  ef_r2 :: word32
  ef_r3 :: word32
  ef_r12 :: word32
  ef_lr :: word32
  ef_pc :: word32
  ef_psr :: word32

record scheduler_frame =
  sf_exec_return :: word32
  sf_control :: word32
  sf_r4 :: word32
  sf_r5 :: word32
  sf_r6 :: word32
  sf_r7 :: word32
  sf_r8 :: word32
  sf_r9 :: word32
  sf_r10 :: word32
  sf_r11 :: word32
  sf_r0 :: word32
  sf_r1 :: word32
  sf_r2 :: word32
  sf_r3 :: word32
  sf_r12 :: word32
  sf_lr :: word32
  sf_pc :: word32
  sf_psr :: word32

text \<open>A \<open>struct sched_queue *\<close> is the ready queue or the waiters queue of a futex.\<close>

datatype queue_id = ReadyQueue | Waiters addr

record task =
  psp :: scheduler_frame
  tls :: addr
  stack_marker :: addr
  t_state :: task_state
  t_core :: word32
  t_affinity :: word32
  base_priority :: word32
  current_priority :: word32
  t_timer_expires :: word32
  current_queue :: "queue_id option"
  t_context :: addr
  exit_handler :: addr
  t_flags :: word32
  t_marker :: word32

record futex =
  f_value :: addr
  f_flags :: word32
  f_marker :: word32

record scheduler =
  tls_size :: word32
  slice_duration :: word32
  tasks :: "addr list"
  timers :: "addr list"
  timer_expires :: word32
  running :: word32
  locked :: word32
  critical :: word32
  critical_counter :: word32
  s_marker :: word32

record task_descriptor =
  entry_point :: addr
  d_exit_handler :: addr
  d_context :: addr
  d_flags :: word32
  d_priority :: word32
  d_affinity :: word32

text \<open>
  The variables declared \<open>core_local\<close>, the thread pointer of the core and the pending bit of
  its PendSV exception.
\<close>

record core_local =
  scheduler_initial_frame :: "scheduler_frame option"
  current_task :: addr
  slice_expires :: word32
  c_ticks :: word32
  deferred_wake :: "word32 list"
  taken_wake_counter :: word32
  given_wake_counter :: word32
  c_tls :: addr
  pendsv :: bool

record sys =
  scheduler_set :: bool
  sched :: scheduler
  task_of :: "addr \<Rightarrow> task"
  futex_of :: "addr \<Rightarrow> futex"
  queues :: "queue_id \<Rightarrow> addr list"
  owned :: "addr \<Rightarrow> addr list"
  mem :: "addr \<Rightarrow> word32"
  cores :: "word32 \<Rightarrow> core_local"
  this_core :: word32
  num_cores :: word32
  ipsr :: word32
  primask :: bool
  spin_held :: bool
  errno :: word32

section \<open>Access to the objects\<close>

definition task_upd :: "addr \<Rightarrow> (task \<Rightarrow> task) \<Rightarrow> sys \<Rightarrow> sys" where
  "task_upd t f s = s\<lparr>task_of := (task_of s)(t := f (task_of s t))\<rparr>"

definition core_upd :: "word32 \<Rightarrow> (core_local \<Rightarrow> core_local) \<Rightarrow> sys \<Rightarrow> sys" where
  "core_upd c f s = s\<lparr>cores := (cores s)(c := f (cores s c))\<rparr>"

definition sched_upd :: "(scheduler \<Rightarrow> scheduler) \<Rightarrow> sys \<Rightarrow> sys" where
  "sched_upd f s = s\<lparr>sched := f (sched s)\<rparr>"

lemma task_upd_sel [simp]:
  "task_of (task_upd t f s) = (task_of s)(t := f (task_of s t))"
  "scheduler_set (task_upd t f s) = scheduler_set s"
  "sched (task_upd t f s) = sched s" "futex_of (task_upd t f s) = futex_of s"
  "queues (task_upd t f s) = queues s" "owned (task_upd t f s) = owned s"
  "mem (task_upd t f s) = mem s" "cores (task_upd t f s) = cores s"
  "this_core (task_upd t f s) = this_core s" "num_cores (task_upd t f s) = num_cores s"
  "ipsr (task_upd t f s) = ipsr s" "primask (task_upd t f s) = primask s"
  "spin_held (task_upd t f s) = spin_held s" "errno (task_upd t f s) = errno s"
  by (simp_all add: task_upd_def)

lemma core_upd_sel [simp]:
  "cores (core_upd c g s) = (cores s)(c := g (cores s c))"
  "scheduler_set (core_upd c g s) = scheduler_set s"
  "sched (core_upd c g s) = sched s" "futex_of (core_upd c g s) = futex_of s"
  "queues (core_upd c g s) = queues s" "owned (core_upd c g s) = owned s"
  "mem (core_upd c g s) = mem s" "task_of (core_upd c g s) = task_of s"
  "this_core (core_upd c g s) = this_core s" "num_cores (core_upd c g s) = num_cores s"
  "ipsr (core_upd c g s) = ipsr s" "primask (core_upd c g s) = primask s"
  "spin_held (core_upd c g s) = spin_held s" "errno (core_upd c g s) = errno s"
  by (simp_all add: core_upd_def)

lemma sched_upd_sel [simp]:
  "sched (sched_upd k s) = k (sched s)"
  "scheduler_set (sched_upd k s) = scheduler_set s"
  "cores (sched_upd k s) = cores s" "futex_of (sched_upd k s) = futex_of s"
  "queues (sched_upd k s) = queues s" "owned (sched_upd k s) = owned s"
  "mem (sched_upd k s) = mem s" "task_of (sched_upd k s) = task_of s"
  "this_core (sched_upd k s) = this_core s" "num_cores (sched_upd k s) = num_cores s"
  "ipsr (sched_upd k s) = ipsr s" "primask (sched_upd k s) = primask s"
  "spin_held (sched_upd k s) = spin_held s" "errno (sched_upd k s) = errno s"
  by (simp_all add: sched_upd_def)

abbreviation prio :: "sys \<Rightarrow> addr \<Rightarrow> word32" where
  "prio s t \<equiv> current_priority (task_of s t)"

abbreviation expires :: "sys \<Rightarrow> addr \<Rightarrow> word32" where
  "expires s t \<equiv> t_timer_expires (task_of s t)"

abbreviation state_of :: "sys \<Rightarrow> addr \<Rightarrow> task_state" where
  "state_of s t \<equiv> t_state (task_of s t)"

abbreviation this :: "sys \<Rightarrow> core_local" where
  "this s \<equiv> cores s (this_core s)"

abbreviation has_flag :: "word32 \<Rightarrow> word32 \<Rightarrow> bool" where
  "has_flag flags m \<equiv> flags AND m \<noteq> 0"

text \<open>Whether a task may run on a core.\<close>

definition eligible :: "sys \<Rightarrow> word32 \<Rightarrow> addr \<Rightarrow> bool" where
  "eligible s core t \<longleftrightarrow>
    t_flags (task_of s t) AND SCHEDULER_CORE_AFFINITY = 0 \<or> t_affinity (task_of s t) = core"

section \<open>The scheduler spin lock\<close>

text \<open>
  \<open>scheduler_spin_lock\<close> of multicore-glue.c: a second acquisition by the same core would spin
  for ever, which is \<open>None\<close>. Between lock and unlock the handler has the state to itself.
\<close>

definition scheduler_spin_lock :: "sys \<Rightarrow> sys option" where
  "scheduler_spin_lock s = (if spin_held s then None else Some (s\<lparr>spin_held := True\<rparr>))"

definition scheduler_spin_unlock :: "sys \<Rightarrow> sys" where
  "scheduler_spin_unlock s = s\<lparr>spin_held := False\<rparr>"

section \<open>Services of the port\<close>

definition scheduler_get_ticks :: "sys \<Rightarrow> word32" where
  "scheduler_get_ticks s = c_ticks (cores s 0)"

definition scheduler_num_cores :: "sys \<Rightarrow> word32" where
  "scheduler_num_cores s = num_cores s"

definition scheduler_current_core :: "sys \<Rightarrow> word32" where
  "scheduler_current_core s = this_core s"

text \<open>
  \<open>scheduler_request_switch\<close> of multicore-glue.c: PendSV becomes pending on the core given,
  directly or by a command in the FIFO to that core (theory Multicore_Irq).
\<close>

definition scheduler_request_switch :: "word32 \<Rightarrow> sys \<Rightarrow> sys" where
  "scheduler_request_switch core s = core_upd core (\<lambda>c. c\<lparr>pendsv := True\<rparr>) s"

text \<open>\<open>scheduler_switch_hook\<close> of scheduler-glue.c: load the thread pointer of the core.\<close>

definition scheduler_switch_hook :: "addr \<Rightarrow> sys \<Rightarrow> sys" where
  "scheduler_switch_hook task s =
    core_upd (this_core s) (\<lambda>c. c\<lparr>c_tls := (if task \<noteq> 0 then tls (task_of s task) else 0)\<rparr>) s"

definition is_interrupt_context :: "sys \<Rightarrow> bool" where
  "is_interrupt_context s \<longleftrightarrow> ipsr s \<noteq> 0"

definition scheduler_is_running :: "sys \<Rightarrow> bool" where
  "scheduler_is_running s \<longleftrightarrow> scheduler_set s \<and> 0 <s running (sched s)"

definition sched_get_current :: "sys \<Rightarrow> addr option" where
  "sched_get_current s =
    (let task = current_task (this s)
     in check (task = 0 \<or> t_marker (task_of s task) = SCHEDULER_TASK_MARKER) task)"

definition sched_set_current :: "addr \<Rightarrow> sys \<Rightarrow> (addr \<times> sys) option" where
  "sched_set_current task s = do {
     s \<leftarrow> check (task = 0 \<or> t_marker (task_of s task) = SCHEDULER_TASK_MARKER) s;
     let prev = current_task (this s);
     let s = core_upd (this_core s) (\<lambda>c. c\<lparr>current_task := task\<rparr>) s;
     Some (prev, scheduler_switch_hook task s)
   }"

end
