(* ===== verification/Sched_Queue.thy ===== *)
theory Sched_Queue
  imports Sched_State
begin

text \<open>
  The scheduling queues and the timer list of \<open>scheduler.c\<close>: \<open>sched_queue_*\<close> and
  \<open>scheduler_timer_*\<close>, with the tick handler.
\<close>

section \<open>Scheduling queues\<close>

definition sched_queue_empty :: "queue_id \<Rightarrow> sys \<Rightarrow> bool" where
  "sched_queue_empty q s \<longleftrightarrow> queues s q = []"

definition sched_queue_remove :: "addr \<Rightarrow> sys \<Rightarrow> sys option" where
  "sched_queue_remove t s = do {
     s \<leftarrow> check (t \<noteq> 0) s;
     let s = s\<lparr>queues := (\<lambda>q. filter ((\<noteq>) t) (queues s q))\<rparr>;
     Some (task_upd t (\<lambda>x. x\<lparr>current_queue := None\<rparr>) s)
   }"

definition sched_queue_push :: "queue_id \<Rightarrow> addr \<Rightarrow> sys \<Rightarrow> sys option" where
  "sched_queue_push q t s = do {
     s \<leftarrow> check (t \<noteq> 0 \<and> current_queue (task_of s t) = None) s;
     let s = s\<lparr>queues := (queues s)(q := insert_before_first (\<lambda>n. prio s n > prio s t) t (queues s q))\<rparr>;
     Some (task_upd t (\<lambda>x. x\<lparr>current_queue := Some q\<rparr>) s)
   }"

text \<open>The head of the queue for any core, or the first task that may run on the core given.\<close>

definition sched_queue_pop :: "queue_id \<Rightarrow> word32 \<Rightarrow> sys \<Rightarrow> (addr \<times> sys) option" where
  "sched_queue_pop q core s =
    (if core = UINT32_MAX
     then (case queues s q of
        [] \<Rightarrow> Some (0, s)
      | t # _ \<Rightarrow>
          let s = s\<lparr>queues := (\<lambda>q. filter ((\<noteq>) t) (queues s q))\<rparr>
          in Some (t, task_upd t (\<lambda>x. x\<lparr>current_queue := None\<rparr>) s))
     else (case take_first (eligible s core) (queues s q) of
        None \<Rightarrow> Some (0, s)
      | Some t \<Rightarrow> map_option (Pair t) (sched_queue_remove t s)))"

definition sched_queue_highest_priority :: "queue_id \<Rightarrow> sys \<Rightarrow> word32" where
  "sched_queue_highest_priority q s =
    (case queues s q of [] \<Rightarrow> SCHEDULER_NUM_TASK_PRIORITIES | t # _ \<Rightarrow> prio s t)"

definition sched_queue_reprioritize :: "addr \<Rightarrow> word32 \<Rightarrow> sys \<Rightarrow> sys option" where
  "sched_queue_reprioritize t new_priority s = do {
     s \<leftarrow> check (t \<noteq> 0) s;
     let s = task_upd t (\<lambda>x. x\<lparr>current_priority := new_priority\<rparr>) s;
     case current_queue (task_of s t) of
       None \<Rightarrow> Some s
     | Some q \<Rightarrow> do {
         s \<leftarrow> sched_queue_remove t s;
         sched_queue_push q t s
       }
   }"

definition scheduler_check_stack :: "addr \<Rightarrow> sys \<Rightarrow> bool" where
  "scheduler_check_stack t s \<longleftrightarrow>
    t_flags (task_of s t) AND SCHEDULER_TASK_STACK_CHECK = 0 \<or>
    mem s (stack_marker (task_of s t)) = SCHEDULER_STACK_MARKER \<and>
    mem s (stack_marker (task_of s t) + 4) = SCHEDULER_STACK_MARKER"

section \<open>Timers\<close>

definition closest_timer :: "sys \<Rightarrow> word32" where
  "closest_timer s = (case timers (sched s) of [] \<Rightarrow> UINT32_MAX | t # _ \<Rightarrow> expires s t)"

definition scheduler_timer_push :: "addr \<Rightarrow> word32 \<Rightarrow> sys \<Rightarrow> sys option" where
  "scheduler_timer_push t delay s = do {
     s \<leftarrow> check (t \<noteq> 0) s;
     let s = sched_upd (\<lambda>c. c\<lparr>timers := filter ((\<noteq>) t) (timers c)\<rparr>) s;
     let s = task_upd t (\<lambda>x. x\<lparr>t_timer_expires := scheduler_get_ticks s + delay\<rparr>) s;
     let s = sched_upd (\<lambda>c. c\<lparr>timers :=
       insert_before_first (\<lambda>e. expires s e > expires s t) t (timers c)\<rparr>) s;
     Some (sched_upd (\<lambda>c. c\<lparr>timer_expires := closest_timer s\<rparr>) s)
   }"

definition scheduler_timer_remove :: "addr \<Rightarrow> sys \<Rightarrow> sys option" where
  "scheduler_timer_remove t s = do {
     s \<leftarrow> check (t \<noteq> 0) s;
     let s = sched_upd (\<lambda>c. c\<lparr>timers := filter ((\<noteq>) t) (timers c)\<rparr>) s;
     Some (sched_upd (\<lambda>c. c\<lparr>timer_expires := closest_timer s\<rparr>) s)
   }"

definition scheduler_timer_pop :: "sys \<Rightarrow> (addr \<times> sys) option" where
  "scheduler_timer_pop s =
    (case timers (sched s) of
       [] \<Rightarrow> Some (0, s)
     | t # _ \<Rightarrow>
         if expires s t \<le> scheduler_get_ticks s
         then map_option (Pair t) (scheduler_timer_remove t s)
         else Some (0, s))"

text \<open>
  The tick handler. \<open>tick_hook\<close> is the weak \<open>scheduler_tick_hook\<close>, which a personality
  overrides.
\<close>

definition scheduler_tick :: "(word32 \<Rightarrow> sys \<Rightarrow> sys) \<Rightarrow> sys \<Rightarrow> sys" where
  "scheduler_tick tick_hook s =
    (if \<not> scheduler_is_running s then s
     else
       let s = core_upd (this_core s) (\<lambda>c. c\<lparr>c_ticks := c_ticks c + 1\<rparr>) s;
           expire = timer_expires (sched s);
           ticks = scheduler_get_ticks s;
           s = (if expire \<le> ticks then scheduler_request_switch (scheduler_current_core s) s else s);
           s = (if slice_expires (this s) \<noteq> INT32_MAX
                then let s = core_upd (this_core s) (\<lambda>c. c\<lparr>slice_expires := slice_expires c - 1\<rparr>) s
                     in if slice_expires (this s) = 0
                        then scheduler_request_switch (scheduler_current_core s) s else s
                else s)
       in tick_hook ticks s)"

end
