(* ===== verification/Sched_Svc.thy ===== *)
theory Sched_Svc
  imports Sched_Queue
begin

text \<open>
  The system call handlers of \<open>scheduler.c\<close>: each takes the frame it was entered with and the
  state, and gives both back; \<open>None\<close> is a failed assertion or a spin lock taken twice.
  The exit handler of a task is a function pointer of the client: \<open>exit_call h t\<close> is the
  effect of calling handler \<open>h\<close> on task \<open>t\<close>.
\<close>

section \<open>Task calls\<close>

definition scheduler_task_alive :: "addr \<Rightarrow> sys \<Rightarrow> word32" where
  "scheduler_task_alive t s = (if t \<noteq> 0 \<and> t \<in> set (tasks (sched s)) then 0 else - ESRCH)"

definition scheduler_create_svc :: "exception_frame \<Rightarrow> sys \<Rightarrow> (exception_frame \<times> sys) option" where
  "scheduler_create_svc frame s = do {
     s \<leftarrow> check (ef_r0 frame \<noteq> 0 \<and> scheduler_set s) s;
     let t = ef_r0 frame;
     s \<leftarrow> scheduler_spin_lock s;
     s \<leftarrow> check (t_marker (task_of s t) = SCHEDULER_TASK_MARKER) s;
     let s = sched_upd (\<lambda>c. c\<lparr>tasks := tasks c @ [t]\<rparr>) s;
     s \<leftarrow> (if t_flags (task_of s t) AND SCHEDULER_CREATE_SUSPENDED = 0
       then do {
         let s = task_upd t (\<lambda>x. x\<lparr>t_state := TASK_READY\<rparr>) s;
         s \<leftarrow> sched_queue_push ReadyQueue t s;
         (if scheduler_is_running s
          then do {
            current \<leftarrow> sched_get_current s;
            Some (if prio s t < prio s current
                  then scheduler_request_switch (scheduler_current_core s) s else s)
          }
          else Some s)
       }
       else Some (task_upd t (\<lambda>x. x\<lparr>t_state := TASK_SUSPENDED\<rparr>) s));
     Some (frame, scheduler_spin_unlock s)
   }"

definition scheduler_yield_svc :: "exception_frame \<Rightarrow> sys \<Rightarrow> (exception_frame \<times> sys) option" where
  "scheduler_yield_svc frame s =
    Some (frame, scheduler_request_switch (scheduler_current_core s) s)"

text \<open>
  The handlers of suspend and wait get a full scheduler frame, which becomes the saved
  context of the caller.
\<close>

definition scheduler_suspend_svc :: "scheduler_frame \<Rightarrow> sys \<Rightarrow> (scheduler_frame \<times> sys) option" where
  "scheduler_suspend_svc frame s = do {
     current \<leftarrow> sched_get_current s;
     let task = sf_r0 frame;
     let ticks = sf_r1 frame;
     s \<leftarrow> scheduler_spin_lock s;
     let frame = frame\<lparr>sf_r0 := scheduler_task_alive task s\<rparr>;
     if sf_r0 frame \<noteq> 0 then Some (frame, scheduler_spin_unlock s)
     else do {
       s \<leftarrow> (if task \<noteq> current
         then do {
           s \<leftarrow> sched_queue_remove task s;
           s \<leftarrow> scheduler_timer_remove task s;
           let s = task_upd task (\<lambda>x. x\<lparr>t_state := TASK_SUSPENDED, t_core := UINT32_MAX\<rparr>) s;
           let s = task_upd current (\<lambda>x. x\<lparr>t_state := TASK_READY\<rparr>) s;
           sched_queue_push ReadyQueue current s
         }
         else Some (task_upd current (\<lambda>x. x\<lparr>t_state := TASK_SUSPENDED, t_core := UINT32_MAX\<rparr>) s));
       s \<leftarrow> (if ticks < SCHEDULER_WAIT_FOREVER then scheduler_timer_push task ticks s else Some s);
       let s = task_upd current (\<lambda>x. x\<lparr>psp := frame\<rparr>) s;
       (_, s) \<leftarrow> sched_set_current 0 s;
       let s = scheduler_request_switch (scheduler_current_core s) s;
       Some (frame, scheduler_spin_unlock s)
     }
   }"

definition scheduler_resume_svc :: "exception_frame \<Rightarrow> sys \<Rightarrow> (exception_frame \<times> sys) option" where
  "scheduler_resume_svc frame s = do {
     let task = ef_r0 frame;
     s \<leftarrow> scheduler_spin_lock s;
     let frame = frame\<lparr>ef_r0 := scheduler_task_alive task s\<rparr>;
     if ef_r0 frame \<noteq> 0 then Some (frame, scheduler_spin_unlock s)
     else do {
       s \<leftarrow> check (task \<noteq> 0 \<and> t_marker (task_of s task) = SCHEDULER_TASK_MARKER) s;
       (frame, s) \<leftarrow> (if state_of s task = TASK_BLOCKED \<or> state_of s task = TASK_SUSPENDED
         then do {
           s \<leftarrow> scheduler_timer_remove task s;
           s \<leftarrow> sched_queue_remove task s;
           let s = (if state_of s task = TASK_BLOCKED
                    then task_upd task (\<lambda>x. x\<lparr>psp := (psp x)\<lparr>sf_r0 := - ECANCELED\<rparr>\<rparr>) s else s);
           let s = task_upd task (\<lambda>x. x\<lparr>t_state := TASK_READY\<rparr>) s;
           s \<leftarrow> sched_queue_push ReadyQueue task s;
           Some (frame, s)
         }
         else Some (frame\<lparr>ef_r0 := - EINVAL\<rparr>, s));
       let s = scheduler_request_switch (scheduler_current_core s) s;
       Some (frame, scheduler_spin_unlock s)
     }
   }"

definition scheduler_terminated_hook ::
  "(addr \<Rightarrow> addr \<Rightarrow> sys \<Rightarrow> sys) \<Rightarrow> addr \<Rightarrow> sys \<Rightarrow> sys option" where
  "scheduler_terminated_hook exit_call t s = do {
     s \<leftarrow> check (t \<noteq> 0 \<and> t_marker (task_of s t) = SCHEDULER_TASK_MARKER) s;
     Some (if exit_handler (task_of s t) \<noteq> 0 then exit_call (exit_handler (task_of s t)) t s else s)
   }"

definition scheduler_terminate_svc ::
  "(addr \<Rightarrow> addr \<Rightarrow> sys \<Rightarrow> sys) \<Rightarrow> exception_frame \<Rightarrow> sys \<Rightarrow> (exception_frame \<times> sys) option" where
  "scheduler_terminate_svc exit_call frame s = do {
     current \<leftarrow> sched_get_current s;
     let task = ef_r0 frame;
     s \<leftarrow> scheduler_spin_lock s;
     let frame = frame\<lparr>ef_r0 := scheduler_task_alive task s\<rparr>;
     if ef_r0 frame \<noteq> 0 then Some (frame, scheduler_spin_unlock s)
     else do {
       let s = task_upd task (\<lambda>x. x\<lparr>t_state := TASK_TERMINATED, t_core := UINT32_MAX\<rparr>) s;
       s \<leftarrow> sched_queue_remove task s;
       s \<leftarrow> scheduler_timer_remove task s;
       let s = sched_upd (\<lambda>c. c\<lparr>tasks := filter ((\<noteq>) task) (tasks c)\<rparr>) s;
       s \<leftarrow> scheduler_terminated_hook exit_call task s;
       s \<leftarrow> (if task = current
         then do {
           (_, s) \<leftarrow> sched_set_current 0 s;
           Some (scheduler_request_switch (scheduler_current_core s) s)
         }
         else Some s);
       Some (frame, scheduler_spin_unlock s)
     }
   }"

definition scheduler_priority_svc :: "exception_frame \<Rightarrow> sys \<Rightarrow> (exception_frame \<times> sys) option" where
  "scheduler_priority_svc frame s = do {
     let task = ef_r0 frame;
     let priority = ef_r1 frame;
     s \<leftarrow> scheduler_spin_lock s;
     let frame = frame\<lparr>ef_r0 := scheduler_task_alive task s\<rparr>;
     if ef_r0 frame \<noteq> 0 then Some (frame, scheduler_spin_unlock s)
     else do {
       s \<leftarrow> check (t_marker (task_of s task) = SCHEDULER_TASK_MARKER) s;
       let s = task_upd task (\<lambda>x. x\<lparr>base_priority := priority\<rparr>) s;
       s \<leftarrow> sched_queue_reprioritize task priority s;
       let s = scheduler_request_switch (scheduler_current_core s) s;
       Some (frame, scheduler_spin_unlock s)
     }
   }"

section \<open>Futex calls\<close>

text \<open>The mask that selects futexes with priority inheritance.\<close>

abbreviation PI_OWNER :: word32 where
  "PI_OWNER \<equiv> SCHEDULER_FUTEX_PI OR SCHEDULER_FUTEX_OWNER_TRACKING"

abbreviation owner_of :: "word32 \<Rightarrow> addr" where
  "owner_of value \<equiv> value AND NOT SCHEDULER_FUTEX_CONTENTION_TRACKING"

text \<open>Boost the owner of a priority inheritance futex to its highest waiter.\<close>

definition futex_boost_owner :: "addr \<Rightarrow> word32 \<Rightarrow> sys \<Rightarrow> sys option" where
  "futex_boost_owner f val s = do {
     let owner = owner_of val;
     s \<leftarrow> check (t_marker (task_of s owner) = SCHEDULER_TASK_MARKER) s;
     let s = (if \<forall>t. f \<notin> set (owned s t)
              then s\<lparr>owned := (owned s)(owner := owned s owner @ [f])\<rparr> else s);
     let highest = sched_queue_highest_priority (Waiters f) s;
     if highest < prio s owner then sched_queue_reprioritize owner highest s else Some s
   }"

text \<open>Block the current task on a futex whose word is as it expects.\<close>

definition wait_block :: "addr \<Rightarrow> word32 \<Rightarrow> word32 \<Rightarrow> addr \<Rightarrow> sys \<Rightarrow> sys option" where
  "wait_block f val ticks current s = do {
     s \<leftarrow> (if ticks < SCHEDULER_WAIT_FOREVER then scheduler_timer_push current ticks s else Some s);
     let s = task_upd current (\<lambda>x. x\<lparr>t_state := TASK_BLOCKED, t_core := UINT32_MAX\<rparr>) s;
     s \<leftarrow> sched_queue_push (Waiters f) current s;
     if f_flags (futex_of s f) AND PI_OWNER = PI_OWNER
     then futex_boost_owner f val s else Some s
   }"

definition scheduler_wait_svc :: "scheduler_frame \<Rightarrow> sys \<Rightarrow> (scheduler_frame \<times> sys) option" where
  "scheduler_wait_svc frame s = do {
     let f = sf_r0 frame;
     let expected = sf_r1 frame;
     let val = (if has_flag (f_flags (futex_of s f)) SCHEDULER_FUTEX_CONTENTION_TRACKING
                then expected OR SCHEDULER_FUTEX_CONTENTION_TRACKING else expected);
     let ticks = sf_r2 frame;
     current \<leftarrow> sched_get_current s;
     s \<leftarrow> scheduler_spin_lock s;
     s \<leftarrow> check (f \<noteq> 0 \<and> f_marker (futex_of s f) = SCHEDULER_FUTEX_MARKER \<and> current \<noteq> 0) s;
     let frame = frame\<lparr>sf_r0 := 0\<rparr>;
     let observed = mem s (f_value (futex_of s f));
     let exchanged = (observed = expected);
     let s = (if exchanged then s\<lparr>mem := (mem s)(f_value (futex_of s f) := val)\<rparr> else s);
     let expected = (if exchanged then expected else observed);
     s \<leftarrow> (if exchanged \<or> expected = val
       then wait_block f val ticks current s
       else do {
         let s = task_upd current (\<lambda>x. x\<lparr>t_state := TASK_READY\<rparr>) s;
         sched_queue_push ReadyQueue current s
       });
     let s = task_upd current (\<lambda>x. x\<lparr>psp := frame\<rparr>) s;
     (_, s) \<leftarrow> sched_set_current 0 s;
     let s = scheduler_request_switch (scheduler_current_core s) s;
     Some (frame, scheduler_spin_unlock s)
   }"

text \<open>The highest priority among the waiters of the futexes a task still owns.\<close>

fun highest_owned :: "sys \<Rightarrow> word32 \<Rightarrow> addr list \<Rightarrow> word32" where
  "highest_owned s highest [] = highest"
| "highest_owned s highest (f # fs) =
    (let waiter = sched_queue_highest_priority (Waiters f) s
     in highest_owned s (if waiter < highest then waiter else highest) fs)"

text \<open>Take a futex away from its owner, who falls back to what it still inherits.\<close>

definition futex_release_owner :: "addr \<Rightarrow> sys \<Rightarrow> sys option" where
  "futex_release_owner f s = do {
     let owner = owner_of (mem s (f_value (futex_of s f)));
     s \<leftarrow> check (t_marker (task_of s owner) = SCHEDULER_TASK_MARKER) s;
     let s = s\<lparr>owned := (\<lambda>t. filter ((\<noteq>) f) (owned s t))\<rparr>;
     let highest = highest_owned s (base_priority (task_of s owner)) (owned s owner);
     sched_queue_reprioritize owner highest s
   }"

text \<open>One turn of the wake loop, for the task just popped.\<close>

definition futex_wake_one :: "addr \<Rightarrow> addr \<Rightarrow> sys \<Rightarrow> sys option" where
  "futex_wake_one f task s = do {
     s \<leftarrow> check (t_marker (task_of s task) = SCHEDULER_TASK_MARKER) s;
     let s = (if has_flag (f_flags (futex_of s f)) SCHEDULER_FUTEX_OWNER_TRACKING
              then s\<lparr>mem := (mem s)(f_value (futex_of s f) := task)\<rparr> else s);
     s \<leftarrow> (if has_flag (f_flags (futex_of s f)) SCHEDULER_FUTEX_PI \<and> \<not> sched_queue_empty (Waiters f) s
       then do {
         let s = s\<lparr>owned := (owned s)(task := owned s task @ [f])\<rparr>;
         sched_queue_reprioritize task (sched_queue_highest_priority (Waiters f) s) s
       }
       else Some s);
     s \<leftarrow> scheduler_timer_remove task s;
     let s = task_upd task (\<lambda>x. x\<lparr>t_state := TASK_READY\<rparr>) s;
     sched_queue_push ReadyQueue task s
   }"

text \<open>The wake loop; the fuel is one more than the number of waiters, each turn takes one off.\<close>

fun futex_wake_loop :: "nat \<Rightarrow> addr \<Rightarrow> bool \<Rightarrow> word32 \<Rightarrow> sys \<Rightarrow> (word32 \<times> sys) option" where
  "futex_wake_loop 0 f all woken s = None"
| "futex_wake_loop (Suc fuel) f all woken s = do {
     (task, s) \<leftarrow> sched_queue_pop (Waiters f) UINT32_MAX s;
     if task = 0 then Some (woken, s)
     else do {
       s \<leftarrow> futex_wake_one f task s;
       if \<not> all \<or> has_flag (f_flags (futex_of s f)) SCHEDULER_FUTEX_OWNER_TRACKING
       then Some (woken + 1, s)
       else futex_wake_loop fuel f all (woken + 1) s
     }
   }"

definition scheduler_wake_futex :: "addr \<Rightarrow> bool \<Rightarrow> sys \<Rightarrow> (word32 \<times> sys) option" where
  "scheduler_wake_futex f all s = do {
     s \<leftarrow> (if f_flags (futex_of s f) AND PI_OWNER = PI_OWNER then futex_release_owner f s else Some s);
     (woken, s) \<leftarrow> futex_wake_loop (Suc (length (queues s (Waiters f)))) f all 0 s;
     let value_ptr = f_value (futex_of s f);
     let s = (if has_flag (f_flags (futex_of s f)) SCHEDULER_FUTEX_CONTENTION_TRACKING
       then s\<lparr>mem := (mem s)(value_ptr :=
         (if sched_queue_empty (Waiters f) s
          then mem s value_ptr AND NOT SCHEDULER_FUTEX_CONTENTION_TRACKING
          else mem s value_ptr OR SCHEDULER_FUTEX_CONTENTION_TRACKING))\<rparr>
       else s);
     Some (woken, s)
   }"

definition scheduler_wake_svc :: "exception_frame \<Rightarrow> sys \<Rightarrow> (exception_frame \<times> sys) option" where
  "scheduler_wake_svc frame s = do {
     let f = ef_r0 frame;
     let all = (ef_r1 frame \<noteq> 0);
     s \<leftarrow> scheduler_spin_lock s;
     s \<leftarrow> check (f \<noteq> 0 \<and> f_marker (futex_of s f) = SCHEDULER_FUTEX_MARKER) s;
     (woken, s) \<leftarrow> scheduler_wake_futex f all s;
     let frame = frame\<lparr>ef_r0 := woken\<rparr>;
     let s = (if 0 < ef_r0 frame then scheduler_request_switch (scheduler_current_core s) s else s);
     Some (frame, scheduler_spin_unlock s)
   }"

end
