(* ===== verification/Sched_Switch.thy ===== *)
theory Sched_Switch
  imports Sched_Svc
begin

text \<open>
  The context switch of \<open>scheduler.c\<close>, run in the PendSV exception: \<open>scheduler_switch\<close> and the
  loops it is made of. Between two turns of its outer loop the core sleeps with the spin lock
  released and the other core and the interrupt handlers run; each such pause is one element
  of a list of state transformers, \<open>envs\<close>. A call that is still asleep when the list is used
  up ends as \<open>Waiting\<close>. \<open>core_word\<close> is the word the linker put at the start of the core
  local section.
\<close>

section \<open>Viability and idling\<close>

fun scheduler_is_viable_loop :: "addr list \<Rightarrow> sys \<Rightarrow> bool option" where
  "scheduler_is_viable_loop [] s = Some False"
| "scheduler_is_viable_loop (t # ts) s = do {
     s \<leftarrow> check (t_marker (task_of s t) = SCHEDULER_TASK_MARKER) s;
     if task_state_value (state_of s t) \<ge> task_state_value TASK_BLOCKED \<and>
        t_flags (task_of s t) AND SCHEDULER_IGNORE_VIABLE = 0
     then Some True
     else scheduler_is_viable_loop ts s
   }"

definition scheduler_is_viable :: "sys \<Rightarrow> bool option" where
  "scheduler_is_viable s = scheduler_is_viable_loop (tasks (sched s)) s"

text \<open>
  The default idle hook: unlock, sleep, clear a pending PendSV, lock. Its closing assertion is
  \<open>assert(cls_datum(current_task == 0))\<close>. The macro pastes its argument, so the offset it
  computes is \<open>(size_t)&current_task == 0 - (size_t)&__core_data\<close>, a comparison that is false
  as the two addresses do not add up to \<open>2 ^ 32\<close>. The assertion reads the word at offset 0 of
  the core local section of the core and fails when that word is 0. Which variable lies there
  is the choice of the linker: \<open>core_word s\<close> is its value on the core that runs.
\<close>

definition scheduler_idle_hook :: "(sys \<Rightarrow> word32) \<Rightarrow> (sys \<Rightarrow> sys) \<Rightarrow> sys \<Rightarrow> sys option" where
  "scheduler_idle_hook core_word env s = do {
     let s = scheduler_spin_unlock s;
     let s = env s;
     let s = core_upd (this_core s) (\<lambda>c. c\<lparr>pendsv := False\<rparr>) s;
     s \<leftarrow> scheduler_spin_lock s;
     check (core_word s \<noteq> 0) s
   }"

section \<open>One turn of the switch loop\<close>

text \<open>The wake ups interrupt handlers left in the slots of this core.\<close>

fun deferred_wakes :: "nat list \<Rightarrow> sys \<Rightarrow> sys option" where
  "deferred_wakes [] s = Some s"
| "deferred_wakes (i # is) s =
    (if taken_wake_counter (this s) XOR given_wake_counter (this s) = 0 then Some s
     else do {
       let wakeup = deferred_wake (this s) ! i;
       let s = core_upd (this_core s) (\<lambda>c. c\<lparr>deferred_wake := (deferred_wake c)[i := 0]\<rparr>) s;
       s \<leftarrow> (if wakeup \<noteq> 0
         then do {
           (_, s) \<leftarrow> scheduler_wake_futex (wakeup AND NOT 1) (wakeup AND 1 \<noteq> 0) s;
           Some (core_upd (this_core s) (\<lambda>c. c\<lparr>taken_wake_counter := taken_wake_counter c + 1\<rparr>) s)
         }
         else Some s);
       deferred_wakes is s
     })"

definition ready_expired :: "addr \<Rightarrow> sys \<Rightarrow> sys option" where
  "ready_expired t s = do {
     s \<leftarrow> check (t_marker (task_of s t) = SCHEDULER_TASK_MARKER) s;
     s \<leftarrow> sched_queue_remove t s;
     let s = task_upd t (\<lambda>x. x\<lparr>t_state := TASK_READY, psp := (psp x)\<lparr>sf_r0 := - ETIMEDOUT\<rparr>\<rparr>) s;
     sched_queue_push ReadyQueue t s
   }"

text \<open>The timer loop; every turn takes one timer off, so one more than the timers is enough fuel.\<close>

fun expire_timers :: "nat \<Rightarrow> sys \<Rightarrow> sys option" where
  "expire_timers 0 s = None"
| "expire_timers (Suc fuel) s = do {
     (expired, s) \<leftarrow> scheduler_timer_pop s;
     if expired = 0 then Some s
     else do {
       s \<leftarrow> ready_expired expired s;
       expire_timers fuel s
     }
   }"

text \<open>A task whose stack marker is gone is taken out of the system.\<close>

definition evict :: "(addr \<Rightarrow> addr \<Rightarrow> sys \<Rightarrow> sys) \<Rightarrow> addr \<Rightarrow> sys \<Rightarrow> sys option" where
  "evict exit_call t s = do {
     let s = task_upd t (\<lambda>x. x\<lparr>t_state := TASK_TERMINATED, psp := (psp x)\<lparr>sf_r0 := - EFAULT\<rparr>\<rparr>) s;
     s \<leftarrow> sched_queue_remove t s;
     let s = sched_upd (\<lambda>c. c\<lparr>timers := filter ((\<noteq>) t) (timers c)\<rparr>) s;
     let s = sched_upd (\<lambda>c. c\<lparr>tasks := filter ((\<noteq>) t) (tasks c)\<rparr>) s;
     scheduler_terminated_hook exit_call t s
   }"

text \<open>The task to run next, or 0 when there is none (or it had to be evicted).\<close>

definition switch_turn ::
  "(addr \<Rightarrow> addr \<Rightarrow> sys \<Rightarrow> sys) \<Rightarrow> sys \<Rightarrow> (addr \<times> sys) option" where
  "switch_turn exit_call s = do {
     s \<leftarrow> deferred_wakes [0..<SCHEDULER_MAX_DEFERED_WAKE] s;
     s \<leftarrow> expire_timers (Suc (length (timers (sched s)))) s;
     (t, s) \<leftarrow> sched_queue_pop ReadyQueue (scheduler_current_core s) s;
     if t = 0 then Some (0, s)
     else do {
       s \<leftarrow> check (t_marker (task_of s t) = SCHEDULER_TASK_MARKER) s;
       if scheduler_check_stack t s then Some (t, s)
       else do {
         s \<leftarrow> evict exit_call t s;
         Some (0, s)
       }
     }
   }"

section \<open>The switch\<close>

datatype pick = Picked addr | NotViable | Asleep

fun switch_loop ::
  "(sys \<Rightarrow> word32) \<Rightarrow> (addr \<Rightarrow> addr \<Rightarrow> sys \<Rightarrow> sys) \<Rightarrow> (sys \<Rightarrow> sys) list \<Rightarrow> sys \<Rightarrow> (pick \<times> sys) option" where
  "switch_loop core_word exit_call envs s = do {
     (t, s) \<leftarrow> switch_turn exit_call s;
     if t \<noteq> 0 then Some (Picked t, s)
     else do {
       viable \<leftarrow> scheduler_is_viable s;
       if \<not> viable \<and> scheduler_initial_frame (this s) \<noteq> None then Some (NotViable, s)
       else (case envs of
           [] \<Rightarrow> Some (Asleep, scheduler_spin_unlock s)
         | env # envs \<Rightarrow> do {
             s \<leftarrow> scheduler_idle_hook core_word env s;
             switch_loop core_word exit_call envs s
           })
     }
   }"

declare switch_loop.simps [simp del]

text \<open>Ask another core to switch when a ready task it may run beats the task it runs.\<close>

definition kick_core :: "word32 \<Rightarrow> sys \<Rightarrow> sys" where
  "kick_core core s =
    (if core \<noteq> scheduler_current_core s
     then let core_task = current_task (cores s core)
          in if core_task \<noteq> 0
             then (case take_first (eligible s core) (queues s ReadyQueue) of
                 None \<Rightarrow> s
               | Some cursor \<Rightarrow>
                   if prio s cursor < prio s core_task then scheduler_request_switch core s else s)
             else s
     else s)"

definition all_cores :: "sys \<Rightarrow> word32 list" where
  "all_cores s = map of_nat [0..<unat (scheduler_num_cores s)]"

definition kick_cores :: "sys \<Rightarrow> sys" where
  "kick_cores s =
    (if \<not> sched_queue_empty ReadyQueue s then fold kick_core (all_cores s) s else s)"

text \<open>Make the picked task the running task of the core.\<close>

definition switch_to :: "addr \<Rightarrow> addr \<Rightarrow> sys \<Rightarrow> (scheduler_frame \<times> sys) option" where
  "switch_to last_task t s = do {
     s \<leftarrow> check (state_of s t = TASK_READY) s;
     let s = task_upd t (\<lambda>x. x\<lparr>t_state := TASK_RUNNING, t_core := scheduler_current_core s\<rparr>) s;
     let s = (if t \<noteq> last_task \<or> slice_expires (this s) <s 0
              then core_upd (this_core s) (\<lambda>c. c\<lparr>slice_expires := slice_duration (sched s)\<rparr>) s
              else s);
     (prev, s) \<leftarrow> sched_set_current t s;
     s \<leftarrow> check (prev = 0) s;
     let s = kick_cores s;
     Some (psp (task_of s t), scheduler_spin_unlock s)
   }"

datatype switch_result = Running scheduler_frame | Shutdown scheduler_frame | Waiting

definition scheduler_switch ::
  "(sys \<Rightarrow> word32) \<Rightarrow> (addr \<Rightarrow> addr \<Rightarrow> sys \<Rightarrow> sys) \<Rightarrow> (sys \<Rightarrow> sys) list \<Rightarrow> scheduler_frame \<Rightarrow> sys
    \<Rightarrow> (switch_result \<times> sys) option" where
  "scheduler_switch core_word exit_call envs frame s = do {
     s \<leftarrow> check (scheduler_set s) s;
     s \<leftarrow> scheduler_spin_lock s;
     (task, s) \<leftarrow> sched_set_current 0 s;
     let last_task = task;
     s \<leftarrow> check (task \<noteq> 0 \<longrightarrow>
       t_marker (task_of s task) = SCHEDULER_TASK_MARKER \<and> state_of s task = TASK_RUNNING) s;
     if task \<noteq> 0 \<and> locked (sched s) <s 0
     then do {
       (_, s) \<leftarrow> sched_set_current task s;
       Some (Running frame, scheduler_spin_unlock s)
     }
     else do {
       s \<leftarrow> (if task \<noteq> 0
         then do {
           let s = task_upd task (\<lambda>x. x\<lparr>t_state := TASK_READY, t_core := UINT32_MAX, psp := frame\<rparr>) s;
           sched_queue_push ReadyQueue task s
         }
         else Some s);
       (pick, s) \<leftarrow> switch_loop core_word exit_call envs s;
       (case pick of
           Asleep \<Rightarrow> Some (Waiting, s)
         | NotViable \<Rightarrow> do {
             initial \<leftarrow> scheduler_initial_frame (this s);
             let initial = initial\<lparr>sf_r0 := 0\<rparr>;
             let s = core_upd (this_core s) (\<lambda>c. c\<lparr>scheduler_initial_frame := Some initial\<rparr>) s;
             Some (Shutdown initial, scheduler_spin_unlock s)
           }
         | Picked t \<Rightarrow> do {
             (frame, s) \<leftarrow> switch_to last_task t s;
             Some (Running frame, s)
           })
     }
   }"

end
