(* ===== verification/Sched_Api.thy ===== *)
theory Sched_Api
  imports Sched_Switch
begin

text \<open>
  The functions \<open>scheduler.h\<close> exports, above the system calls: task creation, start-up, the
  critical section, the scheduler lock and the wrappers of the calls. Functions that take
  time pass a value and the new state back; a call that blocks takes \<open>run\<close>, what the rest of
  the system does until the caller is switched in again.
\<close>

section \<open>Start-up\<close>

text \<open>
  \<open>scheduler_init\<close>: \<open>given\<close> is false for a null pointer. The two wake counters of a core are
  not among the fields it resets.
\<close>

definition reset_core :: "core_local \<Rightarrow> core_local" where
  "reset_core c = c\<lparr>scheduler_initial_frame := None, current_task := 0, slice_expires := INT32_MAX,
     c_ticks := 0, deferred_wake := replicate SCHEDULER_MAX_DEFERED_WAKE 0\<rparr>"

definition scheduler_init :: "bool \<Rightarrow> word32 \<Rightarrow> sys \<Rightarrow> word32 \<times> sys" where
  "scheduler_init given tls_bytes s =
    (if \<not> given then (- EINVAL, s\<lparr>errno := EINVAL\<rparr>)
     else
       let s = s\<lparr>sched := \<lparr>tls_size = tls_bytes, slice_duration = INT32_MAX, tasks = [], timers = [],
                  timer_expires = UINT32_MAX, running = 0, locked = 0, critical = UINT32_MAX,
                  critical_counter = 0, s_marker = SCHEDULER_MARKER\<rparr>\<rparr>;
           s = s\<lparr>queues := (queues s)(ReadyQueue := [])\<rparr>;
           s = s\<lparr>cores := (\<lambda>c. if c < scheduler_num_cores s then reset_core (cores s c) else cores s c)\<rparr>
       in (0, s\<lparr>scheduler_set := True\<rparr>))"

text \<open>
  \<open>scheduler_run\<close> up to and with the start service, which saves the frame of the caller and
  pends the first switch, and the rest of it once the scheduler has shut down. The hooks of
  the port are parameters.
\<close>

definition scheduler_start_svc :: "scheduler_frame \<Rightarrow> sys \<Rightarrow> sys" where
  "scheduler_start_svc frame s = core_upd (this_core s)
     (\<lambda>c. c\<lparr>scheduler_initial_frame := Some frame, pendsv := True\<rparr>) s"

definition scheduler_run_begin :: "(sys \<Rightarrow> sys) \<Rightarrow> scheduler_frame \<Rightarrow> sys \<Rightarrow> (word32 \<times> sys) + sys" where
  "scheduler_run_begin startup_hook frame s =
    (if \<not> scheduler_set s then Inl (- EINVAL, s\<lparr>errno := EINVAL\<rparr>)
     else
       let s = startup_hook s;
           s = sched_upd (\<lambda>c. c\<lparr>running := running c + 1\<rparr>) s
       in Inr (scheduler_start_svc frame s))"

definition scheduler_run_end :: "(sys \<Rightarrow> sys) \<Rightarrow> word32 \<Rightarrow> sys \<Rightarrow> word32 \<times> sys" where
  "scheduler_run_end shutdown_hook result s =
    (if result <s 0 then (result, s\<lparr>errno := - result\<rparr>)
     else (0, shutdown_hook (sched_upd (\<lambda>c. c\<lparr>running := running c - 1\<rparr>) s)))"

section \<open>Task creation\<close>

text \<open>\<open>sizeof(struct task)\<close>, a multiple of 8 already.\<close>

abbreviation SIZEOF_TASK :: word32 where "SIZEOF_TASK \<equiv> 88"

text \<open>The words of a stack get the marker value.\<close>

definition fill_stack :: "addr \<Rightarrow> word32 \<Rightarrow> sys \<Rightarrow> sys" where
  "fill_stack stack bytes s =
     s\<lparr>mem := (\<lambda>a. if stack \<le> a \<and> a < stack + bytes \<and> (a - stack) AND 3 = 0
                   then SCHEDULER_STACK_MARKER else mem s a)\<rparr>"

definition init_frame :: "task_descriptor \<Rightarrow> scheduler_frame \<Rightarrow> scheduler_frame" where
  "init_frame d frame = frame\<lparr>sf_exec_return := 0xfffffffd, sf_control := 2,
     sf_pc := entry_point d AND NOT 1, sf_lr := 0, sf_psr := 0x01000000, sf_r0 := d_context d\<rparr>"

definition init_task :: "task_descriptor \<Rightarrow> task \<Rightarrow> task" where
  "init_task d x = x\<lparr>t_marker := SCHEDULER_TASK_MARKER, current_queue := None,
     t_timer_expires := UINT32_MAX, base_priority := d_priority d, current_priority := d_priority d,
     exit_handler := d_exit_handler d, t_flags := d_flags d, t_context := d_context d,
     t_core := UINT32_MAX,
     t_affinity := (if has_flag (d_flags d) SCHEDULER_CORE_AFFINITY then d_affinity d else UINT32_MAX)\<rparr>"

text \<open>
  The task structure is laid over the start of the stack: \<open>stack\<close> is the task pointer.
  \<open>tls_init\<close> is \<open>scheduler_tls_init_hook\<close>. The list nodes of the task start unlinked.
\<close>

definition scheduler_create ::
  "(addr \<Rightarrow> sys \<Rightarrow> sys) \<Rightarrow> addr \<Rightarrow> word32 \<Rightarrow> task_descriptor option \<Rightarrow> exception_frame \<Rightarrow> sys
    \<Rightarrow> (addr \<times> sys) option" where
  "scheduler_create tls_init stack bytes descriptor frame s =
    (case (if stack = 0 \<or> \<not> scheduler_set s then None else descriptor) of
       None \<Rightarrow> Some (0, s\<lparr>errno := EINVAL\<rparr>)
     | Some d \<Rightarrow> do {
         let s = (if has_flag (d_flags d) SCHEDULER_TASK_STACK_CHECK then fill_stack stack bytes s else s);
         let t = stack;
         let s = task_upd t (init_task d) s;
         let s = s\<lparr>owned := (owned s)(t := [])\<rparr>;
         let s = (if d_flags d AND SCHEDULER_NO_FRAME_INIT = 0
                  then task_upd t (\<lambda>x. x\<lparr>psp := init_frame d (psp x)\<rparr>) s else s);
         let s = (if d_flags d AND SCHEDULER_NO_TLS_INIT = 0
                  then let s = task_upd t (\<lambda>x. x\<lparr>tls := t + SIZEOF_TASK\<rparr>) s;
                           s = tls_init (t + SIZEOF_TASK) s
                       in task_upd t (\<lambda>x. x\<lparr>stack_marker := tls x + tls_size (sched s)\<rparr>) s
                  else s);
         s \<leftarrow> check (scheduler_check_stack t s) s;
         if has_flag (d_flags d) SCHEDULER_PRIMORDIAL_TASK
         then do {
           let s = sched_upd (\<lambda>c. c\<lparr>tasks := tasks c @ [t]\<rparr>) s;
           let s = task_upd t (\<lambda>x. x\<lparr>t_flags := t_flags x OR SCHEDULER_CORE_AFFINITY,
                     t_affinity := scheduler_current_core s, t_state := TASK_RUNNING,
                     t_core := scheduler_current_core s\<rparr>) s;
           let s = core_upd (this_core s) (\<lambda>c. c\<lparr>current_task := t\<rparr>) s;
           let s = (if tls (task_of s t) \<noteq> 0 then scheduler_switch_hook t s else s);
           Some (t, s)
         }
         else do {
           (frame, s) \<leftarrow> scheduler_create_svc (frame\<lparr>ef_r0 := t\<rparr>) s;
           Some (ef_r0 frame, s)
         }
       })"

section \<open>The critical section\<close>

text \<open>
  \<open>scheduler_enter_critical\<close>: the value is the interrupt state to restore. While the section
  belongs to the other core, the loop releases the lock, the other core runs (\<open>envs\<close>, one
  element a turn) and the loop tries again; \<open>None\<close> with an empty script: still trying.
\<close>

fun enter_critical_loop :: "(sys \<Rightarrow> sys) list \<Rightarrow> sys \<Rightarrow> sys option" where
  "enter_critical_loop envs s = do {
     s \<leftarrow> scheduler_spin_lock s;
     if critical (sched s) = UINT32_MAX \<or> critical (sched s) = scheduler_current_core s
     then Some (sched_upd (\<lambda>c. c\<lparr>critical := scheduler_current_core s,
                                  critical_counter := critical_counter c + 1\<rparr>) s)
     else (case envs of
         [] \<Rightarrow> None
       | env # envs \<Rightarrow> enter_critical_loop envs (env (scheduler_spin_unlock s)))
   }"

declare enter_critical_loop.simps [simp del]

definition scheduler_enter_critical :: "(sys \<Rightarrow> sys) list \<Rightarrow> sys \<Rightarrow> (bool \<times> sys) option" where
  "scheduler_enter_critical envs s = do {
     s \<leftarrow> check (scheduler_is_running s) s;
     let state = primask s;
     let s = s\<lparr>primask := True\<rparr>;
     if critical (sched s) = scheduler_current_core s
     then Some (state, sched_upd (\<lambda>c. c\<lparr>critical_counter := critical_counter c + 1\<rparr>) s)
     else map_option (Pair state) (enter_critical_loop envs s)
   }"

definition scheduler_exit_critical :: "bool \<Rightarrow> sys \<Rightarrow> sys option" where
  "scheduler_exit_critical state s = do {
     s \<leftarrow> check (scheduler_is_running s \<and> critical (sched s) = scheduler_current_core s) s;
     let s = sched_upd (\<lambda>c. c\<lparr>critical_counter := critical_counter c - 1\<rparr>) s;
     if 1 \<le>s critical_counter (sched s) then Some s
     else do {
       let s = sched_upd (\<lambda>c. c\<lparr>critical := UINT32_MAX\<rparr>) s;
       let s = scheduler_spin_unlock s;
       Some (s\<lparr>primask := state\<rparr>)
     }
   }"

section \<open>The scheduler lock\<close>

definition scheduler_lock :: "sys \<Rightarrow> (word32 \<times> sys) option" where
  "scheduler_lock s = do {
     s \<leftarrow> check (scheduler_is_running s) s;
     Some (locked (sched s), sched_upd (\<lambda>c. c\<lparr>locked := locked c - 1\<rparr>) s)
   }"

definition scheduler_unlock :: "sys \<Rightarrow> (word32 \<times> sys) option" where
  "scheduler_unlock s = do {
     s \<leftarrow> check (scheduler_is_running s) s;
     Some (locked (sched s), sched_upd (\<lambda>c. c\<lparr>locked := locked c + 1\<rparr>) s)
   }"

definition scheduler_lock_restore :: "word32 \<Rightarrow> sys \<Rightarrow> (word32 \<times> sys) option" where
  "scheduler_lock_restore state s = do {
     s \<leftarrow> check (scheduler_is_running s) s;
     Some (locked (sched s), sched_upd (\<lambda>c. c\<lparr>locked := state\<rparr>) s)
   }"

definition scheduler_is_locked :: "sys \<Rightarrow> bool option" where
  "scheduler_is_locked s = do {
     s \<leftarrow> check (scheduler_is_running s) s;
     Some (locked (sched s) <s 0)
   }"

section \<open>Wrappers of the system calls\<close>

text \<open>The exception frame of a call: the arguments are in the first registers.\<close>

definition call_frame :: "exception_frame \<Rightarrow> word32 \<Rightarrow> word32 \<Rightarrow> exception_frame" where
  "call_frame frame a0 a1 = frame\<lparr>ef_r0 := a0, ef_r1 := a1\<rparr>"

text \<open>
  A call whose handler saves the caller and switches away returns when the caller runs again,
  with the \<open>r0\<close> of its saved frame; one that leaves the caller running returns at once.
\<close>

definition svc_return :: "(sys \<Rightarrow> sys) \<Rightarrow> addr \<Rightarrow> scheduler_frame \<times> sys \<Rightarrow> word32 \<times> sys" where
  "svc_return run caller result =
    (let (frame, s) = result
     in if current_task (this s) = caller then (sf_r0 frame, s)
        else let s = run s in (sf_r0 (psp (task_of s caller)), s))"

definition scheduler_task :: "sys \<Rightarrow> addr option" where
  "scheduler_task s = (if scheduler_set s then sched_get_current s else Some 0)"

definition scheduler_yield :: "exception_frame \<Rightarrow> sys \<Rightarrow> sys option" where
  "scheduler_yield frame s =
    (if locked (sched s) <s 0 then Some s else map_option snd (scheduler_yield_svc frame s))"

definition scheduler_sleep ::
  "(sys \<Rightarrow> sys) \<Rightarrow> scheduler_frame \<Rightarrow> exception_frame \<Rightarrow> word32 \<Rightarrow> sys \<Rightarrow> (word32 \<times> sys) option" where
  "scheduler_sleep run frame eframe ticks s =
    (if ticks = 0 then map_option (Pair 0) (scheduler_yield eframe s)
     else do {
       task \<leftarrow> scheduler_task s;
       result \<leftarrow> scheduler_suspend_svc (frame\<lparr>sf_r0 := task, sf_r1 := ticks\<rparr>) s;
       let (status, s) = svc_return run task result;
       if status <s 0 \<and> status \<noteq> - ETIMEDOUT then Some (status, s\<lparr>errno := - status\<rparr>)
       else Some (0, s)
     })"

definition scheduler_suspend ::
  "(sys \<Rightarrow> sys) \<Rightarrow> scheduler_frame \<Rightarrow> addr \<Rightarrow> sys \<Rightarrow> (word32 \<times> sys) option" where
  "scheduler_suspend run frame task s = do {
     current \<leftarrow> scheduler_task s;
     let task = (if task = 0 then current else task);
     if 1 < scheduler_num_cores s \<and> task \<noteq> current
     then Some (- EINVAL, s\<lparr>errno := EINVAL\<rparr>)
     else do {
       result \<leftarrow> scheduler_suspend_svc (frame\<lparr>sf_r0 := task, sf_r1 := SCHEDULER_WAIT_FOREVER\<rparr>) s;
       let (status, s) = svc_return run current result;
       if status <s 0 then Some (status, s\<lparr>errno := - status\<rparr>) else Some (0, s)
     }
   }"

text \<open>The status of a call that returns at once; a negative one goes into \<open>errno\<close>.\<close>

definition return_status :: "exception_frame \<times> sys \<Rightarrow> word32 \<times> sys" where
  "return_status result =
    (let (frame, s) = result
     in (ef_r0 frame, if ef_r0 frame <s 0 then s\<lparr>errno := - ef_r0 frame\<rparr> else s))"

definition scheduler_resume :: "exception_frame \<Rightarrow> addr \<Rightarrow> sys \<Rightarrow> (word32 \<times> sys) option" where
  "scheduler_resume frame task s = do {
     s \<leftarrow> check (task \<noteq> 0) s;
     map_option return_status (scheduler_resume_svc (frame\<lparr>ef_r0 := task\<rparr>) s)
   }"

definition scheduler_terminate ::
  "(addr \<Rightarrow> addr \<Rightarrow> sys \<Rightarrow> sys) \<Rightarrow> exception_frame \<Rightarrow> addr \<Rightarrow> sys \<Rightarrow> (word32 \<times> sys) option" where
  "scheduler_terminate exit_call frame task s = do {
     current \<leftarrow> scheduler_task s;
     let task = (if task = 0 then current else task);
     if 1 < scheduler_num_cores s \<and> task \<noteq> current
     then Some (- EINVAL, s\<lparr>errno := EINVAL\<rparr>)
     else map_option return_status (scheduler_terminate_svc exit_call (frame\<lparr>ef_r0 := task\<rparr>) s)
   }"

section \<open>Futexes\<close>

text \<open>Initialisation makes the waiters queue empty and the owner node of the futex unlinked.\<close>

definition scheduler_futex_init :: "addr \<Rightarrow> addr \<Rightarrow> word32 \<Rightarrow> sys \<Rightarrow> sys option" where
  "scheduler_futex_init f value_ptr flags s = do {
     s \<leftarrow> check (f \<noteq> 0) s;
     let s = s\<lparr>futex_of := (futex_of s)(f :=
       \<lparr>f_value = value_ptr, f_flags = flags, f_marker = SCHEDULER_FUTEX_MARKER\<rparr>)\<rparr>;
     let s = s\<lparr>queues := (queues s)(Waiters f := [])\<rparr>;
     Some (s\<lparr>owned := (\<lambda>t. filter ((\<noteq>) f) (owned s t))\<rparr>)
   }"

text \<open>
  A wait seen from a program whose state contains the scheduler: \<open>get\<close> and \<open>upd\<close> are the
  projection on the scheduler and its update, and \<open>run\<close> is what the whole program does until
  the caller runs again.
\<close>

definition futex_wait_in ::
  "('w \<Rightarrow> sys) \<Rightarrow> ((sys \<Rightarrow> sys) \<Rightarrow> 'w \<Rightarrow> 'w) \<Rightarrow> ('w \<Rightarrow> 'w) \<Rightarrow> scheduler_frame \<Rightarrow> addr \<Rightarrow> word32 \<Rightarrow>
    word32 \<Rightarrow> 'w \<Rightarrow> (word32 \<times> 'w) option" where
  "futex_wait_in get upd run frame f val ticks w = do {
     s \<leftarrow> check (f \<noteq> 0 \<and> f_marker (futex_of (get w) f) = SCHEDULER_FUTEX_MARKER) (get w);
     caller \<leftarrow> sched_get_current s;
     (frame, s) \<leftarrow> scheduler_wait_svc (frame\<lparr>sf_r0 := f, sf_r1 := val, sf_r2 := ticks\<rparr>) s;
     let w = upd (\<lambda>_. s) w;
     let (status, w) = (if current_task (this s) = caller then (sf_r0 frame, w)
                        else let w = run w in (sf_r0 (psp (task_of (get w) caller)), w));
     Some (status, if status <s 0 then upd (\<lambda>s. s\<lparr>errno := - status\<rparr>) w else w)
   }"

definition scheduler_futex_wait ::
  "(sys \<Rightarrow> sys) \<Rightarrow> scheduler_frame \<Rightarrow> addr \<Rightarrow> word32 \<Rightarrow> word32 \<Rightarrow> sys \<Rightarrow> (word32 \<times> sys) option" where
  "scheduler_futex_wait = futex_wait_in (\<lambda>s. s) (\<lambda>f. f)"

text \<open>The slots for wake ups from interrupt handlers: take the first free one.\<close>

fun defer_wake :: "word32 \<Rightarrow> nat list \<Rightarrow> sys \<Rightarrow> word32 \<times> sys" where
  "defer_wake wakeup [] s = (- ENOSPC, s\<lparr>errno := ENOSPC\<rparr>)"
| "defer_wake wakeup (i # is) s =
    (if deferred_wake (this s) ! i = 0
     then let s = core_upd (this_core s) (\<lambda>c. c\<lparr>deferred_wake := (deferred_wake c)[i := wakeup],
                    given_wake_counter := given_wake_counter c + 1\<rparr>) s
          in (0, scheduler_request_switch (scheduler_current_core s) s)
     else if deferred_wake (this s) ! i = wakeup then (0, s)
     else defer_wake wakeup is s)"

definition scheduler_futex_wake :: "exception_frame \<Rightarrow> addr \<Rightarrow> bool \<Rightarrow> sys \<Rightarrow> (word32 \<times> sys) option" where
  "scheduler_futex_wake frame f all s = do {
     s \<leftarrow> check (f \<noteq> 0 \<and> f_marker (futex_of s f) = SCHEDULER_FUTEX_MARKER) s;
     if is_interrupt_context s
     then Some (if has_flag (f_flags (futex_of s f)) PI_OWNER
       then (- EINVAL, s\<lparr>errno := EINVAL\<rparr>)
       else defer_wake (f OR of_bool all) [0..<SCHEDULER_MAX_DEFERED_WAKE] s)
     else map_option return_status
       (scheduler_wake_svc (call_frame frame f (of_bool all)) s)
   }"

section \<open>Task attributes\<close>

definition task_or_current :: "addr \<Rightarrow> sys \<Rightarrow> addr option" where
  "task_or_current task s = (if task = 0 then scheduler_task s else Some task)"

definition scheduler_set_priority ::
  "exception_frame \<Rightarrow> addr \<Rightarrow> word32 \<Rightarrow> sys \<Rightarrow> (word32 \<times> sys) option" where
  "scheduler_set_priority frame task priority s =
    (if SCHEDULER_MIN_TASK_PRIORITY < priority then Some (- EINVAL, s\<lparr>errno := - EINVAL\<rparr>)
     else do {
       task \<leftarrow> task_or_current task s;
       (frame, s) \<leftarrow> scheduler_priority_svc (call_frame frame task priority) s;
       Some (ef_r0 frame, s)
     })"

definition scheduler_get_priority :: "addr \<Rightarrow> sys \<Rightarrow> word32 option" where
  "scheduler_get_priority task s = map_option (prio s) (task_or_current task s)"

definition marked_task :: "addr \<Rightarrow> sys \<Rightarrow> addr option" where
  "marked_task task s = do {
     task \<leftarrow> task_or_current task s;
     check (task \<noteq> 0 \<and> t_marker (task_of s task) = SCHEDULER_TASK_MARKER) task
   }"

definition scheduler_set_flags :: "addr \<Rightarrow> word32 \<Rightarrow> sys \<Rightarrow> sys option" where
  "scheduler_set_flags task m s = do {
     task \<leftarrow> marked_task task s;
     Some (task_upd task (\<lambda>x. x\<lparr>t_flags := t_flags x OR m\<rparr>) s)
   }"

definition scheduler_clear_flags :: "addr \<Rightarrow> word32 \<Rightarrow> sys \<Rightarrow> sys option" where
  "scheduler_clear_flags task m s = do {
     task \<leftarrow> marked_task task s;
     Some (task_upd task (\<lambda>x. x\<lparr>t_flags := t_flags x AND NOT m\<rparr>) s)
   }"

definition scheduler_get_flags :: "addr \<Rightarrow> sys \<Rightarrow> word32 option" where
  "scheduler_get_flags task s = map_option (\<lambda>t. t_flags (task_of s t)) (marked_task task s)"

definition scheduler_get_state :: "addr \<Rightarrow> sys \<Rightarrow> task_state option" where
  "scheduler_get_state task s = map_option (state_of s) (marked_task task s)"

text \<open>\<open>func\<close> is the callback with its context; it stops the walk by returning false.\<close>

fun for_each_loop :: "(addr \<Rightarrow> sys \<Rightarrow> bool \<times> sys) \<Rightarrow> addr list \<Rightarrow> sys \<Rightarrow> sys" where
  "for_each_loop func [] s = s"
| "for_each_loop func (n # ns) s =
    (let (go, s) = func n s in if go then for_each_loop func ns s else s)"

definition scheduler_for_each ::
  "(sys \<Rightarrow> addr list) \<Rightarrow> (addr \<Rightarrow> sys \<Rightarrow> bool \<times> sys) \<Rightarrow> sys \<Rightarrow> sys option" where
  "scheduler_for_each nodes func s = do {
     (_, s) \<leftarrow> scheduler_lock s;
     let s = for_each_loop func (nodes s) s;
     map_option snd (scheduler_unlock s)
   }"

end
