(* ===== verification/Sched_Inv.thy ===== *)
theory Sched_Inv
  imports Sched_Api
begin

text \<open>
  The invariant of the scheduler and its preservation by the primitive operations. The queue
  and timer primitives are first shown to be total functions of the state once their
  assertions hold (\<open>qrem\<close>, \<open>qpush\<close>, \<open>reprio\<close>, \<open>trem\<close>, \<open>tpush\<close>), with a projection rule for each
  field. The invariant \<open>inv_but X s\<close> waives, for the tasks of \<open>X\<close>, the agreement between a
  task's state and the structures it is linked into: a handler opens it for the task it is
  moving and closes it again.
\<close>

section \<open>The primitives as total functions\<close>

definition qrem :: "addr \<Rightarrow> sys \<Rightarrow> sys" where
  "qrem t s = task_upd t (\<lambda>x. x\<lparr>current_queue := None\<rparr>)
     (s\<lparr>queues := (\<lambda>q. filter ((\<noteq>) t) (queues s q))\<rparr>)"

definition qpush :: "queue_id \<Rightarrow> addr \<Rightarrow> sys \<Rightarrow> sys" where
  "qpush q t s = task_upd t (\<lambda>x. x\<lparr>current_queue := Some q\<rparr>)
     (s\<lparr>queues := (queues s)(q := insert_before_first (\<lambda>n. prio s n > prio s t) t (queues s q))\<rparr>)"

definition trem :: "addr \<Rightarrow> sys \<Rightarrow> sys" where
  "trem t s = sched_upd (\<lambda>c. c\<lparr>timers := filter ((\<noteq>) t) (timers c),
     timer_expires := (case filter ((\<noteq>) t) (timers c) of [] \<Rightarrow> UINT32_MAX | u # _ \<Rightarrow> expires s u)\<rparr>) s"

definition tpush :: "addr \<Rightarrow> word32 \<Rightarrow> sys \<Rightarrow> sys" where
  "tpush t e s =
    (let s = task_upd t (\<lambda>x. x\<lparr>t_timer_expires := e\<rparr>) s;
         ts = insert_before_first (\<lambda>u. expires s u > e) t (filter ((\<noteq>) t) (timers (sched s)))
     in sched_upd (\<lambda>c. c\<lparr>timers := ts, timer_expires := expires s (hd ts)\<rparr>) s)"

definition reprio :: "addr \<Rightarrow> word32 \<Rightarrow> sys \<Rightarrow> sys" where
  "reprio t p s =
    (let s = task_upd t (\<lambda>x. x\<lparr>current_priority := p\<rparr>) s
     in case current_queue (task_of s t) of None \<Rightarrow> s | Some q \<Rightarrow> qpush q t (qrem t s))"

lemma qrem_sel [simp]:
  "queues (qrem t s) = (\<lambda>q. filter ((\<noteq>) t) (queues s q))"
  "task_of (qrem t s) = (task_of s)(t := (task_of s t)\<lparr>current_queue := None\<rparr>)"
  "scheduler_set (qrem t s) = scheduler_set s" "sched (qrem t s) = sched s"
  "futex_of (qrem t s) = futex_of s" "owned (qrem t s) = owned s" "mem (qrem t s) = mem s"
  "cores (qrem t s) = cores s" "this_core (qrem t s) = this_core s"
  "num_cores (qrem t s) = num_cores s" "ipsr (qrem t s) = ipsr s"
  "primask (qrem t s) = primask s" "spin_held (qrem t s) = spin_held s" "errno (qrem t s) = errno s"
  by (simp_all add: qrem_def)

lemma qpush_sel [simp]:
  "queues (qpush q t s) =
    (queues s)(q := insert_before_first (\<lambda>n. prio s n > prio s t) t (queues s q))"
  "task_of (qpush q t s) = (task_of s)(t := (task_of s t)\<lparr>current_queue := Some q\<rparr>)"
  "scheduler_set (qpush q t s) = scheduler_set s" "sched (qpush q t s) = sched s"
  "futex_of (qpush q t s) = futex_of s" "owned (qpush q t s) = owned s" "mem (qpush q t s) = mem s"
  "cores (qpush q t s) = cores s" "this_core (qpush q t s) = this_core s"
  "num_cores (qpush q t s) = num_cores s" "ipsr (qpush q t s) = ipsr s"
  "primask (qpush q t s) = primask s" "spin_held (qpush q t s) = spin_held s"
  "errno (qpush q t s) = errno s"
  by (simp_all add: qpush_def)

lemma trem_sel [simp]:
  "timers (sched (trem t s)) = filter ((\<noteq>) t) (timers (sched s))"
  "tasks (sched (trem t s)) = tasks (sched s)" "locked (sched (trem t s)) = locked (sched s)"
  "running (sched (trem t s)) = running (sched s)"
  "slice_duration (sched (trem t s)) = slice_duration (sched s)"
  "scheduler_set (trem t s) = scheduler_set s" "task_of (trem t s) = task_of s"
  "queues (trem t s) = queues s"
  "futex_of (trem t s) = futex_of s" "owned (trem t s) = owned s" "mem (trem t s) = mem s"
  "cores (trem t s) = cores s" "this_core (trem t s) = this_core s"
  "num_cores (trem t s) = num_cores s" "ipsr (trem t s) = ipsr s"
  "primask (trem t s) = primask s" "spin_held (trem t s) = spin_held s" "errno (trem t s) = errno s"
  by (simp_all add: trem_def)

lemma tpush_sel [simp]:
  "timers (sched (tpush t e s)) =
    insert_before_first (\<lambda>u. expires (tpush t e s) u > e) t (filter ((\<noteq>) t) (timers (sched s)))"
  "tasks (sched (tpush t e s)) = tasks (sched s)" "locked (sched (tpush t e s)) = locked (sched s)"
  "running (sched (tpush t e s)) = running (sched s)"
  "slice_duration (sched (tpush t e s)) = slice_duration (sched s)"
  "task_of (tpush t e s) = (task_of s)(t := (task_of s t)\<lparr>t_timer_expires := e\<rparr>)"
  "scheduler_set (tpush t e s) = scheduler_set s" "queues (tpush t e s) = queues s"
  "futex_of (tpush t e s) = futex_of s" "owned (tpush t e s) = owned s" "mem (tpush t e s) = mem s"
  "cores (tpush t e s) = cores s" "this_core (tpush t e s) = this_core s"
  "num_cores (tpush t e s) = num_cores s" "ipsr (tpush t e s) = ipsr s"
  "primask (tpush t e s) = primask s" "spin_held (tpush t e s) = spin_held s"
  "errno (tpush t e s) = errno s"
  by (simp_all add: tpush_def Let_def)

lemma current_queue_restore:
  "current_queue x = q \<Longrightarrow> x\<lparr>current_priority := p, current_queue := q\<rparr> = x\<lparr>current_priority := p\<rparr>"
  by (rule task.equality) simp_all

lemma reprio_sel [simp]:
  "task_of (reprio t p s) = (task_of s)(t := (task_of s t)\<lparr>current_priority := p\<rparr>)"
  "scheduler_set (reprio t p s) = scheduler_set s" "sched (reprio t p s) = sched s"
  "futex_of (reprio t p s) = futex_of s" "owned (reprio t p s) = owned s"
  "mem (reprio t p s) = mem s" "cores (reprio t p s) = cores s"
  "this_core (reprio t p s) = this_core s" "num_cores (reprio t p s) = num_cores s"
  "ipsr (reprio t p s) = ipsr s" "primask (reprio t p s) = primask s"
  "spin_held (reprio t p s) = spin_held s" "errno (reprio t p s) = errno s"
  by (simp_all add: reprio_def Let_def current_queue_restore split: option.split)

lemma queues_reprio:
  "queues (reprio t p s) =
    (case current_queue (task_of s t) of
       None \<Rightarrow> queues s
     | Some q \<Rightarrow> (\<lambda>q'. filter ((\<noteq>) t) (queues s q'))
         (q := insert_before_first (\<lambda>n. prio (reprio t p s) n > p) t (filter ((\<noteq>) t) (queues s q))))"
  by (auto simp: reprio_def Let_def split: option.split intro!: insert_before_first_cong)

lemma sched_queue_remove_eq [sched_defs]: "sched_queue_remove t s = check (t \<noteq> 0) (qrem t s)"
  by (simp add: sched_queue_remove_def qrem_def check_def)

lemma sched_queue_push_eq [sched_defs]:
  "sched_queue_push q t s = check (t \<noteq> 0 \<and> current_queue (task_of s t) = None) (qpush q t s)"
  by (simp add: sched_queue_push_def qpush_def check_def)

lemma scheduler_timer_remove_eq [sched_defs]:
  "scheduler_timer_remove t s = check (t \<noteq> 0) (trem t s)"
  by (simp add: scheduler_timer_remove_def trem_def check_def closest_timer_def sched_upd_def
      split: list.split)

lemma closest_timer_hd:
  "timers (sched s) \<noteq> [] \<Longrightarrow> closest_timer s = expires s (hd (timers (sched s)))"
  by (cases "timers (sched s)") (simp_all add: closest_timer_def)

lemma scheduler_timer_push_eq [sched_defs]:
  "scheduler_timer_push t delay s = check (t \<noteq> 0) (tpush t (scheduler_get_ticks s + delay) s)"
  by (simp add: scheduler_timer_push_def tpush_def check_def closest_timer_hd Let_def
      scheduler_get_ticks_def)

lemma sched_queue_reprioritize_eq [sched_defs]:
  "sched_queue_reprioritize t p s = check (t \<noteq> 0) (reprio t p s)"
  by (simp add: sched_queue_reprioritize_def reprio_def check_def Let_def sched_queue_remove_eq
      sched_queue_push_eq split: option.split)

section \<open>The invariant\<close>

text \<open>Every queue is ordered by priority and holds exactly the tasks that point back to it.\<close>

definition queues_wf :: "sys \<Rightarrow> bool" where
  "queues_wf s \<longleftrightarrow>
    (\<forall>q. distinct (queues s q) \<and> sorted_wrt (\<lambda>a b. prio s a \<le> prio s b) (queues s q)) \<and>
    (\<forall>t q. t \<in> set (queues s q) \<longleftrightarrow> current_queue (task_of s t) = Some q) \<and>
    (\<forall>t. current_queue (task_of s t) \<noteq> None \<longrightarrow> t \<in> set (tasks (sched s)))"

text \<open>The timers are in order of expiry and the scheduler knows the first one.\<close>

definition timers_wf :: "sys \<Rightarrow> bool" where
  "timers_wf s \<longleftrightarrow>
    distinct (timers (sched s)) \<and>
    sorted_wrt (\<lambda>a b. expires s a \<le> expires s b) (timers (sched s)) \<and>
    timer_expires (sched s) = closest_timer s \<and>
    set (timers (sched s)) \<subseteq> set (tasks (sched s))"

definition tasks_wf :: "sys \<Rightarrow> bool" where
  "tasks_wf s \<longleftrightarrow> distinct (tasks (sched s)) \<and>
    (\<forall>t\<in>set (tasks (sched s)). t \<noteq> 0 \<and> t_marker (task_of s t) = SCHEDULER_TASK_MARKER)"

text \<open>The state of a task agrees with the structures it is linked into.\<close>

definition placed :: "sys \<Rightarrow> addr \<Rightarrow> bool" where
  "placed s t \<longleftrightarrow>
    state_of s t \<noteq> TASK_TERMINATED \<and> state_of s t \<noteq> TASK_RESERVED \<and>
    (state_of s t = TASK_READY \<longrightarrow> current_queue (task_of s t) = Some ReadyQueue) \<and>
    (state_of s t = TASK_BLOCKED \<longrightarrow> (\<exists>f. current_queue (task_of s t) = Some (Waiters f))) \<and>
    (state_of s t = TASK_SUSPENDED \<longrightarrow> current_queue (task_of s t) = None) \<and>
    (state_of s t = TASK_RUNNING \<longrightarrow> current_queue (task_of s t) = None \<and>
       current_task (cores s (t_core (task_of s t))) = t) \<and>
    (t \<in> set (timers (sched s)) \<longrightarrow> state_of s t = TASK_BLOCKED \<or> state_of s t = TASK_SUSPENDED)"

definition current_ok :: "sys \<Rightarrow> word32 \<Rightarrow> bool" where
  "current_ok s c \<longleftrightarrow>
    current_task (cores s c) \<in> set (tasks (sched s)) \<and>
    state_of s (current_task (cores s c)) = TASK_RUNNING \<and>
    t_core (task_of s (current_task (cores s c))) = c"

definition inv_but :: "addr set \<Rightarrow> sys \<Rightarrow> bool" where
  "inv_but X s \<longleftrightarrow> queues_wf s \<and> timers_wf s \<and> tasks_wf s \<and>
    (\<forall>t\<in>set (tasks (sched s)) - X. placed s t) \<and>
    (\<forall>c. current_task (cores s c) \<noteq> 0 \<longrightarrow> current_task (cores s c) \<notin> X \<longrightarrow> current_ok s c)"

abbreviation sched_inv :: "sys \<Rightarrow> bool" where
  "sched_inv \<equiv> inv_but {}"

subsection \<open>Queues\<close>

lemma queues_wfD:
  assumes "queues_wf s"
  shows "distinct (queues s q)" "sorted_wrt (\<lambda>a b. prio s a \<le> prio s b) (queues s q)"
    "t \<in> set (queues s q) \<longleftrightarrow> current_queue (task_of s t) = Some q"
    "current_queue (task_of s t) = Some q \<Longrightarrow> t \<in> set (tasks (sched s))"
  using assms by (auto simp: queues_wf_def)

lemma queues_wf_cong:
  assumes "queues s' = queues s" and "tasks (sched s') = tasks (sched s)"
    and "\<And>t. prio s' t = prio s t"
    and "\<And>t. current_queue (task_of s' t) = current_queue (task_of s t)"
  shows "queues_wf s' = queues_wf s"
  by (simp add: queues_wf_def assms)

lemma queues_wf_qrem:
  assumes "queues_wf s"
  shows "queues_wf (qrem t s)"
  unfolding queues_wf_def
proof (intro conjI allI)
  fix q
  show "distinct (queues (qrem t s) q)" using queues_wfD(1) [OF assms] by simp
  have "sorted_wrt (\<lambda>a b. prio s a \<le> prio s b) (queues (qrem t s) q)"
    using queues_wfD(2) [OF assms] by auto
  then show "sorted_wrt (\<lambda>a b. prio (qrem t s) a \<le> prio (qrem t s) b) (queues (qrem t s) q)"
    by (rule sorted_wrt_congI) auto
next
  fix u q
  show "u \<in> set (queues (qrem t s) q) \<longleftrightarrow> current_queue (task_of (qrem t s) u) = Some q"
    using queues_wfD(3) [OF assms] by auto
next
  fix u
  show "current_queue (task_of (qrem t s) u) \<noteq> None \<longrightarrow> u \<in> set (tasks (sched (qrem t s)))"
    using queues_wfD(4) [OF assms] by auto
qed

lemma queues_wf_qpush:
  assumes "queues_wf s" and "current_queue (task_of s t) = None" and "t \<in> set (tasks (sched s))"
  shows "queues_wf (qpush q t s)"
  unfolding queues_wf_def
proof (intro conjI allI)
  fix q'
  have "t \<notin> set (queues s q)" using queues_wfD(3) [OF assms(1), of t q] assms(2) by simp
  then show "distinct (queues (qpush q t s) q')" using queues_wfD(1) [OF assms(1)] by simp
  have "sorted_wrt (\<lambda>a b. prio s a \<le> prio s b) (queues (qpush q t s) q')"
    using sorted_wrt_le_insert [OF queues_wfD(2) [OF assms(1)]] queues_wfD(2) [OF assms(1)] by simp
  then show "sorted_wrt (\<lambda>a b. prio (qpush q t s) a \<le> prio (qpush q t s) b) (queues (qpush q t s) q')"
    by (rule sorted_wrt_congI) auto
next
  fix u q'
  show "u \<in> set (queues (qpush q t s) q') \<longleftrightarrow> current_queue (task_of (qpush q t s) u) = Some q'"
    using queues_wfD(3) [OF assms(1)] assms(2) by auto
next
  fix u
  show "current_queue (task_of (qpush q t s) u) \<noteq> None \<longrightarrow> u \<in> set (tasks (sched (qpush q t s)))"
    using queues_wfD(4) [OF assms(1)] assms(3) by auto
qed

text \<open>The priority of a task that is in no queue is free.\<close>

lemma queues_wf_task_upd:
  assumes "queues_wf s"
    and "current_queue (f (task_of s t)) = current_queue (task_of s t)"
    and "current_priority (f (task_of s t)) = prio s t \<or> current_queue (task_of s t) = None"
  shows "queues_wf (task_upd t f s)"
  unfolding queues_wf_def
proof (intro conjI allI)
  fix q
  show "distinct (queues (task_upd t f s) q)" using queues_wfD(1) [OF assms(1)] by simp
  have "t \<notin> set (queues s q) \<or> current_priority (f (task_of s t)) = prio s t"
    using assms(3) queues_wfD(3) [OF assms(1), of t q] by auto
  with queues_wfD(2) [OF assms(1), of q]
  show "sorted_wrt (\<lambda>a b. prio (task_upd t f s) a \<le> prio (task_upd t f s) b) (queues (task_upd t f s) q)"
    by (auto elim!: sorted_wrt_congI)
qed (use queues_wfD(3,4) [OF assms(1)] assms(2) in auto)

lemma queues_wf_reprio:
  assumes "queues_wf s"
  shows "queues_wf (reprio t p s)"
proof (cases "current_queue (task_of s t)")
  case None
  then show ?thesis using queues_wf_task_upd [OF assms] by (simp add: reprio_def)
next
  case (Some q)
  define s1 where "s1 = task_upd t (\<lambda>x. x\<lparr>current_priority := p\<rparr>) (qrem t s)"
  have "queues_wf s1"
    unfolding s1_def by (rule queues_wf_task_upd) (simp_all add: queues_wf_qrem assms)
  then have "queues_wf (qpush q t s1)"
    using queues_wfD(4) [OF assms Some] by (intro queues_wf_qpush) (simp_all add: s1_def)
  moreover have "task_of (reprio t p s) = task_of (qpush q t s1)"
    using Some by (auto simp: s1_def current_queue_restore)
  moreover have "queues (reprio t p s) = queues (qpush q t s1)"
    using Some by (auto simp: queues_reprio s1_def intro!: insert_before_first_cong)
  ultimately show ?thesis
    using queues_wf_cong [of "reprio t p s" "qpush q t s1"] by (simp add: s1_def)
qed

subsection \<open>Timers\<close>

lemma timers_wf_cong:
  assumes "timers (sched s') = timers (sched s)" and "timer_expires (sched s') = timer_expires (sched s)"
    and "tasks (sched s') = tasks (sched s)"
    and "\<And>t. expires s' t = expires s t"
  shows "timers_wf s' = timers_wf s"
  by (simp add: timers_wf_def closest_timer_def assms cong: list.case_cong)

lemma timers_wf_trem:
  assumes "timers_wf s"
  shows "timers_wf (trem t s)"
  using assms by (auto simp: timers_wf_def trem_def closest_timer_def split: list.splits)

lemma timers_wf_tpush:
  assumes "timers_wf s" and "t \<in> set (tasks (sched s))"
  shows "timers_wf (tpush t e s)"
proof -
  let ?s = "tpush t e s" and ?ts = "filter ((\<noteq>) t) (timers (sched s))"
  have "sorted_wrt (\<lambda>a b. expires s a \<le> expires s b) ?ts" using assms(1) by (auto simp: timers_wf_def)
  then have "sorted_wrt (\<lambda>a b. expires ?s a \<le> expires ?s b) ?ts" by (rule sorted_wrt_congI) auto
  from sorted_wrt_le_insert [OF this, of t]
  have "sorted_wrt (\<lambda>a b. expires ?s a \<le> expires ?s b) (timers (sched ?s))" by simp
  moreover have "timer_expires (sched ?s) = closest_timer ?s"
    by (subst closest_timer_hd) (simp_all add: tpush_def Let_def)
  ultimately show ?thesis using assms by (auto simp: timers_wf_def)
qed

lemma timers_wf_task_upd:
  assumes "timers_wf s" and "t_timer_expires (f (task_of s t)) = expires s t"
  shows "timers_wf (task_upd t f s)"
  using assms timers_wf_cong [of "task_upd t f s" s] by simp

subsection \<open>Opening and closing the invariant\<close>

lemma inv_butD:
  assumes "inv_but X s"
  shows "queues_wf s" "timers_wf s" "tasks_wf s"
    "t \<in> set (tasks (sched s)) \<Longrightarrow> t \<notin> X \<Longrightarrow> placed s t"
    "current_task (cores s c) \<noteq> 0 \<Longrightarrow> current_task (cores s c) \<notin> X \<Longrightarrow> current_ok s c"
    "t \<in> set (tasks (sched s)) \<Longrightarrow> t \<noteq> 0"
    "t \<in> set (tasks (sched s)) \<Longrightarrow> t_marker (task_of s t) = SCHEDULER_TASK_MARKER"
  using assms by (auto simp: inv_but_def tasks_wf_def)

lemma inv_butI:
  assumes "queues_wf s" and "timers_wf s" and "tasks_wf s"
    and "\<And>t. t \<in> set (tasks (sched s)) \<Longrightarrow> t \<notin> X \<Longrightarrow> placed s t"
    and "\<And>c. current_task (cores s c) \<noteq> 0 \<Longrightarrow> current_task (cores s c) \<notin> X \<Longrightarrow> current_ok s c"
  shows "inv_but X s"
  using assms by (simp add: inv_but_def)

lemma inv_but_open: "inv_but X s \<Longrightarrow> X \<subseteq> Y \<Longrightarrow> inv_but Y s"
  by (auto simp: inv_but_def)

lemma inv_but_close:
  assumes "inv_but (insert t X) s"
    and "t \<in> set (tasks (sched s)) \<Longrightarrow> placed s t"
    and "\<And>c. current_task (cores s c) = t \<Longrightarrow> t \<noteq> 0 \<Longrightarrow> current_ok s c"
  shows "inv_but X s"
  using assms unfolding inv_but_def by blast

text \<open>The invariant looks at the lists, the tasks and the current task of each core only.\<close>

lemma inv_but_cong:
  assumes "queues s' = queues s" and "sched s' = sched s" and "task_of s' = task_of s"
    and "\<And>c. current_task (cores s' c) = current_task (cores s c)"
  shows "inv_but X s' = inv_but X s"
proof -
  have "queues_wf s' = queues_wf s" by (rule queues_wf_cong) (simp_all add: assms)
  moreover have "timers_wf s' = timers_wf s" by (rule timers_wf_cong) (simp_all add: assms)
  moreover have "tasks_wf s' = tasks_wf s" by (simp add: tasks_wf_def assms)
  ultimately show ?thesis by (simp add: inv_but_def placed_def current_ok_def assms)
qed

lemma inv_but_other_fields [simp]:
  "inv_but X (s\<lparr>mem := m\<rparr>) = inv_but X s"
  "inv_but X (s\<lparr>owned := w\<rparr>) = inv_but X s"
  "inv_but X (s\<lparr>futex_of := fx\<rparr>) = inv_but X s"
  "inv_but X (s\<lparr>spin_held := b\<rparr>) = inv_but X s"
  "inv_but X (s\<lparr>primask := b\<rparr>) = inv_but X s"
  "inv_but X (s\<lparr>errno := e\<rparr>) = inv_but X s"
  by (rule inv_but_cong; simp)+

lemma inv_but_core:
  assumes "\<And>x. current_task (g x) = current_task x"
  shows "inv_but X (core_upd c g s) = inv_but X s"
  by (rule inv_but_cong) (simp_all add: assms)

text \<open>An operation on one task of \<open>X\<close> leaves the others where they are.\<close>

lemma inv_but_step:
  assumes i: "inv_but X s" and "t \<in> X"
    and "queues_wf s'" and "timers_wf s'" and "tasks_wf s'"
    and "tasks (sched s') = tasks (sched s)"
    and u: "\<And>u. u \<noteq> t \<Longrightarrow> state_of s' u = state_of s u \<and> t_core (task_of s' u) = t_core (task_of s u) \<and>
      current_queue (task_of s' u) = current_queue (task_of s u) \<and>
      (u \<in> set (timers (sched s')) \<longleftrightarrow> u \<in> set (timers (sched s)))"
    and c: "\<And>c. current_task (cores s' c) = current_task (cores s c)"
  shows "inv_but X s'"
proof (rule inv_butI [OF assms(3-5)])
  fix u assume "u \<in> set (tasks (sched s'))" "u \<notin> X"
  moreover from this have "u \<noteq> t" using assms(2) by auto
  ultimately show "placed s' u"
    using inv_butD(4) [OF i, of u] assms(6) u [of u] c by (simp add: placed_def)
next
  fix d assume d: "current_task (cores s' d) \<noteq> 0" "current_task (cores s' d) \<notin> X"
  then have "current_task (cores s d) \<noteq> t" using assms(2) c by auto
  with d show "current_ok s' d"
    using inv_butD(5) [OF i, of d] assms(6) u [of "current_task (cores s d)"] c
    by (simp add: current_ok_def)
qed

lemma tasks_wf_cong:
  assumes "tasks (sched s') = tasks (sched s)" and "\<And>t. t_marker (task_of s' t) = t_marker (task_of s t)"
  shows "tasks_wf s' = tasks_wf s"
  by (simp add: tasks_wf_def assms)

lemma inv_but_qrem:
  assumes "inv_but X s" and "t \<in> X"
  shows "inv_but X (qrem t s)"
proof (rule inv_but_step [OF assms queues_wf_qrem [OF inv_butD(1) [OF assms(1)]]])
  show "timers_wf (qrem t s)" using inv_butD(2) [OF assms(1)] timers_wf_cong [of "qrem t s" s] by simp
  show "tasks_wf (qrem t s)" using inv_butD(3) [OF assms(1)] tasks_wf_cong [of "qrem t s" s] by simp
qed simp_all

lemma inv_but_qpush:
  assumes "inv_but X s" and "t \<in> X" and "current_queue (task_of s t) = None"
    and "t \<in> set (tasks (sched s))"
  shows "inv_but X (qpush q t s)"
proof (rule inv_but_step [OF assms(1,2) queues_wf_qpush [OF inv_butD(1) [OF assms(1)] assms(3,4)]])
  show "timers_wf (qpush q t s)" using inv_butD(2) [OF assms(1)] timers_wf_cong [of "qpush q t s" s] by simp
  show "tasks_wf (qpush q t s)" using inv_butD(3) [OF assms(1)] tasks_wf_cong [of "qpush q t s" s] by simp
qed simp_all

lemma inv_but_tpush:
  assumes "inv_but X s" and "t \<in> X" and "t \<in> set (tasks (sched s))"
  shows "inv_but X (tpush t e s)"
proof (rule inv_but_step [OF assms(1,2) _ timers_wf_tpush [OF inv_butD(2) [OF assms(1)] assms(3)]])
  show "queues_wf (tpush t e s)" using inv_butD(1) [OF assms(1)] queues_wf_cong [of "tpush t e s" s] by simp
  show "tasks_wf (tpush t e s)" using inv_butD(3) [OF assms(1)] tasks_wf_cong [of "tpush t e s" s] by simp
qed simp_all

lemma inv_but_task_upd:
  assumes "inv_but X s" and "t \<in> X"
    and "current_queue (f (task_of s t)) = current_queue (task_of s t)"
    and "current_priority (f (task_of s t)) = prio s t"
    and "t_timer_expires (f (task_of s t)) = expires s t"
    and "t_marker (f (task_of s t)) = t_marker (task_of s t)"
  shows "inv_but X (task_upd t f s)"
  using assms inv_butD(1-3) [OF assms(1)] tasks_wf_cong [of "task_upd t f s" s]
  by (intro inv_but_step [OF assms(1,2)] queues_wf_task_upd timers_wf_task_upd) simp_all

text \<open>Fields the invariant does not read.\<close>

lemma inv_but_task_fields:
  assumes "inv_but X s"
    and "current_queue (f (task_of s t)) = current_queue (task_of s t)"
    and "current_priority (f (task_of s t)) = prio s t"
    and "t_timer_expires (f (task_of s t)) = expires s t"
    and "t_marker (f (task_of s t)) = t_marker (task_of s t)"
    and "t_state (f (task_of s t)) = state_of s t"
    and "t_core (f (task_of s t)) = t_core (task_of s t)"
  shows "inv_but X (task_upd t f s)"
proof (cases "t \<in> X")
  case True
  then show ?thesis using assms by (intro inv_but_task_upd)
next
  case False
  show ?thesis
  proof (rule inv_but_close)
    show "inv_but (insert t X) (task_upd t f s)"
      using assms by (auto intro: inv_but_task_upd inv_but_open)
    show "placed (task_upd t f s) t" if "t \<in> set (tasks (sched (task_upd t f s)))"
      using inv_butD(4) [OF assms(1), of t] that False assms by (simp add: placed_def)
    show "current_ok (task_upd t f s) c" if "current_task (cores (task_upd t f s) c) = t" "t \<noteq> 0" for c
      using inv_butD(5) [OF assms(1), of c] that False assms by (simp add: current_ok_def)
  qed
qed

text \<open>Timer removal and a change of priority keep every task in its place.\<close>

lemma inv_but_trem:
  assumes "inv_but X s"
  shows "inv_but X (trem t s)"
proof (rule inv_butI)
  show "queues_wf (trem t s)" using inv_butD(1) [OF assms] queues_wf_cong [of "trem t s" s] by simp
  show "timers_wf (trem t s)" by (rule timers_wf_trem [OF inv_butD(2) [OF assms]])
  show "tasks_wf (trem t s)" using inv_butD(3) [OF assms] tasks_wf_cong [of "trem t s" s] by simp
qed (use inv_butD(4,5) [OF assms] in \<open>auto simp: placed_def current_ok_def\<close>)

lemma inv_but_reprio:
  assumes "inv_but X s"
  shows "inv_but X (reprio t p s)"
proof (rule inv_butI)
  show "queues_wf (reprio t p s)" by (rule queues_wf_reprio [OF inv_butD(1) [OF assms]])
  show "timers_wf (reprio t p s)" using inv_butD(2) [OF assms] timers_wf_cong [of "reprio t p s" s] by simp
  show "tasks_wf (reprio t p s)" using inv_butD(3) [OF assms] tasks_wf_cong [of "reprio t p s" s] by simp
next
  fix u assume "u \<in> set (tasks (sched (reprio t p s)))" "u \<notin> X"
  then have "placed s u" using inv_butD(4) [OF assms] by simp
  then show "placed (reprio t p s) u" by (cases "u = t") (simp_all add: placed_def)
next
  fix c assume "current_task (cores (reprio t p s) c) \<noteq> 0" "current_task (cores (reprio t p s) c) \<notin> X"
  then have "current_ok s c" using inv_butD(5) [OF assms] by simp
  then show "current_ok (reprio t p s) c"
    by (cases "current_task (cores s c) = t") (simp_all add: current_ok_def)
qed

text \<open>The core gives up its task, or takes one over.\<close>

lemma inv_but_set_current:
  assumes "inv_but X s" and "current_task (cores s c) \<in> X \<or> current_task (cores s c) = 0"
    and "t \<in> X \<or> t = 0" and "\<And>x. current_task (g x) = t"
  shows "inv_but X (core_upd c g s)"
proof (rule inv_butI)
  let ?s = "core_upd c g s"
  show "queues_wf ?s" using inv_butD(1) [OF assms(1)] queues_wf_cong [of ?s s] by simp
  show "timers_wf ?s" using inv_butD(2) [OF assms(1)] timers_wf_cong [of ?s s] by simp
  show "tasks_wf ?s" using inv_butD(3) [OF assms(1)] tasks_wf_cong [of ?s s] by simp
next
  fix u assume u: "u \<in> set (tasks (sched (core_upd c g s)))" "u \<notin> X"
  then have p: "placed s u" "u \<noteq> 0" using inv_butD(4,6) [OF assms(1)] by auto
  then have "state_of s u = TASK_RUNNING \<Longrightarrow> t_core (task_of s u) \<noteq> c"
    using u assms(2) by (auto simp: placed_def)
  with p(1) show "placed (core_upd c g s) u" by (cases "state_of s u") (auto simp: placed_def)
next
  fix d assume "current_task (cores (core_upd c g s) d) \<noteq> 0" "current_task (cores (core_upd c g s) d) \<notin> X"
  then have "d \<noteq> c" "current_task (cores s d) \<noteq> 0" "current_task (cores s d) \<notin> X"
    using assms(3,4) by (auto split: if_splits)
  then show "current_ok (core_upd c g s) d" using inv_butD(5) [OF assms(1), of d] by (simp add: current_ok_def)
qed

end
