(* ===== verification/Sched_Calls.thy ===== *)
theory Sched_Calls
  imports Sched_Inv
begin

text \<open>
  The system calls keep the scheduler invariant: started in a state that satisfies it with the
  spin lock free, each handler runs to its end (no assertion fails and the lock is never taken
  twice), gives the lock back and re-establishes the invariant.
\<close>

section \<open>Leaving and entering a core\<close>

definition set_cur :: "addr \<Rightarrow> sys \<Rightarrow> sys" where
  "set_cur t s = core_upd (this_core s)
     (\<lambda>c. c\<lparr>current_task := t, c_tls := (if t \<noteq> 0 then tls (task_of s t) else 0)\<rparr>) s"

lemma set_cur_sel [simp]:
  "cores (set_cur t s) = (cores s)(this_core s := (this s)\<lparr>current_task := t,
     c_tls := (if t \<noteq> 0 then tls (task_of s t) else 0)\<rparr>)"
  "scheduler_set (set_cur t s) = scheduler_set s" "sched (set_cur t s) = sched s"
  "futex_of (set_cur t s) = futex_of s" "owned (set_cur t s) = owned s" "mem (set_cur t s) = mem s"
  "task_of (set_cur t s) = task_of s" "this_core (set_cur t s) = this_core s"
  "queues (set_cur t s) = queues s"
  "num_cores (set_cur t s) = num_cores s" "ipsr (set_cur t s) = ipsr s"
  "primask (set_cur t s) = primask s" "spin_held (set_cur t s) = spin_held s"
  "errno (set_cur t s) = errno s"
  by (simp_all add: set_cur_def)

lemma sched_set_current_eq [sched_defs]:
  "sched_set_current t s =
    check (t = 0 \<or> t_marker (task_of s t) = SCHEDULER_TASK_MARKER) (current_task (this s), set_cur t s)"
  by (simp add: sched_set_current_def set_cur_def scheduler_switch_hook_def check_def core_upd_def)

lemma request_switch_sel [simp]:
  "cores (scheduler_request_switch c s) = (cores s)(c := (cores s c)\<lparr>pendsv := True\<rparr>)"
  "scheduler_set (scheduler_request_switch c s) = scheduler_set s"
  "sched (scheduler_request_switch c s) = sched s"
  "futex_of (scheduler_request_switch c s) = futex_of s"
  "owned (scheduler_request_switch c s) = owned s" "mem (scheduler_request_switch c s) = mem s"
  "task_of (scheduler_request_switch c s) = task_of s"
  "this_core (scheduler_request_switch c s) = this_core s"
  "queues (scheduler_request_switch c s) = queues s"
  "num_cores (scheduler_request_switch c s) = num_cores s"
  "ipsr (scheduler_request_switch c s) = ipsr s"
  "primask (scheduler_request_switch c s) = primask s"
  "spin_held (scheduler_request_switch c s) = spin_held s"
  "errno (scheduler_request_switch c s) = errno s"
  by (simp_all add: scheduler_request_switch_def)

lemma inv_request_switch [simp]: "inv_but X (scheduler_request_switch c s) = inv_but X s"
  by (simp add: scheduler_request_switch_def inv_but_core)

lemma spin_unlock_sel [simp]:
  "scheduler_spin_unlock s = s\<lparr>spin_held := False\<rparr>"
  by (simp add: scheduler_spin_unlock_def)

lemma spin_lock_eq [sched_defs]:
  "scheduler_spin_lock s = check (\<not> spin_held s) (s\<lparr>spin_held := True\<rparr>)"
  by (simp add: scheduler_spin_lock_def check_def)

lemma sched_get_current_eq [sched_defs]:
  "sched_get_current s = check (current_task (this s) = 0 \<or>
     t_marker (task_of s (current_task (this s))) = SCHEDULER_TASK_MARKER) (current_task (this s))"
  by (simp add: sched_get_current_def Let_def)

lemma current_marked:
  assumes "sched_inv s"
  shows "current_task (cores s c) = 0 \<or>
    t_marker (task_of s (current_task (cores s c))) = SCHEDULER_TASK_MARKER"
  using inv_butD(5) [OF assms, of c] inv_butD(7) [OF assms] by (auto simp: current_ok_def)

text \<open>A current task is current on one core only.\<close>

lemma currentD:
  assumes "sched_inv s" and "current_task (cores s c) = t" and "t \<noteq> 0"
  shows "t \<in> set (tasks (sched s))" "state_of s t = TASK_RUNNING" "t_core (task_of s t) = c"
    "current_queue (task_of s t) = None" "t \<notin> set (timers (sched s))"
    "t_marker (task_of s t) = SCHEDULER_TASK_MARKER"
    "current_task (cores s d) = t \<longleftrightarrow> d = c"
proof -
  show t: "t \<in> set (tasks (sched s))" "state_of s t = TASK_RUNNING" "t_core (task_of s t) = c"
    using inv_butD(5) [OF assms(1), of c] assms(2,3) by (auto simp: current_ok_def)
  show "current_queue (task_of s t) = None" "t \<notin> set (timers (sched s))"
    using inv_butD(4) [OF assms(1) t(1)] t(2) by (auto simp: placed_def)
  show "t_marker (task_of s t) = SCHEDULER_TASK_MARKER" by (rule inv_butD(7) [OF assms(1) t(1)])
  have "t_core (task_of s t) = d" if "current_task (cores s d) = t"
    using inv_butD(5) [OF assms(1), of d] assms(3) that by (simp add: current_ok_def)
  then show "current_task (cores s d) = t \<longleftrightarrow> d = c" using assms(2) t(3) by metis
qed

text \<open>
  The end of suspend and wait: the caller, already in its new place, saves its frame and gives
  the core up.
\<close>

lemma leave_core:
  assumes i: "inv_but {t} s" and c: "current_task (this s) = t"
    and u: "\<And>d. current_task (cores s d) = t \<longleftrightarrow> d = this_core s"
    and p: "placed s t" "state_of s t \<noteq> TASK_RUNNING" and "t \<noteq> 0"
  shows "sched_inv (set_cur 0 (task_upd t (psp_update f) s))"
proof (rule inv_but_close)
  let ?s = "set_cur 0 (task_upd t (psp_update f) s)"
  show "inv_but (insert t {}) ?s"
    unfolding set_cur_def
    by (rule inv_but_set_current [where t = 0]) (use i c in \<open>simp_all add: inv_but_task_upd\<close>)
  show "placed ?s t" using p by (simp add: placed_def)
  fix d assume "current_task (cores ?s d) = t"
  then show "current_ok ?s d" using u [of d] \<open>t \<noteq> 0\<close> by (simp split: if_splits)
qed

lemmas inv_intros = inv_but_task_upd inv_but_tpush inv_but_qpush inv_but_qrem inv_but_trem
  inv_but_reprio

lemma sched_inv_but: "sched_inv s \<Longrightarrow> inv_but X s"
  by (rule inv_but_open) auto

lemma scheduler_task_alive_iff:
  "scheduler_task_alive t s = 0 \<longleftrightarrow> t \<noteq> 0 \<and> t \<in> set (tasks (sched s))"
  by (simp add: scheduler_task_alive_def)

lemma scheduler_task_alive_spin [simp]:
  "scheduler_task_alive t (s\<lparr>spin_held := b\<rparr>) = scheduler_task_alive t s"
  by (simp add: scheduler_task_alive_def)

section \<open>Suspend\<close>

lemma scheduler_suspend_svc_inv:
  assumes i: "sched_inv s" and l: "\<not> spin_held s" and c: "current_task (this s) \<noteq> 0"
    and t: "sf_r0 frame = current_task (this s) \<or> state_of s (sf_r0 frame) \<noteq> TASK_RUNNING"
  shows "returns (scheduler_suspend_svc frame s) (\<lambda>(f, s'). sched_inv s' \<and> \<not> spin_held s')"
proof (cases "scheduler_task_alive (sf_r0 frame) s = 0")
  case False
  then show ?thesis
    using i l current_marked [OF i, of "this_core s"]
    by (simp add: scheduler_suspend_svc_def sched_defs Let_def)
next
  case True
  define task where "task = sf_r0 frame"
  define cur where "cur = current_task (this s)"
  have alive: "task \<noteq> 0" "task \<in> set (tasks (sched s))"
    using True by (auto simp: scheduler_task_alive_iff task_def)
  note cur = currentD [OF i, of "this_core s" cur, OF cur_def [symmetric] c [folded cur_def]]
  note unfold = scheduler_suspend_svc_def sched_defs True [folded task_def] task_def [symmetric]
    cur_def [symmetric] Let_def cur l alive c [folded cur_def]
  show ?thesis
  proof (cases "task = cur")
    case True
    then show ?thesis using True cur
      by (auto simp: unfold placed_def intro!: leave_core inv_intros sched_inv_but [OF i])
  next
    case False
    then have "state_of s task \<noteq> TASK_RUNNING" using t by (simp add: task_def cur_def)
    then have nc: "current_task (cores s d) \<noteq> task" for d
      using currentD(2) [OF i, of d task] alive by auto
    show ?thesis
      using False cur nc
      by (auto simp: unfold placed_def intro!: leave_core inv_but_close [of task "{cur}"])
        (auto simp: cur alive intro!: inv_intros sched_inv_but [OF i])
  qed
qed

section \<open>Resume\<close>

lemma not_current:
  assumes "sched_inv s" and "state_of s t \<noteq> TASK_RUNNING" and "t \<noteq> 0"
  shows "current_task (cores s d) \<noteq> t"
  using currentD(2) [OF assms(1), of d t] assms(2,3) by auto

text \<open>A blocked or suspended task goes to the ready queue.\<close>

lemma ready_task_inv:
  assumes "inv_but {t} s" and "t \<in> set (tasks (sched s))" and "t \<notin> set (timers (sched s))"
    and "\<And>d. current_task (cores s d) \<noteq> t" and "current_queue (task_of s t) = None"
    and "\<And>x. current_queue (f x) = current_queue x" and "\<And>x. current_priority (f x) = current_priority x"
    and "\<And>x. t_timer_expires (f x) = t_timer_expires x" and "\<And>x. t_marker (f x) = t_marker x"
    and "t_state (f (task_of s t)) = TASK_READY"
  shows "sched_inv (qpush ReadyQueue t (task_upd t f s))"
  by (rule inv_but_close [of t "{}"])
    (use assms in \<open>auto simp: placed_def intro!: inv_but_qpush inv_but_task_upd\<close>)

lemma scheduler_resume_svc_inv:
  assumes i: "sched_inv s" and l: "\<not> spin_held s"
  shows "returns (scheduler_resume_svc frame s) (\<lambda>(f, s'). sched_inv s' \<and> \<not> spin_held s')"
proof (cases "scheduler_task_alive (ef_r0 frame) s = 0")
  case False
  then show ?thesis using i l by (simp add: scheduler_resume_svc_def sched_defs Let_def)
next
  case True
  define t where "t = ef_r0 frame"
  have alive: "t \<noteq> 0" "t \<in> set (tasks (sched s))"
    using True by (auto simp: scheduler_task_alive_iff t_def)
  note mark = inv_butD(7) [OF i alive(2)]
  show ?thesis
  proof (cases "state_of s t = TASK_BLOCKED \<or> state_of s t = TASK_SUSPENDED")
    case True
    then have "\<forall>d. current_task (cores s d) \<noteq> t" by (intro allI not_current [OF i _ alive(1)]) auto
    then show ?thesis
      using True alive mark l
      by (auto simp: scheduler_resume_svc_def sched_defs t_def [symmetric] Let_def scheduler_task_alive_iff
          intro!: ready_task_inv) (auto intro!: inv_intros sched_inv_but [OF i])
  next
    case False
    then show ?thesis
      using alive mark l i
      by (auto simp: scheduler_resume_svc_def sched_defs t_def [symmetric] Let_def scheduler_task_alive_iff)
  qed
qed

section \<open>Create\<close>

lemma inv_but_add_task:
  assumes i: "inv_but X s" and t: "t \<notin> set (tasks (sched s))" "t \<noteq> 0"
    "t_marker (task_of s t) = SCHEDULER_TASK_MARKER" and tX: "t \<in> X"
  shows "inv_but X (sched_upd (\<lambda>c. c\<lparr>tasks := tasks c @ [t]\<rparr>) s)"
proof (rule inv_butI)
  let ?s = "sched_upd (\<lambda>c. c\<lparr>tasks := tasks c @ [t]\<rparr>) s"
  show "queues_wf ?s" using inv_butD(1) [OF i] by (auto simp: queues_wf_def)
  show "timers_wf ?s"
    using inv_butD(2) [OF i] by (auto simp: timers_wf_def closest_timer_def cong: list.case_cong)
  show "tasks_wf ?s" using inv_butD(3) [OF i] t by (auto simp: tasks_wf_def)
qed (use inv_butD(4,5) [OF i] tX in \<open>auto simp: placed_def current_ok_def\<close>)

text \<open>A task the scheduler does not know: marked, in no queue.\<close>

definition fresh_task :: "sys \<Rightarrow> addr \<Rightarrow> bool" where
  "fresh_task s t \<longleftrightarrow> t \<noteq> 0 \<and> t \<notin> set (tasks (sched s)) \<and>
    t_marker (task_of s t) = SCHEDULER_TASK_MARKER"

lemma fresh_taskD:
  assumes "sched_inv s" and "fresh_task s t"
  shows "t \<noteq> 0" "t \<notin> set (tasks (sched s))" "t_marker (task_of s t) = SCHEDULER_TASK_MARKER"
    "current_queue (task_of s t) = None" "t \<notin> set (timers (sched s))"
    "current_task (cores s d) \<noteq> t"
proof -
  show t: "t \<noteq> 0" "t \<notin> set (tasks (sched s))" "t_marker (task_of s t) = SCHEDULER_TASK_MARKER"
    using assms(2) by (auto simp: fresh_task_def)
  show "current_queue (task_of s t) = None"
    using queues_wfD(4) [OF inv_butD(1) [OF assms(1)]] t(2) by (cases "current_queue (task_of s t)") auto
  show "t \<notin> set (timers (sched s))" using inv_butD(2) [OF assms(1)] t(2) by (auto simp: timers_wf_def)
  show "current_task (cores s d) \<noteq> t" using currentD(1) [OF assms(1), of d t] t(1,2) by auto
qed

lemma scheduler_create_svc_inv:
  assumes i: "sched_inv s" and l: "\<not> spin_held s" and "scheduler_set s" and t: "fresh_task s (ef_r0 frame)"
  shows "returns (scheduler_create_svc frame s)
    (\<lambda>(f, s'). f = frame \<and> sched_inv s' \<and> \<not> spin_held s' \<and> tasks (sched s') = tasks (sched s) @ [ef_r0 frame])"
proof -
  define t where "t = ef_r0 frame"
  note f = fresh_taskD [OF i t [folded t_def]]
  show ?thesis
    using assms(3) l f current_marked [OF i, of "this_core s"]
    apply (auto simp: scheduler_create_svc_def sched_defs t_def [symmetric] Let_def placed_def
        intro!: ready_task_inv inv_but_close [of t "{}"] inv_intros inv_but_add_task sched_inv_but [OF i] )
    done
qed

section \<open>Change of priority\<close>

lemma scheduler_priority_svc_inv:
  assumes i: "sched_inv s" and l: "\<not> spin_held s"
  shows "returns (scheduler_priority_svc frame s) (\<lambda>(f, s'). sched_inv s' \<and> \<not> spin_held s')"
  using assms
  by (auto simp: scheduler_priority_svc_def sched_defs Let_def scheduler_task_alive_iff inv_butD(7) [OF i]
      intro!: inv_but_reprio inv_but_task_fields)

section \<open>Terminate\<close>

lemma inv_but_del_task:
  assumes i: "inv_but X s" and t: "t \<in> X" "current_queue (task_of s t) = None" "t \<notin> set (timers (sched s))"
  shows "inv_but X (sched_upd (\<lambda>c. c\<lparr>tasks := filter ((\<noteq>) t) (tasks c)\<rparr>) s)"
proof (rule inv_butI)
  let ?s = "sched_upd (\<lambda>c. c\<lparr>tasks := filter ((\<noteq>) t) (tasks c)\<rparr>) s"
  show "queues_wf ?s" using inv_butD(1) [OF i] t(2) by (auto simp: queues_wf_def)
  show "timers_wf ?s"
    using inv_butD(2) [OF i] t(3) by (auto simp: timers_wf_def closest_timer_def cong: list.case_cong)
  show "tasks_wf ?s" using inv_butD(3) [OF i] by (auto simp: tasks_wf_def)
qed (use inv_butD(4,5) [OF i] t(1) in \<open>auto simp: placed_def current_ok_def\<close>)

text \<open>
  What an exit handler may do: it is called with the scheduler locked and leaves the data of
  the scheduler alone.
\<close>

definition client_only :: "(sys \<Rightarrow> sys) \<Rightarrow> bool" where
  "client_only h \<longleftrightarrow> (\<forall>s. queues (h s) = queues s \<and> sched (h s) = sched s \<and> task_of (h s) = task_of s \<and>
    (\<forall>c. current_task (cores (h s) c) = current_task (cores s c) \<and>
         scheduler_initial_frame (cores (h s) c) = scheduler_initial_frame (cores s c)) \<and>
    this_core (h s) = this_core s \<and> spin_held (h s) = spin_held s \<and>
    scheduler_set (h s) = scheduler_set s \<and> num_cores (h s) = num_cores s)"

lemma client_onlyD:
  assumes "client_only h"
  shows "queues (h s) = queues s" "sched (h s) = sched s" "task_of (h s) = task_of s"
    "current_task (cores (h s) c) = current_task (cores s c)"
    "scheduler_initial_frame (cores (h s) c) = scheduler_initial_frame (cores s c)"
    "this_core (h s) = this_core s" "spin_held (h s) = spin_held s"
    "scheduler_set (h s) = scheduler_set s" "num_cores (h s) = num_cores s"
    "inv_but X (h s) = inv_but X s"
  using assms inv_but_cong [of "h s" s X] by (auto simp: client_only_def)

lemma scheduler_terminated_hook_eq [sched_defs]:
  "scheduler_terminated_hook exit_call t s =
    check (t \<noteq> 0 \<and> t_marker (task_of s t) = SCHEDULER_TASK_MARKER)
     (if exit_handler (task_of s t) \<noteq> 0 then exit_call (exit_handler (task_of s t)) t s else s)"
  by (simp add: scheduler_terminated_hook_def check_def)

lemma scheduler_terminate_svc_inv:
  assumes i: "sched_inv s" and l: "\<not> spin_held s"
    and t: "ef_r0 frame = current_task (this s) \<or> state_of s (ef_r0 frame) \<noteq> TASK_RUNNING"
    and h: "\<And>h t. client_only (exit_call h t)"
  shows "returns (scheduler_terminate_svc exit_call frame s) (\<lambda>(f, s'). sched_inv s' \<and> \<not> spin_held s' \<and>
    ef_r0 frame \<notin> set (tasks (sched s')))"
proof (cases "scheduler_task_alive (ef_r0 frame) s = 0")
  case False
  then show ?thesis
    using i l current_marked [OF i, of "this_core s"] inv_butD(6) [OF i]
    by (auto simp: scheduler_terminate_svc_def sched_defs Let_def scheduler_task_alive_iff)
next
  case True
  define t where "t = ef_r0 frame"
  define s1 where "s1 = sched_upd (\<lambda>c. c\<lparr>tasks := filter ((\<noteq>) t) (tasks c)\<rparr>)
    (trem t (qrem t (task_upd t (\<lambda>x. x\<lparr>t_state := TASK_TERMINATED, t_core := UINT32_MAX\<rparr>) (s\<lparr>spin_held := True\<rparr>))))"
  have alive: "t \<noteq> 0" "t \<in> set (tasks (sched s))"
    using True by (auto simp: scheduler_task_alive_iff t_def)
  note mark = inv_butD(7) [OF i alive(2)]
  have s1: "inv_but {t} s1" unfolding s1_def by (intro inv_but_del_task inv_intros) (auto intro: sched_inv_but i)
  have sel: "cores s1 = cores s" "this_core s1 = this_core s" "t \<notin> set (tasks (sched s1))"
    "task_of s1 t = (task_of s t)\<lparr>t_state := TASK_TERMINATED, t_core := UINT32_MAX, current_queue := None\<rparr>"
    by (simp_all add: s1_def)
  define s2 where "s2 = (if exit_handler (task_of s t) \<noteq> 0 then exit_call (exit_handler (task_of s t)) t s1 else s1)"
  have unf: "scheduler_terminate_svc exit_call frame s = do {
     s3 \<leftarrow> (if t = current_task (this s) then do {
           (_, s) \<leftarrow> sched_set_current 0 s2;
           Some (scheduler_request_switch (scheduler_current_core s) s)
         } else Some s2);
     Some (frame\<lparr>ef_r0 := 0\<rparr>, s3\<lparr>spin_held := False\<rparr>)}"
    using True mark alive l  current_marked [OF i, of "this_core s"]
    by (simp add: scheduler_terminate_svc_def sched_defs Let_def s1_def s2_def t_def [symmetric])
  have s2: "inv_but {t} s2" "this_core s2 = this_core s" "t \<notin> set (tasks (sched s2))"
    "current_task (cores s2 d) = current_task (cores s d)" for d
    using s1 sel by (simp_all add: s2_def client_onlyD [OF h])
  show ?thesis
  proof (cases "t = current_task (this s)")
    case True
    then have u: "current_task (cores s d) = t \<longleftrightarrow> d = this_core s" for d
      using currentD(7) [OF i _ alive(1)] by simp
    have "sched_inv (set_cur 0 s2)"
    proof (rule inv_but_close [of t "{}"])
      show "inv_but {t} (set_cur 0 s2)"
        unfolding set_cur_def
        by (rule inv_but_set_current [OF s2(1), where t = 0]) (use True s2 in simp_all)
    qed (use s2 u alive(1) in \<open>auto split: if_splits\<close>)
    with True s2 show ?thesis
      by (simp add: unf sched_defs t_def [symmetric])
  next
    case False
    then have "current_task (cores s d) \<noteq> t" for d
      using not_current [OF i _ alive(1)] t by (simp add: t_def)
    then have "sched_inv s2" using s2 by (intro inv_but_close [of t "{}"]) auto
    with False s2 show ?thesis by (simp add: unf t_def [symmetric])
  qed
qed

end
