(* ===== verification/Sched_Futex.thy ===== *)
theory Sched_Futex
  imports Sched_Calls
begin

text \<open>
  The futex calls keep the scheduler invariant, with what they do exactly: when a wait blocks,
  which tasks a wake makes ready and in which order, and the word they leave in the futex.
\<close>

section \<open>Wait\<close>

lemma owner_of_or_1 [simp]: "(v OR 1) AND - 2 = v AND - 2" for v :: word32
proof -
  have "(v OR 1) AND NOT 1 = v AND NOT 1" by (rule bit_word_eqI) (auto simp: bit_simps)
  then show ?thesis by simp
qed

text \<open>
  What a client owes a priority inheritance futex: its word holds the address of a task,
  with or without the contention bit.
\<close>

definition owner_ok :: "sys \<Rightarrow> addr \<Rightarrow> word32 \<Rightarrow> bool" where
  "owner_ok s f v \<longleftrightarrow> f_flags (futex_of s f) AND PI_OWNER = PI_OWNER \<longrightarrow>
    owner_of v \<noteq> 0 \<and> t_marker (task_of s (owner_of v)) = SCHEDULER_TASK_MARKER"

text \<open>The word the waiter leaves in the futex: the expected one, with the contention bit if tracked.\<close>

definition wait_word :: "sys \<Rightarrow> scheduler_frame \<Rightarrow> word32" where
  "wait_word s frame =
    (if has_flag (f_flags (futex_of s (sf_r0 frame))) SCHEDULER_FUTEX_CONTENTION_TRACKING
     then sf_r1 frame OR SCHEDULER_FUTEX_CONTENTION_TRACKING else sf_r1 frame)"

definition wait_ok :: "scheduler_frame \<Rightarrow> sys \<Rightarrow> bool" where
  "wait_ok frame s \<longleftrightarrow> sf_r0 frame \<noteq> 0 \<and>
    f_marker (futex_of s (sf_r0 frame)) = SCHEDULER_FUTEX_MARKER \<and>
    owner_ok s (sf_r0 frame) (sf_r1 frame)"

text \<open>Blocking is for good: the task is in the waiters queue, and it is placed.\<close>

lemma wait_block_inv:
  assumes i: "sched_inv s" and c: "current_task (this s) = cur" "cur \<noteq> 0" and o: "owner_ok s f v"
  shows "returns (wait_block f v ticks cur (s\<lparr>spin_held := b, mem := m\<rparr>))
    (\<lambda>s'. inv_but {cur} s' \<and> cores s' = cores s \<and> this_core s' = this_core s \<and> spin_held s' = b \<and>
      state_of s' cur = TASK_BLOCKED \<and> current_queue (task_of s' cur) = Some (Waiters f) \<and>
      tasks (sched s') = tasks (sched s))"
proof -
  note cur = currentD(1,4,6) [OF i c]
  define s1 where "s1 = (if ticks < SCHEDULER_WAIT_FOREVER
    then tpush cur (scheduler_get_ticks (s\<lparr>spin_held := b, mem := m\<rparr>) + ticks) (s\<lparr>spin_held := b, mem := m\<rparr>)
    else s\<lparr>spin_held := b, mem := m\<rparr>)"
  define s2 where "s2 = qpush (Waiters f) cur
    (task_upd cur (\<lambda>x. x\<lparr>t_state := TASK_BLOCKED, t_core := UINT32_MAX\<rparr>) s1)"
  have s1: "inv_but {cur} s1" "cores s1 = cores s" "this_core s1 = this_core s" "spin_held s1 = b"
    "current_queue (task_of s1 cur) = None" "tasks (sched s1) = tasks (sched s)" "futex_of s1 = futex_of s"
    "\<forall>t. t_marker (task_of s1 t) = t_marker (task_of s t)"
    using cur by (simp_all add: s1_def inv_but_tpush sched_inv_but [OF i])
  have s2: "inv_but {cur} s2" unfolding s2_def by (intro inv_intros s1) (simp_all add: s1 cur)
  have "wait_block f v ticks cur (s\<lparr>spin_held := b, mem := m\<rparr>) =
    (if f_flags (futex_of s f) AND PI_OWNER = PI_OWNER then futex_boost_owner f v s2 else Some s2)"
    using c(2) cur by (simp add: wait_block_def sched_defs s2_def s1_def)
  moreover have "f_flags (futex_of s f) AND PI_OWNER = PI_OWNER \<Longrightarrow>
      owner_of v \<noteq> 0 \<and> t_marker (task_of s2 (owner_of v)) = SCHEDULER_TASK_MARKER"
    using o s1(8) cur(3) by (simp add: s2_def owner_ok_def)
  ultimately show ?thesis
    using s2 s1 by (simp add: futex_boost_owner_def sched_defs Let_def inv_but_reprio) (simp add: s2_def)
qed

definition wait_blocks :: "scheduler_frame \<Rightarrow> sys \<Rightarrow> bool" where
  "wait_blocks frame s \<longleftrightarrow> mem s (f_value (futex_of s (sf_r0 frame))) \<in> {sf_r1 frame, wait_word s frame}"

lemma scheduler_wait_svc_eq:
  assumes i: "sched_inv s" and l: "\<not> spin_held s" and c: "current_task (this s) = cur" "cur \<noteq> 0"
    and w: "wait_ok frame s"
  shows "scheduler_wait_svc frame s = do {
    s' \<leftarrow> (if wait_blocks frame s
      then wait_block (sf_r0 frame) (wait_word s frame) (sf_r2 frame) cur
        (s\<lparr>spin_held := True, mem := (mem s)(f_value (futex_of s (sf_r0 frame)) := wait_word s frame)\<rparr>)
      else Some (qpush ReadyQueue cur (task_upd cur (\<lambda>x. x\<lparr>t_state := TASK_READY\<rparr>) (s\<lparr>spin_held := True\<rparr>))));
    Some (frame\<lparr>sf_r0 := 0\<rparr>, (scheduler_request_switch (this_core s')
      (set_cur 0 (task_upd cur (psp_update (\<lambda>_. frame\<lparr>sf_r0 := 0\<rparr>)) s')))\<lparr>spin_held := False\<rparr>)
  }"
proof -
  note cur = currentD(4,6) [OF i c]
  show ?thesis
    using w by (auto simp: scheduler_wait_svc_def sched_defs Let_def cur c l wait_ok_def wait_blocks_def
        wait_word_def[symmetric] scheduler_current_core_def fun_upd_idem cong: if_cong)
qed

lemma scheduler_wait_svc_inv:
  assumes i: "sched_inv s" and l: "\<not> spin_held s" and c: "current_task (this s) \<noteq> 0"
    and w: "wait_ok frame s"
  shows "returns (scheduler_wait_svc frame s) (\<lambda>(f, s'). sched_inv s' \<and> \<not> spin_held s')"
proof (cases "wait_blocks frame s")
  case True
  define cur where "cur = current_task (this s)"
  have c: "current_task (this s) = cur" "cur \<noteq> 0" using c by (auto simp: cur_def)
  have o: "owner_ok s (sf_r0 frame) (wait_word s frame)"
    using w by (simp add: wait_ok_def owner_ok_def wait_word_def)
  show ?thesis
    unfolding scheduler_wait_svc_eq [OF i l c w]
    using True currentD(7) [OF i c] c
    by simp (rule returns_mono [OF wait_block_inv [OF i c o]], rule leave_core, simp_all add: placed_def)
next
  case False
  define cur where "cur = current_task (this s)"
  have c: "current_task (this s) = cur" "cur \<noteq> 0" using c by (auto simp: cur_def)
  note cur = currentD [OF i c]
  show ?thesis
    unfolding scheduler_wait_svc_eq [OF i l c w] using False cur c
    by (auto simp: placed_def intro!: leave_core inv_intros sched_inv_but [OF i])
qed

section \<open>Wake\<close>

lemma sched_queue_pop_any [sched_defs]:
  "sched_queue_pop q UINT32_MAX s =
    Some (case queues s q of [] \<Rightarrow> (0, s) | t # _ \<Rightarrow> (t, qrem t s))"
  by (simp add: sched_queue_pop_def qrem_def Let_def split: list.split)

text \<open>The tasks of a waiters queue are blocked tasks of the scheduler.\<close>

lemma waiterD:
  assumes i: "sched_inv s" and t: "t \<in> set (queues s (Waiters f))"
  shows "t \<in> set (tasks (sched s))" "t \<noteq> 0" "state_of s t = TASK_BLOCKED"
    "t_marker (task_of s t) = SCHEDULER_TASK_MARKER" "current_task (cores s d) \<noteq> t"
    "t \<notin> set (queues s ReadyQueue)"
proof -
  have cq: "current_queue (task_of s t) = Some (Waiters f)"
    using t queues_wfD(3) [OF inv_butD(1) [OF i]] by blast
  then show a: "t \<in> set (tasks (sched s))" by (rule queues_wfD(4) [OF inv_butD(1) [OF i]])
  show "t \<noteq> 0" "t_marker (task_of s t) = SCHEDULER_TASK_MARKER" using inv_butD(6,7) [OF i a] by auto
  have "placed s t" using inv_butD(4) [OF i a] by simp
  then show b: "state_of s t = TASK_BLOCKED" using cq by (cases "state_of s t") (auto simp: placed_def)
  show "current_task (cores s d) \<noteq> t" by (rule not_current [OF i]) (use b \<open>t \<noteq> 0\<close> in auto)
  show "t \<notin> set (queues s ReadyQueue)" using cq queues_wfD(3) [OF inv_butD(1) [OF i], of t] by auto
qed

definition wake_count :: "bool \<Rightarrow> addr list \<Rightarrow> nat" where
  "wake_count one ws = (if one then min 1 (length ws) else length ws)"

text \<open>What waking the first tasks \<open>xs\<close> of a waiters queue does to the system.\<close>

definition woken_from :: "addr \<Rightarrow> addr list \<Rightarrow> sys \<Rightarrow> sys \<Rightarrow> bool" where
  "woken_from f xs s s' \<longleftrightarrow>
    queues s (Waiters f) = xs @ queues s' (Waiters f) \<and>
    (\<forall>t\<in>set xs. state_of s' t = TASK_READY) \<and>
    (\<forall>t. t \<notin> set xs \<longrightarrow> task_of s' t = task_of s t) \<and>
    (\<forall>t. psp (task_of s' t) = psp (task_of s t)) \<and>
    (\<forall>g. g \<noteq> f \<longrightarrow> queues s' (Waiters g) = queues s (Waiters g)) \<and>
    futex_of s' = futex_of s \<and> cores s' = cores s \<and> this_core s' = this_core s \<and>
    spin_held s' = spin_held s \<and> tasks (sched s') = tasks (sched s) \<and>
    scheduler_set s' = scheduler_set s \<and> num_cores s' = num_cores s \<and>
    ipsr s' = ipsr s \<and> primask s' = primask s"

lemma futex_wake_one_inv:
  assumes i: "sched_inv s" and q: "queues s (Waiters f) = t # ws"
  shows "returns (futex_wake_one f t (qrem t s)) (\<lambda>s'. sched_inv s' \<and> woken_from f [t] s s' \<and>
    mem s' = (if has_flag (f_flags (futex_of s f)) SCHEDULER_FUTEX_OWNER_TRACKING
              then (mem s)(f_value (futex_of s f) := t) else mem s))"
proof -
  have t: "t \<in> set (queues s (Waiters f))" using q by simp
  note w = waiterD [OF i t]
  have "distinct (t # ws)" using queues_wfD(1) [OF inv_butD(1) [OF i], of "Waiters f"] q by simp
  then have d: "filter ((\<noteq>) t) ws = ws" by simp
  have "t \<notin> set (queues s (Waiters g))" if "g \<noteq> f" for g
    using t that queues_wfD(3) [OF inv_butD(1) [OF i], of t] by auto
  then have e: "g \<noteq> f \<Longrightarrow> filter ((\<noteq>) t) (queues s (Waiters g)) = queues s (Waiters g)" for g by simp
  show ?thesis
    using w(1-4) q
    by (auto simp: futex_wake_one_def sched_defs Let_def woken_from_def d e w(5) queues_reprio cong: if_cong
        intro!: ready_task_inv) (auto simp: w intro!: inv_intros sched_inv_but [OF i])
qed

lemma woken_from_trans:
  assumes "woken_from f xs s s1" and "woken_from f ys s1 s2" and "set xs \<inter> set ys = {}"
  shows "woken_from f (xs @ ys) s s2"
  using assms unfolding woken_from_def by (auto simp: disjoint_iff)

text \<open>
  The loop ends within the fuel it is given and wakes a prefix of the queue: the head if it
  is to wake one task, everything otherwise.
\<close>

lemma futex_wake_loop_inv:
  assumes "sched_inv s" and "queues s (Waiters f) = ws" and "length ws < fuel"
    and "one \<longleftrightarrow> \<not> all \<or> has_flag (f_flags (futex_of s f)) SCHEDULER_FUTEX_OWNER_TRACKING"
  shows "returns (futex_wake_loop fuel f all n s) (\<lambda>(m, s'). sched_inv s' \<and>
    m = n + of_nat (wake_count one ws) \<and> woken_from f (take (wake_count one ws) ws) s s' \<and>
    mem s' = (if ws \<noteq> [] \<and> has_flag (f_flags (futex_of s f)) SCHEDULER_FUTEX_OWNER_TRACKING
              then (mem s)(f_value (futex_of s f) := hd ws) else mem s))"
  using assms
proof (induction ws arbitrary: fuel n s)
  case Nil
  then obtain k where "fuel = Suc k" by (cases fuel) auto
  with Nil show ?case by (simp add: sched_queue_pop_any wake_count_def woken_from_def)
next
  case (Cons t ws)
  then obtain k where k: "fuel = Suc k" "length ws < k" by (cases fuel) auto
  have t: "t \<noteq> 0" using waiterD(2) [OF Cons.prems(1), of t f] Cons.prems(2) by simp
  from futex_wake_one_inv [OF Cons.prems(1,2)] obtain s1 where
    s1: "futex_wake_one f t (qrem t s) = Some s1" "sched_inv s1" "woken_from f [t] s s1"
      "mem s1 = (if has_flag (f_flags (futex_of s f)) SCHEDULER_FUTEX_OWNER_TRACKING
              then (mem s)(f_value (futex_of s f) := t) else mem s)"
    by (auto simp: returns_def)
  have w: "queues s1 (Waiters f) = ws" "futex_of s1 = futex_of s" using s1(3) Cons.prems(2)
    by (auto simp: woken_from_def)
  show ?case
  proof (cases one)
    case True
    then show ?thesis
      using k t s1 w Cons.prems by (auto simp: sched_queue_pop_any wake_count_def)
  next
    case False
    have tws: "t \<notin> set ws" using queues_wfD(1) [OF inv_butD(1) [OF Cons.prems(1)], of "Waiters f"] Cons.prems(2) by simp
    have "returns (futex_wake_loop k f all (n + 1) s1) (\<lambda>(m, s'). sched_inv s' \<and>
      m = (n + 1) + of_nat (wake_count one ws) \<and> woken_from f (take (wake_count one ws) ws) s1 s' \<and>
      mem s' = (if ws \<noteq> [] \<and> has_flag (f_flags (futex_of s1 f)) SCHEDULER_FUTEX_OWNER_TRACKING
              then (mem s1)(f_value (futex_of s1 f) := hd ws) else mem s1))"
      using Cons.IH [of s1 k "n + 1"] s1 w k Cons.prems(4) by simp
    then show ?thesis
      using k t s1 w False Cons.prems tws woken_from_trans [OF s1(3), of ws]
      by (auto simp: sched_queue_pop_any wake_count_def elim!: returns_mono)
  qed
qed

text \<open>A ready task is in the ready queue and has no timer.\<close>

lemma readyD:
  assumes i: "sched_inv s" and t: "t \<in> set (tasks (sched s))" and "state_of s t = TASK_READY"
  shows "t \<in> set (queues s ReadyQueue)" "t \<notin> set (timers (sched s))"
  using inv_butD(4) [OF i t] queues_wfD(3) [OF inv_butD(1) [OF i], of t ReadyQueue] assms(3)
  by (auto simp: placed_def)

lemma futex_release_owner_inv:
  assumes "inv_but X s" and "owner_of (mem s (f_value (futex_of s f))) \<noteq> 0"
    and "t_marker (task_of s (owner_of (mem s (f_value (futex_of s f))))) = SCHEDULER_TASK_MARKER"
  shows "\<exists>o' p. futex_release_owner f s =
    Some (reprio (owner_of (mem s (f_value (futex_of s f)))) p (s\<lparr>owned := o'\<rparr>))"
  using assms by (simp add: futex_release_owner_def sched_defs Let_def) blast

text \<open>Queues with the same members have the same length.\<close>

lemma queue_set:
  assumes "queues_wf s"
  shows "set (queues s q) = {t. current_queue (task_of s t) = Some q}"
  using queues_wfD(3) [OF assms] by auto

lemma queue_length_cong:
  assumes "queues_wf s" and "queues_wf s'"
    and "\<And>t. current_queue (task_of s' t) = current_queue (task_of s t)"
  shows "length (queues s' q) = length (queues s q)"
proof -
  have "set (queues s' q) = set (queues s q)"
    by (simp add: queue_set [OF assms(1)] queue_set [OF assms(2)] assms(3))
  then show ?thesis
    using distinct_card [OF queues_wfD(1) [OF assms(1), of q]]
      distinct_card [OF queues_wfD(1) [OF assms(2), of q]] by simp
qed

lemma woken_from_mem [simp]: "woken_from f xs s (s'\<lparr>mem := m\<rparr>) = woken_from f xs s s'"
  by (simp add: woken_from_def)

definition wakes_one :: "addr \<Rightarrow> bool \<Rightarrow> sys \<Rightarrow> bool" where
  "wakes_one f all s \<longleftrightarrow> \<not> all \<or> has_flag (f_flags (futex_of s f)) SCHEDULER_FUTEX_OWNER_TRACKING"

text \<open>The word of the futex after a wake, from the word the loop left.\<close>

definition tracked_word :: "addr \<Rightarrow> sys \<Rightarrow> bool \<Rightarrow> word32 \<Rightarrow> word32" where
  "tracked_word f s e v =
    (if has_flag (f_flags (futex_of s f)) SCHEDULER_FUTEX_CONTENTION_TRACKING
     then if e then v AND NOT SCHEDULER_FUTEX_CONTENTION_TRACKING
          else v OR SCHEDULER_FUTEX_CONTENTION_TRACKING
     else v)"

text \<open>The part of a wake after the owner has given the futex up.\<close>

definition wake_rest :: "addr \<Rightarrow> bool \<Rightarrow> sys \<Rightarrow> (word32 \<times> sys) option" where
  "wake_rest f all s = do {
     (woken, s) \<leftarrow> futex_wake_loop (Suc (length (queues s (Waiters f)))) f all 0 s;
     Some (woken, if has_flag (f_flags (futex_of s f)) SCHEDULER_FUTEX_CONTENTION_TRACKING
       then s\<lparr>mem := (mem s)(f_value (futex_of s f) :=
         tracked_word f s (sched_queue_empty (Waiters f) s) (mem s (f_value (futex_of s f))))\<rparr> else s)
   }"

lemma scheduler_wake_futex_eq:
  "scheduler_wake_futex f all s = do {
     s \<leftarrow> (if f_flags (futex_of s f) AND PI_OWNER = PI_OWNER then futex_release_owner f s else Some s);
     wake_rest f all s
   }"
  by (simp add: scheduler_wake_futex_def wake_rest_def tracked_word_def Let_def cong: if_cong)

lemma wake_rest_inv:
  assumes i: "sched_inv s"
  shows "returns (wake_rest f all s) (\<lambda>(m, s'). sched_inv s' \<and>
    (let ws = queues s (Waiters f); n = wake_count (wakes_one f all s) ws; v = f_value (futex_of s f)
     in m = of_nat n \<and> woken_from f (take n ws) s s' \<and>
        mem s' = (mem s)(v := tracked_word f s (n = length ws)
          (if ws \<noteq> [] \<and> has_flag (f_flags (futex_of s f)) SCHEDULER_FUTEX_OWNER_TRACKING
           then hd ws else mem s v))))"
proof -
  define ws where "ws = queues s (Waiters f)"
  define n where "n = wake_count (wakes_one f all s) ws"
  define v where "v = f_value (futex_of s f)"
  obtain m s1 where loop: "futex_wake_loop (Suc (length ws)) f all 0 s = Some (m, s1)"
    and s1: "sched_inv s1" "m = of_nat n" "woken_from f (take n ws) s s1"
    and mem1: "mem s1 = (if ws \<noteq> [] \<and> has_flag (f_flags (futex_of s f)) SCHEDULER_FUTEX_OWNER_TRACKING
       then (mem s)(v := hd ws) else mem s)"
    using futex_wake_loop_inv [OF i ws_def [symmetric] lessI wakes_one_def, where n = 0 and all = all]
    by (auto simp: returns_def n_def v_def simp del: futex_wake_loop.simps)
  have sel: "futex_of s1 = futex_of s" "ws = take n ws @ queues s1 (Waiters f)"
    using s1(3) by (auto simp: woken_from_def ws_def)
  have "length ws = min (length ws) n + length (queues s1 (Waiters f))"
    using arg_cong [OF sel(2), of length] by simp
  moreover have "n \<le> length ws" by (simp add: n_def wake_count_def)
  ultimately have e: "sched_queue_empty (Waiters f) s1 \<longleftrightarrow> n = length ws"
    by (auto simp: sched_queue_empty_def)
  have "wake_rest f all s = Some (m, if has_flag (f_flags (futex_of s f)) SCHEDULER_FUTEX_CONTENTION_TRACKING
     then s1\<lparr>mem := (mem s1)(v := tracked_word f s (n = length ws) (mem s1 v))\<rparr> else s1)"
    by (simp add: wake_rest_def ws_def [symmetric] loop sel(1) v_def [symmetric] e
        tracked_word_def Let_def del: futex_wake_loop.simps)
  then show ?thesis
    using s1 mem1
    by (simp add: ws_def [symmetric] n_def [symmetric] v_def [symmetric] Let_def tracked_word_def)
qed

lemma scheduler_wake_futex_inv:
  assumes i: "sched_inv s" and o: "owner_ok s f (mem s (f_value (futex_of s f)))"
  shows "returns (scheduler_wake_futex f all s) (\<lambda>(m, s'). sched_inv s' \<and>
    m = of_nat (wake_count (wakes_one f all s) (queues s (Waiters f))) \<and>
    futex_of s' = futex_of s \<and> cores s' = cores s \<and> this_core s' = this_core s \<and>
    spin_held s' = spin_held s \<and> tasks (sched s') = tasks (sched s) \<and>
    scheduler_set s' = scheduler_set s \<and> num_cores s' = num_cores s)"
proof (cases "f_flags (futex_of s f) AND PI_OWNER = PI_OWNER")
  case False
  then show ?thesis
    using wake_rest_inv [OF i, of f all]
    by (auto simp: scheduler_wake_futex_eq Let_def woken_from_def elim!: returns_mono)
next
  case True
  obtain o' p t where rel: "futex_release_owner f s = Some (reprio t p (s\<lparr>owned := o'\<rparr>))"
    using futex_release_owner_inv [OF i, of f] True o by (auto simp: owner_ok_def)
  define s1 where "s1 = reprio t p (s\<lparr>owned := o'\<rparr>)"
  have s1: "sched_inv s1" using i by (simp add: s1_def inv_but_reprio)
  have "length (queues s1 (Waiters f)) = length (queues s (Waiters f))"
    by (rule queue_length_cong [OF inv_butD(1) [OF i] inv_butD(1) [OF s1]]) (simp add: s1_def)
  moreover have "wakes_one f all s1 = wakes_one f all s" by (simp add: wakes_one_def s1_def)
  ultimately have "wake_count (wakes_one f all s1) (queues s1 (Waiters f)) =
      wake_count (wakes_one f all s) (queues s (Waiters f))"
    by (simp add: wake_count_def)
  then show ?thesis
    using wake_rest_inv [OF s1, of f all] True rel
    by (auto simp: scheduler_wake_futex_eq Let_def woken_from_def s1_def [symmetric] elim!: returns_mono)
      (simp_all add: s1_def)
qed

lemma scheduler_wake_svc_inv:
  assumes i: "sched_inv s" and l: "\<not> spin_held s"
    and f: "f = ef_r0 frame" "f \<noteq> 0" "f_marker (futex_of s f) = SCHEDULER_FUTEX_MARKER"
    and o: "owner_ok s f (mem s (f_value (futex_of s f)))"
  shows "returns (scheduler_wake_svc frame s) (\<lambda>(fr, s'). sched_inv s' \<and> \<not> spin_held s' \<and>
    fr = frame\<lparr>ef_r0 := of_nat (wake_count (wakes_one f (ef_r1 frame \<noteq> 0) s) (queues s (Waiters f)))\<rparr>)"
proof -
  have "sched_inv (s\<lparr>spin_held := True\<rparr>)" "owner_ok (s\<lparr>spin_held := True\<rparr>) f (mem s (f_value (futex_of s f)))"
    using i o by (simp_all add: owner_ok_def)
  from scheduler_wake_futex_inv [OF this(1), of f "ef_r1 frame \<noteq> 0"] this(2) show ?thesis
    using l f(2,3) by (auto simp: scheduler_wake_svc_def sched_defs Let_def f(1) [symmetric] wakes_one_def
        elim!: returns_mono)
qed

end
