(* ===== verification/Sched_Dispatch.thy ===== *)
theory Sched_Dispatch
  imports Sched_Futex
begin

text \<open>
  The context switch: its loops end, it keeps the scheduler invariant, no assertion fails, and
  the task it starts is the most important one that may run on the core. The deferred wake
  ups and the expired timers are handled before the choice.
\<close>

section \<open>Deferred wake ups\<close>

text \<open>
  The slots of the core hold futexes without priority inheritance, the only ones
  \<open>scheduler_futex_wake\<close> accepts from an interrupt handler.
\<close>

definition slots_ok :: "sys \<Rightarrow> bool" where
  "slots_ok s \<longleftrightarrow> (\<forall>c. length (deferred_wake (cores s c)) = SCHEDULER_MAX_DEFERED_WAKE \<and>
    (\<forall>w\<in>set (deferred_wake (cores s c)). w \<noteq> 0 \<longrightarrow>
       f_flags (futex_of s (w AND NOT 1)) AND PI_OWNER = 0))"

lemma slots_ok_cong:
  assumes "\<And>c. deferred_wake (cores s' c) = deferred_wake (cores s c)" and "futex_of s' = futex_of s"
  shows "slots_ok s' = slots_ok s"
  by (simp add: slots_ok_def assms)

lemma slots_ok_spin [simp]: "slots_ok (s\<lparr>spin_held := b\<rparr>) = slots_ok s"
  by (rule slots_ok_cong) simp_all

lemma slots_ok_core:
  assumes "\<And>x. deferred_wake (g x) = deferred_wake x"
  shows "slots_ok (core_upd c g s) = slots_ok s"
  by (rule slots_ok_cong) (simp_all add: assms)

text \<open>What the turns of the switch leave alone.\<close>

definition same_core :: "sys \<Rightarrow> sys \<Rightarrow> bool" where
  "same_core s s' \<longleftrightarrow> this_core s' = this_core s \<and> spin_held s' = spin_held s \<and>
    scheduler_set s' = scheduler_set s \<and> futex_of s' = futex_of s \<and> num_cores s' = num_cores s \<and>
    (\<forall>c. current_task (cores s' c) = current_task (cores s c) \<and>
         scheduler_initial_frame (cores s' c) = scheduler_initial_frame (cores s c))"

lemma same_core_refl [simp]: "same_core s s"
  by (simp add: same_core_def)

lemma same_core_trans: "same_core s s1 \<Longrightarrow> same_core s1 s2 \<Longrightarrow> same_core s s2"
  by (simp add: same_core_def)

lemma deferred_wakes_inv:
  assumes "sched_inv s" and "slots_ok s" and "\<forall>i\<in>set is. i < SCHEDULER_MAX_DEFERED_WAKE"
  shows "returns (deferred_wakes is s) (\<lambda>s'. sched_inv s' \<and> slots_ok s' \<and> same_core s s' \<and>
    tasks (sched s') = tasks (sched s))"
  using assms
proof (induction "is" arbitrary: s)
  case Nil
  then show ?case by simp
next
  case (Cons i "is")
  define w where "w = deferred_wake (this s) ! i"
  define s1 where "s1 = core_upd (this_core s) (\<lambda>c. c\<lparr>deferred_wake := (deferred_wake c)[i := 0]\<rparr>) s"
  have i: "i < length (deferred_wake (this s))" using Cons.prems by (simp add: slots_ok_def)
  have s1: "sched_inv s1" "slots_ok s1" "same_core s s1" "tasks (sched s1) = tasks (sched s)"
    using Cons.prems(1,2) by (auto simp: s1_def inv_but_core slots_ok_def same_core_def dest!: set_update_subset_insert [THEN subsetD])
  have o: "owner_ok s1 (w AND NOT 1) v" if "w \<noteq> 0" for v
    using Cons.prems(2) nth_mem [OF i] that by (auto simp: slots_ok_def owner_ok_def w_def s1_def)
  show ?case
  proof (cases "w = 0")
    case True
    have "returns (deferred_wakes is s1) (\<lambda>s'. sched_inv s' \<and> slots_ok s' \<and> same_core s1 s' \<and>
      tasks (sched s') = tasks (sched s1))"
      by (rule Cons.IH) (use s1 Cons.prems in auto)
    then show ?thesis
      using True Cons.prems s1 by (auto simp: w_def [symmetric] s1_def [symmetric] Let_def elim!: returns_mono intro: same_core_trans)
  next
    case False
    obtain m s2 where s2: "scheduler_wake_futex (w AND NOT 1) (w AND 1 \<noteq> 0) s1 = Some (m, s2)" "sched_inv s2"
      "futex_of s2 = futex_of s1" "cores s2 = cores s1" "this_core s2 = this_core s1" "spin_held s2 = spin_held s1"
      "tasks (sched s2) = tasks (sched s1)" "scheduler_set s2 = scheduler_set s1"
      "num_cores s2 = num_cores s1"
      using scheduler_wake_futex_inv [OF s1(1) o [OF False], of "w AND 1 \<noteq> 0"] by (auto simp: returns_def)
    define s3 where "s3 = core_upd (this_core s2) (\<lambda>c. c\<lparr>taken_wake_counter := taken_wake_counter c + 1\<rparr>) s2"
    have s3: "sched_inv s3" "slots_ok s3" "same_core s s3" "tasks (sched s3) = tasks (sched s)"
      using s1 s2 by (auto simp: s3_def inv_but_core slots_ok_def same_core_def)
    have "returns (deferred_wakes is s3) (\<lambda>s'. sched_inv s' \<and> slots_ok s' \<and> same_core s3 s' \<and>
      tasks (sched s') = tasks (sched s3))"
      by (rule Cons.IH) (use s3 Cons.prems in auto)
    then show ?thesis
      using False Cons.prems s2(1) s3
      by (auto simp: w_def [symmetric] s1_def [symmetric] s3_def [symmetric] Let_def elim!: returns_mono intro: same_core_trans)
  qed
qed

section \<open>Timer expiry\<close>

lemma scheduler_timer_pop_eq:
  assumes "tasks_wf s" and "timers_wf s"
  shows "scheduler_timer_pop s = Some (case timers (sched s) of [] \<Rightarrow> (0, s)
    | t # _ \<Rightarrow> if expires s t \<le> scheduler_get_ticks s then (t, trem t s) else (0, s))"
  using assms by (auto simp: scheduler_timer_pop_def scheduler_timer_remove_eq tasks_wf_def timers_wf_def
      split: list.split)

text \<open>The effect of the expiry of the timers of \<open>xs\<close>.\<close>

definition expired_from :: "addr list \<Rightarrow> sys \<Rightarrow> sys \<Rightarrow> bool" where
  "expired_from xs s s' \<longleftrightarrow> timers (sched s) = xs @ timers (sched s') \<and>
    (\<forall>t\<in>set xs. state_of s' t = TASK_READY \<and> sf_r0 (psp (task_of s' t)) = - ETIMEDOUT) \<and>
    (\<forall>t. t \<notin> set xs \<longrightarrow> task_of s' t = task_of s t) \<and>
    tasks (sched s') = tasks (sched s) \<and> cores s' = cores s \<and> futex_of s' = futex_of s \<and> mem s' = mem s \<and>
    this_core s' = this_core s \<and> spin_held s' = spin_held s \<and>
    scheduler_set s' = scheduler_set s \<and> num_cores s' = num_cores s"

lemma timerD:
  assumes i: "sched_inv s" and t: "t \<in> set (timers (sched s))"
  shows "t \<in> set (tasks (sched s))" "t \<noteq> 0" "t_marker (task_of s t) = SCHEDULER_TASK_MARKER"
    "state_of s t = TASK_BLOCKED \<or> state_of s t = TASK_SUSPENDED" "current_task (cores s d) \<noteq> t"
proof -
  show a: "t \<in> set (tasks (sched s))" using t inv_butD(2) [OF i] by (auto simp: timers_wf_def)
  then show "t \<noteq> 0" "t_marker (task_of s t) = SCHEDULER_TASK_MARKER" using inv_butD(6,7) [OF i] by auto
  show b: "state_of s t = TASK_BLOCKED \<or> state_of s t = TASK_SUSPENDED"
    using inv_butD(4) [OF i a] t by (auto simp: placed_def)
  show "current_task (cores s d) \<noteq> t" by (rule not_current [OF i]) (use b \<open>t \<noteq> 0\<close> in auto)
qed

lemma ready_expired_inv:
  assumes i: "sched_inv s" and t: "timers (sched s) = t # ts"
  shows "returns (ready_expired t (trem t s)) (\<lambda>s'. sched_inv s' \<and> expired_from [t] s s')"
proof -
  have m: "t \<in> set (timers (sched s))" using t by simp
  have "distinct (t # ts)" using inv_butD(2) [OF i] t by (simp add: timers_wf_def)
  then have "filter ((\<noteq>) t) ts = ts" "t \<notin> set ts" by simp_all
  then show ?thesis
    using timerD [OF i m] t
    by (auto simp: ready_expired_def sched_defs expired_from_def intro!: ready_task_inv)
      (auto intro!: inv_intros sched_inv_but [OF i])
qed

lemma expired_from_trans:
  assumes "expired_from xs s s1" and "expired_from ys s1 s2" and "set xs \<inter> set ys = {}"
  shows "expired_from (xs @ ys) s s2"
  using assms unfolding expired_from_def by (auto simp: disjoint_iff)

lemma expire_timers_inv:
  assumes "sched_inv s" and "timers (sched s) = ts" and "length ts < fuel"
  shows "returns (expire_timers fuel s) (\<lambda>s'. sched_inv s' \<and>
    expired_from (filter (\<lambda>t. expires s t \<le> scheduler_get_ticks s) ts) s s')"
  using assms
proof (induction ts arbitrary: fuel s)
  case Nil
  then obtain k where "fuel = Suc k" by (cases fuel) auto
  with Nil show ?case
    by (simp add: scheduler_timer_pop_eq inv_butD(2,3) expired_from_def)
next
  case (Cons t ts)
  then obtain k where k: "fuel = Suc k" "length ts < k" by (cases fuel) auto
  note pop = scheduler_timer_pop_eq [OF inv_butD(3) [OF Cons.prems(1)] inv_butD(2) [OF Cons.prems(1)]]
  have d: "distinct (t # ts)" and srt: "sorted_wrt (\<lambda>a b. expires s a \<le> expires s b) (t # ts)"
    using inv_butD(2) [OF Cons.prems(1)] Cons.prems(2) by (auto simp: timers_wf_def)
  show ?case
  proof (cases "expires s t \<le> scheduler_get_ticks s")
    case True
    obtain s1 where s1: "ready_expired t (trem t s) = Some s1" "sched_inv s1" "expired_from [t] s s1"
      using ready_expired_inv [OF Cons.prems(1,2)] by (auto simp: returns_def)
    have t0: "t \<noteq> 0" using timerD(2) [OF Cons.prems(1)] Cons.prems(2) by simp
    have sel: "timers (sched s1) = ts" "scheduler_get_ticks s1 = scheduler_get_ticks s"
      "u \<in> set ts \<Longrightarrow> expires s1 u = expires s u" for u
      using s1(3) d Cons.prems(2) by (auto simp: expired_from_def scheduler_get_ticks_def)
    have "returns (expire_timers k s1) (\<lambda>s'. sched_inv s' \<and>
        expired_from (filter (\<lambda>t. expires s1 t \<le> scheduler_get_ticks s1) ts) s1 s')"
      by (rule Cons.IH [OF s1(2) sel(1) k(2)])
    moreover have "filter (\<lambda>t. expires s1 t \<le> scheduler_get_ticks s1) ts = filter (\<lambda>t. expires s t \<le> scheduler_get_ticks s) ts"
      by (rule filter_cong) (simp_all add: sel)
    ultimately show ?thesis
      using k t0 True s1 d Cons.prems(2)
      by (auto simp: pop elim!: returns_mono dest: expired_from_trans [OF s1(3)])
  next
    case False
    have "filter (\<lambda>t. expires s t \<le> scheduler_get_ticks s) (t # ts) = []"
      using False srt by (auto simp: filter_empty_conv)
    then show ?thesis
      using False k Cons.prems by (simp add: pop expired_from_def)
  qed
qed

section \<open>Choosing the next task\<close>

text \<open>The identity of the core and the set-up of the system.\<close>

definition same_machine :: "sys \<Rightarrow> sys \<Rightarrow> bool" where
  "same_machine s s' \<longleftrightarrow> this_core s' = this_core s \<and> num_cores s' = num_cores s \<and>
    scheduler_set s' = scheduler_set s"

text \<open>A core number is never the value that stands for any core.\<close>

lemma sched_queue_pop_core:
  assumes "core \<noteq> UINT32_MAX" and "queues_wf s" and "tasks_wf s"
  shows "sched_queue_pop q core s = Some (case take_first (eligible s core) (queues s q) of
    None \<Rightarrow> (0, s) | Some t \<Rightarrow> (t, qrem t s))"
proof -
  have "t \<noteq> 0" if "take_first (eligible s core) (queues s q) = Some t" for t
    using take_first_SomeD [OF that] queues_wfD(3,4) [OF assms(2), of t q] assms(3)
    by (auto simp: tasks_wf_def)
  then show ?thesis
    using assms(1) by (auto simp: sched_queue_pop_def sched_queue_remove_eq simp del: take_first_None
        split: option.split)
qed

text \<open>
  The task a turn hands over: alive, ready, in no queue, eligible for the core, and no eligible
  task left in the ready queue has a better priority.
\<close>

definition chosen :: "addr \<Rightarrow> sys \<Rightarrow> bool" where
  "chosen t s \<longleftrightarrow> t \<in> set (tasks (sched s)) \<and> state_of s t = TASK_READY \<and>
    current_queue (task_of s t) = None \<and> t \<notin> set (timers (sched s)) \<and> eligible s (this_core s) t \<and>
    scheduler_check_stack t s \<and>
    (\<forall>u\<in>set (queues s ReadyQueue). eligible s (this_core s) u \<longrightarrow> prio s t \<le> prio s u) \<and>
    (\<forall>d. current_task (cores s d) \<noteq> t)"

lemma ready_queueD:
  assumes i: "sched_inv s" and t: "t \<in> set (queues s ReadyQueue)"
  shows "t \<in> set (tasks (sched s))" "t \<noteq> 0" "state_of s t = TASK_READY"
    "t_marker (task_of s t) = SCHEDULER_TASK_MARKER" "current_task (cores s d) \<noteq> t"
    "t \<notin> set (timers (sched s))"
proof -
  have cq: "current_queue (task_of s t) = Some ReadyQueue"
    using t queues_wfD(3) [OF inv_butD(1) [OF i]] by blast
  then show a: "t \<in> set (tasks (sched s))" by (rule queues_wfD(4) [OF inv_butD(1) [OF i]])
  show "t \<noteq> 0" "t_marker (task_of s t) = SCHEDULER_TASK_MARKER" using inv_butD(6,7) [OF i a] by auto
  have p: "placed s t" using inv_butD(4) [OF i a] by simp
  then show b: "state_of s t = TASK_READY" using cq by (cases "state_of s t") (auto simp: placed_def)
  show "current_task (cores s d) \<noteq> t" by (rule not_current [OF i]) (use b \<open>t \<noteq> 0\<close> in auto)
  show "t \<notin> set (timers (sched s))" using p b by (auto simp: placed_def)
qed

lemma pop_ready:
  assumes i: "sched_inv s" and p: "take_first (eligible s (this_core s)) (queues s ReadyQueue) = Some t"
    and "scheduler_check_stack t s"
  shows "inv_but {t} (qrem t s)" "chosen t (qrem t s)"
proof -
  have t: "t \<in> set (queues s ReadyQueue)" "eligible s (this_core s) t" using take_first_SomeD [OF p] by auto
  show "inv_but {t} (qrem t s)" by (rule inv_but_qrem) (auto intro: sched_inv_but i)
  have "prio s t \<le> prio s u" if "u \<in> set (queues s ReadyQueue)" "eligible s (this_core s) u" for u
    by (rule take_first_sorted [OF queues_wfD(2) [OF inv_butD(1) [OF i]] p that])
  then show "chosen t (qrem t s)"
    using ready_queueD [OF i t(1)] t(2) assms(3)
    by (auto simp: chosen_def eligible_def scheduler_check_stack_def)
qed

text \<open>The exit handlers leave the scheduler and the contents of the slots in order.\<close>

definition hook_ok :: "(addr \<Rightarrow> addr \<Rightarrow> sys \<Rightarrow> sys) \<Rightarrow> bool" where
  "hook_ok exit_call \<longleftrightarrow>
    (\<forall>h t. client_only (exit_call h t) \<and> (\<forall>s. slots_ok s \<longrightarrow> slots_ok (exit_call h t s)))"

lemma hook_okD:
  assumes "hook_ok exit_call"
  shows "client_only (exit_call h t)" "slots_ok s \<Longrightarrow> slots_ok (exit_call h t s)"
  using assms by (auto simp: hook_ok_def)

lemma evict_inv:
  assumes i: "sched_inv s" and t: "t \<in> set (queues s ReadyQueue)" and h: "hook_ok exit_call" and sl: "slots_ok s"
  shows "returns (evict exit_call t (qrem t s)) (\<lambda>s'. sched_inv s' \<and>
    tasks (sched s') = filter ((\<noteq>) t) (tasks (sched s)) \<and>
    slots_ok s' \<and> same_machine s s' \<and> spin_held s' = spin_held s \<and>
    (\<forall>c. current_task (cores s' c) = current_task (cores s c) \<and>
         scheduler_initial_frame (cores s' c) = scheduler_initial_frame (cores s c)))"
proof -
  note r = ready_queueD [OF i t]
  define s1 where "s1 = sched_upd (\<lambda>c. c\<lparr>tasks := filter ((\<noteq>) t) (tasks c)\<rparr>)
    (qrem t (task_upd t (\<lambda>x. x\<lparr>t_state := TASK_TERMINATED, psp := (psp x)\<lparr>sf_r0 := - EFAULT\<rparr>\<rparr>) (qrem t s)))"
  have nt: "sched_upd (\<lambda>c. c\<lparr>tasks := filter ((\<noteq>) t) (tasks c)\<rparr>)
      (sched_upd (\<lambda>c. c\<lparr>timers := filter ((\<noteq>) t) (timers c)\<rparr>) s') =
    sched_upd (\<lambda>c. c\<lparr>tasks := filter ((\<noteq>) t) (tasks c)\<rparr>) s'" if "sched s' = sched s" for s'
    using r(6) that by (simp add: sched_upd_def)
  have "inv_but {t} s1"
    unfolding s1_def by (intro inv_but_del_task inv_intros) (use r in \<open>auto intro: sched_inv_but i\<close>)
  then have s1: "sched_inv s1" by (rule inv_but_close) (use r in \<open>auto simp: s1_def\<close>)
  have "evict exit_call t (qrem t s) =
    Some (if exit_handler (task_of s t) \<noteq> 0 then exit_call (exit_handler (task_of s t)) t s1 else s1)"
    using r by (simp add: evict_def sched_defs nt Let_def s1_def)
  moreover have "slots_ok s1" using sl by (simp add: s1_def slots_ok_def)
  ultimately show ?thesis
    using s1 by (simp add: client_onlyD [OF hook_okD(1) [OF h]] hook_okD(2) [OF h] same_machine_def) (simp add: s1_def)
qed

text \<open>The state of the switch between two turns: the core has no task and holds the lock.\<close>

definition turn_ok :: "sys \<Rightarrow> bool" where
  "turn_ok s \<longleftrightarrow> sched_inv s \<and> slots_ok s \<and> current_task (this s) = 0 \<and> spin_held s \<and>
    this_core s \<noteq> UINT32_MAX"

text \<open>
  Why a turn hands no task over: no ready task may run on the core, or the task it took had a
  broken stack and the turn ended with its eviction.
\<close>

definition none_eligible :: "sys \<Rightarrow> bool" where
  "none_eligible s \<longleftrightarrow> (\<forall>u\<in>set (queues s ReadyQueue). \<not> eligible s (this_core s) u)"

definition just_evicted :: "(addr \<Rightarrow> addr \<Rightarrow> sys \<Rightarrow> sys) \<Rightarrow> sys \<Rightarrow> bool" where
  "just_evicted exit_call s' \<longleftrightarrow> (\<exists>u s. sched_inv s \<and> this_core s = this_core s' \<and>
    take_first (eligible s (this_core s)) (queues s ReadyQueue) = Some u \<and>
    \<not> scheduler_check_stack u s \<and> evict exit_call u (qrem u s) = Some s')"

lemma switch_turn_inv:
  assumes t: "turn_ok s" and h: "hook_ok exit_call"
  shows "returns (switch_turn exit_call s) (\<lambda>(t, s').
    slots_ok s' \<and> current_task (this s') = 0 \<and> spin_held s' \<and> same_machine s s' \<and>
    scheduler_initial_frame (this s') = scheduler_initial_frame (this s) \<and>
    (if t = 0 then sched_inv s' \<and> (none_eligible s' \<or> just_evicted exit_call s') else inv_but {t} s' \<and> chosen t s'))"
proof -
  obtain s1 where s1: "deferred_wakes [0..<SCHEDULER_MAX_DEFERED_WAKE] s = Some s1" "sched_inv s1" "slots_ok s1" "same_core s s1"
    using deferred_wakes_inv [of s "[0..<SCHEDULER_MAX_DEFERED_WAKE]"] t
    by (auto simp: returns_def turn_ok_def simp del: upt_rec_numeral)
  obtain s2 xs where s2: "expire_timers (Suc (length (timers (sched s1)))) s1 = Some s2" "sched_inv s2"
    "expired_from xs s1 s2"
    using expire_timers_inv [OF s1(2) refl lessI] by (auto simp: returns_def simp del: expire_timers.simps)
  have f: "slots_ok s2" "current_task (this s2) = 0" "spin_held s2" "this_core s2 = this_core s"
    "same_machine s s2" "scheduler_initial_frame (cores s2 (this_core s)) = scheduler_initial_frame (this s)"
    using s1(3,4) s2(3) t by (auto simp: expired_from_def same_core_def turn_ok_def slots_ok_def same_machine_def)
  have pop: "sched_queue_pop ReadyQueue (this_core s) s2 =
    Some (case take_first (eligible s2 (this_core s)) (queues s2 ReadyQueue) of None \<Rightarrow> (0, s2) | Some t \<Rightarrow> (t, qrem t s2))"
    by (rule sched_queue_pop_core) (use t f inv_butD(1,3) [OF s2(2)] in \<open>auto simp: turn_ok_def\<close>)
  note unf = switch_turn_def s1(1) s2(1) scheduler_current_core_def pop
  show ?thesis
  proof (cases "take_first (eligible s2 (this_core s)) (queues s2 ReadyQueue)")
    case None
    then have "none_eligible s2" using f(4) by (simp add: none_eligible_def)
    then show ?thesis using None s2 f by (simp add: unf del: expire_timers.simps upt_rec_numeral take_first_None)
  next
    case (Some u)
    then have u: "u \<in> set (queues s2 ReadyQueue)" by (auto dest: take_first_SomeD)
    note r = ready_queueD [OF s2(2) u]
    have chk: "scheduler_check_stack u (qrem u s2) = scheduler_check_stack u s2"
      by (simp add: scheduler_check_stack_def)
    show ?thesis
    proof (cases "scheduler_check_stack u s2")
      case True
      then show ?thesis
        using Some r f pop_ready [OF s2(2) Some [folded f(4)] True]
        by (simp add: unf chk slots_ok_def same_machine_def del: expire_timers.simps upt_rec_numeral)
    next
      case False
      obtain s3 where s3: "evict exit_call u (qrem u s2) = Some s3" "sched_inv s3" "slots_ok s3"
        "same_machine s2 s3" "spin_held s3 = spin_held s2" "current_task (cores s3 c) = current_task (cores s2 c)"
        "scheduler_initial_frame (cores s3 c) = scheduler_initial_frame (cores s2 c)" for c
        using evict_inv [OF s2(2) u h f(1)] by (auto simp: returns_def)
      have "just_evicted exit_call s3"
        unfolding just_evicted_def using s2(2) Some False s3(1,4) f(4)
        by (intro exI [of _ u] exI [of _ s2]) (simp add: same_machine_def)
      with False s3 show ?thesis
        using Some r f by (simp add: unf chk same_machine_def del: expire_timers.simps upt_rec_numeral)
    qed
  qed
qed

section \<open>The switch loop\<close>

lemma scheduler_is_viable_loop_eq:
  assumes "\<forall>t\<in>set ts. t_marker (task_of s t) = SCHEDULER_TASK_MARKER"
  shows "scheduler_is_viable_loop ts s = Some (\<exists>t\<in>set ts.
    task_state_value TASK_BLOCKED \<le> task_state_value (state_of s t) \<and>
    t_flags (task_of s t) AND SCHEDULER_IGNORE_VIABLE = 0)"
  using assms by (induction ts) auto

text \<open>Some task that counts for viability is left.\<close>

definition viable :: "sys \<Rightarrow> bool" where
  "viable s \<longleftrightarrow> (\<exists>t\<in>set (tasks (sched s)). t_flags (task_of s t) AND SCHEDULER_IGNORE_VIABLE = 0)"

lemma scheduler_is_viable_eq:
  assumes i: "sched_inv s"
  shows "scheduler_is_viable s = Some (viable s)"
proof -
  have "task_state_value TASK_BLOCKED \<le> task_state_value (state_of s t)" if "t \<in> set (tasks (sched s))" for t
    using inv_butD(4) [OF i that] by (cases "state_of s t") (auto simp: placed_def)
  then show ?thesis
    using scheduler_is_viable_loop_eq [of "tasks (sched s)" s] inv_butD(7) [OF i]
    by (auto simp: scheduler_is_viable_def viable_def)
qed

text \<open>
  While the core sleeps the rest of the system keeps the invariant and the lock discipline, and
  gives this core no task.
\<close>

definition idle_ok :: "(sys \<Rightarrow> sys) \<Rightarrow> bool" where
  "idle_ok env \<longleftrightarrow> (\<forall>s. sched_inv s \<and> slots_ok s \<and> current_task (this s) = 0 \<and> \<not> spin_held s \<longrightarrow>
    sched_inv (env s) \<and> slots_ok (env s) \<and> current_task (this (env s)) = 0 \<and> \<not> spin_held (env s) \<and>
    same_machine s (env s))"

text \<open>The state after a pause, when the core has the lock back.\<close>

definition woken_up :: "(sys \<Rightarrow> sys) \<Rightarrow> sys \<Rightarrow> sys" where
  "woken_up env s = (let s = env (s\<lparr>spin_held := False\<rparr>)
     in (core_upd (this_core s) (\<lambda>c. c\<lparr>pendsv := False\<rparr>) s)\<lparr>spin_held := True\<rparr>)"

lemma scheduler_idle_hook_eq:
  assumes "turn_ok s" and "idle_ok env"
  shows "scheduler_idle_hook core_word env s = check (core_word (woken_up env s) \<noteq> 0) (woken_up env s)"
    "turn_ok (woken_up env s)" "same_machine s (woken_up env s)"
proof -
  let ?s = "s\<lparr>spin_held := False\<rparr>"
  have "sched_inv ?s" "slots_ok ?s" "current_task (this ?s) = 0" "\<not> spin_held ?s" "this_core ?s \<noteq> UINT32_MAX"
    using assms(1) by (auto simp: turn_ok_def)
  with spec [OF assms(2) [unfolded idle_ok_def], of ?s] have e: "sched_inv (env ?s)" "slots_ok (env ?s)" "current_task (this (env ?s)) = 0"
    "\<not> spin_held (env ?s)" "same_machine s (env ?s)" "this_core s \<noteq> UINT32_MAX"
    by (auto simp: same_machine_def)
  then show "scheduler_idle_hook core_word env s = check (core_word (woken_up env s) \<noteq> 0) (woken_up env s)"
    by (simp add: scheduler_idle_hook_def spin_lock_eq woken_up_def Let_def check_def)
  from e show "turn_ok (woken_up env s)" "same_machine s (woken_up env s)"
    by (simp_all add: woken_up_def turn_ok_def inv_but_core slots_ok_core same_machine_def Let_def)
qed

text \<open>
  What the closing assertion of the idle hook asks for: on every return from sleep the first word
  of the core's section is not 0. It is enough that it is not 0 in any state in which the core
  has no task and the frame it was started with, which nothing that happens meanwhile changes.
\<close>

definition idle_word_ok :: "(sys \<Rightarrow> word32) \<Rightarrow> (sys \<Rightarrow> sys) list \<Rightarrow> sys \<Rightarrow> bool" where
  "idle_word_ok core_word envs s \<longleftrightarrow> envs = [] \<or>
    (\<forall>s'. this_core s' = this_core s \<and> current_task (this s') = 0 \<and>
       scheduler_initial_frame (this s') = scheduler_initial_frame (this s) \<longrightarrow> core_word s' \<noteq> 0) \<and>
    (\<forall>env\<in>set envs. \<forall>s c. scheduler_initial_frame (cores (env s) c) = scheduler_initial_frame (cores s c))"

text \<open>What the loop delivers, with the lock held unless the core is asleep.\<close>

definition pick_ok :: "(addr \<Rightarrow> addr \<Rightarrow> sys \<Rightarrow> sys) \<Rightarrow> pick \<Rightarrow> sys \<Rightarrow> bool" where
  "pick_ok exit_call p s \<longleftrightarrow> slots_ok s \<and> current_task (this s) = 0 \<and>
    (case p of
       Picked t \<Rightarrow> inv_but {t} s \<and> chosen t s \<and> spin_held s
     | NotViable \<Rightarrow> sched_inv s \<and> \<not> viable s \<and> spin_held s \<and> scheduler_initial_frame (this s) \<noteq> None
     | Asleep \<Rightarrow> sched_inv s \<and> \<not> spin_held s \<and> (viable s \<or> scheduler_initial_frame (this s) = None) \<and>
         (none_eligible s \<or> just_evicted exit_call (s\<lparr>spin_held := True\<rparr>)))"

text \<open>The loop, with an idle hook whose assertion holds.\<close>

lemma switch_loop_inv:
  assumes "turn_ok s" and h: "hook_ok exit_call" and "\<forall>env\<in>set envs. idle_ok env"
  shows "returns (switch_loop (\<lambda>_. 1) exit_call envs s) (\<lambda>(p, s'). same_machine s s' \<and> pick_ok exit_call p s')"
  using assms(1,3)
proof (induction envs arbitrary: s)
  case Nil
  obtain t s1 where s1: "switch_turn exit_call s = Some (t, s1)" "slots_ok s1" "current_task (this s1) = 0"
    "spin_held s1" "same_machine s s1"
    "if t = 0 then sched_inv s1 \<and> (none_eligible s1 \<or> just_evicted exit_call s1) else inv_but {t} s1 \<and> chosen t s1"
    using switch_turn_inv [OF Nil.prems(1) h] by (auto simp: returns_def)
  have "s1\<lparr>spin_held := True\<rparr> = s1" by (rule sys.equality) (simp_all add: s1(4))
  then have "just_evicted exit_call (s1\<lparr>spin_held := True\<rparr>) = just_evicted exit_call s1" by (rule arg_cong)
  moreover have "none_eligible (s1\<lparr>spin_held := False\<rparr>) = none_eligible s1" "viable (s1\<lparr>spin_held := False\<rparr>) = viable s1"
    by (simp_all add: none_eligible_def eligible_def viable_def)
  ultimately show ?case
    using s1 by (auto simp: switch_loop.simps [of _ _ "[]"] pick_ok_def same_machine_def scheduler_is_viable_eq
        scheduler_spin_unlock_def split: if_splits)
next
  case (Cons env envs)
  obtain t s1 where s1: "switch_turn exit_call s = Some (t, s1)" "slots_ok s1" "current_task (this s1) = 0"
    "spin_held s1" "same_machine s s1" "if t = 0 then sched_inv s1 else inv_but {t} s1 \<and> chosen t s1"
    using switch_turn_inv [OF Cons.prems(1) h] by (auto simp: returns_def split: if_splits)
  show ?case
  proof (cases "t \<noteq> 0 \<or> (\<not> viable s1 \<and> scheduler_initial_frame (this s1) \<noteq> None)")
    case True
    then show ?thesis
      using s1 by (auto simp: switch_loop.simps [of _ _ "_ # _"] pick_ok_def scheduler_is_viable_eq split: if_splits)
  next
    case False
    then have t: "turn_ok s1" using s1 Cons.prems(1) by (simp add: turn_ok_def same_machine_def)
    have e: "idle_ok env" using Cons.prems(2) by simp
    note w = scheduler_idle_hook_eq [OF t e]
    show ?thesis
      using False s1 t w Cons.IH [OF w(2)] Cons.prems(2)
      by (auto simp: switch_loop.simps [of _ _ "_ # _"] turn_ok_def scheduler_is_viable_eq same_machine_def elim!: returns_mono)
  qed
qed

text \<open>
  The assertion can only stop the loop. It does not when the word is in order.
\<close>

lemma idle_hook_weaken:
  "scheduler_idle_hook core_word env s = Some s' \<Longrightarrow> scheduler_idle_hook (\<lambda>_. 1) env s = Some s'"
  by (auto simp: scheduler_idle_hook_def bind_eq_Some_conv check_def Let_def split: if_splits)

text \<open>A turn of the loop that has to sleep, and one that has not.\<close>

lemma switch_loop_turn:
  assumes "switch_turn exit_call s = Some (t, s1)" and "t \<noteq> 0 \<or> scheduler_is_viable s1 \<noteq> Some v \<or> \<not> v \<and> scheduler_initial_frame (this s1) \<noteq> None"
    and "t = 0 \<longrightarrow> scheduler_is_viable s1 = Some v \<or> scheduler_is_viable s1 = None"
  shows "switch_loop core_word exit_call envs s = switch_loop (\<lambda>_. 1) exit_call envs s"
  using assms by (auto simp: switch_loop.simps)

lemma switch_loop_sleep:
  assumes "switch_turn exit_call s = Some (0, s1)" and "scheduler_is_viable s1 = Some v"
    and "v \<or> scheduler_initial_frame (this s1) = None"
  shows "switch_loop core_word exit_call (env # envs) s =
    Option.bind (scheduler_idle_hook core_word env s1) (switch_loop core_word exit_call envs)"
  using assms by (auto simp: switch_loop.simps [of _ _ "_ # _"])

lemma switch_loop_weaken:
  "switch_loop core_word exit_call envs s = Some r \<Longrightarrow> switch_loop (\<lambda>_. 1) exit_call envs s = Some r"
proof (induction envs arbitrary: s)
  case Nil
  then show ?case by (auto simp: switch_loop.simps [of _ _ "[]"] bind_eq_Some_conv split: if_splits)
next
  case (Cons env envs)
  obtain t s1 where t: "switch_turn exit_call s = Some (t, s1)"
    using Cons.prems by (cases "switch_turn exit_call s") (auto simp: switch_loop.simps [of _ _ "_ # _"])
  show ?case
  proof (cases "t = 0 \<and> (\<exists>v. scheduler_is_viable s1 = Some v \<and> (v \<or> scheduler_initial_frame (this s1) = None))")
    case True
    then obtain v where v: "t = 0" "scheduler_is_viable s1 = Some v" "v \<or> scheduler_initial_frame (this s1) = None" by blast
    note sl = switch_loop_sleep [OF t [unfolded v(1)] v(2,3)]
    obtain s2 where "scheduler_idle_hook core_word env s1 = Some s2" "switch_loop core_word exit_call envs s2 = Some r"
      using Cons.prems by (auto simp: sl bind_eq_Some_conv)
    then show ?thesis using Cons.IH idle_hook_weaken by (simp add: sl)
  next
    case False
    then have "switch_loop core_word exit_call (env # envs) s = switch_loop (\<lambda>_. 1) exit_call (env # envs) s"
      by (cases "scheduler_is_viable s1") (auto intro!: switch_loop_turn [OF t])
    then show ?thesis using Cons.prems by simp
  qed
qed

lemma switch_loop_word:
  assumes "turn_ok s" and h: "hook_ok exit_call" and "\<forall>env\<in>set envs. idle_ok env" and "idle_word_ok core_word envs s"
  shows "switch_loop core_word exit_call envs s = switch_loop (\<lambda>_. 1) exit_call envs s"
  using assms(1,3,4)
proof (induction envs arbitrary: s)
  case Nil
  show ?case by (simp add: switch_loop.simps [of _ _ "[]"] cong: if_cong)
next
  case (Cons env envs)
  obtain t s1 where s1: "switch_turn exit_call s = Some (t, s1)" "slots_ok s1" "current_task (this s1) = 0"
    "spin_held s1" "same_machine s s1" "scheduler_initial_frame (this s1) = scheduler_initial_frame (this s)"
    "t = 0 \<longrightarrow> sched_inv s1"
    using switch_turn_inv [OF Cons.prems(1) h] by (auto simp: returns_def split: if_splits)
  show ?case
  proof (cases "t = 0")
    case False
    then show ?thesis using s1(1) by (simp add: switch_loop.simps [of _ _ "_ # _"])
  next
    case True
    then have t: "turn_ok s1" using s1 Cons.prems(1) by (simp add: turn_ok_def same_machine_def)
    have e: "idle_ok env" using Cons.prems(2) by simp
    note w = scheduler_idle_hook_eq [OF t e]
    have f: "this_core (woken_up env s1) = this_core s" "current_task (this (woken_up env s1)) = 0"
      "scheduler_initial_frame (this (woken_up env s1)) = scheduler_initial_frame (this s)"
      using w(2,3) s1(5,6) Cons.prems(3)
      by (auto simp: turn_ok_def same_machine_def idle_word_ok_def woken_up_def Let_def)
    then have "core_word (woken_up env s1) \<noteq> 0" using Cons.prems(3) by (auto simp: idle_word_ok_def)
    moreover have "idle_word_ok core_word envs (woken_up env s1)"
      using Cons.prems(3) f by (auto simp: idle_word_ok_def)
    ultimately have c: "scheduler_idle_hook core_word env s1 = Some (woken_up env s1)"
      "switch_loop core_word exit_call envs (woken_up env s1) = switch_loop (\<lambda>_. 1) exit_call envs (woken_up env s1)"
      using w Cons.IH [OF w(2)] Cons.prems(2) by simp_all
    have v: "scheduler_is_viable s1 = Some (viable s1)" using s1(7) True by (simp add: scheduler_is_viable_eq)
    show ?thesis
    proof (cases "viable s1 \<or> scheduler_initial_frame (this s1) = None")
      case sleeps: True
      show ?thesis using c w(1) by (simp add: switch_loop_sleep [OF s1(1) [unfolded True] v sleeps])
    next
      case False
      then show ?thesis using v by (intro switch_loop_turn [OF s1(1), where v = "viable s1"]) auto
    qed
  qed
qed

section \<open>Starting the task\<close>

definition kick_cond :: "word32 \<Rightarrow> sys \<Rightarrow> bool" where
  "kick_cond c s \<longleftrightarrow> c \<noteq> this_core s \<and> current_task (cores s c) \<noteq> 0 \<and>
    (\<exists>u. take_first (eligible s c) (queues s ReadyQueue) = Some u \<and>
         prio s u < prio s (current_task (cores s c)))"

lemma kick_core_eq: "kick_core c s = (if kick_cond c s then scheduler_request_switch c s else s)"
  by (auto simp: kick_core_def kick_cond_def scheduler_current_core_def Let_def simp del: take_first_None
      split: option.split)

text \<open>The kicks only pend PendSV, on exactly the cores that run something less important.\<close>

lemma fold_kick_core:
  "fold kick_core cs s = s\<lparr>cores := (\<lambda>c. if c \<in> set cs \<and> kick_cond c s
     then (cores s c)\<lparr>pendsv := True\<rparr> else cores s c)\<rparr>"
proof (induction cs arbitrary: s)
  case Nil
  show ?case by simp
next
  case (Cons c cs)
  have "eligible (scheduler_request_switch c s) = eligible s" by (simp add: eligible_def fun_eq_iff)
  then have k: "kick_cond d (kick_core c s) = kick_cond d s" for d
    by (auto simp: kick_core_eq kick_cond_def)
  have kc: "kick_core c s = s\<lparr>cores := (\<lambda>d. if d = c \<and> kick_cond d s then (cores s d)\<lparr>pendsv := True\<rparr> else cores s d)\<rparr>"
    by (auto simp: kick_core_eq scheduler_request_switch_def core_upd_def fun_eq_iff)
  have "fold kick_core (c # cs) s = (kick_core c s)\<lparr>cores := (\<lambda>d. if d \<in> set cs \<and> kick_cond d s
     then (cores (kick_core c s) d)\<lparr>pendsv := True\<rparr> else cores (kick_core c s) d)\<rparr>"
    by (simp add: Cons.IH k)
  also have "\<dots> = s\<lparr>cores := (\<lambda>d. if d \<in> set (c # cs) \<and> kick_cond d s
     then (cores s d)\<lparr>pendsv := True\<rparr> else cores s d)\<rparr>"
    by (rule sys.equality) (auto simp: kc fun_eq_iff)
  finally show ?case .
qed

lemma kick_cores_eq:
  "kick_cores s = s\<lparr>cores := (\<lambda>c. if c < num_cores s \<and> kick_cond c s
     then (cores s c)\<lparr>pendsv := True\<rparr> else cores s c)\<rparr>"
proof -
  have "set (all_cores s) = {c. c < num_cores s}"
  proof -
    have "c \<in> set (all_cores s)" if "c < num_cores s" for c
      using that by (auto simp: all_cores_def scheduler_num_cores_def word_less_nat_alt intro!: image_eqI [of _ _ "unat c"])
    moreover have "c < num_cores s" if "c \<in> set (all_cores s)" for c
      using that by (auto simp: all_cores_def scheduler_num_cores_def word_less_nat_alt unat_of_nat intro: le_less_trans)
    ultimately show ?thesis by auto
  qed
  moreover have "\<not> kick_cond c s" if "sched_queue_empty ReadyQueue s" for c
    using that by (auto simp: kick_cond_def sched_queue_empty_def)
  ultimately show ?thesis by (auto simp: kick_cores_def fold_kick_core fun_eq_iff)
qed

lemma kick_cores_sel [simp]:
  "sched (kick_cores s) = sched s" "task_of (kick_cores s) = task_of s" "queues (kick_cores s) = queues s"
  "current_task (cores (kick_cores s) c) = current_task (cores s c)" "this_core (kick_cores s) = this_core s"
  "mem (kick_cores s) = mem s" "futex_of (kick_cores s) = futex_of s" "num_cores (kick_cores s) = num_cores s"
  "scheduler_set (kick_cores s) = scheduler_set s"
  "deferred_wake (cores (kick_cores s) c) = deferred_wake (cores s c)"
  by (auto simp: kick_cores_eq)

lemma inv_kick_cores [simp]: "inv_but X (kick_cores s) = inv_but X s"
  by (rule inv_but_cong) simp_all

text \<open>
  The core runs its most important eligible task, and every other core that runs something
  less important than a ready task it may run has a switch pending.
\<close>

definition runs_best :: "addr \<Rightarrow> sys \<Rightarrow> bool" where
  "runs_best t s \<longleftrightarrow> current_task (this s) = t \<and> state_of s t = TASK_RUNNING \<and>
    eligible s (this_core s) t \<and>
    (\<forall>u\<in>set (queues s ReadyQueue). eligible s (this_core s) u \<longrightarrow> prio s t \<le> prio s u)"

definition others_kicked :: "sys \<Rightarrow> bool" where
  "others_kicked s \<longleftrightarrow> (\<forall>c u. c < num_cores s \<and> c \<noteq> this_core s \<and> current_task (cores s c) \<noteq> 0 \<and>
    u \<in> set (queues s ReadyQueue) \<and> eligible s c u \<and> prio s u < prio s (current_task (cores s c)) \<longrightarrow>
    pendsv (cores s c))"

lemma kick_condI:
  assumes "queues_wf s" and "c \<noteq> this_core s" and "current_task (cores s c) \<noteq> 0"
    and "u \<in> set (queues s ReadyQueue)" and "eligible s c u" and "prio s u < prio s (current_task (cores s c))"
  shows "kick_cond c s"
proof (cases "take_first (eligible s c) (queues s ReadyQueue)")
  case None
  then show ?thesis using assms(4,5) by auto
next
  case (Some v)
  have "prio s v \<le> prio s u" by (rule take_first_sorted [OF queues_wfD(2) [OF assms(1)] Some assms(4,5)])
  with Some assms show ?thesis by (auto simp: kick_cond_def)
qed

lemma others_kicked_after:
  assumes "queues_wf s"
  shows "others_kicked ((kick_cores s)\<lparr>spin_held := False\<rparr>)"
proof -
  let ?s = "(kick_cores s)\<lparr>spin_held := False\<rparr>"
  have e: "eligible ?s = eligible s" by (simp add: eligible_def fun_eq_iff)
  show ?thesis
    unfolding others_kicked_def
  proof (intro allI impI, elim conjE)
    fix c u assume a: "c < num_cores ?s" "c \<noteq> this_core ?s" "current_task (cores ?s c) \<noteq> 0"
      "u \<in> set (queues ?s ReadyQueue)" "eligible ?s c u" "prio ?s u < prio ?s (current_task (cores ?s c))"
    have "kick_cond c s" by (rule kick_condI [OF assms, where u = u]) (use a e in auto)
    then show "pendsv (cores ?s c)" using a(1) by (simp add: kick_cores_eq)
  qed
qed

lemma switch_to_inv:
  assumes i: "inv_but {t} s" and ch: "chosen t s" and c: "current_task (this s) = 0" and sl: "slots_ok s"
  shows "returns (switch_to last_task t s) (\<lambda>(frame, s'). sched_inv s' \<and> \<not> spin_held s' \<and> runs_best t s' \<and>
    others_kicked s' \<and> same_machine s s' \<and> slots_ok s' \<and> frame = psp (task_of s t) \<and>
    queues s' = queues s \<and> sched s' = sched s \<and>
    task_of s' = (task_of s)(t := (task_of s t)\<lparr>t_state := TASK_RUNNING, t_core := this_core s\<rparr>))"
proof -
  define s1 where "s1 = task_upd t (\<lambda>x. x\<lparr>t_state := TASK_RUNNING, t_core := this_core s\<rparr>) s"
  define s2 where "s2 = (if t \<noteq> last_task \<or> slice_expires (this s1) <s 0
    then core_upd (this_core s1) (\<lambda>c. c\<lparr>slice_expires := slice_duration (sched s1)\<rparr>) s1 else s1)"
  define s3 where "s3 = set_cur t s2"
  have t: "t \<in> set (tasks (sched s))" "t \<noteq> 0" "t_marker (task_of s t) = SCHEDULER_TASK_MARKER"
    using ch inv_butD(6,7) [OF i] by (auto simp: chosen_def)
  have s2: "inv_but {t} s2" "task_of s2 = task_of s1" "queues s2 = queues s" "sched s2 = sched s"
    "this_core s2 = this_core s" "current_task (cores s2 d) = current_task (cores s d)" for d
    using i by (auto simp: s2_def s1_def inv_but_core inv_but_task_upd)
  have sel: "task_of s3 = (task_of s)(t := (task_of s t)\<lparr>t_state := TASK_RUNNING, t_core := this_core s\<rparr>)"
    "queues s3 = queues s" "sched s3 = sched s" "this_core s3 = this_core s"
    "current_task (cores s3 d) = (if d = this_core s then t else current_task (cores s d))" for d
    using s2 by (simp_all add: s3_def s1_def)
  have sm: "same_machine s (kick_cores s3)" "slots_ok (kick_cores s3)"
    using sl by (auto simp: s3_def s2_def s1_def same_machine_def slots_ok_def)
  have "inv_but {t} s3"
    unfolding s3_def set_cur_def by (rule inv_but_set_current [OF s2(1), where t = t]) (use s2 c in simp_all)
  then have s3: "sched_inv s3"
    by (rule inv_but_close) (use ch t in \<open>auto simp: placed_def current_ok_def sel chosen_def split: if_splits\<close>)
  have "switch_to last_task t s = Some (psp (task_of s t), (kick_cores s3)\<lparr>spin_held := False\<rparr>)"
    using ch t c by (auto simp: switch_to_def chosen_def sched_defs scheduler_current_core_def
        s3_def s2_def s1_def Let_def)
  moreover have "runs_best t ((kick_cores s3)\<lparr>spin_held := False\<rparr>)"
    using ch by (auto simp: runs_best_def chosen_def sel eligible_def)
  ultimately show ?thesis
    using s3 others_kicked_after [OF inv_butD(1) [OF s3]] sm
    by (simp add: sel same_machine_def)
qed

section \<open>The whole switch\<close>

text \<open>What a switch needs: the invariant, the lock free, a real core number.\<close>

definition switch_ok :: "sys \<Rightarrow> bool" where
  "switch_ok s \<longleftrightarrow> scheduler_set s \<and> sched_inv s \<and> slots_ok s \<and> \<not> spin_held s \<and> this_core s \<noteq> UINT32_MAX"

text \<open>The running task goes back to the ready queue, and the core is free.\<close>

definition preempted :: "scheduler_frame \<Rightarrow> sys \<Rightarrow> sys" where
  "preempted frame s =
    (let t = current_task (this s); s = set_cur 0 (s\<lparr>spin_held := True\<rparr>)
     in if t = 0 then s
        else qpush ReadyQueue t (task_upd t (\<lambda>x. x\<lparr>t_state := TASK_READY, t_core := UINT32_MAX, psp := frame\<rparr>) s))"

lemma preempted_turn_ok:
  assumes "switch_ok s"
  shows "turn_ok (preempted frame s)" "same_machine s (preempted frame s)"
proof -
  define t where "t = current_task (this s)"
  have i: "sched_inv s" using assms by (simp add: switch_ok_def)
  have "sched_inv (preempted frame s)"
  proof (cases "t = 0")
    case True
    have "sched_inv (set_cur 0 (s\<lparr>spin_held := True\<rparr>))"
      unfolding set_cur_def by (rule inv_but_set_current [where t = 0]) (use True i in \<open>simp_all add: t_def\<close>)
    then show ?thesis using True by (simp add: preempted_def t_def)
  next
    case False
    note c = currentD [OF i t_def [symmetric] False]
    have "inv_but {t} (set_cur 0 (s\<lparr>spin_held := True\<rparr>))"
      unfolding set_cur_def
      by (rule inv_but_set_current [where t = 0]) (use i in \<open>simp_all add: t_def sched_inv_but\<close>)
    then have "sched_inv (qpush ReadyQueue t (task_upd t
        (\<lambda>x. x\<lparr>t_state := TASK_READY, t_core := UINT32_MAX, psp := frame\<rparr>) (set_cur 0 (s\<lparr>spin_held := True\<rparr>))))"
      using c False by (intro ready_task_inv) auto
    then show ?thesis using False by (simp add: preempted_def t_def [symmetric])
  qed
  then show "turn_ok (preempted frame s)" "same_machine s (preempted frame s)"
    using assms by (auto simp: same_machine_def turn_ok_def switch_ok_def slots_ok_def preempted_def Let_def)
qed

lemma scheduler_switch_eq:
  assumes "switch_ok s" and "current_task (this s) = 0 \<or> \<not> locked (sched s) <s 0"
  shows "scheduler_switch core_word exit_call envs frame s = do {
    (pick, s1) \<leftarrow> switch_loop core_word exit_call envs (preempted frame s);
    (case pick of
        Asleep \<Rightarrow> Some (Waiting, s1)
      | NotViable \<Rightarrow> do {
          initial \<leftarrow> scheduler_initial_frame (this s1);
          Some (Shutdown (initial\<lparr>sf_r0 := 0\<rparr>),
            (core_upd (this_core s1) (\<lambda>c. c\<lparr>scheduler_initial_frame := Some (initial\<lparr>sf_r0 := 0\<rparr>)\<rparr>) s1)\<lparr>spin_held := False\<rparr>)
        }
      | Picked t \<Rightarrow> do {
          (frame, s) \<leftarrow> switch_to (current_task (this s)) t s1;
          Some (Running frame, s)
        })
  }"
proof -
  have i: "sched_inv s" using assms by (simp add: switch_ok_def)
  show ?thesis
  proof (cases "current_task (this s) = 0")
    case True
    then show ?thesis
      using assms by (simp add: scheduler_switch_def switch_ok_def sched_defs preempted_def Let_def
          cong: pick.case_cong)
  next
    case False
    note c = currentD [OF i refl False]
    then show ?thesis
      using assms False by (simp add: scheduler_switch_def switch_ok_def sched_defs preempted_def
          Let_def cong: pick.case_cong)
  qed
qed

lemma scheduler_switch_locked:
  assumes "switch_ok s" and "current_task (this s) = t" "t \<noteq> 0" and "locked (sched s) <s 0"
  shows "scheduler_switch core_word exit_call envs frame s =
    Some (Running frame, (set_cur t (set_cur 0 (s\<lparr>spin_held := True\<rparr>)))\<lparr>spin_held := False\<rparr>)"
proof -
  have i: "sched_inv s" using assms by (simp add: switch_ok_def)
  show ?thesis
    using assms currentD(1-6) [OF i assms(2,3)] by (simp add: scheduler_switch_def switch_ok_def sched_defs Let_def)
qed

text \<open>The sleep assertion can only stop a switch, and does not when the word is in order.\<close>

lemma scheduler_switch_weaken:
  assumes "scheduler_switch core_word exit_call envs frame s = Some r" and "switch_ok s"
    and "current_task (this s) = 0 \<or> \<not> locked (sched s) <s 0"
  shows "scheduler_switch (\<lambda>_. 1) exit_call envs frame s = Some r"
proof -
  obtain x where "switch_loop core_word exit_call envs (preempted frame s) = Some x"
    using assms(1) unfolding scheduler_switch_eq [OF assms(2,3)]
    by (cases "switch_loop core_word exit_call envs (preempted frame s)") auto
  with assms(1) switch_loop_weaken [OF this] show ?thesis unfolding scheduler_switch_eq [OF assms(2,3)] by simp
qed

lemma scheduler_switch_word:
  assumes "switch_ok s" and "hook_ok exit_call" and "\<forall>env\<in>set envs. idle_ok env" and "idle_word_ok core_word envs s"
    and "current_task (this s) = 0 \<or> \<not> locked (sched s) <s 0"
  shows "scheduler_switch core_word exit_call envs frame s = scheduler_switch (\<lambda>_. 1) exit_call envs frame s"
proof -
  have "scheduler_initial_frame (this (preempted frame s)) = scheduler_initial_frame (this s)"
    "this_core (preempted frame s) = this_core s"
    by (simp_all add: preempted_def Let_def)
  then have "idle_word_ok core_word envs (preempted frame s)" using assms(4) by (simp add: idle_word_ok_def)
  with switch_loop_word [OF preempted_turn_ok(1) [OF assms(1)] assms(2,3)] show ?thesis
    by (simp add: scheduler_switch_eq [OF assms(1,5)])
qed

definition switched :: "(addr \<Rightarrow> addr \<Rightarrow> sys \<Rightarrow> sys) \<Rightarrow> switch_result \<Rightarrow> sys \<Rightarrow> bool" where
  "switched exit_call r s \<longleftrightarrow>
    (case r of
       Running frame \<Rightarrow> \<exists>t. t \<noteq> 0 \<and> runs_best t s \<and> others_kicked s \<and> frame = psp (task_of s t)
     | Shutdown frame \<Rightarrow> \<not> viable s \<and> sf_r0 frame = 0 \<and> scheduler_initial_frame (this s) = Some frame \<and> current_task (this s) = 0
     | Waiting \<Rightarrow> current_task (this s) = 0 \<and> (viable s \<or> scheduler_initial_frame (this s) = None) \<and>
         (none_eligible s \<or> just_evicted exit_call (s\<lparr>spin_held := True\<rparr>)))"

lemma scheduler_switch_inv:
  assumes s: "switch_ok s" and h: "hook_ok exit_call" and e: "\<forall>env\<in>set envs. idle_ok env"
    and l: "current_task (this s) = 0 \<or> \<not> locked (sched s) <s 0"
  shows "returns (scheduler_switch (\<lambda>_. 1) exit_call envs frame s) (\<lambda>(r, s').
    sched_inv s' \<and> \<not> spin_held s' \<and> slots_ok s' \<and> same_machine s s' \<and> switched exit_call r s')"
proof -
  note p = preempted_turn_ok [OF s, of frame]
  obtain pick s1 where loop: "switch_loop (\<lambda>_. 1) exit_call envs (preempted frame s) = Some (pick, s1)"
    and s1: "same_machine s s1" "pick_ok exit_call pick s1"
    using switch_loop_inv [OF p(1) h e] p(2) by (auto simp: returns_def same_machine_def)
  show ?thesis
  proof (cases pick)
    case (Picked t)
    then have "inv_but {t} s1" "chosen t s1" "current_task (this s1) = 0" "slots_ok s1"
      using s1 by (auto simp: pick_ok_def)
    note sw = switch_to_inv [OF this, of "current_task (this s)"]
    moreover have "t \<noteq> 0" using \<open>chosen t s1\<close> inv_butD(6) [OF \<open>inv_but {t} s1\<close>] by (auto simp: chosen_def)
    ultimately show ?thesis
      using Picked loop s1(1) by (auto simp: scheduler_switch_eq [OF s l] switched_def same_machine_def elim!: returns_mono)
  next
    case NotViable
    then show ?thesis
      using loop s1
      by (auto simp: scheduler_switch_eq [OF s l] switched_def pick_ok_def inv_but_core viable_def
          same_machine_def slots_ok_core)
  next
    case Asleep
    then show ?thesis
      using loop s1 by (auto simp: scheduler_switch_eq [OF s l] switched_def pick_ok_def)
  qed
qed

end
