(* ===== verification/Sched_Steps.thy ===== *)
theory Sched_Steps
  imports Sched_Dispatch
begin

text \<open>
  The scheduler as a transition system: \<open>kstep\<close> has one rule for each system call, the context
  switch, the tick, a wake up from an interrupt handler and the change from one core to
  another; \<open>kinv\<close> holds between steps and every step keeps it.
\<close>

section \<open>What the handlers leave alone\<close>

definition kframe :: "sys \<Rightarrow> sys \<Rightarrow> bool" where
  "kframe s s' \<longleftrightarrow> same_machine s s' \<and> futex_of s' = futex_of s \<and>
    (\<forall>c. deferred_wake (cores s' c) = deferred_wake (cores s c))"

lemmas kframe_defs = kframe_def same_machine_def sched_defs Let_def bind_eq_Some_conv

lemma scheduler_create_svc_frame: "scheduler_create_svc frame s = Some (fr, s') \<Longrightarrow> kframe s s'"
  by (auto simp: scheduler_create_svc_def kframe_defs split: if_splits)

lemma scheduler_suspend_svc_frame: "scheduler_suspend_svc frame s = Some (fr, s') \<Longrightarrow> kframe s s'"
  by (auto simp: scheduler_suspend_svc_def kframe_defs split: if_splits)

lemma scheduler_resume_svc_frame: "scheduler_resume_svc frame s = Some (fr, s') \<Longrightarrow> kframe s s'"
  by (auto simp: scheduler_resume_svc_def kframe_defs split: if_splits)

lemma scheduler_priority_svc_frame: "scheduler_priority_svc frame s = Some (fr, s') \<Longrightarrow> kframe s s'"
  by (auto simp: scheduler_priority_svc_def kframe_defs split: if_splits)

lemma scheduler_yield_svc_frame: "scheduler_yield_svc frame s = Some (fr, s') \<Longrightarrow> kframe s s'"
  by (auto simp: scheduler_yield_svc_def kframe_defs)

lemma wait_block_frame: "wait_block f v ticks cur s = Some s' \<Longrightarrow> kframe s s'"
  by (auto simp: wait_block_def futex_boost_owner_def kframe_defs split: if_splits)

lemma kframe_trans: "kframe s s1 \<Longrightarrow> kframe s1 s2 \<Longrightarrow> kframe s s2"
  by (simp add: kframe_def same_machine_def)

lemma scheduler_wait_svc_frame: "scheduler_wait_svc frame s = Some (fr, s') \<Longrightarrow> kframe s s'"
  by (auto simp: scheduler_wait_svc_def kframe_defs dest!: wait_block_frame split: if_splits)

lemma futex_wake_one_frame: "futex_wake_one f t s = Some s' \<Longrightarrow> kframe s s'"
  by (auto simp: futex_wake_one_def kframe_defs split: if_splits)

lemma futex_wake_loop_frame: "futex_wake_loop n f all w s = Some (m, s') \<Longrightarrow> kframe s s'"
proof (induction n arbitrary: w s)
  case (Suc n)
  show ?case
  proof (cases "queues s (Waiters f)")
    case Nil
    with Suc.prems show ?thesis by (simp add: sched_queue_pop_any kframe_def same_machine_def)
  next
    case (Cons t ts)
    have q: "kframe s (qrem t s)" by (simp add: kframe_def same_machine_def)
    show ?thesis
    proof (cases "t = 0")
      case True
      then show ?thesis using Suc.prems Cons q by (simp add: sched_queue_pop_any)
    next
      case False
      then obtain s1 where s1: "futex_wake_one f t (qrem t s) = Some s1"
        using Suc.prems Cons by (auto simp: sched_queue_pop_any bind_eq_Some_conv)
      note k = kframe_trans [OF q futex_wake_one_frame [OF s1]]
      show ?thesis
        using Suc.prems Cons False s1 k Suc.IH [of _ s1] kframe_trans [OF k]
        by (auto simp: sched_queue_pop_any split: if_splits)
    qed
  qed
qed simp

lemma wake_rest_frame: "wake_rest f all s = Some (m, s') \<Longrightarrow> kframe s s'"
  by (auto simp: wake_rest_def kframe_def same_machine_def bind_eq_Some_conv simp del: futex_wake_loop.simps
      dest!: futex_wake_loop_frame split: if_splits)

lemma futex_release_owner_frame: "futex_release_owner f s = Some s' \<Longrightarrow> kframe s s'"
  by (auto simp: futex_release_owner_def kframe_defs)

lemma scheduler_wake_futex_frame: "scheduler_wake_futex f all s = Some (m, s') \<Longrightarrow> kframe s s'"
  by (auto simp: scheduler_wake_futex_eq bind_eq_Some_conv split: if_splits
      dest!: futex_release_owner_frame wake_rest_frame intro: kframe_trans)

lemma scheduler_wake_svc_frame:
  assumes "scheduler_wake_svc frame s = Some (fr, s')"
  shows "kframe s s'"
proof -
  obtain m s1 where "scheduler_wake_futex (ef_r0 frame) (ef_r1 frame \<noteq> 0) (s\<lparr>spin_held := True\<rparr>) = Some (m, s1)"
    "s' = (if 0 < m then scheduler_request_switch (scheduler_current_core s1) s1 else s1)\<lparr>spin_held := False\<rparr>"
    using assms by (auto simp: scheduler_wake_svc_def sched_defs Let_def bind_eq_Some_conv split: if_splits)
  then show ?thesis using scheduler_wake_futex_frame [of "ef_r0 frame" "ef_r1 frame \<noteq> 0"]
    by (auto simp: kframe_def same_machine_def)
qed

lemma slots_ok_ops [simp]:
  "slots_ok (task_upd t f s) = slots_ok s" "slots_ok (sched_upd k s) = slots_ok s"
  "slots_ok (qrem t s) = slots_ok s" "slots_ok (trem t s) = slots_ok s"
  "slots_ok (set_cur t s) = slots_ok s" "slots_ok (scheduler_request_switch c s) = slots_ok s"
  by (rule slots_ok_cong; simp)+

lemma scheduler_terminate_svc_frame:
  assumes h: "hook_ok exit_call" and "slots_ok s" and "scheduler_terminate_svc exit_call frame s = Some (fr, s')"
  shows "same_machine s s' \<and> slots_ok s'"
  using assms(2,3)
  by (auto simp: scheduler_terminate_svc_def same_machine_def sched_defs Let_def bind_eq_Some_conv
      client_onlyD [OF hook_okD(1) [OF h]] hook_okD(2) [OF h] split: if_splits)

section \<open>Steps of the system\<close>

text \<open>The invariant between two steps, when no core is inside the scheduler.\<close>

definition kinv :: "sys \<Rightarrow> bool" where
  "kinv s \<longleftrightarrow> scheduler_set s \<and> sched_inv s \<and> slots_ok s \<and> \<not> spin_held s \<and> this_core s < num_cores s"

lemma kinv_frame:
  assumes "kinv s" and "kframe s s'" and "sched_inv s'" and "\<not> spin_held s'"
  shows "kinv s'"
  using assms slots_ok_cong [of s' s] by (auto simp: kinv_def kframe_def same_machine_def)

lemma not_max_less: "\<not> (UINT32_MAX :: word32) < x"
proof -
  have "(UINT32_MAX :: word32) = - 1" by simp
  then show ?thesis by (metis word_order.extremum_strict)
qed

lemma kinv_switch_ok: "kinv s \<Longrightarrow> switch_ok s"
  using not_max_less [of "num_cores s"] by (auto simp: kinv_def switch_ok_def)

text \<open>
  One step of the machine. The handlers run under the spin lock, so their executions on the
  cores are one after the other; \<open>other_core\<close> is the change from one core to another. The
  guards are what the callers owe: a new task is not yet known to the scheduler, a task that
  runs on another core is neither suspended nor terminated, a priority inheritance futex holds
  the address of its owner.
\<close>

inductive kstep ::
  "(sys \<Rightarrow> word32) \<Rightarrow> (addr \<Rightarrow> addr \<Rightarrow> sys \<Rightarrow> sys) \<Rightarrow> (word32 \<Rightarrow> sys \<Rightarrow> sys) \<Rightarrow> sys \<Rightarrow> sys \<Rightarrow> bool"
  for core_word exit_call tick_hook where
  create: "fresh_task s (ef_r0 frame) \<Longrightarrow> scheduler_create_svc frame s = Some (fr, s') \<Longrightarrow>
    kstep core_word exit_call tick_hook s s'"
| yield: "scheduler_yield_svc frame s = Some (fr, s') \<Longrightarrow> kstep core_word exit_call tick_hook s s'"
| suspend: "current_task (this s) \<noteq> 0 \<Longrightarrow>
    sf_r0 sframe = current_task (this s) \<or> state_of s (sf_r0 sframe) \<noteq> TASK_RUNNING \<Longrightarrow>
    scheduler_suspend_svc sframe s = Some (sfr, s') \<Longrightarrow> kstep core_word exit_call tick_hook s s'"
| resume: "scheduler_resume_svc frame s = Some (fr, s') \<Longrightarrow> kstep core_word exit_call tick_hook s s'"
| wait: "current_task (this s) \<noteq> 0 \<Longrightarrow> wait_ok sframe s \<Longrightarrow>
    scheduler_wait_svc sframe s = Some (sfr, s') \<Longrightarrow> kstep core_word exit_call tick_hook s s'"
| wake: "ef_r0 frame \<noteq> 0 \<Longrightarrow> f_marker (futex_of s (ef_r0 frame)) = SCHEDULER_FUTEX_MARKER \<Longrightarrow>
    owner_ok s (ef_r0 frame) (mem s (f_value (futex_of s (ef_r0 frame)))) \<Longrightarrow>
    scheduler_wake_svc frame s = Some (fr, s') \<Longrightarrow> kstep core_word exit_call tick_hook s s'"
| terminate: "ef_r0 frame = current_task (this s) \<or> state_of s (ef_r0 frame) \<noteq> TASK_RUNNING \<Longrightarrow>
    scheduler_terminate_svc exit_call frame s = Some (fr, s') \<Longrightarrow> kstep core_word exit_call tick_hook s s'"
| priority: "scheduler_priority_svc frame s = Some (fr, s') \<Longrightarrow> kstep core_word exit_call tick_hook s s'"
| switch: "\<forall>env\<in>set envs. idle_ok env \<Longrightarrow>
    scheduler_switch core_word exit_call envs sframe s = Some (r, s') \<Longrightarrow> kstep core_word exit_call tick_hook s s'"
| tick: "kstep core_word exit_call tick_hook s (scheduler_tick tick_hook s)"
| isr_wake: "is_interrupt_context s \<Longrightarrow> f AND 1 = 0 \<Longrightarrow> scheduler_futex_wake frame f all s = Some (r, s') \<Longrightarrow>
    kstep core_word exit_call tick_hook s s'"
| interrupt: "kstep core_word exit_call tick_hook s (s\<lparr>ipsr := n\<rparr>)"
| user: "kstep core_word exit_call tick_hook s (s\<lparr>mem := m\<rparr>)"
| other_core: "c < num_cores s \<Longrightarrow> kstep core_word exit_call tick_hook s (s\<lparr>this_core := c\<rparr>)"

text \<open>The hooks of the personality: exit handlers and the tick hook.\<close>

definition tick_hook_ok :: "(word32 \<Rightarrow> sys \<Rightarrow> sys) \<Rightarrow> bool" where
  "tick_hook_ok h \<longleftrightarrow> (\<forall>n. client_only (h n) \<and> (\<forall>s. slots_ok s \<longrightarrow> slots_ok (h n s)))"

lemma scheduler_tick_inv:
  assumes "kinv s" and h: "tick_hook_ok tick_hook"
  shows "kinv (scheduler_tick tick_hook s)"
proof -
  have c: "client_only (tick_hook n)" "slots_ok s' \<Longrightarrow> slots_ok (tick_hook n s')" for n s'
    using h by (auto simp: tick_hook_ok_def)
  show ?thesis
    using assms(1)
    by (auto simp: scheduler_tick_def Let_def kinv_def client_onlyD [OF c(1)] c(2) inv_but_core slots_ok_core)
qed

lemma owner_mask: "f AND 1 = 0 \<Longrightarrow> (f OR of_bool b) AND - 2 = f" for f :: word32
proof -
  assume a: "f AND 1 = 0"
  have "bit ((f OR of_bool b) AND NOT 1) n = bit f n" if "n < 32" for n
    using a that by (cases n) (auto simp: bit_simps, metis bit_0 and_one_eq odd_iff_mod_2_eq_one even_iff_mod_2_eq_zero)
  then have "(f OR of_bool b) AND NOT 1 = f" by (intro bit_word_eqI) simp
  then show ?thesis by simp
qed

lemma defer_wake_inv:
  assumes "kinv s" and "f_flags (futex_of s (w AND NOT 1)) AND PI_OWNER = 0"
  shows "kinv (snd (defer_wake w is s))"
  using assms
proof (induction "is" arbitrary: s)
  case Nil
  then show ?case by (simp add: kinv_def slots_ok_def)
next
  case (Cons i "is")
  have "slots_ok (core_upd (this_core s) (\<lambda>c. c\<lparr>deferred_wake := (deferred_wake c)[i := w],
      given_wake_counter := given_wake_counter c + 1\<rparr>) s)"
    using Cons.prems by (auto simp: kinv_def slots_ok_def dest!: set_update_subset_insert [THEN subsetD])
  then show ?case using Cons by (auto simp: Let_def kinv_def inv_but_core)
qed


text \<open>Every step keeps the invariant.\<close>

lemma kstep_inv:
  assumes h: "hook_ok exit_call" "tick_hook_ok tick_hook" and k: "kinv s" and st: "kstep core_word exit_call tick_hook s s'"
  shows "kinv s'"
proof -
  have i: "sched_inv s" and l: "\<not> spin_held s" and ss: "scheduler_set s" and sl: "slots_ok s"
    using k by (auto simp: kinv_def)
  from st show ?thesis
  proof cases
    case (create frame fr)
    then show ?thesis
      using returnsD [OF scheduler_create_svc_inv [OF i l ss create(1)] create(2)]
        kinv_frame [OF k scheduler_create_svc_frame] by auto
  next
    case (yield frame fr)
    then show ?thesis
      using kinv_frame [OF k scheduler_yield_svc_frame] i l by (auto simp: scheduler_yield_svc_def)
  next
    case (suspend sframe sfr)
    then show ?thesis
      using returnsD [OF scheduler_suspend_svc_inv [OF i l suspend(1,2)] suspend(3)]
        kinv_frame [OF k scheduler_suspend_svc_frame] by auto
  next
    case (resume frame fr)
    then show ?thesis
      using returnsD [OF scheduler_resume_svc_inv [OF i l] resume]
        kinv_frame [OF k scheduler_resume_svc_frame] by auto
  next
    case (wait sframe sfr)
    then show ?thesis
      using returnsD [OF scheduler_wait_svc_inv [OF i l wait(1,2)] wait(3)]
        kinv_frame [OF k scheduler_wait_svc_frame] by auto
  next
    case (wake frame fr)
    then show ?thesis
      using returnsD [OF scheduler_wake_svc_inv [OF i l refl wake(1,2,3)] wake(4)]
        kinv_frame [OF k scheduler_wake_svc_frame] by auto
  next
    case (terminate frame fr)
    then show ?thesis
      using returnsD [OF scheduler_terminate_svc_inv [OF i l terminate(1) hook_okD(1) [OF h(1)]] terminate(2)]
        scheduler_terminate_svc_frame [OF h(1) sl terminate(2)] k
      by (auto simp: kinv_def same_machine_def)
  next
    case (priority frame fr)
    then show ?thesis
      using returnsD [OF scheduler_priority_svc_inv [OF i l] priority]
        kinv_frame [OF k scheduler_priority_svc_frame] by auto
  next
    case (switch envs sframe r)
    show ?thesis
    proof (cases "current_task (this s) = 0 \<or> \<not> locked (sched s) <s 0")
      case True
      note w = scheduler_switch_weaken [OF switch(2) kinv_switch_ok [OF k] True]
      show ?thesis
        using returnsD [OF scheduler_switch_inv [OF kinv_switch_ok [OF k] h(1) switch(1) True] w] k
        by (auto simp: kinv_def same_machine_def)
    next
      case False
      have "sched_inv (set_cur (current_task (this s)) (set_cur 0 s))"
        using inv_but_cong [of "set_cur (current_task (this s)) (set_cur 0 s)" s "{}"] i by simp
      then have "sched_inv (set_cur (current_task (this s)) (set_cur 0 (s\<lparr>spin_held := True\<rparr>)))"
        using inv_but_cong [of "set_cur (current_task (this s)) (set_cur 0 (s\<lparr>spin_held := True\<rparr>))"
          "set_cur (current_task (this s)) (set_cur 0 s)" "{}"] by simp
      then show ?thesis
        using scheduler_switch_locked [OF kinv_switch_ok [OF k] refl, of core_word exit_call envs sframe] False switch(2) k
        by (auto simp: kinv_def)
    qed
  next
    case tick
    then show ?thesis using scheduler_tick_inv [OF k h(2)] by simp
  next
    case (isr_wake f frame all r)
    have m: "(f OR of_bool all) AND - 2 = f" by (rule owner_mask [OF isr_wake(2)])
    show ?thesis
    proof (cases "has_flag (f_flags (futex_of s f)) PI_OWNER")
      case True
      then show ?thesis
        using isr_wake(1,3) k slots_ok_cong [of s' s]
        by (auto simp: scheduler_futex_wake_def bind_eq_Some_conv kinv_def)
    next
      case False
      have "kinv (snd (defer_wake (f OR of_bool all) [0..<SCHEDULER_MAX_DEFERED_WAKE] s))"
        by (rule defer_wake_inv [OF k]) (use False m in simp)
      moreover have "defer_wake (f OR of_bool all) [0..<SCHEDULER_MAX_DEFERED_WAKE] s = (r, s')"
        using isr_wake(1,3) False by (auto simp: scheduler_futex_wake_def bind_eq_Some_conv)
      ultimately show ?thesis by simp
    qed
  next
    case (interrupt n)
    then show ?thesis using k inv_but_cong [of s' s "{}"] slots_ok_cong [of s' s] by (auto simp: kinv_def)
  next
    case (user m)
    then show ?thesis using k slots_ok_cong [of s' s] by (auto simp: kinv_def)
  next
    case (other_core c)
    then show ?thesis using k inv_but_cong [of s' s "{}"] slots_ok_cong [of s' s] by (auto simp: kinv_def)
  qed
qed

end
