(* ===== verification/Sched_Props.thy ===== *)
theory Sched_Props
  imports Sched_Steps
begin

text \<open>
  The properties of the scheduler, each with a concrete instance: safety of every reachable
  state, the choice of the context switch, wait and wake of futexes, timers, wake ups from
  interrupt handlers, critical sections and the errors of calls on dead tasks.
\<close>

section \<open>A sample system\<close>

text \<open>
  Core 0 runs task 0x100, core 1 is idle; task 0x200 is ready and task 0x300 waits for futex
  0x1000, whose word is at 0x2000, until tick 50.
\<close>

definition zero_frame :: scheduler_frame where
  "zero_frame = \<lparr>sf_exec_return = 0, sf_control = 0, sf_r4 = 0, sf_r5 = 0, sf_r6 = 0, sf_r7 = 0,
     sf_r8 = 0, sf_r9 = 0, sf_r10 = 0, sf_r11 = 0, sf_r0 = 0, sf_r1 = 0, sf_r2 = 0, sf_r3 = 0,
     sf_r12 = 0, sf_lr = 0, sf_pc = 0, sf_psr = 0\<rparr>"

definition zero_eframe :: exception_frame where
  "zero_eframe = \<lparr>ef_r0 = 0, ef_r1 = 0, ef_r2 = 0, ef_r3 = 0, ef_r12 = 0, ef_lr = 0, ef_pc = 0, ef_psr = 0\<rparr>"

definition sample_task :: "task_state \<Rightarrow> word32 \<Rightarrow> word32 \<Rightarrow> queue_id option \<Rightarrow> task" where
  "sample_task st p core q = \<lparr>psp = zero_frame, tls = 0, stack_marker = 0, t_state = st, t_core = core,
     t_affinity = UINT32_MAX, base_priority = p, current_priority = p, t_timer_expires = 50,
     current_queue = q, t_context = 0, exit_handler = 0, t_flags = 0, t_marker = SCHEDULER_TASK_MARKER\<rparr>"

definition boot_core :: core_local where
  "boot_core = \<lparr>scheduler_initial_frame = None, current_task = 0, slice_expires = INT32_MAX, c_ticks = 0,
     deferred_wake = [0, 0, 0, 0, 0, 0, 0, 0], taken_wake_counter = 0, given_wake_counter = 0, c_tls = 0,
     pendsv = False\<rparr>"

text \<open>The memory at power up, all zero.\<close>

definition boot_sys :: sys where
  "boot_sys = \<lparr>scheduler_set = False,
     sched = \<lparr>tls_size = 0, slice_duration = 0, tasks = [], timers = [], timer_expires = 0, running = 0,
       locked = 0, critical = 0, critical_counter = 0, s_marker = 0\<rparr>,
     task_of = (\<lambda>_. (sample_task TASK_TERMINATED 0 0 None)\<lparr>t_timer_expires := 0, t_marker := 0\<rparr>),
     futex_of = (\<lambda>_. \<lparr>f_value = 0, f_flags = 0, f_marker = 0\<rparr>),
     queues = (\<lambda>_. []), owned = (\<lambda>_. []), mem = (\<lambda>_. 0), cores = (\<lambda>_. boot_core), this_core = 0,
     num_cores = 2, ipsr = 0, primask = False, spin_held = False, errno = 0\<rparr>"

definition sample_sys :: sys where
  "sample_sys = \<lparr>scheduler_set = True,
     sched = \<lparr>tls_size = 0, slice_duration = INT32_MAX, tasks = [0x100, 0x200, 0x300], timers = [0x300],
       timer_expires = 50, running = 1, locked = 0, critical = UINT32_MAX, critical_counter = 0,
       s_marker = SCHEDULER_MARKER\<rparr>,
     task_of = (\<lambda>_. sample_task TASK_TERMINATED 0 UINT32_MAX None)
       (0x100 := sample_task TASK_RUNNING 20 0 None,
        0x200 := sample_task TASK_READY 20 UINT32_MAX (Some ReadyQueue),
        0x300 := sample_task TASK_BLOCKED 5 UINT32_MAX (Some (Waiters 0x1000))),
     futex_of = (\<lambda>_. \<lparr>f_value = 0x2000, f_flags = 0, f_marker = SCHEDULER_FUTEX_MARKER\<rparr>),
     queues = (\<lambda>_. [])(ReadyQueue := [0x200], Waiters 0x1000 := [0x300]), owned = (\<lambda>_. []), mem = (\<lambda>_. 0),
     cores = (\<lambda>_. boot_core)(0 := boot_core\<lparr>current_task := 0x100\<rparr>), this_core = 0,
     num_cores = 2, ipsr = 0, primask = False, spin_held = False, errno = 0\<rparr>"

lemma sample_inv: "sched_inv sample_sys"
  by (auto simp: inv_but_def queues_wf_def timers_wf_def tasks_wf_def placed_def current_ok_def sample_sys_def
      closest_timer_def sample_task_def boot_core_def)

lemma sample_kinv: "kinv sample_sys"
  using sample_inv
  by (auto simp: kinv_def slots_ok_def sample_sys_def boot_core_def)

section \<open>Start-up\<close>

definition at_boot :: "sys \<Rightarrow> bool" where
  "at_boot s \<longleftrightarrow> (\<forall>t. current_queue (task_of s t) = None) \<and> (\<forall>f. queues s (Waiters f) = []) \<and>
    (\<forall>c. \<not> c < num_cores s \<longrightarrow> current_task (cores s c) = 0 \<and>
       deferred_wake (cores s c) = replicate SCHEDULER_MAX_DEFERED_WAKE 0) \<and>
    \<not> spin_held s \<and> this_core s < num_cores s"

lemma boot_sys_at_boot: "at_boot boot_sys"
  by (simp add: at_boot_def boot_sys_def sample_task_def boot_core_def numeral_eq_Suc)

lemma scheduler_init_kinv:
  assumes "at_boot s"
  shows "kinv (snd (scheduler_init True n s))"
proof -
  let ?s = "snd (scheduler_init True n s)"
  have q: "queues ?s q = []" for q
    using assms by (cases q) (auto simp: at_boot_def scheduler_init_def Let_def)
  have c: "current_task (cores ?s c) = 0" "deferred_wake (cores ?s c) = replicate SCHEDULER_MAX_DEFERED_WAKE 0" for c
    using assms by (auto simp: at_boot_def scheduler_init_def Let_def reset_core_def scheduler_num_cores_def)
  have "sched_inv ?s"
    using assms by (auto simp: inv_but_def queues_wf_def timers_wf_def tasks_wf_def q c)
      (auto simp: scheduler_init_def Let_def closest_timer_def at_boot_def)
  moreover have "slots_ok ?s" by (simp add: slots_ok_def c)
  ultimately show ?thesis
    using assms by (simp add: kinv_def scheduler_init_def Let_def at_boot_def)
qed

lemma no_hook: "hook_ok (\<lambda>_ _ s. s)" "tick_hook_ok (\<lambda>_ s. s)"
  by (simp_all add: hook_ok_def tick_hook_ok_def client_only_def)

section \<open>Safety\<close>

text \<open>
  C1. The invariant of the scheduler: in every state reached from a freshly initialised system by
  system calls, context switches, ticks and interrupt wake ups, in any order and on any core,
  all queues are in priority order, each task is linked exactly where its state says, each
  core runs at most one task and no task runs on two cores, the timers are in order, and the
  spin lock is free.
\<close>

theorem scheduler_invariant:
  assumes "hook_ok exit_call" and "tick_hook_ok tick_hook" and "at_boot s0"
    and "rtranclp (kstep core_word exit_call tick_hook) (snd (scheduler_init True n s0)) s"
  shows "kinv s"
  using assms(4) by (induction rule: rtranclp_induct)
    (auto intro: scheduler_init_kinv [OF assms(3)] kstep_inv [OF assms(1,2)])

theorem scheduler_invariant_witness:
  "kinv (scheduler_tick (\<lambda>_ s. s) (snd (scheduler_init True 0 boot_sys)))"
  by (rule scheduler_invariant [OF no_hook boot_sys_at_boot]) (rule r_into_rtranclp, rule kstep.tick)

text \<open>
  C2. No assertion of a system call handler or of the context switch ever fails, the spin lock is
  never taken twice and every loop ends: in a state that satisfies the invariant each of them
  runs to its end if its caller meets its obligations. These are: a task that is created is
  new to the scheduler; suspend and wait are called by a running task; a task that is suspended
  or terminated does not run on another core; the futex of a wait or a wake is initialised and,
  if it inherits priorities, its word holds its owner; and what happens while a core sleeps in
  the switch keeps the invariant, and the word that the assertion of the idle hook reads is not 0.
\<close>

theorem handlers_return:
  assumes "hook_ok exit_call" and "kinv s"
  shows "(fresh_task s (ef_r0 fr) \<longrightarrow> scheduler_create_svc fr s \<noteq> None) \<and>
    scheduler_yield_svc fr s \<noteq> None \<and>
    (current_task (this s) \<noteq> 0 \<and> (sf_r0 sf = current_task (this s) \<or> state_of s (sf_r0 sf) \<noteq> TASK_RUNNING)
      \<longrightarrow> scheduler_suspend_svc sf s \<noteq> None) \<and>
    scheduler_resume_svc fr s \<noteq> None \<and>
    (current_task (this s) \<noteq> 0 \<and> wait_ok sf s \<longrightarrow> scheduler_wait_svc sf s \<noteq> None) \<and>
    (ef_r0 fr \<noteq> 0 \<and> f_marker (futex_of s (ef_r0 fr)) = SCHEDULER_FUTEX_MARKER \<and>
       owner_ok s (ef_r0 fr) (mem s (f_value (futex_of s (ef_r0 fr)))) \<longrightarrow> scheduler_wake_svc fr s \<noteq> None) \<and>
    (ef_r0 fr = current_task (this s) \<or> state_of s (ef_r0 fr) \<noteq> TASK_RUNNING
      \<longrightarrow> scheduler_terminate_svc exit_call fr s \<noteq> None) \<and>
    scheduler_priority_svc fr s \<noteq> None \<and>
    ((\<forall>env\<in>set envs. idle_ok env) \<and> idle_word_ok core_word envs s
      \<longrightarrow> scheduler_switch core_word exit_call envs sf s \<noteq> None)"
proof -
  have i: "sched_inv s" and l: "\<not> spin_held s" and ss: "scheduler_set s"
    using assms(2) by (auto simp: kinv_def)
  have r: "m \<noteq> None" if "returns m P" for m :: "'a option" and P
    using that by (auto simp: returns_def)
  have "scheduler_switch core_word exit_call envs sf s \<noteq> None"
    if e: "\<forall>env\<in>set envs. idle_ok env" "idle_word_ok core_word envs s"
  proof (cases "current_task (this s) = 0 \<or> \<not> locked (sched s) <s 0")
    case True
    show ?thesis
      unfolding scheduler_switch_word [OF kinv_switch_ok [OF assms(2)] assms(1) e True]
      by (rule r [OF scheduler_switch_inv [OF kinv_switch_ok [OF assms(2)] assms(1) e(1) True]])
  next
    case False
    then show ?thesis using scheduler_switch_locked [OF kinv_switch_ok [OF assms(2)] refl] by simp
  qed
  moreover have "scheduler_terminate_svc exit_call fr s \<noteq> None"
    if "ef_r0 fr = current_task (this s) \<or> state_of s (ef_r0 fr) \<noteq> TASK_RUNNING"
    by (rule r [OF scheduler_terminate_svc_inv [OF i l that]]) (rule hook_okD(1) [OF assms(1)])
  moreover have "scheduler_yield_svc fr s \<noteq> None" by (simp add: scheduler_yield_svc_def)
  ultimately show ?thesis
    using r [OF scheduler_create_svc_inv [OF i l ss]] r [OF scheduler_suspend_svc_inv [OF i l]]
      r [OF scheduler_resume_svc_inv [OF i l]] r [OF scheduler_wait_svc_inv [OF i l]]
      r [OF scheduler_wake_svc_inv [OF i l refl]] r [OF scheduler_priority_svc_inv [OF i l]]
    by blast
qed

text \<open>Core 1 of the sample system, with nothing to run and the frame it was started with.\<close>

definition idle_sys :: sys where
  "idle_sys = sample_sys\<lparr>this_core := 1, queues := (queues sample_sys)(ReadyQueue := []),
     task_of := (task_of sample_sys)(0x200 := sample_task TASK_SUSPENDED 20 UINT32_MAX None),
     cores := (cores sample_sys)(1 := boot_core\<lparr>scheduler_initial_frame := Some zero_frame\<rparr>)\<rparr>"

lemma idle_kinv: "kinv idle_sys"
  by (auto simp: kinv_def slots_ok_def inv_but_def queues_wf_def timers_wf_def tasks_wf_def placed_def current_ok_def
      idle_sys_def sample_sys_def closest_timer_def sample_task_def boot_core_def)

text \<open>The linker put \<open>scheduler_initial_frame\<close> first: the word is the address of the frame.\<close>

definition frame_first :: "sys \<Rightarrow> word32" where
  "frame_first s = (if scheduler_initial_frame (this s) = None then 0 else 0x20001000)"

lemma idle_id: "idle_ok id" by (simp add: idle_ok_def same_machine_def)

lemma frame_first_ok: "scheduler_initial_frame (this s) \<noteq> None \<Longrightarrow> idle_word_ok frame_first [id] s"
  by (auto simp: idle_word_ok_def frame_first_def)

theorem handlers_return_witness:
  "scheduler_resume_svc (zero_eframe\<lparr>ef_r0 := 0x300\<rparr>) sample_sys \<noteq> None \<and>
   scheduler_suspend_svc (zero_frame\<lparr>sf_r0 := 0x100\<rparr>) sample_sys \<noteq> None \<and>
   scheduler_wait_svc (zero_frame\<lparr>sf_r0 := 0x1000\<rparr>) sample_sys \<noteq> None \<and>
   scheduler_wake_svc (zero_eframe\<lparr>ef_r0 := 0x1000\<rparr>) sample_sys \<noteq> None \<and>
   scheduler_terminate_svc (\<lambda>_ _ s. s) (zero_eframe\<lparr>ef_r0 := 0x300\<rparr>) sample_sys \<noteq> None \<and>
   scheduler_switch frame_first (\<lambda>_ _ s. s) [id] zero_frame idle_sys \<noteq> None"
proof -
  have "scheduler_initial_frame (this idle_sys) \<noteq> None" by (simp add: idle_sys_def)
  note w = frame_first_ok [OF this]
  have f: "f_marker (futex_of sample_sys 0x1000) = SCHEDULER_FUTEX_MARKER" "f_flags (futex_of sample_sys 0x1000) = 0"
    "current_task (this sample_sys) = 0x100" "state_of sample_sys 0x300 = TASK_BLOCKED"
    by (simp_all add: sample_sys_def sample_task_def boot_core_def)
  show ?thesis
    using handlers_return [OF no_hook(1) sample_kinv, of "zero_eframe\<lparr>ef_r0 := 0x300\<rparr>"
        "zero_frame\<lparr>sf_r0 := 0x100\<rparr>" "[]"]
      handlers_return [OF no_hook(1) sample_kinv, of "zero_eframe\<lparr>ef_r0 := 0x1000\<rparr>"
        "zero_frame\<lparr>sf_r0 := 0x1000\<rparr>" "[]"]
      handlers_return [OF no_hook(1) idle_kinv, of zero_eframe zero_frame "[id]" frame_first] w idle_id f
    by (simp add: wait_ok_def owner_ok_def)
qed

text \<open>
  The assertion of the idle hook does not test what it means to. If the linker puts
  \<open>current_task\<close> first, the hook fails exactly because the core has no task; with any
  other word that is not 0 it passes, also when the core has been given a task meanwhile.
\<close>

theorem idle_assertion_reads_first_word:
  "(turn_ok s \<and> idle_ok env \<longrightarrow> scheduler_idle_hook (\<lambda>s. current_task (this s)) env s = None) \<and>
    (\<not> spin_held (env (s\<lparr>spin_held := False\<rparr>)) \<longrightarrow> scheduler_idle_hook (\<lambda>_. 1) env s \<noteq> None)"
proof -
  have "current_task (this (woken_up env s)) = 0" if "turn_ok s" "idle_ok env"
    using scheduler_idle_hook_eq(2) [OF that] by (simp add: turn_ok_def)
  then show ?thesis
    by (auto simp: scheduler_idle_hook_eq(1) check_def) (simp add: scheduler_idle_hook_def spin_lock_eq check_def Let_def)
qed

section \<open>The context switch\<close>

text \<open>
  With the scheduler locked a context switch keeps the running task: it returns the frame it
  was given, and neither the queues nor any task changes.
\<close>

theorem locked_switch_keeps_task:
  assumes "kinv s" and "current_task (this s) \<noteq> 0" and "locked (sched s) <s 0"
  shows "\<exists>s'. scheduler_switch core_word exit_call envs frame s = Some (Running frame, s') \<and>
    current_task (this s') = current_task (this s) \<and> task_of s' = task_of s \<and> queues s' = queues s \<and>
    sched s' = sched s \<and> mem s' = mem s \<and> \<not> spin_held s'"
  using scheduler_switch_locked [OF kinv_switch_ok [OF assms(1)] refl assms(2,3), of core_word exit_call envs frame] by simp

theorem locked_switch_keeps_task_witness:
  "\<exists>s'. scheduler_switch (\<lambda>_. 0) (\<lambda>_ _ s. s) [] zero_frame
      (sched_upd (\<lambda>c. c\<lparr>locked := - 1\<rparr>) sample_sys) = Some (Running zero_frame, s') \<and>
    current_task (this s') = 0x100"
proof -
  let ?s = "sched_upd (\<lambda>c. c\<lparr>locked := - 1\<rparr>) sample_sys"
  have "sched_inv ?s"
    by (auto simp: inv_but_def queues_wf_def timers_wf_def tasks_wf_def placed_def current_ok_def sample_sys_def
      closest_timer_def sample_task_def boot_core_def)
  then have "kinv ?s" using sample_kinv by (simp add: kinv_def)
  from locked_switch_keeps_task [OF this, of "\<lambda>_. 0" "\<lambda>_ _ s. s" "[]" zero_frame] show ?thesis
    by (auto simp: sample_sys_def boot_core_def)
qed

lemma take_first_append:
  "take_first P (xs @ ys) = (case take_first P xs of None \<Rightarrow> take_first P ys | Some x \<Rightarrow> Some x)"
  by (induction xs) auto

lemma turn_without_events:
  assumes t: "turn_ok p" and d: "taken_wake_counter (this p) = given_wake_counter (this p)"
    and e: "scheduler_get_ticks p < timer_expires (sched p)"
    and v: "take_first (eligible p (this_core p)) (queues p ReadyQueue) = Some v"
    and c: "scheduler_check_stack v p"
  shows "switch_turn exit_call p = Some (v, qrem v p)"
proof -
  have i: "sched_inv p" and tc: "this_core p \<noteq> UINT32_MAX" using t by (auto simp: turn_ok_def)
  have def_wakes: "deferred_wakes [0..<SCHEDULER_MAX_DEFERED_WAKE] p = Some p"
    using d by (simp add: upt_rec)
  have "timer_expires (sched p) = closest_timer p" using inv_butD(2) [OF i] by (simp add: timers_wf_def)
  then have "scheduler_timer_pop p = Some (0, p)"
    using e by (auto simp: scheduler_timer_pop_def closest_timer_def split: list.split)
  then have exp_timers: "expire_timers (Suc n) p = Some p" for n by simp
  have pop: "sched_queue_pop ReadyQueue (this_core p) p = Some (v, qrem v p)"
    using sched_queue_pop_core [OF tc inv_butD(1,3) [OF i]] v by simp
  have "v \<in> set (queues p ReadyQueue)" using v by (auto dest: take_first_SomeD)
  note r = ready_queueD [OF i this]
  have "scheduler_check_stack v (qrem v p)" using c by (simp add: scheduler_check_stack_def)
  then show ?thesis
    unfolding switch_turn_def def_wakes exp_timers Option.bind.simps scheduler_current_core_def pop
    using r by (simp add: exp_timers)
qed

lemma take_first_prefix:
  "take_first P xs = Some v \<Longrightarrow> f v \<le> b \<Longrightarrow> take_first P (filter (\<lambda>y. f y \<le> b) xs @ ys) = Some v"
  by (induction xs) (auto split: if_splits)

lemma preempted_unchanged:
  "eligible (preempted frame s) = eligible s" "scheduler_check_stack w (preempted frame s) = scheduler_check_stack w s"
  "this_core (preempted frame s) = this_core s" "sched (preempted frame s) = sched s"
  "scheduler_get_ticks (preempted frame s) = scheduler_get_ticks s" "mem (preempted frame s) = mem s"
  "taken_wake_counter (cores (preempted frame s) c) = taken_wake_counter (cores s c)"
  "given_wake_counter (cores (preempted frame s) c) = given_wake_counter (cores s c)"
  "w \<noteq> current_task (this s) \<Longrightarrow> task_of (preempted frame s) w = task_of s w"
  "prio (preempted frame s) w = prio s w"
  "current_task (this s) \<noteq> 0 \<Longrightarrow> psp (task_of (preempted frame s) (current_task (this s))) = frame"
  by (auto simp: preempted_def Let_def scheduler_get_ticks_def eligible_def fun_eq_iff scheduler_check_stack_def)

lemma preempted_queue:
  assumes "sched_inv s" and "current_task (this s) = t" and "t \<noteq> 0"
  shows "queues (preempted frame s) ReadyQueue = filter (\<lambda>y. prio s y \<le> prio s t) (queues s ReadyQueue) @
    t # filter (\<lambda>y. prio s t < prio s y) (queues s ReadyQueue)"
proof -
  have "queues (preempted frame s) ReadyQueue = insert_before_first (\<lambda>n. prio s n > prio s t) t (queues s ReadyQueue)"
    using assms by (auto simp: preempted_def Let_def intro!: insert_before_first_cong)
  then show ?thesis using insert_before_first_fifo [OF queues_wfD(2) [OF inv_butD(1) [OF assms(1)]]] by simp
qed

text \<open>With no event to handle the first task of the queue that may run on the core runs at once.\<close>

lemma switch_at_once:
  fixes s :: sys and frame :: scheduler_frame
  defines "p \<equiv> preempted frame s"
  assumes k: "kinv s" and l: "current_task (this s) = 0 \<or> \<not> locked (sched s) <s 0"
    and d: "taken_wake_counter (this s) = given_wake_counter (this s)"
    and e: "scheduler_get_ticks s < timer_expires (sched s)"
    and v: "take_first (eligible s (this_core s)) (queues p ReadyQueue) = Some v" and cs: "scheduler_check_stack v s"
  shows "\<exists>s'. scheduler_switch core_word exit_call envs frame s = Some (Running (psp (task_of p v)), s') \<and>
    current_task (this s') = v \<and> queues s' = queues (qrem v p) \<and> (\<forall>w. psp (task_of s' w) = psp (task_of p w))"
proof -
  note so = kinv_switch_ok [OF k]
  note pu = preempted_unchanged [where frame = frame and s = s]
  have turn: "turn_ok p" unfolding p_def by (rule preempted_turn_ok(1) [OF so])
  have pi: "sched_inv p" "current_task (this p) = 0" "slots_ok p" using turn by (auto simp: turn_ok_def)
  have pv: "take_first (eligible p (this_core p)) (queues p ReadyQueue) = Some v" using v by (simp add: p_def pu(1,3))
  have cs': "scheduler_check_stack v p" using cs by (simp add: p_def pu(2))
  have tr: "switch_turn exit_call p = Some (v, qrem v p)"
    by (rule turn_without_events [OF turn _ _ pv cs']) (use d e in \<open>simp_all add: p_def pu(3-5,7,8)\<close>)
  have "v \<in> set (queues p ReadyQueue)" using pv by (auto dest: take_first_SomeD)
  then have v0: "v \<noteq> 0" using ready_queueD(2) [OF pi(1)] by blast
  have lp: "switch_loop core_word exit_call envs p = Some (Picked v, qrem v p)"
    using tr v0 by (simp add: switch_loop.simps)
  have "returns (switch_to (current_task (this s)) v (qrem v p)) (\<lambda>(f, s'). runs_best v s' \<and> queues s' = queues (qrem v p) \<and>
      f = psp (task_of p v) \<and> (\<forall>w. psp (task_of s' w) = psp (task_of p w)))"
    using switch_to_inv [OF pop_ready [OF pi(1) pv cs'], of "current_task (this s)"] pi
    by (auto simp: slots_ok_def elim!: returns_mono)
  then obtain s' where "switch_to (current_task (this s)) v (qrem v p) = Some (psp (task_of p v), s')"
    "current_task (this s') = v" "queues s' = queues (qrem v p)" "\<forall>w. psp (task_of s' w) = psp (task_of p w)"
    by (auto simp: returns_def runs_best_def)
  then show ?thesis
    using scheduler_switch_eq [OF so l, of core_word exit_call envs frame] lp by (simp add: p_def)
qed

text \<open>
  C3. What a context switch with the scheduler unlocked ends in. Either the core runs a task whose
  priority no ready task that may run on the core beats; the frame returned is the saved frame
  of that task, and every other core that runs something less important than a ready task it
  may run has a switch pending. Or the scheduler shuts down, only when no task that counts is
  left. Or the core is asleep with the lock free, only when there is a task that counts (or the
  core has no frame to shut down to) and either no ready task may run on the core, or the last
  turn took a task whose stack is broken and evicted it. When no wake up is deferred, no timer
  is due and the stacks of the ready tasks are sound, a core with a task to run, the old one
  included, runs a task: it neither sleeps nor shuts down.
\<close>

theorem switch_runs_best:
  assumes "kinv s" and "hook_ok exit_call" and "\<forall>env\<in>set envs. idle_ok env" and "idle_word_ok core_word envs s"
    and "current_task (this s) = 0 \<or> \<not> locked (sched s) <s 0"
  shows "\<exists>r s'. scheduler_switch core_word exit_call envs frame s = Some (r, s') \<and> kinv s' \<and>
    (case r of
       Running f \<Rightarrow> \<exists>t. t \<noteq> 0 \<and> current_task (this s') = t \<and> state_of s' t = TASK_RUNNING \<and>
         f = psp (task_of s' t) \<and> eligible s' (this_core s') t \<and>
         (\<forall>u\<in>set (queues s' ReadyQueue). eligible s' (this_core s') u \<longrightarrow> prio s' t \<le> prio s' u) \<and>
         others_kicked s'
     | Shutdown f \<Rightarrow> \<not> viable s' \<and> sf_r0 f = 0 \<and> scheduler_initial_frame (this s') = Some f
     | Waiting \<Rightarrow> current_task (this s') = 0 \<and> (viable s' \<or> scheduler_initial_frame (this s') = None) \<and>
         ((\<forall>u\<in>set (queues s' ReadyQueue). \<not> eligible s' (this_core s') u) \<or>
          just_evicted exit_call (s'\<lparr>spin_held := True\<rparr>))) \<and>
    (taken_wake_counter (this s) = given_wake_counter (this s) \<and> scheduler_get_ticks s < timer_expires (sched s) \<and>
     (\<forall>u\<in>insert (current_task (this s)) (set (queues s ReadyQueue)). scheduler_check_stack u s) \<and>
     (\<exists>u\<in>insert (current_task (this s)) (set (queues s ReadyQueue)). u \<noteq> 0 \<and> eligible s (this_core s) u) \<longrightarrow>
     (\<exists>f. r = Running f))"
proof -
  obtain r s' where r: "scheduler_switch core_word exit_call envs frame s = Some (r, s')" "sched_inv s'" "\<not> spin_held s'"
    "slots_ok s'" "same_machine s s'" "switched exit_call r s'"
    using scheduler_switch_inv [OF kinv_switch_ok [OF assms(1)] assms(2,3,5), of frame]
    by (auto simp: returns_def scheduler_switch_word [OF kinv_switch_ok [OF assms(1)] assms(2-5)])
  have k': "kinv s'" using r assms(1) by (auto simp: kinv_def same_machine_def)
  have "\<exists>f. r = Running f"
    if d: "taken_wake_counter (this s) = given_wake_counter (this s)" "scheduler_get_ticks s < timer_expires (sched s)"
      and c: "\<forall>u\<in>insert (current_task (this s)) (set (queues s ReadyQueue)). scheduler_check_stack u s"
      and u: "u \<in> insert (current_task (this s)) (set (queues s ReadyQueue))" "u \<noteq> 0" "eligible s (this_core s) u" for u
  proof -
    have i: "sched_inv s" using assms(1) by (simp add: kinv_def)
    have q: "set (queues (preempted frame s) ReadyQueue) = insert (current_task (this s)) (set (queues s ReadyQueue)) - {0}"
    proof (cases "current_task (this s) = 0")
      case True
      then show ?thesis using ready_queueD(2) [OF i] by (auto simp: preempted_def Let_def)
    next
      case False
      then show ?thesis using preempted_queue [OF i refl False] ready_queueD(2) [OF i] by auto
    qed
    have "take_first (eligible s (this_core s)) (queues (preempted frame s) ReadyQueue) \<noteq> None" using u q by auto
    then obtain v where v: "take_first (eligible s (this_core s)) (queues (preempted frame s) ReadyQueue) = Some v" by blast
    then have "scheduler_check_stack v s" using c q take_first_SomeD [OF v] by blast
    from switch_at_once [OF assms(1,5) d v this, of core_word exit_call envs] r(1) show ?thesis by auto
  qed
  with r k' show ?thesis
    by (intro exI [of _ r] exI [of _ s'])
      (cases r, auto simp: switched_def runs_best_def none_eligible_def)
qed

theorem switch_runs_best_witness:
  "\<exists>f s'. scheduler_switch (\<lambda>_. 0) (\<lambda>_ _ s. s) [] zero_frame sample_sys = Some (Running f, s') \<and> kinv s' \<and>
    current_task (this s') \<noteq> 0 \<and> f = psp (task_of s' (current_task (this s'))) \<and>
    state_of s' (current_task (this s')) = TASK_RUNNING"
proof -
  have e: "taken_wake_counter (this sample_sys) = given_wake_counter (this sample_sys)"
    "scheduler_get_ticks sample_sys < timer_expires (sched sample_sys)" "current_task (this sample_sys) = 0x100"
    "queues sample_sys ReadyQueue = [0x200]" "scheduler_check_stack 0x100 sample_sys" "scheduler_check_stack 0x200 sample_sys"
    "eligible sample_sys (this_core sample_sys) 0x100" "\<not> locked (sched sample_sys) <s 0"
    by (simp_all add: sample_sys_def boot_core_def scheduler_get_ticks_def scheduler_check_stack_def sample_task_def eligible_def)
  have w: "\<forall>env\<in>set []. idle_ok env" "idle_word_ok (\<lambda>_. 0) [] sample_sys"
    "current_task (this sample_sys) = 0 \<or> \<not> locked (sched sample_sys) <s 0"
    using e(8) by (simp_all add: idle_word_ok_def)
  have "\<forall>u\<in>insert (current_task (this sample_sys)) (set (queues sample_sys ReadyQueue)). scheduler_check_stack u sample_sys"
    "\<exists>u\<in>insert (current_task (this sample_sys)) (set (queues sample_sys ReadyQueue)). u \<noteq> 0 \<and> eligible sample_sys (this_core sample_sys) u"
    using e(3-7) by simp_all
  with switch_runs_best [OF sample_kinv no_hook(1) w, of zero_frame] e(1,2) show ?thesis
    by (elim exE conjE impE) auto
qed

text \<open>
  C28. Time sharing: when the running task is preempted or yields, no event is due and a ready
  task of the same priority may run on the core, the switch starts the first ready task that
  may run there, one of that priority if none is better; the preempted task goes into the ready
  queue behind all tasks of its priority and before those of lower priority, its context saved,
  and the rest of the queue keeps its order.
\<close>

theorem round_robin:
  assumes k: "kinv s" and cur: "current_task (this s) = t" "t \<noteq> 0"
    and l: "\<not> locked (sched s) <s 0"
    and d: "taken_wake_counter (this s) = given_wake_counter (this s)"
    and e: "scheduler_get_ticks s < timer_expires (sched s)"
    and u: "u \<in> set (queues s ReadyQueue)" "eligible s (this_core s) u" "prio s u = prio s t"
    and st: "\<forall>w\<in>set (queues s ReadyQueue). scheduler_check_stack w s"
  shows "\<exists>v s'. scheduler_switch core_word exit_call envs frame s = Some (Running (psp (task_of s v)), s') \<and>
    take_first (eligible s (this_core s)) (queues s ReadyQueue) = Some v \<and>
    current_task (this s') = v \<and> v \<noteq> t \<and> prio s v \<le> prio s t \<and>
    ((\<forall>w\<in>set (queues s ReadyQueue). eligible s (this_core s) w \<longrightarrow> prio s t \<le> prio s w) \<longrightarrow> prio s v = prio s t) \<and>
    queues s' ReadyQueue = filter (\<lambda>w. w \<noteq> v \<and> prio s w \<le> prio s t) (queues s ReadyQueue) @
      t # filter (\<lambda>w. prio s t < prio s w) (queues s ReadyQueue) \<and>
    psp (task_of s' t) = frame"
proof -
  define p where "p = preempted frame s"
  have i: "sched_inv s" using k by (simp add: kinv_def)
  have nt: "t \<notin> set (queues s ReadyQueue)" using ready_queueD(5) [OF i, of t] cur by auto
  note q = preempted_queue [OF i cur, of frame, folded p_def]
  obtain v where v: "take_first (eligible s (this_core s)) (queues s ReadyQueue) = Some v"
    using u by (cases "take_first (eligible s (this_core s)) (queues s ReadyQueue)") auto
  note vs = take_first_SomeD [OF v]
  have le: "prio s v \<le> prio s t"
    using take_first_sorted [OF queues_wfD(2) [OF inv_butD(1) [OF i]] v u(1,2)] u(3) by simp
  have vt: "v \<noteq> t" using nt vs by auto
  have "take_first (eligible s (this_core s)) (queues p ReadyQueue) = Some v"
    unfolding q by (rule take_first_prefix [where f = "prio s", OF v le])
  from switch_at_once [OF k _ d e this [unfolded p_def], of core_word exit_call envs] l st vs obtain s' where
    s': "scheduler_switch core_word exit_call envs frame s = Some (Running (psp (task_of p v)), s')"
    "current_task (this s') = v" "queues s' = queues (qrem v p)" "psp (task_of s' t) = psp (task_of p t)"
    by (auto simp: p_def)
  have f1: "filter (\<lambda>x. prio s x \<le> prio s t \<and> v \<noteq> x) (queues s ReadyQueue) =
      filter (\<lambda>w. w \<noteq> v \<and> prio s w \<le> prio s t) (queues s ReadyQueue)" by (rule filter_cong) auto
  have f2: "filter (\<lambda>x. prio s t < prio s x \<and> v \<noteq> x) (queues s ReadyQueue) =
      filter (\<lambda>w. prio s t < prio s w) (queues s ReadyQueue)" by (rule filter_cong) (use le in auto)
  have "queues s' ReadyQueue = filter (\<lambda>w. w \<noteq> v \<and> prio s w \<le> prio s t) (queues s ReadyQueue) @
      t # filter (\<lambda>w. prio s t < prio s w) (queues s ReadyQueue)"
    using s'(3) q vt by (simp add: f1 f2)
  moreover have "psp (task_of s' t) = frame" "psp (task_of p v) = psp (task_of s v)"
    using s'(4) preempted_unchanged(9) [of v s frame] preempted_unchanged(11) [of s frame] cur vt by (simp_all add: p_def)
  moreover have "prio s v = prio s t" if "\<forall>w\<in>set (queues s ReadyQueue). eligible s (this_core s) w \<longrightarrow> prio s t \<le> prio s w"
    using that le vs by auto
  ultimately show ?thesis using s'(1,2) v vt le by auto
qed

theorem round_robin_witness:
  "\<exists>s'. scheduler_switch (\<lambda>_. 0) (\<lambda>_ _ s. s) [] zero_frame sample_sys = Some (Running zero_frame, s') \<and>
    current_task (this s') = 0x200 \<and> queues s' ReadyQueue = [0x100]"
proof -
  have e: "current_task (this sample_sys) = 0x100" "\<not> locked (sched sample_sys) <s 0"
    "taken_wake_counter (this sample_sys) = given_wake_counter (this sample_sys)"
    "scheduler_get_ticks sample_sys < timer_expires (sched sample_sys)" "queues sample_sys ReadyQueue = [0x200]"
    "eligible sample_sys (this_core sample_sys) 0x200" "prio sample_sys 0x200 = prio sample_sys 0x100"
    "scheduler_check_stack 0x200 sample_sys" "psp (task_of sample_sys 0x200) = zero_frame"
    by (simp_all add: sample_sys_def boot_core_def sample_task_def eligible_def scheduler_get_ticks_def scheduler_check_stack_def)
  from round_robin [OF sample_kinv e(1) _ e(2-4), of "0x200" "\<lambda>_. 0" "\<lambda>_ _ s. s" "[]" zero_frame] e(5-9)
  show ?thesis by auto
qed

section \<open>Futexes\<close>

lemma wait_block_more:
  "wait_block f v ticks cur s = Some s' \<Longrightarrow> mem s' = mem s \<and>
    (ticks < SCHEDULER_WAIT_FOREVER \<longrightarrow>
      cur \<in> set (timers (sched s')) \<and> expires s' cur = scheduler_get_ticks s + ticks)"
  by (auto simp: wait_block_def futex_boost_owner_def sched_defs Let_def bind_eq_Some_conv split: if_splits)

lemma wait_svc_exact:
  assumes k: "kinv s" and c: "current_task (this s) = cur" "cur \<noteq> 0" and w: "wait_ok frame s"
  shows "\<exists>fr s'. scheduler_wait_svc frame s = Some (fr, s') \<and> kinv s' \<and> current_task (this s') = 0 \<and>
    sf_r0 (psp (task_of s' cur)) = 0 \<and>
    (let f = sf_r0 frame; a = f_value (futex_of s f)
     in if mem s a \<in> {sf_r1 frame, wait_word s frame}
        then state_of s' cur = TASK_BLOCKED \<and> cur \<in> set (queues s' (Waiters f)) \<and>
          mem s' = (mem s)(a := wait_word s frame) \<and>
          (sf_r2 frame < SCHEDULER_WAIT_FOREVER \<longrightarrow> cur \<in> set (timers (sched s')) \<and>
             expires s' cur = scheduler_get_ticks s + sf_r2 frame)
        else state_of s' cur = TASK_READY \<and> cur \<in> set (queues s' ReadyQueue) \<and> mem s' = mem s)"
proof -
  have i: "sched_inv s" and l: "\<not> spin_held s" using k by (auto simp: kinv_def)
  have o: "owner_ok s (sf_r0 frame) (wait_word s frame)"
    using w by (simp add: wait_ok_def owner_ok_def wait_word_def)
  note eq = scheduler_wait_svc_eq [OF i l c w]
  obtain fr s' where s': "scheduler_wait_svc frame s = Some (fr, s')" "sched_inv s'" "\<not> spin_held s'"
    using scheduler_wait_svc_inv [OF i l _ w] c by (auto simp: returns_def)
  have ki: "kinv s'" by (rule kinv_frame [OF k scheduler_wait_svc_frame [OF s'(1)] s'(2,3)])
  have qs: "t \<in> set (queues s' q) \<longleftrightarrow> current_queue (task_of s' t) = Some q" for t q
    by (rule queues_wfD(3) [OF inv_butD(1) [OF s'(2)]])
  show ?thesis
  proof (cases "wait_blocks frame s")
    case True
    obtain s1 where s1: "wait_block (sf_r0 frame) (wait_word s frame) (sf_r2 frame) cur
        (s\<lparr>spin_held := True, mem := (mem s)(f_value (futex_of s (sf_r0 frame)) := wait_word s frame)\<rparr>) = Some s1"
      "state_of s1 cur = TASK_BLOCKED" "current_queue (task_of s1 cur) = Some (Waiters (sf_r0 frame))"
      "this_core s1 = this_core s"
      using wait_block_inv [OF i c o, where b = True and ticks = "sf_r2 frame" and
          m = "(mem s)(f_value (futex_of s (sf_r0 frame)) := wait_word s frame)"] by (auto simp: returns_def)
    show ?thesis
      using s'(1) ki True eq s1 wait_block_more [OF s1(1)] qs
      by (auto simp: wait_blocks_def Let_def scheduler_get_ticks_def)
  next
    case False
    show ?thesis
      using s'(1) ki False eq qs by (auto simp: wait_blocks_def Let_def)
  qed
qed

text \<open>
  C4. A wait decides and blocks in one piece, so no wake up is lost: the caller blocks exactly
  when the word holds the expected value, with or without the contention bit the futex tracks,
  at the moment it is compared; then it is in the waiters queue, the word has the contention
  bit if tracked, and the timeout, if any, is armed. Otherwise the caller stays ready and the
  word is not written. In both cases the call returns 0 unless it is cancelled or times out.
\<close>

theorem wait_exact:
  assumes k: "kinv s" and c: "current_task (this s) = cur" "cur \<noteq> 0" and w: "wait_ok frame s"
  shows "\<exists>fr s'. scheduler_wait_svc frame s = Some (fr, s') \<and> kinv s' \<and> current_task (this s') = 0 \<and>
    sf_r0 (psp (task_of s' cur)) = 0 \<and>
    (let f = sf_r0 frame; a = f_value (futex_of s f)
     in if mem s a \<in> {sf_r1 frame, wait_word s frame}
        then state_of s' cur = TASK_BLOCKED \<and> cur \<in> set (queues s' (Waiters f)) \<and>
          mem s' = (mem s)(a := wait_word s frame) \<and>
          (sf_r2 frame < SCHEDULER_WAIT_FOREVER \<longrightarrow> cur \<in> set (timers (sched s')) \<and>
             expires s' cur = scheduler_get_ticks s + sf_r2 frame)
        else state_of s' cur = TASK_READY \<and> cur \<in> set (queues s' ReadyQueue) \<and> mem s' = mem s)"
  by (rule wait_svc_exact [OF k c w])

theorem wait_exact_witness:
  "\<exists>fr s'. scheduler_wait_svc (zero_frame\<lparr>sf_r0 := 0x1000, sf_r2 := 7\<rparr>) sample_sys = Some (fr, s') \<and>
    state_of s' 0x100 = TASK_BLOCKED \<and> 0x100 \<in> set (queues s' (Waiters 0x1000)) \<and>
    0x100 \<in> set (timers (sched s')) \<and> expires s' 0x100 = 7"
  using wait_exact [OF sample_kinv, of "0x100" "zero_frame\<lparr>sf_r0 := 0x1000, sf_r2 := 7\<rparr>"]
  by (auto simp: wait_ok_def owner_ok_def wait_word_def scheduler_get_ticks_def)
    (auto simp: sample_sys_def boot_core_def zero_frame_def scheduler_get_ticks_def)

text \<open>
  What the owner of a futex falls back to when it gives the futex up: its own priority, or that of
  the best task that waits for one of its other futexes.
\<close>

lemma highest_owned_owned [simp]: "highest_owned (s\<lparr>owned := w\<rparr>) h fs = highest_owned s h fs"
  by (induction fs arbitrary: h) (simp_all add: sched_queue_highest_priority_def cong: list.case_cong)

lemma highest_owned_le: "highest_owned s h fs \<le> h"
proof (induction fs arbitrary: h)
  case (Cons f fs)
  show ?case
    using Cons [of h] Cons [of "sched_queue_highest_priority (Waiters f) s"] order_trans
    by (force simp: Let_def)
qed simp

lemma highest_owned_waiters:
  assumes "queues_wf s" and "g \<in> set fs" and "w \<in> set (queues s (Waiters g))"
  shows "highest_owned s h fs \<le> prio s w"
  using assms(2)
proof (induction fs arbitrary: h)
  case (Cons f fs)
  show ?case
  proof (cases "g = f")
    case True
    have "sched_queue_highest_priority (Waiters g) s \<le> prio s w"
      using queues_wfD(2) [OF assms(1), of "Waiters g"] assms(3)
      by (cases "queues s (Waiters g)") (auto simp: sched_queue_highest_priority_def)
    then show ?thesis
      using True highest_owned_le [of s "sched_queue_highest_priority (Waiters f) s" fs] highest_owned_le [of s h fs] order_trans
      by (force simp: Let_def)
  qed (use Cons in \<open>simp add: Let_def\<close>)
qed simp

text \<open>The priority and the futexes of a task that is woken.\<close>

lemma futex_wake_one_heir:
  assumes i: "sched_inv s" and q: "queues s (Waiters f) = t # ws" and w: "futex_wake_one f t (qrem t s) = Some s'"
  shows "prio s' t = (if has_flag (f_flags (futex_of s f)) SCHEDULER_FUTEX_PI \<and> ws \<noteq> [] then prio s (hd ws) else prio s t)"
    "owned s' = (if has_flag (f_flags (futex_of s f)) SCHEDULER_FUTEX_PI \<and> ws \<noteq> []
       then (owned s)(t := owned s t @ [f]) else owned s)"
proof -
  have d: "distinct (t # ws)" using queues_wfD(1) [OF inv_butD(1) [OF i], of "Waiters f"] q by simp
  then have e: "filter ((\<noteq>) t) (queues s (Waiters f)) = ws" using q by auto
  have "t \<noteq> hd ws" if "ws \<noteq> []" using d that by (cases ws) auto
  then show "prio s' t = (if has_flag (f_flags (futex_of s f)) SCHEDULER_FUTEX_PI \<and> ws \<noteq> [] then prio s (hd ws) else prio s t)"
    "owned s' = (if has_flag (f_flags (futex_of s f)) SCHEDULER_FUTEX_PI \<and> ws \<noteq> []
       then (owned s)(t := owned s t @ [f]) else owned s)"
    using w e
    by (cases ws; auto simp: futex_wake_one_def sched_defs Let_def bind_eq_Some_conv sched_queue_empty_def
        sched_queue_highest_priority_def split: if_splits)+
qed

lemma wake_rest_heir:
  assumes i: "sched_inv s" and w: "wake_rest f all s = Some (m, s')"
    and o: "has_flag (f_flags (futex_of s f)) SCHEDULER_FUTEX_OWNER_TRACKING" "has_flag (f_flags (futex_of s f)) SCHEDULER_FUTEX_PI"
  shows "owned s' = (case queues s (Waiters f) of t # _ # _ \<Rightarrow> (owned s)(t := owned s t @ [f]) | _ \<Rightarrow> owned s)"
    "queues s (Waiters f) = t # ws \<Longrightarrow> prio s' t = (if ws = [] then prio s t else prio s (hd ws))"
proof -
  show "owned s' = (case queues s (Waiters f) of t # _ # _ \<Rightarrow> (owned s)(t := owned s t @ [f]) | _ \<Rightarrow> owned s)"
  proof (cases "queues s (Waiters f)")
    case Nil
    then show ?thesis using w by (auto simp: wake_rest_def sched_queue_pop_any)
  next
    case (Cons t ws)
    obtain s1 where s1: "futex_wake_one f t (qrem t s) = Some s1" "futex_of s1 = futex_of s"
      using futex_wake_one_inv [OF i Cons] by (auto simp: returns_def woken_from_def)
    have "t \<noteq> 0" using waiterD(2) [OF i, of t f] Cons by simp
    then have "owned s' = owned s1" using w Cons s1 o(1) by (auto simp: wake_rest_def sched_queue_pop_any)
    then show ?thesis using futex_wake_one_heir(2) [OF i Cons s1(1)] Cons o(2) by (auto split: list.split)
  qed
  show "prio s' t = (if ws = [] then prio s t else prio s (hd ws))" if q: "queues s (Waiters f) = t # ws"
  proof -
    obtain s1 where s1: "futex_wake_one f t (qrem t s) = Some s1" "futex_of s1 = futex_of s"
      using futex_wake_one_inv [OF i q] by (auto simp: returns_def woken_from_def)
    have "t \<noteq> 0" using waiterD(2) [OF i, of t f] q by simp
    then have "task_of s' = task_of s1" using w q s1 o(1) by (auto simp: wake_rest_def sched_queue_pop_any)
    then show ?thesis using futex_wake_one_heir(1) [OF i q s1(1)] o(2) by simp
  qed
qed

text \<open>The state in which the owner has given the futex up and the waiters are still asleep.\<close>

definition given_up :: "addr \<Rightarrow> sys \<Rightarrow> sys" where
  "given_up f s =
    (if f_flags (futex_of s f) AND PI_OWNER = PI_OWNER
     then let ow = owner_of (mem s (f_value (futex_of s f))); keep = (\<lambda>u. filter ((\<noteq>) f) (owned s u))
          in reprio ow (highest_owned s (base_priority (task_of s ow)) (keep ow)) (s\<lparr>owned := keep\<rparr>)
     else s)"

lemma wake_futex_given_up:
  assumes "sched_inv s" and "owner_ok s f (mem s (f_value (futex_of s f)))"
  shows "scheduler_wake_futex f all s = wake_rest f all (given_up f s)" "sched_inv (given_up f s)"
  using assms
  by (auto simp: scheduler_wake_futex_eq given_up_def futex_release_owner_def sched_defs Let_def owner_ok_def inv_but_reprio)

lemma given_up_sel:
  assumes "owner_of (mem s (f_value (futex_of s f))) \<notin> set (queues s (Waiters f))" and "sched_inv s"
  shows "queues (given_up f s) (Waiters f) = queues s (Waiters f)" "futex_of (given_up f s) = futex_of s"
    "mem (given_up f s) = mem s" "w \<in> set (queues s (Waiters f)) \<Longrightarrow> task_of (given_up f s) w = task_of s w"
    "w \<noteq> owner_of (mem s (f_value (futex_of s f))) \<Longrightarrow> task_of (given_up f s) w = task_of s w"
    "psp (task_of (given_up f s) w) = psp (task_of s w)" "tasks (sched (given_up f s)) = tasks (sched s)"
proof -
  let ?o = "owner_of (mem s (f_value (futex_of s f)))"
  have "current_queue (task_of s ?o) \<noteq> Some (Waiters f)"
    using assms queues_wfD(3) [OF inv_butD(1) [OF assms(2)], of ?o "Waiters f"] by simp
  moreover have "filter ((\<noteq>) ?o) (queues s (Waiters f)) = queues s (Waiters f)"
    using assms(1) by (auto simp: filter_id_conv)
  ultimately show "queues (given_up f s) (Waiters f) = queues s (Waiters f)"
    by (auto simp: given_up_def Let_def queues_reprio split: option.split)
qed (use assms in \<open>auto simp: given_up_def Let_def\<close>)

lemma given_up_waiters:
  assumes i: "sched_inv s" and o: "f_flags (futex_of s f) AND PI_OWNER = PI_OWNER \<longrightarrow>
    owner_ok s f (mem s (f_value (futex_of s f))) \<and> owner_of (mem s (f_value (futex_of s f))) \<notin> set (queues s (Waiters f))"
  shows "queues (given_up f s) (Waiters f) = queues s (Waiters f)" "futex_of (given_up f s) = futex_of s"
    "mem (given_up f s) = mem s" "tasks (sched (given_up f s)) = tasks (sched s)"
    "\<not> (f_flags (futex_of s f) AND PI_OWNER = PI_OWNER \<and> w = owner_of (mem s (f_value (futex_of s f)))) \<Longrightarrow>
      task_of (given_up f s) w = task_of s w"
    "psp (task_of (given_up f s) w) = psp (task_of s w)"
proof -
  let ?o = "owner_of (mem s (f_value (futex_of s f)))" and ?pi = "f_flags (futex_of s f) AND PI_OWNER = PI_OWNER"
  have n: "?o \<notin> set (queues s (Waiters f)) \<or> given_up f s = s" using o by (auto simp: given_up_def)
  note g = given_up_sel [OF _ i]
  show "queues (given_up f s) (Waiters f) = queues s (Waiters f)" using n g(1) by metis
  show "futex_of (given_up f s) = futex_of s" "mem (given_up f s) = mem s" "tasks (sched (given_up f s)) = tasks (sched s)"
    "psp (task_of (given_up f s) w) = psp (task_of s w)"
    using n g(2,3,6,7) by metis+
  show "task_of (given_up f s) w = task_of s w" if "\<not> (?pi \<and> w = ?o)"
  proof (cases ?pi)
    case True
    then show ?thesis using that n g(5) by metis
  qed (simp add: given_up_def)
qed

lemma woken_ready:
  assumes "sched_inv s" and "sched_inv s'" and "tasks (sched s') = tasks (sched s)" and "\<forall>t\<in>xs. state_of s' t = TASK_READY"
    and "t \<in> xs" and "t \<in> set (queues s (Waiters f))"
  shows "t \<in> set (queues s' ReadyQueue)" "t \<notin> set (timers (sched s'))"
  using readyD [OF assms(2), of t] waiterD(1) [OF assms(1,6)] assms(3-5) by auto

lemma pi_owner_flags:
  fixes x :: word32
  assumes "x AND PI_OWNER = PI_OWNER"
  shows "has_flag x SCHEDULER_FUTEX_PI" "has_flag x SCHEDULER_FUTEX_OWNER_TRACKING"
  using and.assoc [of x PI_OWNER SCHEDULER_FUTEX_PI, unfolded assms]
    and.assoc [of x PI_OWNER SCHEDULER_FUTEX_OWNER_TRACKING, unfolded assms] by auto

lemma inheritance_passed_on:
  fixes f :: addr and s :: sys
  defines "old \<equiv> owner_of (mem s (f_value (futex_of s f)))" and "keep \<equiv> \<lambda>u. filter ((\<noteq>) f) (owned s u)"
    and "ws \<equiv> queues s (Waiters f)"
  assumes i: "sched_inv s" and p: "f_flags (futex_of s f) AND PI_OWNER = PI_OWNER"
    and o: "owner_ok s f (mem s (f_value (futex_of s f)))" "old \<notin> set ws"
    and w: "wake_rest f all (given_up f s) = Some (m, s')" and t: "task_of s' old = task_of (given_up f s) old"
  shows "task_of s' old = (task_of s old)\<lparr>current_priority := highest_owned s (base_priority (task_of s old)) (keep old)\<rparr> \<and>
    prio s' old \<le> base_priority (task_of s old) \<and>
    (\<forall>g\<in>set (keep old). \<forall>w\<in>set (queues s (Waiters g)). prio s' old \<le> prio s w) \<and>
    owned s' = (case ws of t # _ # _ \<Rightarrow> keep(t := keep t @ [f]) | _ \<Rightarrow> keep) \<and>
    (ws \<noteq> [] \<longrightarrow> prio s' (hd ws) = (if tl ws = [] then prio s (hd ws) else prio s (hd (tl ws))))"
proof -
  have g: "task_of (given_up f s) old = (task_of s old)\<lparr>current_priority := highest_owned s (base_priority (task_of s old)) (keep old)\<rparr>"
    "owned (given_up f s) = keep"
    using p by (simp_all add: given_up_def Let_def old_def keep_def)
  note gs = given_up_sel [OF o(2) [unfolded old_def ws_def] i, folded ws_def]
  note h = wake_rest_heir [OF wake_futex_given_up(2) [OF i o(1)] w, unfolded gs(1,2) g(2), OF pi_owner_flags(2) [OF p] pi_owner_flags(1) [OF p]]
  have "prio s' (hd ws) = (if tl ws = [] then prio s (hd ws) else prio s (hd (tl ws)))" if "ws \<noteq> []"
    using h(2) [of "hd ws" "tl ws"] that gs(4) [of "hd ws"] gs(4) [of "hd (tl ws)"] by (cases ws; cases "tl ws") auto
  then show ?thesis
    using g(1) t h(1) highest_owned_le [of s] highest_owned_waiters [OF inv_butD(1) [OF i]] by simp
qed

text \<open>
  C5. A wake makes ready exactly a prefix of the waiters of the futex, the highest priorities
  first and first come first served among equals: the first waiter, or all of them when all
  are asked for and the futex does not track its owner. The number is returned, the saved
  frames of the waiters (and with them the 0 their wait returns) are untouched, no other task
  changes but the old owner of a futex with inheritance, and the word gets the new owner and
  the contention bit as the flags of the futex ask. With priority inheritance the old owner
  loses the futex and falls back to its own priority or the best it still inherits through its
  other futexes; the new owner gets the futex if anyone still waits for it, and with it the
  priority of the best who waits. The word of a futex with inheritance is to hold the address
  of an owner that does not wait for the futex itself.
\<close>

theorem wake_exact:
  assumes "kinv s" and "f_flags (futex_of s f) AND PI_OWNER = PI_OWNER \<longrightarrow>
    owner_ok s f (mem s (f_value (futex_of s f))) \<and> owner_of (mem s (f_value (futex_of s f))) \<notin> set (queues s (Waiters f))"
  shows "\<exists>s'. (let ws = queues s (Waiters f);
      n = (if \<not> all \<or> has_flag (f_flags (futex_of s f)) SCHEDULER_FUTEX_OWNER_TRACKING
           then min 1 (length ws) else length ws);
      inherits = (f_flags (futex_of s f) AND PI_OWNER = PI_OWNER);
      old = owner_of (mem s (f_value (futex_of s f)));
      keep = (\<lambda>u. filter ((\<noteq>) f) (owned s u))
    in scheduler_wake_futex f all s = Some (of_nat n, s') \<and> sched_inv s' \<and>
       queues s' (Waiters f) = drop n ws \<and>
       sorted_wrt (\<lambda>a b. prio s a \<le> prio s b) ws \<and>
       (\<forall>t\<in>set (take n ws). state_of s' t = TASK_READY \<and> t \<in> set (queues s' ReadyQueue) \<and>
          t \<notin> set (timers (sched s')) \<and> psp (task_of s' t) = psp (task_of s t)) \<and>
       (\<forall>t. t \<notin> set (take n ws) \<and> \<not> (inherits \<and> t = old) \<longrightarrow> task_of s' t = task_of s t) \<and>
       mem s' (f_value (futex_of s f)) = tracked_word f s (n = length ws)
         (if ws \<noteq> [] \<and> has_flag (f_flags (futex_of s f)) SCHEDULER_FUTEX_OWNER_TRACKING
          then hd ws else mem s (f_value (futex_of s f))) \<and>
       (inherits \<longrightarrow>
          task_of s' old = (task_of s old)\<lparr>current_priority := highest_owned s (base_priority (task_of s old)) (keep old)\<rparr> \<and>
          prio s' old \<le> base_priority (task_of s old) \<and>
          (\<forall>g\<in>set (keep old). \<forall>w\<in>set (queues s (Waiters g)). prio s' old \<le> prio s w) \<and>
          owned s' = (case ws of t # _ # _ \<Rightarrow> keep(t := keep t @ [f]) | _ \<Rightarrow> keep) \<and>
          (ws \<noteq> [] \<longrightarrow> prio s' (hd ws) = (if tl ws = [] then prio s (hd ws) else prio s (hd (tl ws))))))"
proof -
  have i: "sched_inv s" using assms(1) by (simp add: kinv_def)
  define old where "old = owner_of (mem s (f_value (futex_of s f)))"
  define pi where "pi = (f_flags (futex_of s f) AND PI_OWNER = PI_OWNER)"
  define keep where "keep = (\<lambda>u. filter ((\<noteq>) f) (owned s u))"
  define s0 where "s0 = given_up f s"
  have ow: "owner_ok s f (mem s (f_value (futex_of s f)))" using assms(2) by (auto simp: owner_ok_def)
  note gu = wake_futex_given_up [OF i ow, folded s0_def]
  define ws where "ws = queues s (Waiters f)"
  define n where "n = (if \<not> all \<or> has_flag (f_flags (futex_of s f)) SCHEDULER_FUTEX_OWNER_TRACKING
           then min 1 (length ws) else length ws)"
  note s0 = given_up_waiters [OF i assms(2), folded s0_def ws_def old_def pi_def]
  have wc: "wake_count (wakes_one f all s0) ws = n" by (auto simp: wake_count_def wakes_one_def n_def s0(2))
  obtain s' where s': "wake_rest f all s0 = Some (of_nat n, s')" "sched_inv s'" "woken_from f (take n ws) s0 s'"
    "mem s' = (mem s)(f_value (futex_of s f) := tracked_word f s (n = length ws)
         (if ws \<noteq> [] \<and> has_flag (f_flags (futex_of s f)) SCHEDULER_FUTEX_OWNER_TRACKING
          then hd ws else mem s (f_value (futex_of s f))))"
    using wake_rest_inv [OF gu(2), of f all]
    by (auto simp: returns_def Let_def s0(1-3) wc tracked_word_def)
  have w: "ws = take n ws @ queues s' (Waiters f)" "tasks (sched s') = tasks (sched s)"
    "\<forall>t\<in>set (take n ws). state_of s' t = TASK_READY" "\<forall>t. psp (task_of s' t) = psp (task_of s t)"
    "\<forall>t. t \<notin> set (take n ws) \<longrightarrow> task_of s' t = task_of s0 t"
    using s'(3) s0 by (auto simp: woken_from_def)
  have dr: "queues s' (Waiters f) = drop n ws" using w(1) by (metis append_take_drop_id same_append_eq)
  have srt: "sorted_wrt (\<lambda>a b. prio s a \<le> prio s b) ws"
    unfolding ws_def by (rule queues_wfD(2) [OF inv_butD(1) [OF i]])
  have kd: "keep u = filter ((\<noteq>) f) (owned s u)" for u by (simp add: keep_def)
  have "task_of s' old = task_of s0 old" if pi
  proof -
    have "old \<notin> set ws" using assms(2) that by (simp add: pi_def old_def ws_def)
    then have "old \<notin> set (take n ws)" by (auto dest: in_set_takeD)
    then show ?thesis using w(5) by blast
  qed
  moreover have "pi \<Longrightarrow> old \<notin> set ws" using assms(2) by (simp add: pi_def old_def ws_def)
  ultimately have heir: "pi \<longrightarrow> task_of s' old = (task_of s old)\<lparr>current_priority := highest_owned s (base_priority (task_of s old)) (keep old)\<rparr> \<and>
    prio s' old \<le> base_priority (task_of s old) \<and>
    (\<forall>g\<in>set (keep old). \<forall>w\<in>set (queues s (Waiters g)). prio s' old \<le> prio s w) \<and>
    owned s' = (case ws of t # _ # _ \<Rightarrow> keep(t := keep t @ [f]) | _ \<Rightarrow> keep) \<and>
    (ws \<noteq> [] \<longrightarrow> prio s' (hd ws) = (if tl ws = [] then prio s (hd ws) else prio s (hd (tl ws))))"
    using inheritance_passed_on [OF i _ ow _ s'(1) [unfolded s0_def], folded old_def keep_def ws_def pi_def s0_def, unfolded kd [symmetric]] by blast
  have ot: "\<forall>t. t \<notin> set (take n ws) \<and> \<not> (pi \<and> t = old) \<longrightarrow> task_of s' t = task_of s t" using w(5) s0(5) by simp
  have rdy: "\<forall>t\<in>set (take n ws). state_of s' t = TASK_READY \<and> t \<in> set (queues s' ReadyQueue) \<and>
      t \<notin> set (timers (sched s')) \<and> psp (task_of s' t) = psp (task_of s t)"
    using woken_ready [OF i s'(2) w(2,3), of _ f, folded ws_def] w(3,4) in_set_takeD [of _ n ws] by blast
  have me: "mem s' (f_value (futex_of s f)) = tracked_word f s (n = length ws)
      (if ws \<noteq> [] \<and> has_flag (f_flags (futex_of s f)) SCHEDULER_FUTEX_OWNER_TRACKING
       then hd ws else mem s (f_value (futex_of s f)))" by (simp add: s'(4))
  show ?thesis
    unfolding Let_def ws_def [symmetric] n_def [symmetric] old_def [symmetric] pi_def [symmetric] keep_def [symmetric]
    by (intro exI [of _ s'] conjI gu(1) [THEN trans] s'(1,2) dr srt rdy ot me heir)
qed

lemma futex_boost_owner_prio:
  assumes "queues_wf s" and "queues s (Waiters f) \<noteq> []" and "futex_boost_owner f v s = Some s'"
  shows "\<forall>w\<in>set (queues s' (Waiters f)). prio s' (owner_of v) \<le> prio s' w"
proof -
  define ow where "ow = owner_of v"
  obtain t ts where q: "queues s (Waiters f) = t # ts" using assms(2) by (cases "queues s (Waiters f)") auto
  have min: "prio s t \<le> prio s w" if "w \<in> set (queues s (Waiters f))" for w
    using that queues_wfD(2) [OF assms(1), of "Waiters f"] q by auto
  define s1 where "s1 = (if \<forall>t. f \<notin> set (owned s t) then s\<lparr>owned := (owned s)(ow := owned s ow @ [f])\<rparr> else s)"
  have s1: "task_of s1 = task_of s" "queues s1 = queues s" by (simp_all add: s1_def)
  then have h: "sched_queue_highest_priority (Waiters f) s1 = prio s t" by (simp add: sched_queue_highest_priority_def q)
  have "futex_boost_owner f v s = do {
      _ \<leftarrow> check (t_marker (task_of s ow) = SCHEDULER_TASK_MARKER) s;
      if sched_queue_highest_priority (Waiters f) s1 < prio s1 ow
      then check (ow \<noteq> 0) (reprio ow (sched_queue_highest_priority (Waiters f) s1) s1) else Some s1 }"
    by (simp add: futex_boost_owner_def sched_queue_reprioritize_eq Let_def check_def ow_def s1_def)
  then have s': "s' = (if prio s t < prio s ow then reprio ow (prio s t) s1 else s1)"
    using assms(3) s1 h by (auto simp: check_def split: if_splits)
  have wf1: "queues_wf s1" using assms(1) queues_wf_cong [of s1 s] s1 by (simp add: s1_def)
  show ?thesis
  proof (cases "prio s t < prio s ow")
    case True
    have "set (queues (reprio ow (prio s t) s1) (Waiters f)) = set (queues s (Waiters f))"
      using queue_set [OF queues_wf_reprio [OF wf1]] queue_set [OF assms(1)] by (auto simp: s1)
    then show ?thesis unfolding ow_def [symmetric] using True min by (auto simp: s' s1)
  next
    case False
    then have "prio s ow \<le> prio s t" by simp
    then show ?thesis unfolding ow_def [symmetric] using False min order_trans by (auto simp: s' s1)
  qed
qed

text \<open>
  C30. Priority inheritance: when a task blocks on a futex with priority inheritance, the owner of
  the futex afterwards has a priority at least as good as that of every task that waits for it.
\<close>

theorem wait_boosts_owner:
  assumes k: "kinv s" and c: "current_task (this s) = cur" "cur \<noteq> 0" and w: "wait_ok frame s"
    and p: "f_flags (futex_of s (sf_r0 frame)) AND PI_OWNER = PI_OWNER"
    and b: "mem s (f_value (futex_of s (sf_r0 frame))) = sf_r1 frame"
  shows "\<exists>fr s'. scheduler_wait_svc frame s = Some (fr, s') \<and>
    (\<forall>t\<in>set (queues s' (Waiters (sf_r0 frame))). prio s' (owner_of (sf_r1 frame)) \<le> prio s' t)"
proof -
  have i: "sched_inv s" and l: "\<not> spin_held s" using k by (auto simp: kinv_def)
  define f where "f = sf_r0 frame"
  define m where "m = (mem s)(f_value (futex_of s f) := wait_word s frame)"
  define s0 where "s0 = s\<lparr>spin_held := True, mem := m\<rparr>"
  have o: "owner_ok s f (wait_word s frame)"
    using w by (simp add: wait_ok_def owner_ok_def wait_word_def f_def)
  obtain s1 where s1: "wait_block f (wait_word s frame) (sf_r2 frame) cur s0 = Some s1"
    using wait_block_inv [OF i c o, where b = True and m = m] by (auto simp: returns_def s0_def)
  then obtain s2 where s2: "futex_boost_owner f (wait_word s frame) (qpush (Waiters f) cur s2) = Some s1"
    "s2 = task_upd cur (\<lambda>x. x\<lparr>t_state := TASK_BLOCKED, t_core := UINT32_MAX\<rparr>)
      (if sf_r2 frame < SCHEDULER_WAIT_FOREVER then tpush cur (scheduler_get_ticks s0 + sf_r2 frame) s0 else s0)"
    using p by (auto simp: wait_block_def sched_defs bind_eq_Some_conv f_def s0_def split: if_splits)
  have "inv_but {cur} s2"
    unfolding s2(2) using currentD(1,4) [OF i c]
    by (intro inv_but_task_upd) (auto simp: s0_def intro!: inv_but_tpush sched_inv_but [OF i])
  then have "queues_wf (qpush (Waiters f) cur s2)"
    by (rule inv_butD(1) [OF inv_but_qpush]) (use currentD(1,4) [OF i c] in \<open>auto simp: s2(2) s0_def\<close>)
  from futex_boost_owner_prio [OF this _ s2(1)]
  have "\<forall>w\<in>set (queues s1 (Waiters f)). prio s1 (owner_of (wait_word s frame)) \<le> prio s1 w" by simp
  moreover have "owner_of (wait_word s frame) = owner_of (sf_r1 frame)" by (simp add: wait_word_def)
  ultimately show ?thesis
    using scheduler_wait_svc_eq [OF i l c w] s1 b
    by (auto simp: wait_blocks_def f_def s0_def m_def)
qed

text \<open>A variant of the sample system in which task 0x200 owns futex 0x1000 with inheritance.\<close>

definition pi_sys :: sys where
  "pi_sys = sample_sys\<lparr>mem := (\<lambda>_. 0x200),
     futex_of := (\<lambda>_. \<lparr>f_value = 0x2000, f_flags = 7, f_marker = SCHEDULER_FUTEX_MARKER\<rparr>)\<rparr>"

lemma pi_kinv: "kinv pi_sys"
proof -
  have "deferred_wake (cores sample_sys c) = [0, 0, 0, 0, 0, 0, 0, 0]" for c
    by (simp add: sample_sys_def boot_core_def)
  then show ?thesis using sample_kinv by (simp add: kinv_def pi_sys_def slots_ok_def)
qed

theorem wait_boosts_owner_witness:
  "\<exists>fr s'. scheduler_wait_svc (zero_frame\<lparr>sf_r0 := 0x1000, sf_r1 := 0x200\<rparr>) pi_sys = Some (fr, s') \<and>
    (\<forall>t\<in>set (queues s' (Waiters 0x1000)). prio s' 0x200 \<le> prio s' t)"
  using wait_boosts_owner [OF pi_kinv, of "0x100" "zero_frame\<lparr>sf_r0 := 0x1000, sf_r1 := 0x200\<rparr>"]
  by (simp add: pi_sys_def wait_ok_def owner_ok_def sample_sys_def boot_core_def sample_task_def)

section \<open>Timers\<close>

text \<open>
  C29. The timer loop of the context switch wakes exactly the tasks whose time has come, in order
  of expiry: their wait or sleep returns with a timeout and they leave every waiters queue;
  the tasks with later timers are not touched.
\<close>

theorem timers_exact:
  assumes "kinv s"
  shows "\<exists>s'. expire_timers (Suc (length (timers (sched s)))) s = Some s' \<and> sched_inv s' \<and>
    timers (sched s') = filter (\<lambda>t. scheduler_get_ticks s < expires s t) (timers (sched s)) \<and>
    (\<forall>t\<in>set (timers (sched s)). expires s t \<le> scheduler_get_ticks s \<longrightarrow>
       state_of s' t = TASK_READY \<and> t \<in> set (queues s' ReadyQueue) \<and>
       sf_r0 (psp (task_of s' t)) = - ETIMEDOUT) \<and>
    (\<forall>t. t \<notin> set (timers (sched s)) \<or> scheduler_get_ticks s < expires s t \<longrightarrow> task_of s' t = task_of s t)"
proof -
  have i: "sched_inv s" using assms by (simp add: kinv_def)
  let ?xs = "filter (\<lambda>t. expires s t \<le> scheduler_get_ticks s) (timers (sched s))"
  obtain s' where s': "expire_timers (Suc (length (timers (sched s)))) s = Some s'" "sched_inv s'" "expired_from ?xs s s'"
    using expire_timers_inv [OF i refl lessI] by (auto simp: returns_def simp del: expire_timers.simps)
  have d: "distinct (timers (sched s))" and e: "timers (sched s) = ?xs @ timers (sched s')"
    using inv_butD(2) [OF i] s'(3) by (auto simp: timers_wf_def expired_from_def)
  have "\<forall>t\<in>set (timers (sched s')). t \<notin> set ?xs" using d e by (metis disjoint_iff distinct_append)
  moreover have "set (timers (sched s')) \<subseteq> set (timers (sched s))" using e by (metis Un_upper2 set_append)
  ultimately have "\<forall>t\<in>set (timers (sched s')). scheduler_get_ticks s < expires s t" by (auto simp: not_le)
  then have "filter (\<lambda>t. scheduler_get_ticks s < expires s t) (?xs @ timers (sched s')) = timers (sched s')"
    by (simp add: filter_empty_conv not_less)
  then have ts: "timers (sched s') = filter (\<lambda>t. scheduler_get_ticks s < expires s t) (timers (sched s))"
    using e by metis
  have "t \<in> set (queues s' ReadyQueue)" if "t \<in> set ?xs" for t
  proof -
    have "t \<in> set (tasks (sched s'))" "state_of s' t = TASK_READY"
      using timerD(1) [OF i, of t] s'(3) that by (auto simp: expired_from_def)
    then show ?thesis by (rule readyD(1) [OF s'(2)])
  qed
  then show ?thesis
    using s' ts by (auto simp: expired_from_def not_le simp del: expire_timers.simps)
qed

theorem timers_exact_witness:
  "\<exists>s'. expire_timers (Suc (Suc 0)) sample_sys = Some s' \<and> timers (sched s') = [0x300]"
  using timers_exact [OF sample_kinv]
  by (auto simp: sample_sys_def scheduler_get_ticks_def boot_core_def sample_task_def simp del: expire_timers.simps)

text \<open>
  A timer deadline is the sum of the tick count and the delay modulo \<open>2 ^ 32\<close> and is compared
  as a plain number: a delay that carries the sum over the top makes the timer expire at once,
  before the delay has passed.
\<close>

theorem timer_wrap_expires_early:
  assumes "t \<noteq> 0" and "scheduler_get_ticks s + delay < scheduler_get_ticks s"
    and "timers (sched s) = []"
  shows "\<exists>s1 s2. scheduler_timer_push t delay s = Some s1 \<and> scheduler_get_ticks s1 = scheduler_get_ticks s \<and>
    scheduler_timer_pop s1 = Some (t, s2)"
  using assms by (simp add: sched_defs scheduler_timer_pop_def scheduler_get_ticks_def less_imp_le)

theorem timer_wrap_expires_early_witness:
  "\<exists>s1 s2. scheduler_timer_push 0x100 0x20 (core_upd 0 (\<lambda>c. c\<lparr>c_ticks := 0xfffffff0\<rparr>) boot_sys) = Some s1 \<and>
    scheduler_timer_pop s1 = Some (0x100, s2)"
  using timer_wrap_expires_early [of "0x100" "core_upd 0 (\<lambda>c. c\<lparr>c_ticks := 0xfffffff0\<rparr>) boot_sys" "0x20"]
  by (auto simp: scheduler_get_ticks_def boot_sys_def)

section \<open>Wake ups from interrupt handlers\<close>

lemma defer_wake_spec:
  assumes "length (deferred_wake (this s)) = 8" and "\<forall>i\<in>set is. i < 8" and "w \<noteq> 0"
  shows "case defer_wake w is s of (r, s') \<Rightarrow>
    (\<forall>i. deferred_wake (this s) ! i \<noteq> 0 \<longrightarrow> deferred_wake (this s') ! i = deferred_wake (this s) ! i) \<and>
    (if \<exists>i\<in>set is. deferred_wake (this s) ! i = 0 \<or> deferred_wake (this s) ! i = w
     then r = 0 \<and> w \<in> set (deferred_wake (this s'))
     else r = - ENOSPC \<and> s' = s\<lparr>errno := ENOSPC\<rparr>)"
  using assms
proof (induction "is")
  case (Cons i "is")
  have i: "i < length (deferred_wake (this s))" using Cons.prems by simp
  consider "deferred_wake (this s) ! i = 0" | "deferred_wake (this s) ! i = w" "w \<noteq> 0"
    | "deferred_wake (this s) ! i \<noteq> 0" "deferred_wake (this s) ! i \<noteq> w" by auto
  then show ?case
  proof cases
    case 1
    have "j \<noteq> i" if "deferred_wake (this s) ! j \<noteq> 0" for j using 1 that by auto
    then show ?thesis using 1 i
      by (auto simp: Let_def nth_list_update scheduler_current_core_def intro!: set_update_memI)
  next
    case 2
    then show ?thesis using i nth_mem [OF i] by auto
  next
    case 3
    then show ?thesis using Cons by (simp add: case_prod_unfold)
  qed
qed simp

text \<open>
  A wake up requested by an interrupt handler is never lost: the request either is in a slot
  of the core afterwards, for the next context switch to carry out, with all earlier requests
  still there, or, when no slot is free, the call fails with ENOSPC and changes nothing else.
\<close>

theorem isr_wake_recorded:
  assumes "kinv s" and "is_interrupt_context s" and "f \<noteq> 0" "f AND 1 = 0"
    and "f_marker (futex_of s f) = SCHEDULER_FUTEX_MARKER"
    and "f_flags (futex_of s f) AND PI_OWNER = 0"
  shows "\<exists>r s'. scheduler_futex_wake frame f all s = Some (r, s') \<and> kinv s' \<and>
    (\<forall>i. deferred_wake (this s) ! i \<noteq> 0 \<longrightarrow> deferred_wake (this s') ! i = deferred_wake (this s) ! i) \<and>
    (if \<exists>i<SCHEDULER_MAX_DEFERED_WAKE. deferred_wake (this s) ! i \<in> {0, f OR of_bool all}
     then r = 0 \<and> f OR of_bool all \<in> set (deferred_wake (this s'))
     else r = - ENOSPC \<and> s' = s\<lparr>errno := ENOSPC\<rparr>)"
proof -
  let ?w = "f OR of_bool all"
  have w: "?w AND - 2 = f" by (rule owner_mask [OF assms(4)])
  then have "?w \<noteq> 0" using assms(3) by auto
  obtain r s' where d: "defer_wake ?w [0..<SCHEDULER_MAX_DEFERED_WAKE] s = (r, s')" by (meson surj_pair)
  have "kinv (snd (defer_wake ?w [0..<SCHEDULER_MAX_DEFERED_WAKE] s))"
    by (rule defer_wake_inv [OF assms(1)]) (use assms(6) w in simp)
  moreover have "scheduler_futex_wake frame f all s = Some (r, s')"
    using assms d by (simp add: scheduler_futex_wake_def del: upt_rec_numeral)
  moreover have "length (deferred_wake (this s)) = 8" using assms(1) by (simp add: kinv_def slots_ok_def)
  ultimately show ?thesis
    using defer_wake_spec [of s "[0..<SCHEDULER_MAX_DEFERED_WAKE]" ?w] \<open>?w \<noteq> 0\<close> d
    by (simp add: Bex_def del: upt_rec_numeral)
qed

theorem isr_wake_recorded_witness:
  "\<exists>s'. scheduler_futex_wake zero_eframe 0x1000 True (sample_sys\<lparr>ipsr := 31\<rparr>) = Some (0, s') \<and>
    0x1001 \<in> set (deferred_wake (this s'))"
proof -
  have "kinv (sample_sys\<lparr>ipsr := 31\<rparr>)"
    by (rule kstep_inv [OF no_hook sample_kinv kstep.interrupt])
  moreover have "is_interrupt_context (sample_sys\<lparr>ipsr := 31\<rparr>)"
    "f_marker (futex_of (sample_sys\<lparr>ipsr := 31\<rparr>) 0x1000) = SCHEDULER_FUTEX_MARKER"
    "f_flags (futex_of (sample_sys\<lparr>ipsr := 31\<rparr>) 0x1000) AND PI_OWNER = 0"
    by (simp_all add: is_interrupt_context_def sample_sys_def)
  moreover have "\<exists>i<SCHEDULER_MAX_DEFERED_WAKE. deferred_wake (this (sample_sys\<lparr>ipsr := 31\<rparr>)) ! i \<in> {0, 0x1000 OR of_bool True}"
    by (intro exI [of _ 0]) (simp add: sample_sys_def boot_core_def)
  moreover have "(0x1000 :: word32) OR of_bool True = 0x1001" "(0x1000 :: word32) AND 1 = 0" by simp_all
  ultimately show ?thesis
    using isr_wake_recorded [of "sample_sys\<lparr>ipsr := 31\<rparr>" "0x1000" zero_eframe True] by auto
qed

section \<open>Critical sections\<close>

definition in_critical :: "nat \<Rightarrow> sys \<Rightarrow> bool" where
  "in_critical n s \<longleftrightarrow> scheduler_is_running s \<and> critical (sched s) = this_core s \<and>
    critical_counter (sched s) = of_nat n \<and> spin_held s \<and> primask s"

text \<open>
  Critical sections nest: the first entry takes the spin lock and masks interrupts, an inner
  entry only counts, an inner exit keeps lock and mask, and the last exit releases the lock and
  restores the interrupt mask the first entry found.
\<close>

theorem critical_sections_nest:
  assumes "scheduler_is_running s" and "this_core s \<noteq> UINT32_MAX"
  shows "(critical (sched s) = UINT32_MAX \<and> critical_counter (sched s) = 0 \<and> \<not> spin_held s \<longrightarrow>
      (\<exists>s'. scheduler_enter_critical envs s = Some (primask s, s') \<and> in_critical 1 s' \<and>
        scheduler_exit_critical (primask s) s' = Some s)) \<and>
    (in_critical n s \<longrightarrow>
      (\<exists>s'. scheduler_enter_critical envs s = Some (True, s') \<and> in_critical (Suc n) s')) \<and>
    (in_critical (Suc n) s \<and> 1 \<le> n \<and> n < 2 ^ 31 \<longrightarrow>
      (\<exists>s'. scheduler_exit_critical m s = Some s' \<and> in_critical n s')) \<and>
    (in_critical 1 s \<longrightarrow>
      (\<exists>s'. scheduler_exit_critical m s = Some s' \<and> \<not> spin_held s' \<and> primask s' = m \<and>
        critical (sched s') = UINT32_MAX))"
proof -
  have 1: "\<exists>s'. scheduler_enter_critical envs s = Some (primask s, s') \<and> in_critical 1 s' \<and>
        scheduler_exit_critical (primask s) s' = Some s"
    if "critical (sched s) = UINT32_MAX" "critical_counter (sched s) = 0" "\<not> spin_held s"
  proof -
    have e: "sched s\<lparr>critical := UINT32_MAX, critical_counter := 0\<rparr> = sched s"
      by (rule scheduler.equality) (use that in simp_all)
    show ?thesis
      using assms that
      by (simp add: scheduler_enter_critical_def enter_critical_loop.simps spin_lock_eq scheduler_exit_critical_def
          in_critical_def scheduler_is_running_def scheduler_current_core_def Let_def e)
  qed
  have 2: "\<exists>s'. scheduler_enter_critical envs s = Some (True, s') \<and> in_critical (Suc n) s'" if "in_critical n s"
    using that by (auto simp: scheduler_enter_critical_def in_critical_def scheduler_is_running_def scheduler_current_core_def)
  have 3: "\<exists>s'. scheduler_exit_critical m s = Some s' \<and> in_critical n s'" if "in_critical (Suc n) s" "1 \<le> n" "n < 2 ^ 31"
  proof -
    have "sint (of_nat n :: word32) = int n" using that(3) by (simp add: signed_of_nat signed_take_bit_int_eq_self)
    then have "(1 :: word32) \<le>s of_nat n" using that(2) by (simp add: word_sle_eq)
    then show ?thesis
      using that by (auto simp: scheduler_exit_critical_def in_critical_def scheduler_is_running_def scheduler_current_core_def)
  qed
  have 4: "\<exists>s'. scheduler_exit_critical m s = Some s' \<and> \<not> spin_held s' \<and> primask s' = m \<and> critical (sched s') = UINT32_MAX"
    if "in_critical 1 s"
    using that by (auto simp: scheduler_exit_critical_def in_critical_def scheduler_is_running_def scheduler_current_core_def)
  show ?thesis using 1 2 3 4 by blast
qed

theorem critical_sections_nest_witness:
  "\<exists>s'. scheduler_enter_critical [] sample_sys = Some (False, s') \<and> in_critical 1 s' \<and>
        scheduler_exit_critical False s' = Some sample_sys"
proof -
  have "scheduler_is_running sample_sys" "this_core sample_sys \<noteq> UINT32_MAX" "critical (sched sample_sys) = UINT32_MAX"
    "critical_counter (sched sample_sys) = 0" "\<not> spin_held sample_sys" "primask sample_sys = False"
    by (simp_all add: sample_sys_def scheduler_is_running_def)
  with critical_sections_nest [of sample_sys "[]"] show ?thesis by simp
qed

section \<open>Calls on dead tasks, and death\<close>

text \<open>
  C38. Suspend, resume, terminate and the change of priority of a task the scheduler does not know
  fail with ESRCH and change nothing.
\<close>

theorem dead_task_calls:
  assumes k: "kinv s" and "t \<notin> set (tasks (sched s))"
  shows "scheduler_resume_svc (fr\<lparr>ef_r0 := t\<rparr>) s = Some (fr\<lparr>ef_r0 := - ESRCH\<rparr>, s) \<and>
    scheduler_terminate_svc exit_call (fr\<lparr>ef_r0 := t\<rparr>) s = Some (fr\<lparr>ef_r0 := - ESRCH\<rparr>, s) \<and>
    scheduler_priority_svc (fr\<lparr>ef_r0 := t\<rparr>) s = Some (fr\<lparr>ef_r0 := - ESRCH\<rparr>, s) \<and>
    scheduler_suspend_svc (sf\<lparr>sf_r0 := t\<rparr>) s = Some (sf\<lparr>sf_r0 := - ESRCH\<rparr>, s)"
proof -
  have i: "sched_inv s" and l: "\<not> spin_held s" using k by (auto simp: kinv_def)
  have "scheduler_task_alive t s = - ESRCH" using assms(2) by (simp add: scheduler_task_alive_def)
  moreover have "s\<lparr>spin_held := False\<rparr> = s" by (rule sys.equality) (simp_all add: l)
  ultimately show ?thesis
    using l current_marked [OF i, of "this_core s"]
    by (simp add: scheduler_resume_svc_def scheduler_terminate_svc_def scheduler_priority_svc_def
        scheduler_suspend_svc_def sched_defs Let_def)
qed

theorem dead_task_calls_witness:
  "scheduler_resume_svc (zero_eframe\<lparr>ef_r0 := 0x900\<rparr>) sample_sys = Some (zero_eframe\<lparr>ef_r0 := - ESRCH\<rparr>, sample_sys)"
  using dead_task_calls [OF sample_kinv, of "0x900" zero_eframe] by (simp add: sample_sys_def)

text \<open>
  C37. Termination takes a task out of everything: afterwards it is in no queue, has no timer, runs
  on no core and is unknown to the scheduler, and its caller gets 0.
\<close>

theorem terminate_removes:
  assumes k: "kinv s" and h: "hook_ok exit_call" and t: "t \<in> set (tasks (sched s))"
    and g: "t = current_task (this s) \<or> state_of s t \<noteq> TASK_RUNNING"
  shows "\<exists>f s'. scheduler_terminate_svc exit_call (fr\<lparr>ef_r0 := t\<rparr>) s = Some (f, s') \<and> kinv s' \<and> ef_r0 f = 0 \<and>
    t \<notin> set (tasks (sched s')) \<and> t \<notin> set (timers (sched s')) \<and> (\<forall>q. t \<notin> set (queues s' q)) \<and>
    (\<forall>c. current_task (cores s' c) \<noteq> t)"
proof -
  have i: "sched_inv s" and l: "\<not> spin_held s" and sl: "slots_ok s" using k by (auto simp: kinv_def)
  let ?fr = "fr\<lparr>ef_r0 := t\<rparr>"
  obtain f s' where s': "scheduler_terminate_svc exit_call ?fr s = Some (f, s')" "sched_inv s'" "\<not> spin_held s'"
    "t \<notin> set (tasks (sched s'))"
    using scheduler_terminate_svc_inv [OF i l, of ?fr exit_call] g hook_okD(1) [OF h] by (auto simp: returns_def)
  have "kinv s'" using scheduler_terminate_svc_frame [OF h sl s'(1)] s' k by (auto simp: kinv_def same_machine_def)
  moreover have "t \<notin> set (timers (sched s'))" using inv_butD(2) [OF s'(2)] s'(4) by (auto simp: timers_wf_def)
  moreover have "t \<notin> set (queues s' q)" for q
    using queues_wfD(3,4) [OF inv_butD(1) [OF s'(2)], of t q] s'(4) by auto
  moreover have "current_task (cores s' c) \<noteq> t" for c
    using currentD(1) [OF s'(2), of c t] s'(4) inv_butD(6) [OF i t] by auto
  moreover have "ef_r0 f = 0"
    using s'(1) t inv_butD(6) [OF i t]
    by (auto simp: scheduler_terminate_svc_def sched_defs Let_def bind_eq_Some_conv scheduler_task_alive_def split: if_splits)
  ultimately show ?thesis using s' by blast
qed

theorem terminate_removes_witness:
  "\<exists>f s'. scheduler_terminate_svc (\<lambda>_ _ s. s) (zero_eframe\<lparr>ef_r0 := 0x300\<rparr>) sample_sys = Some (f, s') \<and>
    0x300 \<notin> set (timers (sched s')) \<and> 0x300 \<notin> set (queues s' (Waiters 0x1000))"
  using terminate_removes [OF sample_kinv no_hook(1), of "0x300" zero_eframe]
  by (auto simp: sample_sys_def sample_task_def)

text \<open>
  The wake of a priority inheritance futex gives the task it wakes the priority of the best
  waiter that is left, also when that is worse than its own: the new owner is demoted.
\<close>

theorem wake_demotes_new_owner:
  assumes "sched_inv s" and "queues s (Waiters f) = t # u # ws"
    and "has_flag (f_flags (futex_of s f)) SCHEDULER_FUTEX_PI" and "prio s t < prio s u"
  shows "\<exists>s'. futex_wake_one f t (qrem t s) = Some s' \<and> prio s t < prio s' t \<and> prio s' t = prio s u"
proof -
  have d: "distinct (t # u # ws)" using queues_wfD(1) [OF inv_butD(1) [OF assms(1)], of "Waiters f"] assms(2) by simp
  then have "filter ((\<noteq>) t) (queues s (Waiters f)) = u # ws" "u \<noteq> t" using assms(2) by auto
  then show ?thesis
    using waiterD [OF assms(1), of t f] assms d
    by (simp add: futex_wake_one_def sched_defs Let_def sched_queue_empty_def sched_queue_highest_priority_def)
qed

definition demote_sys :: sys where
  "demote_sys = pi_sys\<lparr>sched := (sched pi_sys)\<lparr>tasks := [0x100, 0x200, 0x300, 0x400]\<rparr>,
     task_of := (task_of pi_sys)(0x400 := sample_task TASK_BLOCKED 30 UINT32_MAX (Some (Waiters 0x1000))),
     queues := (queues pi_sys)(Waiters 0x1000 := [0x300, 0x400])\<rparr>"

lemma demote_inv: "sched_inv demote_sys"
  by (auto simp: inv_but_def queues_wf_def timers_wf_def tasks_wf_def placed_def current_ok_def demote_sys_def
      pi_sys_def sample_sys_def closest_timer_def sample_task_def boot_core_def)

theorem wake_demotes_new_owner_witness:
  "\<exists>s'. futex_wake_one 0x1000 0x300 (qrem 0x300 demote_sys) = Some s' \<and> prio demote_sys 0x300 = 5 \<and> prio s' 0x300 = 30"
proof -
  have "queues demote_sys (Waiters 0x1000) = [0x300, 0x400]" "has_flag (f_flags (futex_of demote_sys 0x1000)) SCHEDULER_FUTEX_PI"
    "prio demote_sys 0x300 = 5" "prio demote_sys 0x400 = 30"
    by (simp_all add: demote_sys_def pi_sys_def sample_sys_def sample_task_def)
  with wake_demotes_new_owner [OF demote_inv, of "0x1000" "0x300" "0x400" "[]"] show ?thesis by auto
qed

lemma demote_kinv: "kinv demote_sys"
  using demote_inv pi_kinv by (auto simp: kinv_def demote_sys_def slots_ok_def)

text \<open>
  The waiter of the sample system is woken; and of the two waiters of \<open>demote_sys\<close> the first
  becomes the owner and gets the priority of the second.
\<close>

theorem wake_exact_witness:
  "(\<exists>s'. scheduler_wake_futex 0x1000 True sample_sys = Some (1, s') \<and> queues s' (Waiters 0x1000) = [] \<and>
     state_of s' 0x300 = TASK_READY \<and> 0x300 \<in> set (queues s' ReadyQueue) \<and> 0x300 \<notin> set (timers (sched s'))) \<and>
   (\<exists>s'. scheduler_wake_futex 0x1000 True demote_sys = Some (1, s') \<and> queues s' (Waiters 0x1000) = [0x400] \<and>
     mem s' 0x2000 = 0x301 \<and> prio s' 0x300 = 30 \<and> prio s' 0x200 = 20 \<and> owned s' 0x300 = [0x1000])"
proof
  have "f_flags (futex_of sample_sys 0x1000) = 0" "queues sample_sys (Waiters 0x1000) = [0x300]"
    by (simp_all add: sample_sys_def)
  with wake_exact [OF sample_kinv, of "0x1000" True]
  show "\<exists>s'. scheduler_wake_futex 0x1000 True sample_sys = Some (1, s') \<and> queues s' (Waiters 0x1000) = [] \<and>
     state_of s' 0x300 = TASK_READY \<and> 0x300 \<in> set (queues s' ReadyQueue) \<and> 0x300 \<notin> set (timers (sched s'))"
    by (auto simp: Let_def)
next
  have d: "f_flags (futex_of demote_sys 0x1000) = 7" "f_value (futex_of demote_sys 0x1000) = 0x2000" "mem demote_sys 0x2000 = 0x200"
    "queues demote_sys (Waiters 0x1000) = [0x300, 0x400]" "owned demote_sys u = []"
    "prio demote_sys 0x400 = 30" "base_priority (task_of demote_sys 0x200) = 20"
    "t_marker (task_of demote_sys 0x200) = SCHEDULER_TASK_MARKER" for u
    by (simp_all add: demote_sys_def pi_sys_def sample_sys_def sample_task_def)
  then have "owner_ok demote_sys 0x1000 (mem demote_sys 0x2000)" by (simp add: owner_ok_def)
  with wake_exact [OF demote_kinv, of "0x1000" True] d
  show "\<exists>s'. scheduler_wake_futex 0x1000 True demote_sys = Some (1, s') \<and> queues s' (Waiters 0x1000) = [0x400] \<and>
     mem s' 0x2000 = 0x301 \<and> prio s' 0x300 = 30 \<and> prio s' 0x200 = 20 \<and> owned s' 0x300 = [0x1000]"
    by (auto simp: Let_def tracked_word_def)
qed

end
