(* ===== verification/Spinlock.thy ===== *)
theory Spinlock
  imports Prelude
begin

text \<open>
  The ticket lock of \<open>spinlock.h\<close>. A lock is one word: the upper half is the next ticket, the
  lower half the ticket now served. The functions on the word come first, then the lock as any
  number of clients use it, one atomic access of the word a step, and the proof that it is a
  first-come first-served queue.
\<close>

section \<open>The word of a lock\<close>

definition spin_ticket :: "word32 \<Rightarrow> word16" where
  "spin_ticket v = ucast (drop_bit 16 v)"

definition spin_serving :: "word32 \<Rightarrow> word16" where
  "spin_serving v = ucast (v AND 0xffff)"

text \<open>\<open>spin_lock\<close> first takes a ticket, then waits until that ticket is served.\<close>

definition spin_take :: "word32 \<Rightarrow> word16 \<times> word32" where
  "spin_take v = (spin_ticket v, v + push_bit 16 1)"

definition spin_served :: "word16 \<Rightarrow> word32 \<Rightarrow> bool" where
  "spin_served ticket v \<longleftrightarrow> v AND 0xffff = ucast ticket"

text \<open>\<open>spin_try_lock\<close>: the load and the exchange are two accesses; \<open>env\<close> is what happens between.\<close>

definition spin_try_lock :: "(word32 \<Rightarrow> word32) \<Rightarrow> word32 \<Rightarrow> bool \<times> word32" where
  "spin_try_lock env v =
    (let val = v
     in if drop_bit 16 val \<noteq> val AND 0xffff then (False, v)
        else let v = env v in if v = val then (True, val + push_bit 16 1) else (False, v))"

text \<open>\<open>spin_unlock\<close> adds one to the lower halfword only: no carry reaches the tickets.\<close>

definition spin_unlock :: "word32 \<Rightarrow> word32" where
  "spin_unlock v = push_bit 16 (drop_bit 16 v) OR ucast (ucast v + 1 :: word16)"

lemma low_half: "v AND 0xffff = (ucast (ucast v :: word16) :: word32)" for v :: word32
proof -
  have m: "(0xffff :: word32) = mask 16" by (simp add: mask_eq_exp_minus_1)
  show ?thesis unfolding m by (rule bit_word_eqI) (auto simp: bit_simps simp del: mask_numeral)
qed

lemma spin_serving_ucast: "spin_serving v = ucast v"
  unfolding spin_serving_def low_half by (rule bit_word_eqI) (auto simp: bit_simps)

lemma ucast_half_inj: "(ucast a :: word32) = ucast b \<longleftrightarrow> a = b" for a b :: word16
proof
  assume "(ucast a :: word32) = ucast b"
  then have "(ucast (ucast a :: word32) :: word16) = ucast (ucast b :: word32)" by simp
  moreover have "(ucast (ucast x :: word32) :: word16) = x" for x :: word16
    by (rule bit_word_eqI) (auto simp: bit_simps)
  ultimately show "a = b" by simp
qed simp

lemma spin_served_iff: "spin_served t v \<longleftrightarrow> spin_serving v = t"
  unfolding spin_served_def low_half spin_serving_ucast ucast_half_inj ..

lemma try_free: "drop_bit 16 v = v AND 0xffff \<longleftrightarrow> spin_ticket v = spin_serving v" for v :: word32
proof -
  have "drop_bit 16 v = (ucast (ucast (drop_bit 16 v) :: word16) :: word32)"
    by (rule bit_word_eqI) (auto simp: bit_simps dest: bit_imp_le_length)
  then show ?thesis
    unfolding low_half spin_ticket_def spin_serving_ucast by (metis ucast_half_inj)
qed

lemma halves_nat:
  "unat (spin_ticket v) = unat v div 65536" "unat (spin_serving v) = unat v mod 65536"
proof -
  have "unat v < 4294967296" by (rule order.strict_trans2 [OF unsigned_less]) simp
  then have "unat v div 65536 < 65536" by simp
  then show "unat (spin_ticket v) = unat v div 65536"
    by (simp only: spin_ticket_def unsigned_ucast_eq take_bit_eq_mod unat_drop_bit_eq) (simp add: drop_bit_eq_div)
  show "unat (spin_serving v) = unat v mod 65536"
    by (simp add: spin_serving_ucast unsigned_ucast_eq take_bit_eq_mod)
qed

lemma spin_take_word:
  "spin_ticket (v + 65536) = spin_ticket v + 1"
  "spin_serving (v + 65536) = spin_serving v"
proof -
  have u: "unat (v + 65536) = (unat v + 65536) mod (65536 * 65536)"
    by (simp add: unat_word_ariths)
  show "spin_serving (v + 65536) = spin_serving v"
    by (rule word_unat_eq_iff [THEN iffD2]) (simp only: halves_nat u, simp add: mod_mod_cancel)
  have "(unat v + 65536) mod (65536 * 65536) div 65536 = (unat v div 65536 + 1) mod 65536"
    using div_add_self2 [of 65536 "unat v"] by (simp only: mod_mult2_eq)
  then show "spin_ticket (v + 65536) = spin_ticket v + 1"
    by (intro word_unat_eq_iff [THEN iffD2]) (simp only: halves_nat u, simp add: unat_word_ariths halves_nat)
qed

lemma spin_unlock_word:
  "spin_ticket (spin_unlock v) = spin_ticket v"
  "spin_serving (spin_unlock v) = spin_serving v + 1"
  unfolding spin_ticket_def spin_serving_ucast spin_unlock_def
  by (rule bit_word_eqI, auto simp: bit_simps dest: bit_imp_le_length)+

lemma spin_fresh [simp]: "spin_ticket 0 = 0" "spin_serving 0 = 0"
  by (simp_all add: spin_ticket_def spin_serving_def)

section \<open>The lock in use\<close>

text \<open>
  A client is at rest, waits with a ticket, or holds the lock; the ticket of a holder is kept
  to state the invariant. An event is one access of the word by one client that changes where
  that client stands: it takes a ticket, finds its ticket served, succeeds with
  \<open>spin_try_lock\<close>, or releases the lock.
\<close>

datatype spin_pc = Rest | Spinning word16 | Holding word16

record spin_world =
  lock_word :: word32
  pcs :: "nat \<Rightarrow> spin_pc"

datatype spin_event = Takes nat | Enters nat | Tries nat | Releases nat

inductive spin_access :: "nat \<Rightarrow> spin_event \<Rightarrow> spin_world \<Rightarrow> spin_world \<Rightarrow> bool" for n where
  take: "c < n \<Longrightarrow> pcs w c = Rest \<Longrightarrow> spin_take (lock_word w) = (t, v) \<Longrightarrow>
    spin_access n (Takes c) w (w\<lparr>lock_word := v, pcs := (pcs w)(c := Spinning t)\<rparr>)"
| enter: "c < n \<Longrightarrow> pcs w c = Spinning t \<Longrightarrow> spin_served t (lock_word w) \<Longrightarrow>
    spin_access n (Enters c) w (w\<lparr>pcs := (pcs w)(c := Holding t)\<rparr>)"
| try_lock: "c < n \<Longrightarrow> pcs w c = Rest \<Longrightarrow> spin_try_lock id (lock_word w) = (True, v) \<Longrightarrow>
    spin_access n (Tries c) w (w\<lparr>lock_word := v, pcs := (pcs w)(c := Holding (spin_ticket (lock_word w)))\<rparr>)"
| release: "c < n \<Longrightarrow> pcs w c = Holding t \<Longrightarrow>
    spin_access n (Releases c) w (w\<lparr>lock_word := spin_unlock (lock_word w), pcs := (pcs w)(c := Rest)\<rparr>)"

definition spin_step :: "nat \<Rightarrow> spin_world \<Rightarrow> spin_world \<Rightarrow> bool" where
  "spin_step n w w' \<longleftrightarrow> (\<exists>e. spin_access n e w w')"

definition spin_start :: spin_world where
  "spin_start = \<lparr>lock_word = 0, pcs = (\<lambda>_. Rest)\<rparr>"

text \<open>A run of the clients: the events in their order, from a lock that is free.\<close>

inductive spin_run :: "nat \<Rightarrow> spin_event list \<Rightarrow> spin_world \<Rightarrow> bool" for n where
  start: "spin_run n [] spin_start"
| step: "spin_run n es w \<Longrightarrow> spin_access n e w w' \<Longrightarrow> spin_run n (es @ [e]) w'"

text \<open>The specification: a queue of clients of which only the first may hold the lock.\<close>

record fifo_lock =
  line :: "nat list"
  granted :: bool

inductive fifo_step :: "spin_event \<Rightarrow> fifo_lock \<Rightarrow> fifo_lock \<Rightarrow> bool" where
  join: "c \<notin> set (line q) \<Longrightarrow> fifo_step (Takes c) q \<lparr>line = line q @ [c], granted = granted q\<rparr>"
| grant: "line q = c # cs \<Longrightarrow> \<not> granted q \<Longrightarrow> fifo_step (Enters c) q (q\<lparr>granted := True\<rparr>)"
| join_granted: "line q = [] \<Longrightarrow> \<not> granted q \<Longrightarrow> fifo_step (Tries c) q \<lparr>line = [c], granted = True\<rparr>"
| leave: "line q = c # cs \<Longrightarrow> granted q \<Longrightarrow> fifo_step (Releases c) q \<lparr>line = cs, granted = False\<rparr>"

inductive fifo_run :: "spin_event list \<Rightarrow> fifo_lock \<Rightarrow> bool" where
  start: "fifo_run [] \<lparr>line = [], granted = False\<rparr>"
| step: "fifo_run es q \<Longrightarrow> fifo_step e q q' \<Longrightarrow> fifo_run (es @ [e]) q'"

text \<open>The clients in the order in which they ask for the lock, get it and give it back.\<close>

fun asked :: "spin_event \<Rightarrow> nat list" where
  "asked (Takes c) = [c]" | "asked (Tries c) = [c]" | "asked _ = []"

fun got :: "spin_event \<Rightarrow> nat list" where
  "got (Enters c) = [c]" | "got (Tries c) = [c]" | "got _ = []"

fun gave_back :: "spin_event \<Rightarrow> nat list" where
  "gave_back (Releases c) = [c]" | "gave_back _ = []"

definition requests :: "spin_event list \<Rightarrow> nat list" where "requests es = concat (map asked es)"
definition grants :: "spin_event list \<Rightarrow> nat list" where "grants es = concat (map got es)"
definition returned :: "spin_event list \<Rightarrow> nat list" where "returned es = concat (map gave_back es)"

lemma fifo_run_orders:
  assumes "fifo_run es q"
  shows "requests es = returned es @ line q" "grants es = returned es @ (if granted q then [hd (line q)] else [])"
    "granted q \<Longrightarrow> line q \<noteq> []"
  using assms by (induction, auto simp: requests_def grants_def returned_def elim!: fifo_step.cases)

text \<open>
  How a world represents a queue: the i-th client in line has the ticket i places after the one
  now served, the next ticket is the one after the last in line, and the lock is granted when
  the first in line holds it.
\<close>

definition ticket_of :: "spin_pc \<Rightarrow> word16 option" where
  "ticket_of pc = (case pc of Rest \<Rightarrow> None | Spinning t \<Rightarrow> Some t | Holding t \<Rightarrow> Some t)"

definition spin_rel :: "nat \<Rightarrow> spin_world \<Rightarrow> fifo_lock \<Rightarrow> bool" where
  "spin_rel n w q \<longleftrightarrow> distinct (line q) \<and> set (line q) = {c. pcs w c \<noteq> Rest} \<and> (\<forall>c\<in>set (line q). c < n) \<and>
    spin_ticket (lock_word w) = spin_serving (lock_word w) + of_nat (length (line q)) \<and>
    (\<forall>i<length (line q). ticket_of (pcs w (line q ! i)) = Some (spin_serving (lock_word w) + of_nat i)) \<and>
    (\<forall>c t. pcs w c = Holding t \<longrightarrow> t = spin_serving (lock_word w)) \<and>
    (granted q \<longleftrightarrow> (\<exists>c t. pcs w c = Holding t))"

lemma spin_relD:
  assumes "spin_rel n w q"
  shows "distinct (line q)" "c \<in> set (line q) \<longleftrightarrow> pcs w c \<noteq> Rest" "c \<in> set (line q) \<Longrightarrow> c < n"
    "spin_ticket (lock_word w) = spin_serving (lock_word w) + of_nat (length (line q))"
    "i < length (line q) \<Longrightarrow> ticket_of (pcs w (line q ! i)) = Some (spin_serving (lock_word w) + of_nat i)"
    "pcs w c = Holding t \<Longrightarrow> t = spin_serving (lock_word w)"
    "granted q \<longleftrightarrow> (\<exists>c t. pcs w c = Holding t)"
  using assms unfolding spin_rel_def by simp_all

lemma spin_rel_length:
  assumes "spin_rel n w q"
  shows "length (line q) \<le> n" "c < n \<Longrightarrow> pcs w c = Rest \<Longrightarrow> length (line q) < n"
proof -
  have d: "length (line q) = card (set (line q))" "set (line q) \<subseteq> {..<n}"
    using distinct_card [OF spin_relD(1) [OF assms]] spin_relD(3) [OF assms] by auto
  show "length (line q) \<le> n" using card_mono [OF finite_lessThan d(2)] d(1) by simp
  assume "c < n" "pcs w c = Rest"
  then have "set (line q) \<subset> {..<n}" using d(2) spin_relD(2) [OF assms, of c] by auto
  from psubset_card_mono [OF finite_lessThan this] show "length (line q) < n" by (simp only: d(1) card_lessThan)
qed

lemma of_nat_half:
  assumes "i < 65536"
  shows "(of_nat i :: word16) = 0 \<longleftrightarrow> i = 0"
  using assms by (auto simp: word_unat_eq_iff unat_of_nat)

text \<open>The two ways to join the line, and the head of the line.\<close>

lemma spin_rel_join:
  assumes r: "spin_rel n w q" and c: "c < n" "pcs w c = Rest"
    and p: "pc = Spinning (spin_ticket (lock_word w)) \<and> g = granted q \<or>
      pc = Holding (spin_ticket (lock_word w)) \<and> line q = [] \<and> g"
  shows "spin_rel n (w\<lparr>lock_word := lock_word w + push_bit 16 1, pcs := (pcs w)(c := pc)\<rparr>)
    \<lparr>line = line q @ [c], granted = g\<rparr>"
proof -
  note r = spin_relD [OF r]
  have nc: "c \<notin> set (line q)" using r(2) c(2) by simp
  have tk: "ticket_of pc = Some (spin_ticket (lock_word w))" using p by (auto simp: ticket_of_def)
  have pos: "line q ! i \<noteq> c" if "i < length (line q)" for i using nc nth_mem [OF that] by metis
  have rest: "pc \<noteq> Rest" "line q = [] \<Longrightarrow> pcs w x = Rest" for x using p r(2) by auto
  have "ticket_of (((pcs w)(c := pc)) ((line q @ [c]) ! i)) = Some (spin_serving (lock_word w) + of_nat i)"
    if "i < Suc (length (line q))" for i
    using that r(4,5) tk pos by (cases "i < length (line q)") (auto simp: nth_append less_Suc_eq)
  moreover have "t = spin_serving (lock_word w)" if "((pcs w)(c := pc)) x = Holding t" for x t
    using that p r(4) r(6) [of x t] by (cases "x = c") auto
  moreover have "g \<longleftrightarrow> (\<exists>x t. ((pcs w)(c := pc)) x = Holding t)"
  proof (cases "\<exists>t. pc = Holding t")
    case True
    then show ?thesis using p by (metis fun_upd_same spin_pc.distinct(5))
  next
    case False
    then have "(\<exists>x t. ((pcs w)(c := pc)) x = Holding t) \<longleftrightarrow> (\<exists>x t. pcs w x = Holding t)"
      using c(2) by (metis fun_upd_apply spin_pc.distinct(3))
    with False p r(7) show ?thesis by auto
  qed
  moreover have "spin_ticket (lock_word w) + 1 = spin_serving (lock_word w) + of_nat (Suc (length (line q)))"
    using r(4) by simp
  ultimately show ?thesis
    unfolding spin_rel_def using r(1-3) nc c(1) rest(1) by (intro conjI) (auto simp: spin_take_word)
qed

lemma spin_rel_head:
  assumes r: "spin_rel n w q" and n: "n \<le> 65536" and t: "ticket_of (pcs w c) = Some (spin_serving (lock_word w))"
  shows "\<exists>cs. line q = c # cs"
proof -
  have "c \<in> set (line q)" using spin_relD(2) [OF r, of c] t by (auto simp: ticket_of_def)
  then obtain i where i: "i < length (line q)" "line q ! i = c" by (metis in_set_conv_nth)
  then have "(of_nat i :: word16) = 0" using spin_relD(5) [OF r i(1)] t by simp
  moreover have "i < 65536" using i(1) spin_rel_length(1) [OF r] n by linarith
  ultimately have "i = 0" by (simp only: of_nat_half)
  with i show ?thesis by (cases "line q") auto
qed

lemma spin_rel_leave:
  assumes r: "spin_rel n w q" and q: "line q = c # cs" and n: "n \<le> 65536"
    and h: "pcs w c = Holding t"
  shows "spin_rel n (w\<lparr>lock_word := spin_unlock (lock_word w), pcs := (pcs w)(c := Rest)\<rparr>)
    \<lparr>line = cs, granted = False\<rparr>"
proof -
  note rd = spin_relD [OF r]
  have d: "c \<notin> set cs" using rd(1) q by simp
  have only: "x = c" if "pcs w x = Holding t'" for x t'
  proof -
    have "ticket_of (pcs w x) = Some (spin_serving (lock_word w))"
      using rd(6) [OF that] that by (simp add: ticket_of_def)
    from spin_rel_head [OF r n this] q show ?thesis by simp
  qed
  have "ticket_of (((pcs w)(c := Rest)) (cs ! i)) = Some (spin_serving (lock_word w) + 1 + of_nat i)"
    if "i < length cs" for i
  proof -
    have "cs ! i \<noteq> c" using d nth_mem [OF that] by metis
    then show ?thesis using rd(5) [of "Suc i"] q that by (simp add: add.assoc)
  qed
  moreover have "((pcs w)(c := Rest)) x \<noteq> Holding t'" for x t' using only [of x t'] by auto
  moreover have "spin_ticket (lock_word w) = spin_serving (lock_word w) + 1 + of_nat (length cs)"
    using rd(4) q by (simp add: add.assoc)
  moreover have "set cs = {x. ((pcs w)(c := Rest)) x \<noteq> Rest}"
    using rd(2) q d by auto
  ultimately show ?thesis
    unfolding spin_rel_def using rd(1,3) q by (intro conjI) (auto simp: spin_unlock_word)
qed

text \<open>Each access of a client is the step of the queue with the same name.\<close>

lemma spin_access_simulates:
  assumes "spin_access n e w w'" and r: "spin_rel n w q" and n: "n \<le> 65536"
  shows "\<exists>q'. fifo_step e q q' \<and> spin_rel n w' q'"
  using assms(1)
proof cases
  case (take c t v)
  have c: "c \<notin> set (line q)" using take(4) spin_relD(2) [OF r] by simp
  show ?thesis
    using spin_rel_join [OF r take(3,4), of "Spinning t" "granted q"] take(1,2,5) fifo_step.join [OF c]
    by (fastforce simp: spin_take_def)
next
  case (enter c t)
  then have tk: "ticket_of (pcs w c) = Some (spin_serving (lock_word w))"
    by (simp add: ticket_of_def spin_served_iff)
  obtain cs where cs: "line q = c # cs" using spin_rel_head [OF r n tk] by blast
  have ng: "\<not> granted q"
  proof
    assume "granted q"
    then obtain d u where "pcs w d = Holding u" using r by (auto simp: spin_rel_def)
    moreover from this have "u = spin_serving (lock_word w)" using r by (auto simp: spin_rel_def)
    ultimately have "d = c" using spin_rel_head [OF r n, of d] cs by (simp add: ticket_of_def)
    with \<open>pcs w d = Holding u\<close> enter show False by simp
  qed
  have "spin_rel n w' (q\<lparr>granted := True\<rparr>)"
    using r enter unfolding spin_rel_def spin_served_iff by (auto simp: ticket_of_def split: if_splits)
  then show ?thesis using fifo_step.grant [OF cs ng] enter(1) by blast
next
  case (try_lock c v)
  then have free: "spin_ticket (lock_word w) = spin_serving (lock_word w)" "v = lock_word w + push_bit 16 1"
    by (auto simp: spin_try_lock_def try_free Let_def split: if_splits)
  then have "(of_nat (length (line q)) :: word16) = 0" using r by (simp add: spin_rel_def)
  moreover have "length (line q) < 65536" using spin_rel_length(2) [OF r try_lock(3,4)] n by linarith
  ultimately have e: "line q = []" by (simp add: of_nat_half)
  then have ng: "\<not> granted q" using spin_relD(2,7) [OF r] by fastforce
  show ?thesis
    using spin_rel_join [OF r try_lock(3,4), of "Holding (spin_ticket (lock_word w))" True]
      fifo_step.join_granted [OF e ng, of c] e free(2) try_lock(1,2) by auto
next
  case (release c t)
  then have tk: "ticket_of (pcs w c) = Some (spin_serving (lock_word w))"
    using r by (auto simp: spin_rel_def ticket_of_def)
  obtain cs where cs: "line q = c # cs" using spin_rel_head [OF r n tk] by blast
  have "granted q" using r release by (auto simp: spin_rel_def)
  from fifo_step.leave [OF cs this] show ?thesis
    using spin_rel_leave [OF r cs n release(4)] release(1,2) by blast
qed

lemma spin_rel_start: "spin_rel n spin_start \<lparr>line = [], granted = False\<rparr>"
  by (simp add: spin_rel_def spin_start_def)

lemma spin_run_simulates:
  assumes "spin_run n es w" and n: "n \<le> 65536"
  shows "\<exists>q. fifo_run es q \<and> spin_rel n w q"
  using assms(1)
proof (induction rule: spin_run.induct)
  case start
  show ?case using spin_rel_start fifo_run.start by blast
next
  case (step es w e w')
  then show ?case using spin_access_simulates [OF step(2) _ n] fifo_run.step by blast
qed

lemma spin_simulation:
  assumes "rtranclp (spin_step n) spin_start w" and n: "n \<le> 65536"
  shows "\<exists>q. spin_rel n w q"
  using assms(1)
proof (induction rule: rtranclp_induct)
  case base
  show ?case using spin_rel_start by blast
next
  case (step w w')
  then show ?case using spin_access_simulates [OF _ _ n] unfolding spin_step_def by blast
qed

section \<open>What the lock promises\<close>

text \<open>
  C13. The ticket lock is a first-come first-served lock. With at most 65536 clients the events of
  every run are, one for one, events of a queue that clients join at the end and of which only
  the first gets the lock. So clients get the lock in the order in which they took their
  tickets, give it back in that order, one before the next gets it, and those that have not
  given it back are the clients that wait or hold, a holder before all who wait. The
  wrap-around of the two 16-bit counters does no harm.
\<close>

theorem ticket_lock_fifo:
  assumes "spin_run n es w" and "n \<le> 65536"
  shows "\<exists>q. fifo_run es q \<and> requests es = returned es @ line q \<and>
    grants es = returned es @ (if granted q then [hd (line q)] else []) \<and>
    distinct (line q) \<and> set (line q) = {c. pcs w c \<noteq> Rest} \<and>
    (\<forall>c. (\<exists>t. pcs w c = Holding t) \<longleftrightarrow> granted q \<and> c = hd (line q))"
proof -
  obtain q where q: "fifo_run es q" "spin_rel n w q" using spin_run_simulates [OF assms] by blast
  have h: "c = hd (line q)" if "pcs w c = Holding t" for c t
    using spin_rel_head [OF q(2) assms(2), of c] spin_relD(6) [OF q(2) that] that
    by (auto simp: ticket_of_def)
  then have "(\<exists>t. pcs w c = Holding t) \<longleftrightarrow> granted q \<and> c = hd (line q)" for c
    using spin_relD(7) [OF q(2)] by metis
  then show ?thesis using q fifo_run_orders(1,2) [OF q(1)] spin_relD(1,2) [OF q(2)] by (intro exI [of _ q]) auto
qed

text \<open>
  C14. Mutual exclusion and progress: never do two clients hold the lock, and when some client
  waits and none holds it, exactly one of the waiting clients finds its ticket served.
\<close>

theorem ticket_lock_safe:
  assumes "rtranclp (spin_step n) spin_start w" and "n \<le> 65536"
  shows "(\<forall>c d t u. pcs w c = Holding t \<and> pcs w d = Holding u \<longrightarrow> c = d) \<and>
    ((\<exists>c t. pcs w c = Spinning t) \<and> (\<forall>c t. pcs w c \<noteq> Holding t) \<longrightarrow>
      (\<exists>!c. \<exists>t. pcs w c = Spinning t \<and> spin_served t (lock_word w)))"
proof -
  obtain q where q: "spin_rel n w q" using spin_simulation [OF assms] by blast
  note head = spin_rel_head [OF q assms(2)]
  have "c = d" if "pcs w c = Holding t" "pcs w d = Holding u" for c d t u
    using head [of c] head [of d] spin_relD(6) [OF q] that by (fastforce simp: ticket_of_def)
  moreover have "\<exists>!c. \<exists>t. pcs w c = Spinning t \<and> spin_served t (lock_word w)"
    if s: "pcs w c = Spinning t" and h: "\<forall>c t. pcs w c \<noteq> Holding t" for c t
  proof -
    have "line q \<noteq> []" using s spin_relD(2) [OF q, of c] by auto
    then obtain x xs where x: "line q = x # xs" by (cases "line q") auto
    then have "ticket_of (pcs w x) = Some (spin_serving (lock_word w))"
      using spin_relD(5) [OF q, of 0] by simp
    then have "pcs w x = Spinning (spin_serving (lock_word w))"
      using h by (auto simp: ticket_of_def split: spin_pc.splits)
    moreover have "y = x" if "pcs w y = Spinning u" "spin_served u (lock_word w)" for y u
      using head [of y] that x by (simp add: ticket_of_def spin_served_iff)
    ultimately show ?thesis by (auto simp: spin_served_iff)
  qed
  ultimately show ?thesis by blast
qed

text \<open>Client 1 takes a ticket before client 0, gets the lock and gives it back; then client 0 gets it.\<close>

lemma two_clients_run:
  "spin_run 2 [Takes 1, Takes 0, Enters 1, Releases 1, Enters 0]
     \<lparr>lock_word = 0x20001, pcs = (\<lambda>_. Rest)(1 := Rest, 0 := Holding 1)\<rparr>"
proof -
  let ?w = "\<lambda>v a b. \<lparr>lock_word = v, pcs = (\<lambda>_. Rest)(1 := a, 0 := b)\<rparr>"
  have 0: "spin_run 2 [] (?w 0 Rest Rest)" using spin_run.start [of 2] by (simp add: spin_start_def fun_upd_idem)
  have "spin_access 2 (Takes 1) (?w 0 Rest Rest) (?w 0x10000 (Spinning 0) Rest)"
    using spin_access.take [of 1 2 "?w 0 Rest Rest"] by (simp add: spin_take_def fun_upd_twist)
  note 1 = spin_run.step [OF 0 this]
  have "spin_access 2 (Takes 0) (?w 0x10000 (Spinning 0) Rest) (?w 0x20000 (Spinning 0) (Spinning 1))"
    using spin_access.take [of 0 2 "?w 0x10000 (Spinning 0) Rest"] by (simp add: spin_take_def spin_ticket_def)
  note 2 = spin_run.step [OF 1 this]
  have "spin_access 2 (Enters 1) (?w 0x20000 (Spinning 0) (Spinning 1)) (?w 0x20000 (Holding 0) (Spinning 1))"
    using spin_access.enter [of 1 2 "?w 0x20000 (Spinning 0) (Spinning 1)" 0] by (simp add: spin_served_def fun_upd_twist)
  note 3 = spin_run.step [OF 2 this]
  have "spin_access 2 (Releases 1) (?w 0x20000 (Holding 0) (Spinning 1)) (?w 0x20001 Rest (Spinning 1))"
    using spin_access.release [of 1 2 "?w 0x20000 (Holding 0) (Spinning 1)" 0] by (simp add: spin_unlock_def fun_upd_twist)
  note 4 = spin_run.step [OF 3 this]
  have "spin_access 2 (Enters 0) (?w 0x20001 Rest (Spinning 1)) (?w 0x20001 Rest (Holding 1))"
    using spin_access.enter [of 0 2 "?w 0x20001 Rest (Spinning 1)" 1] by (simp add: spin_served_def)
  from spin_run.step [OF 4 this] show ?thesis by simp
qed

lemma two_clients:
  "rtranclp (spin_step 2) spin_start
     \<lparr>lock_word = 0x20000, pcs = (\<lambda>_. Rest)(0 := Spinning 0, 1 := Spinning 1)\<rparr>"
proof -
  let ?w = "\<lparr>lock_word = 0x10000, pcs = (\<lambda>_. Rest)(0 := Spinning 0)\<rparr>"
  have "spin_step 2 spin_start (spin_start\<lparr>lock_word := 0x10000, pcs := (pcs spin_start)(0 := Spinning 0)\<rparr>)"
    unfolding spin_step_def by (intro exI, rule spin_access.take) (simp_all add: spin_start_def spin_take_def)
  moreover have "spin_step 2 ?w (?w\<lparr>lock_word := 0x20000, pcs := (pcs ?w)(1 := Spinning 1)\<rparr>)"
    unfolding spin_step_def by (intro exI, rule spin_access.take) (simp_all add: spin_take_def spin_ticket_def)
  ultimately show ?thesis by (simp add: spin_start_def fun_upd_twist)
qed

theorem ticket_lock_fifo_witness:
  "\<exists>q. fifo_run [Takes 1, Takes 0, Enters 1, Releases 1, Enters 0] q \<and> line q = [0] \<and> granted q"
proof -
  let ?es = "[Takes 1, Takes 0, Enters 1, Releases 1, Enters 0]"
  have "requests ?es = [1, 0]" "returned ?es = [1]" "grants ?es = [1, 0]"
    by (simp_all add: requests_def returned_def grants_def)
  with ticket_lock_fifo [OF two_clients_run] show ?thesis by (auto split: if_splits)
qed

theorem ticket_lock_safe_witness:
  "\<exists>!c. \<exists>t. ((\<lambda>_. Rest)(0 := Spinning 0, 1 := Spinning 1)) (c :: nat) = Spinning t \<and> spin_served t 0x20000"
proof -
  let ?p = "(\<lambda>_. Rest)(0 := Spinning 0, 1 := Spinning 1) :: nat \<Rightarrow> spin_pc"
  have "\<exists>c t. ?p c = Spinning t" "\<forall>c t. ?p c \<noteq> Holding t" by auto
  with ticket_lock_safe [OF two_clients] show ?thesis by simp
qed

section \<open>A whole critical section\<close>

text \<open>A lock nobody holds or waits for, and its word after one client has locked and unlocked it.\<close>

definition spin_free :: "word32 \<Rightarrow> bool" where
  "spin_free v \<longleftrightarrow> spin_ticket v = spin_serving v"

definition spin_cycle :: "word32 \<Rightarrow> word32" where
  "spin_cycle v = spin_unlock (snd (spin_take v))"

lemma spin_free_0 [simp]: "spin_free 0"
  by (simp add: spin_free_def)

lemma spin_free_served: "spin_free v \<Longrightarrow> spin_served (fst (spin_take v)) (snd (spin_take v))"
  by (simp add: spin_free_def spin_take_def spin_served_iff spin_take_word)

lemma spin_free_cycle [simp]: "spin_free (spin_cycle v) = spin_free v"
  by (simp add: spin_free_def spin_cycle_def spin_take_def spin_unlock_word spin_take_word)

end
