(* ===== verification/Rtos_State.thy ===== *)
theory Rtos_State
  imports Sched_Props Spinlock
begin

text \<open>
  The state of the CMSIS-RTOS2 layer \<open>pico-cmsis-rtos2\<close>: the control blocks of
  \<open>cmsis-rtos2.h\<close>, the kernel with its lists of resources, and the scheduler underneath.

  A control block is an address. What the blocks of all kinds begin with (marker, name,
  attribute bits) is in \<open>hdr\<close>; the rest is in one map per kind. The words the futexes guard
  (the value of a semaphore or mutex, the event flags) are in the memory of the scheduler at
  their offset in the block, where the futex code finds them; so are the links between the free
  blocks of a pool. The buffers of messages and elements are in \<open>bytes\<close>. The spin locks are in
  \<open>locks\<close>.
\<close>

section \<open>Constants\<close>

abbreviation (input) RTOS_THREAD_MARKER :: word32 where "RTOS_THREAD_MARKER \<equiv> 0x42011024"
abbreviation (input) RTOS_MUTEX_MARKER :: word32 where "RTOS_MUTEX_MARKER \<equiv> 0x42022024"
abbreviation (input) RTOS_MEMORY_POOL_MARKER :: word32 where "RTOS_MEMORY_POOL_MARKER \<equiv> 0x42033024"
abbreviation (input) RTOS_SEMAPHORE_MARKER :: word32 where "RTOS_SEMAPHORE_MARKER \<equiv> 0x42044024"
abbreviation (input) RTOS_EVENTFLAGS_MARKER :: word32 where "RTOS_EVENTFLAGS_MARKER \<equiv> 0x42055024"
abbreviation (input) RTOS_TIMER_MARKER :: word32 where "RTOS_TIMER_MARKER \<equiv> 0x42066024"
abbreviation (input) RTOS_MESSAGE_QUEUE_MARKER :: word32 where "RTOS_MESSAGE_QUEUE_MARKER \<equiv> 0x42077024"
abbreviation (input) RTOS_DEQUE_MARKER :: word32 where "RTOS_DEQUE_MARKER \<equiv> 0x42088024"

abbreviation (input) osDynamicAlloc :: word32 where "osDynamicAlloc \<equiv> 0x80000000"
abbreviation (input) osReapThread :: word32 where "osReapThread \<equiv> 0x40000000"
abbreviation (input) osThreadCreateSuspended :: word32 where "osThreadCreateSuspended \<equiv> 0x20000000"
abbreviation (input) osThreadJoinable :: word32 where "osThreadJoinable \<equiv> 1"
abbreviation (input) osMutexRecursive :: word32 where "osMutexRecursive \<equiv> 1"
abbreviation (input) osMutexPrioInherit :: word32 where "osMutexPrioInherit \<equiv> 2"
abbreviation (input) osMutexRobust :: word32 where "osMutexRobust \<equiv> 8"
abbreviation (input) RTOS_NAME_SIZE :: nat where "RTOS_NAME_SIZE \<equiv> 32"
abbreviation (input) osWaitForever :: word32 where "osWaitForever \<equiv> 0xffffffff"

abbreviation (input) osOK :: word32 where "osOK \<equiv> 0"
abbreviation (input) osError :: word32 where "osError \<equiv> 0xffffffff"
abbreviation (input) osErrorTimeout :: word32 where "osErrorTimeout \<equiv> 0xfffffffe"
abbreviation (input) osErrorResource :: word32 where "osErrorResource \<equiv> 0xfffffffd"
abbreviation (input) osErrorParameter :: word32 where "osErrorParameter \<equiv> 0xfffffffc"
abbreviation (input) osErrorNoMemory :: word32 where "osErrorNoMemory \<equiv> 0xfffffffb"
abbreviation (input) osErrorISR :: word32 where "osErrorISR \<equiv> 0xfffffffa"

abbreviation (input) osFlagsWaitAny :: word32 where "osFlagsWaitAny \<equiv> 0"
abbreviation (input) osFlagsWaitAll :: word32 where "osFlagsWaitAll \<equiv> 1"
abbreviation (input) osFlagsNoClear :: word32 where "osFlagsNoClear \<equiv> 2"
abbreviation (input) osFlagsError :: word32 where "osFlagsError \<equiv> 0x80000000"
abbreviation (input) osFlagsErrorUnknown :: word32 where "osFlagsErrorUnknown \<equiv> 0xffffffff"
abbreviation (input) osFlagsErrorResource :: word32 where "osFlagsErrorResource \<equiv> 0xfffffffd"
abbreviation (input) osFlagsErrorParameter :: word32 where "osFlagsErrorParameter \<equiv> 0xfffffffc"

abbreviation (input) SCHEDULER_REALTIME_IRQ_PRIORITY :: word32 where "SCHEDULER_REALTIME_IRQ_PRIORITY \<equiv> 0"

section \<open>Structures\<close>

datatype kernel_state =
  osKernelInactive | osKernelReady | osKernelRunning | osKernelLocked | osKernelSuspended

datatype resource_id =
  osResourceThread | osResourceMutex | osResourceRobustMutex | osResourceMemoryPool |
  osResourceSemaphore | osResourceEventFlags | osResourceTimer | osResourceMessageQueue |
  osResourceDeque

text \<open>The name, marker and node offset of each list of resources.\<close>

fun resource_name :: "resource_id \<Rightarrow> string" where
  "resource_name osResourceThread = ''thread''"
| "resource_name osResourceMutex = ''mutex''"
| "resource_name osResourceRobustMutex = ''robust_mutex''"
| "resource_name osResourceMemoryPool = ''memory_pool''"
| "resource_name osResourceSemaphore = ''semaphore''"
| "resource_name osResourceEventFlags = ''eventflags''"
| "resource_name osResourceTimer = ''timer''"
| "resource_name osResourceMessageQueue = ''message_queue''"
| "resource_name osResourceDeque = ''deque''"

fun resource_marker :: "resource_id \<Rightarrow> word32" where
  "resource_marker osResourceThread = RTOS_THREAD_MARKER"
| "resource_marker osResourceMutex = RTOS_MUTEX_MARKER"
| "resource_marker osResourceRobustMutex = RTOS_MUTEX_MARKER"
| "resource_marker osResourceMemoryPool = RTOS_MEMORY_POOL_MARKER"
| "resource_marker osResourceSemaphore = RTOS_SEMAPHORE_MARKER"
| "resource_marker osResourceEventFlags = RTOS_EVENTFLAGS_MARKER"
| "resource_marker osResourceTimer = RTOS_TIMER_MARKER"
| "resource_marker osResourceMessageQueue = RTOS_MESSAGE_QUEUE_MARKER"
| "resource_marker osResourceDeque = RTOS_DEQUE_MARKER"

fun resource_offset :: "resource_id \<Rightarrow> word32" where
  "resource_offset osResourceThread = 224"
| "resource_offset osResourceMutex = 76"
| "resource_offset osResourceRobustMutex = 76"
| "resource_offset osResourceMemoryPool = 144"
| "resource_offset osResourceSemaphore = 76"
| "resource_offset osResourceEventFlags = 76"
| "resource_offset osResourceTimer = 68"
| "resource_offset osResourceMessageQueue = 300"
| "resource_offset osResourceDeque = 152"

datatype lock_id = KernelLock | ResourceLock resource_id | ActiveTimersLock | ObjectLock addr

record rtos_header =
  marker :: word32
  obj_name :: string
  attr_bits :: word32

record rtos_memory_pool =
  block_size :: word32
  capacity :: word32
  pool_data :: addr
  free_list :: addr

record rtos_message_queue =
  msg_size :: word32
  msg_count :: word32
  messages :: "addr list"

record rtos_deque =
  element_size :: word32
  element_count :: word32
  dq_front :: word32
  dq_back :: word32
  dq_buffer :: addr
  dq_waiters :: word32

datatype timer_type = osTimerOnce | osTimerPeriodic

record rtos_timer =
  tm_type :: timer_type
  tm_func :: addr
  tm_argument :: addr
  tm_ticks :: word32
  tm_target :: word32

record rtos_thread =
  th_func :: addr
  th_context :: addr
  th_stack :: addr
  th_stack_size :: word32

record rtos =
  ker :: sys
  kernel_set :: bool
  k_state :: kernel_state
  k_locked :: word32
  resources :: "resource_id \<Rightarrow> addr list"
  locks :: "lock_id \<Rightarrow> word32"
  hdr :: "addr \<Rightarrow> rtos_header"
  max_count :: "addr \<Rightarrow> word32"
  lock_count :: "addr \<Rightarrow> word32"
  ef_waiters :: "addr \<Rightarrow> word32"
  pool_of :: "addr \<Rightarrow> rtos_memory_pool"
  queue_of :: "addr \<Rightarrow> rtos_message_queue"
  msg_priority :: "addr \<Rightarrow> word32"
  deque_of :: "addr \<Rightarrow> rtos_deque"
  timer_of :: "addr \<Rightarrow> rtos_timer"
  thread_of :: "addr \<Rightarrow> rtos_thread"
  active_timers :: "addr list"
  timer_queue :: addr
  timer_thread :: addr
  reaper_thread :: addr
  bytes :: "addr \<Rightarrow> word8"

text \<open>
  The offsets of the embedded parts. A semaphore, a mutex and event flags have their futex and
  the word it guards at the same places.
\<close>

abbreviation futex_at :: "addr \<Rightarrow> addr" where "futex_at obj \<equiv> obj + 40"
abbreviation sem_value_at :: "addr \<Rightarrow> addr" where "sem_value_at sem \<equiv> sem + 72"
abbreviation mutex_value_at :: "addr \<Rightarrow> addr" where "mutex_value_at mutex \<equiv> mutex + 68"
abbreviation flags_at :: "addr \<Rightarrow> addr" where "flags_at ef \<equiv> ef + 72"
abbreviation pool_semaphore_at :: "addr \<Rightarrow> addr" where "pool_semaphore_at pool \<equiv> pool + 52"
abbreviation data_available_at :: "addr \<Rightarrow> addr" where "data_available_at mq \<equiv> mq + 48"
abbreviation message_pool_at :: "addr \<Rightarrow> addr" where "message_pool_at mq \<equiv> mq + 136"
abbreviation events_at :: "addr \<Rightarrow> addr" where "events_at dq \<equiv> dq + 48"
abbreviation joiner_at :: "addr \<Rightarrow> addr" where "joiner_at thread \<equiv> thread + 56"
abbreviation thread_flags_at :: "addr \<Rightarrow> addr" where "thread_flags_at thread \<equiv> thread + 140"

abbreviation (input) SIZEOF_SEMAPHORE :: word32 where "SIZEOF_SEMAPHORE \<equiv> 84"
abbreviation (input) SIZEOF_MUTEX :: word32 where "SIZEOF_MUTEX \<equiv> 84"
abbreviation (input) SIZEOF_EVENTFLAGS :: word32 where "SIZEOF_EVENTFLAGS \<equiv> 84"
abbreviation (input) SIZEOF_MEMORY_POOL :: word32 where "SIZEOF_MEMORY_POOL \<equiv> 152"
abbreviation (input) SIZEOF_MESSAGE :: word32 where "SIZEOF_MESSAGE \<equiv> 16"
abbreviation (input) SIZEOF_MESSAGE_QUEUE :: word32 where "SIZEOF_MESSAGE_QUEUE \<equiv> 312"
abbreviation (input) SIZEOF_DEQUE :: word32 where "SIZEOF_DEQUE \<equiv> 160"
abbreviation (input) SIZEOF_TIMER :: word32 where "SIZEOF_TIMER \<equiv> 76"
abbreviation (input) SIZEOF_THREAD :: word32 where "SIZEOF_THREAD \<equiv> 232"

text \<open>
  What the layer gets from outside: the allocator of the application (\<open>_rtos2_alloc\<close> and
  \<open>_rtos2_release\<close>, weak symbols that default to the C library), the interrupt priorities, the
  size of the thread local storage the linker gives and its set-up, the registers at a system
  call, and where the linker puts the static functions and once flags of the layer. \<open>p_local\<close> is the
  address of the local futex of the calling thread.
\<close>

record port =
  p_alloc :: "word32 \<Rightarrow> rtos \<Rightarrow> addr \<times> rtos"
  p_release :: "addr \<Rightarrow> rtos \<Rightarrow> rtos"
  p_irq_priority :: "word32 \<Rightarrow> word32"
  p_tls_size :: word32
  p_frame :: scheduler_frame
  p_eframe :: exception_frame
  p_tls_init :: "addr \<Rightarrow> sys \<Rightarrow> sys"
  p_task_entry :: addr
  p_task_exit :: addr
  p_reaper :: addr
  p_reaper_once :: addr
  p_timer :: addr
  p_timer_once :: addr
  p_local :: addr

text \<open>The attribute structure of a new object; \<open>a_mem\<close> is the second block where there is one.\<close>

record os_attr =
  a_name :: "string option"
  a_attr_bits :: word32
  a_cb_mem :: addr
  a_cb_size :: word32
  a_mem :: addr
  a_size :: word32

definition no_attr :: os_attr where
  "no_attr = \<lparr>a_name = None, a_attr_bits = 0, a_cb_mem = 0, a_cb_size = 0, a_mem = 0, a_size = 0\<rparr>"

section \<open>Access\<close>

abbreviation mem_word :: "rtos \<Rightarrow> addr \<Rightarrow> word32" where
  "mem_word s a \<equiv> mem (ker s) a"

definition mem_upd :: "addr \<Rightarrow> word32 \<Rightarrow> rtos \<Rightarrow> rtos" where
  "mem_upd a v s = s\<lparr>ker := (ker s)\<lparr>mem := (mem (ker s))(a := v)\<rparr>\<rparr>"

definition hdr_upd :: "addr \<Rightarrow> (rtos_header \<Rightarrow> rtos_header) \<Rightarrow> rtos \<Rightarrow> rtos" where
  "hdr_upd a f s = s\<lparr>hdr := (hdr s)(a := f (hdr s a))\<rparr>"

text \<open>\<open>strncpy\<close> of a C string into the name and the terminator at its end.\<close>

definition name_of :: "os_attr \<Rightarrow> string" where
  "name_of attr = take (RTOS_NAME_SIZE - 1) (case a_name attr of None \<Rightarrow> [] | Some n \<Rightarrow> n)"

text \<open>An atomic compare and exchange of a word: whether it stored, the word it saw, the new state.\<close>

definition compare_exchange :: "addr \<Rightarrow> word32 \<Rightarrow> word32 \<Rightarrow> rtos \<Rightarrow> bool \<times> word32 \<times> rtos" where
  "compare_exchange a expected desired s =
    (if mem_word s a = expected then (True, expected, mem_upd a desired s)
     else (False, mem_word s a, s))"

definition osKernelContextIsValid :: "port \<Rightarrow> bool \<Rightarrow> word32 \<Rightarrow> rtos \<Rightarrow> word32" where
  "osKernelContextIsValid P allowed timeout s =
    (if allowed
     then let irq = ipsr (ker s)
          in if irq = 0 then osOK
             else if timeout \<noteq> 0 then osErrorParameter
             else if p_irq_priority P (irq - 16) = SCHEDULER_REALTIME_IRQ_PRIORITY then osErrorISR
             else osOK
     else if ipsr (ker s) \<noteq> 0 then osErrorISR
     else osOK)"

text \<open>A control block is accepted with its marker or with the complement of it.\<close>

definition osIsResourceValid :: "addr \<Rightarrow> word32 \<Rightarrow> rtos \<Rightarrow> word32" where
  "osIsResourceValid resource m s =
    (if resource \<noteq> 0 \<and> (marker (hdr s resource) = m \<or> marker (hdr s resource) = NOT m)
     then osOK else osErrorParameter)"

section \<open>Spin locks\<close>

text \<open>
  \<open>spin_lock_irqsave\<close> and \<open>spin_unlock_irqrestore\<close>. The caller runs with interrupts disabled,
  so a lock that is not free stays so: the wait does not end, which is \<open>None\<close>. The theory
  Spinlock has the lock under contention.
\<close>

definition spin_lock_irqsave :: "lock_id \<Rightarrow> rtos \<Rightarrow> (bool \<times> rtos) option" where
  "spin_lock_irqsave l s = do {
     let state = primask (ker s);
     let s = s\<lparr>ker := (ker s)\<lparr>primask := True\<rparr>\<rparr>;
     let (ticket, v) = spin_take (locks s l);
     let s = s\<lparr>locks := (locks s)(l := v)\<rparr>;
     s \<leftarrow> check (spin_served ticket v) s;
     Some (state, s)
   }"

definition spin_unlock_irqrestore :: "lock_id \<Rightarrow> bool \<Rightarrow> rtos \<Rightarrow> rtos" where
  "spin_unlock_irqrestore l state s =
    (let s = s\<lparr>locks := (locks s)(l := spin_unlock (locks s l))\<rparr>
     in s\<lparr>ker := (ker s)\<lparr>primask := state\<rparr>\<rparr>)"

text \<open>A piece of code between the two.\<close>

definition locked_section :: "lock_id \<Rightarrow> (rtos \<Rightarrow> ('a \<times> rtos) option) \<Rightarrow> rtos \<Rightarrow> ('a \<times> rtos) option" where
  "locked_section l body s = do {
     (state, s) \<leftarrow> spin_lock_irqsave l s;
     (x, s) \<leftarrow> body s;
     Some (x, spin_unlock_irqrestore l state s)
   }"

section \<open>Resource lists\<close>

definition osKernelResourceAdd :: "port \<Rightarrow> resource_id \<Rightarrow> addr \<Rightarrow> rtos \<Rightarrow> (word32 \<times> rtos) option" where
  "osKernelResourceAdd P r node s =
    (if osKernelContextIsValid P False 0 s \<noteq> osOK then Some (osKernelContextIsValid P False 0 s, s)
     else if node = 0 then Some (osErrorParameter, s)
     else do {
       s \<leftarrow> check (kernel_set s) s;
       locked_section (ResourceLock r)
         (\<lambda>s. Some (osOK, s\<lparr>resources := (resources s)(r := resources s r @ [node])\<rparr>)) s
     })"

text \<open>\<open>list_remove\<close> takes the node out of whichever list holds it.\<close>

definition osKernelResourceRemove :: "port \<Rightarrow> resource_id \<Rightarrow> addr \<Rightarrow> rtos \<Rightarrow> (word32 \<times> rtos) option" where
  "osKernelResourceRemove P r node s =
    (if osKernelContextIsValid P False 0 s \<noteq> osOK then Some (osKernelContextIsValid P False 0 s, s)
     else if node = 0 then Some (osErrorParameter, s)
     else do {
       s \<leftarrow> check (kernel_set s) s;
       locked_section (ResourceLock r)
         (\<lambda>s. Some (osOK, s\<lparr>resources := (\<lambda>q. filter ((\<noteq>) node) (resources s q))\<rparr>)) s
     })"

text \<open>The walk fetches the next node before the callback, which may unlink the current one.\<close>

fun resource_walk :: "(addr \<Rightarrow> rtos \<Rightarrow> (word32 \<times> rtos) option) \<Rightarrow> word32 \<Rightarrow> addr list \<Rightarrow> rtos
    \<Rightarrow> (word32 \<times> rtos) option" where
  "resource_walk func offset [] s = Some (osOK, s)"
| "resource_walk func offset (n # ns) s = do {
     (status, s) \<leftarrow> func (n - offset) s;
     if status \<noteq> osOK then Some (status, s) else resource_walk func offset ns s
   }"

definition osKernelResourceForEach ::
  "port \<Rightarrow> resource_id \<Rightarrow> (addr \<Rightarrow> rtos \<Rightarrow> (word32 \<times> rtos) option) \<Rightarrow> rtos \<Rightarrow> (word32 \<times> rtos) option" where
  "osKernelResourceForEach P r func s =
    (if osKernelContextIsValid P False 0 s \<noteq> osOK then Some (osKernelContextIsValid P False 0 s, s)
     else do {
       s \<leftarrow> check (kernel_set s) s;
       locked_section (ResourceLock r)
         (\<lambda>s. resource_walk func (resource_offset r) (resources s r) s) s
     })"

definition osKernelResourceIsRegistered :: "port \<Rightarrow> resource_id \<Rightarrow> addr \<Rightarrow> rtos \<Rightarrow> (word32 \<times> rtos) option" where
  "osKernelResourceIsRegistered P r resource s = do {
     (status, s) \<leftarrow> osKernelResourceForEach P r (\<lambda>x s. Some (if x = resource then 1 else osOK, s)) s;
     Some (if 1 \<le>s status then osOK else osErrorResource, s)
   }"

section \<open>Futexes\<close>

definition rtos_futex_init :: "addr \<Rightarrow> addr \<Rightarrow> word32 \<Rightarrow> rtos \<Rightarrow> rtos option" where
  "rtos_futex_init f value_ptr flags s =
    map_option (\<lambda>k. s\<lparr>ker := k\<rparr>) (scheduler_futex_init f value_ptr flags (ker s))"

definition rtos_futex_wait ::
  "port \<Rightarrow> (rtos \<Rightarrow> rtos) \<Rightarrow> addr \<Rightarrow> word32 \<Rightarrow> word32 \<Rightarrow> rtos \<Rightarrow> (word32 \<times> rtos) option" where
  "rtos_futex_wait P run f val ticks = futex_wait_in ker ker_update run (p_frame P) f val ticks"

definition rtos_futex_wake :: "port \<Rightarrow> addr \<Rightarrow> bool \<Rightarrow> rtos \<Rightarrow> (word32 \<times> rtos) option" where
  "rtos_futex_wake P f all s =
    map_option (\<lambda>(status, k). (status, s\<lparr>ker := k\<rparr>)) (scheduler_futex_wake (p_eframe P) f all (ker s))"

text \<open>The status of a wait as the layer reports it.\<close>

definition wait_failed :: "word32 \<Rightarrow> word32" where
  "wait_failed status = (if status = - ETIMEDOUT \<or> status = - ECANCELED then osErrorTimeout else osError)"

text \<open>Memory for a control block of \<open>n\<close> bytes, given or allocated; 0 when there is none.\<close>

definition control_block :: "port \<Rightarrow> word32 \<Rightarrow> os_attr \<Rightarrow> rtos \<Rightarrow> addr \<times> rtos" where
  "control_block P n attr s =
    (if a_cb_mem attr = 0 then p_alloc P n s
     else if a_cb_size attr < n then (0, s)
     else (a_cb_mem attr, s))"

definition init_header :: "word32 \<Rightarrow> os_attr \<Rightarrow> addr \<Rightarrow> rtos_header \<Rightarrow> rtos_header" where
  "init_header m attr new h = h\<lparr>marker := m, obj_name := name_of attr,
     attr_bits := a_attr_bits attr OR (if new \<noteq> a_cb_mem attr then osDynamicAlloc else 0)\<rparr>"

definition release_dynamic :: "port \<Rightarrow> addr \<Rightarrow> rtos \<Rightarrow> rtos" where
  "release_dynamic P obj s = (if has_flag (attr_bits (hdr s obj)) osDynamicAlloc then p_release P obj s else s)"

text \<open>The name of an object for the application; none for an empty name.\<close>

definition get_name :: "port \<Rightarrow> word32 \<Rightarrow> addr \<Rightarrow> rtos \<Rightarrow> string option" where
  "get_name P m obj s =
    (if osKernelContextIsValid P False 0 s \<noteq> osOK then None
     else if osIsResourceValid obj m s \<noteq> osOK then None
     else if obj_name (hdr s obj) \<noteq> [] then Some (obj_name (hdr s obj)) else None)"

section \<open>Rules\<close>

lemma mem_upd_sel [simp]:
  "ker (mem_upd a v s) = (ker s)\<lparr>mem := (mem (ker s))(a := v)\<rparr>"
  "kernel_set (mem_upd a v s) = kernel_set s" "k_state (mem_upd a v s) = k_state s"
  "k_locked (mem_upd a v s) = k_locked s" "resources (mem_upd a v s) = resources s"
  "locks (mem_upd a v s) = locks s" "hdr (mem_upd a v s) = hdr s" "max_count (mem_upd a v s) = max_count s"
  "lock_count (mem_upd a v s) = lock_count s" "ef_waiters (mem_upd a v s) = ef_waiters s"
  "pool_of (mem_upd a v s) = pool_of s" "queue_of (mem_upd a v s) = queue_of s"
  "msg_priority (mem_upd a v s) = msg_priority s" "deque_of (mem_upd a v s) = deque_of s"
  "timer_of (mem_upd a v s) = timer_of s" "thread_of (mem_upd a v s) = thread_of s"
  "active_timers (mem_upd a v s) = active_timers s" "bytes (mem_upd a v s) = bytes s"
  "timer_queue (mem_upd a v s) = timer_queue s" "timer_thread (mem_upd a v s) = timer_thread s"
  "reaper_thread (mem_upd a v s) = reaper_thread s"
  by (simp_all add: mem_upd_def)

text \<open>The state after a lock has been taken and given back.\<close>

definition cycle_lock :: "lock_id \<Rightarrow> rtos \<Rightarrow> rtos" where
  "cycle_lock l s = s\<lparr>locks := (locks s)(l := spin_cycle (locks s l))\<rparr>"

lemma cycle_lock_sel [simp]:
  "ker (cycle_lock l s) = ker s"
  "kernel_set (cycle_lock l s) = kernel_set s" "k_state (cycle_lock l s) = k_state s"
  "k_locked (cycle_lock l s) = k_locked s" "resources (cycle_lock l s) = resources s"
  "hdr (cycle_lock l s) = hdr s" "max_count (cycle_lock l s) = max_count s"
  "lock_count (cycle_lock l s) = lock_count s" "ef_waiters (cycle_lock l s) = ef_waiters s"
  "pool_of (cycle_lock l s) = pool_of s" "queue_of (cycle_lock l s) = queue_of s"
  "msg_priority (cycle_lock l s) = msg_priority s" "deque_of (cycle_lock l s) = deque_of s"
  "timer_of (cycle_lock l s) = timer_of s" "thread_of (cycle_lock l s) = thread_of s"
  "active_timers (cycle_lock l s) = active_timers s" "bytes (cycle_lock l s) = bytes s"
  "timer_queue (cycle_lock l s) = timer_queue s" "timer_thread (cycle_lock l s) = timer_thread s"
  "reaper_thread (cycle_lock l s) = reaper_thread s"
  by (simp_all add: cycle_lock_def)

lemma cycle_lock_free [simp]: "spin_free (locks (cycle_lock l s) k) = spin_free (locks s k)"
  by (simp add: cycle_lock_def)

definition set_masked :: "bool \<Rightarrow> (lock_id \<Rightarrow> word32) \<Rightarrow> rtos \<Rightarrow> rtos" where
  "set_masked p L s = s\<lparr>ker := (ker s)\<lparr>primask := p\<rparr>, locks := L\<rparr>"

text \<open>A free lock is taken at once, and giving it back restores the mask.\<close>

lemma spin_lock_free:
  assumes "spin_free (locks s l)"
  shows "spin_lock_irqsave l s =
    Some (primask (ker s), set_masked True ((locks s)(l := snd (spin_take (locks s l)))) s)"
  using spin_free_served [OF assms] by (simp add: spin_lock_irqsave_def set_masked_def case_prod_beta)

lemma spin_unlock_taken:
  assumes "locks s1 = locks s" "primask (ker s1) = primask (ker s)"
  shows "spin_unlock_irqrestore l (primask (ker s))
    (set_masked True ((locks s)(l := snd (spin_take (locks s l)))) s1) = cycle_lock l s1"
proof (rule rtos.equality)
  show "ker (spin_unlock_irqrestore l (primask (ker s))
      (set_masked True ((locks s)(l := snd (spin_take (locks s l)))) s1)) = ker (cycle_lock l s1)"
    by (rule sys.equality) (simp_all add: spin_unlock_irqrestore_def set_masked_def cycle_lock_def Let_def assms)
qed (simp_all add: spin_unlock_irqrestore_def set_masked_def cycle_lock_def Let_def assms spin_cycle_def)

text \<open>A section on a free lock whose body neither looks at nor changes the lock and the mask.\<close>

lemma locked_section_free:
  assumes f: "spin_free (locks s l)"
    and b: "\<And>p L. body (set_masked p L s) = Some (x, set_masked p L s1)"
    and l: "locks s1 = locks s" "primask (ker s1) = primask (ker s)"
  shows "locked_section l body s = Some (x, cycle_lock l s1)"
  using spin_lock_free [OF f] spin_unlock_taken [OF l, of l] by (simp add: locked_section_def b)

lemma set_masked_sel [simp]:
  "kernel_set (set_masked p L s) = kernel_set s" "k_state (set_masked p L s) = k_state s"
  "k_locked (set_masked p L s) = k_locked s" "resources (set_masked p L s) = resources s"
  "hdr (set_masked p L s) = hdr s" "max_count (set_masked p L s) = max_count s"
  "lock_count (set_masked p L s) = lock_count s" "ef_waiters (set_masked p L s) = ef_waiters s"
  "pool_of (set_masked p L s) = pool_of s" "queue_of (set_masked p L s) = queue_of s"
  "msg_priority (set_masked p L s) = msg_priority s" "deque_of (set_masked p L s) = deque_of s"
  "timer_of (set_masked p L s) = timer_of s" "thread_of (set_masked p L s) = thread_of s"
  "active_timers (set_masked p L s) = active_timers s" "bytes (set_masked p L s) = bytes s"
  "timer_queue (set_masked p L s) = timer_queue s" "timer_thread (set_masked p L s) = timer_thread s"
  "reaper_thread (set_masked p L s) = reaper_thread s" "mem (ker (set_masked p L s)) = mem (ker s)"
  by (simp_all add: set_masked_def)

lemma set_masked_upd:
  "mem_upd a v (set_masked p L s) = set_masked p L (mem_upd a v s)"
  "(set_masked p L s)\<lparr>resources := r\<rparr> = set_masked p L (s\<lparr>resources := r\<rparr>)"
  "(set_masked p L s)\<lparr>pool_of := po\<rparr> = set_masked p L (s\<lparr>pool_of := po\<rparr>)"
  "(set_masked p L s)\<lparr>queue_of := qo\<rparr> = set_masked p L (s\<lparr>queue_of := qo\<rparr>)"
  "(set_masked p L s)\<lparr>deque_of := d\<rparr> = set_masked p L (s\<lparr>deque_of := d\<rparr>)"
  "(set_masked p L s)\<lparr>bytes := b\<rparr> = set_masked p L (s\<lparr>bytes := b\<rparr>)"
  "(set_masked p L s)\<lparr>active_timers := ts\<rparr> = set_masked p L (s\<lparr>active_timers := ts\<rparr>)"
  "(set_masked p L s)\<lparr>k_locked := kl\<rparr> = set_masked p L (s\<lparr>k_locked := kl\<rparr>)"
  "(set_masked p L s)\<lparr>k_state := ks\<rparr> = set_masked p L (s\<lparr>k_state := ks\<rparr>)"
  by (simp_all add: set_masked_def mem_upd_def)

lemma cycle_lock_upd:
  "(cycle_lock l s)\<lparr>resources := r\<rparr> = cycle_lock l (s\<lparr>resources := r\<rparr>)"
  "(cycle_lock l s)\<lparr>pool_of := po\<rparr> = cycle_lock l (s\<lparr>pool_of := po\<rparr>)"
  "(cycle_lock l s)\<lparr>queue_of := qo\<rparr> = cycle_lock l (s\<lparr>queue_of := qo\<rparr>)"
  "(cycle_lock l s)\<lparr>deque_of := d\<rparr> = cycle_lock l (s\<lparr>deque_of := d\<rparr>)"
  "(cycle_lock l s)\<lparr>bytes := b\<rparr> = cycle_lock l (s\<lparr>bytes := b\<rparr>)"
  "mem_upd a v (cycle_lock l s) = cycle_lock l (mem_upd a v s)"
  by (simp_all add: cycle_lock_def mem_upd_def)

text \<open>In thread context every call is allowed.\<close>

lemma context_valid [simp]:
  "ipsr (ker s) = 0 \<Longrightarrow> osKernelContextIsValid P allowed timeout s = osOK"
  by (simp add: osKernelContextIsValid_def)

lemma context_isr:
  "ipsr (ker s) \<noteq> 0 \<Longrightarrow> osKernelContextIsValid P False timeout s = osErrorISR"
  by (simp add: osKernelContextIsValid_def)

text \<open>
  The scheduler as the objects of the layer rely on it: a wake from a thread makes a prefix of
  the waiters ready; for a plain futex it leaves the memory alone.
\<close>

definition futex_plain :: "addr \<Rightarrow> sys \<Rightarrow> bool" where
  "futex_plain f k \<longleftrightarrow> f \<noteq> 0 \<and> f_marker (futex_of k f) = SCHEDULER_FUTEX_MARKER \<and> f_flags (futex_of k f) = 0"

definition plain_woken :: "addr \<Rightarrow> nat \<Rightarrow> sys \<Rightarrow> sys \<Rightarrow> bool" where
  "plain_woken f n k k' \<longleftrightarrow> kinv k' \<and> mem k' = mem k \<and> futex_of k' = futex_of k \<and>
    queues k' (Waiters f) = drop n (queues k (Waiters f)) \<and>
    (\<forall>g. g \<noteq> f \<longrightarrow> queues k' (Waiters g) = queues k (Waiters g)) \<and>
    (\<forall>t\<in>set (take n (queues k (Waiters f))). state_of k' t = TASK_READY \<and> t \<in> set (queues k' ReadyQueue)) \<and>
    (\<forall>t. t \<notin> set (take n (queues k (Waiters f))) \<longrightarrow> task_of k' t = task_of k t) \<and>
    this_core k' = this_core k \<and> ipsr k' = ipsr k \<and> primask k' = primask k \<and>
    (\<forall>c. current_task (cores k' c) = current_task (cores k c))"

lemma kinv_errno [simp]: "kinv (k\<lparr>errno := e\<rparr>) = kinv k"
  using slots_ok_cong [of "k\<lparr>errno := e\<rparr>" k] by (simp add: kinv_def)

lemma kinv_mem [simp]: "kinv (k\<lparr>mem := m\<rparr>) = kinv k"
  using slots_ok_cong [of "k\<lparr>mem := m\<rparr>" k] by (simp add: kinv_def)

lemma futex_plain_mem [simp]: "futex_plain f (k\<lparr>mem := m\<rparr>) = futex_plain f k"
  by (simp add: futex_plain_def)

lemma scheduler_futex_wake_tracked:
  assumes k: "kinv k" and i: "ipsr k = 0" and f: "f \<noteq> 0" "f_marker (futex_of k f) = SCHEDULER_FUTEX_MARKER"
    and p: "f_flags (futex_of k f) AND PI_OWNER \<noteq> PI_OWNER"
    and n: "n = wake_count (wakes_one f all k) (queues k (Waiters f))"
    and m: "m = (mem k)(f_value (futex_of k f) := tracked_word f k (n = length (queues k (Waiters f)))
      (if queues k (Waiters f) \<noteq> [] \<and> has_flag (f_flags (futex_of k f)) SCHEDULER_FUTEX_OWNER_TRACKING
       then hd (queues k (Waiters f)) else mem k (f_value (futex_of k f))))"
  shows "\<exists>k'. scheduler_futex_wake fr f all k = Some (of_nat n, k') \<and> plain_woken f n (k\<lparr>mem := m\<rparr>) k'"
proof -
  let ?ws = "queues k (Waiters f)"
  let ?k = "k\<lparr>spin_held := True\<rparr>"
  have inv: "sched_inv ?k" "\<not> spin_held k" using k by (auto simp: kinv_def)
  have wc: "wake_count (wakes_one f all ?k) ?ws = n" using n by (simp add: wakes_one_def)
  obtain k1 where k1: "wake_rest f all ?k = Some (of_nat n, k1)" "sched_inv k1" "woken_from f (take n ?ws) ?k k1"
    "mem k1 = m"
    using wake_rest_inv [OF inv(1), of f all] wc m
    by (auto simp: returns_def Let_def tracked_word_def)
  define fr' where "fr' = call_frame fr f (of_bool all)"
  define k' where "k' = (if 0 < (of_nat n :: word32) then scheduler_request_switch (this_core k1) k1 else k1)
    \<lparr>spin_held := False\<rparr>"
  have svc: "scheduler_wake_svc fr' k = Some (fr'\<lparr>ef_r0 := of_nat n\<rparr>, k')"
    using k1(1) f p inv(2)
    by (simp add: scheduler_wake_svc_def fr'_def call_frame_def sched_defs Let_def scheduler_wake_futex_eq
        k'_def scheduler_current_core_def)
  have "sched_inv k'" using k1(2) by (simp add: k'_def)
  then have ki: "kinv k'"
    by (intro kinv_frame [OF k scheduler_wake_svc_frame [OF svc]]) (simp_all add: k'_def)
  have "?ws = take n ?ws @ queues k1 (Waiters f)" using k1(3) by (simp add: woken_from_def)
  then have dr: "queues k1 (Waiters f) = drop n ?ws" by (metis append_take_drop_id same_append_eq)
  have w: "tasks (sched k1) = tasks (sched k)" "futex_of k1 = futex_of k"
    "\<forall>t\<in>set (take n ?ws). state_of k1 t = TASK_READY" "ipsr k1 = ipsr k" "primask k1 = primask k"
    "\<forall>t. t \<notin> set (take n ?ws) \<longrightarrow> task_of k1 t = task_of k t" "this_core k1 = this_core k" "cores k1 = cores k"
    "\<forall>g. g \<noteq> f \<longrightarrow> queues k1 (Waiters g) = queues k (Waiters g)"
    using k1(3) by (simp_all add: woken_from_def)
  have rd: "t \<in> set (queues k1 ReadyQueue)" if "t \<in> set (take n ?ws)" for t
  proof -
    have "t \<in> set (tasks (sched k1))"
      using waiterD(1) [OF inv(1), of t f] in_set_takeD [OF that] w(1) by simp
    then show ?thesis using readyD [OF k1(2)] w(3) that by blast
  qed
  have pw: "plain_woken f n (k\<lparr>mem := m\<rparr>) k'"
    unfolding plain_woken_def using ki w dr rd k1(4) by (simp add: k'_def)
  define k2 where "k2 = (if (of_nat n :: word32) <s 0 then k'\<lparr>errno := - of_nat n\<rparr> else k')"
  have "scheduler_futex_wake fr f all k = Some (of_nat n, k2)"
    using svc f i by (simp add: scheduler_futex_wake_def is_interrupt_context_def return_status_def fr'_def k2_def)
  moreover have "plain_woken f n (k\<lparr>mem := m\<rparr>) k2"
    using pw by (simp add: plain_woken_def k2_def)
  ultimately show ?thesis by blast
qed

lemma scheduler_futex_wake_plain:
  assumes k: "kinv k" and i: "ipsr k = 0" and f: "futex_plain f k"
    and n: "n = (if all then length (queues k (Waiters f)) else min 1 (length (queues k (Waiters f))))"
  shows "\<exists>k'. scheduler_futex_wake fr f all k = Some (of_nat n, k') \<and> plain_woken f n k k'"
proof -
  have fl: "f \<noteq> 0" "f_marker (futex_of k f) = SCHEDULER_FUTEX_MARKER" "f_flags (futex_of k f) = 0"
    using f by (auto simp: futex_plain_def)
  have "n = wake_count (wakes_one f all k) (queues k (Waiters f))"
    using n fl by (simp add: wake_count_def wakes_one_def)
  from scheduler_futex_wake_tracked [OF k i fl(1,2) _ this refl, of fr] fl(3) show ?thesis
    by (simp add: tracked_word_def fun_upd_idem)
qed

text \<open>A wait on a plain futex whose word is as expected blocks the caller.\<close>

definition blocked_on :: "addr \<Rightarrow> addr \<Rightarrow> word32 \<Rightarrow> sys \<Rightarrow> sys \<Rightarrow> bool" where
  "blocked_on f cur ticks k k' \<longleftrightarrow> kinv k' \<and> mem k' = mem k \<and> futex_of k' = futex_of k \<and>
    current_task (this k') = 0 \<and> state_of k' cur = TASK_BLOCKED \<and> sf_r0 (psp (task_of k' cur)) = 0 \<and>
    queues k' (Waiters f) = insert_before_first (\<lambda>t. prio k cur < prio k t) cur (queues k (Waiters f)) \<and>
    (\<forall>g. g \<noteq> f \<longrightarrow> queues k' (Waiters g) = queues k (Waiters g)) \<and>
    (\<forall>t. t \<noteq> cur \<longrightarrow> task_of k' t = task_of k t) \<and>
    (cur \<in> set (timers (sched k')) \<longleftrightarrow> ticks < SCHEDULER_WAIT_FOREVER) \<and>
    (ticks < SCHEDULER_WAIT_FOREVER \<longrightarrow> expires k' cur = scheduler_get_ticks k + ticks) \<and>
    this_core k' = this_core k \<and> ipsr k' = ipsr k \<and> primask k' = primask k"

lemma scheduler_wait_svc_plain:
  assumes k: "kinv k" and c: "current_task (this k) = cur" "cur \<noteq> 0" and f: "futex_plain f k"
    and v: "mem k (f_value (futex_of k f)) = val"
  shows "\<exists>fr k'. scheduler_wait_svc (frame\<lparr>sf_r0 := f, sf_r1 := val, sf_r2 := ticks\<rparr>) k = Some (fr, k') \<and>
    blocked_on f cur ticks k k'"
proof -
  let ?fr = "frame\<lparr>sf_r0 := f, sf_r1 := val, sf_r2 := ticks\<rparr>"
  have i: "sched_inv k" and l: "\<not> spin_held k" using k by (auto simp: kinv_def)
  note cur = currentD(1-6) [OF i c]
  have fl: "f_flags (futex_of k f) = 0" "f \<noteq> 0" "f_marker (futex_of k f) = SCHEDULER_FUTEX_MARKER"
    using f by (auto simp: futex_plain_def)
  have w: "wait_ok ?fr k" using fl by (simp add: wait_ok_def owner_ok_def)
  have ww: "wait_word k ?fr = val" "wait_blocks ?fr k" using fl v by (simp_all add: wait_word_def wait_blocks_def)
  define k0 where "k0 = k\<lparr>spin_held := True, mem := (mem k)(f_value (futex_of k f) := val)\<rparr>"
  define k1 where "k1 = (if ticks < SCHEDULER_WAIT_FOREVER then tpush cur (scheduler_get_ticks k + ticks) k0 else k0)"
  define k2 where "k2 = qpush (Waiters f) cur (task_upd cur (\<lambda>x. x\<lparr>t_state := TASK_BLOCKED, t_core := UINT32_MAX\<rparr>) k1)"
  have b: "wait_block f val ticks cur k0 = Some k2"
    using c(2) cur fl by (simp add: wait_block_def sched_defs k2_def k1_def k0_def scheduler_get_ticks_def)
  define k' where "k' = (scheduler_request_switch (this_core k2)
      (set_cur 0 (task_upd cur (psp_update (\<lambda>_. ?fr\<lparr>sf_r0 := 0\<rparr>)) k2)))\<lparr>spin_held := False\<rparr>"
  have e: "scheduler_wait_svc ?fr k = Some (?fr\<lparr>sf_r0 := 0\<rparr>, k')"
    unfolding scheduler_wait_svc_eq [OF i l c w] using ww b by (simp add: k0_def k'_def)
  have ki: "kinv k'"
    using scheduler_wait_svc_inv [OF i l _ w] c e
    by (intro kinv_frame [OF k scheduler_wait_svc_frame [OF e]]) auto
  have nq: "cur \<notin> set (queues k (Waiters f))" using waiterD(5) [OF i, of cur f "this_core k"] c by auto
  have m: "mem k0 = mem k" using v by (simp add: k0_def fun_upd_idem)
  have q: "queues k' (Waiters f) = insert_before_first (\<lambda>t. prio k cur < prio k t) cur (queues k (Waiters f))"
    using nq by (auto simp: k'_def k2_def k1_def k0_def intro!: insert_before_first_cong)
  have "cur \<notin> set (timers (sched k))" using cur by simp
  then have "blocked_on f cur ticks k k'"
    unfolding blocked_on_def using ki q m
    by (auto simp: k'_def k2_def k1_def) (auto simp: k0_def)
  with e show ?thesis by blast
qed

lemma rtos_futex_wait_plain:
  assumes k: "kinv (ker s)" and c: "current_task (this (ker s)) = cur" "cur \<noteq> 0"
    and f: "futex_plain f (ker s)" and v: "mem_word s (f_value (futex_of (ker s) f)) = val"
  shows "\<exists>k'. blocked_on f cur ticks (ker s) k' \<and>
    rtos_futex_wait P run f val ticks s =
      (let w = run (s\<lparr>ker := k'\<rparr>); status = sf_r0 (psp (task_of (ker w) cur))
       in Some (status, if status <s 0 then w\<lparr>ker := (ker w)\<lparr>errno := - status\<rparr>\<rparr> else w))"
proof -
  obtain fr k' where w: "scheduler_wait_svc ((p_frame P)\<lparr>sf_r0 := f, sf_r1 := val, sf_r2 := ticks\<rparr>) (ker s) = Some (fr, k')"
    "blocked_on f cur ticks (ker s) k'"
    using scheduler_wait_svc_plain [OF k c f v] by blast
  have "sched_get_current (ker s) = Some cur"
    using k c current_marked [of "ker s" "this_core (ker s)"] by (simp add: sched_get_current_eq kinv_def)
  moreover have "current_task (this k') \<noteq> cur" using w(2) c(2) unfolding blocked_on_def by metis
  ultimately show ?thesis
    using w f by (intro exI [of _ k'])
      (simp add: rtos_futex_wait_def futex_wait_in_def futex_plain_def Let_def)
qed

text \<open>New objects: their futex and their place in the list of resources.\<close>

lemma locked_resources:
  assumes "spin_free (locks s l)"
  shows "locked_section l (\<lambda>s. Some (x, s\<lparr>resources := f (resources s)\<rparr>)) s =
    Some (x, cycle_lock l (s\<lparr>resources := f (resources s)\<rparr>))"
  by (rule locked_section_free [OF assms]) (simp_all add: set_masked_upd)

lemma osKernelResourceAdd_ok:
  assumes "ipsr (ker s) = 0" "node \<noteq> 0" "kernel_set s" "spin_free (locks s (ResourceLock r))"
  shows "osKernelResourceAdd P r node s =
    Some (osOK, cycle_lock (ResourceLock r) (s\<lparr>resources := (resources s)(r := resources s r @ [node])\<rparr>))"
  using locked_resources [OF assms(4), of osOK "\<lambda>q. q(r := q r @ [node])"] assms
  by (simp add: osKernelResourceAdd_def)

lemma kinv_futex_init:
  assumes k: "kinv k" and q: "queues k (Waiters f) = []" and f: "f \<noteq> 0"
  shows "\<exists>w. scheduler_futex_init f v 0 k = Some (k\<lparr>futex_of := (futex_of k)(f :=
      \<lparr>f_value = v, f_flags = 0, f_marker = SCHEDULER_FUTEX_MARKER\<rparr>), owned := w\<rparr>) \<and>
    kinv (k\<lparr>futex_of := (futex_of k)(f := \<lparr>f_value = v, f_flags = 0, f_marker = SCHEDULER_FUTEX_MARKER\<rparr>), owned := w\<rparr>)"
proof -
  have "(queues k)(Waiters f := []) = queues k" using q by (simp add: fun_upd_idem)
  moreover have "slots_ok (k\<lparr>futex_of := (futex_of k)(f := \<lparr>f_value = v, f_flags = 0, f_marker = m\<rparr>), owned := w\<rparr>)" for m w
    using k by (auto simp: kinv_def slots_ok_def)
  ultimately show ?thesis
    using f k by (auto simp: scheduler_futex_init_def kinv_def)
qed

section \<open>A sample system\<close>

text \<open>
  The sample system of the scheduler below the layer; every futex is plain and guards the word
  that a semaphore or event flags have at their place.
\<close>

definition sample_ker :: sys where
  "sample_ker = sample_sys\<lparr>futex_of := (\<lambda>f. \<lparr>f_value = f + 32, f_flags = 0, f_marker = SCHEDULER_FUTEX_MARKER\<rparr>)\<rparr>"

definition sample_rtos :: rtos where
  "sample_rtos = \<lparr>ker = sample_ker, kernel_set = True, k_state = osKernelRunning, k_locked = 0,
     resources = (\<lambda>_. []), locks = (\<lambda>_. 0), hdr = (\<lambda>_. \<lparr>marker = 0, obj_name = [], attr_bits = 0\<rparr>),
     max_count = (\<lambda>_. 0), lock_count = (\<lambda>_. 0), ef_waiters = (\<lambda>_. 0),
     pool_of = (\<lambda>_. \<lparr>block_size = 0, capacity = 0, pool_data = 0, free_list = 0\<rparr>),
     queue_of = (\<lambda>_. \<lparr>msg_size = 0, msg_count = 0, messages = []\<rparr>), msg_priority = (\<lambda>_. 0),
     deque_of = (\<lambda>_. \<lparr>element_size = 0, element_count = 0, dq_front = 0, dq_back = 0, dq_buffer = 0, dq_waiters = 0\<rparr>),
     timer_of = (\<lambda>_. \<lparr>tm_type = osTimerOnce, tm_func = 0, tm_argument = 0, tm_ticks = 0, tm_target = 0\<rparr>),
     thread_of = (\<lambda>_. \<lparr>th_func = 0, th_context = 0, th_stack = 0, th_stack_size = 0\<rparr>),
     active_timers = [], timer_queue = 0, timer_thread = 0, reaper_thread = 0, bytes = (\<lambda>_. 0)\<rparr>"

definition sample_port :: port where
  "sample_port = \<lparr>p_alloc = (\<lambda>_ s. (0x8000, s)), p_release = (\<lambda>_ s. s), p_irq_priority = (\<lambda>_. 1), p_tls_size = 0,
     p_frame = zero_frame, p_eframe = zero_eframe, p_tls_init = (\<lambda>_ s. s), p_task_entry = 0x10000100, p_task_exit = 0x10000200,
     p_reaper = 0x10000300, p_reaper_once = 0x20000300, p_timer = 0x10000400, p_timer_once = 0x20000400, p_local = 0x9000\<rparr>"

lemma sample_ker_kinv: "kinv sample_ker"
proof -
  have "deferred_wake (cores sample_sys c) = [0, 0, 0, 0, 0, 0, 0, 0]" for c
    by (simp add: sample_sys_def boot_core_def)
  then show ?thesis using sample_kinv by (simp add: kinv_def sample_ker_def slots_ok_def)
qed

lemma sample_ker_sel [simp]:
  "futex_of sample_ker f = \<lparr>f_value = f + 32, f_flags = 0, f_marker = SCHEDULER_FUTEX_MARKER\<rparr>"
  "mem sample_ker a = 0" "ipsr sample_ker = 0" "this_core sample_ker = 0" "primask sample_ker = False"
  "current_task (this sample_ker) = 0x100" "current_task (cores sample_ker 0) = 0x100"
  by (simp_all add: sample_ker_def sample_sys_def boot_core_def)

end
