(* ===== verification/Rtos_Mutex.thy ===== *)
theory Rtos_Mutex
  imports Rtos_State
begin

text \<open>
  Mutexes, \<open>cmsis-rtos2-mutex.c\<close>: recursive, with priority inheritance and robust ones. The
  value of a mutex is 0 or the address of the task that owns it, with the contention bit the
  futex code keeps. \<open>env\<close> and \<open>envs\<close> are what the rest of the system does between two accesses
  of the value and while the caller waits.
\<close>

section \<open>Operations\<close>

abbreviation mutex_value :: "rtos \<Rightarrow> addr \<Rightarrow> word32" where
  "mutex_value s mutex \<equiv> mem_word s (mutex_value_at mutex)"

abbreviation mutex_list :: "rtos \<Rightarrow> addr \<Rightarrow> resource_id" where
  "mutex_list s mutex \<equiv> (if has_flag (attr_bits (hdr s mutex)) osMutexRobust then osResourceRobustMutex else osResourceMutex)"

text \<open>The thread of the running task (\<open>osThreadGetId\<close>).\<close>

definition osThreadGetId :: "rtos \<Rightarrow> addr option" where
  "osThreadGetId s = do {
     task \<leftarrow> scheduler_task (ker s);
     task \<leftarrow> check (task \<noteq> 0) task;
     let id = t_context (task_of (ker s) task);
     Some (if osIsResourceValid id RTOS_THREAD_MARKER s \<noteq> osOK then 0 else id)
   }"

text \<open>The value of a new mutex is whatever the memory holds: it is not among the fields set.\<close>

definition osMutexNew :: "port \<Rightarrow> os_attr option \<Rightarrow> rtos \<Rightarrow> (addr \<times> rtos) option" where
  "osMutexNew P attr s =
    (if osKernelContextIsValid P False 0 s \<noteq> osOK then Some (0, s)
     else let attr = case_option no_attr id attr;
              (new, s) = control_block P SIZEOF_MUTEX attr s
          in if new = 0 then Some (0, s)
             else do {
               let s = hdr_upd new (init_header RTOS_MUTEX_MARKER attr new) s;
               s \<leftarrow> rtos_futex_init (futex_at new) (mutex_value_at new)
                 (if has_flag (attr_bits (hdr s new)) osMutexPrioInherit
                  then SCHEDULER_FUTEX_PI OR SCHEDULER_FUTEX_OWNER_TRACKING OR SCHEDULER_FUTEX_CONTENTION_TRACKING
                  else SCHEDULER_FUTEX_OWNER_TRACKING OR SCHEDULER_FUTEX_CONTENTION_TRACKING) s;
               let s = s\<lparr>lock_count := (lock_count s)(new := 0)\<rparr>;
               (status, s) \<leftarrow> osKernelResourceAdd P (mutex_list s new) (new + resource_offset osResourceMutex) s;
               if status \<noteq> osOK then Some (0, release_dynamic P new s)
               else Some (new, s)
             })"

definition osMutexGetName :: "port \<Rightarrow> addr \<Rightarrow> rtos \<Rightarrow> string option" where
  "osMutexGetName P mutex s = get_name P RTOS_MUTEX_MARKER mutex s"

fun mutex_acquire_loop ::
  "port \<Rightarrow> (rtos \<Rightarrow> rtos) list \<Rightarrow> addr \<Rightarrow> word32 \<Rightarrow> addr \<Rightarrow> rtos \<Rightarrow> (word32 \<times> rtos) option" where
  "mutex_acquire_loop P envs mutex timeout val s =
    (let (stored, expected, s) = compare_exchange (mutex_value_at mutex) 0 val s
     in if stored then Some (osOK, s)
        else if timeout = 0 then Some (osErrorResource, s)
        else (case envs of
            [] \<Rightarrow> None
          | env # envs \<Rightarrow> do {
              (status, s) \<leftarrow> rtos_futex_wait P env (futex_at mutex) expected timeout s;
              if status <s 0 then Some (wait_failed status, s)
              else if val = owner_of (mutex_value s mutex) then Some (osOK, s)
              else mutex_acquire_loop P envs mutex timeout val s
            }))"

declare mutex_acquire_loop.simps [simp del]

definition osMutexAcquire ::
  "port \<Rightarrow> (rtos \<Rightarrow> rtos) list \<Rightarrow> addr \<Rightarrow> word32 \<Rightarrow> rtos \<Rightarrow> (word32 \<times> rtos) option" where
  "osMutexAcquire P envs mutex timeout s =
    (if osKernelContextIsValid P False 0 s \<noteq> osOK then Some (osKernelContextIsValid P False 0 s, s)
     else if osIsResourceValid mutex RTOS_MUTEX_MARKER s \<noteq> osOK
     then Some (osIsResourceValid mutex RTOS_MUTEX_MARKER s, s)
     else do {
       val \<leftarrow> scheduler_task (ker s);
       if val = owner_of (mutex_value s mutex)
       then if attr_bits (hdr s mutex) AND osMutexRecursive = 0 then Some (osErrorParameter, s)
            else Some (osOK, s\<lparr>lock_count := (lock_count s)(mutex := lock_count s mutex + 1)\<rparr>)
       else do {
         (status, s) \<leftarrow> mutex_acquire_loop P envs mutex timeout val s;
         if status \<noteq> osOK then Some (status, s)
         else Some (osOK, if has_flag (attr_bits (hdr s mutex)) osMutexRecursive
                          then s\<lparr>lock_count := (lock_count s)(mutex := 1)\<rparr> else s)
       }
     })"

text \<open>A value that is not a task stops the system.\<close>

definition osMutexGetOwner :: "port \<Rightarrow> addr \<Rightarrow> rtos \<Rightarrow> addr option" where
  "osMutexGetOwner P mutex s =
    (if osKernelContextIsValid P False 0 s \<noteq> osOK then Some 0
     else if osIsResourceValid mutex RTOS_MUTEX_MARKER s \<noteq> osOK then Some 0
     else if mutex_value s mutex = 0 then Some 0
     else let task = owner_of (mutex_value s mutex)
          in check (t_marker (task_of (ker s) task) = SCHEDULER_TASK_MARKER) (t_context (task_of (ker s) task)))"

text \<open>Give the mutex up for the task \<open>expected\<close>: store 0 if nobody has waited, else wake.\<close>

definition mutex_unlock :: "port \<Rightarrow> (rtos \<Rightarrow> rtos) \<Rightarrow> addr \<Rightarrow> addr \<Rightarrow> rtos \<Rightarrow> (word32 \<times> rtos) option" where
  "mutex_unlock P env mutex expected s = do {
     let (stored, s) = (if mutex_value s mutex = expected
       then let (stored, _, s) = compare_exchange (mutex_value_at mutex) expected 0 (env s) in (stored, s)
       else (False, s));
     if stored then Some (osOK, s)
     else do {
       (status, s) \<leftarrow> rtos_futex_wake P (futex_at mutex) False s;
       Some (if status <s 0 then osError else osOK, s)
     }
   }"

definition osMutexRelease :: "port \<Rightarrow> (rtos \<Rightarrow> rtos) \<Rightarrow> addr \<Rightarrow> rtos \<Rightarrow> (word32 \<times> rtos) option" where
  "osMutexRelease P env mutex s =
    (if osKernelContextIsValid P False 0 s \<noteq> osOK then Some (osKernelContextIsValid P False 0 s, s)
     else if osIsResourceValid mutex RTOS_MUTEX_MARKER s \<noteq> osOK
     then Some (osIsResourceValid mutex RTOS_MUTEX_MARKER s, s)
     else do {
       owner \<leftarrow> osMutexGetOwner P mutex s;
       self \<leftarrow> osThreadGetId s;
       if owner \<noteq> self then Some (osErrorResource, s)
       else do {
         let recursive = has_flag (attr_bits (hdr s mutex)) osMutexRecursive;
         let s = (if recursive then s\<lparr>lock_count := (lock_count s)(mutex := lock_count s mutex - 1)\<rparr> else s);
         if recursive \<and> 0 <s lock_count s mutex then Some (osOK, s)
         else do {
           expected \<leftarrow> scheduler_task (ker s);
           mutex_unlock P env mutex expected s
         }
       }
     })"

definition osMutexRobustRelease :: "port \<Rightarrow> (rtos \<Rightarrow> rtos) \<Rightarrow> addr \<Rightarrow> addr \<Rightarrow> rtos \<Rightarrow> (word32 \<times> rtos) option" where
  "osMutexRobustRelease P env mutex thread s =
    (if osKernelContextIsValid P False 0 s \<noteq> osOK then Some (osKernelContextIsValid P False 0 s, s)
     else if osIsResourceValid mutex RTOS_MUTEX_MARKER s \<noteq> osOK
     then Some (osIsResourceValid mutex RTOS_MUTEX_MARKER s, s)
     else if osIsResourceValid thread RTOS_THREAD_MARKER s \<noteq> osOK
     then Some (osIsResourceValid thread RTOS_THREAD_MARKER s, s)
     else do {
       owner \<leftarrow> osMutexGetOwner P mutex s;
       if owner \<noteq> thread then Some (osErrorResource, s)
       else do {
         let s = (if has_flag (attr_bits (hdr s mutex)) osMutexRecursive
                  then s\<lparr>lock_count := (lock_count s)(mutex := 0)\<rparr> else s);
         mutex_unlock P env mutex (th_stack (thread_of s thread)) s
       }
     })"

definition osMutexDelete :: "port \<Rightarrow> addr \<Rightarrow> rtos \<Rightarrow> (word32 \<times> rtos) option" where
  "osMutexDelete P mutex s =
    (if osKernelContextIsValid P False 0 s \<noteq> osOK then Some (osKernelContextIsValid P False 0 s, s)
     else if osIsResourceValid mutex RTOS_MUTEX_MARKER s \<noteq> osOK
     then Some (osIsResourceValid mutex RTOS_MUTEX_MARKER s, s)
     else do {
       let s = hdr_upd mutex (\<lambda>h. h\<lparr>marker := 0\<rparr>) s;
       (status, s) \<leftarrow> osKernelResourceRemove P (mutex_list s mutex) (mutex + resource_offset osResourceMutex) s;
       if status \<noteq> osOK then Some (status, s)
       else Some (osOK, release_dynamic P mutex s)
     })"

section \<open>A mutex that can be used\<close>

text \<open>A mutex without priority inheritance, and a thread whose task is running.\<close>

definition mutex_ok :: "addr \<Rightarrow> rtos \<Rightarrow> bool" where
  "mutex_ok mutex s \<longleftrightarrow> kinv (ker s) \<and> ipsr (ker s) = 0 \<and> osIsResourceValid mutex RTOS_MUTEX_MARKER s = osOK \<and>
    futex_at mutex \<noteq> 0 \<and> f_marker (futex_of (ker s) (futex_at mutex)) = SCHEDULER_FUTEX_MARKER \<and>
    f_flags (futex_of (ker s) (futex_at mutex)) = 5 \<and>
    f_value (futex_of (ker s) (futex_at mutex)) = mutex_value_at mutex"

definition thread_runs :: "addr \<Rightarrow> addr \<Rightarrow> rtos \<Rightarrow> bool" where
  "thread_runs task thread s \<longleftrightarrow> current_task (this (ker s)) = task \<and> task \<noteq> 0 \<and> task AND 1 = 0 \<and>
    t_context (task_of (ker s) task) = thread \<and> osIsResourceValid thread RTOS_THREAD_MARKER s = osOK"

lemma owner_of_task: "task AND 1 = 0 \<Longrightarrow> owner_of task = task" "task AND 1 = 0 \<Longrightarrow> owner_of (task OR 1) = task"
  for task :: word32
  using owner_mask [of task False] owner_mask [of task True] by simp_all

lemma contended_bit: "(v OR 1) AND 1 = 1" for v :: word32
  by (rule bit_word_eqI) (auto simp: bit_simps)

lemma contended_nz [simp]: "v OR 1 \<noteq> 0" for v :: word32
proof
  assume "v OR 1 = 0"
  with contended_bit [of v] show False by simp
qed

lemma contended_neq:
  fixes v :: word32
  assumes "v AND 1 = 0"
  shows "v OR 1 \<noteq> v"
proof
  assume "v OR 1 = v"
  with contended_bit [of v] assms show False by simp
qed

lemma scheduler_task_current:
  assumes "kinv k"
  shows "scheduler_task k = Some (current_task (this k))"
  using assms current_marked [of k "this_core k"] by (auto simp: scheduler_task_def sched_get_current_eq kinv_def)

lemma osThreadGetId_runs:
  assumes "kinv (ker s)" and "thread_runs task thread s"
  shows "osThreadGetId s = Some thread"
  using assms by (simp add: osThreadGetId_def scheduler_task_current thread_runs_def)

lemma runs_marked:
  assumes "kinv (ker s)" and "thread_runs task thread s"
  shows "t_marker (task_of (ker s) task) = SCHEDULER_TASK_MARKER"
  using assms currentD(6) [of "ker s" "this_core (ker s)" task] by (simp add: kinv_def thread_runs_def)

text \<open>The wake of a contended mutex: the word, the first waiter and the rest of the queue.\<close>

definition handed_over :: "addr \<Rightarrow> sys \<Rightarrow> sys \<Rightarrow> bool" where
  "handed_over mutex k k' \<longleftrightarrow> (let ws = queues k (Waiters (futex_at mutex)); v = mutex_value_at mutex in
    kinv k' \<and> queues k' (Waiters (futex_at mutex)) = tl ws \<and>
    (case ws of
       [] \<Rightarrow> mem k' = (mem k)(v := owner_of (mem k v))
     | t # us \<Rightarrow> state_of k' t = TASK_READY \<and> t \<in> set (queues k' ReadyQueue) \<and>
         mem k' = (mem k)(v := (if us = [] then owner_of t else t OR 1))) \<and>
    (\<forall>t. t \<notin> set (take 1 ws) \<longrightarrow> task_of k' t = task_of k t))"

lemma rtos_futex_wake_mutex:
  assumes o: "mutex_ok mutex s"
  shows "\<exists>k n. rtos_futex_wake P (futex_at mutex) False s = Some (n, s\<lparr>ker := k\<rparr>) \<and> \<not> n <s 0 \<and> handed_over mutex (ker s) k"
proof -
  let ?f = "futex_at mutex"
  let ?ws = "queues (ker s) (Waiters ?f)"
  define n where "n = min 1 (length ?ws)"
  have d: "kinv (ker s)" "ipsr (ker s) = 0" "?f \<noteq> 0" "f_marker (futex_of (ker s) ?f) = SCHEDULER_FUTEX_MARKER"
    "f_flags (futex_of (ker s) ?f) = 5" "f_value (futex_of (ker s) ?f) = mutex_value_at mutex"
    using o by (simp_all add: mutex_ok_def)
  have pi: "f_flags (futex_of (ker s) ?f) AND PI_OWNER \<noteq> PI_OWNER" by (simp add: d(5))
  have nn: "n = wake_count (wakes_one ?f False (ker s)) ?ws" by (simp add: n_def wake_count_def wakes_one_def)
  obtain k where k: "scheduler_futex_wake (p_eframe P) ?f False (ker s) = Some (of_nat n, k)"
    "plain_woken ?f n ((ker s)\<lparr>mem := (mem (ker s))(mutex_value_at mutex := tracked_word ?f (ker s) (n = length ?ws)
       (if ?ws \<noteq> [] then hd ?ws else mutex_value s mutex))\<rparr>) k"
    using scheduler_futex_wake_tracked [OF d(1-4) pi nn refl, of "p_eframe P", unfolded d(6)] d(5) by auto
  have "handed_over mutex (ker s) k"
  proof (cases ?ws)
    case Nil
    with k(2) show ?thesis by (simp add: handed_over_def plain_woken_def n_def tracked_word_def d(5))
  next
    case (Cons t us)
    with k(2) show ?thesis by (simp add: handed_over_def plain_woken_def n_def tracked_word_def d(5))
  qed
  moreover have "\<not> (of_nat n :: word32) <s 0" by (cases ?ws) (simp_all add: n_def word_sless_alt)
  ultimately show ?thesis using k(1) by (auto simp: rtos_futex_wake_def)
qed

section \<open>Properties\<close>

text \<open>
  C31. Acquisition of a mutex by a thread. A free mutex is taken at once; the owner gets it again
  if it is recursive and the count goes up, else an error; if another task owns it an attempt
  without waiting fails and changes nothing. No branch gives the mutex to two tasks.
\<close>

theorem mutex_acquire_exact:
  assumes o: "mutex_ok mutex s" and t: "thread_runs task thread s"
  shows "(let v = mutex_value s mutex; recursive = has_flag (attr_bits (hdr s mutex)) osMutexRecursive in
    (v = 0 \<longrightarrow> osMutexAcquire P envs mutex timeout s = Some (osOK,
       (if recursive then lock_count_update (\<lambda>c. c(mutex := 1)) else id) (mem_upd (mutex_value_at mutex) task s))) \<and>
    (owner_of v = task \<and> recursive \<longrightarrow> osMutexAcquire P envs mutex timeout s =
       Some (osOK, s\<lparr>lock_count := (lock_count s)(mutex := lock_count s mutex + 1)\<rparr>)) \<and>
    (owner_of v = task \<and> \<not> recursive \<longrightarrow> osMutexAcquire P envs mutex timeout s = Some (osErrorParameter, s)) \<and>
    (v \<noteq> 0 \<and> owner_of v \<noteq> task \<longrightarrow> osMutexAcquire P envs mutex 0 s = Some (osErrorResource, s)))"
proof -
  have d: "kinv (ker s)" "ipsr (ker s) = 0" "osIsResourceValid mutex RTOS_MUTEX_MARKER s = osOK"
    using o by (simp_all add: mutex_ok_def)
  have tk: "scheduler_task (ker s) = Some task" "task \<noteq> 0"
    using scheduler_task_current [OF d(1)] t by (simp_all add: thread_runs_def)
  show ?thesis
    using d tk by (auto simp: osMutexAcquire_def Let_def mutex_acquire_loop.simps [of P] compare_exchange_def mem_upd_def)
qed

text \<open>
  C32. Release of a mutex by a thread, for a mutex without priority inheritance (\<open>mutex_ok\<close>).
  Only the owner may release it: on a free mutex, or one another thread owns, the call fails and
  changes nothing. A recursive mutex counts one down, and while the count stays positive that is
  all: the owner keeps the mutex. The release that uses the count up, and every release of a mutex
  that is not recursive, gives the mutex away. If nobody has contended it becomes free. If tasks
  wait, it is handed to the first of them, which is made ready and owns it before it runs; the
  contention bit stays exactly while others still wait. If the contention bit is set but nobody
  waits any more, the call reports success and only clears the bit: the mutex is not given away
  but stays with the thread that released it.
\<close>

theorem mutex_release_exact:
  assumes o: "mutex_ok mutex s" and t: "thread_runs task thread s"
  shows "(let v = mutex_value s mutex; ws = queues (ker s) (Waiters (futex_at mutex)); value = mutex_value_at mutex;
      recursive = has_flag (attr_bits (hdr s mutex)) osMutexRecursive; left = lock_count s mutex - 1;
      counted = (if recursive then s\<lparr>lock_count := (lock_count s)(mutex := left)\<rparr> else s) in
    (v = 0 \<longrightarrow> osMutexRelease P id mutex s = Some (osErrorResource, s)) \<and>
    (owner_of v \<noteq> 0 \<and> t_marker (task_of (ker s) (owner_of v)) = SCHEDULER_TASK_MARKER \<and>
       t_context (task_of (ker s) (owner_of v)) \<noteq> thread \<longrightarrow>
       osMutexRelease P id mutex s = Some (osErrorResource, s)) \<and>
    (owner_of v = task \<and> recursive \<and> 0 <s left \<longrightarrow> osMutexRelease P id mutex s = Some (osOK, counted)) \<and>
    (owner_of v = task \<and> \<not> (recursive \<and> 0 <s left) \<longrightarrow>
      (v = task \<longrightarrow> osMutexRelease P id mutex s = Some (osOK, mem_upd value 0 counted)) \<and>
      (v \<noteq> task \<longrightarrow> (\<exists>k. osMutexRelease P id mutex s = Some (osOK, counted\<lparr>ker := k\<rparr>) \<and> kinv k \<and>
         (\<forall>t. t \<notin> set (take 1 ws) \<longrightarrow> task_of k t = task_of (ker s) t) \<and>
         queues k (Waiters (futex_at mutex)) = tl ws \<and>
         (ws \<noteq> [] \<longrightarrow> state_of k (hd ws) = TASK_READY \<and> hd ws \<in> set (queues k ReadyQueue) \<and>
            mem k = (mem (ker s))(value := (if tl ws = [] then owner_of (hd ws) else hd ws OR 1))) \<and>
         (ws = [] \<longrightarrow> mem k = (mem (ker s))(value := task))))))"
proof -
  define s1 where "s1 = (if has_flag (attr_bits (hdr s mutex)) osMutexRecursive
    then s\<lparr>lock_count := (lock_count s)(mutex := lock_count s mutex - 1)\<rparr> else s)"
  have same: "ker s1 = ker s" "hdr s1 = hdr s" by (simp_all add: s1_def)
  have d: "kinv (ker s)" "ipsr (ker s) = 0" "osIsResourceValid mutex RTOS_MUTEX_MARKER s = osOK"
    using o by (simp_all add: mutex_ok_def)
  have tk: "scheduler_task (ker s) = Some task" "task \<noteq> 0" "task AND 1 = 0" "t_context (task_of (ker s) task) = thread" "thread \<noteq> 0"
    using scheduler_task_current [OF d(1)] t by (auto simp: thread_runs_def osIsResourceValid_def)
  note facts = d tk osThreadGetId_runs [OF d(1) t]
  have release: "osMutexRelease P id mutex s =
      (if has_flag (attr_bits (hdr s mutex)) osMutexRecursive \<and> 0 <s lock_count s mutex - 1 then Some (osOK, s1)
       else mutex_unlock P id mutex task s1)" if "owner_of (mutex_value s mutex) = task"
    using facts that runs_marked [OF d(1) t] owner_of_task [OF tk(3)]
    by (auto simp: osMutexRelease_def osMutexGetOwner_def s1_def same)
  have free: "mutex_unlock P id mutex task s1 = Some (osOK, mem_upd (mutex_value_at mutex) 0 s1)" if "mutex_value s mutex = task"
    using that by (simp add: mutex_unlock_def compare_exchange_def same)
  have "mutex_ok mutex s1" using o by (simp add: mutex_ok_def osIsResourceValid_def same)
  then obtain k n where k: "rtos_futex_wake P (futex_at mutex) False s1 = Some (n, s1\<lparr>ker := k\<rparr>)" "\<not> n <s 0"
    "handed_over mutex (ker s) k" using rtos_futex_wake_mutex [of mutex s1 P] by (auto simp: same)
  have wake: "mutex_unlock P id mutex task s1 = Some (osOK, s1\<lparr>ker := k\<rparr>)" if "mutex_value s mutex \<noteq> task"
    using that k by (simp add: mutex_unlock_def same)
  have denied: "osMutexRelease P id mutex s = Some (osErrorResource, s)"
    if "mutex_value s mutex = 0 \<or> owner_of (mutex_value s mutex) \<noteq> 0 \<and>
      t_marker (task_of (ker s) (owner_of (mutex_value s mutex))) = SCHEDULER_TASK_MARKER \<and>
      t_context (task_of (ker s) (owner_of (mutex_value s mutex))) \<noteq> thread"
    using facts that by (auto simp: osMutexRelease_def osMutexGetOwner_def)
  let ?ws = "queues (ker s) (Waiters (futex_at mutex))" and ?v = "mutex_value_at mutex"
  have handed: "kinv k" "queues k (Waiters (futex_at mutex)) = tl ?ws" "\<forall>t. t \<notin> set (take 1 ?ws) \<longrightarrow> task_of k t = task_of (ker s) t"
    using k(3) by (simp_all add: handed_over_def Let_def)
  have first: "state_of k (hd ?ws) = TASK_READY" "hd ?ws \<in> set (queues k ReadyQueue)"
    "mem k = (mem (ker s))(?v := (if tl ?ws = [] then owner_of (hd ?ws) else hd ?ws OR 1))" if "?ws \<noteq> []"
    using k(3) that by (cases ?ws; simp add: handed_over_def Let_def)+
  have none: "mem k = (mem (ker s))(?v := owner_of (mutex_value s mutex))" if "?ws = []"
    using k(3) that by (simp add: handed_over_def Let_def)
  let ?last = "\<not> (has_flag (attr_bits (hdr s mutex)) osMutexRecursive \<and> 0 <s lock_count s mutex - 1)"
  have inner: "osMutexRelease P id mutex s = Some (osOK, s1)" if "owner_of (mutex_value s mutex) = task" "\<not> ?last"
    using release [OF that(1)] that(2) by simp
  have freed: "osMutexRelease P id mutex s = Some (osOK, mem_upd ?v 0 s1)"
    if "owner_of (mutex_value s mutex) = task" "?last" "mutex_value s mutex = task"
    using release [OF that(1)] that(2) free [OF that(3)] by simp
  have woken: "osMutexRelease P id mutex s = Some (osOK, s1\<lparr>ker := k\<rparr>)"
    if "owner_of (mutex_value s mutex) = task" "?last" "mutex_value s mutex \<noteq> task"
    using release [OF that(1)] that(2) wake [OF that(3)] by simp
  have none': "mem k = (mem (ker s))(?v := task)" if "?ws = []" "owner_of (mutex_value s mutex) = task"
    using none [OF that(1)] that(2) by simp
  show ?thesis
    unfolding Let_def s1_def [symmetric]
  proof (intro conjI impI)
    assume own: "owner_of (mutex_value s mutex) = task \<and> ?last" and v: "mutex_value s mutex \<noteq> task"
    show "\<exists>k. osMutexRelease P id mutex s = Some (osOK, s1\<lparr>ker := k\<rparr>) \<and> kinv k \<and>
         (\<forall>t. t \<notin> set (take 1 ?ws) \<longrightarrow> task_of k t = task_of (ker s) t) \<and>
         queues k (Waiters (futex_at mutex)) = tl ?ws \<and>
         (?ws \<noteq> [] \<longrightarrow> state_of k (hd ?ws) = TASK_READY \<and> hd ?ws \<in> set (queues k ReadyQueue) \<and>
            mem k = (mem (ker s))(?v := (if tl ?ws = [] then owner_of (hd ?ws) else hd ?ws OR 1))) \<and>
         (?ws = [] \<longrightarrow> mem k = (mem (ker s))(?v := task))"
      using woken [OF conjunct1 [OF own] conjunct2 [OF own] v] handed first none' [OF _ conjunct1 [OF own]]
      by (intro exI [of _ k] conjI impI) assumption+
  qed (rule denied inner freed; blast)+
qed

text \<open>
  Thread 0x5000 runs as task 0x100; task 0x300 waits for the mutex at 0xfd8 and nobody for the
  one at 0x4000; both mutexes have the value given.
\<close>

definition sample_mutex :: "word32 \<Rightarrow> rtos" where
  "sample_mutex v = sample_rtos\<lparr>
     ker := sample_ker\<lparr>futex_of := (\<lambda>f. \<lparr>f_value = f + 28, f_flags = 5, f_marker = SCHEDULER_FUTEX_MARKER\<rparr>),
       task_of := (task_of sample_ker)(0x100 := (task_of sample_ker 0x100)\<lparr>t_context := 0x5000\<rparr>), mem := (\<lambda>_. v)\<rparr>,
     hdr := (\<lambda>a. \<lparr>marker = (if a = 0x5000 then RTOS_THREAD_MARKER else RTOS_MUTEX_MARKER), obj_name = [], attr_bits = 0\<rparr>)\<rparr>"

lemma sample_mutex_sel:
  "mem (ker (sample_mutex v)) a = v" "queues (ker (sample_mutex v)) (Waiters 0x1000) = [0x300]"
  "queues (ker (sample_mutex v)) (Waiters 0x4028) = []" "attr_bits (hdr (sample_mutex v) m) AND osMutexRecursive = 0"
  by (simp_all add: sample_mutex_def sample_rtos_def sample_ker_def sample_sys_def)

lemma sample_mutex_kinv: "kinv (ker (sample_mutex v))"
proof -
  have "sched_inv (ker (sample_mutex v))"
    by (auto simp: inv_but_def queues_wf_def timers_wf_def tasks_wf_def placed_def current_ok_def sample_mutex_def
        sample_ker_def sample_sys_def closest_timer_def sample_task_def boot_core_def)
  moreover have "slots_ok (ker (sample_mutex v))"
    by (simp add: slots_ok_def sample_mutex_def) (simp add: sample_ker_def sample_sys_def boot_core_def)
  ultimately show ?thesis
    by (simp add: kinv_def) (simp add: sample_mutex_def sample_ker_def sample_sys_def)
qed

lemma sample_mutex_ok: "mutex \<noteq> 0 \<Longrightarrow> mutex \<noteq> 0x5000 \<Longrightarrow> futex_at mutex \<noteq> 0 \<Longrightarrow> mutex_ok mutex (sample_mutex v)"
  using sample_mutex_kinv [of v]
  by (simp add: mutex_ok_def) (simp add: sample_mutex_def sample_rtos_def osIsResourceValid_def)

lemma sample_mutex_runs: "thread_runs 0x100 0x5000 (sample_mutex v)"
  by (simp add: thread_runs_def sample_mutex_def sample_rtos_def osIsResourceValid_def)

lemma sample_owners: "owner_of 0x100 = 0x100" "owner_of 0x101 = 0x100" "owner_of 0x300 = 0x300"
  by simp_all

text \<open>The mutex at 0x4000, recursive, locked \<open>c\<close> times.\<close>

definition recursive_mutex :: "word32 \<Rightarrow> word32 \<Rightarrow> rtos" where
  "recursive_mutex c v = (sample_mutex v)\<lparr>
     hdr := (\<lambda>a. (hdr (sample_mutex v) a)\<lparr>attr_bits := osMutexRecursive\<rparr>),
     lock_count := (lock_count (sample_mutex v))(0x4000 := c)\<rparr>"

lemma recursive_mutex_sel:
  "ker (recursive_mutex c v) = ker (sample_mutex v)" "lock_count (recursive_mutex c v) 0x4000 = c"
  "attr_bits (hdr (recursive_mutex c v) m) = 1"
  "(recursive_mutex c v)\<lparr>lock_count := (lock_count (recursive_mutex c v))(0x4000 := d)\<rparr> = recursive_mutex d v"
  by (simp_all add: recursive_mutex_def)

lemma recursive_mutex_ok: "mutex \<noteq> 0 \<Longrightarrow> mutex \<noteq> 0x5000 \<Longrightarrow> futex_at mutex \<noteq> 0 \<Longrightarrow> mutex_ok mutex (recursive_mutex c v)"
  using sample_mutex_ok [of mutex v] by (simp add: mutex_ok_def osIsResourceValid_def recursive_mutex_def)

lemma recursive_mutex_runs: "thread_runs 0x100 0x5000 (recursive_mutex c v)"
  using sample_mutex_runs [of v] by (simp add: thread_runs_def osIsResourceValid_def recursive_mutex_def)

theorem mutex_acquire_exact_witness:
  "osMutexAcquire sample_port [] 0x4000 0 (sample_mutex 0) = Some (osOK, mem_upd 0x4044 0x100 (sample_mutex 0)) \<and>
   osMutexAcquire sample_port [] 0x4000 0 (sample_mutex 0x100) = Some (osErrorParameter, sample_mutex 0x100) \<and>
   osMutexAcquire sample_port [] 0x4000 0 (sample_mutex 0x300) = Some (osErrorResource, sample_mutex 0x300)"
  using mutex_acquire_exact [OF sample_mutex_ok sample_mutex_runs, of "0x4000" 0 sample_port "[]" 0]
    mutex_acquire_exact [OF sample_mutex_ok sample_mutex_runs, of "0x4000" "0x100" sample_port "[]" 0]
    mutex_acquire_exact [OF sample_mutex_ok sample_mutex_runs, of "0x4000" "0x300" sample_port "[]" 0]
  by (simp add: Let_def sample_mutex_sel)

theorem mutex_release_exact_witness:
  "osMutexRelease sample_port id 0x4000 (sample_mutex 0x100) = Some (osOK, mem_upd 0x4044 0 (sample_mutex 0x100)) \<and>
   osMutexRelease sample_port id 0x4000 (sample_mutex 0) = Some (osErrorResource, sample_mutex 0) \<and>
   (\<exists>k. osMutexRelease sample_port id 0xfd8 (sample_mutex 0x101) = Some (osOK, (sample_mutex 0x101)\<lparr>ker := k\<rparr>) \<and>
     state_of k 0x300 = TASK_READY \<and> mem k 0x101c = 0x300) \<and>
   (\<exists>k. osMutexRelease sample_port id 0x4000 (sample_mutex 0x101) = Some (osOK, (sample_mutex 0x101)\<lparr>ker := k\<rparr>) \<and>
     mem k 0x4044 = 0x100) \<and>
   osMutexRelease sample_port id 0x4000 (recursive_mutex 2 0x101) = Some (osOK, recursive_mutex 1 0x101) \<and>
   osMutexRelease sample_port id 0x4000 (recursive_mutex 1 0x100) = Some (osOK, mem_upd 0x4044 0 (recursive_mutex 0 0x100))"
proof (intro conjI)
  note m = mutex_release_exact [OF sample_mutex_ok sample_mutex_runs, unfolded Let_def sample_mutex_sel]
  note r = mutex_release_exact [OF recursive_mutex_ok recursive_mutex_runs, unfolded Let_def recursive_mutex_sel sample_mutex_sel]
  note eval = sample_owners recursive_mutex_sel sample_mutex_sel
  show "osMutexRelease sample_port id 0x4000 (sample_mutex 0x100) = Some (osOK, mem_upd 0x4044 0 (sample_mutex 0x100))"
    using m [of "0x4000" "0x100" sample_port] by (simp add: eval)
  show "osMutexRelease sample_port id 0x4000 (sample_mutex 0) = Some (osErrorResource, sample_mutex 0)"
    using m [of "0x4000" 0 sample_port] by simp
  show "\<exists>k. osMutexRelease sample_port id 0xfd8 (sample_mutex 0x101) = Some (osOK, (sample_mutex 0x101)\<lparr>ker := k\<rparr>) \<and>
     state_of k 0x300 = TASK_READY \<and> mem k 0x101c = 0x300"
    using m [of "0xfd8" "0x101" sample_port] by (simp add: eval) (elim conjE, erule ex_forward, simp)
  show "\<exists>k. osMutexRelease sample_port id 0x4000 (sample_mutex 0x101) = Some (osOK, (sample_mutex 0x101)\<lparr>ker := k\<rparr>) \<and>
     mem k 0x4044 = 0x100"
    using m [of "0x4000" "0x101" sample_port] by (simp add: eval) (elim conjE, erule ex_forward, simp)
  show "osMutexRelease sample_port id 0x4000 (recursive_mutex 2 0x101) = Some (osOK, recursive_mutex 1 0x101)"
    using r [of "0x4000" "0x101" sample_port 2] by (simp add: eval)
  show "osMutexRelease sample_port id 0x4000 (recursive_mutex 1 0x100) = Some (osOK, mem_upd 0x4044 0 (recursive_mutex 0 0x100))"
    using r [of "0x4000" "0x100" sample_port 1] by (simp add: eval)
qed

text \<open>
  When the only waiter of a mutex gives up, by timeout, the contention bit stays set. The
  release that follows finds nobody to hand the mutex to, reports success and leaves the
  mutex owned by the thread that released it, so no other thread can ever take it.
\<close>

theorem mutex_release_after_timeout_keeps_owner:
  assumes o: "mutex_ok mutex s" and t: "thread_runs task thread s"
    and r: "attr_bits (hdr s mutex) AND osMutexRecursive = 0"
    and v: "mutex_value s mutex = task OR 1" and q: "queues (ker s) (Waiters (futex_at mutex)) = []"
  shows "\<exists>s'. osMutexRelease P id mutex s = Some (osOK, s') \<and> mutex_value s' mutex = task \<and>
    task_of (ker s') = task_of (ker s)"
proof -
  have d: "kinv (ker s)" "ipsr (ker s) = 0" "osIsResourceValid mutex RTOS_MUTEX_MARKER s = osOK"
    using o by (simp_all add: mutex_ok_def)
  have tk: "scheduler_task (ker s) = Some task" "task \<noteq> 0" "task AND 1 = 0" "t_context (task_of (ker s) task) = thread"
    using scheduler_task_current [OF d(1)] t by (simp_all add: thread_runs_def)
  obtain k n where k: "rtos_futex_wake P (futex_at mutex) False s = Some (n, s\<lparr>ker := k\<rparr>)" "\<not> n <s 0"
    "handed_over mutex (ker s) k" using rtos_futex_wake_mutex [OF o] by blast
  have "osMutexRelease P id mutex s = Some (osOK, s\<lparr>ker := k\<rparr>)"
    using d tk owner_of_task [OF tk(3)] osThreadGetId_runs [OF d(1) t] runs_marked [OF d(1) t] r v k(1,2)
      contended_neq [OF tk(3)]
    by (simp add: osMutexRelease_def osMutexGetOwner_def mutex_unlock_def)
  moreover have "mem k (mutex_value_at mutex) = task" "\<forall>t. task_of k t = task_of (ker s) t"
    using k(3) q v owner_of_task [OF tk(3)] by (simp_all add: handed_over_def Let_def)
  ultimately show ?thesis by auto
qed

theorem mutex_release_after_timeout_keeps_owner_witness:
  "\<exists>s'. osMutexRelease sample_port id 0x4000 (sample_mutex 0x101) = Some (osOK, s') \<and> mutex_value s' 0x4000 = 0x100"
  using mutex_release_after_timeout_keeps_owner [OF sample_mutex_ok sample_mutex_runs sample_mutex_sel(4),
      of "0x4000" "0x101" sample_port]
  by (auto simp: sample_mutex_sel)

end
