(* ===== verification/Rtos_Semaphore.thy ===== *)
theory Rtos_Semaphore
  imports Rtos_State
begin

text \<open>
  Counting semaphores, \<open>cmsis-rtos2-semaphore.c\<close>. The operations access the value by atomic
  operations that other threads and interrupt handlers may come between: \<open>env\<close> and the
  elements of \<open>envs\<close> are what the rest of the system does at these points and while the caller
  waits. With an empty script an operation that would go on is \<open>None\<close>.
\<close>

section \<open>Operations\<close>

abbreviation sem_value :: "rtos \<Rightarrow> addr \<Rightarrow> word32" where
  "sem_value s sem \<equiv> mem_word s (sem_value_at sem)"

definition osSemaphoreNew ::
  "port \<Rightarrow> word32 \<Rightarrow> word32 \<Rightarrow> os_attr option \<Rightarrow> rtos \<Rightarrow> (addr \<times> rtos) option" where
  "osSemaphoreNew P most initial attr s =
    (if osKernelContextIsValid P False 0 s \<noteq> osOK then Some (0, s)
     else let attr = case_option no_attr id attr;
              (new, s) = control_block P SIZEOF_SEMAPHORE attr s
          in if new = 0 then Some (0, s)
             else do {
               let s = hdr_upd new (init_header RTOS_SEMAPHORE_MARKER attr new) s;
               let s = s\<lparr>max_count := (max_count s)(new := most)\<rparr>;
               let s = mem_upd (sem_value_at new) initial s;
               s \<leftarrow> rtos_futex_init (futex_at new) (sem_value_at new) 0 s;
               (status, s) \<leftarrow> osKernelResourceAdd P osResourceSemaphore
                 (new + resource_offset osResourceSemaphore) s;
               if status \<noteq> osOK then Some (0, release_dynamic P new s)
               else Some (new, s)
             })"

definition osSemaphoreGetName :: "port \<Rightarrow> addr \<Rightarrow> rtos \<Rightarrow> string option" where
  "osSemaphoreGetName P sem s = get_name P RTOS_SEMAPHORE_MARKER sem s"

fun semaphore_acquire_loop ::
  "port \<Rightarrow> (rtos \<Rightarrow> rtos) list \<Rightarrow> addr \<Rightarrow> word32 \<Rightarrow> word32 \<Rightarrow> rtos \<Rightarrow> (word32 \<times> rtos) option" where
  "semaphore_acquire_loop P envs sem timeout expected s =
    (let (stored, expected, s) = compare_exchange (sem_value_at sem) expected (expected - 1) s
     in if stored then Some (osOK, s)
        else if expected = 0
        then if timeout = 0 then Some (osErrorResource, s)
             else (case envs of
                 [] \<Rightarrow> None
               | env # envs \<Rightarrow> do {
                   (status, s) \<leftarrow> rtos_futex_wait P env (futex_at sem) 0 timeout s;
                   if status <s 0 then Some (wait_failed status, s)
                   else semaphore_acquire_loop P envs sem timeout 1 s
                 })
        else (case envs of
            [] \<Rightarrow> None
          | env # envs \<Rightarrow> semaphore_acquire_loop P envs sem timeout expected (env s)))"

declare semaphore_acquire_loop.simps [simp del]

definition osSemaphoreAcquire ::
  "port \<Rightarrow> (rtos \<Rightarrow> rtos) list \<Rightarrow> addr \<Rightarrow> word32 \<Rightarrow> rtos \<Rightarrow> (word32 \<times> rtos) option" where
  "osSemaphoreAcquire P envs sem timeout s =
    (if osKernelContextIsValid P True timeout s \<noteq> osOK then Some (osKernelContextIsValid P True timeout s, s)
     else if osIsResourceValid sem RTOS_SEMAPHORE_MARKER s \<noteq> osOK
     then Some (osIsResourceValid sem RTOS_SEMAPHORE_MARKER s, s)
     else semaphore_acquire_loop P envs sem timeout 1 s)"

text \<open>The test of the value and the addition are two accesses.\<close>

definition osSemaphoreRelease :: "port \<Rightarrow> (rtos \<Rightarrow> rtos) \<Rightarrow> addr \<Rightarrow> rtos \<Rightarrow> (word32 \<times> rtos) option" where
  "osSemaphoreRelease P env sem s =
    (if osKernelContextIsValid P True 0 s \<noteq> osOK then Some (osKernelContextIsValid P True 0 s, s)
     else if osIsResourceValid sem RTOS_SEMAPHORE_MARKER s \<noteq> osOK
     then Some (osIsResourceValid sem RTOS_SEMAPHORE_MARKER s, s)
     else if max_count s sem \<le> sem_value s sem then Some (osErrorResource, s)
     else do {
       let s = env s;
       let old = sem_value s sem;
       let s = mem_upd (sem_value_at sem) (old + 1) s;
       s \<leftarrow> (if old = 0 then map_option snd (rtos_futex_wake P (futex_at sem) False s) else Some s);
       Some (osOK, s)
     })"

text \<open>In a context where it is not allowed the call returns its error status as the count.\<close>

definition osSemaphoreGetCount :: "port \<Rightarrow> addr \<Rightarrow> rtos \<Rightarrow> word32" where
  "osSemaphoreGetCount P sem s =
    (if osKernelContextIsValid P True 0 s \<noteq> osOK then osKernelContextIsValid P True 0 s
     else if osIsResourceValid sem RTOS_SEMAPHORE_MARKER s \<noteq> osOK then 0
     else sem_value s sem)"

definition osSemaphoreDelete :: "port \<Rightarrow> addr \<Rightarrow> rtos \<Rightarrow> (word32 \<times> rtos) option" where
  "osSemaphoreDelete P sem s =
    (if osKernelContextIsValid P False 0 s \<noteq> osOK then Some (osKernelContextIsValid P False 0 s, s)
     else if osIsResourceValid sem RTOS_SEMAPHORE_MARKER s \<noteq> osOK
     then Some (osIsResourceValid sem RTOS_SEMAPHORE_MARKER s, s)
     else do {
       let s = hdr_upd sem (\<lambda>h. h\<lparr>marker := 0\<rparr>) s;
       (status, s) \<leftarrow> osKernelResourceRemove P osResourceSemaphore
         (sem + resource_offset osResourceSemaphore) s;
       if status \<noteq> osOK then Some (status, s)
       else Some (osOK, release_dynamic P sem s)
     })"

section \<open>A semaphore that can be used\<close>

definition sem_ok :: "addr \<Rightarrow> rtos \<Rightarrow> bool" where
  "sem_ok sem s \<longleftrightarrow> kinv (ker s) \<and> ipsr (ker s) = 0 \<and> osIsResourceValid sem RTOS_SEMAPHORE_MARKER s = osOK \<and>
    futex_plain (futex_at sem) (ker s) \<and> f_value (futex_of (ker s) (futex_at sem)) = sem_value_at sem"

text \<open>The wake up of a release: the first waiter, when the value was 0.\<close>

definition released :: "addr \<Rightarrow> rtos \<Rightarrow> rtos \<Rightarrow> bool" where
  "released sem s s' \<longleftrightarrow> (\<exists>k. s' = s\<lparr>ker := k\<rparr> \<and>
    plain_woken (futex_at sem) (if sem_value s sem = 0 then min 1 (length (queues (ker s) (Waiters (futex_at sem)))) else 0)
      ((ker s)\<lparr>mem := (mem (ker s))(sem_value_at sem := sem_value s sem + 1)\<rparr>) k)"

lemma plain_woken_none: "kinv k \<Longrightarrow> plain_woken f 0 k k"
  by (simp add: plain_woken_def)

text \<open>Without interference a release below the limit adds one token and wakes the first waiter.\<close>

lemma osSemaphoreRelease_ok:
  assumes o: "sem_ok sem s" and m: "sem_value s sem < max_count s sem"
  shows "\<exists>s'. osSemaphoreRelease P id sem s = Some (osOK, s') \<and> released sem s s' \<and> sem_ok sem s' \<and>
    sem_value s' sem = sem_value s sem + 1"
proof -
  define k where "k = (ker s)\<lparr>mem := (mem (ker s))(sem_value_at sem := sem_value s sem + 1)\<rparr>"
  let ?n = "if sem_value s sem = 0 then min 1 (length (queues (ker s) (Waiters (futex_at sem)))) else 0"
  note okd = o [unfolded sem_ok_def]
  have kk: "kinv k" "futex_plain (futex_at sem) k" "ipsr k = 0" "queues k = queues (ker s)"
    using okd by (simp_all add: k_def)
  have "\<exists>k'. (if sem_value s sem = 0
      then map_option snd (rtos_futex_wake P (futex_at sem) False (mem_upd (sem_value_at sem) (sem_value s sem + 1) s))
      else Some (mem_upd (sem_value_at sem) (sem_value s sem + 1) s)) = Some (s\<lparr>ker := k'\<rparr>) \<and>
    plain_woken (futex_at sem) ?n k k'"
  proof (cases "sem_value s sem = 0")
    case True
    then show ?thesis
      using scheduler_futex_wake_plain [OF kk(1,3,2) refl, of "p_eframe P" False] kk(4)
      by (auto simp: rtos_futex_wake_def k_def mem_upd_def)
  next
    case False
    then show ?thesis using plain_woken_none [OF kk(1)] by (auto simp: mem_upd_def k_def)
  qed
  then obtain k' where k': "osSemaphoreRelease P id sem s = Some (osOK, s\<lparr>ker := k'\<rparr>)"
    "plain_woken (futex_at sem) ?n k k'"
    using okd m by (auto simp: osSemaphoreRelease_def Let_def not_le [symmetric] split: if_splits)
  have "sem_value (s\<lparr>ker := k'\<rparr>) sem = sem_value s sem + 1"
    using k'(2) by (simp add: plain_woken_def k_def)
  moreover have "sem_ok sem (s\<lparr>ker := k'\<rparr>)"
    using k'(2) okd by (simp add: sem_ok_def plain_woken_def k_def osIsResourceValid_def futex_plain_def)
  moreover have "released sem s (s\<lparr>ker := k'\<rparr>)" using k'(2) by (auto simp: released_def k_def)
  ultimately show ?thesis using k'(1) by blast
qed

lemma osSemaphoreRelease_full:
  assumes "sem_ok sem s" and "max_count s sem \<le> sem_value s sem"
  shows "osSemaphoreRelease P env sem s = Some (osErrorResource, s)"
  using assms by (simp add: osSemaphoreRelease_def sem_ok_def)

text \<open>An acquisition without interference: at most one failed exchange comes before the one that takes a token.\<close>

lemma osSemaphoreAcquire_token:
  assumes o: "sem_ok sem s" and v: "sem_value s sem \<noteq> 0"
  shows "osSemaphoreAcquire P (id # envs) sem timeout s = Some (osOK, mem_upd (sem_value_at sem) (sem_value s sem - 1) s)"
  using assms by (simp add: osSemaphoreAcquire_def sem_ok_def semaphore_acquire_loop.simps [of P] compare_exchange_def)

lemma osSemaphoreAcquire_empty:
  assumes o: "sem_ok sem s" and v: "sem_value s sem = 0"
  shows "osSemaphoreAcquire P envs sem 0 s = Some (osErrorResource, s)"
  using assms by (simp add: osSemaphoreAcquire_def sem_ok_def semaphore_acquire_loop.simps [of P] compare_exchange_def)

lemma sem_ok_mem_upd [simp]: "sem_ok sem (mem_upd a v s) = sem_ok sem s"
  by (simp add: sem_ok_def osIsResourceValid_def)

text \<open>A semaphore in memory given by the caller: what changes besides the scheduler.\<close>

definition sem_created :: "os_attr \<Rightarrow> addr \<Rightarrow> word32 \<Rightarrow> rtos \<Rightarrow> rtos" where
  "sem_created attr sem most s = cycle_lock (ResourceLock osResourceSemaphore)
    (s\<lparr>hdr := (hdr s)(sem := init_header RTOS_SEMAPHORE_MARKER attr sem (hdr s sem)),
       max_count := (max_count s)(sem := most),
       resources := (resources s)(osResourceSemaphore := resources s osResourceSemaphore @ [sem + 76])\<rparr>)"

lemma osSemaphoreNew_static:
  assumes k: "kinv (ker s)" and i: "ipsr (ker s) = 0" and ks: "kernel_set s"
    and l: "spin_free (locks s (ResourceLock osResourceSemaphore))"
    and a: "a_cb_mem attr = sem" "SIZEOF_SEMAPHORE \<le> a_cb_size attr" "sem \<noteq> 0" "futex_at sem \<noteq> 0" "sem + 76 \<noteq> 0"
    and q: "queues (ker s) (Waiters (futex_at sem)) = []"
  shows "\<exists>k. osSemaphoreNew P most initial (Some attr) s = Some (sem, (sem_created attr sem most s)\<lparr>ker := k\<rparr>) \<and>
    sem_ok sem ((sem_created attr sem most s)\<lparr>ker := k\<rparr>) \<and>
    mem k = (mem (ker s))(sem_value_at sem := initial) \<and> queues k = queues (ker s) \<and>
    (\<forall>f. f \<noteq> futex_at sem \<longrightarrow> futex_of k f = futex_of (ker s) f)"
proof -
  let ?k = "(ker s)\<lparr>mem := (mem (ker s))(sem_value_at sem := initial)\<rparr>"
  have "kinv ?k" "queues ?k (Waiters (futex_at sem)) = []" using k q by simp_all
  from kinv_futex_init [OF this a(4), of "sem_value_at sem"] obtain w where
    w: "scheduler_futex_init (futex_at sem) (sem_value_at sem) 0 ?k = Some (?k\<lparr>futex_of := (futex_of ?k)(futex_at sem :=
      \<lparr>f_value = sem_value_at sem, f_flags = 0, f_marker = SCHEDULER_FUTEX_MARKER\<rparr>), owned := w\<rparr>)"
    "kinv (?k\<lparr>futex_of := (futex_of ?k)(futex_at sem :=
      \<lparr>f_value = sem_value_at sem, f_flags = 0, f_marker = SCHEDULER_FUTEX_MARKER\<rparr>), owned := w\<rparr>)" by blast
  let ?k2 = "?k\<lparr>futex_of := (futex_of ?k)(futex_at sem :=
      \<lparr>f_value = sem_value_at sem, f_flags = 0, f_marker = SCHEDULER_FUTEX_MARKER\<rparr>), owned := w\<rparr>"
  let ?s2 = "s\<lparr>hdr := (hdr s)(sem := init_header RTOS_SEMAPHORE_MARKER attr sem (hdr s sem)),
       max_count := (max_count s)(sem := most), ker := ?k2\<rparr>"
  have add: "osKernelResourceAdd P osResourceSemaphore (sem + 76) ?s2 = Some (osOK,
      cycle_lock (ResourceLock osResourceSemaphore)
        (?s2\<lparr>resources := (resources ?s2)(osResourceSemaphore := resources ?s2 osResourceSemaphore @ [sem + 76])\<rparr>))"
    by (rule osKernelResourceAdd_ok) (use i a ks l in simp_all)
  have e: "cycle_lock (ResourceLock osResourceSemaphore)
        (?s2\<lparr>resources := (resources ?s2)(osResourceSemaphore := resources ?s2 osResourceSemaphore @ [sem + 76])\<rparr>) =
      (sem_created attr sem most s)\<lparr>ker := ?k2\<rparr>"
    by (simp add: sem_created_def cycle_lock_def)
  have "osSemaphoreNew P most initial (Some attr) s = Some (sem, (sem_created attr sem most s)\<lparr>ker := ?k2\<rparr>)"
    using i a w(1) add e
    by (simp add: osSemaphoreNew_def control_block_def hdr_upd_def mem_upd_def rtos_futex_init_def not_less [symmetric] linorder_not_le Let_def)
  moreover have "sem_ok sem ((sem_created attr sem most s)\<lparr>ker := ?k2\<rparr>)"
    using w(2) i a by (simp add: sem_ok_def osIsResourceValid_def sem_created_def init_header_def futex_plain_def)
  ultimately show ?thesis by (intro exI [of _ ?k2]) simp
qed

section \<open>The semaphore as a counter of tokens\<close>

lemma unat_inc: "x < y \<Longrightarrow> unat (x + 1) = unat x + 1" for x y :: word32
proof -
  assume "x < y"
  then have "unat x + 1 \<le> unat y" by (simp add: word_less_nat_alt)
  moreover have "unat y < 4294967296" by (rule order.strict_trans2 [OF unsigned_less]) simp
  ultimately show ?thesis by (simp add: unat_word_ariths)
qed

lemma unat_dec: "x \<noteq> 0 \<Longrightarrow> unat (x - 1) + 1 = unat x" for x :: word32
proof -
  assume "x \<noteq> 0"
  then have "1 \<le> unat x" by (simp add: Suc_le_eq unat_gt_0)
  then show ?thesis using unat_sub [of 1 x] by (simp add: word_le_nat_alt)
qed

text \<open>A sequence of calls: \<open>True\<close> releases a token, \<open>False\<close> tries to acquire one.\<close>

fun token_run :: "('s \<Rightarrow> (word32 \<times> 's) option) \<Rightarrow> ('s \<Rightarrow> (word32 \<times> 's) option) \<Rightarrow> bool list \<Rightarrow> 's
    \<Rightarrow> (word32 list \<times> 's) option" where
  "token_run acquire release [] s = Some ([], s)"
| "token_run acquire release (b # bs) s = do {
     (r, s) \<leftarrow> (if b then release s else acquire s);
     (rs, s) \<leftarrow> token_run acquire release bs s;
     Some (r # rs, s)
   }"

definition succeeded :: "bool \<Rightarrow> bool list \<Rightarrow> word32 list \<Rightarrow> nat" where
  "succeeded b bs rs = length (filter (\<lambda>(c, r). c = b \<and> r = osOK) (zip bs rs))"

lemma succeeded_Cons [simp]:
  "succeeded b (c # bs) (r # rs) = (if c = b \<and> r = osOK then 1 else 0) + succeeded b bs rs"
  "succeeded b [] rs = 0"
  by (simp_all add: succeeded_def)

text \<open>What the pools and queues rely on.\<close>

locale tokens =
  fixes ok :: "'s \<Rightarrow> bool" and tally limit :: "'s \<Rightarrow> word32"
    and acquire release :: "'s \<Rightarrow> (word32 \<times> 's) option"
  assumes acquire_some: "ok s \<Longrightarrow> tally s \<noteq> 0 \<Longrightarrow>
      \<exists>s'. acquire s = Some (osOK, s') \<and> ok s' \<and> tally s' = tally s - 1 \<and> limit s' = limit s"
    and acquire_none: "ok s \<Longrightarrow> tally s = 0 \<Longrightarrow> acquire s = Some (osErrorResource, s)"
    and release_some: "ok s \<Longrightarrow> tally s < limit s \<Longrightarrow>
      \<exists>s'. release s = Some (osOK, s') \<and> ok s' \<and> tally s' = tally s + 1 \<and> limit s' = limit s"
    and release_full: "ok s \<Longrightarrow> limit s \<le> tally s \<Longrightarrow> release s = Some (osErrorResource, s)"
begin

lemma step_counts:
  assumes "ok s" and "tally s \<le> limit s"
  shows "\<exists>r s'. (if b then release s else acquire s) = Some (r, s') \<and> ok s' \<and> limit s' = limit s \<and>
    tally s' \<le> limit s' \<and> (r = osOK \<or> r = osErrorResource) \<and>
    unat (tally s') + (if \<not> b \<and> r = osOK then 1 else 0) = unat (tally s) + (if b \<and> r = osOK then 1 else 0)"
proof (cases b)
  case True
  show ?thesis
  proof (cases "tally s < limit s")
    case True
    from release_some [OF assms(1) this] obtain s' where
      s': "release s = Some (osOK, s')" "ok s'" "tally s' = tally s + 1" "limit s' = limit s" by blast
    have u: "unat (tally s + 1) = unat (tally s) + 1" by (rule unat_inc [OF True])
    moreover have "tally s + 1 \<le> limit s" using True u by (simp add: word_le_nat_alt word_less_nat_alt)
    ultimately show ?thesis using s' \<open>b\<close> by simp
  next
    case False
    then show ?thesis using release_full [OF assms(1)] assms \<open>b\<close> by auto
  qed
next
  case False
  show ?thesis
  proof (cases "tally s = 0")
    case True
    then show ?thesis using acquire_none [OF assms(1)] assms False by auto
  next
    case nz: False
    from acquire_some [OF assms(1) nz] obtain s' where
      s': "acquire s = Some (osOK, s')" "ok s'" "tally s' = tally s - 1" "limit s' = limit s" by blast
    have u: "unat (tally s - 1) + 1 = unat (tally s)" by (rule unat_dec [OF nz])
    moreover have "tally s - 1 \<le> limit s" using u assms(2) by (simp add: word_le_nat_alt)
    ultimately show ?thesis using s' False by simp
  qed
qed

lemma run_counts:
  assumes "ok s" and "tally s \<le> limit s"
  shows "\<exists>rs s'. token_run acquire release bs s = Some (rs, s') \<and> ok s' \<and> limit s' = limit s \<and>
    tally s' \<le> limit s' \<and> set rs \<subseteq> {osOK, osErrorResource} \<and>
    unat (tally s') + succeeded False bs rs = unat (tally s) + succeeded True bs rs"
  using assms
proof (induction bs arbitrary: s)
  case (Cons b bs)
  obtain r s1 where s1: "(if b then release s else acquire s) = Some (r, s1)" "ok s1" "limit s1 = limit s"
    "tally s1 \<le> limit s1" "r = osOK \<or> r = osErrorResource"
    "unat (tally s1) + (if \<not> b \<and> r = osOK then 1 else 0) = unat (tally s) + (if b \<and> r = osOK then 1 else 0)"
    using step_counts [OF Cons.prems, of b] by blast
  from Cons.IH [OF s1(2,4)] obtain rs s' where
    s': "token_run acquire release bs s1 = Some (rs, s')" "ok s'" "limit s' = limit s" "tally s' \<le> limit s'"
    "set rs \<subseteq> {osOK, osErrorResource}"
    "unat (tally s') + succeeded False bs rs = unat (tally s1) + succeeded True bs rs"
    using s1(3) by auto
  have "token_run acquire release (b # bs) s = Some (r # rs, s')" by (simp add: s1(1) s'(1))
  moreover have "unat (tally s') + succeeded False (b # bs) (r # rs) = unat (tally s) + succeeded True (b # bs) (r # rs)"
    using s1(6) s'(6) by (cases b; cases "r = osOK") simp_all
  ultimately show ?case using s' s1(5) by auto
qed auto

end

lemma released_max_count: "released sem s s' \<Longrightarrow> max_count s' = max_count s"
  by (auto simp: released_def)

interpretation st: tokens "sem_ok sem" "\<lambda>s. sem_value s sem" "\<lambda>s. max_count s sem"
  "osSemaphoreAcquire P [id] sem 0" "osSemaphoreRelease P id sem" for P and sem
proof
  fix s
  show "sem_ok sem s \<Longrightarrow> sem_value s sem \<noteq> 0 \<Longrightarrow> \<exists>s'. osSemaphoreAcquire P [id] sem 0 s = Some (osOK, s') \<and>
      sem_ok sem s' \<and> sem_value s' sem = sem_value s sem - 1 \<and> max_count s' sem = max_count s sem"
    by (simp add: osSemaphoreAcquire_token)
  show "sem_ok sem s \<Longrightarrow> sem_value s sem < max_count s sem \<Longrightarrow> \<exists>s'. osSemaphoreRelease P id sem s = Some (osOK, s') \<and>
      sem_ok sem s' \<and> sem_value s' sem = sem_value s sem + 1 \<and> max_count s' sem = max_count s sem"
    using osSemaphoreRelease_ok [of sem s P] released_max_count by fastforce
qed (simp_all add: osSemaphoreAcquire_empty osSemaphoreRelease_full)

section \<open>Properties\<close>

text \<open>A semaphore at address 0x3000 with the value and the limit given.\<close>

definition sample_sem :: "word32 \<Rightarrow> word32 \<Rightarrow> rtos" where
  "sample_sem n most = mem_upd 0x3048 n (sample_rtos\<lparr>max_count := (\<lambda>_. most),
     hdr := (\<lambda>_. \<lparr>marker = RTOS_SEMAPHORE_MARKER, obj_name = ''sem'', attr_bits = 0\<rparr>)\<rparr>)"

lemma sample_sem_ok: "sem_ok 0x3000 (sample_sem n most)"
  using sample_ker_kinv
  by (simp add: sem_ok_def sample_sem_def sample_rtos_def osIsResourceValid_def futex_plain_def)

lemma sample_sem_value [simp]:
  "mem_word (sample_sem n most) 0x3048 = n" "max_count (sample_sem n most) sem = most"
  by (simp_all add: sample_sem_def sample_rtos_def)

text \<open>
  C12. Tokens are neither lost nor made: after any sequence of releases and non-blocking
  acquisitions by threads the value is the initial value plus the number of successful
  releases minus the number of successful acquisitions, it never exceeds the limit, and the
  only failure is \<open>osErrorResource\<close>.
\<close>

theorem semaphore_accounting:
  assumes "sem_ok sem s" and "sem_value s sem \<le> max_count s sem"
  shows "\<exists>rs s'. token_run (osSemaphoreAcquire P [id] sem 0) (osSemaphoreRelease P id sem) bs s = Some (rs, s') \<and>
    sem_value s' sem \<le> max_count s sem \<and> set rs \<subseteq> {osOK, osErrorResource} \<and>
    unat (sem_value s' sem) + succeeded False bs rs = unat (sem_value s sem) + succeeded True bs rs"
  using st.run_counts [OF assms, of P bs] by auto

theorem semaphore_accounting_witness:
  "\<exists>rs s'. token_run (osSemaphoreAcquire sample_port [id] 0x3000 0) (osSemaphoreRelease sample_port id 0x3000)
      [True, False, False] (sample_sem 1 2) = Some (rs, s') \<and>
    unat (sem_value s' 0x3000) + succeeded False [True, False, False] rs = 1 + succeeded True [True, False, False] rs"
proof -
  have "sem_value (sample_sem 1 2) 0x3000 \<le> max_count (sample_sem 1 2) 0x3000" by simp
  from semaphore_accounting [OF sample_sem_ok this, of sample_port "[True, False, False]"] show ?thesis
    by (auto simp del: token_run.simps)
qed

text \<open>
  An acquisition of an empty semaphore with a timeout blocks the caller: the rest of the
  system runs with the caller in the waiters queue of the semaphore, its timer armed and the
  value untouched. If the wait times out the call reports it and leaves the value alone; if the
  caller is woken and finds a token it takes exactly that one.
\<close>

theorem semaphore_blocking_acquire:
  assumes o: "sem_ok sem s" and z: "sem_value s sem = 0" and t: "timeout \<noteq> 0"
    and c: "current_task (this (ker s)) = cur" "cur \<noteq> 0"
  shows "\<exists>k. blocked_on (futex_at sem) cur timeout (ker s) k \<and>
    (let w = env (s\<lparr>ker := k\<rparr>); status = sf_r0 (psp (task_of (ker w) cur)) in
      (status = - ETIMEDOUT \<longrightarrow> (\<exists>s'. osSemaphoreAcquire P [env, id] sem timeout s = Some (osErrorTimeout, s') \<and>
         mem (ker s') = mem (ker w))) \<and>
      (status = 0 \<and> sem_value w sem \<noteq> 0 \<longrightarrow>
         osSemaphoreAcquire P [env, id] sem timeout s = Some (osOK, mem_upd (sem_value_at sem) (sem_value w sem - 1) w)))"
proof -
  note d = o [unfolded sem_ok_def]
  obtain k where k: "blocked_on (futex_at sem) cur timeout (ker s) k"
    "rtos_futex_wait P env (futex_at sem) 0 timeout s =
      (let w = env (s\<lparr>ker := k\<rparr>); status = sf_r0 (psp (task_of (ker w) cur))
       in Some (status, if status <s 0 then w\<lparr>ker := (ker w)\<lparr>errno := - status\<rparr>\<rparr> else w))"
    using rtos_futex_wait_plain [of s cur "futex_at sem" 0 timeout P env] d c z by auto
  define w where "w = env (s\<lparr>ker := k\<rparr>)"
  define status where "status = sf_r0 (psp (task_of (ker w) cur))"
  have e: "osSemaphoreAcquire P [env, id] sem timeout s =
      (if status <s 0 then Some (wait_failed status, w\<lparr>ker := (ker w)\<lparr>errno := - status\<rparr>\<rparr>)
       else semaphore_acquire_loop P [id] sem timeout 1 w)"
    using d z t k(2)
    by (simp add: osSemaphoreAcquire_def semaphore_acquire_loop.simps [of P "[env, id]"] compare_exchange_def
        Let_def w_def [symmetric] status_def [symmetric])
  have neg: "(- ETIMEDOUT :: word32) <s 0" "\<not> (0 :: word32) <s 0" by (simp_all add: word_sless_alt)
  have "semaphore_acquire_loop P [id] sem timeout 1 w = Some (osOK, mem_upd (sem_value_at sem) (sem_value w sem - 1) w)"
    if "sem_value w sem \<noteq> 0"
    using that by (simp add: semaphore_acquire_loop.simps [of P] compare_exchange_def)
  then show ?thesis
    unfolding Let_def using k(1) e neg
    by (intro exI [of _ k]) (auto simp: w_def [symmetric] status_def [symmetric] wait_failed_def)
qed

theorem semaphore_blocking_acquire_witness:
  "\<exists>k. blocked_on 0x3028 0x100 7 (ker (sample_sem 0 2)) k \<and>
    osSemaphoreAcquire sample_port [mem_upd 0x3048 2, id] 0x3000 7 (sample_sem 0 2) =
      Some (osOK, mem_upd 0x3048 1 (mem_upd 0x3048 2 ((sample_sem 0 2)\<lparr>ker := k\<rparr>)))"
proof -
  have c: "current_task (this (ker (sample_sem 0 2))) = 0x100" by (simp add: sample_sem_def sample_rtos_def)
  have "(0x100 :: word32) \<noteq> 0" "(7 :: word32) \<noteq> 0" by simp_all
  have z: "sem_value (sample_sem 0 2) 0x3000 = 0" by simp
  from semaphore_blocking_acquire [OF sample_sem_ok z \<open>7 \<noteq> 0\<close> c \<open>0x100 \<noteq> 0\<close>,
      of "mem_upd 0x3048 2" sample_port] show ?thesis
    by (auto simp: Let_def blocked_on_def)
qed

text \<open>
  Only the release that raises the value from 0 wakes a waiter. When two threads wait and two
  tokens are released before the first of them runs, the value is 2 but the second thread stays
  blocked in the waiters queue, its saved state unchanged.
\<close>

theorem release_strands_second_waiter:
  assumes o: "sem_ok sem s" and z: "sem_value s sem = 0" and m: "2 \<le> max_count s sem"
    and q: "queues (ker s) (Waiters (futex_at sem)) = a # b # ws" and n: "a \<noteq> b"
  shows "\<exists>s1 s2. osSemaphoreRelease P id sem s = Some (osOK, s1) \<and>
    osSemaphoreRelease P id sem s1 = Some (osOK, s2) \<and> sem_value s2 sem = 2 \<and>
    state_of (ker s2) a = TASK_READY \<and>
    state_of (ker s2) b = TASK_BLOCKED \<and> queues (ker s2) (Waiters (futex_at sem)) = b # ws"
proof -
  have "0 < max_count s sem" "1 < max_count s sem" by (rule order.strict_trans2 [OF _ m], simp)+
  then have m0: "sem_value s sem < max_count s sem" "1 < max_count s sem" using z by simp_all
  obtain s1 where s1: "osSemaphoreRelease P id sem s = Some (osOK, s1)" "released sem s s1" "sem_ok sem s1"
    "sem_value s1 sem = 1"
    using osSemaphoreRelease_ok [OF o m0(1), of P] z by auto
  have "max_count s1 = max_count s" by (rule released_max_count [OF s1(2)])
  with m0 s1(4) have m1: "sem_value s1 sem < max_count s1 sem" by simp
  obtain s2 where s2: "osSemaphoreRelease P id sem s1 = Some (osOK, s2)" "released sem s1 s2"
    "sem_value s2 sem = 1 + 1"
    using osSemaphoreRelease_ok [OF s1(3) m1, of P] s1(4) by auto
  have w1: "queues (ker s1) (Waiters (futex_at sem)) = b # ws" "state_of (ker s1) a = TASK_READY"
    "task_of (ker s1) b = task_of (ker s) b"
    using s1(2) z q n by (auto simp: released_def plain_woken_def)
  have w2: "queues (ker s2) = queues (ker s1) \<or> queues (ker s2) (Waiters (futex_at sem)) = b # ws"
    "\<forall>t. task_of (ker s2) t = task_of (ker s1) t"
    using s2(2) s1(4) w1(1) by (auto simp: released_def plain_woken_def)
  have "state_of (ker s) b = TASK_BLOCKED"
    using waiterD(3) [of "ker s" b "futex_at sem"] o q by (simp add: sem_ok_def kinv_def)
  then show ?thesis using s1(1) s2(1,3) w1 w2 by auto
qed

text \<open>Two threads, 0x300 and 0x200, wait for the semaphore at 0xfd8.\<close>

definition waiting_rtos :: rtos where
  "waiting_rtos = (sample_sem 0 5)\<lparr>ker := sample_ker\<lparr>
     task_of := (task_of sample_ker)(0x200 := sample_task TASK_BLOCKED 20 UINT32_MAX (Some (Waiters 0x1000))),
     queues := (\<lambda>_. [])(Waiters 0x1000 := [0x300, 0x200])\<rparr>\<rparr>"

lemma waiting_ok: "sem_ok 0xfd8 waiting_rtos"
proof -
  have "sched_inv (ker waiting_rtos)"
    by (auto simp: inv_but_def queues_wf_def timers_wf_def tasks_wf_def placed_def current_ok_def waiting_rtos_def
        sample_ker_def sample_sys_def closest_timer_def sample_task_def boot_core_def)
  moreover have "slots_ok (ker waiting_rtos)"
    by (simp add: slots_ok_def waiting_rtos_def) (simp add: sample_ker_def sample_sys_def boot_core_def)
  ultimately have "kinv (ker waiting_rtos)"
    by (simp add: kinv_def) (simp add: waiting_rtos_def sample_ker_def sample_sys_def)
  then show ?thesis
    by (simp add: sem_ok_def) (simp add: waiting_rtos_def sample_sem_def sample_rtos_def osIsResourceValid_def futex_plain_def)
qed

theorem release_strands_second_waiter_witness:
  "\<exists>s1 s2. osSemaphoreRelease sample_port id 0xfd8 waiting_rtos = Some (osOK, s1) \<and>
    osSemaphoreRelease sample_port id 0xfd8 s1 = Some (osOK, s2) \<and>
    state_of (ker s2) 0x200 = TASK_BLOCKED \<and> queues (ker s2) (Waiters 0x1000) = [0x200]"
proof -
  have "sem_value waiting_rtos 0xfd8 = 0" "2 \<le> max_count waiting_rtos 0xfd8"
    "queues (ker waiting_rtos) (Waiters (futex_at 0xfd8)) = [0x300, 0x200]" "(0x300 :: addr) \<noteq> 0x200"
    by (simp_all add: waiting_rtos_def sample_sem_def)
  from release_strands_second_waiter [OF waiting_ok this, of sample_port] show ?thesis by auto
qed

text \<open>
  The limit is not kept under concurrency: the value is tested and raised in two accesses, so
  a release that comes between those of another one makes the value exceed the limit.
\<close>

theorem release_exceeds_limit:
  assumes o: "sem_ok sem s" and v: "sem_value s sem + 1 = max_count s sem" "sem_value s sem < max_count s sem"
    and nz: "sem_value s sem \<noteq> 0"
  shows "\<exists>s'. osSemaphoreRelease P (\<lambda>s. snd (the (osSemaphoreRelease P id sem s))) sem s = Some (osOK, s') \<and>
    sem_value s' sem = max_count s sem + 1"
proof -
  have e: "osSemaphoreRelease P env sem s = Some (osOK, mem_upd (sem_value_at sem) (sem_value (env s) sem + 1) (env s))"
    if "sem_value (env s) sem \<noteq> 0" for env
    using o v(2) that by (simp add: osSemaphoreRelease_def sem_ok_def Let_def not_le)
  let ?i = "mem_upd (sem_value_at sem) (sem_value s sem + 1) s"
  have i: "snd (the (osSemaphoreRelease P id sem s)) = ?i" using nz by (simp add: e)
  have "sem_value s sem + 1 \<noteq> 0" using v by auto
  then show ?thesis using e [of "\<lambda>s. snd (the (osSemaphoreRelease P id sem s))"] v(1) by (simp add: i)
qed

theorem release_exceeds_limit_witness:
  "\<exists>s'. osSemaphoreRelease sample_port (\<lambda>s. snd (the (osSemaphoreRelease sample_port id 0x3000 s))) 0x3000
      (sample_sem 1 2) = Some (osOK, s') \<and> sem_value s' 0x3000 = 3"
  using release_exceeds_limit [OF sample_sem_ok, of 1 2 sample_port] by simp

end
