(* ===== verification/Rtos_Event_Flags.thy ===== *)
theory Rtos_Event_Flags
  imports Rtos_State
begin

text \<open>
  Event flags, \<open>cmsis-rtos2-eventflags.c\<close>. The flags are one word with a plain futex on it; the
  highest bit is reserved for errors. A turn of the wait loop reads the flags and then either
  clears them or waits: \<open>envs\<close> has a pair for each turn, what happens after the read and what
  happens while the caller waits.
\<close>

section \<open>Operations\<close>

abbreviation ef_flags :: "rtos \<Rightarrow> addr \<Rightarrow> word32" where
  "ef_flags s ef \<equiv> mem_word s (flags_at ef)"

definition osEventFlagsNew :: "port \<Rightarrow> os_attr option \<Rightarrow> rtos \<Rightarrow> (addr \<times> rtos) option" where
  "osEventFlagsNew P attr s =
    (if osKernelContextIsValid P False 0 s \<noteq> osOK then Some (0, s)
     else let attr = case_option no_attr id attr;
              (new, s) = control_block P SIZEOF_EVENTFLAGS attr s
          in if new = 0 then Some (0, s)
             else do {
               let s = hdr_upd new (init_header RTOS_EVENTFLAGS_MARKER attr new) s;
               let s = mem_upd (flags_at new) 0 s;
               let s = s\<lparr>ef_waiters := (ef_waiters s)(new := 0)\<rparr>;
               s \<leftarrow> rtos_futex_init (futex_at new) (flags_at new) 0 s;
               (status, s) \<leftarrow> osKernelResourceAdd P osResourceEventFlags
                 (new + resource_offset osResourceEventFlags) s;
               if status \<noteq> osOK then Some (0, release_dynamic P new s)
               else Some (new, s)
             })"

definition osEventFlagsGetName :: "port \<Rightarrow> addr \<Rightarrow> rtos \<Rightarrow> string option" where
  "osEventFlagsGetName P ef s = get_name P RTOS_EVENTFLAGS_MARKER ef s"

definition osEventFlagsSet :: "port \<Rightarrow> addr \<Rightarrow> word32 \<Rightarrow> rtos \<Rightarrow> (word32 \<times> rtos) option" where
  "osEventFlagsSet P ef flags s =
    (if has_flag flags osFlagsError then Some (osFlagsErrorParameter, s)
     else if osIsResourceValid ef RTOS_EVENTFLAGS_MARKER s \<noteq> osOK then Some (osFlagsErrorParameter, s)
     else do {
       let prev = ef_flags s ef;
       let s = mem_upd (flags_at ef) (prev OR flags) s;
       if prev AND flags \<noteq> flags
       then do {
         (status, s) \<leftarrow> rtos_futex_wake P (futex_at ef) True s;
         Some (if status <s 0 then osFlagsError else prev OR flags, s)
       }
       else Some (prev, s)
     })"

definition osEventFlagsClear :: "addr \<Rightarrow> word32 \<Rightarrow> rtos \<Rightarrow> word32 \<times> rtos" where
  "osEventFlagsClear ef flags s =
    (if has_flag flags osFlagsError then (osFlagsErrorParameter, s)
     else if osIsResourceValid ef RTOS_EVENTFLAGS_MARKER s \<noteq> osOK then (osFlagsErrorParameter, s)
     else (ef_flags s ef, mem_upd (flags_at ef) (ef_flags s ef AND NOT flags) s))"

definition osEventFlagsGet :: "addr \<Rightarrow> rtos \<Rightarrow> word32" where
  "osEventFlagsGet ef s =
    (if osIsResourceValid ef RTOS_EVENTFLAGS_MARKER s \<noteq> osOK then 0 else ef_flags s ef)"

definition ef_enter :: "addr \<Rightarrow> rtos \<Rightarrow> rtos" where
  "ef_enter ef s = s\<lparr>ef_waiters := (ef_waiters s)(ef := ef_waiters s ef + 1)\<rparr>"

definition ef_leave :: "addr \<Rightarrow> rtos \<Rightarrow> rtos" where
  "ef_leave ef s = s\<lparr>ef_waiters := (ef_waiters s)(ef := ef_waiters s ef - 1)\<rparr>"

definition flags_met :: "word32 \<Rightarrow> word32 \<Rightarrow> word32 \<Rightarrow> bool" where
  "flags_met options flags prev \<longleftrightarrow>
    (if has_flag options osFlagsWaitAll then prev AND flags = flags else prev AND flags \<noteq> 0)"

text \<open>With the error bit set in the flags the calling thread exits: the call does not return.\<close>

fun event_wait_loop ::
  "port \<Rightarrow> ((rtos \<Rightarrow> rtos) \<times> (rtos \<Rightarrow> rtos)) list \<Rightarrow> addr \<Rightarrow> word32 \<Rightarrow> word32 \<Rightarrow> word32 \<Rightarrow> rtos
    \<Rightarrow> (word32 \<times> rtos) option" where
  "event_wait_loop P [] ef flags options timeout s = None"
| "event_wait_loop P ((env, run) # envs) ef flags options timeout s =
    (let clear = (if has_flag options osFlagsNoClear then UINT32_MAX else NOT flags);
         prev = ef_flags s ef;
         s = env s
     in if flags_met options flags prev
        then let s = ef_leave ef s
             in Some (ef_flags s ef, mem_upd (flags_at ef) (ef_flags s ef AND clear) s)
        else if timeout = 0 then Some (osFlagsErrorResource, ef_leave ef s)
        else if has_flag prev osFlagsError then None
        else do {
          (status, s) \<leftarrow> rtos_futex_wait P run (futex_at ef) prev timeout s;
          if status <s 0 then Some (wait_failed status, ef_leave ef s)
          else event_wait_loop P envs ef flags options timeout s
        })"

definition osEventFlagsWait ::
  "port \<Rightarrow> ((rtos \<Rightarrow> rtos) \<times> (rtos \<Rightarrow> rtos)) list \<Rightarrow> addr \<Rightarrow> word32 \<Rightarrow> word32 \<Rightarrow> word32 \<Rightarrow> rtos
    \<Rightarrow> (word32 \<times> rtos) option" where
  "osEventFlagsWait P envs ef flags options timeout s =
    (if has_flag flags osFlagsError then Some (osFlagsErrorParameter, s)
     else if osKernelContextIsValid P True timeout s \<noteq> osOK then Some (osKernelContextIsValid P True timeout s, s)
     else if osIsResourceValid ef RTOS_EVENTFLAGS_MARKER s \<noteq> osOK
     then Some (osIsResourceValid ef RTOS_EVENTFLAGS_MARKER s, s)
     else event_wait_loop P envs ef flags options timeout (ef_enter ef s))"

text \<open>The marker of deleted event flags is not cleared.\<close>

definition osEventFlagsDelete :: "port \<Rightarrow> addr \<Rightarrow> rtos \<Rightarrow> (word32 \<times> rtos) option" where
  "osEventFlagsDelete P ef s =
    (if osKernelContextIsValid P False 0 s \<noteq> osOK then Some (osKernelContextIsValid P False 0 s, s)
     else if osIsResourceValid ef RTOS_EVENTFLAGS_MARKER s \<noteq> osOK
     then Some (osIsResourceValid ef RTOS_EVENTFLAGS_MARKER s, s)
     else if 0 <s ef_waiters s ef then Some (osErrorResource, s)
     else do {
       (status, s) \<leftarrow> osKernelResourceRemove P osResourceEventFlags (ef + resource_offset osResourceEventFlags) s;
       if status \<noteq> osOK then Some (status, s)
       else Some (osOK, release_dynamic P ef s)
     })"

section \<open>Event flags that can be used\<close>

definition ef_ok :: "addr \<Rightarrow> rtos \<Rightarrow> bool" where
  "ef_ok ef s \<longleftrightarrow> kinv (ker s) \<and> ipsr (ker s) = 0 \<and> osIsResourceValid ef RTOS_EVENTFLAGS_MARKER s = osOK \<and>
    futex_plain (futex_at ef) (ker s) \<and> f_value (futex_of (ker s) (futex_at ef)) = flags_at ef"

lemma ef_count_sel [simp]:
  "ker (ef_enter ef s) = ker s" "ker (ef_leave ef s) = ker s" "hdr (ef_enter ef s) = hdr s"
  "hdr (ef_leave ef s) = hdr s"
  by (simp_all add: ef_enter_def ef_leave_def)

lemma ef_leave_enter [simp]: "ef_leave ef (ef_enter ef s) = s"
  by (simp add: ef_leave_def ef_enter_def)

lemma ef_leave_mem [simp]: "ef_leave ef (mem_upd a v s) = mem_upd a v (ef_leave ef s)"
  by (simp add: ef_leave_def mem_upd_def)

lemma small_not_neg: "n < 2 ^ 31 \<Longrightarrow> \<not> (of_nat n :: word32) <s 0"
proof -
  assume n: "n < 2 ^ 31"
  then have "take_bit 32 n = n" by (simp add: take_bit_nat_eq_self_iff)
  with n show ?thesis by (simp add: word_sless_alt sint_uint unsigned_of_nat bit_iff_odd)
qed

text \<open>Setting flags without interference.\<close>

lemma osEventFlagsSet_ok:
  assumes o: "ef_ok ef s" and f: "flags AND osFlagsError = 0"
    and n: "length (queues (ker s) (Waiters (futex_at ef))) < 2 ^ 31"
  shows "\<exists>k. osEventFlagsSet P ef flags s = Some (ef_flags s ef OR flags, s\<lparr>ker := k\<rparr>) \<and>
    ef_ok ef (s\<lparr>ker := k\<rparr>) \<and> mem k = (mem (ker s))(flags_at ef := ef_flags s ef OR flags) \<and>
    (if ef_flags s ef AND flags \<noteq> flags
     then queues k (Waiters (futex_at ef)) = [] \<and>
       (\<forall>t\<in>set (queues (ker s) (Waiters (futex_at ef))). state_of k t = TASK_READY \<and> t \<in> set (queues k ReadyQueue))
     else task_of k = task_of (ker s) \<and> queues k = queues (ker s))"
proof -
  define k where "k = (ker s)\<lparr>mem := (mem (ker s))(flags_at ef := ef_flags s ef OR flags)\<rparr>"
  have d: "kinv k" "ipsr k = 0" "futex_plain (futex_at ef) k" "queues k = queues (ker s)"
    using o by (simp_all add: ef_ok_def k_def futex_plain_def)
  have m: "mem_upd (flags_at ef) (ef_flags s ef OR flags) s = s\<lparr>ker := k\<rparr>" by (simp add: mem_upd_def k_def)
  show ?thesis
  proof (cases "ef_flags s ef AND flags = flags")
    case True
    have "p OR (p AND f) = p" for p f :: word32 by (rule bit_word_eqI) (auto simp: bit_simps)
    from this [of "ef_flags s ef" flags] have u: "ef_flags s ef OR flags = ef_flags s ef" by (simp add: True)
    then show ?thesis
      using o f True m by (intro exI [of _ k]) (auto simp: osEventFlagsSet_def ef_ok_def k_def futex_plain_def
          osIsResourceValid_def Let_def)
  next
    case False
    obtain k' where k': "scheduler_futex_wake (p_eframe P) (futex_at ef) True k =
        Some (of_nat (length (queues k (Waiters (futex_at ef)))), k')"
      "plain_woken (futex_at ef) (length (queues k (Waiters (futex_at ef)))) k k'"
      using scheduler_futex_wake_plain [OF d(1-3), of _ True "p_eframe P"] by auto
    then show ?thesis
      using o f False m n small_not_neg [OF n] d(4)
      by (intro exI [of _ k']) (auto simp: osEventFlagsSet_def ef_ok_def rtos_futex_wake_def plain_woken_def k_def
          osIsResourceValid_def futex_plain_def Let_def)
  qed
qed

lemma osEventFlagsWait_met:
  assumes o: "ef_ok ef s" and f: "flags AND osFlagsError = 0" and m: "flags_met options flags (ef_flags s ef)"
  shows "osEventFlagsWait P ((id, run) # envs) ef flags options timeout s = Some (ef_flags s ef,
    mem_upd (flags_at ef) (if options AND osFlagsNoClear \<noteq> 0 then ef_flags s ef else ef_flags s ef AND NOT flags) s)"
proof -
  have m1: "(UINT32_MAX :: word32) = - 1" by simp
  have u: "v AND UINT32_MAX = v" for v :: word32 unfolding m1 by simp
  show ?thesis using o f m by (auto simp: osEventFlagsWait_def ef_ok_def Let_def u)
qed

lemma osEventFlagsWait_not_met:
  assumes o: "ef_ok ef s" and f: "flags AND osFlagsError = 0" and m: "\<not> flags_met options flags (ef_flags s ef)"
  shows "osEventFlagsWait P ((id, run) # envs) ef flags options 0 s = Some (osFlagsErrorResource, s)"
  using o f m by (simp add: osEventFlagsWait_def ef_ok_def Let_def)

text \<open>Event flags in memory given by the caller: what changes besides the scheduler.\<close>

definition ef_created :: "os_attr \<Rightarrow> addr \<Rightarrow> rtos \<Rightarrow> rtos" where
  "ef_created attr ef s = cycle_lock (ResourceLock osResourceEventFlags)
    (s\<lparr>hdr := (hdr s)(ef := init_header RTOS_EVENTFLAGS_MARKER attr ef (hdr s ef)),
       ef_waiters := (ef_waiters s)(ef := 0),
       resources := (resources s)(osResourceEventFlags := resources s osResourceEventFlags @ [ef + 76])\<rparr>)"

lemma osEventFlagsNew_static:
  assumes k: "kinv (ker s)" and i: "ipsr (ker s) = 0" and ks: "kernel_set s"
    and l: "spin_free (locks s (ResourceLock osResourceEventFlags))"
    and a: "a_cb_mem attr = ef" "SIZEOF_EVENTFLAGS \<le> a_cb_size attr" "ef \<noteq> 0" "futex_at ef \<noteq> 0" "ef + 76 \<noteq> 0"
    and q: "queues (ker s) (Waiters (futex_at ef)) = []"
  shows "\<exists>k. osEventFlagsNew P (Some attr) s = Some (ef, (ef_created attr ef s)\<lparr>ker := k\<rparr>) \<and>
    ef_ok ef ((ef_created attr ef s)\<lparr>ker := k\<rparr>) \<and> mem k = (mem (ker s))(flags_at ef := 0) \<and> queues k = queues (ker s)"
proof -
  let ?k = "(ker s)\<lparr>mem := (mem (ker s))(flags_at ef := 0)\<rparr>"
  have "kinv ?k" "queues ?k (Waiters (futex_at ef)) = []" using k q by simp_all
  from kinv_futex_init [OF this a(4), of "flags_at ef"] obtain w where
    w: "scheduler_futex_init (futex_at ef) (flags_at ef) 0 ?k = Some (?k\<lparr>futex_of := (futex_of ?k)(futex_at ef :=
      \<lparr>f_value = flags_at ef, f_flags = 0, f_marker = SCHEDULER_FUTEX_MARKER\<rparr>), owned := w\<rparr>)"
    "kinv (?k\<lparr>futex_of := (futex_of ?k)(futex_at ef :=
      \<lparr>f_value = flags_at ef, f_flags = 0, f_marker = SCHEDULER_FUTEX_MARKER\<rparr>), owned := w\<rparr>)" by blast
  let ?k2 = "?k\<lparr>futex_of := (futex_of ?k)(futex_at ef :=
      \<lparr>f_value = flags_at ef, f_flags = 0, f_marker = SCHEDULER_FUTEX_MARKER\<rparr>), owned := w\<rparr>"
  let ?s2 = "s\<lparr>hdr := (hdr s)(ef := init_header RTOS_EVENTFLAGS_MARKER attr ef (hdr s ef)),
       ef_waiters := (ef_waiters s)(ef := 0), ker := ?k2\<rparr>"
  have add: "osKernelResourceAdd P osResourceEventFlags (ef + 76) ?s2 = Some (osOK, (ef_created attr ef s)\<lparr>ker := ?k2\<rparr>)"
    using osKernelResourceAdd_ok [of ?s2 "ef + 76" osResourceEventFlags P] i a ks l by (simp add: ef_created_def cycle_lock_def)
  have "osEventFlagsNew P (Some attr) s = Some (ef, (ef_created attr ef s)\<lparr>ker := ?k2\<rparr>)"
    using i a w(1) add
    by (simp add: osEventFlagsNew_def control_block_def hdr_upd_def mem_upd_def rtos_futex_init_def linorder_not_le [symmetric] Let_def)
  moreover have "ef_ok ef ((ef_created attr ef s)\<lparr>ker := ?k2\<rparr>)"
    using w(2) i a by (simp add: ef_ok_def osIsResourceValid_def ef_created_def init_header_def futex_plain_def)
  ultimately show ?thesis by (intro exI [of _ ?k2]) simp
qed

section \<open>Properties\<close>

text \<open>
  C33. Setting flags: the word becomes the union, which is also returned. If a flag is new, every
  waiter is made ready to look again; if none is, no task is touched.
\<close>

theorem event_flags_set_exact:
  assumes o: "ef_ok ef s" and f: "flags AND osFlagsError = 0"
    and n: "length (queues (ker s) (Waiters (futex_at ef))) < 2 ^ 31"
  shows "\<exists>k. osEventFlagsSet P ef flags s = Some (ef_flags s ef OR flags, s\<lparr>ker := k\<rparr>) \<and>
    ef_ok ef (s\<lparr>ker := k\<rparr>) \<and> mem k = (mem (ker s))(flags_at ef := ef_flags s ef OR flags) \<and>
    (if ef_flags s ef AND flags \<noteq> flags
     then queues k (Waiters (futex_at ef)) = [] \<and>
       (\<forall>t\<in>set (queues (ker s) (Waiters (futex_at ef))). state_of k t = TASK_READY \<and> t \<in> set (queues k ReadyQueue))
     else task_of k = task_of (ker s) \<and> queues k = queues (ker s))"
  by (rule osEventFlagsSet_ok [OF o f n])

text \<open>
  C34. A wait that need not block: when the flags satisfy the request (any of them, or all), the
  call returns the flags as they were and clears exactly the requested ones, or nothing if so
  asked; otherwise an attempt without waiting fails and leaves everything as it was.
\<close>

theorem event_flags_wait_exact:
  assumes o: "ef_ok ef s" and f: "flags AND osFlagsError = 0"
  shows "(flags_met options flags (ef_flags s ef) \<longrightarrow>
      osEventFlagsWait P ((id, run) # envs) ef flags options timeout s = Some (ef_flags s ef,
        mem_upd (flags_at ef) (if options AND osFlagsNoClear \<noteq> 0 then ef_flags s ef else ef_flags s ef AND NOT flags) s)) \<and>
    (\<not> flags_met options flags (ef_flags s ef) \<longrightarrow>
      osEventFlagsWait P ((id, run) # envs) ef flags options 0 s = Some (osFlagsErrorResource, s))"
  using osEventFlagsWait_met [OF o f] osEventFlagsWait_not_met [OF o f] by blast

definition sample_flags :: "word32 \<Rightarrow> rtos" where
  "sample_flags v = mem_upd 0x1020 v (sample_rtos\<lparr>
     hdr := (\<lambda>_. \<lparr>marker = RTOS_EVENTFLAGS_MARKER, obj_name = [], attr_bits = 0\<rparr>)\<rparr>)"

lemma sample_flags_ok: "ef_ok 0xfd8 (sample_flags v)"
  using sample_ker_kinv
  by (simp add: ef_ok_def sample_flags_def sample_rtos_def osIsResourceValid_def futex_plain_def)

lemma sample_flags_sel:
  "mem_word (sample_flags v) 0x1020 = v" "queues (ker (sample_flags v)) (Waiters 0x1000) = [0x300]"
  by (simp_all add: sample_flags_def sample_rtos_def sample_ker_def sample_sys_def)

theorem event_flags_set_exact_witness:
  "\<exists>k. osEventFlagsSet sample_port 0xfd8 2 (sample_flags 1) = Some (3, (sample_flags 1)\<lparr>ker := k\<rparr>) \<and>
    state_of k 0x300 = TASK_READY \<and> queues k (Waiters 0x1000) = []"
  using event_flags_set_exact [OF sample_flags_ok, of 2 1 sample_port] by (auto simp: sample_flags_sel)

theorem event_flags_wait_exact_witness:
  "osEventFlagsWait sample_port [(id, id)] 0xfd8 2 osFlagsWaitAny 0 (sample_flags 3) =
     Some (3, mem_upd 0x1020 1 (sample_flags 3)) \<and>
   osEventFlagsWait sample_port [(id, id)] 0xfd8 6 osFlagsWaitAll 0 (sample_flags 3) =
     Some (osFlagsErrorResource, sample_flags 3)"
  using event_flags_wait_exact [OF sample_flags_ok, of 2 osFlagsWaitAny 3 sample_port id "[]" 0]
    event_flags_wait_exact [OF sample_flags_ok, of 6 osFlagsWaitAll 3 sample_port id "[]" 0]
  by (simp add: sample_flags_sel flags_met_def)

text \<open>
  The test of the flags and the clearing are two accesses. When another thread that waits for
  the same flags takes them in between, the call still succeeds, and the flags it returns have
  none of the requested ones: one event is consumed by two threads.
\<close>

theorem event_flags_consumed_twice:
  assumes o: "ef_ok ef s" and f: "flags AND osFlagsError = 0" and m: "ef_flags s ef AND flags \<noteq> 0"
  shows "\<exists>s'. osEventFlagsWait P [(\<lambda>s. snd (the (osEventFlagsWait P [(id, id)] ef flags osFlagsWaitAny 0 s)), id)]
      ef flags osFlagsWaitAny 0 s = Some (ef_flags s ef AND NOT flags, s')"
proof -
  let ?env = "\<lambda>s. snd (the (osEventFlagsWait P [(id, id)] ef flags osFlagsWaitAny 0 s))"
  have d: "osIsResourceValid ef RTOS_EVENTFLAGS_MARKER s = osOK" "ipsr (ker s) = 0"
    using o by (simp_all add: ef_ok_def)
  have v: "osIsResourceValid ef RTOS_EVENTFLAGS_MARKER (ef_enter ef s) = osOK"
    using d by (simp add: osIsResourceValid_def)
  have e: "ef_flags (?env (ef_enter ef s)) ef = ef_flags s ef AND NOT flags"
    using d v f m by (simp add: osEventFlagsWait_def flags_met_def Let_def)
  then show ?thesis
    using d f m by (simp add: osEventFlagsWait_def [of P "[(?env, id)]"] flags_met_def Let_def)
qed

theorem event_flags_consumed_twice_witness:
  "\<exists>s'. osEventFlagsWait sample_port
      [(\<lambda>s. snd (the (osEventFlagsWait sample_port [(id, id)] 0xfd8 2 osFlagsWaitAny 0 s)), id)]
      0xfd8 2 osFlagsWaitAny 0 (sample_flags 2) = Some (0, s')"
  using event_flags_consumed_twice [OF sample_flags_ok, of 2 2 sample_port] by (simp add: sample_flags_sel)

end
