(* ===== verification/Rtos_Pool.thy ===== *)
theory Rtos_Pool
  imports Rtos_Semaphore
begin

text \<open>
  Memory pools, \<open>cmsis-rtos2-pool.c\<close>: blocks of one size, the free ones linked through their
  first word, guarded by a semaphore that counts them.
\<close>

section \<open>Operations\<close>

abbreviation pool_end :: "rtos_memory_pool \<Rightarrow> addr" where
  "pool_end p \<equiv> pool_data p + block_size p * capacity p"

definition pool_upd :: "addr \<Rightarrow> (rtos_memory_pool \<Rightarrow> rtos_memory_pool) \<Rightarrow> rtos \<Rightarrow> rtos" where
  "pool_upd pool f s = s\<lparr>pool_of := (pool_of s)(pool := f (pool_of s pool))\<rparr>"

text \<open>Put a block in front of the free list: the link goes into its first word.\<close>

definition push_block :: "addr \<Rightarrow> addr \<Rightarrow> rtos \<Rightarrow> rtos" where
  "push_block pool block s =
    (let s = mem_upd block (free_list (pool_of s pool)) s
     in pool_upd pool (\<lambda>p. p\<lparr>free_list := block\<rparr>) s)"

fun link_blocks :: "addr \<Rightarrow> word32 list \<Rightarrow> rtos \<Rightarrow> rtos" where
  "link_blocks pool [] s = s"
| "link_blocks pool (i # is) s =
    link_blocks pool is (push_block pool (pool_data (pool_of s pool) + i * block_size (pool_of s pool)) s)"

text \<open>
  With static memory the attribute bits are not written. The product of count and size wraps
  like the 32-bit product of the code.
\<close>

definition osMemoryPoolNew ::
  "port \<Rightarrow> word32 \<Rightarrow> word32 \<Rightarrow> os_attr option \<Rightarrow> rtos \<Rightarrow> (addr \<times> rtos) option" where
  "osMemoryPoolNew P count bsize attr s =
    (if osKernelContextIsValid P False 0 s \<noteq> osOK then Some (0, s)
     else if bsize \<noteq> (bsize + 3) AND NOT 3 then Some (0, s)
     else let attr = case_option no_attr id attr;
              (new, s) =
                (if a_cb_mem attr = 0 \<and> a_mem attr = 0
                 then let (new, s) = p_alloc P (SIZEOF_MEMORY_POOL + bsize * count) s
                      in if new = 0 then (0, s)
                         else (new, hdr_upd new (\<lambda>h. h\<lparr>attr_bits := a_attr_bits attr OR osDynamicAlloc\<rparr>)
                           (pool_upd new (\<lambda>p. p\<lparr>pool_data := new + SIZEOF_MEMORY_POOL\<rparr>) s))
                 else if a_cb_mem attr \<noteq> 0 \<and> a_mem attr \<noteq> 0
                 then if a_cb_size attr < SIZEOF_MEMORY_POOL \<or> a_size attr < bsize * count then (0, s)
                      else (a_cb_mem attr, pool_upd (a_cb_mem attr) (\<lambda>p. p\<lparr>pool_data := a_mem attr\<rparr>) s)
                 else (0, s))
          in if new = 0 then Some (0, s)
             else do {
               let s = hdr_upd new (\<lambda>h. h\<lparr>marker := RTOS_MEMORY_POOL_MARKER, obj_name := name_of attr\<rparr>) s;
               let s = pool_upd new (\<lambda>p. p\<lparr>block_size := bsize, capacity := count\<rparr>) s;
               let s = s\<lparr>locks := (locks s)(ObjectLock new := 0)\<rparr>;
               (sem, s) \<leftarrow> osSemaphoreNew P count count
                 (Some (no_attr\<lparr>a_name := a_name attr, a_cb_mem := pool_semaphore_at new, a_cb_size := SIZEOF_SEMAPHORE\<rparr>)) s;
               if sem = 0 then Some (0, release_dynamic P new s)
               else do {
                 let s = pool_upd new (\<lambda>p. p\<lparr>free_list := 0\<rparr>) s;
                 let s = link_blocks new (map of_nat [0..<unat count]) s;
                 (status, s) \<leftarrow> osKernelResourceAdd P osResourceMemoryPool (new + resource_offset osResourceMemoryPool) s;
                 if status \<noteq> osOK
                 then do {
                   (_, s) \<leftarrow> osSemaphoreDelete P (pool_semaphore_at new) s;
                   Some (0, release_dynamic P new s)
                 }
                 else Some (new, s)
               }
             })"

definition osMemoryPoolGetName :: "port \<Rightarrow> addr \<Rightarrow> rtos \<Rightarrow> string option" where
  "osMemoryPoolGetName P pool s = get_name P RTOS_MEMORY_POOL_MARKER pool s"

definition osMemoryPoolAlloc ::
  "port \<Rightarrow> (rtos \<Rightarrow> rtos) list \<Rightarrow> addr \<Rightarrow> word32 \<Rightarrow> rtos \<Rightarrow> (addr \<times> rtos) option" where
  "osMemoryPoolAlloc P envs pool timeout s =
    (if osKernelContextIsValid P True timeout s \<noteq> osOK then Some (0, s)
     else if osIsResourceValid pool RTOS_MEMORY_POOL_MARKER s \<noteq> osOK then Some (0, s)
     else do {
       (status, s) \<leftarrow> osSemaphoreAcquire P envs (pool_semaphore_at pool) timeout s;
       if status \<noteq> osOK then Some (0, s)
       else locked_section (ObjectLock pool)
         (\<lambda>s. let block = free_list (pool_of s pool)
              in Some (block, pool_upd pool (\<lambda>p. p\<lparr>free_list := mem_word s block\<rparr>) s)) s
     })"

text \<open>
  \<open>list_remove\<close> applied to a block of the free list, as the error path of \<open>osMemoryPoolFree\<close>
  does: the first two words are taken for the links of a doubly linked list.
\<close>

definition block_list_remove :: "addr \<Rightarrow> rtos \<Rightarrow> rtos option" where
  "block_list_remove block s = do {
     s \<leftarrow> check (block \<noteq> 0 \<and> mem_word s block \<noteq> 0 \<and> mem_word s (block + 4) \<noteq> 0) s;
     let s = mem_upd (mem_word s block + 4) (mem_word s (block + 4)) s;
     let s = mem_upd (mem_word s (block + 4)) (mem_word s block) s;
     Some (mem_upd (block + 4) block (mem_upd block block s))
   }"

definition osMemoryPoolFree :: "port \<Rightarrow> (rtos \<Rightarrow> rtos) \<Rightarrow> addr \<Rightarrow> addr \<Rightarrow> rtos \<Rightarrow> (word32 \<times> rtos) option" where
  "osMemoryPoolFree P env pool block s =
    (if osKernelContextIsValid P True 0 s \<noteq> osOK then Some (osKernelContextIsValid P True 0 s, s)
     else if osIsResourceValid pool RTOS_MEMORY_POOL_MARKER s \<noteq> osOK
     then Some (osIsResourceValid pool RTOS_MEMORY_POOL_MARKER s, s)
     else if block < pool_data (pool_of s pool) \<or> pool_end (pool_of s pool) < block
     then Some (osErrorParameter, s)
     else do {
       (_, s) \<leftarrow> locked_section (ObjectLock pool) (\<lambda>s. Some ((), push_block pool block s)) s;
       (status, s) \<leftarrow> osSemaphoreRelease P env (pool_semaphore_at pool) s;
       if status \<noteq> osOK
       then do {
         (_, s) \<leftarrow> locked_section (ObjectLock pool) (\<lambda>s. map_option (Pair ()) (block_list_remove block s)) s;
         Some (status, s)
       }
       else Some (osOK, s)
     })"

definition osMemoryPoolGetCapacity :: "port \<Rightarrow> addr \<Rightarrow> rtos \<Rightarrow> word32" where
  "osMemoryPoolGetCapacity P pool s =
    (if osKernelContextIsValid P True 0 s \<noteq> osOK then 0
     else if osIsResourceValid pool RTOS_MEMORY_POOL_MARKER s \<noteq> osOK then 0
     else capacity (pool_of s pool))"

definition osMemoryPoolGetBlockSize :: "port \<Rightarrow> addr \<Rightarrow> rtos \<Rightarrow> word32" where
  "osMemoryPoolGetBlockSize P pool s =
    (if osKernelContextIsValid P True 0 s \<noteq> osOK then 0
     else if osIsResourceValid pool RTOS_MEMORY_POOL_MARKER s \<noteq> osOK then 0
     else block_size (pool_of s pool))"

definition osMemoryPoolGetCount :: "port \<Rightarrow> addr \<Rightarrow> rtos \<Rightarrow> word32" where
  "osMemoryPoolGetCount P pool s =
    (if osKernelContextIsValid P True 0 s \<noteq> osOK then 0
     else if osIsResourceValid pool RTOS_MEMORY_POOL_MARKER s \<noteq> osOK then 0
     else capacity (pool_of s pool) - osSemaphoreGetCount P (pool_semaphore_at pool) s)"

definition osMemoryPoolGetSpace :: "port \<Rightarrow> addr \<Rightarrow> rtos \<Rightarrow> word32" where
  "osMemoryPoolGetSpace P pool s =
    (if osKernelContextIsValid P True 0 s \<noteq> osOK then 0
     else if osIsResourceValid pool RTOS_MEMORY_POOL_MARKER s \<noteq> osOK then 0
     else osSemaphoreGetCount P (pool_semaphore_at pool) s)"

text \<open>An invalid context or pool gives 0, which is \<open>osOK\<close>.\<close>

definition osMemoryPoolIsBlockValid :: "port \<Rightarrow> addr \<Rightarrow> addr \<Rightarrow> rtos \<Rightarrow> word32" where
  "osMemoryPoolIsBlockValid P pool block s =
    (if osKernelContextIsValid P True 0 s \<noteq> osOK then 0
     else if osIsResourceValid pool RTOS_MEMORY_POOL_MARKER s \<noteq> osOK then 0
     else if block < pool_data (pool_of s pool) \<or> pool_end (pool_of s pool) < block then osErrorParameter
     else osOK)"

definition osMemoryPoolDelete :: "port \<Rightarrow> addr \<Rightarrow> rtos \<Rightarrow> (word32 \<times> rtos) option" where
  "osMemoryPoolDelete P pool s =
    (if osKernelContextIsValid P False 0 s \<noteq> osOK then Some (osKernelContextIsValid P False 0 s, s)
     else if osIsResourceValid pool RTOS_MEMORY_POOL_MARKER s \<noteq> osOK
     then Some (osIsResourceValid pool RTOS_MEMORY_POOL_MARKER s, s)
     else do {
       let s = hdr_upd pool (\<lambda>h. h\<lparr>marker := 0\<rparr>) s;
       (status, s) \<leftarrow> osKernelResourceRemove P osResourceMemoryPool (pool + resource_offset osResourceMemoryPool) s;
       if status \<noteq> osOK then Some (status, s)
       else do {
         (status, s) \<leftarrow> osSemaphoreDelete P (pool_semaphore_at pool) s;
         if status \<noteq> osOK then Some (status, s)
         else Some (osOK, release_dynamic P pool s)
       }
     })"

section \<open>The invariant of a pool\<close>

fun free_chain :: "(addr \<Rightarrow> word32) \<Rightarrow> addr \<Rightarrow> addr list \<Rightarrow> bool" where
  "free_chain m p [] \<longleftrightarrow> p = 0"
| "free_chain m p (b # bs) \<longleftrightarrow> p = b \<and> b \<noteq> 0 \<and> free_chain m (m b) bs"

lemma free_chain_upd [simp]: "a \<notin> set bs \<Longrightarrow> free_chain (m(a := v)) p bs = free_chain m p bs"
  by (induction bs arbitrary: p) auto

definition pool_blocks :: "rtos_memory_pool \<Rightarrow> addr set" where
  "pool_blocks p = (\<lambda>i. pool_data p + of_nat i * block_size p) ` {..<unat (capacity p)}"

text \<open>The memory of the pool does not run over the end of the address space.\<close>

definition pool_fits :: "rtos_memory_pool \<Rightarrow> bool" where
  "pool_fits p \<longleftrightarrow> unat (pool_data p) + unat (block_size p) * unat (capacity p) < 2 ^ 32"

text \<open>
  \<open>fs\<close> are the free blocks in the order of the list: each is a block of the pool, none is twice
  in it, and the semaphore counts them. The word of the semaphore is not part of a block.
\<close>

definition pool_inv :: "addr \<Rightarrow> addr list \<Rightarrow> rtos \<Rightarrow> bool" where
  "pool_inv pool fs s \<longleftrightarrow> sem_ok (pool_semaphore_at pool) s \<and>
    osIsResourceValid pool RTOS_MEMORY_POOL_MARKER s = osOK \<and> spin_free (locks s (ObjectLock pool)) \<and>
    free_chain (mem (ker s)) (free_list (pool_of s pool)) fs \<and> distinct fs \<and> set fs \<subseteq> pool_blocks (pool_of s pool) \<and>
    0 \<notin> pool_blocks (pool_of s pool) \<and>
    sem_value_at (pool_semaphore_at pool) \<notin> pool_blocks (pool_of s pool) \<and>
    sem_value s (pool_semaphore_at pool) = of_nat (length fs) \<and> length fs < 2 ^ 32 \<and>
    max_count s (pool_semaphore_at pool) = capacity (pool_of s pool) \<and> pool_fits (pool_of s pool)"

lemma sem_ok_cong:
  assumes "ker s' = (ker s)\<lparr>mem := m\<rparr>" and "hdr s' = hdr s"
  shows "sem_ok sem s' = sem_ok sem s"
  using assms by (simp add: sem_ok_def osIsResourceValid_def)

lemma pool_upd_sel [simp]:
  "pool_of (pool_upd pool f s) = (pool_of s)(pool := f (pool_of s pool))" "ker (pool_upd pool f s) = ker s"
  "hdr (pool_upd pool f s) = hdr s" "locks (pool_upd pool f s) = locks s"
  "max_count (pool_upd pool f s) = max_count s" "queue_of (pool_upd pool f s) = queue_of s"
  "msg_priority (pool_upd pool f s) = msg_priority s" "bytes (pool_upd pool f s) = bytes s"
  "kernel_set (pool_upd pool f s) = kernel_set s" "resources (pool_upd pool f s) = resources s"
  by (simp_all add: pool_upd_def)

lemma set_masked_pool: "pool_upd pool f (set_masked p L s) = set_masked p L (pool_upd pool f s)"
  by (simp add: pool_upd_def set_masked_upd)

lemma push_block_masked: "push_block pool b (set_masked p L s) = set_masked p L (push_block pool b s)"
  by (simp add: push_block_def Let_def set_masked_upd set_masked_pool)

lemma push_block_sel [simp]:
  "ker (push_block pool b s) = (ker s)\<lparr>mem := (mem (ker s))(b := free_list (pool_of s pool))\<rparr>"
  "pool_of (push_block pool b s) = (pool_of s)(pool := (pool_of s pool)\<lparr>free_list := b\<rparr>)"
  "hdr (push_block pool b s) = hdr s" "locks (push_block pool b s) = locks s"
  "max_count (push_block pool b s) = max_count s" "queue_of (push_block pool b s) = queue_of s"
  "msg_priority (push_block pool b s) = msg_priority s" "bytes (push_block pool b s) = bytes s"
  "kernel_set (push_block pool b s) = kernel_set s" "resources (push_block pool b s) = resources s"
  by (simp_all add: push_block_def Let_def)

lemma pool_blocks_free_list [simp]: "pool_blocks (p\<lparr>free_list := b\<rparr>) = pool_blocks p"
  by (simp add: pool_blocks_def)

lemma unat_less32: "unat x < 2 ^ 32" for x :: word32
  by (rule order.strict_trans2 [OF unsigned_less]) simp

lemma unat_of_nat32: "n < 2 ^ 32 \<Longrightarrow> unat (of_nat n :: word32) = n"
  by (simp add: unat_of_nat)

lemma pool_fits_free_list [simp]: "pool_fits (p\<lparr>free_list := b\<rparr>) = pool_fits p"
  by (simp add: pool_fits_def)

lemma block_unat:
  assumes "pool_fits p" and "i \<le> unat (capacity p)"
  shows "unat (pool_data p + of_nat i * block_size p) = unat (pool_data p) + i * unat (block_size p)"
proof -
  have le: "i * unat (block_size p) \<le> unat (block_size p) * unat (capacity p)"
    using assms(2) by (simp add: mult.commute)
  have i: "i < 2 ^ 32" using assms(2) unat_less32 [of "capacity p"] by linarith
  have lt: "unat (pool_data p) + i * unat (block_size p) < 2 ^ 32"
    using assms(1) le unfolding pool_fits_def by linarith
  then have "unat (of_nat i * block_size p) = i * unat (block_size p)"
    by (simp only: unat_word_ariths unat_of_nat32 [OF i]) simp
  then show ?thesis using lt by (simp only: unat_word_ariths) simp
qed

lemma block_in_range:
  assumes f: "pool_fits p" and b: "b \<in> pool_blocks p"
  shows "pool_data p \<le> b" "b \<le> pool_end p"
proof -
  obtain i where i: "i < unat (capacity p)" "b = pool_data p + of_nat i * block_size p"
    using b by (auto simp: pool_blocks_def)
  have u: "unat b = unat (pool_data p) + i * unat (block_size p)"
    unfolding i(2) by (rule block_unat [OF f]) (use i(1) in simp)
  have "unat (pool_end p) = unat (pool_data p) + unat (capacity p) * unat (block_size p)"
    using block_unat [OF f order_refl] by (simp add: mult.commute)
  moreover have "i * unat (block_size p) \<le> unat (capacity p) * unat (block_size p)" using i(1) by simp
  ultimately show "pool_data p \<le> b" "b \<le> pool_end p" using u by (simp_all only: word_le_nat_alt)
qed

lemma card_pool_blocks: "card (pool_blocks p) \<le> unat (capacity p)"
  unfolding pool_blocks_def by (rule order.trans [OF card_image_le]) simp_all

lemma pool_invD:
  assumes "pool_inv pool fs s"
  shows "sem_ok (pool_semaphore_at pool) s" "osIsResourceValid pool RTOS_MEMORY_POOL_MARKER s = osOK"
    "spin_free (locks s (ObjectLock pool))" "free_chain (mem (ker s)) (free_list (pool_of s pool)) fs"
    "distinct fs" "set fs \<subseteq> pool_blocks (pool_of s pool)" "0 \<notin> pool_blocks (pool_of s pool)"
    "sem_value_at (pool_semaphore_at pool) \<notin> pool_blocks (pool_of s pool)"
    "sem_value s (pool_semaphore_at pool) = of_nat (length fs)" "length fs < 2 ^ 32"
    "max_count s (pool_semaphore_at pool) = capacity (pool_of s pool)" "ipsr (ker s) = 0"
    "length fs \<le> unat (capacity (pool_of s pool))" "pool_fits (pool_of s pool)"
proof -
  show s: "sem_ok (pool_semaphore_at pool) s" using assms by (simp add: pool_inv_def)
  then show "ipsr (ker s) = 0" by (simp add: sem_ok_def)
  have "card (set fs) \<le> card (pool_blocks (pool_of s pool))"
    by (rule card_mono) (use assms in \<open>simp_all add: pool_inv_def pool_blocks_def\<close>)
  then show "length fs \<le> unat (capacity (pool_of s pool))"
    using assms card_pool_blocks [of "pool_of s pool"] distinct_card [of fs] by (simp add: pool_inv_def)
qed (use assms in \<open>simp_all add: pool_inv_def\<close>)

text \<open>The state after a successful allocation.\<close>

definition pool_taken :: "addr \<Rightarrow> addr \<Rightarrow> rtos \<Rightarrow> rtos" where
  "pool_taken pool b s = cycle_lock (ObjectLock pool) (pool_upd pool (\<lambda>p. p\<lparr>free_list := mem_word s b\<rparr>)
     (mem_upd (sem_value_at (pool_semaphore_at pool)) (sem_value s (pool_semaphore_at pool) - 1) s))"

lemma osMemoryPoolAlloc_head:
  assumes s: "sem_ok (pool_semaphore_at pool) s" "sem_value s (pool_semaphore_at pool) \<noteq> 0"
    and v: "osIsResourceValid pool RTOS_MEMORY_POOL_MARKER s = osOK" "spin_free (locks s (ObjectLock pool))"
    and b: "free_list (pool_of s pool) = b" "b \<noteq> sem_value_at (pool_semaphore_at pool)"
  shows "osMemoryPoolAlloc P (id # envs) pool timeout s = Some (b, pool_taken pool b s)"
proof -
  define s1 where "s1 = mem_upd (sem_value_at (pool_semaphore_at pool)) (sem_value s (pool_semaphore_at pool) - 1) s"
  have acq: "osSemaphoreAcquire P (id # envs) (pool_semaphore_at pool) timeout s = Some (osOK, s1)"
    unfolding s1_def by (rule osSemaphoreAcquire_token [OF s])
  have "locked_section (ObjectLock pool) (\<lambda>s. let block = free_list (pool_of s pool)
      in Some (block, pool_upd pool (\<lambda>p. p\<lparr>free_list := mem_word s block\<rparr>) s)) s1 =
    Some (b, cycle_lock (ObjectLock pool) (pool_upd pool (\<lambda>p. p\<lparr>free_list := mem_word s1 b\<rparr>) s1))"
    by (rule locked_section_free) (use v(2) b(1) in \<open>simp_all add: s1_def set_masked_pool Let_def\<close>)
  moreover have "ipsr (ker s) = 0" using s(1) by (simp add: sem_ok_def)
  moreover have "mem_word s1 b = mem_word s b" using b(2) by (simp add: s1_def)
  ultimately show ?thesis using acq v(1) by (simp add: osMemoryPoolAlloc_def pool_taken_def s1_def)
qed

lemma osMemoryPoolAlloc_some:
  assumes i: "pool_inv pool (b # fs) s"
  shows "osMemoryPoolAlloc P (id # envs) pool timeout s = Some (b, pool_taken pool b s)"
    and "pool_inv pool fs (pool_taken pool b s)"
proof -
  note d = pool_invD [OF i]
  have nz: "sem_value s (pool_semaphore_at pool) \<noteq> 0"
    unfolding d(9) using unat_of_nat32 [OF d(10)] by (metis length_Cons nat.distinct(1) unsigned_0)
  have "free_list (pool_of s pool) = b" "b \<noteq> sem_value_at (pool_semaphore_at pool)" using d(4,6,8) by auto
  then show "osMemoryPoolAlloc P (id # envs) pool timeout s = Some (b, pool_taken pool b s)"
    by (rule osMemoryPoolAlloc_head [OF d(1) nz d(2,3)])
  have "sem_value s (pool_semaphore_at pool) - 1 = of_nat (length fs)" unfolding d(9) by simp
  moreover have "sem_ok (pool_semaphore_at pool) (pool_taken pool b s)"
    using d(1) by (subst sem_ok_cong [where s = s]) (simp_all add: pool_taken_def)
  moreover have "sem_value_at (pool_semaphore_at pool) \<notin> set fs" using d(6,8) by auto
  ultimately show "pool_inv pool fs (pool_taken pool b s)"
    using d unfolding pool_inv_def by (auto simp: pool_taken_def osIsResourceValid_def)
qed

lemma osMemoryPoolAlloc_none:
  assumes i: "pool_inv pool [] s"
  shows "osMemoryPoolAlloc P envs pool 0 s = Some (0, s)"
  using osSemaphoreAcquire_empty [OF pool_invD(1) [OF i], of P envs] pool_invD(2,9,12) [OF i]
  by (simp add: osMemoryPoolAlloc_def)

text \<open>What a wake up keeps of the scheduler for the other objects.\<close>

definition futexes_kept :: "sys \<Rightarrow> sys \<Rightarrow> bool" where
  "futexes_kept k k' \<longleftrightarrow> kinv k' \<and> ipsr k' = ipsr k \<and> futex_of k' = futex_of k"

text \<open>
  Freeing a block in the range of the pool. Apart from the pool and its lock only the scheduler
  changes, where a thread that waits for a block may become ready.
\<close>

lemma osMemoryPoolFree_push:
  assumes i: "pool_inv pool fs s" and r: "pool_data (pool_of s pool) \<le> b" "b \<le> pool_end (pool_of s pool)"
    and b: "b \<noteq> sem_value_at (pool_semaphore_at pool)" and lt: "length fs < unat (capacity (pool_of s pool))"
  shows "\<exists>k. osMemoryPoolFree P id pool b s =
      Some (osOK, (cycle_lock (ObjectLock pool) (push_block pool b s))\<lparr>ker := k\<rparr>) \<and>
    mem k = (mem (ker s))(b := free_list (pool_of s pool), sem_value_at (pool_semaphore_at pool) := of_nat (Suc (length fs))) \<and>
    futexes_kept (ker s) k \<and> sem_ok (pool_semaphore_at pool) ((cycle_lock (ObjectLock pool) (push_block pool b s))\<lparr>ker := k\<rparr>)"
proof -
  note d = pool_invD [OF i]
  let ?sem = "pool_semaphore_at pool"
  define s1 where "s1 = cycle_lock (ObjectLock pool) (push_block pool b s)"
  have sec: "locked_section (ObjectLock pool) (\<lambda>s. Some ((), push_block pool b s)) s = Some ((), s1)"
    unfolding s1_def by (rule locked_section_free) (use d(3) in \<open>simp_all add: push_block_masked\<close>)
  have ok1: "sem_ok ?sem s1" using d(1) by (subst sem_ok_cong [where s = s]) (simp_all add: s1_def)
  have v1: "sem_value s1 ?sem = of_nat (length fs)" using d(9) b by (auto simp: s1_def)
  have "unat (of_nat (length fs) :: word32) = length fs" using d(10) by (simp add: unat_of_nat)
  then have lt1: "sem_value s1 ?sem < max_count s1 ?sem"
    unfolding v1 word_less_nat_alt using lt d(11) by (simp add: s1_def)
  obtain s2 where s2: "osSemaphoreRelease P id ?sem s1 = Some (osOK, s2)" "released ?sem s1 s2" "sem_ok ?sem s2"
    using osSemaphoreRelease_ok [OF ok1 lt1, of P] by auto
  then obtain k where k: "s2 = s1\<lparr>ker := k\<rparr>" "mem k = (mem (ker s1))(sem_value_at ?sem := of_nat (length fs) + 1)"
    "futexes_kept (ker s) k"
    using v1 by (auto simp: released_def plain_woken_def futexes_kept_def s1_def)
  have "osMemoryPoolFree P id pool b s = Some (osOK, s1\<lparr>ker := k\<rparr>)"
    using sec s2(1) d(2,12) r k(1) by (auto simp: osMemoryPoolFree_def not_less [symmetric])
  then show ?thesis using s2(3) k unfolding s1_def by (intro exI [of _ k]) (simp add: add.commute)
qed

lemma osMemoryPoolFree_ok:
  assumes i: "pool_inv pool fs s" and b: "b \<in> pool_blocks (pool_of s pool)" "b \<notin> set fs"
  shows "\<exists>k. osMemoryPoolFree P id pool b s =
      Some (osOK, (cycle_lock (ObjectLock pool) (push_block pool b s))\<lparr>ker := k\<rparr>) \<and>
    mem k = (mem (ker s))(b := free_list (pool_of s pool), sem_value_at (pool_semaphore_at pool) := of_nat (Suc (length fs))) \<and>
    futexes_kept (ker s) k \<and> pool_inv pool (b # fs) ((cycle_lock (ObjectLock pool) (push_block pool b s))\<lparr>ker := k\<rparr>)"
proof -
  note d = pool_invD [OF i]
  let ?sem = "pool_semaphore_at pool"
  have "card (insert b (set fs)) \<le> card (pool_blocks (pool_of s pool))"
    by (rule card_mono) (use b d(6) in \<open>simp_all add: pool_blocks_def\<close>)
  then have lt: "length fs < unat (capacity (pool_of s pool))"
    using card_pool_blocks [of "pool_of s pool"] distinct_card [OF d(5)] b(2) by simp
  have ne: "b \<noteq> sem_value_at ?sem" "b \<noteq> 0" "sem_value_at ?sem \<notin> set fs" using b(1) d(6,7,8) by auto
  let ?s = "cycle_lock (ObjectLock pool) (push_block pool b s)"
  obtain k where k: "osMemoryPoolFree P id pool b s = Some (osOK, ?s\<lparr>ker := k\<rparr>)"
    "mem k = (mem (ker s))(b := free_list (pool_of s pool), sem_value_at ?sem := of_nat (Suc (length fs)))"
    "sem_ok ?sem (?s\<lparr>ker := k\<rparr>)" "futexes_kept (ker s) k"
    using osMemoryPoolFree_push [OF i block_in_range [OF d(14) b(1)] ne(1) lt, of P] by blast
  have "free_chain (mem k) b (b # fs)" using d(4) b(2) ne by (simp add: k(2))
  moreover have "Suc (length fs) < 2 ^ 32" using lt unat_less32 [of "capacity (pool_of s pool)"] by linarith
  ultimately have "pool_inv pool (b # fs) (?s\<lparr>ker := k\<rparr>)"
    unfolding pool_inv_def using k(2,3) d b by (auto simp: osIsResourceValid_def)
  with k(1,2,4) show ?thesis by blast
qed

text \<open>The invariant depends on the scheduler only through the futex and the words of the pool.\<close>

lemma pool_inv_local:
  assumes i: "pool_inv pool fs s" and k: "kinv (ker s')" "ipsr (ker s') = 0"
      "futex_of (ker s') (futex_at (pool_semaphore_at pool)) = futex_of (ker s) (futex_at (pool_semaphore_at pool))"
    and m: "\<And>a. a \<in> pool_blocks (pool_of s pool) \<or> a = sem_value_at (pool_semaphore_at pool) \<Longrightarrow> mem_word s' a = mem_word s a"
    and e: "hdr s' pool = hdr s pool" "hdr s' (pool_semaphore_at pool) = hdr s (pool_semaphore_at pool)"
      "pool_of s' pool = pool_of s pool" "max_count s' (pool_semaphore_at pool) = max_count s (pool_semaphore_at pool)"
      "spin_free (locks s' (ObjectLock pool))"
  shows "pool_inv pool fs s'"
proof -
  note d = pool_invD [OF i]
  have "free_chain (mem (ker s')) p xs = free_chain (mem (ker s)) p xs" if "set xs \<subseteq> pool_blocks (pool_of s pool)" for p xs
    using that by (induction xs arbitrary: p) (auto simp: m)
  moreover have "sem_ok (pool_semaphore_at pool) s'"
    using d(1) k by (simp add: sem_ok_def osIsResourceValid_def e futex_plain_def)
  ultimately show ?thesis
    using d e m [of "sem_value_at (pool_semaphore_at pool)"] by (simp add: pool_inv_def osIsResourceValid_def)
qed

lemma pool_inv_frame:
  assumes "pool_inv pool fs s" and "futexes_kept (ker s) (ker s')"
    and "\<And>a. a \<in> pool_blocks (pool_of s pool) \<or> a = sem_value_at (pool_semaphore_at pool) \<Longrightarrow> mem_word s' a = mem_word s a"
    and "hdr s' = hdr s" "pool_of s' pool = pool_of s pool" "max_count s' = max_count s" "spin_free (locks s' (ObjectLock pool))"
  shows "pool_inv pool fs s'"
  by (rule pool_inv_local [OF assms(1)]) (use assms pool_invD(12) [OF assms(1)] in \<open>simp_all add: futexes_kept_def\<close>)

section \<open>A new pool\<close>

lemma link_blocks_chain:
  assumes "free_chain (mem (ker s)) (free_list (pool_of s pool)) fs"
    and "bs = map (\<lambda>i. pool_data (pool_of s pool) + i * block_size (pool_of s pool)) is"
    and "distinct (rev bs @ fs)" and "0 \<notin> set bs"
  shows "\<exists>m h. link_blocks pool is s = pool_upd pool (\<lambda>p. p\<lparr>free_list := h\<rparr>) (s\<lparr>ker := (ker s)\<lparr>mem := m\<rparr>\<rparr>) \<and>
    free_chain m h (rev bs @ fs) \<and> (\<forall>a. a \<notin> set bs \<longrightarrow> m a = mem_word s a)"
  using assms
proof (induction "is" arbitrary: s fs bs)
  case Nil
  have "link_blocks pool [] s = pool_upd pool (\<lambda>p. p\<lparr>free_list := free_list (pool_of s pool)\<rparr>) (s\<lparr>ker := (ker s)\<lparr>mem := mem (ker s)\<rparr>\<rparr>)"
    by (simp add: pool_upd_def)
  with Nil show ?case by (intro exI [of _ "mem (ker s)"] exI [of _ "free_list (pool_of s pool)"]) simp
next
  case (Cons i "is")
  let ?b = "pool_data (pool_of s pool) + i * block_size (pool_of s pool)"
  let ?s = "push_block pool ?b s"
  obtain cs where cs: "bs = ?b # cs" "cs = map (\<lambda>i. pool_data (pool_of ?s pool) + i * block_size (pool_of ?s pool)) is"
    using Cons.prems(2) by simp
  have "free_chain (mem (ker ?s)) (free_list (pool_of ?s pool)) (?b # fs)"
    using Cons.prems(1,3,4) cs(1) by simp
  from Cons.IH [OF this cs(2)] Cons.prems(3,4) cs(1) obtain m h where
    mh: "link_blocks pool is ?s = pool_upd pool (\<lambda>p. p\<lparr>free_list := h\<rparr>) (?s\<lparr>ker := (ker ?s)\<lparr>mem := m\<rparr>\<rparr>)"
    "free_chain m h (rev cs @ ?b # fs)" "\<forall>a. a \<notin> set cs \<longrightarrow> m a = mem_word ?s a" by auto
  have "pool_upd pool (\<lambda>p. p\<lparr>free_list := h\<rparr>) (?s\<lparr>ker := (ker ?s)\<lparr>mem := m\<rparr>\<rparr>) =
      pool_upd pool (\<lambda>p. p\<lparr>free_list := h\<rparr>) (s\<lparr>ker := (ker s)\<lparr>mem := m\<rparr>\<rparr>)"
    by (simp add: push_block_def pool_upd_def mem_upd_def)
  with mh cs(1) show ?case by (intro exI [of _ m] exI [of _ h]) auto
qed

lemma offset_not_0:
  fixes p :: word32
  assumes "unat p + n < 2 ^ 32" and "p \<noteq> 0" and "k \<le> n"
  shows "p + of_nat k \<noteq> 0"
proof -
  have "unat (of_nat k :: word32) = k" using assms by (simp add: unat_of_nat32)
  then have "unat (p + of_nat k) = unat p + k" using assms by (simp add: unat_word_ariths)
  moreover have "0 < unat p" using assms(2) by (simp add: unat_gt_0)
  ultimately show ?thesis by auto
qed

lemma offset_unat:
  fixes p :: word32
  assumes "unat p + n < 2 ^ 32" and "k \<le> n"
  shows "unat (p + of_nat k) = unat p + k"
proof -
  have "unat (of_nat k :: word32) = k" using assms by (simp add: unat_of_nat32)
  then show ?thesis using assms by (simp add: unat_word_ariths)
qed

lemma blocks_distinct:
  assumes f: "pool_fits p" and b: "block_size p \<noteq> 0"
  shows "distinct (map (\<lambda>i. pool_data p + of_nat i * block_size p) [0..<unat (capacity p)])"
proof (subst distinct_map, intro conjI)
  show "inj_on (\<lambda>i. pool_data p + of_nat i * block_size p) (set [0..<unat (capacity p)])"
  proof (rule inj_onI)
    fix i j
    assume "i \<in> set [0..<unat (capacity p)]" "j \<in> set [0..<unat (capacity p)]"
      and e: "pool_data p + of_nat i * block_size p = pool_data p + of_nat j * block_size p"
    then have "i * unat (block_size p) = j * unat (block_size p)"
      using block_unat [OF f, of i] block_unat [OF f, of j] by auto
    then show "i = j" using b by (simp add: unat_eq_0)
  qed
qed simp

lemma blocks_apart:
  assumes f: "pool_fits p" and d: "unat a < unat (pool_data p) \<or>
      unat (pool_data p) + unat (block_size p) * unat (capacity p) \<le> unat a"
    and b: "block_size p \<noteq> 0"
  shows "a \<notin> pool_blocks p"
proof
  assume "a \<in> pool_blocks p"
  then obtain i where i: "i < unat (capacity p)" "a = pool_data p + of_nat i * block_size p"
    by (auto simp: pool_blocks_def)
  have u: "unat a = unat (pool_data p) + i * unat (block_size p)"
    unfolding i(2) by (rule block_unat [OF f]) (use i(1) in simp)
  have "i * unat (block_size p) < unat (capacity p) * unat (block_size p)"
    using i(1) b by (simp add: unat_gt_0)
  then show False using d u by (simp add: mult.commute)
qed

lemma hdr_upd_locks [simp]: "locks (hdr_upd a f s) = locks s"
  by (simp add: hdr_upd_def)

lemma osMemoryPoolNew_static:
  assumes k: "kinv (ker s)" and i: "ipsr (ker s) = 0" and ks: "kernel_set s"
    and l: "spin_free (locks s (ResourceLock osResourceSemaphore))" "spin_free (locks s (ResourceLock osResourceMemoryPool))"
    and b: "bsize = (bsize + 3) AND NOT 3" "bsize \<noteq> 0"
    and a: "a_cb_mem attr = pool" "SIZEOF_MEMORY_POOL \<le> a_cb_size attr" "a_mem attr = start" "bsize * count \<le> a_size attr"
    and p: "pool \<noteq> 0" "unat pool + 152 < 2 ^ 32"
    and m: "start \<noteq> 0" "unat start + unat bsize * unat count < 2 ^ 32"
    and d: "unat pool + 152 \<le> unat start \<or> unat start + unat bsize * unat count \<le> unat pool"
    and q: "queues (ker s) (Waiters (futex_at (pool_semaphore_at pool))) = []"
  shows "\<exists>s'. osMemoryPoolNew P count bsize (Some attr) s = Some (pool, s') \<and>
    pool_inv pool (rev (map (\<lambda>i. start + of_nat i * bsize) [0..<unat count])) s' \<and>
    pool_data (pool_of s' pool) = start \<and> block_size (pool_of s' pool) = bsize \<and> capacity (pool_of s' pool) = count \<and>
    kernel_set s' \<and> queues (ker s') = queues (ker s) \<and> queue_of s' = queue_of s \<and>
    (\<forall>l. spin_free (locks s l) \<longrightarrow> spin_free (locks s' l)) \<and>
    (\<forall>a. a \<noteq> pool \<and> a \<noteq> pool_semaphore_at pool \<longrightarrow> hdr s' a = hdr s a)"
proof -
  let ?sem = "pool_semaphore_at pool"
  let ?attr = "no_attr\<lparr>a_name := a_name attr, a_cb_mem := ?sem, a_cb_size := SIZEOF_SEMAPHORE\<rparr>"
  have nz: "pool + 52 \<noteq> 0" "92 + pool \<noteq> 0" "128 + pool \<noteq> 0" "pool + 144 \<noteq> 0"
    using offset_not_0 [OF p(2,1), of 52] offset_not_0 [OF p(2,1), of 92] offset_not_0 [OF p(2,1), of 128]
      offset_not_0 [OF p(2,1), of 144] by (simp_all add: add.commute)
  define s1 where "s1 = (pool_upd pool (\<lambda>p. p\<lparr>block_size := bsize, capacity := count\<rparr>)
    (hdr_upd pool (\<lambda>h. h\<lparr>marker := RTOS_MEMORY_POOL_MARKER, obj_name := name_of attr\<rparr>)
      (pool_upd pool (\<lambda>p. p\<lparr>pool_data := start\<rparr>) s)))\<lparr>locks := (locks s)(ObjectLock pool := 0)\<rparr>"
  have s1: "ker s1 = ker s" "kernel_set s1" "locks s1 = (locks s)(ObjectLock pool := 0)"
    "pool_of s1 pool = (pool_of s pool)\<lparr>block_size := bsize, capacity := count, pool_data := start\<rparr>"
    "marker (hdr s1 pool) = RTOS_MEMORY_POOL_MARKER"
    using ks by (simp_all add: s1_def hdr_upd_def)
  obtain k2 where sem: "osSemaphoreNew P count count (Some ?attr) s1 = Some (?sem, (sem_created ?attr ?sem count s1)\<lparr>ker := k2\<rparr>)"
    "sem_ok ?sem ((sem_created ?attr ?sem count s1)\<lparr>ker := k2\<rparr>)" "mem k2 = (mem (ker s))(124 + pool := count)" "queues k2 = queues (ker s)"
    using osSemaphoreNew_static [of s1 ?attr ?sem P count count] k i s1 l q nz
    by (auto simp: no_attr_def)
  define s3 where "s3 = pool_upd pool (\<lambda>p. p\<lparr>free_list := 0\<rparr>) ((sem_created ?attr ?sem count s1)\<lparr>ker := k2\<rparr>)"
  have s3: "pool_of s3 pool = (pool_of s pool)\<lparr>block_size := bsize, capacity := count, pool_data := start, free_list := 0\<rparr>"
    "ker s3 = k2" "kernel_set s3" "ipsr k2 = 0" "hdr s3 = (hdr s1)(?sem := init_header RTOS_SEMAPHORE_MARKER ?attr ?sem (hdr s1 ?sem))"
    "locks s3 = (locks s1)(ResourceLock osResourceSemaphore := spin_cycle (locks s1 (ResourceLock osResourceSemaphore)))"
    "max_count s3 ?sem = count"
    using s1 sem(2) by (simp_all add: s3_def sem_created_def sem_ok_def cycle_lock_def)
  have fits: "pool_fits (pool_of s3 pool)" using m(2) by (simp add: pool_fits_def s3(1))
  let ?bs = "map (\<lambda>i. start + of_nat i * bsize) [0..<unat count]"
  have bl: "distinct ?bs" "0 \<notin> set ?bs" "124 + pool \<notin> set ?bs" "set ?bs = pool_blocks (pool_of s3 pool)"
  proof -
    show set: "set ?bs = pool_blocks (pool_of s3 pool)" by (auto simp: pool_blocks_def s3(1))
    show "distinct ?bs" using blocks_distinct [OF fits] b(2) by (simp add: s3(1))
    have "unat (124 + pool) = unat pool + 124" using offset_unat [OF p(2), of 124] by (simp add: add.commute)
    then have "124 + pool \<notin> pool_blocks (pool_of s3 pool)"
      using blocks_apart [OF fits, of "124 + pool"] b(2) d by (auto simp: s3(1))
    then show "124 + pool \<notin> set ?bs" by (simp only: set not_False_eq_True)
    have "0 \<notin> pool_blocks (pool_of s3 pool)"
      using blocks_apart [OF fits, of 0] b(2) m(1) by (auto simp: s3(1) unat_gt_0)
    then show "0 \<notin> set ?bs" by (simp only: set not_False_eq_True)
  qed
  obtain mm h where lk: "link_blocks pool (map of_nat [0..<unat count]) s3 =
      pool_upd pool (\<lambda>p. p\<lparr>free_list := h\<rparr>) (s3\<lparr>ker := (ker s3)\<lparr>mem := mm\<rparr>\<rparr>)"
    "free_chain mm h (rev ?bs)" "\<forall>a. a \<notin> set ?bs \<longrightarrow> mm a = mem_word s3 a"
    using link_blocks_chain [of s3 pool "[]" ?bs "map of_nat [0..<unat count]"] bl(1,2) by (auto simp: s3(1) comp_def)
  define s4 where "s4 = pool_upd pool (\<lambda>p. p\<lparr>free_list := h\<rparr>) (s3\<lparr>ker := (ker s3)\<lparr>mem := mm\<rparr>\<rparr>)"
  have add: "osKernelResourceAdd P osResourceMemoryPool (pool + 144) s4 = Some (osOK,
      cycle_lock (ResourceLock osResourceMemoryPool)
        (s4\<lparr>resources := (resources s4)(osResourceMemoryPool := resources s4 osResourceMemoryPool @ [pool + 144])\<rparr>))"
    by (rule osKernelResourceAdd_ok) (use s3 nz l in \<open>simp_all add: s4_def s1(3)\<close>)
  define s5 where "s5 = cycle_lock (ResourceLock osResourceMemoryPool)
    (s4\<lparr>resources := (resources s4)(osResourceMemoryPool := resources s4 osResourceMemoryPool @ [pool + 144])\<rparr>)"
  have s5: "ker s5 = k2\<lparr>mem := mm\<rparr>" "hdr s5 = hdr s3" "max_count s5 = max_count s3"
    "pool_of s5 pool = (pool_of s3 pool)\<lparr>free_list := h\<rparr>" "locks s5 (ObjectLock pool) = 0"
    "kernel_set s5" "queue_of s5 = queue_of s3" "spin_free (locks s5 l) = spin_free (locks s3 l)" for l
    using s3 s1(3) by (simp_all add: s5_def s4_def cycle_lock_def)
  have fr: "queues (ker s5) = queues (ker s)" "queue_of s5 = queue_of s"
    "spin_free (locks s l) \<longrightarrow> spin_free (locks s5 l)" "a \<noteq> pool \<and> a \<noteq> ?sem \<longrightarrow> hdr s5 a = hdr s a" for l a
    using sem(4) s3(6) s1(3) by (simp_all add: s5 s3(5) s1_def s3_def sem_created_def hdr_upd_def)
  have "osMemoryPoolNew P count bsize (Some attr) s = Some (pool, s5)"
    using i b a p(1) m(1) sem(1) lk(1) add nz
    by (simp add: osMemoryPoolNew_def Let_def s1_def [symmetric] s3_def [symmetric] s4_def [symmetric] s5_def [symmetric] not_less)
  moreover have "sem_ok ?sem s5"
    by (subst sem_ok_cong [where s = "(sem_created ?attr ?sem count s1)\<lparr>ker := k2\<rparr>"])
      (use sem(2) s5 s3(5) in \<open>simp_all add: sem_created_def\<close>)
  moreover have "unat count < 4294967296" using unat_less32 [of count] by simp
  moreover have "mm (124 + pool) = count" using lk(3) bl(3) sem(3) s3(2) by auto
  moreover have "marker (hdr s5 pool) = RTOS_MEMORY_POOL_MARKER" using s1(5) s5(2) s3(5) by simp
  ultimately show ?thesis
    using bl lk(2) p(1) s3(1,7) fits s5 fr by (intro exI [of _ s5]) (auto simp: pool_inv_def osIsResourceValid_def)
qed

section \<open>The pool as a set of blocks\<close>

datatype pool_op = Alloc | Free nat

text \<open>
  A sequence of calls by clients that hold the blocks \<open>held\<close>: \<open>Alloc\<close> asks for one without
  waiting, \<open>Free n\<close> gives the n-th of them back.
\<close>

fun pool_run :: "('s \<Rightarrow> (addr \<times> 's) option) \<Rightarrow> (addr \<Rightarrow> 's \<Rightarrow> (word32 \<times> 's) option) \<Rightarrow> pool_op list \<Rightarrow>
    addr list \<times> 's \<Rightarrow> (addr list \<times> 's) option" where
  "pool_run alloc free [] (held, s) = Some (held, s)"
| "pool_run alloc free (Alloc # ops) (held, s) = do {
     (b, s) \<leftarrow> alloc s;
     pool_run alloc free ops (if b = 0 then held else b # held, s)
   }"
| "pool_run alloc free (Free n # ops) (held, s) =
    (if n < length held
     then do {
       (_, s) \<leftarrow> free (held ! n) s;
       pool_run alloc free ops (take n held @ drop (Suc n) held, s)
     }
     else pool_run alloc free ops (held, s))"

text \<open>
  What the message queue relies on. \<open>shape\<close> is what stays of a pool for its life: where its
  memory is, and how many blocks of which size it has.
\<close>

locale block_pool =
  fixes inv :: "addr list \<Rightarrow> 's \<Rightarrow> bool" and shape :: "'s \<Rightarrow> 'c" and blocks :: "'c \<Rightarrow> addr set"
    and alloc :: "'s \<Rightarrow> (addr \<times> 's) option" and free :: "addr \<Rightarrow> 's \<Rightarrow> (word32 \<times> 's) option"
  assumes alloc_some: "inv (b # fs) s \<Longrightarrow> \<exists>s'. alloc s = Some (b, s') \<and> inv fs s' \<and> shape s' = shape s"
    and alloc_none: "inv [] s \<Longrightarrow> alloc s = Some (0, s)"
    and free_ok: "inv fs s \<Longrightarrow> b \<in> blocks (shape s) \<Longrightarrow> b \<notin> set fs \<Longrightarrow>
      \<exists>s'. free b s = Some (osOK, s') \<and> inv (b # fs) s' \<and> shape s' = shape s"
    and inv_blocks: "inv fs s \<Longrightarrow> distinct fs \<and> set fs \<subseteq> blocks (shape s) \<and> 0 \<notin> blocks (shape s)"
begin

lemma run_alloc:
  assumes "inv fs s" and "distinct (held @ fs)" and "set held \<subseteq> blocks (shape s)"
  shows "\<exists>held' fs' s'. alloc s = Some (if fs = [] then 0 else hd fs, s') \<and>
    held' = (if fs = [] then held else hd fs # held) \<and> inv fs' s' \<and> shape s' = shape s \<and>
    distinct (held' @ fs') \<and> set (held' @ fs') = set (held @ fs) \<and> (fs \<noteq> [] \<longrightarrow> hd fs \<noteq> 0)"
proof (cases fs)
  case Nil
  then show ?thesis using alloc_none assms by (intro exI [of _ held] exI [of _ "[]"] exI [of _ s]) auto
next
  case (Cons b gs)
  from alloc_some [of b gs s] assms(1) Cons obtain s1 where
    s1: "alloc s = Some (b, s1)" "inv gs s1" "shape s1 = shape s" by auto
  have "b \<noteq> 0" using inv_blocks [OF assms(1)] Cons by auto
  with s1 assms Cons show ?thesis by (intro exI [of _ "b # held"] exI [of _ gs] exI [of _ s1]) auto
qed

lemma run_free:
  assumes "inv fs s" and "distinct (held @ fs)" and "set held \<subseteq> blocks (shape s)" and n: "n < length held"
  shows "\<exists>s'. free (held ! n) s = Some (osOK, s') \<and> inv (held ! n # fs) s' \<and> shape s' = shape s \<and>
    distinct ((take n held @ drop (Suc n) held) @ held ! n # fs) \<and>
    set ((take n held @ drop (Suc n) held) @ held ! n # fs) = set (held @ fs)"
proof -
  have "distinct ((take n held @ held ! n # drop (Suc n) held) @ fs)"
    "set (take n held @ held ! n # drop (Suc n) held) \<subseteq> blocks (shape s)"
    "set ((take n held @ held ! n # drop (Suc n) held) @ fs) = set (held @ fs)"
    using assms(2,3) id_take_nth_drop [OF n] by simp_all
  moreover from this have "held ! n \<in> blocks (shape s)" "held ! n \<notin> set fs" by auto
  ultimately show ?thesis using free_ok [OF assms(1), of "held ! n"] by auto
qed

lemma run_disjoint:
  assumes "inv fs s" and "distinct (held @ fs)" and "set held \<subseteq> blocks (shape s)"
  shows "\<exists>held' fs' s'. pool_run alloc free ops (held, s) = Some (held', s') \<and> inv fs' s' \<and>
    shape s' = shape s \<and> distinct (held' @ fs') \<and> set (held' @ fs') = set (held @ fs)"
  using assms
proof (induction ops arbitrary: held fs s)
  case Nil
  then show ?case by auto
next
  case (Cons op ops)
  have sub: "set (held @ fs) \<subseteq> blocks (shape s)" using Cons.prems inv_blocks by auto
  show ?case
  proof (cases op)
    case Alloc
    from run_alloc [OF Cons.prems] obtain held1 fs1 s1 where
      s1: "alloc s = Some (if fs = [] then 0 else hd fs, s1)" "held1 = (if fs = [] then held else hd fs # held)"
      "inv fs1 s1" "shape s1 = shape s" "distinct (held1 @ fs1)" "set (held1 @ fs1) = set (held @ fs)"
      "fs \<noteq> [] \<longrightarrow> hd fs \<noteq> 0" by blast
    moreover from this have "pool_run alloc free (Alloc # ops) (held, s) = pool_run alloc free ops (held1, s1)" by simp
    moreover have "set held1 \<subseteq> blocks (shape s1)" using s1(4,6) sub by auto
    ultimately show ?thesis using Cons.IH [OF s1(3,5)] Alloc by metis
  next
    case (Free n)
    show ?thesis
    proof (cases "n < length held")
      case True
      let ?h = "take n held @ drop (Suc n) held"
      from run_free [OF Cons.prems True] obtain s1 where
        s1: "free (held ! n) s = Some (osOK, s1)" "inv (held ! n # fs) s1" "shape s1 = shape s"
        "distinct (?h @ held ! n # fs)" "set (?h @ held ! n # fs) = set (held @ fs)" by blast
      moreover have "set ?h \<subseteq> blocks (shape s1)" using s1(3,5) sub by auto
      ultimately show ?thesis using Cons.IH [OF s1(2,4)] Free True by auto
    next
      case False
      then show ?thesis using Cons.IH [OF Cons.prems] Free by auto
    qed
  qed
qed

end

definition pool_shape :: "addr \<Rightarrow> rtos \<Rightarrow> rtos_memory_pool" where
  "pool_shape pool s = (pool_of s pool)\<lparr>free_list := 0\<rparr>"

interpretation mp: block_pool "pool_inv pool" "pool_shape pool" pool_blocks
  "osMemoryPoolAlloc P [id] pool 0" "\<lambda>b. osMemoryPoolFree P id pool b" for P and pool
proof
  show "\<exists>s'. osMemoryPoolAlloc P [id] pool 0 s = Some (b, s') \<and> pool_inv pool fs s' \<and> pool_shape pool s' = pool_shape pool s"
    if "pool_inv pool (b # fs) s" for b fs s
    using osMemoryPoolAlloc_some(1) [OF that, of P "[]" 0] osMemoryPoolAlloc_some(2) [OF that]
    by (simp add: pool_taken_def pool_shape_def)
  show "\<exists>s'. osMemoryPoolFree P id pool b s = Some (osOK, s') \<and> pool_inv pool (b # fs) s' \<and> pool_shape pool s' = pool_shape pool s"
    if "pool_inv pool fs s" "b \<in> pool_blocks (pool_shape pool s)" "b \<notin> set fs" for b fs s
    using osMemoryPoolFree_ok [OF that(1) _ that(3), of P] that(2) by (fastforce simp: pool_shape_def)
qed (auto simp: osMemoryPoolAlloc_none pool_shape_def dest: pool_invD(5,6,7))

section \<open>Properties\<close>

lemma blocks_spaced:
  assumes f: "pool_fits p" and ab: "a \<in> pool_blocks p" "b \<in> pool_blocks p" "a \<noteq> b"
  shows "unat a + unat (block_size p) \<le> unat b \<or> unat b + unat (block_size p) \<le> unat a"
proof -
  obtain i j where ij: "i < unat (capacity p)" "a = pool_data p + of_nat i * block_size p"
    "j < unat (capacity p)" "b = pool_data p + of_nat j * block_size p"
    using ab by (auto simp: pool_blocks_def)
  have u: "unat a = unat (pool_data p) + i * unat (block_size p)" "unat b = unat (pool_data p) + j * unat (block_size p)"
    using block_unat [OF f, of i] block_unat [OF f, of j] ij by simp_all
  have "i \<noteq> j" using ab(3) ij by auto
  then consider "Suc i \<le> j" | "Suc j \<le> i" by linarith
  then show ?thesis
  proof cases
    case 1
    from mult_le_mono1 [OF this, of "unat (block_size p)"] show ?thesis by (simp add: u)
  next
    case 2
    from mult_le_mono1 [OF this, of "unat (block_size p)"] show ?thesis by (simp add: u)
  qed
qed

text \<open>
  C11. A pool in memory of the application is created with all its blocks free, and then no block
  is ever handed out twice: after any sequence of allocations and releases of held blocks the
  held blocks are blocks of the pool that do not overlap, the pool reports exactly how many are
  held, and an allocation fails only when all are.
\<close>

theorem pool_never_shares:
  assumes k: "kinv (ker s)" and i: "ipsr (ker s) = 0" and ks: "kernel_set s"
    and l: "spin_free (locks s (ResourceLock osResourceSemaphore))" "spin_free (locks s (ResourceLock osResourceMemoryPool))"
    and b: "bsize = (bsize + 3) AND NOT 3" "bsize \<noteq> 0"
    and a: "a_cb_mem attr = pool" "SIZEOF_MEMORY_POOL \<le> a_cb_size attr" "a_mem attr = start" "bsize * count \<le> a_size attr"
    and p: "pool \<noteq> 0" "unat pool + 152 < 2 ^ 32"
    and m: "start \<noteq> 0" "unat start + unat bsize * unat count < 2 ^ 32"
    and d: "unat pool + 152 \<le> unat start \<or> unat start + unat bsize * unat count \<le> unat pool"
    and q: "queues (ker s) (Waiters (futex_at (pool_semaphore_at pool))) = []"
  shows "\<exists>s1 held s2. osMemoryPoolNew P count bsize (Some attr) s = Some (pool, s1) \<and>
    pool_run (osMemoryPoolAlloc P [id] pool 0) (osMemoryPoolFree P id pool) ops ([], s1) = Some (held, s2) \<and>
    distinct held \<and> set held \<subseteq> (\<lambda>i. start + of_nat i * bsize) ` {..<unat count} \<and>
    (\<forall>a\<in>set held. \<forall>b\<in>set held. a \<noteq> b \<longrightarrow> unat a + unat bsize \<le> unat b \<or> unat b + unat bsize \<le> unat a) \<and>
    unat (osMemoryPoolGetCount P pool s2) = length held \<and>
    (osMemoryPoolAlloc P [id] pool 0 s2 = Some (0, s2) \<longleftrightarrow> length held = unat count)"
proof -
  let ?bs = "map (\<lambda>i. start + of_nat i * bsize) [0..<unat count]"
  obtain s1 where s1: "osMemoryPoolNew P count bsize (Some attr) s = Some (pool, s1)" "pool_inv pool (rev ?bs) s1"
    "pool_data (pool_of s1 pool) = start" "block_size (pool_of s1 pool) = bsize" "capacity (pool_of s1 pool) = count"
    using osMemoryPoolNew_static [OF assms, of P] by blast
  have bl: "pool_blocks (pool_of s1 pool) = set ?bs" by (auto simp: pool_blocks_def s1)
  obtain held fs s2 where s2: "pool_run (osMemoryPoolAlloc P [id] pool 0) (osMemoryPoolFree P id pool) ops ([], s1) = Some (held, s2)"
    "pool_inv pool fs s2" "pool_shape pool s2 = pool_shape pool s1" "distinct (held @ fs)" "set (held @ fs) = set ?bs"
    using mp.run_disjoint [OF s1(2), of "[]" P ops] pool_invD(5) [OF s1(2)] by auto
  have cap: "capacity (pool_of s2 pool) = count"
    using arg_cong [OF s2(3), of capacity] by (simp add: pool_shape_def s1(5))
  have "length held + length fs = card (set ?bs)" using distinct_card [OF s2(4)] s2(5) by simp
  also have "\<dots> = unat count" using distinct_card [of ?bs] pool_invD(5) [OF s1(2)] by simp
  finally have len: "length held + length fs = unat count" .
  note e = pool_invD [OF s2(2)]
  have "unat (of_nat (length fs) :: word32) = length fs" by (rule unat_of_nat32 [OF e(10)])
  then have cnt: "unat (osMemoryPoolGetCount P pool s2) = length held"
    using e(1,2,9,12) cap len unat_sub [of "of_nat (length fs)" count]
    by (simp add: osMemoryPoolGetCount_def osSemaphoreGetCount_def sem_ok_def word_le_nat_alt)
  have full: "osMemoryPoolAlloc P [id] pool 0 s2 = Some (0, s2) \<longleftrightarrow> fs = []"
  proof (cases fs)
    case Nil
    then show ?thesis using mp.alloc_none s2(2) by simp
  next
    case (Cons c cs)
    then have "c \<noteq> 0" using e(6,7) by auto
    then show ?thesis using Cons mp.alloc_some [of pool c cs s2 P] s2(2) by auto
  qed
  have sp: "unat a + unat bsize \<le> unat b \<or> unat b + unat bsize \<le> unat a" if "a \<in> set held" "b \<in> set held" "a \<noteq> b" for a b
    using blocks_spaced [OF pool_invD(14) [OF s1(2)], of a b] that s2(5) s1(4) bl by auto
  have "set held \<subseteq> (\<lambda>i. start + of_nat i * bsize) ` {..<unat count}" using s2(5) by (auto simp: atLeast0LessThan)
  then show ?thesis using s1(1) s2(1,4) sp cnt full len by (intro exI [of _ s1] exI [of _ held] exI [of _ s2]) auto
qed

definition sample_pool_attr :: os_attr where
  "sample_pool_attr = no_attr\<lparr>a_cb_mem := 0x4000, a_cb_size := 152, a_mem := 0x5000, a_size := 48\<rparr>"

lemma sample_pool_args:
  "kinv (ker sample_rtos)" "ipsr (ker sample_rtos) = 0" "kernel_set sample_rtos" "spin_free (locks sample_rtos l)"
  "(16 :: word32) = (16 + 3) AND NOT 3" "a_cb_mem sample_pool_attr = 0x4000" "SIZEOF_MEMORY_POOL \<le> a_cb_size sample_pool_attr"
  "a_mem sample_pool_attr = 0x5000" "16 * 3 \<le> a_size sample_pool_attr"
  "queues (ker sample_rtos) (Waiters (futex_at (pool_semaphore_at 0x4000))) = []"
  using sample_ker_kinv by (simp_all add: sample_pool_attr_def no_attr_def sample_rtos_def sample_ker_def sample_sys_def)

theorem pool_never_shares_witness:
  "\<exists>s1 held s2. osMemoryPoolNew sample_port 3 16 (Some sample_pool_attr) sample_rtos = Some (0x4000, s1) \<and>
    pool_run (osMemoryPoolAlloc sample_port [id] 0x4000 0) (osMemoryPoolFree sample_port id 0x4000)
      [Alloc, Alloc, Free 1, Alloc] ([], s1) = Some (held, s2) \<and> distinct held"
  using pool_never_shares [OF sample_pool_args(1-3) sample_pool_args(4) sample_pool_args(4) sample_pool_args(5) _
      sample_pool_args(6-9) _ _ _ _ _ sample_pool_args(10), of sample_port "[Alloc, Alloc, Free 1, Alloc]"]
  by fastforce

text \<open>
  The address right after the last block passes the range check of a release. When some block
  is held, the pool takes it, and the next allocation hands out memory that is not part of the
  pool.
\<close>

theorem pool_hands_out_end:
  assumes i: "pool_inv pool fs s" and h: "length fs < unat (capacity (pool_of s pool))" and b: "block_size (pool_of s pool) \<noteq> 0"
    and ne: "pool_end (pool_of s pool) \<noteq> sem_value_at (pool_semaphore_at pool)"
  shows "\<exists>s1 s2. osMemoryPoolFree P id pool (pool_end (pool_of s pool)) s = Some (osOK, s1) \<and>
    osMemoryPoolAlloc P [id] pool 0 s1 = Some (pool_end (pool_of s pool), s2) \<and>
    pool_end (pool_of s pool) \<notin> pool_blocks (pool_of s pool)"
proof -
  note d = pool_invD [OF i]
  let ?b = "pool_end (pool_of s pool)" and ?sem = "pool_semaphore_at pool"
  have u: "unat ?b = unat (pool_data (pool_of s pool)) + unat (block_size (pool_of s pool)) * unat (capacity (pool_of s pool))"
    using block_unat [OF d(14) order_refl] by (simp add: mult.commute)
  have r: "pool_data (pool_of s pool) \<le> ?b" by (simp only: word_le_nat_alt u)
  obtain k where k: "osMemoryPoolFree P id pool ?b s = Some (osOK, (cycle_lock (ObjectLock pool) (push_block pool ?b s))\<lparr>ker := k\<rparr>)"
    "mem k = (mem (ker s))(?b := free_list (pool_of s pool), sem_value_at ?sem := of_nat (Suc (length fs)))"
    "sem_ok ?sem ((cycle_lock (ObjectLock pool) (push_block pool ?b s))\<lparr>ker := k\<rparr>)"
    using osMemoryPoolFree_push [OF i r order_refl ne h, of P] by blast
  define s1 where "s1 = (cycle_lock (ObjectLock pool) (push_block pool ?b s))\<lparr>ker := k\<rparr>"
  have "Suc (length fs) < 2 ^ 32" using h unat_less32 [of "capacity (pool_of s pool)"] by linarith
  from unat_of_nat32 [OF this] have "of_nat (Suc (length fs)) \<noteq> (0 :: word32)" by (metis nat.distinct(1) unsigned_0)
  then have nz: "sem_value s1 ?sem \<noteq> 0" by (simp add: s1_def k(2) del: of_nat_Suc)
  have s1: "osIsResourceValid pool RTOS_MEMORY_POOL_MARKER s1 = osOK" "spin_free (locks s1 (ObjectLock pool))"
    "free_list (pool_of s1 pool) = ?b" "sem_ok ?sem s1"
    using d(2,3) k(3) by (simp_all add: s1_def osIsResourceValid_def)
  have "osMemoryPoolAlloc P [id] pool 0 s1 = Some (?b, pool_taken pool ?b s1)"
    by (rule osMemoryPoolAlloc_head [OF s1(4) nz s1(1-3) ne])
  moreover have "?b \<notin> pool_blocks (pool_of s pool)" by (rule blocks_apart [OF d(14) _ b]) (use u in simp)
  ultimately show ?thesis using k(1) s1_def by blast
qed

theorem pool_hands_out_end_witness:
  "\<exists>s s1 s2 s3. osMemoryPoolNew sample_port 3 16 (Some sample_pool_attr) sample_rtos = Some (0x4000, s) \<and>
    osMemoryPoolAlloc sample_port [id] 0x4000 0 s = Some (0x5020, s1) \<and>
    osMemoryPoolFree sample_port id 0x4000 0x5030 s1 = Some (osOK, s2) \<and>
    osMemoryPoolAlloc sample_port [id] 0x4000 0 s2 = Some (0x5030, s3)"
proof -
  obtain s where s: "osMemoryPoolNew sample_port 3 16 (Some sample_pool_attr) sample_rtos = Some (0x4000, s)"
    "pool_inv 0x4000 [0x5020, 0x5010, 0x5000] s" "pool_data (pool_of s 0x4000) = 0x5000"
    "block_size (pool_of s 0x4000) = 16" "capacity (pool_of s 0x4000) = 3"
    using osMemoryPoolNew_static [OF sample_pool_args(1-3) sample_pool_args(4) sample_pool_args(4) sample_pool_args(5) _
        sample_pool_args(6-9) _ _ _ _ _ sample_pool_args(10), of sample_port] by (auto simp: upt_rec)
  let ?s = "pool_taken 0x4000 0x5020 s"
  have p: "pool_of ?s 0x4000 = (pool_of s 0x4000)\<lparr>free_list := mem_word s 0x5020\<rparr>" by (simp add: pool_taken_def)
  have "\<exists>s1 s2. osMemoryPoolFree sample_port id 0x4000 0x5030 ?s = Some (osOK, s1) \<and>
      osMemoryPoolAlloc sample_port [id] 0x4000 0 s1 = Some (0x5030, s2)"
    using pool_hands_out_end [OF osMemoryPoolAlloc_some(2) [OF s(2)], of sample_port] by (auto simp: p s)
  then show ?thesis using s(1) osMemoryPoolAlloc_some(1) [OF s(2), of sample_port "[]" 0] by blast
qed

end
