(* ===== verification/Rtos_Bytes.thy ===== *)
theory Rtos_Bytes
  imports Rtos_Pool
begin

text \<open>
  The byte buffers the message queue and the deque copy with \<open>memcpy\<close>: reading a range, copying
  between ranges, and ranges that do not meet.
\<close>

definition memcpy :: "addr \<Rightarrow> addr \<Rightarrow> word32 \<Rightarrow> (addr \<Rightarrow> word8) \<Rightarrow> addr \<Rightarrow> word8" where
  "memcpy dst src n b = (\<lambda>a. if a - dst < n then b (src + (a - dst)) else b a)"

definition read_bytes :: "(addr \<Rightarrow> word8) \<Rightarrow> addr \<Rightarrow> word32 \<Rightarrow> word8 list" where
  "read_bytes b a n = map (\<lambda>i. b (a + of_nat i)) [0..<unat n]"

text \<open>What an application does before it sends: fill its buffer.\<close>

definition write_bytes :: "addr \<Rightarrow> word8 list \<Rightarrow> (addr \<Rightarrow> word8) \<Rightarrow> addr \<Rightarrow> word8" where
  "write_bytes dst xs b = (\<lambda>a. if unat (a - dst) < length xs then xs ! unat (a - dst) else b a)"

definition apart :: "addr \<Rightarrow> word32 \<Rightarrow> addr \<Rightarrow> word32 \<Rightarrow> bool" where
  "apart a n a' n' \<longleftrightarrow> (\<forall>i<unat n. \<forall>j<unat n'. a + of_nat i \<noteq> a' + of_nat j)"

lemma apart_sym: "apart a n a' n' \<Longrightarrow> apart a' n' a n"
  unfolding apart_def by metis

lemma offset_less: "i < unat n \<Longrightarrow> unat (of_nat i :: word32) = i" for n :: word32
  using unat_less32 [of n] by (intro unat_of_nat32) linarith

lemma length_read_bytes [simp]: "length (read_bytes b a n) = unat n"
  by (simp add: read_bytes_def)

lemma read_memcpy [simp]: "read_bytes (memcpy dst src n b) dst n = read_bytes b src n"
  by (simp add: read_bytes_def memcpy_def word_less_nat_alt offset_less)

lemma apart_outside:
  assumes "apart a n dst m" and "i < unat n"
  shows "\<not> a + of_nat i - dst < m"
proof
  assume l: "a + of_nat i - dst < m"
  let ?j = "unat (a + of_nat i - dst)"
  have "dst + of_nat ?j = a + of_nat i" by simp
  moreover have "?j < unat m" using l by (simp add: word_less_nat_alt)
  ultimately show False using assms unfolding apart_def by metis
qed

lemma read_memcpy_apart [simp]:
  "apart a n dst m \<Longrightarrow> read_bytes (memcpy dst src m b) a n = read_bytes b a n"
  using apart_outside by (simp add: read_bytes_def memcpy_def)

lemma read_write [simp]:
  "length xs = unat n \<Longrightarrow> read_bytes (write_bytes dst xs b) dst n = xs"
  by (rule nth_equalityI) (simp_all add: read_bytes_def write_bytes_def offset_less)

lemma read_write_apart [simp]:
  assumes "apart a n dst m" and "length xs = unat m"
  shows "read_bytes (write_bytes dst xs b) a n = read_bytes b a n"
  using apart_outside [OF assms(1)] by (simp add: read_bytes_def write_bytes_def assms(2) word_less_nat_alt [symmetric])

text \<open>Ranges in order do not meet.\<close>

lemma apartI:
  assumes "unat a + unat n \<le> unat a' \<or> unat a' + unat n' \<le> unat a"
    and "unat a + unat n < 2 ^ 32" and "unat a' + unat n' < 2 ^ 32"
  shows "apart a n a' n'"
  unfolding apart_def
proof (intro allI impI)
  fix i j
  assume ij: "i < unat n" "j < unat n'"
  have "unat (a + of_nat i) = unat a + i" "unat (a' + of_nat j) = unat a' + j"
    using ij assms(2,3) offset_unat [of a "unat n" i] offset_unat [of a' "unat n'" j] by simp_all
  moreover have "unat a + i \<noteq> unat a' + j" using ij assms(1) by auto
  ultimately show "a + of_nat i \<noteq> a' + of_nat j" by metis
qed

end
