(* ===== verification/Refinement.thy ===== *)
theory Refinement
  imports Prelude
begin

text \<open>
  Runs of a component against an abstract specification: a client's sequence of operations, the
  answers it gets, and the transfer of a single-step refinement to runs.
\<close>

fun run_ops :: "('o \<Rightarrow> 's \<Rightarrow> ('r \<times> 's) option) \<Rightarrow> 'o list \<Rightarrow> 's \<Rightarrow> ('r list \<times> 's) option" where
  "run_ops step [] s = Some ([], s)"
| "run_ops step (op # ops) s = do {
     (r, s) \<leftarrow> step op s;
     (rs, s) \<leftarrow> run_ops step ops s;
     Some (r # rs, s)
   }"

fun run_spec :: "('o \<Rightarrow> 'a \<Rightarrow> 'r \<times> 'a) \<Rightarrow> 'o list \<Rightarrow> 'a \<Rightarrow> 'r list \<times> 'a" where
  "run_spec astep [] a = ([], a)"
| "run_spec astep (op # ops) a =
    (let (r, a) = astep op a; (rs, a) = run_spec astep ops a in (r # rs, a))"

lemma run_spec_append:
  "run_spec astep (ops @ ops') a =
    (fst (run_spec astep ops a) @ fst (run_spec astep ops' (snd (run_spec astep ops a))),
     snd (run_spec astep ops' (snd (run_spec astep ops a))))"
  by (induction ops arbitrary: a) (auto simp: case_prod_beta Let_def)

locale refines =
  fixes step :: "'o \<Rightarrow> 's \<Rightarrow> ('r \<times> 's) option" and astep :: "'o \<Rightarrow> 'a \<Rightarrow> 'r \<times> 'a"
    and rep :: "'s \<Rightarrow> 'a \<Rightarrow> bool" and valid :: "'o \<Rightarrow> bool"
  assumes step_refines: "rep s a \<Longrightarrow> valid op \<Longrightarrow>
    \<exists>s'. step op s = Some (fst (astep op a), s') \<and> rep s' (snd (astep op a))"
begin

lemma run_refines:
  assumes "rep s a" and "\<forall>op\<in>set ops. valid op"
  shows "\<exists>s'. run_ops step ops s = Some (fst (run_spec astep ops a), s') \<and> rep s' (snd (run_spec astep ops a))"
  using assms
proof (induction ops arbitrary: s a)
  case (Cons op ops)
  from step_refines [OF Cons.prems(1), of op] Cons.prems(2) obtain s1 where
    s1: "step op s = Some (fst (astep op a), s1)" "rep s1 (snd (astep op a))" by auto
  from Cons.IH [OF s1(2)] Cons.prems(2) s1(1) show ?case by (auto simp: case_prod_beta Let_def)
qed simp

end

section \<open>Bounded queues in the order of priority\<close>

text \<open>Insertion behind all that are at least as important is the stable sort.\<close>

lemma insert_insort_key:
  fixes f :: "'a \<Rightarrow> 'k :: linorder"
  shows "insert_before_first (\<lambda>y. f x < f y) x (insort_key f a q) = insort_key f a (insert_before_first (\<lambda>y. f x < f y) x q)"
  by (induction q) auto

lemma insert_sort_key:
  fixes f :: "'a \<Rightarrow> 'k :: linorder"
  shows "insert_before_first (\<lambda>y. f x < f y) x (sort_key f xs) = sort_key f (xs @ [x])"
  by (induction xs) (simp_all add: insert_insort_key)

lemma insert_all_sort_key:
  fixes f :: "'a \<Rightarrow> 'k :: linorder"
  shows "foldl (\<lambda>q x. insert_before_first (\<lambda>y. f x < f y) x q) [] xs = sort_key f xs"
  by (induction xs rule: rev_induct) (simp_all add: insert_sort_key)

end
