(* ===== verification/Rtos_Message_Queue.thy ===== *)
theory Rtos_Message_Queue
  imports Rtos_Bytes Refinement
begin

text \<open>
  Message queues, \<open>cmsis-rtos2-message-queue.c\<close>: messages are blocks of a pool, linked in a list
  that is ordered by priority, and a semaphore counts them. \<open>envs\<close> is what happens while a call
  waits and between the accesses of a semaphore, as in the theories of semaphores and pools.
\<close>

section \<open>Operations\<close>

definition queue_upd :: "addr \<Rightarrow> (rtos_message_queue \<Rightarrow> rtos_message_queue) \<Rightarrow> rtos \<Rightarrow> rtos" where
  "queue_upd mq f s = s\<lparr>queue_of := (queue_of s)(mq := f (queue_of s mq))\<rparr>"

abbreviation message_data_at :: "addr \<Rightarrow> addr" where "message_data_at msg \<equiv> msg + SIZEOF_MESSAGE"

text \<open>The labels at the end of \<open>osMessageQueueNew\<close>.\<close>

definition delete_queue :: "port \<Rightarrow> addr \<Rightarrow> rtos \<Rightarrow> (addr \<times> rtos) option" where
  "delete_queue P new s = Some (0, release_dynamic P new s)"

definition delete_pool :: "port \<Rightarrow> addr \<Rightarrow> rtos \<Rightarrow> (addr \<times> rtos) option" where
  "delete_pool P new s = do {
     (_, s) \<leftarrow> osMemoryPoolDelete P (message_pool_at new) s;
     delete_queue P new s
   }"

definition delete_semaphore :: "port \<Rightarrow> addr \<Rightarrow> rtos \<Rightarrow> (addr \<times> rtos) option" where
  "delete_semaphore P new s = do {
     (_, s) \<leftarrow> osSemaphoreDelete P (data_available_at new) s;
     delete_pool P new s
   }"

text \<open>
  With static memory the attribute bits are not written. The memory of the messages is what is
  given, or what follows the control block; the size of a message is rounded up to words.
\<close>

definition osMessageQueueNew ::
  "port \<Rightarrow> word32 \<Rightarrow> word32 \<Rightarrow> os_attr option \<Rightarrow> rtos \<Rightarrow> (addr \<times> rtos) option" where
  "osMessageQueueNew P count msize attr s =
    (if osKernelContextIsValid P False 0 s \<noteq> osOK then Some (0, s)
     else let attr = case_option no_attr id attr;
              msize = (msize + 3) AND NOT 3;
              (new, data, nbytes, s) =
                (if a_cb_mem attr = 0 \<and> a_mem attr = 0
                 then let (new, s) = p_alloc P (SIZEOF_MESSAGE_QUEUE + (SIZEOF_MESSAGE + msize) * count) s
                      in if new = 0 then (0, 0, 0, s)
                         else (new, new + SIZEOF_MESSAGE_QUEUE, (SIZEOF_MESSAGE + msize) * count,
                           hdr_upd new (\<lambda>h. h\<lparr>attr_bits := a_attr_bits attr OR osDynamicAlloc\<rparr>) s)
                 else if a_cb_mem attr \<noteq> 0 \<and> a_mem attr \<noteq> 0
                 then if a_cb_size attr < SIZEOF_MESSAGE_QUEUE \<or> a_size attr < (SIZEOF_MESSAGE + msize) * count
                      then (0, 0, 0, s)
                      else (a_cb_mem attr, a_mem attr, a_size attr, s)
                 else (0, 0, 0, s))
          in if new = 0 then Some (0, s)
             else do {
               let s = hdr_upd new (\<lambda>h. h\<lparr>marker := RTOS_MESSAGE_QUEUE_MARKER, obj_name := name_of attr\<rparr>) s;
               let s = queue_upd new (\<lambda>q. q\<lparr>msg_size := msize, msg_count := count, messages := []\<rparr>) s;
               let s = s\<lparr>locks := (locks s)(ObjectLock new := 0)\<rparr>;
               (pool, s) \<leftarrow> osMemoryPoolNew P count (SIZEOF_MESSAGE + msize)
                 (Some (no_attr\<lparr>a_name := Some (obj_name (hdr s new)), a_cb_mem := message_pool_at new,
                   a_cb_size := SIZEOF_MEMORY_POOL, a_mem := data, a_size := nbytes\<rparr>)) s;
               if pool = 0 then delete_queue P new s
               else do {
                 (sem, s) \<leftarrow> osSemaphoreNew P count 0
                   (Some (no_attr\<lparr>a_name := Some (obj_name (hdr s new)), a_cb_mem := data_available_at new,
                     a_cb_size := SIZEOF_SEMAPHORE\<rparr>)) s;
                 if sem = 0 then delete_pool P new s
                 else do {
                   (status, s) \<leftarrow> osKernelResourceAdd P osResourceMessageQueue
                     (new + resource_offset osResourceMessageQueue) s;
                   if status \<noteq> osOK then delete_semaphore P new s else Some (new, s)
                 }
               }
             })"

definition osMessageQueueGetName :: "port \<Rightarrow> addr \<Rightarrow> rtos \<Rightarrow> string option" where
  "osMessageQueueGetName P mq s = get_name P RTOS_MESSAGE_QUEUE_MARKER mq s"

text \<open>The new message goes in front of the first one with a smaller priority.\<close>

definition insert_message :: "addr \<Rightarrow> addr \<Rightarrow> rtos \<Rightarrow> rtos" where
  "insert_message mq msg s =
    queue_upd mq (\<lambda>q. q\<lparr>messages := insert_before_first (\<lambda>c. msg_priority s c < msg_priority s msg) msg (messages q)\<rparr>) s"

definition remove_message :: "addr \<Rightarrow> addr \<Rightarrow> rtos \<Rightarrow> rtos" where
  "remove_message mq msg s = queue_upd mq (\<lambda>q. q\<lparr>messages := filter ((\<noteq>) msg) (messages q)\<rparr>) s"

text \<open>\<open>list_pop_entry\<close>: 0 for an empty list.\<close>

definition pop_message :: "addr \<Rightarrow> rtos \<Rightarrow> addr \<times> rtos" where
  "pop_message mq s = (case messages (queue_of s mq) of
      [] \<Rightarrow> (0, s)
    | m # ms \<Rightarrow> (m, queue_upd mq (\<lambda>q. q\<lparr>messages := ms\<rparr>) s))"

definition osMessageQueuePut ::
  "port \<Rightarrow> (rtos \<Rightarrow> rtos) list \<Rightarrow> (rtos \<Rightarrow> rtos) \<Rightarrow> addr \<Rightarrow> addr \<Rightarrow> word8 \<Rightarrow> word32 \<Rightarrow> rtos
    \<Rightarrow> (word32 \<times> rtos) option" where
  "osMessageQueuePut P envs env mq msg_ptr msg_prio timeout s =
    (if msg_ptr = 0 then Some (osErrorParameter, s)
     else if osKernelContextIsValid P True timeout s \<noteq> osOK then Some (osKernelContextIsValid P True timeout s, s)
     else if osIsResourceValid mq RTOS_MESSAGE_QUEUE_MARKER s \<noteq> osOK
     then Some (osIsResourceValid mq RTOS_MESSAGE_QUEUE_MARKER s, s)
     else do {
       (message, s) \<leftarrow> osMemoryPoolAlloc P envs (message_pool_at mq) timeout s;
       if message = 0 then Some (if timeout = 0 then osErrorResource else osErrorTimeout, s)
       else do {
         let s = s\<lparr>msg_priority := (msg_priority s)(message := ucast msg_prio)\<rparr>;
         let s = s\<lparr>bytes := memcpy (message_data_at message) msg_ptr (msg_size (queue_of s mq)) (bytes s)\<rparr>;
         (_, s) \<leftarrow> locked_section (ObjectLock mq) (\<lambda>s. Some ((), insert_message mq message s)) s;
         (status, s) \<leftarrow> osSemaphoreRelease P env (data_available_at mq) s;
         if status \<noteq> osOK
         then do {
           (_, s) \<leftarrow> locked_section (ObjectLock mq) (\<lambda>s. Some ((), remove_message mq message s)) s;
           (_, s) \<leftarrow> osMemoryPoolFree P env (message_pool_at mq) message s;
           Some (status, s)
         }
         else Some (status, s)
       }
     })"

definition osMessageQueueGet ::
  "port \<Rightarrow> (rtos \<Rightarrow> rtos) list \<Rightarrow> (rtos \<Rightarrow> rtos) \<Rightarrow> addr \<Rightarrow> addr \<Rightarrow> addr \<Rightarrow> word32 \<Rightarrow> rtos
    \<Rightarrow> (word32 \<times> rtos) option" where
  "osMessageQueueGet P envs env mq msg_ptr msg_prio timeout s =
    (if msg_ptr = 0 then Some (osErrorParameter, s)
     else if osKernelContextIsValid P True timeout s \<noteq> osOK then Some (osKernelContextIsValid P True timeout s, s)
     else if osIsResourceValid mq RTOS_MESSAGE_QUEUE_MARKER s \<noteq> osOK
     then Some (osIsResourceValid mq RTOS_MESSAGE_QUEUE_MARKER s, s)
     else do {
       (status, s) \<leftarrow> osSemaphoreAcquire P envs (data_available_at mq) timeout s;
       if status \<noteq> osOK then Some (if timeout = 0 then osErrorResource else osErrorTimeout, s)
       else do {
         (message, s) \<leftarrow> locked_section (ObjectLock mq) (\<lambda>s. Some (pop_message mq s)) s;
         if message = 0 then Some (osError, s)
         else do {
           let s = s\<lparr>bytes := memcpy msg_ptr (message_data_at message) (msg_size (queue_of s mq)) (bytes s)\<rparr>;
           let s = (if msg_prio \<noteq> 0
                    then s\<lparr>bytes := (bytes s)(msg_prio := ucast (msg_priority s message AND 0xff))\<rparr> else s);
           osMemoryPoolFree P env (message_pool_at mq) message s
         }
       }
     })"

definition osMessageQueueGetCapacity :: "port \<Rightarrow> addr \<Rightarrow> rtos \<Rightarrow> word32" where
  "osMessageQueueGetCapacity P mq s =
    (if osKernelContextIsValid P True 0 s \<noteq> osOK then 0
     else if osIsResourceValid mq RTOS_MESSAGE_QUEUE_MARKER s \<noteq> osOK then 0
     else msg_count (queue_of s mq))"

definition osMessageQueueGetMsgSize :: "port \<Rightarrow> addr \<Rightarrow> rtos \<Rightarrow> word32" where
  "osMessageQueueGetMsgSize P mq s =
    (if osKernelContextIsValid P True 0 s \<noteq> osOK then 0
     else if osIsResourceValid mq RTOS_MESSAGE_QUEUE_MARKER s \<noteq> osOK then 0
     else msg_size (queue_of s mq))"

definition osMessageQueueGetCount :: "port \<Rightarrow> addr \<Rightarrow> rtos \<Rightarrow> word32" where
  "osMessageQueueGetCount P mq s =
    (if osIsResourceValid mq RTOS_MESSAGE_QUEUE_MARKER s \<noteq> osOK then 0
     else osSemaphoreGetCount P (data_available_at mq) s)"

definition osMessageQueueGetSpace :: "port \<Rightarrow> addr \<Rightarrow> rtos \<Rightarrow> word32" where
  "osMessageQueueGetSpace P mq s =
    (if osIsResourceValid mq RTOS_MESSAGE_QUEUE_MARKER s \<noteq> osOK then 0
     else osMemoryPoolGetSpace P (message_pool_at mq) s)"

text \<open>Each turn has the scripts of its acquisition and of its release.\<close>

fun message_reset_loop ::
  "port \<Rightarrow> ((rtos \<Rightarrow> rtos) list \<times> (rtos \<Rightarrow> rtos)) list \<Rightarrow> addr \<Rightarrow> rtos \<Rightarrow> (word32 \<times> rtos) option" where
  "message_reset_loop P script mq s =
    (if osSemaphoreGetCount P (data_available_at mq) s = 0 then Some (osOK, s)
     else (case script of
         [] \<Rightarrow> None
       | (envs, env) # script \<Rightarrow> do {
           (status, s) \<leftarrow> osSemaphoreAcquire P envs (data_available_at mq) osWaitForever s;
           if status \<noteq> osOK then Some (status, s)
           else do {
             (message, s) \<leftarrow> locked_section (ObjectLock mq) (\<lambda>s. Some (pop_message mq s)) s;
             if message = 0 then Some (osError, s)
             else do {
               (status, s) \<leftarrow> osMemoryPoolFree P env (message_pool_at mq) message s;
               if status \<noteq> osOK then Some (status, s) else message_reset_loop P script mq s
             }
           }
         }))"

declare message_reset_loop.simps [simp del]

definition osMessageQueueReset ::
  "port \<Rightarrow> ((rtos \<Rightarrow> rtos) list \<times> (rtos \<Rightarrow> rtos)) list \<Rightarrow> addr \<Rightarrow> rtos \<Rightarrow> (word32 \<times> rtos) option" where
  "osMessageQueueReset P script mq s =
    (if osKernelContextIsValid P False 0 s \<noteq> osOK then Some (osKernelContextIsValid P False 0 s, s)
     else if osIsResourceValid mq RTOS_MESSAGE_QUEUE_MARKER s \<noteq> osOK
     then Some (osIsResourceValid mq RTOS_MESSAGE_QUEUE_MARKER s, s)
     else message_reset_loop P script mq s)"

definition osMessageQueueDelete :: "port \<Rightarrow> addr \<Rightarrow> rtos \<Rightarrow> (word32 \<times> rtos) option" where
  "osMessageQueueDelete P mq s =
    (if osKernelContextIsValid P False 0 s \<noteq> osOK then Some (osKernelContextIsValid P False 0 s, s)
     else if osIsResourceValid mq RTOS_MESSAGE_QUEUE_MARKER s \<noteq> osOK
     then Some (osIsResourceValid mq RTOS_MESSAGE_QUEUE_MARKER s, s)
     else do {
       let s = hdr_upd mq (\<lambda>h. h\<lparr>marker := 0\<rparr>) s;
       (status, s) \<leftarrow> osKernelResourceRemove P osResourceMessageQueue (mq + resource_offset osResourceMessageQueue) s;
       if status \<noteq> osOK then Some (status, s)
       else do {
         (status, s) \<leftarrow> osSemaphoreDelete P (data_available_at mq) s;
         if status \<noteq> osOK then Some (status, s)
         else do {
           (status, s) \<leftarrow> osMemoryPoolDelete P (message_pool_at mq) s;
           if status \<noteq> osOK then Some (status, s)
           else Some (osOK, release_dynamic P mq s)
         }
       }
     })"

section \<open>The invariant of a queue\<close>

text \<open>
  \<open>ms\<close> are the queued messages and \<open>fs\<close> the free ones: together all blocks of the pool, each
  once; the semaphore counts the queued ones.
\<close>

definition mq_inv :: "addr \<Rightarrow> addr list \<Rightarrow> addr list \<Rightarrow> rtos \<Rightarrow> bool" where
  "mq_inv mq ms fs s \<longleftrightarrow> pool_inv (message_pool_at mq) fs s \<and> sem_ok (data_available_at mq) s \<and>
    osIsResourceValid mq RTOS_MESSAGE_QUEUE_MARKER s = osOK \<and> spin_free (locks s (ObjectLock mq)) \<and>
    messages (queue_of s mq) = ms \<and> distinct (ms @ fs) \<and> set ms \<subseteq> pool_blocks (pool_of s (message_pool_at mq)) \<and>
    sem_value s (data_available_at mq) = of_nat (length ms) \<and>
    sem_value_at (data_available_at mq) \<notin> pool_blocks (pool_of s (message_pool_at mq)) \<and>
    max_count s (data_available_at mq) = capacity (pool_of s (message_pool_at mq)) \<and>
    length ms + length fs = unat (capacity (pool_of s (message_pool_at mq))) \<and>
    block_size (pool_of s (message_pool_at mq)) = SIZEOF_MESSAGE + msg_size (queue_of s mq) \<and>
    unat (msg_size (queue_of s mq)) + 16 < 2 ^ 32"

lemma mq_invD:
  assumes "mq_inv mq ms fs s"
  shows "pool_inv (message_pool_at mq) fs s" "sem_ok (data_available_at mq) s"
    "osIsResourceValid mq RTOS_MESSAGE_QUEUE_MARKER s = osOK" "spin_free (locks s (ObjectLock mq))"
    "messages (queue_of s mq) = ms" "distinct (ms @ fs)" "set ms \<subseteq> pool_blocks (pool_of s (message_pool_at mq))"
    "sem_value s (data_available_at mq) = of_nat (length ms)"
    "sem_value_at (data_available_at mq) \<notin> pool_blocks (pool_of s (message_pool_at mq))"
    "max_count s (data_available_at mq) = capacity (pool_of s (message_pool_at mq))"
    "length ms + length fs = unat (capacity (pool_of s (message_pool_at mq)))"
    "block_size (pool_of s (message_pool_at mq)) = SIZEOF_MESSAGE + msg_size (queue_of s mq)"
    "unat (msg_size (queue_of s mq)) + 16 < 2 ^ 32" "ipsr (ker s) = 0"
  using assms by (simp_all add: mq_inv_def sem_ok_def)

text \<open>The contents as the application sees them: priority and bytes of each message, in order.\<close>

definition contents :: "addr \<Rightarrow> rtos \<Rightarrow> (word32 \<times> word8 list) list" where
  "contents mq s = map (\<lambda>m. (msg_priority s m, read_bytes (bytes s) (message_data_at m) (msg_size (queue_of s mq))))
     (messages (queue_of s mq))"

lemma queue_upd_sel [simp]:
  "queue_of (queue_upd mq f s) = (queue_of s)(mq := f (queue_of s mq))" "ker (queue_upd mq f s) = ker s"
  "hdr (queue_upd mq f s) = hdr s" "locks (queue_upd mq f s) = locks s" "pool_of (queue_upd mq f s) = pool_of s"
  "max_count (queue_upd mq f s) = max_count s" "msg_priority (queue_upd mq f s) = msg_priority s"
  "bytes (queue_upd mq f s) = bytes s"
  by (simp_all add: queue_upd_def)

lemma set_masked_queue: "queue_upd mq f (set_masked p L s) = set_masked p L (queue_upd mq f s)"
  by (simp add: queue_upd_def set_masked_upd)

text \<open>The data of two messages, and of a message and a buffer outside of the pool, do not meet.\<close>

lemma message_fits:
  assumes i: "mq_inv mq ms fs s" and m: "m \<in> pool_blocks (pool_of s (message_pool_at mq))"
  shows "unat (message_data_at m) = unat m + 16"
    "unat m + unat (block_size (pool_of s (message_pool_at mq))) < 2 ^ 32"
    "unat (block_size (pool_of s (message_pool_at mq))) = 16 + unat (msg_size (queue_of s mq))"
proof -
  note d = mq_invD [OF i]
  let ?p = "pool_of s (message_pool_at mq)"
  show bs: "unat (block_size ?p) = 16 + unat (msg_size (queue_of s mq))"
    unfolding d(12) using d(13) by (simp add: unat_word_ariths)
  have fits: "pool_fits ?p" by (rule pool_invD(14) [OF d(1)])
  obtain n where n: "n < unat (capacity ?p)" "m = pool_data ?p + of_nat n * block_size ?p"
    using m by (auto simp: pool_blocks_def)
  have u: "unat m = unat (pool_data ?p) + n * unat (block_size ?p)"
    unfolding n(2) by (rule block_unat [OF fits]) (use n(1) in simp)
  have "Suc n * unat (block_size ?p) \<le> unat (capacity ?p) * unat (block_size ?p)"
    using n(1) by (intro mult_le_mono1) simp
  then show lt: "unat m + unat (block_size ?p) < 2 ^ 32"
    using fits u by (simp add: pool_fits_def mult.commute)
  then show "unat (message_data_at m) = unat m + 16"
    using bs offset_unat [of m "unat (block_size ?p)" 16] by simp
qed

lemma messages_apart:
  assumes i: "mq_inv mq ms fs s" and m: "m \<in> pool_blocks (pool_of s (message_pool_at mq))"
    "n \<in> pool_blocks (pool_of s (message_pool_at mq))" "m \<noteq> n"
  shows "apart (message_data_at m) (msg_size (queue_of s mq)) (message_data_at n) (msg_size (queue_of s mq))"
proof (rule apartI)
  note fm = message_fits [OF i m(1)] and fn = message_fits [OF i m(2)]
  show "unat (message_data_at m) + unat (msg_size (queue_of s mq)) < 2 ^ 32"
    "unat (message_data_at n) + unat (msg_size (queue_of s mq)) < 2 ^ 32"
    using fm fn by simp_all
  show "unat (message_data_at m) + unat (msg_size (queue_of s mq)) \<le> unat (message_data_at n) \<or>
      unat (message_data_at n) + unat (msg_size (queue_of s mq)) \<le> unat (message_data_at m)"
    using blocks_spaced [OF pool_invD(14) [OF mq_invD(1) [OF i]] m] fm fn by auto
qed

lemma sem_ok_frame:
  assumes "sem_ok sem s" and "futexes_kept (ker s) (ker s')" and "hdr s' = hdr s"
  shows "sem_ok sem s'"
  using assms by (simp add: sem_ok_def futexes_kept_def osIsResourceValid_def futex_plain_def)

lemma futexes_kept_mem: "kinv k \<Longrightarrow> futexes_kept k (k\<lparr>mem := m\<rparr>)"
  by (simp add: futexes_kept_def)

lemma sem_ok_kinv: "sem_ok sem s \<Longrightarrow> kinv (ker s)"
  by (simp add: sem_ok_def)

lemma osSemaphoreRelease_frame:
  assumes o: "sem_ok sem s" and m: "sem_value s sem < max_count s sem"
  shows "\<exists>k. osSemaphoreRelease P id sem s = Some (osOK, s\<lparr>ker := k\<rparr>) \<and> futexes_kept (ker s) k \<and>
    mem k = (mem (ker s))(sem_value_at sem := sem_value s sem + 1)"
  using osSemaphoreRelease_ok [OF assms, of P] by (auto simp: released_def plain_woken_def futexes_kept_def)

text \<open>The memory of the pool and the count of the messages are apart.\<close>

lemma mq_words: "mq + 260 \<noteq> mq + 120" "mq + 120 \<noteq> mq + 260" for mq :: word32
  by simp_all

lemma map_insert_before_first:
  assumes "\<And>y. y \<in> set ys \<Longrightarrow> P y = Q (f y)"
  shows "map f (insert_before_first P x ys) = insert_before_first Q (f x) (map f ys)"
  using assms by (induction ys) auto

lemma osMessageQueuePut_ok:
  assumes i: "mq_inv mq ms (b # fs) s" and p: "ptr \<noteq> 0"
  shows "\<exists>ms' s'. osMessageQueuePut P [id] id mq ptr p 0 s = Some (osOK, s') \<and> mq_inv mq ms' fs s' \<and>
    contents mq s' = insert_before_first (\<lambda>(q, _). q < ucast p)
      (ucast p, read_bytes (bytes s) ptr (msg_size (queue_of s mq))) (contents mq s) \<and>
    pool_shape (message_pool_at mq) s' = pool_shape (message_pool_at mq) s \<and>
    msg_size (queue_of s' mq) = msg_size (queue_of s mq)"
proof -
  note d = mq_invD [OF i]
  let ?mp = "message_pool_at mq" and ?da = "data_available_at mq" and ?n = "msg_size (queue_of s mq)"
  define s1 where "s1 = pool_taken ?mp b s"
  have al: "osMemoryPoolAlloc P [id] ?mp 0 s = Some (b, s1)" and i1: "pool_inv ?mp fs s1"
    unfolding s1_def by (rule osMemoryPoolAlloc_some [OF d(1)])+
  have b: "b \<in> pool_blocks (pool_of s ?mp)" "b \<noteq> 0" "b \<notin> set ms" using pool_invD(6,7) [OF d(1)] d(6) by auto
  have s1: "queue_of s1 = queue_of s" "hdr s1 = hdr s" "bytes s1 = bytes s" "msg_priority s1 = msg_priority s"
    "max_count s1 = max_count s" "pool_shape ?mp s1 = pool_shape ?mp s" "pool_blocks (pool_of s1 ?mp) = pool_blocks (pool_of s ?mp)"
    "spin_free (locks s1 (ObjectLock mq))" "mem (ker s1) = (mem (ker s))(mq + 260 := mem_word s (mq + 260) - 1)"
    "futexes_kept (ker s) (ker s1)"
    using d(4) sem_ok_kinv [OF d(2)] by (simp_all add: s1_def pool_taken_def pool_shape_def add.assoc [of mq] futexes_kept_def)
  define s2 where "s2 = s1\<lparr>msg_priority := (msg_priority s1)(b := ucast p), bytes := memcpy (message_data_at b) ptr ?n (bytes s1)\<rparr>"
  define s3 where "s3 = cycle_lock (ObjectLock mq) (insert_message mq b s2)"
  have sec: "locked_section (ObjectLock mq) (\<lambda>s. Some ((), insert_message mq b s)) s2 = Some ((), s3)"
    unfolding s3_def by (rule locked_section_free)
      (use s1(8) in \<open>simp_all add: s2_def insert_message_def set_masked_queue\<close>)
  have s3: "ker s3 = ker s1" "hdr s3 = hdr s" "max_count s3 = max_count s" "pool_of s3 = pool_of s1"
    "bytes s3 = bytes s2" "msg_priority s3 = (msg_priority s)(b := ucast p)" "spin_free (locks s3 l) = spin_free (locks s1 l)"
    "queue_of s3 mq = (queue_of s mq)\<lparr>messages := insert_before_first (\<lambda>c. msg_priority s3 c < ucast p) b ms\<rparr>" for l
    using s1 d(5) by (simp_all add: s3_def s2_def insert_message_def)
  have ok3: "sem_ok ?da s3"
    by (rule sem_ok_frame [OF d(2)]) (use s3(1,2) s1(10) in simp_all)
  have v3: "sem_value s3 ?da = of_nat (length ms)" using d(8) by (simp add: s3(1) s1(9) add.assoc [of mq] mq_words)
  have lt: "Suc (length ms) \<le> unat (capacity (pool_of s ?mp))" using d(11) by simp
  then have "sem_value s3 ?da < max_count s3 ?da"
    unfolding v3 using d(10) offset_less [of "length ms" "capacity (pool_of s ?mp)"] by (simp add: s3(3) word_less_nat_alt)
  from osSemaphoreRelease_frame [OF ok3 this, of P] obtain k where
    k: "osSemaphoreRelease P id ?da s3 = Some (osOK, s3\<lparr>ker := k\<rparr>)" "futexes_kept (ker s3) k"
    "mem k = (mem (ker s3))(sem_value_at ?da := of_nat (length ms) + 1)" unfolding v3 by blast
  let ?s = "s3\<lparr>ker := k\<rparr>" and ?ms = "insert_before_first (\<lambda>c. msg_priority s3 c < ucast p) b ms"
  have "osMessageQueuePut P [id] id mq ptr p 0 s = Some (osOK, ?s)"
    using p d(3,14) al b(2) sec k(1) by (simp add: osMessageQueuePut_def s2_def s1(1))
  moreover have "mq_inv mq ?ms fs ?s"
  proof -
    have "pool_inv ?mp fs ?s"
      by (rule pool_inv_frame [OF i1])
        (use k(2,3) s3 s1 d(9) pool_invD(3) [OF i1] in \<open>auto simp: add.assoc [of mq] mq_words\<close>)
    moreover have "sem_ok ?da ?s" by (rule sem_ok_frame [OF ok3]) (use k(2) in simp_all)
    moreover have "capacity (pool_of s3 ?mp) = capacity (pool_of s ?mp)" "block_size (pool_of s3 ?mp) = block_size (pool_of s ?mp)"
      using arg_cong [OF s1(6), of capacity] arg_cong [OF s1(6), of block_size] s3(4) by (simp_all add: pool_shape_def)
    ultimately show ?thesis
      using d b s3 s1(2,7,8) k(3) by (auto simp: mq_inv_def osIsResourceValid_def)
  qed
  moreover have "contents mq ?s = insert_before_first (\<lambda>(q, _). q < ucast p)
      (ucast p, read_bytes (bytes s) ptr ?n) (contents mq s)"
  proof -
    let ?f = "\<lambda>s m. (msg_priority s m, read_bytes (bytes s) (message_data_at m) ?n)"
    have old: "?f ?s m = ?f s m" if "m \<in> set ms" for m
    proof -
      have "m \<noteq> b" "m \<in> pool_blocks (pool_of s ?mp)" using that b(3) d(7) by auto
      then show ?thesis using messages_apart [OF i _ b(1)] by (simp add: s3(5,6) s2_def s1(3))
    qed
    have "contents mq ?s = insert_before_first (\<lambda>(q, _). q < ucast p) (?f ?s b) (map (?f ?s) ms)"
      unfolding contents_def using s3(8) by (simp add: map_insert_before_first [where Q = "\<lambda>(q, _). q < ucast p"])
    also have "map (?f ?s) ms = contents mq s" unfolding contents_def d(5) using old by (intro map_cong) simp_all
    also have "?f ?s b = (ucast p, read_bytes (bytes s) ptr ?n)" by (simp add: s3(5,6) s2_def s1(3))
    finally show ?thesis .
  qed
  moreover have "pool_shape ?mp ?s = pool_shape ?mp s" using s1(6) s3(4) by (simp add: pool_shape_def)
  ultimately show ?thesis using s3(8) by (intro exI [of _ ?ms] exI [of _ ?s]) simp
qed

text \<open>A buffer for messages and a byte for the priority that the application has outside of the pool.\<close>

definition buffer_ok :: "addr \<Rightarrow> addr \<Rightarrow> addr set \<Rightarrow> word32 \<Rightarrow> bool" where
  "buffer_ok buf pr blocks n \<longleftrightarrow> buf \<noteq> 0 \<and> pr \<noteq> 0 \<and> apart buf n pr 1 \<and>
    (\<forall>m\<in>blocks. apart (message_data_at m) n buf n \<and> apart (message_data_at m) n pr 1)"

lemma upd_write_bytes: "b(pr := v) = write_bytes pr [v] b"
proof
  fix a
  have "unat (a - pr) = 0 \<longleftrightarrow> a = pr" by (simp add: unat_eq_0)
  then show "(b(pr := v)) a = write_bytes pr [v] b a" by (simp add: write_bytes_def)
qed

lemma read_upd_apart: "apart a n pr 1 \<Longrightarrow> read_bytes (b(pr := v)) a n = read_bytes b a n"
  unfolding upd_write_bytes by (rule read_write_apart [where m = 1]) simp_all

lemma osMessageQueueGet_ok:
  assumes i: "mq_inv mq (m # ms) fs s" and b: "buffer_ok buf pr (pool_blocks (pool_of s (message_pool_at mq))) (msg_size (queue_of s mq))"
  shows "\<exists>s'. osMessageQueueGet P [id] id mq buf pr 0 s = Some (osOK, s') \<and> mq_inv mq ms (m # fs) s' \<and>
    contents mq s = (msg_priority s m, read_bytes (bytes s') buf (msg_size (queue_of s mq))) # contents mq s' \<and>
    bytes s' pr = ucast (msg_priority s m AND 0xff) \<and>
    pool_shape (message_pool_at mq) s' = pool_shape (message_pool_at mq) s \<and>
    msg_size (queue_of s' mq) = msg_size (queue_of s mq)"
proof -
  note d = mq_invD [OF i] and bd = b [unfolded buffer_ok_def]
  let ?mp = "message_pool_at mq" and ?da = "data_available_at mq" and ?n = "msg_size (queue_of s mq)"
  have "Suc (length ms) \<le> unat (capacity (pool_of s ?mp))" using d(11) by simp
  then have u: "unat (of_nat (Suc (length ms)) :: word32) = Suc (length ms)"
    using unat_less32 [of "capacity (pool_of s ?mp)"] by (intro unat_of_nat32) linarith
  have nz: "sem_value s ?da \<noteq> 0" unfolding d(8) using u by (metis length_Cons nat.distinct(1) unsigned_0)
  define s1 where "s1 = mem_upd (sem_value_at ?da) (sem_value s ?da - 1) s"
  have acq: "osSemaphoreAcquire P [id] ?da 0 s = Some (osOK, s1)"
    unfolding s1_def by (rule osSemaphoreAcquire_token [OF d(2) nz])
  define s2 where "s2 = cycle_lock (ObjectLock mq) (queue_upd mq (\<lambda>q. q\<lparr>messages := ms\<rparr>) s1)"
  have sec: "locked_section (ObjectLock mq) (\<lambda>s. Some (pop_message mq s)) s1 = Some (m, s2)"
    unfolding s2_def by (rule locked_section_free)
      (use d(4,5) in \<open>simp_all add: s1_def pop_message_def set_masked_queue\<close>)
  define s3 where "s3 = s2\<lparr>bytes := (memcpy buf (message_data_at m) ?n (bytes s2))(pr := ucast (msg_priority s m AND 0xff))\<rparr>"
  have s3: "hdr s3 = hdr s" "max_count s3 = max_count s" "pool_of s3 = pool_of s" "msg_priority s3 = msg_priority s"
    "queue_of s3 mq = (queue_of s mq)\<lparr>messages := ms\<rparr>" "spin_free (locks s3 l) = spin_free (locks s l)"
    "mem (ker s3) = (mem (ker s))(sem_value_at ?da := of_nat (length ms))" "futexes_kept (ker s) (ker s3)"
    "bytes s3 = (memcpy buf (message_data_at m) ?n (bytes s))(pr := ucast (msg_priority s m AND 0xff))" for l
    using sem_ok_kinv [OF d(2)] d(8) by (simp_all add: s3_def s2_def s1_def futexes_kept_def)
  have m: "m \<in> pool_blocks (pool_of s ?mp)" "m \<notin> set fs" "m \<noteq> 0" "m \<notin> set ms"
    using d(6,7) pool_invD(7) [OF d(1)] by auto
  have i3: "pool_inv ?mp fs s3"
    by (rule pool_inv_frame [OF d(1)])
      (use s3 d(9) pool_invD(3) [OF d(1)] in \<open>auto simp: add.assoc [of mq] mq_words\<close>)
  obtain k where k: "osMemoryPoolFree P id ?mp m s3 = Some (osOK, (cycle_lock (ObjectLock ?mp) (push_block ?mp m s3))\<lparr>ker := k\<rparr>)"
    "mem k = (mem (ker s3))(m := free_list (pool_of s3 ?mp), sem_value_at (pool_semaphore_at ?mp) := of_nat (Suc (length fs)))"
    "futexes_kept (ker s3) k" "pool_inv ?mp (m # fs) ((cycle_lock (ObjectLock ?mp) (push_block ?mp m s3))\<lparr>ker := k\<rparr>)"
    using osMemoryPoolFree_ok [OF i3, of m P] m(1,2) s3(3) by auto
  let ?s = "(cycle_lock (ObjectLock ?mp) (push_block ?mp m s3))\<lparr>ker := k\<rparr>"
  have "osMessageQueueGet P [id] id mq buf pr 0 s = Some (osOK, ?s)"
    using bd d(3,14) acq sec m(3) k(1) by (simp add: osMessageQueueGet_def s3_def s2_def s1_def)
  moreover have "mq_inv mq ms (m # fs) ?s"
  proof -
    have "sem_ok ?da ?s"
      by (rule sem_ok_frame [OF sem_ok_frame [OF d(2) s3(8) s3(1)]]) (use k(3) in simp_all)
    moreover have "m \<noteq> sem_value_at ?da" using d(9) m(1) by auto
    ultimately show ?thesis
      using d m s3 k(2,4) by (auto simp: mq_inv_def osIsResourceValid_def add.assoc [of mq] mq_words)
  qed
  moreover have "contents mq s = (msg_priority s m, read_bytes (bytes ?s) buf ?n) # contents mq ?s"
  proof -
    have "read_bytes (bytes s3) (message_data_at x) ?n = read_bytes (bytes s) (message_data_at x) ?n" if "x \<in> set ms" for x
    proof -
      have "x \<in> pool_blocks (pool_of s ?mp)" using that d(7) by auto
      then show ?thesis using bd by (simp add: s3(9) read_upd_apart)
    qed
    moreover have "read_bytes (bytes s3) buf ?n = read_bytes (bytes s) (message_data_at m) ?n"
      using bd by (simp add: s3(9) read_upd_apart)
    ultimately show ?thesis by (simp add: contents_def d(5) s3(4,5))
  qed
  ultimately show ?thesis
    by (intro exI [of _ ?s]) (simp add: s3(3,5,9) pool_shape_def)
qed

lemma osMessageQueuePut_full:
  assumes i: "mq_inv mq ms [] s" and p: "ptr \<noteq> 0"
  shows "osMessageQueuePut P [id] id mq ptr p 0 s = Some (osErrorResource, s)"
  using p mq_invD(3,14) [OF i] osMemoryPoolAlloc_none [OF mq_invD(1) [OF i]] by (simp add: osMessageQueuePut_def)

lemma osMessageQueueGet_empty:
  assumes i: "mq_inv mq [] fs s" and p: "buf \<noteq> 0"
  shows "osMessageQueueGet P [id] id mq buf pr 0 s = Some (osErrorResource, s)"
  using p mq_invD(3,8,14) [OF i] osSemaphoreAcquire_empty [OF mq_invD(2) [OF i], of P "[id]"]
  by (simp add: osMessageQueueGet_def)

section \<open>A new queue\<close>

text \<open>A message with its data is a multiple of words long, as the pool demands.\<close>

lemma rounded_block:
  fixes n m :: word32
  assumes "n = (m + 3) AND NOT 3"
  shows "16 + n = (16 + n + 3) AND NOT 3"
proof -
  have bits: "(x AND NOT y) AND y = 0" "(x OR y) AND NOT y = x AND NOT y" "(x AND y) OR (x AND NOT y) = x" for x y :: word32
    by (rule bit_word_eqI; auto simp: bit_simps)+
  have "n AND 3 = 0" unfolding assms by (rule bits(1))
  then have n: "take_bit 2 n = 0" by (simp add: take_bit_eq_mask mask_numeral)
  then have "take_bit 2 (unat n) = 0" by (metis unsigned_take_bit_eq unsigned_0)
  then have "unat n mod 4 = 0" by (simp add: take_bit_eq_mod)
  then have "(16 + unat n) mod 4 = 0" by presburger
  then have "unat (16 + n) mod 4 = 0" by (simp add: unat_word_ariths mod_mod_cancel)
  then have "unat (take_bit 2 (16 + n)) = 0" unfolding unsigned_take_bit_eq by (simp add: take_bit_eq_mod)
  then have y: "(16 + n) AND 3 = 0" by (simp add: unat_eq_0 take_bit_eq_mask mask_numeral)
  then have "16 + n + 3 = (16 + n) OR 3" by (rule disjunctive_add_eq_or)
  moreover have "(16 + n) AND NOT 3 = 16 + n" using bits(3) [of "16 + n" 3] unfolding y by (simp only: or.left_neutral)
  ultimately show ?thesis by (simp only: bits(2))
qed

lemma hdr_upd_hdr: "hdr (hdr_upd a f s) = (hdr s)(a := f (hdr s a))"
  by (simp add: hdr_upd_def)

lemma osMessageQueueNew_static:
  assumes k: "kinv (ker s)" and i: "ipsr (ker s) = 0" and ks: "kernel_set s" and l: "\<And>l. spin_free (locks s l)"
    and n: "n = (msize + 3) AND NOT 3" "unat n + 16 < 2 ^ 32"
    and a: "a_cb_mem attr = mq" "SIZEOF_MESSAGE_QUEUE \<le> a_cb_size attr" "a_mem attr = start" "(16 + n) * count \<le> a_size attr"
    and p: "mq \<noteq> 0" "unat mq + 312 < 2 ^ 32"
    and m: "start \<noteq> 0" "unat start + unat (16 + n) * unat count < 2 ^ 32"
    and d: "unat mq + 312 \<le> unat start \<or> unat start + unat (16 + n) * unat count \<le> unat mq"
    and q: "queues (ker s) (Waiters (mq + 228)) = []" "queues (ker s) (Waiters (mq + 88)) = []"
  shows "\<exists>fs s'. osMessageQueueNew P count msize (Some attr) s = Some (mq, s') \<and> mq_inv mq [] fs s' \<and>
    length fs = unat count \<and> msg_size (queue_of s' mq) = n \<and>
    pool_blocks (pool_of s' (message_pool_at mq)) = (\<lambda>i. start + of_nat i * (16 + n)) ` {..<unat count}"
proof -
  let ?mp = "message_pool_at mq" and ?da = "data_available_at mq"
  have u: "unat (mq + of_nat j) = unat mq + j" if "j \<le> 312" for j using offset_unat [OF p(2) that] .
  have nz: "mq + of_nat j \<noteq> 0" if "j \<le> 312" for j using offset_not_0 [OF p(2,1) that] .
  have n': "(msize + 3) AND - 4 = n" by (simp add: n(1))
  have bs: "16 + n = (16 + n + 3) AND NOT 3" by (rule rounded_block [OF n(1)])
  have ubs: "unat (16 + n) = 16 + unat n" using n(2) by (simp add: unat_word_ariths)
  have bs0: "16 + n \<noteq> 0" using ubs by (metis add_is_0 unsigned_0 zero_neq_numeral)
  define s1 where "s1 = (queue_upd mq (\<lambda>q. q\<lparr>msg_size := n, msg_count := count, messages := []\<rparr>)
    (hdr_upd mq (\<lambda>h. h\<lparr>marker := RTOS_MESSAGE_QUEUE_MARKER, obj_name := name_of attr\<rparr>) s))\<lparr>locks := (locks s)(ObjectLock mq := 0)\<rparr>"
  let ?pa = "no_attr\<lparr>a_name := Some (name_of attr), a_cb_mem := ?mp, a_cb_size := SIZEOF_MEMORY_POOL,
      a_mem := start, a_size := a_size attr\<rparr>"
  have s1: "ker s1 = ker s" "kernel_set s1" "spin_free (locks s1 l)" "marker (hdr s1 mq) = RTOS_MESSAGE_QUEUE_MARKER"
    "queue_of s1 mq = \<lparr>msg_size = n, msg_count = count, messages = []\<rparr>" for l
    using ks l by (simp_all add: s1_def hdr_upd_def queue_upd_def)
  have kk: "kinv (ker s1)" "ipsr (ker s1) = 0" using k i s1(1) by simp_all
  have pa: "a_cb_mem ?pa = ?mp" "SIZEOF_MEMORY_POOL \<le> a_cb_size ?pa" "a_mem ?pa = start" "(16 + n) * count \<le> a_size ?pa"
    using a(4) by (simp_all add: no_attr_def)
  have mp: "?mp \<noteq> 0" "unat ?mp + 152 < 2 ^ 32" using nz [of 136] u [of 136] p(2) by simp_all
  have dd: "unat ?mp + 152 \<le> unat start \<or> unat start + unat (16 + n) * unat count \<le> unat ?mp"
    using d u [of 136] by auto
  have qq: "queues (ker s1) (Waiters (futex_at (pool_semaphore_at ?mp))) = []" using q(1) s1(1) by (simp add: add.assoc)
  obtain s2 where s2: "osMemoryPoolNew P count (16 + n) (Some ?pa) s1 = Some (?mp, s2)"
    "pool_inv ?mp (rev (map (\<lambda>i. start + of_nat i * (16 + n)) [0..<unat count])) s2"
    "pool_data (pool_of s2 ?mp) = start" "block_size (pool_of s2 ?mp) = 16 + n" "capacity (pool_of s2 ?mp) = count"
    "kernel_set s2" "queues (ker s2) = queues (ker s)" "queue_of s2 = queue_of s1"
    "\<forall>l. spin_free (locks s1 l) \<longrightarrow> spin_free (locks s2 l)"
    "\<forall>a. a \<noteq> ?mp \<and> a \<noteq> pool_semaphore_at ?mp \<longrightarrow> hdr s2 a = hdr s1 a"
    using osMemoryPoolNew_static [OF kk s1(2,3,3) bs bs0 pa mp m dd qq, of P] s1(1) by auto
  let ?fs = "rev (map (\<lambda>i. start + of_nat i * (16 + n)) [0..<unat count])"
  let ?sa = "no_attr\<lparr>a_name := Some (obj_name (hdr s2 mq)), a_cb_mem := ?da, a_cb_size := SIZEOF_SEMAPHORE\<rparr>"
  note e = pool_invD [OF s2(2)]
  have free2: "spin_free (locks s2 l)" for l using s2(9) s1(3) by blast
  have nz': "?da \<noteq> 0" "88 + mq \<noteq> 0" "124 + mq \<noteq> 0" "mq + 300 \<noteq> 0"
    using nz [of 48] nz [of 88] nz [of 124] nz [of 300] by (simp_all add: add.commute)
  have "queues (ker s2) (Waiters (88 + mq)) = []" using q(2) s2(7) by (simp add: add.commute)
  then obtain k3 where s3: "osSemaphoreNew P count 0 (Some ?sa) s2 = Some (?da, (sem_created ?sa ?da count s2)\<lparr>ker := k3\<rparr>)"
    "sem_ok ?da ((sem_created ?sa ?da count s2)\<lparr>ker := k3\<rparr>)" "mem k3 = (mem (ker s2))(120 + mq := 0)"
    "\<forall>f. f \<noteq> 88 + mq \<longrightarrow> futex_of k3 f = futex_of (ker s2) f"
    using osSemaphoreNew_static [of s2 ?sa ?da P count 0] sem_ok_kinv [OF e(1)] e(12) s2(6) free2 nz'
    by (auto simp: no_attr_def)
  define s3 where "s3 = (sem_created ?sa ?da count s2)\<lparr>ker := k3\<rparr>"
  have add: "osKernelResourceAdd P osResourceMessageQueue (mq + 300) s3 = Some (osOK,
      cycle_lock (ResourceLock osResourceMessageQueue)
        (s3\<lparr>resources := (resources s3)(osResourceMessageQueue := resources s3 osResourceMessageQueue @ [mq + 300])\<rparr>))"
    by (rule osKernelResourceAdd_ok)
      (use s3(2) nz'(4) s2(6) free2 in \<open>simp_all add: s3_def sem_created_def sem_ok_def\<close>)
  define s4 where "s4 = cycle_lock (ResourceLock osResourceMessageQueue)
        (s3\<lparr>resources := (resources s3)(osResourceMessageQueue := resources s3 osResourceMessageQueue @ [mq + 300])\<rparr>)"
  have s4: "ker s4 = k3" "hdr s4 = (hdr s2)(?da := init_header RTOS_SEMAPHORE_MARKER ?sa ?da (hdr s2 ?da))"
    "max_count s4 = (max_count s2)(?da := count)" "pool_of s4 = pool_of s2" "queue_of s4 = queue_of s1" "spin_free (locks s4 l)" for l
    using s2(8) free2 by (simp_all add: s4_def s3_def sem_created_def)
  have new: "osMessageQueueNew P count msize (Some attr) s = Some (mq, s4)"
    using i a p(1) m(1) s2(1) s3(1) add nz' mp(1)
    by (simp add: osMessageQueueNew_def Let_def n' s1_def [symmetric] s3_def [symmetric] s4_def [symmetric] not_less hdr_upd_hdr)
  have blocks: "pool_blocks (pool_of s2 ?mp) = (\<lambda>i. start + of_nat i * (16 + n)) ` {..<unat count}"
    by (simp add: pool_blocks_def s2)
  have "unat (120 + mq) = unat mq + 120" using u [of 120] by (simp add: add.commute)
  then have da: "120 + mq \<notin> pool_blocks (pool_of s2 ?mp)"
    using blocks_apart [OF e(14), of "120 + mq"] bs0 d by (auto simp: s2(3-5))
  have k3: "kinv k3" "ipsr k3 = 0" using s3(2) by (simp_all add: sem_ok_def)
  have "pool_inv ?mp ?fs s4"
    by (rule pool_inv_local [OF s2(2)])
      (use k3 s3(3,4) da in \<open>auto simp: s4 add.assoc [of mq] add.commute [of 120] add.commute [of 88]\<close>)
  moreover have "sem_ok ?da s4"
    by (rule sem_ok_frame [OF s3(2)]) (use k3 in \<open>simp_all add: s4 sem_created_def futexes_kept_def\<close>)
  ultimately have "mq_inv mq [] ?fs s4"
    unfolding mq_inv_def using s4 s1(4,5) s2(4,5,10) s3(3) p(1) n(2) da e(5) by (auto simp: osIsResourceValid_def)
  then show ?thesis using new blocks by (intro exI [of _ ?fs] exI [of _ s4]) (simp add: s4 s1(5))
qed

section \<open>The queue as the application sees it\<close>

text \<open>
  A client fills its buffer and sends it, or receives into the buffer and looks at what came,
  without waiting.
\<close>

datatype mq_op = Send word8 "word8 list" | Receive

datatype mq_result = Sent word32 | Received "(word8 \<times> word8 list) option"

definition mq_client :: "port \<Rightarrow> addr \<Rightarrow> addr \<Rightarrow> addr \<Rightarrow> mq_op \<Rightarrow> rtos \<Rightarrow> (mq_result \<times> rtos) option" where
  "mq_client P mq buf pr op s = (case op of
      Send p xs \<Rightarrow> map_option (\<lambda>(status, s). (Sent status, s))
        (osMessageQueuePut P [id] id mq buf p 0 (s\<lparr>bytes := write_bytes buf xs (bytes s)\<rparr>))
    | Receive \<Rightarrow> map_option (\<lambda>(status, s). (Received (if status = osOK
          then Some (bytes s pr, read_bytes (bytes s) buf (msg_size (queue_of s mq))) else None), s))
        (osMessageQueueGet P [id] id mq buf pr 0 s))"

text \<open>The specification: a list of at most \<open>n\<close> messages, the most important first, equals in order of arrival.\<close>

fun spec_queue :: "nat \<Rightarrow> mq_op \<Rightarrow> (word8 \<times> word8 list) list \<Rightarrow> mq_result \<times> (word8 \<times> word8 list) list" where
  "spec_queue n (Send p xs) q =
    (if length q < n then (Sent osOK, insert_before_first (\<lambda>(r, _). r < p) (p, xs) q) else (Sent osErrorResource, q))"
| "spec_queue n Receive [] = (Received None, [])"
| "spec_queue n Receive (m # q) = (Received (Some m), q)"

definition fits_message :: "word32 \<Rightarrow> mq_op \<Rightarrow> bool" where
  "fits_message n op = (case op of Send p xs \<Rightarrow> length xs = unat n | Receive \<Rightarrow> True)"

definition mq_rep :: "addr \<Rightarrow> addr \<Rightarrow> addr \<Rightarrow> word32 \<Rightarrow> word32 \<Rightarrow> rtos \<Rightarrow> (word8 \<times> word8 list) list \<Rightarrow> bool" where
  "mq_rep mq buf pr count n s q \<longleftrightarrow> (\<exists>ms fs. mq_inv mq ms fs s) \<and> msg_size (queue_of s mq) = n \<and>
    capacity (pool_of s (message_pool_at mq)) = count \<and>
    buffer_ok buf pr (pool_blocks (pool_of s (message_pool_at mq))) n \<and>
    contents mq s = map (\<lambda>(p, xs). (ucast p, xs)) q"

lemma mq_inv_bytes [simp]: "mq_inv mq ms fs (s\<lparr>bytes := b\<rparr>) = mq_inv mq ms fs s"
  by (simp add: mq_inv_def pool_inv_def sem_ok_def osIsResourceValid_def)

lemma ucast_less: "(ucast a :: word32) < ucast b \<longleftrightarrow> a < b" for a b :: word8
proof -
  have "unat x < 4294967296" for x :: word8 by (rule order.strict_trans2 [OF unsigned_less]) simp
  then have "unat (ucast x :: word32) = unat x" for x :: word8 by (simp add: unsigned_ucast_eq take_bit_nat_eq_self_iff)
  then show ?thesis by (simp add: word_less_nat_alt)
qed

lemma ucast_low: "ucast ((ucast p :: word32) AND 0xff) = p" for p :: word8
proof -
  have m: "0xff = (mask 8 :: word32)" by (simp add: mask_eq_exp_minus_1)
  show ?thesis unfolding m by (rule bit_word_eqI) (auto simp: bit_simps)
qed

lemma shape_eqD:
  assumes "pool_shape p s' = pool_shape p s"
  shows "capacity (pool_of s' p) = capacity (pool_of s p)" "pool_blocks (pool_of s' p) = pool_blocks (pool_of s p)"
  using arg_cong [OF assms, of capacity] arg_cong [OF assms, of pool_blocks] by (simp_all add: pool_shape_def)

lemma length_contents: "mq_inv mq ms fs s \<Longrightarrow> length (contents mq s) = length ms"
  by (simp add: contents_def mq_inv_def)

lemma send_refines:
  assumes r: "mq_rep mq buf pr count n s q" and v: "length xs = unat n"
  shows "\<exists>s'. mq_client P mq buf pr (Send p xs) s = Some (fst (spec_queue (unat count) (Send p xs) q), s') \<and>
    mq_rep mq buf pr count n s' (snd (spec_queue (unat count) (Send p xs) q))"
proof -
  let ?s = "s\<lparr>bytes := write_bytes buf xs (bytes s)\<rparr>" and ?c = "\<lambda>(p, xs). (ucast p :: word32, xs)"
  from r obtain ms fs where i: "mq_inv mq ms fs s" and d: "msg_size (queue_of s mq) = n"
    "capacity (pool_of s (message_pool_at mq)) = count"
    "buffer_ok buf pr (pool_blocks (pool_of s (message_pool_at mq))) n" "contents mq s = map ?c q"
    by (auto simp: mq_rep_def)
  have i': "mq_inv mq ms fs ?s" using i by simp
  have "apart (message_data_at m) n buf n" if "m \<in> set ms" for m
    using that mq_invD(7) [OF i] d(3) by (auto simp: buffer_ok_def)
  then have cont: "contents mq ?s = contents mq s"
    unfolding contents_def using mq_invD(5) [OF i] d(1) read_write_apart [OF _ v] by auto
  have len: "length q = length ms" using length_contents [OF i] d(4) by simp
  have buf: "buf \<noteq> 0" using d(3) by (simp add: buffer_ok_def)
  show ?thesis
  proof (cases fs)
    case Nil
    then have "\<not> length q < unat count" using mq_invD(11) [OF i] d(2) len by simp
    moreover have "osMessageQueuePut P [id] id mq buf p 0 ?s = Some (osErrorResource, ?s)"
      using osMessageQueuePut_full [of mq ms ?s buf P p] i' Nil buf by simp
    moreover have "mq_rep mq buf pr count n ?s q" unfolding mq_rep_def using i' d cont by auto
    ultimately show ?thesis by (simp add: mq_client_def)
  next
    case (Cons b gs)
    then have "length q < unat count" using mq_invD(11) [OF i] d(2) len by simp
    moreover obtain ms' s' where s': "osMessageQueuePut P [id] id mq buf p 0 ?s = Some (osOK, s')" "mq_inv mq ms' gs s'"
      "contents mq s' = insert_before_first (\<lambda>(q, _). q < ucast p) (ucast p, xs) (contents mq ?s)"
      "pool_shape (message_pool_at mq) s' = pool_shape (message_pool_at mq) s" "msg_size (queue_of s' mq) = n"
      using osMessageQueuePut_ok [of mq ms b gs ?s buf P p] i' Cons buf d(1) v by (auto simp: pool_shape_def)
    moreover have "contents mq s' = map ?c (insert_before_first (\<lambda>(r, _). r < p) (p, xs) q)"
      unfolding s'(3) cont d(4) by (subst map_insert_before_first [where Q = "\<lambda>(q, _). q < ucast p"]) (auto simp: ucast_less)
    moreover have "mq_rep mq buf pr count n s' (insert_before_first (\<lambda>(r, _). r < p) (p, xs) q)"
      unfolding mq_rep_def using s' d(2,3) shape_eqD [OF s'(4)] calculation(7) by auto
    ultimately show ?thesis by (simp add: mq_client_def)
  qed
qed

lemma receive_refines:
  assumes r: "mq_rep mq buf pr count n s q"
  shows "\<exists>s'. mq_client P mq buf pr Receive s = Some (fst (spec_queue (unat count) Receive q), s') \<and>
    mq_rep mq buf pr count n s' (snd (spec_queue (unat count) Receive q))"
proof -
  let ?c = "\<lambda>(p, xs). (ucast p :: word32, xs)"
  from r obtain ms fs where i: "mq_inv mq ms fs s" and d: "msg_size (queue_of s mq) = n"
    "capacity (pool_of s (message_pool_at mq)) = count"
    "buffer_ok buf pr (pool_blocks (pool_of s (message_pool_at mq))) n" "contents mq s = map ?c q"
    by (auto simp: mq_rep_def)
  show ?thesis
  proof (cases q)
    case Nil
    then have "ms = []" using length_contents [OF i] d(4) by simp
    moreover have "buf \<noteq> 0" using d(3) by (simp add: buffer_ok_def)
    ultimately show ?thesis using osMessageQueueGet_empty [of mq fs s buf P pr] i r Nil by (simp add: mq_client_def)
  next
    case (Cons x q')
    then obtain m ms' where ms: "ms = m # ms'" using length_contents [OF i] d(4) by (cases ms) auto
    obtain s' where s': "osMessageQueueGet P [id] id mq buf pr 0 s = Some (osOK, s')" "mq_inv mq ms' (m # fs) s'"
      "contents mq s = (msg_priority s m, read_bytes (bytes s') buf n) # contents mq s'"
      "bytes s' pr = ucast (msg_priority s m AND 0xff)"
      "pool_shape (message_pool_at mq) s' = pool_shape (message_pool_at mq) s" "msg_size (queue_of s' mq) = n"
      using osMessageQueueGet_ok [OF i [unfolded ms], of buf pr P] d by auto
    have "(msg_priority s m, read_bytes (bytes s') buf n) = ?c x" "contents mq s' = map ?c q'"
      using s'(3) d(4) Cons by simp_all
    moreover from this have "(bytes s' pr, read_bytes (bytes s') buf n) = x"
      using s'(4) by (cases x) (simp add: ucast_low)
    moreover have "mq_rep mq buf pr count n s' q'"
      unfolding mq_rep_def using s' d(2,3) shape_eqD [OF s'(5)] calculation(2) by auto
    ultimately show ?thesis using s'(1,6) Cons by (simp add: mq_client_def)
  qed
qed

interpretation mq: refines "mq_client P mq buf pr" "spec_queue (unat count)" "mq_rep mq buf pr count n" "fits_message n"
  for P mq buf pr count n
proof
  fix s q op
  assume r: "mq_rep mq buf pr count n s q" and v: "fits_message n op"
  show "\<exists>s'. mq_client P mq buf pr op s = Some (fst (spec_queue (unat count) op q), s') \<and>
      mq_rep mq buf pr count n s' (snd (spec_queue (unat count) op q))"
    using v send_refines [OF r] receive_refines [OF r] by (cases op) (simp_all add: fits_message_def)
qed

section \<open>Properties\<close>

text \<open>A new queue represents the empty queue.\<close>

lemma new_queue_rep:
  assumes "mq_inv mq [] fs s'" and "length fs = unat count" and "msg_size (queue_of s' mq) = n"
    and "buffer_ok buf pr (pool_blocks (pool_of s' (message_pool_at mq))) n"
  shows "mq_rep mq buf pr count n s' []"
proof -
  have "unat (capacity (pool_of s' (message_pool_at mq))) = unat count" using mq_invD(11) [OF assms(1)] assms(2) by simp
  then have "capacity (pool_of s' (message_pool_at mq)) = count" by (simp only: word_unat_eq_iff)
  then show ?thesis using assms mq_invD(5) [OF assms(1)] by (auto simp: mq_rep_def contents_def)
qed

text \<open>
  C7. A message queue in memory of the application is created empty, and from then on every
  sequence of sends and receives without waiting gets exactly the answers of a bounded list
  ordered by priority: what was sent comes out with its bytes and its priority, the most important
  message first, messages of equal importance in the order they were sent, a send fails exactly when the queue is full and a
  receive exactly when it is empty.
\<close>

theorem message_queue_refines:
  assumes k: "kinv (ker s)" and i: "ipsr (ker s) = 0" and ks: "kernel_set s" and l: "\<And>l. spin_free (locks s l)"
    and n: "n = (msize + 3) AND NOT 3" "unat n + 16 < 2 ^ 32"
    and a: "a_cb_mem attr = mq" "SIZEOF_MESSAGE_QUEUE \<le> a_cb_size attr" "a_mem attr = start" "(16 + n) * count \<le> a_size attr"
    and p: "mq \<noteq> 0" "unat mq + 312 < 2 ^ 32"
    and m: "start \<noteq> 0" "unat start + unat (16 + n) * unat count < 2 ^ 32"
    and d: "unat mq + 312 \<le> unat start \<or> unat start + unat (16 + n) * unat count \<le> unat mq"
    and q: "queues (ker s) (Waiters (mq + 228)) = []" "queues (ker s) (Waiters (mq + 88)) = []"
    and b: "buffer_ok buf pr ((\<lambda>i. start + of_nat i * (16 + n)) ` {..<unat count}) n"
    and v: "\<forall>op\<in>set ops. fits_message n op"
  shows "\<exists>s1 s2. osMessageQueueNew P count msize (Some attr) s = Some (mq, s1) \<and>
    run_ops (mq_client P mq buf pr) ops s1 = Some (fst (run_spec (spec_queue (unat count)) ops []), s2)"
proof -
  obtain fs s1 where s1: "osMessageQueueNew P count msize (Some attr) s = Some (mq, s1)" "mq_inv mq [] fs s1"
    "length fs = unat count" "msg_size (queue_of s1 mq) = n"
    "pool_blocks (pool_of s1 (message_pool_at mq)) = (\<lambda>i. start + of_nat i * (16 + n)) ` {..<unat count}"
    using osMessageQueueNew_static [OF k i ks l n a p m d q, of P] by blast
  have "mq_rep mq buf pr count n s1 []" by (rule new_queue_rep [OF s1(2-4)]) (use b s1(5) in simp)
  from mq.run_refines [OF this v, of P] s1(1) show ?thesis by blast
qed

lemma spec_sends:
  assumes "length q + length ms \<le> n"
  shows "run_spec (spec_queue n) (map (\<lambda>(p, xs). Send p xs) ms) q =
    (map (\<lambda>_. Sent osOK) ms, foldl (\<lambda>q (p, xs). insert_before_first (\<lambda>(r, _). r < p) (p, xs) q) q ms)"
  using assms by (induction ms arbitrary: q) (auto simp: Let_def case_prod_beta)

lemma spec_receives: "run_spec (spec_queue n) (replicate (length q) Receive) q = (map (\<lambda>m. Received (Some m)) q, [])"
  by (induction q) simp_all

text \<open>
  As many messages as the queue holds, sent to an empty queue and then received, come out
  unchanged and sorted by falling priority, with equal priorities in the order of sending.
\<close>

theorem message_queue_sorts:
  assumes r: "mq_rep mq buf pr count n s []" and c: "length ms \<le> unat count"
    and v: "\<forall>(p, xs)\<in>set ms. length xs = unat n"
  shows "\<exists>s'. run_ops (mq_client P mq buf pr) (map (\<lambda>(p, xs). Send p xs) ms @ replicate (length ms) Receive) s =
    Some (map (\<lambda>_. Sent osOK) ms @ map (\<lambda>m. Received (Some m)) (sort_key (\<lambda>(p, _). 255 - unat p) ms), s')"
proof -
  let ?ops = "map (\<lambda>(p, xs). Send p xs) ms @ replicate (length ms) Receive"
  let ?f = "\<lambda>(p :: word8, xs :: word8 list). 255 - unat p"
  have "unat p \<le> 255" for p :: word8
    using unsigned_less [of p, where 'a = nat] by simp
  then have lt: "(\<lambda>(r, _). r < fst x) = (\<lambda>y. ?f x < ?f y)" for x :: "word8 \<times> word8 list"
    by (auto simp: fun_eq_iff word_less_nat_alt case_prod_beta intro!: diff_less_mono2) (metis diff_diff_cancel diff_less_mono2 le_less_trans not_le less_imp_diff_less nat_less_le)
  have "foldl (\<lambda>q (p, xs). insert_before_first (\<lambda>(r, _). r < p) (p, xs) q) [] ms =
      foldl (\<lambda>q x. insert_before_first (\<lambda>y. ?f x < ?f y) x q) [] ms"
    by (rule foldl_cong) (auto simp: lt [symmetric])
  then have srt: "foldl (\<lambda>q (p, xs). insert_before_first (\<lambda>(r, _). r < p) (p, xs) q) [] ms = sort_key ?f ms"
    by (simp only: insert_all_sort_key)
  have "run_spec (spec_queue (unat count)) ?ops [] = (map (\<lambda>_. Sent osOK) ms @ map (\<lambda>m. Received (Some m)) (sort_key ?f ms), [])"
    unfolding run_spec_append using spec_sends [of "[]" ms "unat count"] c spec_receives [of "unat count" "sort_key ?f ms"] srt by simp
  moreover have "\<forall>op\<in>set ?ops. fits_message n op" using v by (auto simp: fits_message_def)
  ultimately show ?thesis using mq.run_refines [OF r, of ?ops P] by auto
qed

definition sample_queue_attr :: os_attr where
  "sample_queue_attr = no_attr\<lparr>a_cb_mem := 0x4000, a_cb_size := 312, a_mem := 0x6000, a_size := 40\<rparr>"

lemma sample_queue_args:
  "kinv (ker sample_rtos)" "ipsr (ker sample_rtos) = 0" "kernel_set sample_rtos" "spin_free (locks sample_rtos l)"
  "(4 :: word32) = (4 + 3) AND NOT 3" "a_cb_mem sample_queue_attr = 0x4000" "SIZEOF_MESSAGE_QUEUE \<le> a_cb_size sample_queue_attr"
  "a_mem sample_queue_attr = 0x6000" "(16 + 4) * 2 \<le> a_size sample_queue_attr"
  "queues (ker sample_rtos) (Waiters (0x4000 + 228)) = []" "queues (ker sample_rtos) (Waiters (0x4000 + 88)) = []"
  using sample_ker_kinv by (simp_all add: sample_queue_attr_def no_attr_def sample_rtos_def sample_ker_def sample_sys_def)

lemma sample_buffer: "buffer_ok 0x7000 0x7100 ((\<lambda>i. 0x6000 + of_nat i * (16 + 4)) ` {..<unat (2 :: word32)}) 4"
proof -
  have "{..<unat (2 :: word32)} = {0, 1}" by auto
  moreover have "apart 0x6010 4 0x7000 4" "apart 0x6010 4 0x7100 1" "apart 0x6024 4 0x7000 4" "apart 0x6024 4 0x7100 1"
    "apart 0x7000 4 0x7100 1" by (rule apartI; simp)+
  ultimately show ?thesis by (simp add: buffer_ok_def)
qed

theorem message_queue_refines_witness:
  "\<exists>s1 s2. osMessageQueueNew sample_port 2 4 (Some sample_queue_attr) sample_rtos = Some (0x4000, s1) \<and>
    run_ops (mq_client sample_port 0x4000 0x7000 0x7100)
      [Send 1 [1, 2, 3, 4], Send 9 [5, 6, 7, 8], Send 3 [0, 0, 0, 0], Receive, Receive, Receive] s1 =
    Some ([Sent osOK, Sent osOK, Sent osErrorResource, Received (Some (9, [5, 6, 7, 8])),
      Received (Some (1, [1, 2, 3, 4])), Received None], s2)"
  using message_queue_refines [OF sample_queue_args(1-3) sample_queue_args(4) sample_queue_args(5) _ sample_queue_args(6-9)
      _ _ _ _ _ sample_queue_args(10,11) sample_buffer,
      of "[Send 1 [1, 2, 3, 4], Send 9 [5, 6, 7, 8], Send 3 [0, 0, 0, 0], Receive, Receive, Receive]" sample_port]
  by (simp add: fits_message_def Let_def del: run_ops.simps)

theorem message_queue_sorts_witness:
  "\<exists>s1 s2. osMessageQueueNew sample_port 2 4 (Some sample_queue_attr) sample_rtos = Some (0x4000, s1) \<and>
    run_ops (mq_client sample_port 0x4000 0x7000 0x7100) [Send 1 [1, 2, 3, 4], Send 9 [5, 6, 7, 8], Receive, Receive] s1 =
    Some ([Sent osOK, Sent osOK, Received (Some (9, [5, 6, 7, 8])), Received (Some (1, [1, 2, 3, 4]))], s2)"
proof -
  obtain fs s1 where s1: "osMessageQueueNew sample_port 2 4 (Some sample_queue_attr) sample_rtos = Some (0x4000, s1)"
    "mq_inv 0x4000 [] fs s1" "length fs = unat (2 :: word32)" "msg_size (queue_of s1 0x4000) = 4"
    "pool_blocks (pool_of s1 (message_pool_at 0x4000)) = (\<lambda>i. 0x6000 + of_nat i * (16 + 4)) ` {..<unat (2 :: word32)}"
    using osMessageQueueNew_static [OF sample_queue_args(1-3) sample_queue_args(4) sample_queue_args(5) _ sample_queue_args(6-9)
        _ _ _ _ _ sample_queue_args(10,11), of sample_port] by auto
  have r: "mq_rep 0x4000 0x7000 0x7100 2 4 s1 []"
    by (rule new_queue_rep [OF s1(2-4)]) (use sample_buffer in \<open>simp only: s1(5)\<close>)
  show ?thesis
    using message_queue_sorts [OF r, of "[(1, [1, 2, 3, 4]), (9, [5, 6, 7, 8])]" sample_port] s1(1)
    by (simp del: run_ops.simps)
qed

end
