(* ===== verification/Rtos_Kernel.thy ===== *)
theory Rtos_Kernel
  imports Rtos_Bytes
begin

text \<open>
  The kernel, \<open>cmsis-rtos2-kernel.c\<close> (its lists of resources are in Rtos_State), and the delays of
  \<open>cmsis-rtos2-generic-wait.c\<close>.
\<close>

section \<open>Start-up and state\<close>

text \<open>The lock of the kernel is cleared before anything is checked.\<close>

definition osKernelInitialize :: "port \<Rightarrow> rtos \<Rightarrow> word32 \<times> rtos" where
  "osKernelInitialize P s =
    (let s = s\<lparr>locks := (locks s)(KernelLock := 0)\<rparr>
     in if osKernelContextIsValid P False 0 s \<noteq> osOK then (osKernelContextIsValid P False 0 s, s)
        else if kernel_set s then (osError, s)
        else let (status, k) = scheduler_init True (p_tls_size P) (ker s);
                 s = s\<lparr>ker := k\<rparr>
             in if status <s 0 then (osError, s)
                else let s = s\<lparr>resources := (\<lambda>_. []),
                            locks := (\<lambda>l. case l of ResourceLock _ \<Rightarrow> 0 | _ \<Rightarrow> locks s l)\<rparr>
                     in (osOK, s\<lparr>k_state := osKernelReady, kernel_set := True\<rparr>))"

text \<open>
  \<open>snprintf\<close> of the identification, then the terminator at the end of the buffer. The version is
  written in octal digits; it is \<open>None\<close> where the application does not ask for it.
\<close>

definition cstring :: "string \<Rightarrow> word8 list" where
  "cstring xs = map of_char xs @ [0]"

definition osKernelGetInfo :: "bool \<Rightarrow> addr \<Rightarrow> word32 \<Rightarrow> rtos \<Rightarrow> word32 \<times> (word32 \<times> word32) option \<times> rtos" where
  "osKernelGetInfo version id_buf id_size s =
    (let v = (if version then Some (524803, 524803) else None);
         s = (if id_buf \<noteq> 0
              then let text = cstring ''rtos-toolkit'';
                       text = (if length text \<le> unat id_size then text
                               else if id_size = 0 then [] else take (unat id_size - 1) text @ [0]);
                       s = s\<lparr>bytes := write_bytes id_buf text (bytes s)\<rparr>
                   in s\<lparr>bytes := (bytes s)(id_buf + (id_size - 1) := 0)\<rparr>
              else s)
     in (osOK, v, s))"

definition osKernelGetState :: "rtos \<Rightarrow> kernel_state" where
  "osKernelGetState s = (if \<not> kernel_set s then osKernelInactive else k_state s)"

text \<open>
  The scheduler runs until it shuts down: \<open>run\<close> is all that happens meanwhile, with the status the
  start call returns.
\<close>

definition osKernelStart ::
  "port \<Rightarrow> (sys \<Rightarrow> sys) \<Rightarrow> (sys \<Rightarrow> sys) \<Rightarrow> (rtos \<Rightarrow> word32 \<times> rtos) \<Rightarrow> rtos \<Rightarrow> word32 \<times> rtos" where
  "osKernelStart P startup_hook shutdown_hook run s =
    (if osKernelContextIsValid P False 0 s \<noteq> osOK then (osKernelContextIsValid P False 0 s, s)
     else if \<not> kernel_set s \<or> k_state s \<noteq> osKernelReady then (osError, s)
     else let s = s\<lparr>k_state := osKernelRunning\<rparr>;
              (status, s) = (case scheduler_run_begin startup_hook (p_frame P) (ker s) of
                  Inl (status, k) \<Rightarrow> (status, s\<lparr>ker := k\<rparr>)
                | Inr k \<Rightarrow> let (result, s) = run (s\<lparr>ker := k\<rparr>);
                               (status, k) = scheduler_run_end shutdown_hook result (ker s)
                           in (status, s\<lparr>ker := k\<rparr>))
          in (if status = 0 then osOK else osError, s))"

section \<open>The kernel lock\<close>

text \<open>A scheduler operation inside a section of the kernel.\<close>

definition in_scheduler :: "(sys \<Rightarrow> (word32 \<times> sys) option) \<Rightarrow> rtos \<Rightarrow> rtos option" where
  "in_scheduler f s = map_option (\<lambda>(_, k). s\<lparr>ker := k\<rparr>) (f (ker s))"

definition lock_allowed :: "rtos \<Rightarrow> bool" where
  "lock_allowed s \<longleftrightarrow> k_state s = osKernelRunning \<or> k_state s = osKernelLocked"

definition osKernelLock :: "port \<Rightarrow> rtos \<Rightarrow> (word32 \<times> rtos) option" where
  "osKernelLock P s =
    (if osKernelContextIsValid P False 0 s \<noteq> osOK then Some (osKernelContextIsValid P False 0 s, s)
     else do {
       s \<leftarrow> check (kernel_set s) s;
       if \<not> lock_allowed s then Some (osError, s)
       else locked_section KernelLock (\<lambda>s. do {
         let prev = k_locked s;
         let s = s\<lparr>k_locked := 1\<rparr>;
         let s = s\<lparr>k_state := osKernelLocked\<rparr>;
         s \<leftarrow> (if prev = 0 then in_scheduler scheduler_lock s else Some s);
         Some (prev, s)
       }) s
     })"

definition osKernelUnlock :: "port \<Rightarrow> rtos \<Rightarrow> (word32 \<times> rtos) option" where
  "osKernelUnlock P s =
    (if osKernelContextIsValid P False 0 s \<noteq> osOK then Some (osKernelContextIsValid P False 0 s, s)
     else do {
       s \<leftarrow> check (kernel_set s) s;
       if \<not> lock_allowed s then Some (osError, s)
       else locked_section KernelLock (\<lambda>s. do {
         let prev = k_locked s;
         let s = s\<lparr>k_locked := 0\<rparr>;
         let s = s\<lparr>k_state := osKernelRunning\<rparr>;
         s \<leftarrow> (if prev \<noteq> 0 then in_scheduler scheduler_unlock s else Some s);
         Some (prev, s)
       }) s
     })"

text \<open>The value returned is read after the section: the new lock, not the previous one.\<close>

definition osKernelRestoreLock :: "port \<Rightarrow> word32 \<Rightarrow> rtos \<Rightarrow> (word32 \<times> rtos) option" where
  "osKernelRestoreLock P lock s =
    (if osKernelContextIsValid P False 0 s \<noteq> osOK then Some (osKernelContextIsValid P False 0 s, s)
     else do {
       s \<leftarrow> check (kernel_set s) s;
       if \<not> lock_allowed s then Some (osError, s)
       else do {
         (_, s) \<leftarrow> locked_section KernelLock (\<lambda>s. do {
           let s = s\<lparr>k_locked := lock\<rparr>;
           s \<leftarrow> in_scheduler (if lock \<noteq> 0 then scheduler_lock else scheduler_unlock) s;
           Some ((), s\<lparr>k_state := (if lock \<noteq> 0 then osKernelLocked else osKernelRunning)\<rparr>)
         }) s;
         Some (k_locked s, s)
       }
     })"

definition osKernelSuspend :: "port \<Rightarrow> rtos \<Rightarrow> (word32 \<times> rtos) option" where
  "osKernelSuspend P s =
    (if osKernelContextIsValid P False 0 s \<noteq> osOK then Some (osKernelContextIsValid P False 0 s, s)
     else do {
       s \<leftarrow> check (kernel_set s) s;
       if k_state s = osKernelSuspended then Some (0, s)
       else Some (osWaitForever, s\<lparr>k_state := osKernelSuspended\<rparr>)
     })"

definition osKernelResume :: "port \<Rightarrow> word32 \<Rightarrow> rtos \<Rightarrow> rtos option" where
  "osKernelResume P sleep_ticks s =
    (if osKernelContextIsValid P False 0 s \<noteq> osOK then Some s
     else do {
       s \<leftarrow> check (kernel_set s) s;
       Some (s\<lparr>k_state := osKernelRunning\<rparr>)
     })"

section \<open>Time\<close>

definition osKernelGetTickCount :: "rtos \<Rightarrow> word32" where
  "osKernelGetTickCount s = scheduler_get_ticks (ker s)"

definition osKernelGetTickFreq :: word32 where
  "osKernelGetTickFreq = 1000"

text \<open>\<open>load\<close> and \<open>val\<close> are what the SysTick registers read, \<open>clock\<close> is \<open>SystemCoreClock\<close>.\<close>

definition osKernelGetSysTimerCount :: "word32 \<Rightarrow> word32 \<Rightarrow> rtos \<Rightarrow> word32" where
  "osKernelGetSysTimerCount load val s =
    (let sys_ticks = load - val in sys_ticks + osKernelGetTickCount s * (load + 1))"

definition osKernelGetSysTimerFreq :: "word32 \<Rightarrow> word32" where
  "osKernelGetSysTimerFreq clock = clock"

text \<open>
  The suspend call of the scheduler seen from the layer: \<open>run\<close> is what the whole system does until
  the caller runs again.
\<close>

definition suspend_call :: "port \<Rightarrow> (rtos \<Rightarrow> rtos) \<Rightarrow> addr \<Rightarrow> word32 \<Rightarrow> rtos \<Rightarrow> (word32 \<times> rtos) option" where
  "suspend_call P run task ticks s = do {
     caller \<leftarrow> scheduler_task (ker s);
     (frame, k) \<leftarrow> scheduler_suspend_svc ((p_frame P)\<lparr>sf_r0 := task, sf_r1 := ticks\<rparr>) (ker s);
     let s = s\<lparr>ker := k\<rparr>;
     Some (if current_task (this k) = caller then (sf_r0 frame, s)
           else let s = run s in (sf_r0 (psp (task_of (ker s) caller)), s))
   }"

text \<open>\<open>scheduler_sleep\<close> in the layer.\<close>

definition rtos_sleep :: "port \<Rightarrow> (rtos \<Rightarrow> rtos) \<Rightarrow> word32 \<Rightarrow> rtos \<Rightarrow> (word32 \<times> rtos) option" where
  "rtos_sleep P run ticks s =
    (if ticks = 0 then map_option (\<lambda>k. (0, run (s\<lparr>ker := k\<rparr>))) (scheduler_yield (p_eframe P) (ker s))
     else do {
       task \<leftarrow> scheduler_task (ker s);
       (status, s) \<leftarrow> suspend_call P run task ticks s;
       if status <s 0 \<and> status \<noteq> - ETIMEDOUT then Some (status, s\<lparr>ker := (ker s)\<lparr>errno := - status\<rparr>\<rparr>)
       else Some (0, s)
     })"

definition osDelay :: "port \<Rightarrow> (rtos \<Rightarrow> rtos) \<Rightarrow> word32 \<Rightarrow> rtos \<Rightarrow> (word32 \<times> rtos) option" where
  "osDelay P run ticks s =
    (if ticks = 0 then Some (osErrorParameter, s)
     else if osKernelGetState s \<noteq> osKernelRunning then Some (osError, s)
     else if osKernelContextIsValid P False ticks s \<noteq> osOK then Some (osKernelContextIsValid P False ticks s, s)
     else do {
       (status, s) \<leftarrow> rtos_sleep P run ticks s;
       Some (if status <s 0 then osError else osOK, s)
     })"

definition osDelayUntil :: "port \<Rightarrow> (rtos \<Rightarrow> rtos) \<Rightarrow> word32 \<Rightarrow> rtos \<Rightarrow> (word32 \<times> rtos) option" where
  "osDelayUntil P run ticks s =
    (if ticks = 0 then Some (osErrorParameter, s)
     else if osKernelGetState s \<noteq> osKernelRunning then Some (osError, s)
     else if osKernelContextIsValid P False ticks s \<noteq> osOK then Some (osKernelContextIsValid P False ticks s, s)
     else do {
       let msecs = ticks - scheduler_get_ticks (ker s);
       (status, s) \<leftarrow> rtos_sleep P run msecs s;
       Some (if status <s 0 then osError else osOK, s)
     })"

section \<open>Once functions and error numbers\<close>

text \<open>
  The futex is a variable of the caller, at \<open>f\<close> on its stack. \<open>env\<close> is what comes between the first
  look at the flag and the claim; each element of \<open>envs\<close> is one wait.
\<close>

fun call_once_wait :: "port \<Rightarrow> (rtos \<Rightarrow> rtos) list \<Rightarrow> addr \<Rightarrow> addr \<Rightarrow> rtos \<Rightarrow> rtos option" where
  "call_once_wait P envs f flag s =
    (let (stored, expected, s) = compare_exchange flag 2 2 s
     in if stored then Some s
        else (case envs of
            [] \<Rightarrow> None
          | env # envs \<Rightarrow> do {
              (_, s) \<leftarrow> rtos_futex_wait P env f expected SCHEDULER_WAIT_FOREVER s;
              call_once_wait P envs f flag s
            }))"

declare call_once_wait.simps [simp del]

definition osCallOnce ::
  "port \<Rightarrow> (rtos \<Rightarrow> rtos) \<Rightarrow> (rtos \<Rightarrow> rtos) list \<Rightarrow> addr \<Rightarrow> addr \<Rightarrow> (rtos \<Rightarrow> rtos option) \<Rightarrow> rtos \<Rightarrow> rtos option" where
  "osCallOnce P env envs f flag func s =
    (if mem_word s flag = 2 then Some s
     else do {
       s \<leftarrow> rtos_futex_init f flag 0 s;
       let (stored, _, s) = compare_exchange flag 0 1 (env s);
       if \<not> stored then call_once_wait P envs f flag s
       else do {
         s \<leftarrow> func s;
         let s = mem_upd flag 2 s;
         (_, s) \<leftarrow> rtos_futex_wake P f True s;
         Some s
       }
     })"

text \<open>With \<open>__ELASTERROR\<close> of the C library at 2000.\<close>

definition errno_from_rtos :: "word32 \<Rightarrow> word32" where
  "errno_from_rtos status =
    (if status = osErrorTimeout then ETIMEDOUT
     else if status = osErrorResource then 2003
     else if status = osErrorParameter then EINVAL
     else if status = osErrorNoMemory then 12
     else if status = osErrorISR then 134
     else 2001)"

section \<open>The lock in effect\<close>

text \<open>The scheduler lock counts down; below 0 no switch happens.\<close>

definition sched_locked :: "rtos \<Rightarrow> word32" where
  "sched_locked s = locked (sched (ker s))"

definition shift_lock :: "word32 \<Rightarrow> rtos \<Rightarrow> rtos" where
  "shift_lock d s = s\<lparr>ker := sched_upd (\<lambda>c. c\<lparr>locked := locked c + d\<rparr>) (ker s)\<rparr>"

lemma shift_lock_masked: "shift_lock d (set_masked p L s) = set_masked p L (shift_lock d s)"
  by (simp add: shift_lock_def set_masked_def sched_upd_def)

lemma shift_lock_sel [simp]:
  "ipsr (ker (shift_lock d s)) = ipsr (ker s)" "primask (ker (shift_lock d s)) = primask (ker s)"
  "locks (shift_lock d s) = locks s" "kernel_set (shift_lock d s) = kernel_set s" "k_state (shift_lock d s) = k_state s"
  "k_locked (shift_lock d s) = k_locked s" "scheduler_is_running (ker (shift_lock d s)) = scheduler_is_running (ker s)"
  "sched_locked (shift_lock d s) = sched_locked s + d"
  by (simp_all add: shift_lock_def sched_upd_def scheduler_is_running_def sched_locked_def)

lemma in_scheduler_lock:
  assumes "scheduler_is_running (ker s)"
  shows "in_scheduler scheduler_lock s = Some (shift_lock (- 1) s)" "in_scheduler scheduler_unlock s = Some (shift_lock 1 s)"
  using assms by (simp_all add: in_scheduler_def scheduler_lock_def scheduler_unlock_def shift_lock_def)

lemma running_masked [simp]: "scheduler_is_running (ker (set_masked p L s)) = scheduler_is_running (ker s)"
  by (simp add: scheduler_is_running_def set_masked_def)

text \<open>A kernel whose lock can be used.\<close>

definition kernel_ok :: "rtos \<Rightarrow> bool" where
  "kernel_ok s \<longleftrightarrow> kernel_set s \<and> ipsr (ker s) = 0 \<and> spin_free (locks s KernelLock) \<and> scheduler_is_running (ker s) \<and>
    lock_allowed s"

definition kernel_locked :: "word32 \<Rightarrow> word32 \<Rightarrow> rtos \<Rightarrow> rtos" where
  "kernel_locked lock d s = cycle_lock KernelLock
     ((shift_lock d s)\<lparr>k_locked := lock, k_state := (if lock \<noteq> 0 then osKernelLocked else osKernelRunning)\<rparr>)"

lemma kernel_locked_sel [simp]:
  "k_locked (kernel_locked lock d s) = lock" "k_state (kernel_locked lock d s) = (if lock \<noteq> 0 then osKernelLocked else osKernelRunning)"
  "sched_locked (kernel_locked lock d s) = sched_locked s + d" "kernel_ok s \<Longrightarrow> kernel_ok (kernel_locked lock d s)"
proof -
  show "sched_locked (kernel_locked lock d s) = sched_locked s + d"
    by (simp add: kernel_locked_def sched_locked_def shift_lock_def sched_upd_def)
qed (simp_all add: kernel_locked_def kernel_ok_def lock_allowed_def)

lemma shift_lock_0 [simp]: "shift_lock 0 s = s"
  by (simp add: shift_lock_def sched_upd_def)

lemma shift_lock_upd:
  "(shift_lock d s)\<lparr>k_locked := l\<rparr> = shift_lock d (s\<lparr>k_locked := l\<rparr>)"
  "(shift_lock d s)\<lparr>k_state := c\<rparr> = shift_lock d (s\<lparr>k_state := c\<rparr>)"
  by (simp_all add: shift_lock_def)

lemmas kernel_section = kernel_ok_def set_masked_upd in_scheduler_lock shift_lock_masked shift_lock_upd

lemma osKernelLock_ok:
  assumes "kernel_ok s"
  shows "osKernelLock P s = Some (k_locked s, kernel_locked 1 (if k_locked s = 0 then - 1 else 0) s)"
proof -
  let ?s = "(shift_lock (if k_locked s = 0 then - 1 else 0) s)\<lparr>k_locked := 1, k_state := osKernelLocked\<rparr>"
  have "locked_section KernelLock (\<lambda>s. do {
         let prev = k_locked s;
         let s = s\<lparr>k_locked := 1\<rparr>;
         let s = s\<lparr>k_state := osKernelLocked\<rparr>;
         s \<leftarrow> (if prev = 0 then in_scheduler scheduler_lock s else Some s);
         Some (prev, s)
       }) s = Some (k_locked s, cycle_lock KernelLock ?s)"
    by (rule locked_section_free) (use assms in \<open>simp_all add: kernel_section\<close>)
  then show ?thesis using assms by (simp add: osKernelLock_def kernel_ok_def kernel_locked_def)
qed

lemma osKernelUnlock_ok:
  assumes "kernel_ok s"
  shows "osKernelUnlock P s = Some (k_locked s, kernel_locked 0 (if k_locked s \<noteq> 0 then 1 else 0) s)"
proof -
  let ?s = "(shift_lock (if k_locked s \<noteq> 0 then 1 else 0) s)\<lparr>k_locked := 0, k_state := osKernelRunning\<rparr>"
  have "locked_section KernelLock (\<lambda>s. do {
         let prev = k_locked s;
         let s = s\<lparr>k_locked := 0\<rparr>;
         let s = s\<lparr>k_state := osKernelRunning\<rparr>;
         s \<leftarrow> (if prev \<noteq> 0 then in_scheduler scheduler_unlock s else Some s);
         Some (prev, s)
       }) s = Some (k_locked s, cycle_lock KernelLock ?s)"
    by (rule locked_section_free) (use assms in \<open>simp_all add: kernel_section\<close>)
  then show ?thesis using assms by (simp add: osKernelUnlock_def kernel_ok_def kernel_locked_def)
qed

lemma osKernelRestoreLock_ok:
  assumes "kernel_ok s"
  shows "osKernelRestoreLock P lock s = Some (lock, kernel_locked lock (if lock \<noteq> 0 then - 1 else 1) s)"
proof -
  let ?s = "(shift_lock (if lock \<noteq> 0 then - 1 else 1) s)\<lparr>k_locked := lock,
    k_state := (if lock \<noteq> 0 then osKernelLocked else osKernelRunning)\<rparr>"
  have "locked_section KernelLock (\<lambda>s. do {
           let s = s\<lparr>k_locked := lock\<rparr>;
           s \<leftarrow> in_scheduler (if lock \<noteq> 0 then scheduler_lock else scheduler_unlock) s;
           Some ((), s\<lparr>k_state := (if lock \<noteq> 0 then osKernelLocked else osKernelRunning)\<rparr>)
         }) s = Some ((), cycle_lock KernelLock ?s)"
    by (rule locked_section_free) (use assms in \<open>simp_all add: kernel_section\<close>)
  then show ?thesis using assms by (simp add: osKernelRestoreLock_def kernel_ok_def kernel_locked_def)
qed

section \<open>Properties\<close>

text \<open>
  Locking and unlocking the kernel is a round trip for the scheduler. But the idiom of the
  interface for nested sections, \<open>lock = osKernelLock (); ... osKernelRestoreLock (lock)\<close>, is not:
  inside an outer locked section the restore locks the scheduler once more, and after the outer
  unlock the kernel says it runs while the scheduler stays locked.
\<close>

theorem nested_restore_leaves_locked:
  assumes o: "kernel_ok s" and l: "k_locked s = 0"
  shows "\<exists>s1 s2 s3 s4 s5. osKernelLock P s = Some (0, s1) \<and>
    osKernelUnlock P s1 = Some (1, s2) \<and> sched_locked s2 = sched_locked s \<and>
    osKernelLock P s1 = Some (1, s3) \<and> osKernelRestoreLock P 1 s3 = Some (1, s4) \<and>
    osKernelUnlock P s4 = Some (1, s5) \<and> osKernelGetState s5 = osKernelRunning \<and> k_locked s5 = 0 \<and>
    sched_locked s5 = sched_locked s - 1"
proof -
  define s1 where "s1 = kernel_locked 1 (- 1) s"
  define s3 where "s3 = kernel_locked 1 0 s1"
  define s4 where "s4 = kernel_locked 1 (- 1) s3"
  define s5 where "s5 = kernel_locked 0 1 s4"
  have ok: "kernel_ok s1" "kernel_ok s3" "kernel_ok s4" "kernel_ok s5" using o by (simp_all add: s1_def s3_def s4_def s5_def)
  have "osKernelLock P s = Some (0, s1)" using osKernelLock_ok [OF o, of P] l by (simp add: s1_def)
  moreover have "osKernelUnlock P s1 = Some (1, kernel_locked 0 1 s1)" using osKernelUnlock_ok [OF ok(1), of P] by (simp add: s1_def)
  moreover have "osKernelLock P s1 = Some (1, s3)" using osKernelLock_ok [OF ok(1), of P] by (simp add: s3_def) (simp add: s1_def)
  moreover have "osKernelRestoreLock P 1 s3 = Some (1, s4)" using osKernelRestoreLock_ok [OF ok(2), of P 1] by (simp add: s4_def)
  moreover have "osKernelUnlock P s4 = Some (1, s5)" using osKernelUnlock_ok [OF ok(3), of P] by (simp add: s5_def) (simp add: s4_def)
  moreover have "osKernelGetState s5 = osKernelRunning" "k_locked s5 = 0" "sched_locked s5 = sched_locked s - 1"
    "sched_locked (kernel_locked 0 1 s1) = sched_locked s"
    using ok(4) by (simp_all add: osKernelGetState_def kernel_ok_def s5_def s4_def s3_def s1_def)
  ultimately show ?thesis by blast
qed

lemma sample_kernel_ok: "kernel_ok sample_rtos"
  by (simp add: kernel_ok_def sample_rtos_def lock_allowed_def scheduler_is_running_def sample_ker_def sample_sys_def)

theorem nested_restore_leaves_locked_witness:
  "\<exists>s1 s3 s4 s5. osKernelLock sample_port sample_rtos = Some (0, s1) \<and> osKernelLock sample_port s1 = Some (1, s3) \<and>
    osKernelRestoreLock sample_port 1 s3 = Some (1, s4) \<and> osKernelUnlock sample_port s4 = Some (1, s5) \<and>
    osKernelGetState s5 = osKernelRunning \<and> sched_locked s5 <s 0"
  using nested_restore_leaves_locked [OF sample_kernel_ok, of sample_port]
  by (auto simp: sample_rtos_def sched_locked_def sample_ker_def sample_sys_def)

text \<open>
  The waiters of a once function wait on futexes of their own. When the first caller is done, it
  marks the flag and wakes its own futex: a caller that waits meanwhile is not woken, it stays
  blocked with no timeout although the function has run.
\<close>

theorem call_once_strands_waiters:
  assumes flag: "mem_word s flag = 0" and f: "f \<noteq> 0" "g \<noteq> f"
    and i: "rtos_futex_init f flag 0 s = Some s1" and func: "func (mem_upd flag 1 s1) = Some s2"
    and k: "kinv (ker s2)" "ipsr (ker s2) = 0" "futex_plain f (ker s2)"
    and w: "queues (ker s2) (Waiters g) = t # ts" "t \<notin> set (queues (ker s2) (Waiters f))"
  shows "\<exists>s'. osCallOnce P id envs f flag func s = Some s' \<and> mem_word s' flag = 2 \<and>
    queues (ker s') (Waiters g) = t # ts \<and> task_of (ker s') t = task_of (ker s2) t"
proof -
  have s1: "mem_word s1 flag = 0"
    using f(1) flag i by (auto simp: rtos_futex_init_def scheduler_futex_init_def Let_def)
  define k2 where "k2 = (ker s2)\<lparr>mem := (mem (ker s2))(flag := 2)\<rparr>"
  have kk: "kinv k2" "ipsr k2 = 0" "futex_plain f k2" "queues k2 = queues (ker s2)" "task_of k2 = task_of (ker s2)"
    using k by (simp_all add: k2_def futex_plain_def)
  obtain k' where k': "scheduler_futex_wake (p_eframe P) f True k2 = Some (of_nat (length (queues k2 (Waiters f))), k')"
    "plain_woken f (length (queues k2 (Waiters f))) k2 k'"
    using scheduler_futex_wake_plain [OF kk(1-3), of _ True "p_eframe P"] by auto
  have "osCallOnce P id envs f flag func s = Some (s2\<lparr>ker := k'\<rparr>)"
    using flag i s1 func k'(1) by (simp add: osCallOnce_def compare_exchange_def rtos_futex_wake_def mem_upd_def k2_def)
  moreover have "queues k' (Waiters g) = t # ts" "task_of k' t = task_of (ker s2) t" "mem k' flag = 2"
    using k'(2) f(2) w kk(4,5) by (auto simp: plain_woken_def k2_def)
  ultimately show ?thesis by simp
qed

theorem call_once_strands_waiters_witness:
  "\<exists>s'. osCallOnce sample_port id [] 0x9000 0x8000 Some sample_rtos = Some s' \<and> mem_word s' 0x8000 = 2 \<and>
    queues (ker s') (Waiters 0x1000) = [0x300] \<and> state_of (ker s') 0x300 = TASK_BLOCKED"
proof -
  have q: "queues sample_ker (Waiters 0x9000) = []" "queues sample_ker (Waiters 0x1000) = [0x300]"
    "state_of sample_ker 0x300 = TASK_BLOCKED"
    by (simp_all add: sample_ker_def sample_sys_def sample_task_def)
  obtain w where w: "scheduler_futex_init 0x9000 0x8000 0 sample_ker = Some (sample_ker\<lparr>futex_of := (futex_of sample_ker)(0x9000 :=
      \<lparr>f_value = 0x8000, f_flags = 0, f_marker = SCHEDULER_FUTEX_MARKER\<rparr>), owned := w\<rparr>)"
    "kinv (sample_ker\<lparr>futex_of := (futex_of sample_ker)(0x9000 :=
      \<lparr>f_value = 0x8000, f_flags = 0, f_marker = SCHEDULER_FUTEX_MARKER\<rparr>), owned := w\<rparr>)"
    using kinv_futex_init [OF sample_ker_kinv q(1), of "0x8000"] by auto
  let ?s1 = "sample_rtos\<lparr>ker := sample_ker\<lparr>futex_of := (futex_of sample_ker)(0x9000 :=
      \<lparr>f_value = 0x8000, f_flags = 0, f_marker = SCHEDULER_FUTEX_MARKER\<rparr>), owned := w\<rparr>\<rparr>"
  have i: "rtos_futex_init 0x9000 0x8000 0 sample_rtos = Some ?s1" using w(1) by (simp add: rtos_futex_init_def sample_rtos_def)
  have "mem_word sample_rtos 0x8000 = 0" by (simp add: sample_rtos_def)
  from call_once_strands_waiters [where func = Some and g = "0x1000" and t = "0x300" and P = sample_port and envs = "[]" and ts = "[]",
      OF this _ _ i refl] show ?thesis
    using w(2) q by (auto simp: futex_plain_def)
qed

end
