(* ===== verification/Rtos_Thread.thy ===== *)
theory Rtos_Thread
  imports Rtos_Kernel Rtos_Mutex Rtos_Event_Flags
begin

text \<open>
  Threads, \<open>cmsis-rtos2-thread.c\<close>. A thread has a task of the scheduler, laid over the start of its
  stack, and two sets of event flags: its own and the one a joiner waits on. Detached threads
  that have ended are cleaned up by a reaper thread.
\<close>

section \<open>Attributes\<close>

abbreviation (input) RTOS_REAPER_EXIT :: word32 where "RTOS_REAPER_EXIT \<equiv> 1"
abbreviation (input) RTOS_REAPER_CLEAN :: word32 where "RTOS_REAPER_CLEAN \<equiv> 2"
abbreviation (input) RTOS_THREAD_JOINED :: word32 where "RTOS_THREAD_JOINED \<equiv> 0x40000000"
abbreviation (input) RTOS_DEFAULT_STACK_SIZE :: word32 where "RTOS_DEFAULT_STACK_SIZE \<equiv> 1024"
abbreviation (input) SIZEOF_SCHEDULER_FRAME :: word32 where "SIZEOF_SCHEDULER_FRAME \<equiv> 72"

abbreviation (input) osPriorityNone :: word32 where "osPriorityNone \<equiv> 0"
abbreviation (input) osPriorityIdle :: word32 where "osPriorityIdle \<equiv> 1"
abbreviation (input) osPriorityNormal :: word32 where "osPriorityNormal \<equiv> 24"
abbreviation (input) osPriorityISR :: word32 where "osPriorityISR \<equiv> 56"
abbreviation (input) osPriorityError :: word32 where "osPriorityError \<equiv> 0xffffffff"

datatype thread_state =
  osThreadReady | osThreadRunning | osThreadBlocked | osThreadTerminated | osThreadError

definition osSchedulerPriority :: "word32 \<Rightarrow> word32" where
  "osSchedulerPriority rtos2_priority = osPriorityISR - rtos2_priority"

definition osKernelPriority :: "word32 \<Rightarrow> word32" where
  "osKernelPriority scheduler_priority = osPriorityISR - scheduler_priority"

definition osThreadMinimumStackSize :: "port \<Rightarrow> word32" where
  "osThreadMinimumStackSize P = SIZEOF_TASK + p_tls_size P + SIZEOF_SCHEDULER_FRAME + 8"

definition thread_upd :: "addr \<Rightarrow> (rtos_thread \<Rightarrow> rtos_thread) \<Rightarrow> rtos \<Rightarrow> rtos" where
  "thread_upd thread f s = s\<lparr>thread_of := (thread_of s)(thread := f (thread_of s thread))\<rparr>"

section \<open>Creation\<close>

text \<open>The labels at the end of \<open>osThreadNew\<close>; the status of each step is ignored.\<close>

definition delete_thread :: "port \<Rightarrow> addr \<Rightarrow> rtos \<Rightarrow> (addr \<times> rtos) option" where
  "delete_thread P new s = Some (0, release_dynamic P new s)"

definition delete_flags :: "port \<Rightarrow> addr \<Rightarrow> rtos \<Rightarrow> (addr \<times> rtos) option" where
  "delete_flags P new s = do {
     (_, s) \<leftarrow> osEventFlagsDelete P (thread_flags_at new) s;
     delete_thread P new s
   }"

definition delete_joiner :: "port \<Rightarrow> addr \<Rightarrow> rtos \<Rightarrow> (addr \<times> rtos) option" where
  "delete_joiner P new s = do {
     (_, s) \<leftarrow> osEventFlagsDelete P (joiner_at new) s;
     delete_flags P new s
   }"

definition remove_resource :: "port \<Rightarrow> addr \<Rightarrow> rtos \<Rightarrow> (addr \<times> rtos) option" where
  "remove_resource P new s = do {
     (_, s) \<leftarrow> osKernelResourceRemove P osResourceThread (new + resource_offset osResourceThread) s;
     delete_joiner P new s
   }"

definition thread_descriptor :: "port \<Rightarrow> addr \<Rightarrow> word32 \<Rightarrow> word32 \<Rightarrow> task_descriptor" where
  "thread_descriptor P new bits priority =
    \<lparr>entry_point = p_task_entry P, d_exit_handler = p_task_exit P, d_context = new,
     d_flags = SCHEDULER_TASK_STACK_CHECK OR (if has_flag bits osThreadCreateSuspended then SCHEDULER_CREATE_SUSPENDED else 0),
     d_priority = osSchedulerPriority (if priority = osPriorityNone then osPriorityNormal else priority),
     d_affinity = 0\<rparr>"

text \<open>
  The memory of a new thread: address of the control block (0 for none) and the size of the
  stack for the scheduler.
\<close>

definition thread_memory :: "port \<Rightarrow> os_attr \<Rightarrow> rtos \<Rightarrow> addr \<times> word32 \<times> rtos" where
  "thread_memory P attr s =
    (if a_cb_mem attr = 0 \<and> a_mem attr = 0
     then let usable = (if a_size attr = 0 then RTOS_DEFAULT_STACK_SIZE else a_size attr);
              stack_size = osThreadMinimumStackSize P + usable;
              (new, s) = p_alloc P (SIZEOF_THREAD + stack_size) s
          in if new = 0 then (0, stack_size, s)
             else let s = thread_upd new (\<lambda>t. t\<lparr>th_stack := new + SIZEOF_THREAD, th_stack_size := usable\<rparr>) s
                  in (new, stack_size, hdr_upd new (\<lambda>h. h\<lparr>attr_bits := a_attr_bits attr OR osDynamicAlloc\<rparr>) s)
     else if a_cb_mem attr \<noteq> 0 \<and> a_mem attr \<noteq> 0
     then if a_cb_size attr < SIZEOF_THREAD \<or> a_size attr < osThreadMinimumStackSize P then (0, a_size attr, s)
          else let new = a_cb_mem attr;
                   s = thread_upd new (\<lambda>t. t\<lparr>th_stack := a_mem attr, th_stack_size := a_size attr\<rparr>) s
               in (new, a_size attr, hdr_upd new (\<lambda>h. h\<lparr>attr_bits := a_attr_bits attr\<rparr>) s)
     else (0, 0, s))"

text \<open>The attributes come with a priority; without attributes the defaults hold.\<close>

definition osThreadNew :: "port \<Rightarrow> addr \<Rightarrow> addr \<Rightarrow> (os_attr \<times> word32) option \<Rightarrow> rtos \<Rightarrow> (addr \<times> rtos) option" where
  "osThreadNew P func argument attr s =
    (if func = 0 then Some (0, s)
     else if osKernelContextIsValid P False 0 s \<noteq> osOK then Some (0, s)
     else let (attr, priority) =
                (case attr of None \<Rightarrow> (no_attr\<lparr>a_size := RTOS_DEFAULT_STACK_SIZE\<rparr>, osPriorityNormal) | Some a \<Rightarrow> a)
          in if priority <s osPriorityNone \<or> osPriorityISR <s priority then Some (0, s)
             else let (new, stack_size, s) = thread_memory P attr s
                  in if new = 0 then Some (0, s)
                     else do {
                       let s = hdr_upd new (\<lambda>h. h\<lparr>obj_name := name_of attr, marker := RTOS_THREAD_MARKER\<rparr>) s;
                       let s = thread_upd new (\<lambda>t. t\<lparr>th_func := func, th_context := argument\<rparr>) s;
                       let ef_attr = no_attr\<lparr>a_name := a_name attr, a_cb_size := SIZEOF_EVENTFLAGS\<rparr>;
                       (ef, s) \<leftarrow> osEventFlagsNew P (Some (ef_attr\<lparr>a_cb_mem := thread_flags_at new\<rparr>)) s;
                       if ef = 0 then delete_thread P new s
                       else do {
                         (ef, s) \<leftarrow> osEventFlagsNew P (Some (ef_attr\<lparr>a_cb_mem := joiner_at new\<rparr>)) s;
                         if ef = 0 then delete_flags P new s
                         else do {
                           let desc = thread_descriptor P new (a_attr_bits attr) priority;
                           (status, s) \<leftarrow> osKernelResourceAdd P osResourceThread (new + resource_offset osResourceThread) s;
                           if status \<noteq> osOK then delete_joiner P new s
                           else do {
                             (task, k) \<leftarrow> scheduler_create (p_tls_init P) (th_stack (thread_of s new)) stack_size (Some desc) (p_eframe P) (ker s);
                             let s = s\<lparr>ker := k\<rparr>;
                             if task = 0 then remove_resource P new s else Some (new, s)
                           }
                         }
                       }
                     })"

section \<open>State of a thread\<close>

definition osThreadGetName :: "port \<Rightarrow> addr \<Rightarrow> rtos \<Rightarrow> string option" where
  "osThreadGetName P thread s = (if thread = 0 then None else get_name P RTOS_THREAD_MARKER thread s)"

fun thread_state_of :: "task_state \<Rightarrow> thread_state" where
  "thread_state_of TASK_TERMINATED = osThreadTerminated"
| "thread_state_of TASK_RUNNING = osThreadRunning"
| "thread_state_of TASK_READY = osThreadReady"
| "thread_state_of TASK_BLOCKED = osThreadBlocked"
| "thread_state_of TASK_SUSPENDED = osThreadBlocked"
| "thread_state_of TASK_RESERVED = osThreadError"

definition osThreadGetState :: "port \<Rightarrow> addr \<Rightarrow> rtos \<Rightarrow> thread_state option" where
  "osThreadGetState P thread s =
    (if osKernelContextIsValid P False 0 s \<noteq> osOK then Some osThreadError
     else if osIsResourceValid thread RTOS_THREAD_MARKER s \<noteq> osOK then Some osThreadError
     else if has_flag (attr_bits (hdr s thread)) osReapThread then Some osThreadError
     else map_option thread_state_of (scheduler_get_state (th_stack (thread_of s thread)) (ker s)))"

definition osThreadGetStackSize :: "port \<Rightarrow> addr \<Rightarrow> rtos \<Rightarrow> word32" where
  "osThreadGetStackSize P thread s =
    (if osKernelContextIsValid P False 0 s \<noteq> osOK then 0
     else if osIsResourceValid thread RTOS_THREAD_MARKER s \<noteq> osOK then 0
     else th_stack_size (thread_of s thread))"

text \<open>The words that still have the marker, at most \<open>n\<close> of them.\<close>

fun unused_words :: "nat \<Rightarrow> addr \<Rightarrow> rtos \<Rightarrow> nat" where
  "unused_words 0 pos s = 0"
| "unused_words (Suc n) pos s =
    (if mem_word s pos \<noteq> SCHEDULER_STACK_MARKER then 0 else Suc (unused_words n (pos + 4) s))"

definition osThreadGetStackSpace :: "port \<Rightarrow> addr \<Rightarrow> rtos \<Rightarrow> (word32 \<times> rtos) option" where
  "osThreadGetStackSpace P thread s =
    (if osKernelContextIsValid P False 0 s \<noteq> osOK then Some (0, s)
     else if osIsResourceValid thread RTOS_THREAD_MARKER s \<noteq> osOK then Some (0, s)
     else do {
       (_, s) \<leftarrow> osKernelLock P s;
       let start = stack_marker (task_of (ker s) (th_stack (thread_of s thread)));
       let words = unused_words (unat (th_stack_size (thread_of s thread)) div 4) start s;
       (_, s) \<leftarrow> osKernelUnlock P s;
       Some (of_nat words * 4, s)
     })"

definition osThreadSetPriority :: "port \<Rightarrow> addr \<Rightarrow> word32 \<Rightarrow> rtos \<Rightarrow> (word32 \<times> rtos) option" where
  "osThreadSetPriority P thread priority s =
    (if priority <s osPriorityIdle \<or> osPriorityISR <s priority then Some (osErrorParameter, s)
     else if osKernelContextIsValid P False 0 s \<noteq> osOK then Some (osErrorISR, s)
     else if osIsResourceValid thread RTOS_THREAD_MARKER s \<noteq> osOK
     then Some (osIsResourceValid thread RTOS_THREAD_MARKER s, s)
     else do {
       (status, k) \<leftarrow> scheduler_set_priority (p_eframe P) (th_stack (thread_of s thread)) (osSchedulerPriority priority) (ker s);
       Some (if status <s 0 then osError else osOK, s\<lparr>ker := k\<rparr>)
     })"

definition osThreadGetPriority :: "port \<Rightarrow> addr \<Rightarrow> rtos \<Rightarrow> word32 option" where
  "osThreadGetPriority P thread s =
    (if osKernelContextIsValid P False 0 s \<noteq> osOK then Some osPriorityError
     else if osIsResourceValid thread RTOS_THREAD_MARKER s \<noteq> osOK then Some osPriorityError
     else map_option osKernelPriority (scheduler_get_priority (th_stack (thread_of s thread)) (ker s)))"

text \<open>\<open>run\<close> is what the system does until the caller has the processor back.\<close>

definition osThreadYield :: "port \<Rightarrow> (rtos \<Rightarrow> rtos) \<Rightarrow> rtos \<Rightarrow> (word32 \<times> rtos) option" where
  "osThreadYield P run s =
    (if osKernelContextIsValid P False 0 s \<noteq> osOK then Some (osKernelContextIsValid P False 0 s, s)
     else do {
       thread \<leftarrow> osThreadGetId s;
       if osIsResourceValid thread RTOS_THREAD_MARKER s \<noteq> osOK
       then Some (osIsResourceValid thread RTOS_THREAD_MARKER s, s)
       else do {
         k \<leftarrow> scheduler_yield (p_eframe P) (ker s);
         Some (osOK, run (s\<lparr>ker := k\<rparr>))
       }
     })"

text \<open>\<open>scheduler_suspend\<close> in the layer.\<close>

definition rtos_suspend :: "port \<Rightarrow> (rtos \<Rightarrow> rtos) \<Rightarrow> addr \<Rightarrow> rtos \<Rightarrow> (word32 \<times> rtos) option" where
  "rtos_suspend P run task s = do {
     current \<leftarrow> scheduler_task (ker s);
     let task = (if task = 0 then current else task);
     if 1 < scheduler_num_cores (ker s) \<and> task \<noteq> current
     then Some (- EINVAL, s\<lparr>ker := (ker s)\<lparr>errno := EINVAL\<rparr>\<rparr>)
     else do {
       (status, s) \<leftarrow> suspend_call P run task SCHEDULER_WAIT_FOREVER s;
       if status <s 0 then Some (status, s\<lparr>ker := (ker s)\<lparr>errno := - status\<rparr>\<rparr>) else Some (0, s)
     }
   }"

definition osThreadSuspend :: "port \<Rightarrow> (rtos \<Rightarrow> rtos) \<Rightarrow> addr \<Rightarrow> rtos \<Rightarrow> (word32 \<times> rtos) option" where
  "osThreadSuspend P run thread s =
    (if osKernelContextIsValid P False 0 s \<noteq> osOK then Some (osKernelContextIsValid P False 0 s, s)
     else if osIsResourceValid thread RTOS_THREAD_MARKER s \<noteq> osOK
     then Some (osIsResourceValid thread RTOS_THREAD_MARKER s, s)
     else do {
       state \<leftarrow> osThreadGetState P thread s;
       if state \<noteq> osThreadReady \<and> state \<noteq> osThreadRunning \<and> state \<noteq> osThreadBlocked then Some (osErrorResource, s)
       else do {
         self \<leftarrow> osThreadGetId s;
         s \<leftarrow> check (thread \<noteq> self \<or> kernel_set s) s;
         if thread = self \<and> k_locked s \<noteq> 0 then Some (osError, s)
         else do {
           (status, s) \<leftarrow> rtos_suspend P run (th_stack (thread_of s thread)) s;
           Some (if status <s 0 then osError else osOK, s)
         }
       }
     })"

definition osThreadResume :: "port \<Rightarrow> addr \<Rightarrow> rtos \<Rightarrow> (word32 \<times> rtos) option" where
  "osThreadResume P thread s =
    (if osKernelContextIsValid P False 0 s \<noteq> osOK then Some (osKernelContextIsValid P False 0 s, s)
     else if osIsResourceValid thread RTOS_THREAD_MARKER s \<noteq> osOK
     then Some (osIsResourceValid thread RTOS_THREAD_MARKER s, s)
     else do {
       state \<leftarrow> osThreadGetState P thread s;
       if state \<noteq> osThreadBlocked then Some (osErrorResource, s)
       else do {
         (status, k) \<leftarrow> scheduler_resume (p_eframe P) (th_stack (thread_of s thread)) (ker s);
         Some (if status <s 0 then osError else osOK, s\<lparr>ker := k\<rparr>)
       }
     })"

section \<open>Thread flags\<close>

definition osThreadFlagsSet :: "port \<Rightarrow> addr \<Rightarrow> word32 \<Rightarrow> rtos \<Rightarrow> (word32 \<times> rtos) option" where
  "osThreadFlagsSet P thread flags s =
    (if has_flag flags osFlagsError then Some (osErrorParameter, s)
     else if osIsResourceValid thread RTOS_THREAD_MARKER s \<noteq> osOK
     then Some (osIsResourceValid thread RTOS_THREAD_MARKER s, s)
     else osEventFlagsSet P (thread_flags_at thread) flags s)"

definition osThreadFlagsClear :: "port \<Rightarrow> word32 \<Rightarrow> rtos \<Rightarrow> (word32 \<times> rtos) option" where
  "osThreadFlagsClear P flags s =
    (if osKernelContextIsValid P False 0 s \<noteq> osOK then Some (osKernelContextIsValid P False 0 s, s)
     else do {
       thread \<leftarrow> osThreadGetId s;
       if thread = 0 then Some (osFlagsErrorUnknown, s)
       else Some (osEventFlagsClear (thread_flags_at thread) flags s)
     })"

definition osThreadFlagsGet :: "rtos \<Rightarrow> word32 option" where
  "osThreadFlagsGet s = do {
     thread \<leftarrow> osThreadGetId s;
     Some (if thread = 0 then osFlagsErrorUnknown else osEventFlagsGet (thread_flags_at thread) s)
   }"

definition osThreadFlagsWait ::
  "port \<Rightarrow> ((rtos \<Rightarrow> rtos) \<times> (rtos \<Rightarrow> rtos)) list \<Rightarrow> word32 \<Rightarrow> word32 \<Rightarrow> word32 \<Rightarrow> rtos \<Rightarrow> (word32 \<times> rtos) option" where
  "osThreadFlagsWait P envs flags options timeout s =
    (if has_flag flags osFlagsError then Some (osErrorParameter, s)
     else if osKernelContextIsValid P False 0 s \<noteq> osOK then Some (osKernelContextIsValid P False 0 s, s)
     else do {
       thread \<leftarrow> osThreadGetId s;
       if thread = 0 then Some (osFlagsErrorUnknown, s)
       else osEventFlagsWait P envs (thread_flags_at thread) flags options timeout s
     })"

section \<open>Robust mutexes of a thread\<close>

text \<open>At most 5 mutexes are captured; a node after that ends the walk with a status of 1.\<close>

fun capture_mutexes :: "port \<Rightarrow> addr \<Rightarrow> addr list \<Rightarrow> addr list \<Rightarrow> rtos \<Rightarrow> (word32 \<times> addr list) option" where
  "capture_mutexes P thread captured [] s = Some (osOK, captured)"
| "capture_mutexes P thread captured (n # ns) s =
    (if length captured < 5
     then do {
       let mutex = n - resource_offset osResourceRobustMutex;
       owner \<leftarrow> osMutexGetOwner P mutex s;
       capture_mutexes P thread (if owner = thread then captured @ [mutex] else captured) ns s
     }
     else Some (1, captured))"

text \<open>While the thread owns the mutex: release it.\<close>

fun release_while_owned :: "port \<Rightarrow> (rtos \<Rightarrow> rtos) list \<Rightarrow> addr \<Rightarrow> addr \<Rightarrow> rtos \<Rightarrow> (word32 \<times> rtos) option" where
  "release_while_owned P envs mutex thread s = do {
     owner \<leftarrow> osMutexGetOwner P mutex s;
     if owner \<noteq> thread then Some (osOK, s)
     else (case envs of
         [] \<Rightarrow> None
       | env # envs \<Rightarrow> do {
           (status, s) \<leftarrow> osMutexRobustRelease P env mutex thread s;
           if status \<noteq> osOK then Some (status, s) else release_while_owned P envs mutex thread s
         })
   }"

declare release_while_owned.simps [simp del]

fun release_captured :: "port \<Rightarrow> (rtos \<Rightarrow> rtos) list \<Rightarrow> addr list \<Rightarrow> addr \<Rightarrow> rtos \<Rightarrow> (word32 \<times> rtos) option" where
  "release_captured P envs [] thread s = Some (osOK, s)"
| "release_captured P envs (m # ms) thread s = do {
     (status, s) \<leftarrow> release_while_owned P envs m thread s;
     if status \<noteq> osOK then Some (status, s) else release_captured P envs ms thread s
   }"

text \<open>One element of the script for each round of capture and release.\<close>

fun osReleaseRobustMutex :: "port \<Rightarrow> (rtos \<Rightarrow> rtos) list list \<Rightarrow> addr \<Rightarrow> rtos \<Rightarrow> (word32 \<times> rtos) option" where
  "osReleaseRobustMutex P [] thread s = None"
| "osReleaseRobustMutex P (envs # script) thread s = do {
     s \<leftarrow> check (osKernelContextIsValid P False 0 s = osOK \<and> kernel_set s) s;
     ((status, captured), s) \<leftarrow> locked_section (ResourceLock osResourceRobustMutex)
       (\<lambda>s. map_option (\<lambda>r. (r, s)) (capture_mutexes P thread [] (resources s osResourceRobustMutex) s)) s;
     s \<leftarrow> check (status = osOK) s;
     (status, s) \<leftarrow> release_captured P envs captured thread s;
     if status \<noteq> osOK then Some (status, s)
     else if length captured = 5 then osReleaseRobustMutex P script thread s
     else Some (osOK, s)
   }"

section \<open>The end of a thread\<close>

text \<open>
  The terminate call of the scheduler in a program whose state contains it, with an exit handler
  that acts on the whole program.
\<close>

definition terminate_in ::
  "('w \<Rightarrow> sys) \<Rightarrow> ((sys \<Rightarrow> sys) \<Rightarrow> 'w \<Rightarrow> 'w) \<Rightarrow> (addr \<Rightarrow> addr \<Rightarrow> 'w \<Rightarrow> 'w option) \<Rightarrow> exception_frame \<Rightarrow> 'w
    \<Rightarrow> (exception_frame \<times> 'w) option" where
  "terminate_in get upd exit_call frame w = do {
     current \<leftarrow> sched_get_current (get w);
     let task = ef_r0 frame;
     s \<leftarrow> scheduler_spin_lock (get w);
     let frame = frame\<lparr>ef_r0 := scheduler_task_alive task s\<rparr>;
     if ef_r0 frame \<noteq> 0 then Some (frame, upd (\<lambda>_. scheduler_spin_unlock s) w)
     else do {
       let s = task_upd task (\<lambda>x. x\<lparr>t_state := TASK_TERMINATED, t_core := UINT32_MAX\<rparr>) s;
       s \<leftarrow> sched_queue_remove task s;
       s \<leftarrow> scheduler_timer_remove task s;
       let s = sched_upd (\<lambda>c. c\<lparr>tasks := filter ((\<noteq>) task) (tasks c)\<rparr>) s;
       s \<leftarrow> check (task \<noteq> 0 \<and> t_marker (task_of s task) = SCHEDULER_TASK_MARKER) s;
       let w = upd (\<lambda>_. s) w;
       w \<leftarrow> (if exit_handler (task_of s task) \<noteq> 0 then exit_call (exit_handler (task_of s task)) task w else Some w);
       s \<leftarrow> (if task = current
         then do {
           (_, s) \<leftarrow> sched_set_current 0 (get w);
           Some (scheduler_request_switch (scheduler_current_core s) s)
         }
         else Some (get w));
       Some (frame, upd (\<lambda>_. scheduler_spin_unlock s) w)
     }
   }"

lemma terminate_in_scheduler:
  "terminate_in (\<lambda>s. s) (\<lambda>f. f) (\<lambda>h t s. Some (exit_call h t s)) frame s = scheduler_terminate_svc exit_call frame s"
proof -
  have m: "(if e then Some x else Some y) = Some (if e then x else y)" for e and x y :: sys by simp
  show ?thesis
    unfolding terminate_in_def scheduler_terminate_svc_def scheduler_terminated_hook_def Let_def m
    by (auto simp: check_def split: Option.bind_splits if_splits)
qed

text \<open>
  The handler runs in the terminate call, so in an exception: wake ups are deferred. The message
  about a stack overflow is output only. An error of the flags stops the system.
\<close>

definition osSchedulerTaskExitHandler :: "port \<Rightarrow> addr \<Rightarrow> rtos \<Rightarrow> rtos option" where
  "osSchedulerTaskExitHandler P task s = do {
     let thread = t_context (task_of (ker s) task);
     s \<leftarrow> check (task \<noteq> 0 \<and> osIsResourceValid thread RTOS_THREAD_MARKER s = osOK) s;
     if has_flag (attr_bits (hdr s thread)) osThreadJoinable
     then do {
       (flags, s) \<leftarrow> osEventFlagsSet P (joiner_at thread) RTOS_THREAD_JOINED s;
       check (\<not> has_flag flags osFlagsError) s
     }
     else do {
       let s = hdr_upd thread (\<lambda>h. h\<lparr>attr_bits := attr_bits h OR osReapThread\<rparr>) s;
       (flags, s) \<leftarrow> osThreadFlagsSet P (reaper_thread s) RTOS_REAPER_CLEAN s;
       check (\<not> has_flag flags osFlagsError) s
     }
   }"

text \<open>Exception 11 is the system call.\<close>

definition in_svc :: "(rtos \<Rightarrow> rtos option) \<Rightarrow> rtos \<Rightarrow> rtos option" where
  "in_svc f s = map_option (\<lambda>s'. s'\<lparr>ker := (ker s')\<lparr>ipsr := ipsr (ker s)\<rparr>\<rparr>) (f (s\<lparr>ker := (ker s)\<lparr>ipsr := 11\<rparr>\<rparr>))"

text \<open>\<open>scheduler_terminate\<close> in the layer; a task with another exit handler does not belong to it.\<close>

definition rtos_terminate :: "port \<Rightarrow> addr \<Rightarrow> rtos \<Rightarrow> (word32 \<times> rtos) option" where
  "rtos_terminate P task s = do {
     current \<leftarrow> scheduler_task (ker s);
     let task = (if task = 0 then current else task);
     if 1 < scheduler_num_cores (ker s) \<and> task \<noteq> current
     then Some (- EINVAL, s\<lparr>ker := (ker s)\<lparr>errno := EINVAL\<rparr>\<rparr>)
     else do {
       (frame, s) \<leftarrow> terminate_in ker ker_update
         (\<lambda>h t s. do { s \<leftarrow> check (h = p_task_exit P) s; in_svc (osSchedulerTaskExitHandler P t) s })
         ((p_eframe P)\<lparr>ef_r0 := task\<rparr>) s;
       Some (ef_r0 frame, if ef_r0 frame <s 0 then s\<lparr>ker := (ker s)\<lparr>errno := - ef_r0 frame\<rparr>\<rparr> else s)
     }
   }"

definition osThreadReaperInit :: "port \<Rightarrow> rtos \<Rightarrow> rtos option" where
  "osThreadReaperInit P s = do {
     (thread, s) \<leftarrow> osThreadNew P (p_reaper P) 0
       (Some (no_attr\<lparr>a_name := Some ''osThreadReaper'', a_size := RTOS_DEFAULT_STACK_SIZE\<rparr>, osPriorityNormal)) s;
     check (thread \<noteq> 0) (s\<lparr>reaper_thread := thread\<rparr>)
   }"

text \<open>The scripts of the once function that starts the reaper.\<close>

type_synonym once_script = "(rtos \<Rightarrow> rtos) \<times> (rtos \<Rightarrow> rtos) list"

definition start_reaper :: "port \<Rightarrow> once_script \<Rightarrow> rtos \<Rightarrow> rtos option" where
  "start_reaper P once s =
    osCallOnce P (fst once) (snd once) (p_local P) (p_reaper_once P) (osThreadReaperInit P) s"

definition osThreadTerminate :: "port \<Rightarrow> once_script \<Rightarrow> addr \<Rightarrow> rtos \<Rightarrow> (word32 \<times> rtos) option" where
  "osThreadTerminate P once thread s =
    (if osKernelContextIsValid P False 0 s \<noteq> osOK then Some (osKernelContextIsValid P False 0 s, s)
     else if osIsResourceValid thread RTOS_THREAD_MARKER s \<noteq> osOK
     then Some (osIsResourceValid thread RTOS_THREAD_MARKER s, s)
     else do {
       s \<leftarrow> (if \<not> has_flag (attr_bits (hdr s thread)) osThreadJoinable then start_reaper P once s else Some s);
       (status, s) \<leftarrow> rtos_terminate P (th_stack (thread_of s thread)) s;
       if status <s 0
       then if status \<noteq> - ESRCH then Some (osError, s)
            else do {
              state \<leftarrow> osThreadGetState P thread s;
              Some (if state \<noteq> osThreadTerminated \<and> state \<noteq> osThreadError then osErrorResource else osOK, s)
            }
       else Some (osOK, s)
     })"

text \<open>The state in which the calling thread is gone; it never returns, and any failure stops the system.\<close>

definition osThreadExit :: "port \<Rightarrow> once_script \<Rightarrow> rtos \<Rightarrow> rtos option" where
  "osThreadExit P once s = do {
     s \<leftarrow> check (osKernelContextIsValid P False 0 s = osOK) s;
     thread \<leftarrow> osThreadGetId s;
     s \<leftarrow> check (osIsResourceValid thread RTOS_THREAD_MARKER s = osOK) s;
     s \<leftarrow> (if \<not> has_flag (attr_bits (hdr s thread)) osThreadJoinable then start_reaper P once s else Some s);
     (status, s) \<leftarrow> rtos_terminate P (th_stack (thread_of s thread)) s;
     check (\<not> status <s 0) s
   }"

text \<open>Where every thread begins; \<open>call\<close> is what the function of the application does.\<close>

definition osSchedulerTaskEntryPoint ::
  "port \<Rightarrow> (addr \<Rightarrow> addr \<Rightarrow> rtos \<Rightarrow> rtos) \<Rightarrow> once_script \<Rightarrow> addr \<Rightarrow> rtos \<Rightarrow> rtos option" where
  "osSchedulerTaskEntryPoint P call once thread s = do {
     s \<leftarrow> check (osIsResourceValid thread RTOS_THREAD_MARKER s = osOK) s;
     osThreadExit P once (call (th_func (thread_of s thread)) (th_context (thread_of s thread)) s)
   }"

definition osThreadDetach :: "port \<Rightarrow> once_script \<Rightarrow> addr \<Rightarrow> rtos \<Rightarrow> (word32 \<times> rtos) option" where
  "osThreadDetach P once thread s =
    (if osKernelContextIsValid P False 0 s \<noteq> osOK then Some (osKernelContextIsValid P False 0 s, s)
     else if osIsResourceValid thread RTOS_THREAD_MARKER s \<noteq> osOK
     then Some (osIsResourceValid thread RTOS_THREAD_MARKER s, s)
     else if \<not> has_flag (attr_bits (hdr s thread)) osThreadJoinable then Some (osErrorResource, s)
     else do {
       s \<leftarrow> start_reaper P once s;
       let s = hdr_upd thread (\<lambda>h. h\<lparr>attr_bits := attr_bits h AND NOT osThreadJoinable\<rparr>) s;
       state \<leftarrow> osThreadGetState P thread s;
       if state = osThreadTerminated
       then do {
         let s = hdr_upd thread (\<lambda>h. h\<lparr>attr_bits := attr_bits h OR osReapThread\<rparr>) s;
         (flags, s) \<leftarrow> osThreadFlagsSet P (reaper_thread s) RTOS_REAPER_CLEAN s;
         Some (if has_flag flags 0x80000000 then flags else osOK, s)
       }
       else Some (osOK, s)
     })"

text \<open>What is left to do for a thread that has ended, after its node is out of the list.\<close>

definition release_thread :: "port \<Rightarrow> (rtos \<Rightarrow> rtos) list list \<Rightarrow> addr \<Rightarrow> rtos \<Rightarrow> (word32 \<times> rtos) option" where
  "release_thread P script thread s = do {
     (status, s) \<leftarrow> osReleaseRobustMutex P script thread s;
     if status \<noteq> osOK then Some (status, s)
     else do {
       (status, s) \<leftarrow> osEventFlagsDelete P (joiner_at thread) s;
       if status \<noteq> osOK then Some (status, s)
       else do {
         (status, s) \<leftarrow> osEventFlagsDelete P (thread_flags_at thread) s;
         if status \<noteq> osOK then Some (status, s)
         else Some (osOK, release_dynamic P thread (hdr_upd thread (\<lambda>h. h\<lparr>marker := 0\<rparr>) s))
       }
     }
   }"

definition osThreadJoin ::
  "port \<Rightarrow> ((rtos \<Rightarrow> rtos) \<times> (rtos \<Rightarrow> rtos)) list \<Rightarrow> (rtos \<Rightarrow> rtos) list list \<Rightarrow> addr \<Rightarrow> rtos \<Rightarrow> (word32 \<times> rtos) option" where
  "osThreadJoin P envs script thread s =
    (if osKernelContextIsValid P False 0 s \<noteq> osOK then Some (osKernelContextIsValid P False 0 s, s)
     else do {
       (status, s) \<leftarrow> osKernelResourceIsRegistered P osResourceThread thread s;
       if status = osErrorResource then Some (osErrorParameter, s)
       else if osIsResourceValid thread RTOS_THREAD_MARKER s \<noteq> osOK
       then Some (osIsResourceValid thread RTOS_THREAD_MARKER s, s)
       else do {
         state \<leftarrow> osThreadGetState P thread s;
         if state = osThreadError then Some (osErrorParameter, s)
         else if \<not> has_flag (attr_bits (hdr s thread)) osThreadJoinable then Some (osErrorResource, s)
         else do {
           self \<leftarrow> osThreadGetId s;
           if thread = self then Some (osErrorResource, s)
           else do {
             (flags, s) \<leftarrow> osEventFlagsWait P envs (joiner_at thread) RTOS_THREAD_JOINED osFlagsWaitAny osWaitForever s;
             if has_flag flags osFlagsError then Some (flags, s)
             else do {
               (status, s) \<leftarrow> osKernelResourceRemove P osResourceThread (thread + resource_offset osResourceThread) s;
               if status \<noteq> osOK then Some (status, s) else release_thread P script thread s
             }
           }
         }
       }
     })"

section \<open>The reaper\<close>

text \<open>The walk that moves the threads to reap onto the list of the reaper.\<close>

fun reap_walk :: "addr list \<Rightarrow> addr list \<Rightarrow> rtos \<Rightarrow> word32 \<times> addr list" where
  "reap_walk reaped [] s = (osOK, reaped)"
| "reap_walk reaped (n # ns) s =
    (let thread = n - resource_offset osResourceThread
     in if osIsResourceValid thread RTOS_THREAD_MARKER s \<noteq> osOK
        then (osIsResourceValid thread RTOS_THREAD_MARKER s, reaped)
        else reap_walk (if has_flag (attr_bits (hdr s thread)) osReapThread then reaped @ [n] else reaped) ns s)"

definition collect_reaped :: "port \<Rightarrow> rtos \<Rightarrow> (addr list \<times> rtos) option" where
  "collect_reaped P s = do {
     s \<leftarrow> check (osKernelContextIsValid P False 0 s = osOK \<and> kernel_set s) s;
     ((status, reaped), s) \<leftarrow> locked_section (ResourceLock osResourceThread) (\<lambda>s.
       let (status, reaped) = reap_walk [] (resources s osResourceThread) s
       in Some ((status, reaped), s\<lparr>resources := (resources s)(osResourceThread :=
            filter (\<lambda>n. n \<notin> set reaped) (resources s osResourceThread))\<rparr>)) s;
     check (status = osOK) (reaped, s)
   }"

fun release_reaped :: "port \<Rightarrow> (rtos \<Rightarrow> rtos) list list \<Rightarrow> addr list \<Rightarrow> rtos \<Rightarrow> rtos option" where
  "release_reaped P script [] s = Some s"
| "release_reaped P script (n # ns) s = do {
     (status, s) \<leftarrow> release_thread P script (n - resource_offset osResourceThread) s;
     s \<leftarrow> check (status = osOK) s;
     release_reaped P script ns s
   }"

text \<open>Clean until nothing is left; one script for each round.\<close>

fun reaper_clean :: "port \<Rightarrow> (rtos \<Rightarrow> rtos) list list list \<Rightarrow> rtos \<Rightarrow> rtos option" where
  "reaper_clean P scripts s = do {
     (reaped, s) \<leftarrow> collect_reaped P s;
     if reaped = [] then Some s
     else (case scripts of
         [] \<Rightarrow> None
       | script # scripts \<Rightarrow> do {
           s \<leftarrow> release_reaped P script reaped s;
           reaper_clean P scripts s
         })
   }"

declare reaper_clean.simps [simp del]

text \<open>The reaper makes itself ignorable and then takes turns; the value of a turn says whether it was the last.\<close>

definition reaper_start :: "rtos \<Rightarrow> rtos option" where
  "reaper_start s = map_option (\<lambda>k. s\<lparr>ker := k\<rparr>) (scheduler_set_flags 0 SCHEDULER_IGNORE_VIABLE (ker s))"

definition reaper_turn ::
  "port \<Rightarrow> ((rtos \<Rightarrow> rtos) \<times> (rtos \<Rightarrow> rtos)) list \<Rightarrow> (rtos \<Rightarrow> rtos) list list list \<Rightarrow> rtos \<Rightarrow> (bool \<times> rtos) option" where
  "reaper_turn P envs scripts s = do {
     (flags, s) \<leftarrow> osThreadFlagsWait P envs (RTOS_REAPER_EXIT OR RTOS_REAPER_CLEAN) osFlagsWaitAny osWaitForever s;
     s \<leftarrow> check (\<not> has_flag flags osFlagsError) s;
     s \<leftarrow> (if has_flag flags RTOS_REAPER_CLEAN then reaper_clean P scripts s else Some s);
     Some (has_flag flags RTOS_REAPER_EXIT, s)
   }"

section \<open>Enumeration\<close>

text \<open>The threads whose state is not an error.\<close>

fun live_threads :: "port \<Rightarrow> addr list \<Rightarrow> rtos \<Rightarrow> addr list option" where
  "live_threads P [] s = Some []"
| "live_threads P (n # ns) s = do {
     let thread = n - resource_offset osResourceThread;
     state \<leftarrow> osThreadGetState P thread s;
     ts \<leftarrow> live_threads P ns s;
     Some (if state \<noteq> osThreadError then thread # ts else ts)
   }"

definition live_section :: "port \<Rightarrow> rtos \<Rightarrow> (addr list \<times> rtos) option" where
  "live_section P s = do {
     s \<leftarrow> check (kernel_set s) s;
     locked_section (ResourceLock osResourceThread)
       (\<lambda>s. map_option (\<lambda>ts. (ts, s)) (live_threads P (resources s osResourceThread) s)) s
   }"

definition osThreadGetCount :: "port \<Rightarrow> rtos \<Rightarrow> (word32 \<times> rtos) option" where
  "osThreadGetCount P s =
    (if osKernelContextIsValid P False 0 s \<noteq> osOK then Some (0, s)
     else map_option (\<lambda>(ts, s). (of_nat (length ts), s)) (live_section P s))"

text \<open>The value is the count and the contents of the array.\<close>

definition osThreadEnumerate :: "port \<Rightarrow> word32 \<Rightarrow> rtos \<Rightarrow> ((word32 \<times> addr list) \<times> rtos) option" where
  "osThreadEnumerate P array_items s =
    (if osKernelContextIsValid P False 0 s \<noteq> osOK then Some ((0, []), s)
     else map_option (\<lambda>(ts, s). let ts = take (unat array_items) ts in ((of_nat (length ts), ts), s)) (live_section P s))"

end
