(* ===== verification/Rtos_Deque.thy ===== *)
theory Rtos_Deque
  imports Rtos_Thread Refinement
begin

text \<open>
  Double ended queues, \<open>cmsis-rtos2-deque.c\<close>: elements of one size in a ring buffer, with event
  flags for space and for data. The four accesses differ in what they wait for, what they do to
  the ring and which flag they raise.
\<close>

section \<open>The ring\<close>

abbreviation (input) RTOS_DEQUE_SPACE_AVAILABLE :: word32 where "RTOS_DEQUE_SPACE_AVAILABLE \<equiv> 1"
abbreviation (input) RTOS_DEQUE_DATA_AVAILABLE :: word32 where "RTOS_DEQUE_DATA_AVAILABLE \<equiv> 2"
abbreviation (input) RTOS_DEQUE_RESET :: word32 where "RTOS_DEQUE_RESET \<equiv> 4"

definition modulo :: "word32 \<Rightarrow> word32 \<Rightarrow> word32" where
  "modulo x y = x AND (y - 1)"

definition deque_inc :: "rtos_deque \<Rightarrow> word32 \<Rightarrow> word32" where
  "deque_inc d v = modulo (v + 1) (element_count d)"

text \<open>As it is written: an increment.\<close>

definition deque_dec :: "rtos_deque \<Rightarrow> word32 \<Rightarrow> word32" where
  "deque_dec d v = modulo (v + 1) (element_count d)"

definition deque_upd :: "addr \<Rightarrow> (rtos_deque \<Rightarrow> rtos_deque) \<Rightarrow> rtos \<Rightarrow> rtos" where
  "deque_upd dq f s = s\<lparr>deque_of := (deque_of s)(dq := f (deque_of s dq))\<rparr>"

definition slot_at :: "rtos_deque \<Rightarrow> word32 \<Rightarrow> addr" where
  "slot_at d pos = dq_buffer d + pos * element_size d"

definition deque_get :: "addr \<Rightarrow> addr \<Rightarrow> word32 \<Rightarrow> rtos \<Rightarrow> rtos" where
  "deque_get dq element pos s =
    s\<lparr>bytes := memcpy element (slot_at (deque_of s dq) pos) (element_size (deque_of s dq)) (bytes s)\<rparr>"

definition deque_put :: "addr \<Rightarrow> addr \<Rightarrow> word32 \<Rightarrow> rtos \<Rightarrow> rtos" where
  "deque_put dq element pos s =
    s\<lparr>bytes := memcpy (slot_at (deque_of s dq) pos) element (element_size (deque_of s dq)) (bytes s)\<rparr>"

definition deque_is_empty :: "rtos_deque \<Rightarrow> bool" where
  "deque_is_empty d \<longleftrightarrow> dq_front d = dq_back d"

definition deque_is_full :: "rtos_deque \<Rightarrow> bool" where
  "deque_is_full d \<longleftrightarrow> modulo (dq_back d + 1) (element_count d) = dq_front d"

section \<open>Creation\<close>

definition delete_deque :: "port \<Rightarrow> addr \<Rightarrow> rtos \<Rightarrow> (addr \<times> rtos) option" where
  "delete_deque P new s = Some (0, release_dynamic P new s)"

definition delete_eventflags :: "port \<Rightarrow> addr \<Rightarrow> rtos \<Rightarrow> (addr \<times> rtos) option" where
  "delete_eventflags P new s = do {
     (_, s) \<leftarrow> osEventFlagsDelete P (events_at new) s;
     delete_deque P new s
   }"

text \<open>
  The test is on the size of an element. The allocation counts the control block twice, the
  size of static memory must have room for the header of a message, and the number of waiters is
  not set.
\<close>

definition osDequeNew :: "port \<Rightarrow> word32 \<Rightarrow> word32 \<Rightarrow> os_attr option \<Rightarrow> rtos \<Rightarrow> (addr \<times> rtos) option" where
  "osDequeNew P elements esize attr s =
    (if osKernelContextIsValid P False 0 s \<noteq> osOK then Some (0, s)
     else let attr = (case attr of None \<Rightarrow> no_attr\<lparr>a_name := Some ''deque''\<rparr> | Some a \<Rightarrow> a)
          in if modulo esize esize \<noteq> 0 then Some (0, s)
             else let (new, data, s) =
                    (if a_cb_mem attr = 0 \<and> a_mem attr = 0
                     then let (new, s) = p_alloc P (SIZEOF_DEQUE + (SIZEOF_DEQUE + esize * elements)) s
                          in if new = 0 then (0, 0, s)
                             else (new, new + SIZEOF_DEQUE,
                               hdr_upd new (\<lambda>h. h\<lparr>attr_bits := a_attr_bits attr OR osDynamicAlloc\<rparr>) s)
                     else if a_cb_mem attr \<noteq> 0 \<and> a_mem attr \<noteq> 0
                     then if a_cb_size attr < SIZEOF_DEQUE \<or> a_size attr < SIZEOF_MESSAGE + esize * elements
                          then (0, 0, s) else (a_cb_mem attr, a_mem attr, s)
                     else (0, 0, s))
                  in if new = 0 then Some (0, s)
                     else do {
                       let s = hdr_upd new (\<lambda>h. h\<lparr>marker := RTOS_DEQUE_MARKER,
                         obj_name := take (RTOS_NAME_SIZE - 1) (case a_name attr of None \<Rightarrow> ''deque'' | Some n \<Rightarrow> n)\<rparr>) s;
                       let s = deque_upd new (\<lambda>d. d\<lparr>element_size := esize, element_count := elements,
                         dq_front := 0, dq_back := 0, dq_buffer := data\<rparr>) s;
                       let s = s\<lparr>locks := (locks s)(ObjectLock new := 0)\<rparr>;
                       (ef, s) \<leftarrow> osEventFlagsNew P (Some (no_attr\<lparr>a_name := a_name attr, a_cb_mem := events_at new,
                         a_cb_size := SIZEOF_EVENTFLAGS\<rparr>)) s;
                       if ef = 0 then delete_deque P new s
                       else do {
                         (status, s) \<leftarrow> osKernelResourceAdd P osResourceDeque (new + resource_offset osResourceDeque) s;
                         if status \<noteq> osOK then delete_eventflags P new s else Some (new, s)
                       }
                     })"

definition osDequeGetName :: "port \<Rightarrow> addr \<Rightarrow> rtos \<Rightarrow> string option" where
  "osDequeGetName P dq s =
    (if osKernelContextIsValid P False 0 s \<noteq> osOK then None
     else if osIsResourceValid dq RTOS_DEQUE_MARKER s \<noteq> osOK then None
     else Some (obj_name (hdr s dq)))"

section \<open>Access\<close>

definition dq_enter :: "addr \<Rightarrow> rtos \<Rightarrow> rtos" where
  "dq_enter dq s = deque_upd dq (\<lambda>d. d\<lparr>dq_waiters := dq_waiters d + 1\<rparr>) s"

definition dq_leave :: "addr \<Rightarrow> rtos \<Rightarrow> rtos" where
  "dq_leave dq s = deque_upd dq (\<lambda>d. d\<lparr>dq_waiters := dq_waiters d - 1\<rparr>) s"

text \<open>
  The loop that waits for space or data: it ends with the lock held and the interrupt state to
  restore, or with an error. Each turn has the script of its wait.
\<close>

fun deque_wait_loop ::
  "port \<Rightarrow> ((rtos \<Rightarrow> rtos) \<times> (rtos \<Rightarrow> rtos)) list list \<Rightarrow> addr \<Rightarrow> (rtos_deque \<Rightarrow> bool) \<Rightarrow> word32 \<Rightarrow> word32 \<Rightarrow> rtos
    \<Rightarrow> ((word32 + bool) \<times> rtos) option" where
  "deque_wait_loop P script dq blocked avail timeout s = do {
     (state, s) \<leftarrow> spin_lock_irqsave (ObjectLock dq) s;
     if \<not> blocked (deque_of s dq) then Some (Inr state, s)
     else (case script of
         [] \<Rightarrow> None
       | envs # script \<Rightarrow> do {
           let s = spin_unlock_irqrestore (ObjectLock dq) state s;
           (flags, s) \<leftarrow> osEventFlagsWait P envs (events_at dq) (avail OR RTOS_DEQUE_RESET)
             (osFlagsWaitAny OR osFlagsNoClear) timeout s;
           if has_flag flags osFlagsError then Some (Inl flags, dq_leave dq s)
           else do {
             let (flags, s) = osEventFlagsClear (events_at dq) avail s;
             if has_flag flags osFlagsError then Some (Inl flags, dq_leave dq s)
             else if has_flag flags RTOS_DEQUE_RESET then Some (Inl osErrorResource, dq_leave dq s)
             else deque_wait_loop P script dq blocked avail timeout s
           }
         })
   }"

declare deque_wait_loop.simps [simp del]

definition deque_access ::
  "port \<Rightarrow> ((rtos \<Rightarrow> rtos) \<times> (rtos \<Rightarrow> rtos)) list list \<Rightarrow> addr \<Rightarrow> addr \<Rightarrow> word32 \<Rightarrow> (rtos_deque \<Rightarrow> bool) \<Rightarrow> word32 \<Rightarrow>
    (rtos \<Rightarrow> rtos) \<Rightarrow> word32 \<Rightarrow> rtos \<Rightarrow> (word32 \<times> rtos) option" where
  "deque_access P script dq element timeout blocked avail body kick s =
    (if element = 0 then Some (osErrorParameter, s)
     else if osKernelContextIsValid P True timeout s \<noteq> osOK then Some (osKernelContextIsValid P True timeout s, s)
     else if osIsResourceValid dq RTOS_DEQUE_MARKER s \<noteq> osOK
     then Some (osIsResourceValid dq RTOS_DEQUE_MARKER s, s)
     else let flags = osEventFlagsGet (events_at dq) s
          in if has_flag flags (RTOS_DEQUE_RESET OR osFlagsError)
             then Some (if has_flag flags RTOS_DEQUE_RESET then osErrorResource else flags, s)
             else do {
               let s = dq_enter dq s;
               (r, s) \<leftarrow> deque_wait_loop P script dq blocked avail timeout s;
               case r of
                 Inl status \<Rightarrow> Some (status, s)
               | Inr state \<Rightarrow> do {
                   let s = body s;
                   let s = spin_unlock_irqrestore (ObjectLock dq) state s;
                   let s = dq_leave dq s;
                   (flags, s) \<leftarrow> osEventFlagsSet P (events_at dq) kick s;
                   Some (if has_flag flags osFlagsError then flags else osOK, s)
                 }
             })"

definition put_front_body :: "addr \<Rightarrow> addr \<Rightarrow> rtos \<Rightarrow> rtos" where
  "put_front_body dq element s =
    (let s = deque_upd dq (\<lambda>d. d\<lparr>dq_front := deque_dec d (dq_front d - 1)\<rparr>) s
     in deque_put dq element (dq_front (deque_of s dq)) s)"

definition put_back_body :: "addr \<Rightarrow> addr \<Rightarrow> rtos \<Rightarrow> rtos" where
  "put_back_body dq element s =
    (let s = deque_put dq element (dq_back (deque_of s dq)) s
     in deque_upd dq (\<lambda>d. d\<lparr>dq_back := deque_inc d (dq_back d)\<rparr>) s)"

definition get_front_body :: "addr \<Rightarrow> addr \<Rightarrow> rtos \<Rightarrow> rtos" where
  "get_front_body dq element s =
    (let s = deque_get dq element (dq_front (deque_of s dq)) s
     in deque_upd dq (\<lambda>d. d\<lparr>dq_front := deque_inc d (dq_front d)\<rparr>) s)"

text \<open>The element is copied twice: from the old and from the new position of the back.\<close>

definition get_back_body :: "addr \<Rightarrow> addr \<Rightarrow> rtos \<Rightarrow> rtos" where
  "get_back_body dq element s =
    (let s = deque_get dq element (dq_back (deque_of s dq)) s;
         s = deque_upd dq (\<lambda>d. d\<lparr>dq_back := deque_dec d (dq_back d)\<rparr>) s
     in deque_get dq element (dq_back (deque_of s dq)) s)"

definition osDequePutFront ::
  "port \<Rightarrow> ((rtos \<Rightarrow> rtos) \<times> (rtos \<Rightarrow> rtos)) list list \<Rightarrow> addr \<Rightarrow> addr \<Rightarrow> word32 \<Rightarrow> rtos \<Rightarrow> (word32 \<times> rtos) option" where
  "osDequePutFront P script dq element timeout s =
    deque_access P script dq element timeout deque_is_full RTOS_DEQUE_SPACE_AVAILABLE
      (put_front_body dq element) RTOS_DEQUE_DATA_AVAILABLE s"

definition osDequePutBack ::
  "port \<Rightarrow> ((rtos \<Rightarrow> rtos) \<times> (rtos \<Rightarrow> rtos)) list list \<Rightarrow> addr \<Rightarrow> addr \<Rightarrow> word32 \<Rightarrow> rtos \<Rightarrow> (word32 \<times> rtos) option" where
  "osDequePutBack P script dq element timeout s =
    deque_access P script dq element timeout deque_is_full RTOS_DEQUE_SPACE_AVAILABLE
      (put_back_body dq element) RTOS_DEQUE_DATA_AVAILABLE s"

definition osDequeGetFront ::
  "port \<Rightarrow> ((rtos \<Rightarrow> rtos) \<times> (rtos \<Rightarrow> rtos)) list list \<Rightarrow> addr \<Rightarrow> addr \<Rightarrow> word32 \<Rightarrow> rtos \<Rightarrow> (word32 \<times> rtos) option" where
  "osDequeGetFront P script dq element timeout s =
    deque_access P script dq element timeout deque_is_empty RTOS_DEQUE_DATA_AVAILABLE
      (get_front_body dq element) RTOS_DEQUE_SPACE_AVAILABLE s"

definition osDequeGetBack ::
  "port \<Rightarrow> ((rtos \<Rightarrow> rtos) \<times> (rtos \<Rightarrow> rtos)) list list \<Rightarrow> addr \<Rightarrow> addr \<Rightarrow> word32 \<Rightarrow> rtos \<Rightarrow> (word32 \<times> rtos) option" where
  "osDequeGetBack P script dq element timeout s =
    deque_access P script dq element timeout deque_is_empty RTOS_DEQUE_DATA_AVAILABLE
      (get_back_body dq element) RTOS_DEQUE_SPACE_AVAILABLE s"

section \<open>Sizes, reset and deletion\<close>

definition osDequeGetCapacity :: "port \<Rightarrow> addr \<Rightarrow> rtos \<Rightarrow> word32" where
  "osDequeGetCapacity P dq s =
    (if osKernelContextIsValid P True 0 s \<noteq> osOK then 0
     else if osIsResourceValid dq RTOS_DEQUE_MARKER s \<noteq> osOK then 0
     else element_count (deque_of s dq))"

definition osDequeGetElementSize :: "port \<Rightarrow> addr \<Rightarrow> rtos \<Rightarrow> word32" where
  "osDequeGetElementSize P dq s =
    (if osKernelContextIsValid P True 0 s \<noteq> osOK then 0
     else if osIsResourceValid dq RTOS_DEQUE_MARKER s \<noteq> osOK then 0
     else element_size (deque_of s dq))"

definition osDequeGetCount :: "addr \<Rightarrow> rtos \<Rightarrow> word32" where
  "osDequeGetCount dq s =
    (if osIsResourceValid dq RTOS_DEQUE_MARKER s \<noteq> osOK then 0
     else let d = deque_of s dq in modulo (dq_back d - dq_front d) (element_count d))"

definition osDequeGetSpace :: "addr \<Rightarrow> rtos \<Rightarrow> word32" where
  "osDequeGetSpace dq s =
    (if osIsResourceValid dq RTOS_DEQUE_MARKER s \<noteq> osOK then 0
     else let d = deque_of s dq in modulo (dq_front d - (dq_back d + 1)) (element_count d))"

text \<open>Yield until nobody is inside an access.\<close>

fun yield_while_waiters :: "port \<Rightarrow> (rtos \<Rightarrow> rtos) list \<Rightarrow> addr \<Rightarrow> rtos \<Rightarrow> rtos option" where
  "yield_while_waiters P runs dq s =
    (if dq_waiters (deque_of s dq) = 0 then Some s
     else (case runs of
         [] \<Rightarrow> None
       | run # runs \<Rightarrow> do {
           (_, s) \<leftarrow> osThreadYield P run s;
           yield_while_waiters P runs dq s
         }))"

declare yield_while_waiters.simps [simp del]

definition osDequeReset :: "port \<Rightarrow> (rtos \<Rightarrow> rtos) list \<Rightarrow> addr \<Rightarrow> rtos \<Rightarrow> (word32 \<times> rtos) option" where
  "osDequeReset P runs dq s =
    (if osKernelContextIsValid P False 0 s \<noteq> osOK then Some (osKernelContextIsValid P False 0 s, s)
     else if osIsResourceValid dq RTOS_DEQUE_MARKER s \<noteq> osOK
     then Some (osIsResourceValid dq RTOS_DEQUE_MARKER s, s)
     else do {
       (flags, s) \<leftarrow> osEventFlagsSet P (events_at dq) RTOS_DEQUE_RESET s;
       if has_flag flags osFlagsError then Some (flags, s)
       else do {
         self \<leftarrow> osThreadGetId s;
         old_priority \<leftarrow> osThreadGetPriority P self s;
         (_, s) \<leftarrow> osThreadSetPriority P self osPriorityIdle s;
         s \<leftarrow> yield_while_waiters P runs dq s;
         self \<leftarrow> osThreadGetId s;
         (_, s) \<leftarrow> osThreadSetPriority P self old_priority s;
         (_, s) \<leftarrow> locked_section (ObjectLock dq)
           (\<lambda>s. Some ((), deque_upd dq (\<lambda>d. d\<lparr>dq_front := 0, dq_back := 0\<rparr>) s)) s;
         let (flags, s) = osEventFlagsClear (events_at dq)
           (RTOS_DEQUE_RESET OR RTOS_DEQUE_DATA_AVAILABLE OR RTOS_DEQUE_SPACE_AVAILABLE) s;
         Some (if has_flag flags osFlagsError then flags else osOK, s)
       }
     })"

definition osDequeDelete :: "port \<Rightarrow> addr \<Rightarrow> rtos \<Rightarrow> (word32 \<times> rtos) option" where
  "osDequeDelete P dq s =
    (if osKernelContextIsValid P False 0 s \<noteq> osOK then Some (osKernelContextIsValid P False 0 s, s)
     else if osIsResourceValid dq RTOS_DEQUE_MARKER s \<noteq> osOK
     then Some (osIsResourceValid dq RTOS_DEQUE_MARKER s, s)
     else do {
       let s = hdr_upd dq (\<lambda>h. h\<lparr>marker := 0\<rparr>) s;
       (status, s) \<leftarrow> osKernelResourceRemove P osResourceDeque (dq + resource_offset osResourceDeque) s;
       if status \<noteq> osOK then Some (status, s)
       else do {
         (status, s) \<leftarrow> osEventFlagsDelete P (events_at dq) s;
         if status \<noteq> osOK then Some (status, s)
         else Some (osOK, release_dynamic P dq s)
       }
     })"

section \<open>Rules\<close>

lemma modulo_unat: "k < 32 \<Longrightarrow> unat (modulo x (2 ^ k)) = unat x mod 2 ^ k"
proof -
  have "modulo x (2 ^ k) = take_bit k x" by (simp add: modulo_def take_bit_eq_mask mask_eq_exp_minus_1)
  then show ?thesis by (simp only: unsigned_take_bit_eq take_bit_eq_mod [of k "unat x"])
qed

lemma unat_plus_mod:
  fixes x y :: word32
  assumes "k < 32"
  shows "unat (x + y) mod 2 ^ k = (unat x + unat y) mod 2 ^ k"
proof -
  have "(2 :: nat) ^ k dvd 2 ^ 32" using assms by (intro le_imp_power_dvd) simp
  moreover have "unat (x + y) = (unat x + unat y) mod 2 ^ 32" by (simp add: unat_word_ariths)
  ultimately show ?thesis by (simp only: mod_mod_cancel)
qed

lemma ring_inj:
  fixes i j f N :: nat
  assumes "i < N" "j < N" "(f + i) mod N = (f + j) mod N"
  shows "i = j"
proof -
  have "i' = j'" if "i' < N" "j' < N" "i' \<le> j'" "(f + j') mod N = (f + i') mod N" for i' j'
  proof -
    from that have "N dvd j' - i'" by (simp add: mod_eq_dvd_iff_nat)
    moreover have "j' - i' < N" using that by simp
    ultimately show ?thesis using that(3) nat_dvd_not_less by fastforce
  qed
  from this [of i j] this [of j i] show ?thesis using assms by (cases "i \<le> j") auto
qed

lemma deque_upd_sel [simp]:
  "deque_of (deque_upd dq f s) = (deque_of s)(dq := f (deque_of s dq))" "ker (deque_upd dq f s) = ker s"
  "hdr (deque_upd dq f s) = hdr s" "locks (deque_upd dq f s) = locks s" "bytes (deque_upd dq f s) = bytes s"
  "ef_waiters (deque_upd dq f s) = ef_waiters s" "kernel_set (deque_upd dq f s) = kernel_set s"
  by (simp_all add: deque_upd_def)

lemma dq_count_sel [simp]:
  "ker (dq_enter dq s) = ker s" "hdr (dq_enter dq s) = hdr s" "locks (dq_enter dq s) = locks s"
  "bytes (dq_enter dq s) = bytes s"
  "ker (dq_leave dq s) = ker s" "hdr (dq_leave dq s) = hdr s" "locks (dq_leave dq s) = locks s"
  "bytes (dq_leave dq s) = bytes s"
  by (simp_all add: dq_enter_def dq_leave_def)

lemma dq_leave_enter [simp]: "dq_leave dq (dq_enter dq s) = s"
  by (simp add: dq_leave_def dq_enter_def deque_upd_def)

lemma dq_leave_upd [simp]:
  "dq_leave dq (cycle_lock l s) = cycle_lock l (dq_leave dq s)"
  "dq_leave dq (mem_upd a v s) = mem_upd a v (dq_leave dq s)"
  by (simp_all add: dq_leave_def deque_upd_def cycle_lock_def mem_upd_def)

text \<open>
  What a client relies on: the deque and its event flags are live, its lock is free, only the
  flags for space and data are set, and not more threads wait than a result can count.
\<close>

definition dq_ready :: "addr \<Rightarrow> rtos \<Rightarrow> bool" where
  "dq_ready dq s \<longleftrightarrow> ef_ok (events_at dq) s \<and> osIsResourceValid dq RTOS_DEQUE_MARKER s = osOK \<and>
    spin_free (locks s (ObjectLock dq)) \<and> ef_flags s (events_at dq) AND NOT 3 = 0 \<and>
    length (queues (ker s) (Waiters (futex_at (events_at dq)))) < 2 ^ 31"

lemma dq_readyD:
  assumes "dq_ready dq s"
  shows "ef_ok (events_at dq) s" "osIsResourceValid dq RTOS_DEQUE_MARKER s = osOK"
    "spin_free (locks s (ObjectLock dq))" "ef_flags s (events_at dq) AND NOT 3 = 0"
    "length (queues (ker s) (Waiters (futex_at (events_at dq)))) < 2 ^ 31" "ipsr (ker s) = 0"
    "osIsResourceValid (events_at dq) RTOS_EVENTFLAGS_MARKER s = osOK"
  using assms by (simp_all add: dq_ready_def ef_ok_def)

lemma dq_ready_cong:
  assumes "ker s' = ker s" "hdr s' = hdr s" "spin_free (locks s' (ObjectLock dq)) = spin_free (locks s (ObjectLock dq))"
  shows "dq_ready dq s' = dq_ready dq s"
  using assms by (simp add: dq_ready_def ef_ok_def osIsResourceValid_def)

lemma dq_ready_sel [simp]:
  "dq_ready dq (dq_enter dq' s) = dq_ready dq s" "dq_ready dq (dq_leave dq' s) = dq_ready dq s"
  "dq_ready dq (cycle_lock l s) = dq_ready dq s" "dq_ready dq (s\<lparr>bytes := b\<rparr>) = dq_ready dq s"
  by (rule dq_ready_cong; simp)+

lemma dq_ready_clear:
  assumes "dq_ready dq s"
  shows "dq_ready dq (mem_upd (flags_at (events_at dq)) (ef_flags s (events_at dq) AND v) s)"
proof -
  have "(f AND v) AND NOT 3 = 0" if "f AND NOT 3 = 0" for f :: word32
    using that by (metis and.assoc and.commute and.right_idem and_zero_eq)
  then show ?thesis using assms by (simp add: dq_ready_def ef_ok_def osIsResourceValid_def)
qed

text \<open>Flags below 4 have neither the error bit nor the bit of a reset.\<close>

lemma low_flags:
  fixes f :: word32
  assumes "f AND NOT 3 = 0"
  shows "f AND osFlagsError = 0" "f AND RTOS_DEQUE_RESET = 0" "f AND (RTOS_DEQUE_RESET OR osFlagsError) = 0"
    "f AND (v OR RTOS_DEQUE_RESET) = f AND v"
proof -
  have sub: "f AND (NOT 3 AND m) = 0" for m
    by (simp only: and.assoc [symmetric] assms zero_and_eq)
  show "f AND osFlagsError = 0" "f AND RTOS_DEQUE_RESET = 0" "f AND (RTOS_DEQUE_RESET OR osFlagsError) = 0"
    using sub [of osFlagsError] sub [of RTOS_DEQUE_RESET] sub [of "RTOS_DEQUE_RESET OR osFlagsError"] by simp_all
  then show "f AND (v OR RTOS_DEQUE_RESET) = f AND v" by (simp add: bit.conj_disj_distrib)
qed

lemma mem_upd_twice [simp]: "mem_upd a v (mem_upd a w s) = mem_upd a v s"
  by (simp add: mem_upd_def)

text \<open>A turn of the loop: nothing to wait for, or one failed attempt.\<close>

lemma wait_loop_free:
  assumes "spin_free (locks s (ObjectLock dq))" "\<not> blocked (deque_of s dq)"
  shows "deque_wait_loop P script dq blocked avail timeout s = Some (Inr (primask (ker s)),
    set_masked True ((locks s)(ObjectLock dq := snd (spin_take (locks s (ObjectLock dq))))) s)"
  using assms by (simp add: deque_wait_loop.simps [of P script] spin_lock_free)

lemma wait_loop_blocked:
  assumes r: "dq_ready dq s" and b: "blocked (deque_of s dq)" and a: "avail AND NOT 3 = 0"
  shows "deque_wait_loop P ([(id, run)] # script) dq blocked avail 0 s =
    (if ef_flags s (events_at dq) AND avail = 0 then Some (Inl osErrorResource, dq_leave dq (cycle_lock (ObjectLock dq) s))
     else deque_wait_loop P script dq blocked avail 0 (mem_upd (flags_at (events_at dq))
       (ef_flags s (events_at dq) AND NOT avail) (cycle_lock (ObjectLock dq) s)))"
proof -
  let ?s = "cycle_lock (ObjectLock dq) s" and ?f = "ef_flags s (events_at dq)"
  note d = dq_readyD [OF r] and low = low_flags [OF dq_readyD(4) [OF r]] and al = low_flags [OF a]
  have ok: "ef_ok (events_at dq) ?s" using r dq_readyD(1) [of dq ?s] by simp
  have err: "(avail OR RTOS_DEQUE_RESET) AND osFlagsError = 0" using al(1) by (simp add: bit.conj_disj_distrib2)
  have met: "flags_met (osFlagsWaitAny OR osFlagsNoClear) (avail OR RTOS_DEQUE_RESET) (ef_flags ?s (events_at dq)) = (?f AND avail \<noteq> 0)"
    using low(4) by (simp add: flags_met_def)
  have un: "spin_unlock_irqrestore (ObjectLock dq) (primask (ker s))
      (set_masked True ((locks s)(ObjectLock dq := snd (spin_take (locks s (ObjectLock dq))))) s) = ?s"
    by (rule spin_unlock_taken) simp_all
  have valid: "osIsResourceValid (events_at dq) RTOS_EVENTFLAGS_MARKER (mem_upd a v ?s) = osOK" for a v
    using d(7) by (simp add: osIsResourceValid_def)
  show ?thesis
  proof (cases "?f AND avail = 0")
    case True
    then have "osEventFlagsWait P [(id, run)] (events_at dq) (avail OR RTOS_DEQUE_RESET)
        (osFlagsWaitAny OR osFlagsNoClear) 0 ?s = Some (osFlagsErrorResource, ?s)"
      using osEventFlagsWait_not_met [OF ok err] met by blast
    then show ?thesis using True b un
      by (simp add: deque_wait_loop.simps [of P "[(id, run)] # script"] spin_lock_free [OF d(3)])
  next
    case False
    then have w: "osEventFlagsWait P [(id, run)] (events_at dq) (avail OR RTOS_DEQUE_RESET)
        (osFlagsWaitAny OR osFlagsNoClear) 0 ?s = Some (?f, mem_upd (flags_at (events_at dq)) ?f ?s)"
      using osEventFlagsWait_met [OF ok err, of "osFlagsWaitAny OR osFlagsNoClear" P run "[]" 0] met by simp
    have c: "osEventFlagsClear (events_at dq) avail (mem_upd (flags_at (events_at dq)) ?f ?s) =
        (?f, mem_upd (flags_at (events_at dq)) (?f AND NOT avail) ?s)"
      using al(1) valid by (simp add: osEventFlagsClear_def)
    show ?thesis using False b un w c low(1,2)
      by (simp add: deque_wait_loop.simps [of P "[(id, run)] # script"] spin_lock_free [OF d(3)])
  qed
qed

text \<open>
  An access that need not wait. The accesses differ in their bodies, which neither look at the
  lock nor at the number of waiters.
\<close>

definition dq_body :: "addr \<Rightarrow> (rtos \<Rightarrow> rtos) \<Rightarrow> bool" where
  "dq_body dq body \<longleftrightarrow> (\<forall>p L s. body (set_masked p L s) = set_masked p L (body s)) \<and>
    (\<forall>s. dq_leave dq (body (dq_enter dq s)) = body s \<and> locks (body s) = locks s \<and> ker (body s) = ker s \<and> hdr (body s) = hdr s)"

lemma deque_access_ok:
  assumes r: "dq_ready dq s" and e: "element \<noteq> 0" and b: "\<And>w. \<not> blocked ((deque_of s dq)\<lparr>dq_waiters := w\<rparr>)"
    and body: "dq_body dq body" and k: "kick AND NOT 3 = 0"
  shows "\<exists>kr. deque_access P script dq element timeout blocked avail body kick s =
    Some (osOK, (cycle_lock (ObjectLock dq) (body s))\<lparr>ker := kr\<rparr>) \<and>
    dq_ready dq ((cycle_lock (ObjectLock dq) (body s))\<lparr>ker := kr\<rparr>)"
proof -
  let ?l = "ObjectLock dq" and ?f = "ef_flags s (events_at dq)"
  let ?s1 = "cycle_lock ?l (body s)"
  note d = dq_readyD [OF r] and low = low_flags [OF dq_readyD(4) [OF r]]
  have bd: "locks (body s') = locks s'" "ker (body s') = ker s'" "hdr (body s') = hdr s'"
    "body (set_masked p L s') = set_masked p L (body s')" "dq_leave dq (body (dq_enter dq s')) = body s'" for s' p L
    using body by (simp_all add: dq_body_def)
  have nb: "\<not> blocked (deque_of (dq_enter dq s) dq)" using b by (simp add: dq_enter_def)
  have un: "spin_unlock_irqrestore ?l (primask (ker s)) (set_masked True ((locks s)(?l := snd (spin_take (locks s ?l))))
      (body (dq_enter dq s))) = cycle_lock ?l (body (dq_enter dq s))"
    by (rule spin_unlock_taken) (simp_all add: bd(1,2))
  have r1: "dq_ready dq ?s1" using r dq_ready_cong [of "body s" s dq] by (simp add: bd)
  obtain kr where kr: "osEventFlagsSet P (events_at dq) kick ?s1 = Some (ef_flags ?s1 (events_at dq) OR kick, ?s1\<lparr>ker := kr\<rparr>)"
    "ef_ok (events_at dq) (?s1\<lparr>ker := kr\<rparr>)"
    "mem kr = (mem (ker ?s1))(flags_at (events_at dq) := ef_flags ?s1 (events_at dq) OR kick)"
    "queues kr (Waiters (futex_at (events_at dq))) = [] \<or> queues kr = queues (ker ?s1)"
    using osEventFlagsSet_ok [OF dq_readyD(1) [OF r1] low_flags(1) [OF k] dq_readyD(5) [OF r1], of P] by (auto split: if_splits)
  have or: "(?f OR kick) AND NOT 3 = 0" using d(4) k by (simp only: bit.conj_disj_distrib2 or.left_neutral)
  have "deque_access P script dq element timeout blocked avail body kick s = Some (osOK, ?s1\<lparr>ker := kr\<rparr>)"
    using e d low kr(1) low_flags(1) [OF or] un wait_loop_free [of "dq_enter dq s" dq blocked P script avail timeout] nb
    by (simp add: deque_access_def osEventFlagsGet_def Let_def bd)
  moreover have "dq_ready dq (?s1\<lparr>ker := kr\<rparr>)"
    using kr(2-4) or d(2,3,5) by (auto simp: dq_ready_def osIsResourceValid_def bd)
  ultimately show ?thesis by blast
qed

text \<open>An attempt without waiting on a full or empty deque: a flag left over costs one more turn.\<close>

lemma deque_access_blocked:
  assumes r: "dq_ready dq s" and e: "element \<noteq> 0" and b: "\<And>w. blocked ((deque_of s dq)\<lparr>dq_waiters := w\<rparr>)"
    and a: "avail AND NOT 3 = 0"
  shows "\<exists>s'. deque_access P [[(id, run)], [(id, run)]] dq element 0 blocked avail body kick s = Some (osErrorResource, s') \<and>
    dq_ready dq s' \<and> deque_of s' = deque_of s \<and> bytes s' = bytes s"
proof -
  let ?l = "ObjectLock dq" and ?f = "ef_flags s (events_at dq)"
  note d = dq_readyD [OF r] and low = low_flags [OF dq_readyD(4) [OF r]]
  let ?s2 = "mem_upd (flags_at (events_at dq)) (?f AND NOT avail) (cycle_lock ?l (dq_enter dq s))"
  have r1: "dq_ready dq (dq_enter dq s)" "blocked (deque_of (dq_enter dq s) dq)" using r b by (simp, simp add: dq_enter_def)
  have r2: "dq_ready dq ?s2" "blocked (deque_of ?s2 dq)"
    using dq_ready_clear [of dq "cycle_lock ?l (dq_enter dq s)" "NOT avail"] r b by (simp, simp add: dq_enter_def)
  have "ef_flags ?s2 (events_at dq) AND avail = 0" by (simp add: and.assoc)
  then have "deque_wait_loop P [[(id, run)], [(id, run)]] dq blocked avail 0 (dq_enter dq s) =
      Some (Inl osErrorResource, if ?f AND avail = 0 then cycle_lock ?l s
        else mem_upd (flags_at (events_at dq)) (?f AND NOT avail) (cycle_lock ?l (cycle_lock ?l s)))"
    using wait_loop_blocked [OF r1(1) _ a, of blocked P run "[[(id, run)]]"] r1(2)
      wait_loop_blocked [OF r2(1) _ a, of blocked P run "[]"] r2(2) by (simp add: cycle_lock_upd(6) [symmetric])
  then show ?thesis
    using e d low dq_ready_clear [of dq "cycle_lock ?l (cycle_lock ?l s)" "NOT avail"] r
    by (simp add: deque_access_def osEventFlagsGet_def Let_def)
qed

section \<open>The ring holds a list\<close>

text \<open>
  The number of slots is a power of two and the slots lie in the address space; \<open>n\<close> elements
  start at the front and end before the back, so one slot always stays free.
\<close>

definition ring_memory :: "rtos_deque \<Rightarrow> rtos_memory_pool" where
  "ring_memory d = \<lparr>block_size = element_size d, capacity = element_count d, pool_data = dq_buffer d, free_list = 0\<rparr>"

definition ring_ok :: "nat \<Rightarrow> nat \<Rightarrow> rtos_deque \<Rightarrow> bool" where
  "ring_ok k n d \<longleftrightarrow> k < 32 \<and> element_count d = 2 ^ k \<and> n < 2 ^ k \<and> unat (dq_front d) < 2 ^ k \<and>
    unat (dq_back d) = (unat (dq_front d) + n) mod 2 ^ k \<and> pool_fits (ring_memory d)"

definition slot :: "rtos_deque \<Rightarrow> nat \<Rightarrow> addr" where
  "slot d i = slot_at d (of_nat i)"

definition elements :: "nat \<Rightarrow> (addr \<Rightarrow> word8) \<Rightarrow> rtos_deque \<Rightarrow> word8 list list" where
  "elements n b d = map (\<lambda>i. read_bytes b (slot d ((unat (dq_front d) + i) mod unat (element_count d))) (element_size d)) [0..<n]"

lemma length_elements [simp]: "length (elements n b d) = n"
  by (simp add: elements_def)

lemma ring_okD:
  assumes "ring_ok k n d"
  shows "k < 32" "element_count d = 2 ^ k" "unat (element_count d) = 2 ^ k" "n < 2 ^ k" "unat (dq_front d) < 2 ^ k"
    "unat (dq_back d) = (unat (dq_front d) + n) mod 2 ^ k" "pool_fits (ring_memory d)"
proof -
  show k: "k < 32" "element_count d = 2 ^ k" using assms by (simp_all add: ring_ok_def)
  have "(2 :: nat) ^ k < 2 ^ 32" using k(1) by (intro power_strict_increasing) simp_all
  then show "unat (element_count d) = 2 ^ k" using unat_of_nat32 [of "2 ^ k"] by (simp add: k(2))
qed (use assms in \<open>simp_all add: ring_ok_def\<close>)

lemma slots_apart:
  assumes r: "ring_ok k n d" and ij: "i < 2 ^ k" "j < 2 ^ k" "i \<noteq> j"
  shows "apart (slot d i) (element_size d) (slot d j) (element_size d)"
proof -
  note f = ring_okD(7) [OF r]
  let ?m = "unat (element_size d)"
  have u: "unat (slot d i') = unat (dq_buffer d) + i' * ?m" "unat (slot d i') + ?m < 2 ^ 32" if "i' < 2 ^ k" for i'
  proof -
    show s: "unat (slot d i') = unat (dq_buffer d) + i' * ?m"
      using block_unat [OF f, of i'] that ring_okD(3) [OF r] by (simp add: ring_memory_def slot_def slot_at_def)
    have "Suc i' * ?m \<le> 2 ^ k * ?m" using that by (intro mult_le_mono1) simp
    then show "unat (slot d i') + ?m < 2 ^ 32"
      using f s ring_okD(3) [OF r] by (simp add: pool_fits_def ring_memory_def mult.commute)
  qed
  have "Suc i * ?m \<le> j * ?m \<or> Suc j * ?m \<le> i * ?m"
    using ij(3) by (cases "i < j") (auto intro: mult_le_mono1 simp del: mult_Suc)
  then show ?thesis using u [OF ij(1)] u [OF ij(2)] by (intro apartI) auto
qed

lemma ring_full: "ring_ok k n d \<Longrightarrow> deque_is_full d \<longleftrightarrow> Suc n = 2 ^ k"
proof -
  assume r: "ring_ok k n d"
  note d = ring_okD [OF r]
  have "unat (modulo (dq_back d + 1) (2 ^ k)) = Suc (unat (dq_front d) + n) mod 2 ^ k"
    using modulo_unat [OF d(1)] unat_plus_mod [OF d(1), of "dq_back d" 1] d(6) by (simp add: mod_Suc_eq)
  then have "deque_is_full d \<longleftrightarrow> (unat (dq_front d) + Suc n) mod 2 ^ k = unat (dq_front d)"
    by (simp add: deque_is_full_def d(2) word_unat_eq_iff)
  moreover have "(unat (dq_front d) + Suc n) mod 2 ^ k = unat (dq_front d) \<longleftrightarrow> Suc n = 2 ^ k"
  proof
    assume eq: "(unat (dq_front d) + Suc n) mod 2 ^ k = unat (dq_front d)"
    show "Suc n = 2 ^ k"
    proof (rule ccontr)
      assume "Suc n \<noteq> 2 ^ k"
      then have "Suc n < 2 ^ k" using d(4) by simp
      from ring_inj [OF this, of 0 "unat (dq_front d)"] eq d(5) show False by simp
    qed
  qed (use d(5) in simp)
  ultimately show ?thesis by simp
qed

lemma ring_empty: "ring_ok k n d \<Longrightarrow> deque_is_empty d \<longleftrightarrow> n = 0"
  using ring_inj [of n "2 ^ k" 0 "unat (dq_front d)"] by (auto simp: ring_ok_def deque_is_empty_def word_unat_eq_iff)

lemma ring_rest:
  fixes e f n N :: nat
  assumes "(e + ((f + n) mod N + 1)) mod N = f" "f < N" "n < N" "e < N"
  shows "Suc n + e = N"
proof -
  have "(e + 1 + (f + n) mod N) mod N = (e + 1 + (f + n)) mod N" by (rule mod_add_right_eq)
  then have "(f + (Suc n + e)) mod N = (f + 0) mod N" using assms(1,2) by (simp add: ac_simps)
  then have "(Suc n + e) mod N = 0"
    using ring_inj [of "(Suc n + e) mod N" N 0 f] assms(2) mod_add_right_eq [of f "Suc n + e" N] by simp
  then obtain m where "Suc n + e = N * m" by (auto simp: mod_eq_0_iff_dvd)
  moreover have "0 < Suc n + e" "Suc n + e < N * 2" using assms by simp_all
  ultimately show ?thesis by (metis mult_less_cancel1 less_2_cases mult_0_right mult_1_right less_irrefl One_nat_def)
qed

lemma ring_count:
  assumes r: "ring_ok k n d"
  shows "modulo (dq_back d - dq_front d) (element_count d) = of_nat n"
    "modulo (dq_front d - (dq_back d + 1)) (element_count d) = of_nat (2 ^ k - 1 - n)"
proof -
  note d = ring_okD [OF r]
  let ?N = "2 ^ k :: nat"
  have N: "?N < 2 ^ 32" using d(1) by (intro power_strict_increasing) simp_all
  have part: "(unat (x - y) + unat y) mod ?N = unat x mod ?N" for x y :: word32
    using unat_plus_mod [OF d(1), of "x - y" y] by simp
  let ?c = "unat (modulo (dq_back d - dq_front d) (2 ^ k))"
  have c: "?c = unat (dq_back d - dq_front d) mod ?N" by (rule modulo_unat [OF d(1)])
  have "(unat (dq_front d) + ?c) mod ?N = (unat (dq_front d) + n) mod ?N"
    using part [of "dq_back d" "dq_front d"] d(6) by (simp add: c mod_simps add.commute)
  then have "?c = n" using ring_inj [of ?c ?N n] c d(4) by simp
  then show "modulo (dq_back d - dq_front d) (element_count d) = of_nat n"
    using d(2) by (metis of_nat_unat ucast_id)
  let ?e = "unat (modulo (dq_front d - (dq_back d + 1)) (2 ^ k))"
  have e: "?e = unat (dq_front d - (dq_back d + 1)) mod ?N" by (rule modulo_unat [OF d(1)])
  have "(?e + (unat (dq_back d) + 1)) mod ?N = (unat (dq_front d - (dq_back d + 1)) + unat (dq_back d + 1) mod ?N) mod ?N"
    using unat_plus_mod [OF d(1), of "dq_back d" 1] by (simp only: e unsigned_1 mod_simps)
  also have "\<dots> = unat (dq_front d)" using part [of "dq_front d" "dq_back d + 1"] d(5) by (simp only: mod_simps mod_less)
  finally have "(?e + (unat (dq_back d) + 1)) mod ?N = unat (dq_front d)" .
  then have "Suc n + ?e = ?N"
    using ring_rest [of ?e "unat (dq_front d)" n ?N] d(4-6) e by simp
  then have "?e = ?N - 1 - n" by simp
  then show "modulo (dq_front d - (dq_back d + 1)) (element_count d) = of_nat (2 ^ k - 1 - n)"
    using d(2) by (metis of_nat_unat ucast_id)
qed

section \<open>The deque as the application sees it\<close>

text \<open>
  A client appends what it has put into its buffer, takes the first element into its buffer, or
  asks how much is stored and how much fits, without waiting. A call has at most two turns.
\<close>

datatype dq_op = PushBack "word8 list" | PopFront | AskCount | AskSpace

datatype dq_result = Pushed word32 | Popped "word8 list option" | Counted word32

abbreviation two_turns :: "((rtos \<Rightarrow> rtos) \<times> (rtos \<Rightarrow> rtos)) list list" where
  "two_turns \<equiv> [[(id, id)], [(id, id)]]"

definition dq_client :: "port \<Rightarrow> addr \<Rightarrow> addr \<Rightarrow> dq_op \<Rightarrow> rtos \<Rightarrow> (dq_result \<times> rtos) option" where
  "dq_client P dq buf op s = (case op of
      PushBack xs \<Rightarrow> map_option (\<lambda>(status, s). (Pushed status, s))
        (osDequePutBack P two_turns dq buf 0 (s\<lparr>bytes := write_bytes buf xs (bytes s)\<rparr>))
    | PopFront \<Rightarrow> map_option (\<lambda>(status, s). (Popped (if status = osOK
          then Some (read_bytes (bytes s) buf (element_size (deque_of s dq))) else None), s))
        (osDequeGetFront P two_turns dq buf 0 s)
    | AskCount \<Rightarrow> Some (Counted (osDequeGetCount dq s), s)
    | AskSpace \<Rightarrow> Some (Counted (osDequeGetSpace dq s), s))"

text \<open>The specification: a list of at most \<open>n\<close> elements, first in, first out.\<close>

fun spec_fifo :: "nat \<Rightarrow> dq_op \<Rightarrow> word8 list list \<Rightarrow> dq_result \<times> word8 list list" where
  "spec_fifo n (PushBack xs) q = (if length q < n then (Pushed osOK, q @ [xs]) else (Pushed osErrorResource, q))"
| "spec_fifo n PopFront q = (case q of [] \<Rightarrow> (Popped None, []) | x # q \<Rightarrow> (Popped (Some x), q))"
| "spec_fifo n AskCount q = (Counted (of_nat (length q)), q)"
| "spec_fifo n AskSpace q = (Counted (of_nat (n - length q)), q)"

definition fits_element :: "word32 \<Rightarrow> dq_op \<Rightarrow> bool" where
  "fits_element n op = (case op of PushBack xs \<Rightarrow> length xs = unat n | _ \<Rightarrow> True)"

text \<open>\<open>q\<close> is stored, and the buffer of the client is outside of the ring.\<close>

definition dq_rep :: "addr \<Rightarrow> addr \<Rightarrow> nat \<Rightarrow> word32 \<Rightarrow> rtos \<Rightarrow> word8 list list \<Rightarrow> bool" where
  "dq_rep dq buf k m s q \<longleftrightarrow> dq_ready dq s \<and> ring_ok k (length q) (deque_of s dq) \<and> element_size (deque_of s dq) = m \<and>
    elements (length q) (bytes s) (deque_of s dq) = q \<and>
    buf \<noteq> 0 \<and> (\<forall>i<2 ^ k. apart (slot (deque_of s dq) i) m buf m)"

lemma dq_repD:
  assumes "dq_rep dq buf k m s q"
  shows "dq_ready dq s" "ring_ok k (length q) (deque_of s dq)" "element_size (deque_of s dq) = m"
    "elements (length q) (bytes s) (deque_of s dq) = q" "buf \<noteq> 0" "i < 2 ^ k \<Longrightarrow> apart (slot (deque_of s dq) i) m buf m"
  using assms by (simp_all add: dq_rep_def)

lemma slot_upd [simp]:
  "slot (d\<lparr>dq_back := b\<rparr>) i = slot d i" "slot (d\<lparr>dq_front := f\<rparr>) i = slot d i" "slot (d\<lparr>dq_waiters := w\<rparr>) i = slot d i"
  by (simp_all add: slot_def slot_at_def)

lemma ring_position: "ring_ok k n d \<Longrightarrow> x mod unat (element_count d) < 2 ^ k"
  using ring_okD(3) [of k n d] by simp

lemma slot_unat: "slot_at d pos = slot d (unat pos)"
  by (simp add: slot_def)

lemma elements_cong:
  assumes "\<And>i. i < n \<Longrightarrow> read_bytes b' (slot d ((unat (dq_front d) + i) mod unat (element_count d))) (element_size d) =
    read_bytes b (slot d ((unat (dq_front d) + i) mod unat (element_count d))) (element_size d)"
  shows "elements n b' d = elements n b d"
  using assms by (simp add: elements_def)

lemma dq_bodies:
  "dq_body dq (put_back_body dq buf)" "dq_body dq (get_front_body dq buf)" "dq_body dq (put_front_body dq buf)"
  by (auto simp: dq_body_def put_back_body_def get_front_body_def put_front_body_def deque_put_def deque_get_def deque_upd_def
      dq_enter_def dq_leave_def slot_at_def deque_inc_def deque_dec_def set_masked_upd Let_def)

lemma ring_ok_waiters: "deque_is_full (d\<lparr>dq_waiters := w\<rparr>) = deque_is_full d" "deque_is_empty (d\<lparr>dq_waiters := w\<rparr>) = deque_is_empty d"
  by (simp_all add: deque_is_full_def deque_is_empty_def)

text \<open>Filling the buffer does not touch what is stored.\<close>

lemma dq_rep_write:
  assumes "dq_rep dq buf k m s q" and "length xs = unat m"
  shows "dq_rep dq buf k m (s\<lparr>bytes := write_bytes buf xs (bytes s)\<rparr>) q"
proof -
  note d = dq_repD [OF assms(1)]
  have "elements (length q) (write_bytes buf xs (bytes s)) (deque_of s dq) = elements (length q) (bytes s) (deque_of s dq)"
    by (rule elements_cong) (simp add: d(3) read_write_apart [OF d(6) [OF ring_position [OF d(2)]] assms(2)])
  then show ?thesis using d by (simp add: dq_rep_def)
qed

lemma put_back_ring:
  assumes r: "ring_ok k n d" and n: "Suc n < 2 ^ k"
  shows "ring_ok k (Suc n) (d\<lparr>dq_back := deque_inc d (dq_back d)\<rparr>)"
    "elements (Suc n) (memcpy (slot_at d (dq_back d)) buf (element_size d) b) (d\<lparr>dq_back := deque_inc d (dq_back d)\<rparr>) =
      elements n b d @ [read_bytes b buf (element_size d)]"
proof -
  note d = ring_okD [OF r]
  have "unat (deque_inc d (dq_back d)) = (unat (dq_front d) + Suc n) mod 2 ^ k"
    using modulo_unat [OF d(1)] unat_plus_mod [OF d(1), of "dq_back d" 1] d(6) by (simp add: deque_inc_def d(2) mod_Suc_eq)
  then show "ring_ok k (Suc n) (d\<lparr>dq_back := deque_inc d (dq_back d)\<rparr>)"
    using d n by (simp add: ring_ok_def ring_memory_def)
  have at: "slot_at d (dq_back d) = slot d ((unat (dq_front d) + n) mod 2 ^ k)" by (simp add: slot_unat d(6))
  have "apart (slot d ((unat (dq_front d) + i) mod 2 ^ k)) (element_size d)
      (slot d ((unat (dq_front d) + n) mod 2 ^ k)) (element_size d)" if "i < n" for i
    by (rule slots_apart [OF r]) (use that d(4) ring_inj [of i "2 ^ k" n "unat (dq_front d)"] in auto)
  then show "elements (Suc n) (memcpy (slot_at d (dq_back d)) buf (element_size d) b) (d\<lparr>dq_back := deque_inc d (dq_back d)\<rparr>) =
      elements n b d @ [read_bytes b buf (element_size d)]"
    by (simp add: elements_def at d(3))
qed

lemma get_front_ring:
  assumes r: "ring_ok k (Suc n) d" and a: "\<And>i. i < 2 ^ k \<Longrightarrow> apart (slot d i) (element_size d) buf (element_size d)"
  shows "ring_ok k n (d\<lparr>dq_front := deque_inc d (dq_front d)\<rparr>)"
    "elements (Suc n) b d = read_bytes b (slot_at d (dq_front d)) (element_size d) #
      elements n (memcpy buf (slot_at d (dq_front d)) (element_size d) b) (d\<lparr>dq_front := deque_inc d (dq_front d)\<rparr>)"
proof -
  note d = ring_okD [OF r]
  have f: "unat (deque_inc d (dq_front d)) = Suc (unat (dq_front d)) mod 2 ^ k"
    using modulo_unat [OF d(1)] unat_plus_mod [OF d(1), of "dq_front d" 1] by (simp add: deque_inc_def d(2))
  then show "ring_ok k n (d\<lparr>dq_front := deque_inc d (dq_front d)\<rparr>)"
    using d by (simp add: ring_ok_def ring_memory_def mod_simps)
  have "(Suc (unat (dq_front d)) mod 2 ^ k + i) mod 2 ^ k = (unat (dq_front d) + Suc i) mod 2 ^ k" for i
    by (simp add: mod_simps)
  then show "elements (Suc n) b d = read_bytes b (slot_at d (dq_front d)) (element_size d) #
      elements n (memcpy buf (slot_at d (dq_front d)) (element_size d) b) (d\<lparr>dq_front := deque_inc d (dq_front d)\<rparr>)"
    using a d(5) by (simp add: elements_def f d(3) slot_unat upt_conv_Cons map_Suc_upt [symmetric] del: upt_Suc)
qed

lemma push_back_refines:
  assumes r: "dq_rep dq buf k m s q" and v: "length xs = unat m"
  shows "\<exists>s'. dq_client P dq buf (PushBack xs) s = Some (fst (spec_fifo (2 ^ k - 1) (PushBack xs) q), s') \<and>
    dq_rep dq buf k m s' (snd (spec_fifo (2 ^ k - 1) (PushBack xs) q))"
proof -
  let ?s = "s\<lparr>bytes := write_bytes buf xs (bytes s)\<rparr>"
  note d = dq_repD [OF dq_rep_write [OF r v]]
  let ?d = "deque_of ?s dq"
  show ?thesis
  proof (cases "Suc (length q) = 2 ^ k")
    case True
    have "\<exists>s'. osDequePutBack P two_turns dq buf 0 ?s = Some (osErrorResource, s') \<and> dq_ready dq s' \<and>
        deque_of s' = deque_of ?s \<and> bytes s' = bytes ?s"
      unfolding osDequePutBack_def by (rule deque_access_blocked [OF d(1,5)])
        (use ring_full [OF d(2)] True in \<open>simp_all add: ring_ok_waiters\<close>)
    then show ?thesis using True d by (auto simp: dq_client_def dq_rep_def)
  next
    case False
    then have n: "Suc (length q) < 2 ^ k" using ring_okD(4) [OF d(2)] by simp
    have "\<exists>kr. osDequePutBack P two_turns dq buf 0 ?s =
        Some (osOK, (cycle_lock (ObjectLock dq) (put_back_body dq buf ?s))\<lparr>ker := kr\<rparr>) \<and>
        dq_ready dq ((cycle_lock (ObjectLock dq) (put_back_body dq buf ?s))\<lparr>ker := kr\<rparr>)"
      unfolding osDequePutBack_def by (rule deque_access_ok [OF d(1,5)])
        (use ring_full [OF d(2)] False dq_bodies in \<open>simp_all add: ring_ok_waiters\<close>)
    then obtain kr where kr: "osDequePutBack P two_turns dq buf 0 ?s =
        Some (osOK, (cycle_lock (ObjectLock dq) (put_back_body dq buf ?s))\<lparr>ker := kr\<rparr>)"
      "dq_ready dq ((cycle_lock (ObjectLock dq) (put_back_body dq buf ?s))\<lparr>ker := kr\<rparr>)" by blast
    have "dq_rep dq buf k m ((cycle_lock (ObjectLock dq) (put_back_body dq buf ?s))\<lparr>ker := kr\<rparr>) (q @ [xs])"
      using kr(2) d(3-6) v put_back_ring(1) [OF d(2) n] put_back_ring(2) [OF d(2) n, of buf "bytes ?s"]
      by (simp add: dq_rep_def put_back_body_def deque_put_def)
    then show ?thesis using kr(1) n by (simp add: dq_client_def less_diff_conv)
  qed
qed

lemma pop_front_refines:
  assumes r: "dq_rep dq buf k m s q"
  shows "\<exists>s'. dq_client P dq buf PopFront s = Some (fst (spec_fifo (2 ^ k - 1) PopFront q), s') \<and>
    dq_rep dq buf k m s' (snd (spec_fifo (2 ^ k - 1) PopFront q))"
proof -
  note d = dq_repD [OF r]
  let ?d = "deque_of s dq"
  show ?thesis
  proof (cases q)
    case Nil
    have "\<exists>s'. osDequeGetFront P two_turns dq buf 0 s = Some (osErrorResource, s') \<and> dq_ready dq s' \<and>
        deque_of s' = deque_of s \<and> bytes s' = bytes s"
      unfolding osDequeGetFront_def by (rule deque_access_blocked [OF d(1,5)])
        (use ring_empty [OF d(2)] Nil in \<open>simp_all add: ring_ok_waiters\<close>)
    then obtain s' where "osDequeGetFront P two_turns dq buf 0 s = Some (osErrorResource, s')" "dq_rep dq buf k m s' q"
      using d by (auto simp: dq_rep_def)
    then show ?thesis using Nil by (simp add: dq_client_def)
  next
    case (Cons x q')
    have "\<exists>kr. osDequeGetFront P two_turns dq buf 0 s =
        Some (osOK, (cycle_lock (ObjectLock dq) (get_front_body dq buf s))\<lparr>ker := kr\<rparr>) \<and>
        dq_ready dq ((cycle_lock (ObjectLock dq) (get_front_body dq buf s))\<lparr>ker := kr\<rparr>)"
      unfolding osDequeGetFront_def by (rule deque_access_ok [OF d(1,5)])
        (use ring_empty [OF d(2)] Cons dq_bodies in \<open>simp_all add: ring_ok_waiters\<close>)
    then obtain kr where kr: "osDequeGetFront P two_turns dq buf 0 s =
        Some (osOK, (cycle_lock (ObjectLock dq) (get_front_body dq buf s))\<lparr>ker := kr\<rparr>)"
      "dq_ready dq ((cycle_lock (ObjectLock dq) (get_front_body dq buf s))\<lparr>ker := kr\<rparr>)" by blast
    let ?t = "(cycle_lock (ObjectLock dq) (get_front_body dq buf s))\<lparr>ker := kr\<rparr>"
    have len: "ring_ok k (Suc (length q')) ?d" using d(2) Cons by simp
    have g: "ring_ok k (length q') (deque_of ?t dq)" "x # q' = read_bytes (bytes s) (slot_at ?d (dq_front ?d)) m #
        elements (length q') (bytes ?t) (deque_of ?t dq)"
      using get_front_ring(1) [OF len, of buf] get_front_ring(2) [OF len, of buf "bytes s"] d(3,4,6) Cons by (simp_all add: get_front_body_def deque_get_def Let_def)
    have "dq_rep dq buf k m ?t q'"
      using kr(2) d(3,5,6) g by (simp add: dq_rep_def get_front_body_def deque_get_def Let_def)
    moreover have "read_bytes (bytes ?t) buf (element_size (deque_of ?t dq)) = x"
      using g(2) d(3) by (simp add: get_front_body_def deque_get_def Let_def)
    ultimately show ?thesis using kr(1) Cons by (simp add: dq_client_def)
  qed
qed

interpretation dqi: refines "dq_client P dq buf" "spec_fifo (2 ^ k - 1)" "dq_rep dq buf k m" "fits_element m"
  for P dq buf k m
proof
  fix s q op
  assume r: "dq_rep dq buf k m s q" and v: "fits_element m op"
  have "Suc (length q) \<le> 2 ^ k" using ring_okD(4) [OF dq_repD(2) [OF r]] by simp
  then show "\<exists>s'. dq_client P dq buf op s = Some (fst (spec_fifo (2 ^ k - 1) op q), s') \<and>
      dq_rep dq buf k m s' (snd (spec_fifo (2 ^ k - 1) op q))"
    using v push_back_refines [OF r] pop_front_refines [OF r] dq_readyD(2) [OF dq_repD(1) [OF r]] ring_count [OF dq_repD(2) [OF r]] r
    by (cases op) (simp_all add: fits_element_def dq_client_def osDequeGetCount_def osDequeGetSpace_def Let_def del: spec_fifo.simps(1,2))
qed

lemma put_front_ring:
  assumes r: "ring_ok k (Suc n) d"
  shows "elements (Suc n) (memcpy (slot d (unat (dq_front d))) buf (element_size d) b) d =
    read_bytes b buf (element_size d) # tl (elements (Suc n) b d)"
proof -
  note o = ring_okD [OF r]
  have E: "elements (Suc n) b' d = read_bytes b' (slot d (unat (dq_front d))) (element_size d) #
      map (\<lambda>i. read_bytes b' (slot d ((unat (dq_front d) + Suc i) mod 2 ^ k)) (element_size d)) [0..<n]" for b'
    using o(3,5) by (simp add: elements_def upt_conv_Cons map_Suc_upt [symmetric] comp_def del: upt_Suc)
  have "apart (slot d ((unat (dq_front d) + Suc i) mod 2 ^ k)) (element_size d) (slot d (unat (dq_front d))) (element_size d)"
    if "i < n" for i
    by (rule slots_apart [OF r]) (use that o(4,5) ring_inj [of "Suc i" "2 ^ k" 0 "unat (dq_front d)"] in auto)
  then show ?thesis by (simp add: E)
qed

section \<open>Properties\<close>

lemma osDequeNew_static:
  assumes k: "kinv (ker s)" and i: "ipsr (ker s) = 0" and ks: "kernel_set s" and l: "\<And>l. spin_free (locks s l)"
    and m: "m AND (m - 1) = 0"
    and a: "a_cb_mem attr = dq" "SIZEOF_DEQUE \<le> a_cb_size attr" "a_mem attr = start" "start \<noteq> 0" "16 + m * count \<le> a_size attr"
    and p: "dq \<noteq> 0" "unat dq + 160 < 2 ^ 32" and q: "queues (ker s) (Waiters (dq + 88)) = []"
  shows "\<exists>s'. osDequeNew P count m (Some attr) s = Some (dq, s') \<and> dq_ready dq s' \<and>
    deque_of s' dq = \<lparr>element_size = m, element_count = count, dq_front = 0, dq_back = 0, dq_buffer = start,
      dq_waiters = dq_waiters (deque_of s dq)\<rparr>"
proof -
  have nz: "dq + of_nat j \<noteq> 0" if "j \<le> 160" for j using offset_not_0 [OF p(2,1) that] .
  have nz': "events_at dq \<noteq> 0" "88 + dq \<noteq> 0" "124 + dq \<noteq> 0" "dq + resource_offset osResourceDeque \<noteq> 0"
    using nz [of 48] nz [of 88] nz [of 124] nz [of 152] by (simp_all add: add.commute)
  let ?name = "take 31 (case a_name attr of None \<Rightarrow> ''deque'' | Some n \<Rightarrow> n)"
  define s1 where "s1 = (deque_upd dq (\<lambda>d. d\<lparr>element_size := m, element_count := count, dq_front := 0, dq_back := 0, dq_buffer := start\<rparr>)
    (hdr_upd dq (\<lambda>h. h\<lparr>marker := RTOS_DEQUE_MARKER, obj_name := ?name\<rparr>) s))\<lparr>locks := (locks s)(ObjectLock dq := 0)\<rparr>"
  let ?ea = "no_attr\<lparr>a_name := a_name attr, a_cb_mem := events_at dq, a_cb_size := SIZEOF_EVENTFLAGS\<rparr>"
  have s1: "ker s1 = ker s" "kernel_set s1" "spin_free (locks s1 l)" "marker (hdr s1 dq) = RTOS_DEQUE_MARKER"
    "deque_of s1 dq = \<lparr>element_size = m, element_count = count, dq_front = 0, dq_back = 0, dq_buffer = start,
      dq_waiters = dq_waiters (deque_of s dq)\<rparr>" for l
    using ks l by (simp_all add: s1_def hdr_upd_def deque_upd_def)
  obtain kr where e: "osEventFlagsNew P (Some ?ea) s1 = Some (events_at dq, (ef_created ?ea (events_at dq) s1)\<lparr>ker := kr\<rparr>)"
    "ef_ok (events_at dq) ((ef_created ?ea (events_at dq) s1)\<lparr>ker := kr\<rparr>)"
    "mem kr = (mem (ker s1))(flags_at (events_at dq) := 0)" "queues kr = queues (ker s1)"
    using osEventFlagsNew_static [of s1 ?ea "events_at dq" P] k i s1(1-3) nz' q by (auto simp: no_attr_def add.commute)
  define s2 where "s2 = (ef_created ?ea (events_at dq) s1)\<lparr>ker := kr\<rparr>"
  have s2: "ker s2 = kr" "deque_of s2 = deque_of s1" "marker (hdr s2 dq) = RTOS_DEQUE_MARKER" "spin_free (locks s2 l)" "ipsr kr = 0" "kernel_set s2" for l
    using s1 e(2) by (simp_all add: s2_def ef_created_def ef_ok_def)
  define s3 where "s3 = cycle_lock (ResourceLock osResourceDeque)
    (s2\<lparr>resources := (resources s2)(osResourceDeque := resources s2 osResourceDeque @ [dq + resource_offset osResourceDeque])\<rparr>)"
  have add: "osKernelResourceAdd P osResourceDeque (dq + resource_offset osResourceDeque) s2 = Some (osOK, s3)"
    unfolding s3_def by (rule osKernelResourceAdd_ok) (use s2 nz'(4) in simp_all)
  have "osDequeNew P count m (Some attr) s = Some (dq, s3)"
    using i a p(1) nz'(1) e(1) add m
    by (simp add: osDequeNew_def Let_def modulo_def s1_def [symmetric] s2_def [symmetric] not_less)
  moreover have "dq_ready dq s3"
    using e(2-4) s2 s1(1) q p(1) by (auto simp: dq_ready_def s3_def s2_def [symmetric] ef_ok_def osIsResourceValid_def add.commute)
  moreover have "deque_of s3 = deque_of s1" by (simp add: s3_def s2)
  ultimately show ?thesis using s1(5) by auto
qed

lemma new_deque_rep:
  assumes "dq_ready dq s" and d: "deque_of s dq = \<lparr>element_size = m, element_count = 2 ^ k, dq_front = 0, dq_back = 0, dq_buffer = start,
      dq_waiters = w\<rparr>"
    and k: "k < 32" "unat start + unat m * 2 ^ k < 2 ^ 32"
    and b: "buf \<noteq> 0" "\<forall>i<2 ^ k. apart (start + of_nat i * m) m buf m"
  shows "dq_rep dq buf k m s []"
proof -
  have "(2 :: nat) ^ k < 2 ^ 32" using k(1) by (intro power_strict_increasing) simp_all
  then have "unat (2 ^ k :: word32) = 2 ^ k" using unat_of_nat32 [of "2 ^ k"] by simp
  then show ?thesis
    using assms by (simp add: dq_rep_def ring_ok_def ring_memory_def pool_fits_def elements_def slot_def slot_at_def)
qed

text \<open>
  C8. A deque in memory of the application, with a power of two of slots, is created empty, and
  from then on every sequence of appending at the back, taking from the front and asking for the
  sizes, without waiting, gets exactly the answers of a bounded list that holds one element less
  than there are slots: elements come out unchanged in the order they went in, an append fails exactly when the
  deque is full and a take exactly when it is empty.
\<close>

theorem deque_refines_fifo:
  assumes kinv: "kinv (ker s)" and i: "ipsr (ker s) = 0" and ks: "kernel_set s" and l: "\<And>l. spin_free (locks s l)"
    and m: "m AND (m - 1) = 0" and k: "k < 32" "unat start + unat m * 2 ^ k < 2 ^ 32"
    and a: "a_cb_mem attr = dq" "SIZEOF_DEQUE \<le> a_cb_size attr" "a_mem attr = start" "start \<noteq> 0" "16 + m * 2 ^ k \<le> a_size attr"
    and p: "dq \<noteq> 0" "unat dq + 160 < 2 ^ 32" and q: "queues (ker s) (Waiters (dq + 88)) = []"
    and b: "buf \<noteq> 0" "\<forall>i<2 ^ k. apart (start + of_nat i * m) m buf m" and v: "\<forall>op\<in>set ops. fits_element m op"
  shows "\<exists>s1 s2. osDequeNew P (2 ^ k) m (Some attr) s = Some (dq, s1) \<and>
    run_ops (dq_client P dq buf) ops s1 = Some (fst (run_spec (spec_fifo (2 ^ k - 1)) ops []), s2)"
proof -
  obtain s1 where s1: "osDequeNew P (2 ^ k) m (Some attr) s = Some (dq, s1)" "dq_ready dq s1"
    "deque_of s1 dq = \<lparr>element_size = m, element_count = 2 ^ k, dq_front = 0, dq_back = 0, dq_buffer = start,
      dq_waiters = dq_waiters (deque_of s dq)\<rparr>"
    using osDequeNew_static [OF kinv i ks l m a p q, of P] by blast
  from dqi.run_refines [OF new_deque_rep [OF s1(2,3) k b] v, of P] s1(1) show ?thesis by blast
qed

text \<open>
  Putting an element at the front of a deque that is not full reports success but inserts
  nothing: an empty deque stays empty, and otherwise the first element is replaced, because the
  front is moved back by one and then forward again by \<open>deque_dec\<close>.
\<close>

theorem deque_put_front_overwrites:
  assumes r: "dq_rep dq buf k m s q" and n: "length q < 2 ^ k - 1" and v: "length xs = unat m"
  shows "\<exists>s'. osDequePutFront P script dq buf timeout (s\<lparr>bytes := write_bytes buf xs (bytes s)\<rparr>) = Some (osOK, s') \<and>
    dq_rep dq buf k m s' (case q of [] \<Rightarrow> [] | _ # q \<Rightarrow> xs # q)"
proof -
  let ?s = "s\<lparr>bytes := write_bytes buf xs (bytes s)\<rparr>"
  note d = dq_repD [OF dq_rep_write [OF r v]]
  let ?d = "deque_of ?s dq"
  note o = ring_okD [OF d(2)]
  have "unat (deque_dec ?d (dq_front ?d - 1)) = unat (dq_front ?d)"
    using modulo_unat [OF o(1), of "dq_front ?d"] o(5) o(2) by (simp add: deque_dec_def)
  then have f: "deque_dec (deque_of s dq) (dq_front (deque_of s dq) - 1) = dq_front (deque_of s dq)" by (simp add: word_unat_eq_iff)
  have body: "put_front_body dq buf ?s = deque_put dq buf (dq_front ?d) ?s"
    by (simp add: put_front_body_def deque_upd_def f)
  have "\<exists>kr. osDequePutFront P script dq buf timeout ?s =
      Some (osOK, (cycle_lock (ObjectLock dq) (put_front_body dq buf ?s))\<lparr>ker := kr\<rparr>) \<and>
      dq_ready dq ((cycle_lock (ObjectLock dq) (put_front_body dq buf ?s))\<lparr>ker := kr\<rparr>)"
    unfolding osDequePutFront_def by (rule deque_access_ok [OF d(1,5)])
      (use ring_full [OF d(2)] n dq_bodies in \<open>simp_all add: ring_ok_waiters\<close>)
  then obtain kr where kr: "osDequePutFront P script dq buf timeout ?s =
      Some (osOK, (cycle_lock (ObjectLock dq) (deque_put dq buf (dq_front ?d) ?s))\<lparr>ker := kr\<rparr>)"
    "dq_ready dq ((cycle_lock (ObjectLock dq) (deque_put dq buf (dq_front ?d) ?s))\<lparr>ker := kr\<rparr>)" unfolding body by blast
  let ?b = "memcpy (slot ?d (unat (dq_front ?d))) buf m (write_bytes buf xs (bytes s))"
  have "elements (length q) ?b ?d = (case q of [] \<Rightarrow> [] | _ # q \<Rightarrow> xs # q)"
  proof (cases q)
    case (Cons x q')
    then show ?thesis using put_front_ring [of k "length q'" ?d buf "bytes ?s"] d(2-4) v by simp
  qed (simp add: elements_def)
  moreover have "length (case q of [] \<Rightarrow> [] | _ # q \<Rightarrow> xs # q) = length q" by (cases q) simp_all
  ultimately have "dq_rep dq buf k m ((cycle_lock (ObjectLock dq) (deque_put dq buf (dq_front ?d) ?s))\<lparr>ker := kr\<rparr>)
      (case q of [] \<Rightarrow> [] | _ # q \<Rightarrow> xs # q)"
    using kr(2) d(2,3,5,6) by (simp add: dq_rep_def deque_put_def slot_unat)
  then show ?thesis using kr(1) by blast
qed

definition sample_deque_attr :: os_attr where
  "sample_deque_attr = no_attr\<lparr>a_cb_mem := 0x4000, a_cb_size := 160, a_mem := 0x6000, a_size := 24\<rparr>"

lemma sample_deque_args:
  "kinv (ker sample_rtos)" "ipsr (ker sample_rtos) = 0" "kernel_set sample_rtos" "spin_free (locks sample_rtos l)"
  "(2 :: word32) AND (2 - 1) = 0" "a_cb_mem sample_deque_attr = 0x4000" "SIZEOF_DEQUE \<le> a_cb_size sample_deque_attr"
  "a_mem sample_deque_attr = 0x6000" "(16 :: word32) + 2 * 2 ^ 2 \<le> a_size sample_deque_attr"
  "queues (ker sample_rtos) (Waiters (0x4000 + 88)) = []" "\<forall>i<2 ^ 2. apart (0x6000 + of_nat i * 2) 2 0x7000 2"
proof -
  have "apart 0x6000 2 0x7000 2" "apart 0x6002 2 0x7000 2" "apart 0x6004 2 0x7000 2" "apart 0x6006 2 0x7000 2"
    by (rule apartI; simp)+
  then show "\<forall>i<2 ^ 2. apart (0x6000 + of_nat i * 2) 2 0x7000 2" by (simp add: numeral_eq_Suc All_less_Suc)
qed (use sample_ker_kinv in \<open>simp_all add: sample_deque_attr_def no_attr_def sample_rtos_def sample_ker_def sample_sys_def\<close>)

theorem deque_refines_fifo_witness:
  "\<exists>s1 s2. osDequeNew sample_port 4 2 (Some sample_deque_attr) sample_rtos = Some (0x4000, s1) \<and>
    run_ops (dq_client sample_port 0x4000 0x7000)
      [PushBack [1, 2], PushBack [3, 4], PushBack [5, 6], PushBack [7, 8], PopFront, AskCount, PopFront, PopFront, PopFront] s1 =
    Some ([Pushed osOK, Pushed osOK, Pushed osOK, Pushed osErrorResource, Popped (Some [1, 2]), Counted 2,
      Popped (Some [3, 4]), Popped (Some [5, 6]), Popped None], s2)"
  using deque_refines_fifo [OF sample_deque_args(1-5) _ _ sample_deque_args(6-8) _ sample_deque_args(9) _ _ sample_deque_args(10) _
      sample_deque_args(11),
      of "[PushBack [1, 2], PushBack [3, 4], PushBack [5, 6], PushBack [7, 8], PopFront, AskCount, PopFront, PopFront, PopFront]" sample_port]
  by (simp add: fits_element_def Let_def del: run_ops.simps)

theorem deque_put_front_overwrites_witness:
  "\<exists>s1 s2. osDequeNew sample_port 4 2 (Some sample_deque_attr) sample_rtos = Some (0x4000, s1) \<and>
    osDequePutFront sample_port two_turns 0x4000 0x7000 0 (s1\<lparr>bytes := write_bytes 0x7000 [1, 2] (bytes s1)\<rparr>) = Some (osOK, s2) \<and>
    dq_rep 0x4000 0x7000 2 2 s2 []"
proof -
  obtain s1 where s1: "osDequeNew sample_port (2 ^ 2) 2 (Some sample_deque_attr) sample_rtos = Some (0x4000, s1)" "dq_ready 0x4000 s1"
    "deque_of s1 0x4000 = \<lparr>element_size = 2, element_count = 2 ^ 2, dq_front = 0, dq_back = 0, dq_buffer = 0x6000,
      dq_waiters = dq_waiters (deque_of sample_rtos 0x4000)\<rparr>"
    using osDequeNew_static [OF sample_deque_args(1-8) _ sample_deque_args(9) _ _ sample_deque_args(10), of sample_port] by auto
  have "dq_rep 0x4000 0x7000 2 2 s1 []" by (rule new_deque_rep [OF s1(2,3) _ _ _ sample_deque_args(11)]) simp_all
  from deque_put_front_overwrites [OF this, of "[1, 2]" sample_port two_turns 0] s1(1) show ?thesis by simp
qed

end
