(* ===== verification/Rtos_Timer.thy ===== *)
theory Rtos_Timer
  imports Rtos_Thread Rtos_Message_Queue
begin

text \<open>
  Timers, \<open>cmsis-rtos2-timer.c\<close>: the running timers in a list ordered by their target, the hook
  that the tick interrupt calls, the queue and the thread that run the functions of expired
  timers. \<open>active_timers\<close> lists the timers themselves; a timer is linked when it is in that list.
\<close>

section \<open>The list of running timers\<close>

abbreviation (input) osPriorityAboveNormal :: word32 where "osPriorityAboveNormal \<equiv> 32"
abbreviation (input) RTOS_TIMER_QUEUE_SIZE :: word32 where "RTOS_TIMER_QUEUE_SIZE \<equiv> 5"

definition timer_upd :: "addr \<Rightarrow> (rtos_timer \<Rightarrow> rtos_timer) \<Rightarrow> rtos \<Rightarrow> rtos" where
  "timer_upd timer f s = s\<lparr>timer_of := (timer_of s)(timer := f (timer_of s timer))\<rparr>"

abbreviation target :: "rtos \<Rightarrow> addr \<Rightarrow> word32" where "target s timer \<equiv> tm_target (timer_of s timer)"

text \<open>
  The ordered insertion. Inserting a node that is linked destroys the list: what then happens is
  not in this model of the list, which has no value there; it is shown on the pointers below.
\<close>

definition insert_timer :: "addr \<Rightarrow> rtos \<Rightarrow> rtos option" where
  "insert_timer timer s = check (timer \<notin> set (active_timers s)) (s\<lparr>active_timers :=
     insert_before_first (\<lambda>current. target s timer < target s current) timer (active_timers s)\<rparr>)"

definition unlink_timer :: "addr \<Rightarrow> rtos \<Rightarrow> rtos" where
  "unlink_timer timer s = s\<lparr>active_timers := filter ((\<noteq>) timer) (active_timers s)\<rparr>"

section \<open>The tick\<close>

text \<open>A pointer in memory, the least significant byte first.\<close>

definition word_bytes :: "word32 \<Rightarrow> word8 list" where
  "word_bytes w = [ucast w, ucast (drop_bit 8 w), ucast (drop_bit 16 w), ucast (drop_bit 24 w)]"

definition bytes_word :: "word8 list \<Rightarrow> word32" where
  "bytes_word xs = foldr (\<lambda>x w. push_bit 8 w OR ucast x) xs 0"

text \<open>
  The pointer to post is a variable of the hook, at \<open>p_local\<close>. Each turn has the script of its
  call of \<open>osMessageQueuePut\<close>.
\<close>

fun tick_loop ::
  "port \<Rightarrow> ((rtos \<Rightarrow> rtos) list \<times> (rtos \<Rightarrow> rtos)) list \<Rightarrow> word32 \<Rightarrow> rtos \<Rightarrow> rtos option" where
  "tick_loop P script ticks s = (case active_timers s of
      [] \<Rightarrow> Some s
    | expired # rest \<Rightarrow>
        if \<not> target s expired \<le> ticks then Some s
        else (case script of
            [] \<Rightarrow> None
          | (envs, env) # script \<Rightarrow> do {
              let s = s\<lparr>active_timers := rest, bytes := write_bytes (p_local P) (word_bytes expired) (bytes s)\<rparr>;
              (status, s) \<leftarrow> osMessageQueuePut P envs env (timer_queue s) (p_local P) 0 0 s;
              s \<leftarrow> check (status = osErrorResource \<or> status = osOK) s;
              s \<leftarrow> (if status = osErrorResource \<or> tm_type (timer_of s expired) = osTimerPeriodic
                    then insert_timer expired (timer_upd expired (\<lambda>t. t\<lparr>tm_target :=
                      ticks + (if status = osErrorResource then 0 else tm_ticks t)\<rparr>) s)
                    else Some s);
              if status = osErrorResource then Some s else tick_loop P script ticks s
            }))"

declare tick_loop.simps [simp del]

definition scheduler_tick_hook ::
  "port \<Rightarrow> ((rtos \<Rightarrow> rtos) list \<times> (rtos \<Rightarrow> rtos)) list \<Rightarrow> word32 \<Rightarrow> rtos \<Rightarrow> rtos option" where
  "scheduler_tick_hook P script ticks s = (if this_core (ker s) \<noteq> 0 then Some s else tick_loop P script ticks s)"

section \<open>The timer thread\<close>

definition timer_thread_start :: "rtos \<Rightarrow> rtos option" where
  "timer_thread_start s = map_option (\<lambda>k. s\<lparr>ker := k\<rparr>) (scheduler_set_flags 0 SCHEDULER_IGNORE_VIABLE (ker s))"

text \<open>
  One turn of the thread: wait for a timer and call its function, \<open>call\<close>. A null pointer ends
  the thread, which is the value true.
\<close>

definition timer_thread_turn ::
  "port \<Rightarrow> (addr \<Rightarrow> addr \<Rightarrow> rtos \<Rightarrow> rtos) \<Rightarrow> (rtos \<Rightarrow> rtos) list \<Rightarrow> (rtos \<Rightarrow> rtos) \<Rightarrow> rtos \<Rightarrow> (bool \<times> rtos) option" where
  "timer_thread_turn P call envs env s = do {
     (status, s) \<leftarrow> osMessageQueueGet P envs env (timer_queue s) (p_local P) 0 osWaitForever s;
     s \<leftarrow> check (status = osOK) s;
     let timer = bytes_word (read_bytes (bytes s) (p_local P) 4);
     if timer = 0 then Some (True, s)
     else Some (False, call (tm_func (timer_of s timer)) (tm_argument (timer_of s timer)) s)
   }"

definition osTimerThreadInit :: "port \<Rightarrow> rtos \<Rightarrow> rtos option" where
  "osTimerThreadInit P s = do {
     (queue, s) \<leftarrow> osMessageQueueNew P RTOS_TIMER_QUEUE_SIZE 4 (Some (no_attr\<lparr>a_name := Some ''osTimerQueue''\<rparr>)) s;
     s \<leftarrow> check (queue \<noteq> 0) (s\<lparr>timer_queue := queue\<rparr>);
     (thread, s) \<leftarrow> osThreadNew P (p_timer P) 0
       (Some (no_attr\<lparr>a_name := Some ''osTimerThread'', a_size := RTOS_DEFAULT_STACK_SIZE\<rparr>, osPriorityAboveNormal)) s;
     check (thread \<noteq> 0) (s\<lparr>timer_thread := thread\<rparr>)
   }"

section \<open>Operations\<close>

definition osTimerNew :: "port \<Rightarrow> addr \<Rightarrow> timer_type \<Rightarrow> addr \<Rightarrow> os_attr option \<Rightarrow> rtos \<Rightarrow> (addr \<times> rtos) option" where
  "osTimerNew P func ty argument attr s =
    (if func = 0 then Some (0, s)
     else if osKernelContextIsValid P False 0 s \<noteq> osOK then Some (0, s)
     else let attr = case_option no_attr id attr;
              (new, s) = control_block P SIZEOF_TIMER attr s
          in if new = 0 then Some (0, s)
             else do {
               let s = hdr_upd new (init_header RTOS_TIMER_MARKER attr new) s;
               let s = timer_upd new (\<lambda>t. t\<lparr>tm_type := ty, tm_func := func, tm_argument := argument\<rparr>) s;
               (status, s) \<leftarrow> osKernelResourceAdd P osResourceTimer (new + resource_offset osResourceTimer) s;
               if status \<noteq> osOK then Some (0, release_dynamic P new s)
               else Some (new, s)
             })"

definition osTimerGetName :: "port \<Rightarrow> addr \<Rightarrow> rtos \<Rightarrow> string option" where
  "osTimerGetName P timer s = get_name P RTOS_TIMER_MARKER timer s"

definition osTimerStart :: "port \<Rightarrow> once_script \<Rightarrow> addr \<Rightarrow> word32 \<Rightarrow> rtos \<Rightarrow> (word32 \<times> rtos) option" where
  "osTimerStart P once timer ticks s =
    (if ticks = 0 \<or> ticks = osWaitForever then Some (osErrorParameter, s)
     else if osKernelContextIsValid P False 0 s \<noteq> osOK then Some (osKernelContextIsValid P False 0 s, s)
     else if osIsResourceValid timer RTOS_TIMER_MARKER s \<noteq> osOK
     then Some (osIsResourceValid timer RTOS_TIMER_MARKER s, s)
     else do {
       s \<leftarrow> osCallOnce P (fst once) (snd once) (p_local P) (p_timer_once P) (osTimerThreadInit P) s;
       let s = timer_upd timer (\<lambda>t. t\<lparr>tm_ticks := ticks, tm_target := osKernelGetTickCount s + ticks\<rparr>) s;
       (_, s) \<leftarrow> locked_section ActiveTimersLock (\<lambda>s. map_option (\<lambda>s. ((), s)) (insert_timer timer s)) s;
       Some (osOK, s)
     })"

definition osTimerStop :: "port \<Rightarrow> addr \<Rightarrow> rtos \<Rightarrow> (word32 \<times> rtos) option" where
  "osTimerStop P timer s =
    (if osKernelContextIsValid P False 0 s \<noteq> osOK then Some (osKernelContextIsValid P False 0 s, s)
     else if osIsResourceValid timer RTOS_TIMER_MARKER s \<noteq> osOK
     then Some (osIsResourceValid timer RTOS_TIMER_MARKER s, s)
     else if timer \<notin> set (active_timers s) then Some (osErrorResource, s)
     else do {
       (_, s) \<leftarrow> locked_section ActiveTimersLock (\<lambda>s. Some ((), unlink_timer timer s)) s;
       Some (osOK, s)
     })"

definition osTimerIsRunning :: "port \<Rightarrow> addr \<Rightarrow> rtos \<Rightarrow> bool" where
  "osTimerIsRunning P timer s \<longleftrightarrow> osKernelContextIsValid P False 0 s = osOK \<and>
     osIsResourceValid timer RTOS_TIMER_MARKER s = osOK \<and> timer \<in> set (active_timers s)"

text \<open>The node is taken out of the list of timers while the lock of the list of event flags is held.\<close>

definition osTimerDelete :: "port \<Rightarrow> addr \<Rightarrow> rtos \<Rightarrow> (word32 \<times> rtos) option" where
  "osTimerDelete P timer s =
    (if osKernelContextIsValid P False 0 s \<noteq> osOK then Some (osKernelContextIsValid P False 0 s, s)
     else if osIsResourceValid timer RTOS_TIMER_MARKER s \<noteq> osOK
     then Some (osIsResourceValid timer RTOS_TIMER_MARKER s, s)
     else do {
       (_, s) \<leftarrow> locked_section ActiveTimersLock (\<lambda>s. Some ((), unlink_timer timer s)) s;
       let s = hdr_upd timer (\<lambda>h. h\<lparr>marker := 0\<rparr>) s;
       (status, s) \<leftarrow> osKernelResourceRemove P osResourceEventFlags (timer + resource_offset osResourceTimer) s;
       if status \<noteq> osOK then Some (status, s)
       else Some (osOK, release_dynamic P timer s)
     })"

section \<open>Rules\<close>

lemma timer_upd_sel [simp]:
  "timer_of (timer_upd t f s) = (timer_of s)(t := f (timer_of s t))" "ker (timer_upd t f s) = ker s"
  "hdr (timer_upd t f s) = hdr s" "locks (timer_upd t f s) = locks s" "active_timers (timer_upd t f s) = active_timers s"
  by (simp_all add: timer_upd_def)

text \<open>Every timer runs at most once, and the list is in the order of the targets.\<close>

definition timers_ok :: "rtos \<Rightarrow> bool" where
  "timers_ok s \<longleftrightarrow> distinct (active_timers s) \<and> sorted_wrt (\<lambda>a b. target s a \<le> target s b) (active_timers s)"

lemma filter_insert_before_first: "x \<notin> set xs \<Longrightarrow> filter ((\<noteq>) x) (insert_before_first Q x xs) = xs"
  by (induction xs) (auto simp: filter_id_conv)

lemma locked_insert:
  assumes "spin_free (locks s ActiveTimersLock)" "timer \<notin> set (active_timers s)"
  shows "locked_section ActiveTimersLock (\<lambda>s. map_option (\<lambda>s. ((), s)) (insert_timer timer s)) s =
    Some ((), cycle_lock ActiveTimersLock (s\<lparr>active_timers :=
      insert_before_first (\<lambda>current. target s timer < target s current) timer (active_timers s)\<rparr>))"
  by (rule locked_section_free [OF assms(1)]) (use assms(2) in \<open>simp_all add: insert_timer_def set_masked_upd\<close>)

lemma locked_unlink:
  assumes "spin_free (locks s ActiveTimersLock)"
  shows "locked_section ActiveTimersLock (\<lambda>s. Some ((), unlink_timer timer s)) s =
    Some ((), cycle_lock ActiveTimersLock (unlink_timer timer s))"
  by (rule locked_section_free [OF assms]) (simp_all add: unlink_timer_def set_masked_upd)

section \<open>Properties\<close>

text \<open>
  C35. Starting a timer that is not running, once the timer thread exists: the call succeeds, the
  timer is due the given number of ticks from now and stands in the list behind the timers that
  are due no later and before those due later; the list stays ordered and free of duplicates. Stopping it right away
  restores the list, and the timer counts as running exactly in between.
\<close>

theorem timer_start_stop:
  assumes t: "osIsResourceValid timer RTOS_TIMER_MARKER s = osOK" "timer \<notin> set (active_timers s)" "ticks \<noteq> 0" "ticks \<noteq> osWaitForever"
    and c: "ipsr (ker s) = 0" "mem_word s (p_timer_once P) = 2" "spin_free (locks s ActiveTimersLock)" and o: "timers_ok s"
  shows "\<exists>s1 s2. osTimerStart P once timer ticks s = Some (osOK, s1) \<and>
    target s1 timer = osKernelGetTickCount s + ticks \<and>
    active_timers s1 = filter (\<lambda>c. target s c \<le> target s1 timer) (active_timers s) @ timer #
      filter (\<lambda>c. target s1 timer < target s c) (active_timers s) \<and>
    timers_ok s1 \<and> \<not> osTimerIsRunning P timer s \<and> osTimerIsRunning P timer s1 \<and>
    osTimerStop P timer s1 = Some (osOK, s2) \<and> active_timers s2 = active_timers s \<and> \<not> osTimerIsRunning P timer s2"
proof -
  let ?now = "osKernelGetTickCount s"
  let ?u = "timer_upd timer (\<lambda>t. t\<lparr>tm_ticks := ticks, tm_target := ?now + ticks\<rparr>) s"
  define s1 where "s1 = cycle_lock ActiveTimersLock (?u\<lparr>active_timers :=
      insert_before_first (\<lambda>current. target ?u timer < target ?u current) timer (active_timers ?u)\<rparr>)"
  define s2 where "s2 = cycle_lock ActiveTimersLock (unlink_timer timer s1)"
  have start: "osTimerStart P once timer ticks s = Some (osOK, s1)"
    using t c locked_insert [of ?u timer] by (simp add: osTimerStart_def osCallOnce_def s1_def)
  have tg: "target s1 c = (if c = timer then ?now + ticks else target s c)" for c by (simp add: s1_def)
  have at: "active_timers s1 = insert_before_first (\<lambda>c. target s1 timer < target s1 c) timer (active_timers s)"
    by (simp add: s1_def)
  have sorted: "sorted_wrt (\<lambda>a b. target s1 a \<le> target s1 b) (active_timers s)"
    using o t(2) unfolding timers_ok_def by (auto simp: tg intro: sorted_wrt_mono_rel [rotated])
  have "timers_ok s1"
    using o t(2) sorted_wrt_le_insert [OF sorted, of timer] by (simp add: timers_ok_def at)
  moreover have "active_timers s1 = filter (\<lambda>c. target s c \<le> target s1 timer) (active_timers s) @ timer #
      filter (\<lambda>c. target s1 timer < target s c) (active_timers s)"
    unfolding at insert_before_first_fifo [OF sorted] using t(2)
    by (intro arg_cong2 [where f = append] arg_cong [where f = "Cons timer"] filter_cong) (auto simp: tg)
  moreover have "osIsResourceValid timer RTOS_TIMER_MARKER s1 = osOK" "ipsr (ker s1) = 0" "spin_free (locks s1 ActiveTimersLock)"
    using t(1) c by (simp_all add: s1_def osIsResourceValid_def)
  moreover from this have "osTimerStop P timer s1 = Some (osOK, s2)"
    using locked_unlink [of s1 timer] by (simp add: osTimerStop_def s2_def at)
  moreover have "active_timers s2 = active_timers s" using t(2) by (simp add: s2_def unlink_timer_def at filter_insert_before_first)
  ultimately show ?thesis using start tg t(2) by (intro exI [of _ s1] exI [of _ s2]) (simp add: osTimerIsRunning_def at)
qed

definition sample_timers :: rtos where
  "sample_timers = sample_rtos\<lparr>hdr := (\<lambda>_. \<lparr>marker = RTOS_TIMER_MARKER, obj_name = [], attr_bits = 0\<rparr>),
     active_timers := [0x5000, 0x5100], timer_of := (\<lambda>t. \<lparr>tm_type = osTimerOnce, tm_func = 0x10000500, tm_argument = 0, tm_ticks = 0,
       tm_target = if t = 0x5000 then 10 else 30\<rparr>),
     ker := sample_ker\<lparr>mem := (mem sample_ker)(0x20000400 := 2)\<rparr>\<rparr>"

theorem timer_start_stop_witness:
  "\<exists>s1 s2. osTimerStart sample_port (id, []) 0x5200 20 sample_timers = Some (osOK, s1) \<and>
    active_timers s1 = [0x5000, 0x5200, 0x5100] \<and> timers_ok s1 \<and> osTimerStop sample_port 0x5200 s1 = Some (osOK, s2) \<and>
    active_timers s2 = [0x5000, 0x5100]"
proof -
  have "osKernelGetTickCount sample_timers = 0"
    by (simp add: sample_timers_def osKernelGetTickCount_def scheduler_get_ticks_def sample_ker_def sample_sys_def boot_core_def)
  moreover have "osIsResourceValid 0x5200 RTOS_TIMER_MARKER sample_timers = osOK" "active_timers sample_timers = [0x5000, 0x5100]"
    "ipsr (ker sample_timers) = 0" "mem_word sample_timers (p_timer_once sample_port) = 2" "spin_free (locks sample_timers ActiveTimersLock)"
    "timers_ok sample_timers" "target sample_timers 0x5000 = 10" "target sample_timers 0x5100 = 30"
    by (simp_all add: sample_timers_def osIsResourceValid_def timers_ok_def sample_rtos_def sample_port_def)
  ultimately show ?thesis
    using timer_start_stop [of "0x5200" sample_timers 20 sample_port "(id, [])"] by fastforce
qed

text \<open>A walk that stays among nodes that are neither the head nor wanted does not end.\<close>

lemma list_find_stuck:
  assumes "\<forall>x\<in>S. nxt h x \<in> S \<and> \<not> Q x" and "l \<notin> S" and "c \<in> S"
  shows "list_find h Q l c = None"
proof -
  let ?R = "\<lambda>a (y :: 'a). case a of (((h, Q), l), c) \<Rightarrow> (\<forall>x\<in>S. nxt h x \<in> S \<and> \<not> Q x) \<longrightarrow> l \<notin> S \<longrightarrow> c \<notin> S"
  have "?R (((h, Q), l), c) y" if "list_find h Q l c = Some y" for y
    by (rule list_find.raw_induct [where Pa = ?R, OF _ that]) (simp split: if_splits, blast+)
  with assms(1,2) have "c \<notin> S" if "list_find h Q l c = Some y" for y using that by auto
  then show ?thesis using assms(3) by (cases "list_find h Q l c") auto
qed

text \<open>
  Starting a timer again while it runs, without stopping it first: when it was due last and is
  now due no earlier than any other, the insertion makes it its own successor. From then on
  every walk over the running timers that looks for a later one does not end, so the next start
  of a timer that is due later hangs with the lock held.
\<close>

theorem restarted_timer_loops:
  fixes due :: "'n \<Rightarrow> word32"
  assumes l: "is_list h hd_node (ts @ [timer])" and late: "\<forall>c\<in>set (ts @ [timer]). \<not> due timer < due c"
  shows "\<exists>h'. ordered_insert_ptr list_insert_before (\<lambda>c. due timer < due c) hd_node timer h = Some h' \<and>
    nxt h' timer = timer \<and>
    ((\<forall>c\<in>set (ts @ [timer]). due c \<le> due other) \<longrightarrow>
      ordered_insert_ptr list_insert_before (\<lambda>c. due other < due c) hd_node other h' = None)"
proof -
  let ?S = "set (ts @ [timer])" and ?P = "\<lambda>c. due timer < due c"
  let ?h = "list_insert_before hd_node timer h"
  have "take_first ?P (ts @ [timer]) = None" using late by simp
  then have find: "list_find h ?P hd_node (nxt h hd_node) = Some hd_node" using ll.find_list [OF l, of ?P] by (simp del: take_first_None)
  have d: "hd_node \<notin> ?S" "distinct (ts @ [timer])" using l by (auto simp: is_list_def)
  have p: "prv h hd_node = timer" using is_list_cut(2) [of h hd_node "ts @ [timer]" "[]"] l by simp
  have n: "nxt ?h = (nxt h)(timer := timer)" using d(1) p by (auto simp: list_insert_before_def Let_def fun_eq_iff)
  have step: "nxt h x \<in> ?S" if "x \<in> set ts" for x
  proof -
    from that obtain as bs where ts: "ts = as @ x # bs" by (metis split_list)
    then have "nxt h x = hd (bs @ [timer, hd_node])" using is_list_around(2) [of h hd_node as x "bs @ [timer]"] l by simp
    then show ?thesis using ts by (cases bs) auto
  qed
  have first: "nxt ?h hd_node \<in> ?S"
    using is_list_cut(1) [of h hd_node "[]" "ts @ [timer]"] l d(1) by (cases ts) (auto simp: n)
  have "list_find ?h (\<lambda>c. due other < due c) hd_node (nxt ?h hd_node) = None" if "\<forall>c\<in>?S. due c \<le> due other"
    by (rule list_find_stuck [where S = ?S]) (use that step d(1) first in \<open>auto simp: n not_less\<close>)
  then show ?thesis using find by (auto simp: ordered_insert_ptr_def n)
qed

theorem restarted_timer_loops_witness:
  "\<exists>h'. ordered_insert_ptr list_insert_before (\<lambda>c. (4 :: word32) < of_nat c) 0 4 sample_heap = Some h' \<and>
    nxt h' 4 = 4 \<and> ordered_insert_ptr list_insert_before (\<lambda>c. (9 :: word32) < of_nat c) 0 9 h' = None"
proof -
  have "is_list sample_heap 0 ([3] @ [4])" using rep_is_list [OF rep_sample, of 0] by simp
  from restarted_timer_loops [OF this, of of_nat 9] show ?thesis by simp
qed

end
