(* ===== verification/C11_Threads.thy ===== *)
theory C11_Threads
  imports Rtos_Thread
begin

text \<open>
  The threads of C11, \<open>pico-threads/threads.c\<close>: once functions, condition variables, mutexes, thread
  specific storage and threads, directly on the scheduler. It replaces the RTOS layer, so it
  has a state of its own.
\<close>

section \<open>State\<close>

text \<open>
  The value of a mutex, the sequence number of a condition variable and a once flag are words of
  memory, since futexes guard them; the other fields are maps. \<open>thrds\<close> lists the threads.
\<close>

datatype thrd_result = thrd_success | thrd_error | thrd_timedout | thrd_busy

record thrd =
  tr_func :: addr
  tr_context :: addr
  tr_ret :: word32
  tr_detached :: bool
  tr_terminated :: bool
  tr_joiner :: addr
  tr_tss :: "word32 list"

record tss_entry =
  tss_used :: bool
  tss_destructor :: addr

record c11 =
  knl :: sys
  mtx_type :: "addr \<Rightarrow> word32"
  mtx_count :: "addr \<Rightarrow> word32"
  cnd_mutex :: "addr \<Rightarrow> addr"
  tss_map :: "tss_entry list"
  thrd_of :: "addr \<Rightarrow> thrd"
  thrds :: "addr list"
  main_task :: addr

text \<open>The time of the C library: 64 bits of seconds and a signed word of nanoseconds.\<close>

record timespec =
  tv_sec :: "64 word"
  tv_nsec :: word32

record thrd_attr =
  at_flags :: word32
  at_priority :: word32
  at_affinity :: word32
  at_stack_size :: word32

text \<open>
  What comes from elsewhere: the allocator, the hooks of the port, the bits of the types of
  mutexes in the header of the C library, and the addresses of the variables and functions.
\<close>

record c11_port =
  c_alloc :: "word32 \<Rightarrow> c11 \<Rightarrow> addr \<times> c11"
  c_release :: "addr \<Rightarrow> c11 \<Rightarrow> c11"
  c_startup :: "c11 \<Rightarrow> c11"
  c_shutdown :: "c11 \<Rightarrow> c11"
  c_tls_init :: "addr \<Rightarrow> sys \<Rightarrow> sys"
  c_tls_size :: word32
  c_tls :: addr
  c_frame :: scheduler_frame
  c_eframe :: exception_frame
  c_plain :: word32
  c_recursive :: word32
  c_timed :: word32
  c_dispatch :: addr
  c_exit :: addr
  c_reaper :: addr
  thrds_lock :: addr
  thrds_reap :: addr
  thrds_init_flag :: addr
  thrds_reaper_init_flag :: addr
  c_local :: addr

abbreviation mtx_futex :: "addr \<Rightarrow> addr" where "mtx_futex mtx \<equiv> mtx + 4"
abbreviation cnd_sequence :: "addr \<Rightarrow> addr" where "cnd_sequence cnd \<equiv> cnd + 4"
abbreviation cnd_futex :: "addr \<Rightarrow> addr" where "cnd_futex cnd \<equiv> cnd + 8"
abbreviation joiners_at :: "addr \<Rightarrow> addr" where "joiners_at thread \<equiv> thread + 20"
abbreviation stack_at :: "addr \<Rightarrow> addr" where "stack_at thread \<equiv> thread + 104"
abbreviation (input) SIZEOF_THRD :: word32 where "SIZEOF_THRD \<equiv> 104"
abbreviation (input) THRD_KEYS_MAX :: nat where "THRD_KEYS_MAX \<equiv> 8"
abbreviation (input) TSS_DTOR_ITERATIONS :: nat where "TSS_DTOR_ITERATIONS \<equiv> 5"
abbreviation (input) mtx_prio_inherit :: word32 where "mtx_prio_inherit \<equiv> 8"
abbreviation (input) EBUSY :: word32 where "EBUSY \<equiv> 16"
abbreviation (input) EAGAIN :: word32 where "EAGAIN \<equiv> 11"
abbreviation (input) ENOMEM :: word32 where "ENOMEM \<equiv> 12"
abbreviation (input) THRD_PRIORITY :: word32 where "THRD_PRIORITY \<equiv> 32"
abbreviation (input) THRD_STACK_SIZE :: word32 where "THRD_STACK_SIZE \<equiv> 1024"

abbreviation word_at :: "c11 \<Rightarrow> addr \<Rightarrow> word32" where "word_at s a \<equiv> mem (knl s) a"

definition set_word :: "addr \<Rightarrow> word32 \<Rightarrow> c11 \<Rightarrow> c11" where
  "set_word a v s = s\<lparr>knl := (knl s)\<lparr>mem := (mem (knl s))(a := v)\<rparr>\<rparr>"

definition set_errno :: "word32 \<Rightarrow> c11 \<Rightarrow> c11" where
  "set_errno e s = s\<lparr>knl := (knl s)\<lparr>errno := e\<rparr>\<rparr>"

definition thrd_upd :: "addr \<Rightarrow> (thrd \<Rightarrow> thrd) \<Rightarrow> c11 \<Rightarrow> c11" where
  "thrd_upd t f s = s\<lparr>thrd_of := (thrd_of s)(t := f (thrd_of s t))\<rparr>"

definition cas_word :: "addr \<Rightarrow> word32 \<Rightarrow> word32 \<Rightarrow> c11 \<Rightarrow> bool \<times> word32 \<times> c11" where
  "cas_word a expected desired s =
    (if word_at s a = expected then (True, expected, set_word a desired s) else (False, word_at s a, s))"

definition c_futex_init :: "addr \<Rightarrow> addr \<Rightarrow> word32 \<Rightarrow> c11 \<Rightarrow> c11 option" where
  "c_futex_init f value_ptr flags s = map_option (\<lambda>k. s\<lparr>knl := k\<rparr>) (scheduler_futex_init f value_ptr flags (knl s))"

definition c_futex_wait :: "c11_port \<Rightarrow> (c11 \<Rightarrow> c11) \<Rightarrow> addr \<Rightarrow> word32 \<Rightarrow> word32 \<Rightarrow> c11 \<Rightarrow> (word32 \<times> c11) option" where
  "c_futex_wait P run = futex_wait_in knl knl_update run (c_frame P)"

definition c_futex_wake :: "c11_port \<Rightarrow> addr \<Rightarrow> bool \<Rightarrow> c11 \<Rightarrow> (word32 \<times> c11) option" where
  "c_futex_wake P f all s =
    map_option (\<lambda>(status, k). (status, s\<lparr>knl := k\<rparr>)) (scheduler_futex_wake (c_eframe P) f all (knl s))"

section \<open>Once functions\<close>

fun once_wait :: "c11_port \<Rightarrow> (c11 \<Rightarrow> c11) list \<Rightarrow> addr \<Rightarrow> addr \<Rightarrow> c11 \<Rightarrow> c11 option" where
  "once_wait P envs f flag s =
    (let (stored, expected, s) = cas_word flag 2 2 s
     in if stored then Some s
        else (case envs of
            [] \<Rightarrow> None
          | env # envs \<Rightarrow> do {
              (_, s) \<leftarrow> c_futex_wait P env f expected SCHEDULER_WAIT_FOREVER s;
              once_wait P envs f flag s
            }))"

declare once_wait.simps [simp del]

definition call_once ::
  "c11_port \<Rightarrow> (c11 \<Rightarrow> c11) \<Rightarrow> (c11 \<Rightarrow> c11) list \<Rightarrow> addr \<Rightarrow> (c11 \<Rightarrow> c11 option) \<Rightarrow> c11 \<Rightarrow> c11 option" where
  "call_once P env envs flag func s =
    (if word_at s flag = 2 then Some s
     else do {
       s \<leftarrow> c_futex_init (c_local P) flag 0 s;
       let (stored, _, s) = cas_word flag 0 1 (env s);
       if \<not> stored then once_wait P envs (c_local P) flag s
       else do {
         s \<leftarrow> func s;
         let s = set_word flag 2 s;
         (_, s) \<leftarrow> c_futex_wake P (c_local P) True s;
         Some s
       }
     })"

section \<open>Mutexes\<close>

definition mtx_init :: "addr \<Rightarrow> word32 \<Rightarrow> c11 \<Rightarrow> (thrd_result \<times> c11) option" where
  "mtx_init mtx type s = do {
     s \<leftarrow> check (mtx \<noteq> 0) s;
     let s = set_word mtx 0 s;
     let s = s\<lparr>mtx_type := (mtx_type s)(mtx := type), mtx_count := (mtx_count s)(mtx := 0)\<rparr>;
     s \<leftarrow> c_futex_init (mtx_futex mtx) mtx
       (if has_flag type mtx_prio_inherit
        then SCHEDULER_FUTEX_PI OR SCHEDULER_FUTEX_OWNER_TRACKING OR SCHEDULER_FUTEX_CONTENTION_TRACKING
        else SCHEDULER_FUTEX_OWNER_TRACKING OR SCHEDULER_FUTEX_CONTENTION_TRACKING) s;
     Some (thrd_success, s)
   }"

definition count_one :: "c11_port \<Rightarrow> addr \<Rightarrow> c11 \<Rightarrow> c11" where
  "count_one P mtx s =
    (if has_flag (mtx_type s mtx) (c_recursive P) then s\<lparr>mtx_count := (mtx_count s)(mtx := 1)\<rparr> else s)"

definition count_up :: "addr \<Rightarrow> c11 \<Rightarrow> c11" where
  "count_up mtx s = s\<lparr>mtx_count := (mtx_count s)(mtx := mtx_count s mtx + 1)\<rparr>"

text \<open>The test for the owner does not mask the contention bit.\<close>

definition mtx_trylock :: "c11_port \<Rightarrow> addr \<Rightarrow> c11 \<Rightarrow> (thrd_result \<times> c11) option" where
  "mtx_trylock P mtx s = do {
     s \<leftarrow> check (mtx \<noteq> 0) s;
     val \<leftarrow> scheduler_task (knl s);
     if has_flag (mtx_type s mtx) (c_recursive P) \<and> word_at s mtx = val
     then Some (thrd_success, count_up mtx s)
     else let (stored, _, s) = cas_word mtx 0 val s
          in if \<not> stored then Some (thrd_busy, set_errno EBUSY s)
             else Some (thrd_success, count_one P mtx s)
   }"

text \<open>Each element of \<open>envs\<close> is what happens during one wait.\<close>

fun mtx_lock_loop :: "c11_port \<Rightarrow> (c11 \<Rightarrow> c11) list \<Rightarrow> addr \<Rightarrow> word32 \<Rightarrow> word32 \<Rightarrow> c11 \<Rightarrow> (thrd_result \<times> c11) option" where
  "mtx_lock_loop P envs mtx msec val s =
    (let (stored, expected, s) = cas_word mtx 0 val s
     in if stored then Some (thrd_success, s)
        else (case envs of
            [] \<Rightarrow> None
          | env # envs \<Rightarrow> do {
              (status, s) \<leftarrow> c_futex_wait P env (mtx_futex mtx) expected msec s;
              if status <s 0
              then Some (if status = - ETIMEDOUT then thrd_timedout else thrd_error, set_errno (- status) s)
              else if val = owner_of (word_at s mtx) then Some (thrd_success, s)
              else mtx_lock_loop P envs mtx msec val s
            }))"

declare mtx_lock_loop.simps [simp del]

definition mtx_lock_for :: "c11_port \<Rightarrow> (c11 \<Rightarrow> c11) list \<Rightarrow> addr \<Rightarrow> word32 \<Rightarrow> c11 \<Rightarrow> (thrd_result \<times> c11) option" where
  "mtx_lock_for P envs mtx msec s = do {
     s \<leftarrow> check (mtx \<noteq> 0) s;
     val \<leftarrow> scheduler_task (knl s);
     if val = owner_of (word_at s mtx)
     then if mtx_type s mtx AND c_recursive P = 0 then Some (thrd_error, set_errno EINVAL s)
          else Some (thrd_success, count_up mtx s)
     else do {
       (result, s) \<leftarrow> mtx_lock_loop P envs mtx msec val s;
       Some (result, if result = thrd_success then count_one P mtx s else s)
     }
   }"

definition mtx_lock :: "c11_port \<Rightarrow> (c11 \<Rightarrow> c11) list \<Rightarrow> addr \<Rightarrow> c11 \<Rightarrow> (thrd_result \<times> c11) option" where
  "mtx_lock P envs mtx s = mtx_lock_for P envs mtx SCHEDULER_WAIT_FOREVER s"

text \<open>The tick of a point in time, in 64 bits; the division rounds towards zero.\<close>

definition tm_ticks :: "timespec \<Rightarrow> 64 word" where
  "tm_ticks tm = tv_sec tm * 1000 + of_int (if tv_nsec tm <s 0 then - (- sint (tv_nsec tm) div 1000000) else sint (tv_nsec tm) div 1000000)"

text \<open>As it is written: a time in the future counts as missed.\<close>

definition missed :: "word32 \<Rightarrow> 64 word \<Rightarrow> bool" where
  "missed ticks deadline \<longleftrightarrow> ucast ticks < deadline \<or> ucast UINT32_MAX \<le> deadline - ucast ticks"

definition mtx_timedlock ::
  "c11_port \<Rightarrow> (c11 \<Rightarrow> c11) list \<Rightarrow> addr \<Rightarrow> timespec \<Rightarrow> c11 \<Rightarrow> (thrd_result \<times> c11) option" where
  "mtx_timedlock P envs mtx tm s = do {
     s \<leftarrow> check (mtx \<noteq> 0) s;
     if mtx_type s mtx AND c_timed P = 0 then Some (thrd_error, set_errno EINVAL s)
     else if missed (scheduler_get_ticks (knl s)) (tm_ticks tm) then Some (thrd_timedout, s)
     else mtx_lock_for P envs mtx (ucast (tm_ticks tm - ucast (scheduler_get_ticks (knl s)))) s
   }"

text \<open>\<open>env\<close> comes between the look at the value and the exchange.\<close>

definition mtx_unlock :: "c11_port \<Rightarrow> (c11 \<Rightarrow> c11) \<Rightarrow> addr \<Rightarrow> c11 \<Rightarrow> (thrd_result \<times> c11) option" where
  "mtx_unlock P env mtx s = do {
     s \<leftarrow> check (mtx \<noteq> 0) s;
     val \<leftarrow> scheduler_task (knl s);
     if val \<noteq> owner_of (word_at s mtx) then Some (thrd_error, set_errno EINVAL s)
     else do {
       let recursive = has_flag (mtx_type s mtx) (c_recursive P);
       let s = (if recursive then s\<lparr>mtx_count := (mtx_count s)(mtx := mtx_count s mtx - 1)\<rparr> else s);
       if recursive \<and> 0 <s mtx_count s mtx then Some (thrd_success, s)
       else do {
         let (stored, s) = (if word_at s mtx = val
           then let (stored, _, s) = cas_word mtx val 0 (env s) in (stored, s) else (False, s));
         if stored then Some (thrd_success, s)
         else do {
           (status, s) \<leftarrow> c_futex_wake P (mtx_futex mtx) False s;
           Some (if status <s 0 then (thrd_error, set_errno (- status) s) else (thrd_success, s))
         }
       }
     }
   }"

section \<open>Condition variables\<close>

definition cnd_init :: "addr \<Rightarrow> c11 \<Rightarrow> (thrd_result \<times> c11) option" where
  "cnd_init cnd s = do {
     s \<leftarrow> check (cnd \<noteq> 0) s;
     let s = s\<lparr>cnd_mutex := (cnd_mutex s)(cnd := 0)\<rparr>;
     s \<leftarrow> c_futex_init (cnd_futex cnd) (cnd_sequence cnd) 0 (set_word (cnd_sequence cnd) 0 s);
     Some (thrd_success, s)
   }"

text \<open>
  The script of a wait: what comes inside the release of the mutex, between the release and the
  wait, during the wait, and during each wait for the mutex. The results of the mutex
  operations are ignored.
\<close>

record cnd_script =
  in_unlock :: "c11 \<Rightarrow> c11"
  before_wait :: "c11 \<Rightarrow> c11"
  in_wait :: "c11 \<Rightarrow> c11"
  in_lock :: "(c11 \<Rightarrow> c11) list"

definition cnd_wait_for ::
  "c11_port \<Rightarrow> cnd_script \<Rightarrow> addr \<Rightarrow> addr \<Rightarrow> word32 \<Rightarrow> c11 \<Rightarrow> (thrd_result \<times> c11) option" where
  "cnd_wait_for P script cnd mtx msec s = do {
     s \<leftarrow> check (cnd \<noteq> 0 \<and> mtx \<noteq> 0) s;
     let sequence = word_at s (cnd_sequence cnd);
     let s = (if cnd_mutex s cnd = 0 then s\<lparr>cnd_mutex := (cnd_mutex s)(cnd := mtx)\<rparr> else s);
     if cnd_mutex s cnd \<noteq> mtx then Some (thrd_error, set_errno EINVAL s)
     else do {
       (_, s) \<leftarrow> mtx_unlock P (in_unlock script) (cnd_mutex s cnd) s;
       (status, s) \<leftarrow> c_futex_wait P (in_wait script) (cnd_futex cnd) sequence msec (before_wait script s);
       (_, s) \<leftarrow> mtx_lock P (in_lock script) (cnd_mutex s cnd) s;
       Some (if status <s 0
             then (if status = - ETIMEDOUT then thrd_timedout else thrd_error, set_errno (- status) s)
             else (thrd_success, s))
     }
   }"

definition cnd_wait :: "c11_port \<Rightarrow> cnd_script \<Rightarrow> addr \<Rightarrow> addr \<Rightarrow> c11 \<Rightarrow> (thrd_result \<times> c11) option" where
  "cnd_wait P script cnd mtx s = cnd_wait_for P script cnd mtx SCHEDULER_WAIT_FOREVER s"

definition cnd_timedwait ::
  "c11_port \<Rightarrow> cnd_script \<Rightarrow> addr \<Rightarrow> addr \<Rightarrow> timespec \<Rightarrow> c11 \<Rightarrow> (thrd_result \<times> c11) option" where
  "cnd_timedwait P script cnd mtx tm s =
    (if missed (scheduler_get_ticks (knl s)) (tm_ticks tm) then Some (thrd_timedout, s)
     else cnd_wait_for P script cnd mtx (ucast (tm_ticks tm - ucast (scheduler_get_ticks (knl s)))) s)"

definition cnd_wakeup :: "c11_port \<Rightarrow> addr \<Rightarrow> bool \<Rightarrow> c11 \<Rightarrow> (thrd_result \<times> c11) option" where
  "cnd_wakeup P cnd all s = do {
     s \<leftarrow> check (cnd \<noteq> 0) s;
     (_, s) \<leftarrow> c_futex_wake P (cnd_futex cnd) all (set_word (cnd_sequence cnd) (word_at s (cnd_sequence cnd) + 1) s);
     Some (thrd_success, s)
   }"

definition cnd_signal :: "c11_port \<Rightarrow> addr \<Rightarrow> c11 \<Rightarrow> (thrd_result \<times> c11) option" where
  "cnd_signal P cnd s = cnd_wakeup P cnd False s"

definition cnd_broadcast :: "c11_port \<Rightarrow> addr \<Rightarrow> c11 \<Rightarrow> (thrd_result \<times> c11) option" where
  "cnd_broadcast P cnd s = cnd_wakeup P cnd True s"

section \<open>Thread specific storage\<close>

text \<open>
  Keys are indices of \<open>tss_map\<close>. The tests let the key one past the end through; the access then
  is outside of the array, which is \<open>None\<close> here.
\<close>

fun tss_find :: "nat list \<Rightarrow> addr \<Rightarrow> c11 \<Rightarrow> nat option \<times> c11" where
  "tss_find [] destructor s = (None, set_errno EAGAIN s)"
| "tss_find (i # is) destructor s =
    (if \<not> tss_used (tss_map s ! i)
     then (Some i, s\<lparr>tss_map := (tss_map s)[i := \<lparr>tss_used = True, tss_destructor = destructor\<rparr>]\<rparr>)
     else tss_find is destructor s)"

definition tss_create :: "addr \<Rightarrow> c11 \<Rightarrow> nat option \<times> c11" where
  "tss_create destructor s = tss_find [0..<THRD_KEYS_MAX] destructor s"

definition tss_delete :: "nat \<Rightarrow> c11 \<Rightarrow> c11 option" where
  "tss_delete key s =
    (if THRD_KEYS_MAX < key then Some s
     else do {
       s \<leftarrow> check (key < length (tss_map s)) s;
       Some (s\<lparr>tss_map := (tss_map s)[key := \<lparr>tss_used = False, tss_destructor = 0\<rparr>]\<rparr>)
     })"

definition current_thrd :: "c11 \<Rightarrow> addr option" where
  "current_thrd s = map_option (\<lambda>t. t_context (task_of (knl s) t)) (scheduler_task (knl s))"

definition tss_get :: "nat \<Rightarrow> c11 \<Rightarrow> word32 option" where
  "tss_get key s =
    (if THRD_KEYS_MAX < key then Some 0
     else do {
       s \<leftarrow> check (key < length (tss_map s)) s;
       if \<not> tss_used (tss_map s ! key) then Some 0
       else map_option (\<lambda>t. tr_tss (thrd_of s t) ! key) (current_thrd s)
     })"

definition tss_set :: "nat \<Rightarrow> word32 \<Rightarrow> c11 \<Rightarrow> (thrd_result \<times> c11) option" where
  "tss_set key val s =
    (if THRD_KEYS_MAX < key then Some (thrd_error, s)
     else do {
       s \<leftarrow> check (key < length (tss_map s)) s;
       if \<not> tss_used (tss_map s ! key) then Some (thrd_error, s)
       else do {
         t \<leftarrow> current_thrd s;
         Some (thrd_success, thrd_upd t (\<lambda>x. x\<lparr>tr_tss := (tr_tss x)[key := val]\<rparr>) s)
       }
     })"

section \<open>Threads\<close>

definition thrd_current :: "c11 \<Rightarrow> addr option" where
  "thrd_current s = current_thrd s"

definition thrd_equal :: "addr \<Rightarrow> addr \<Rightarrow> bool" where
  "thrd_equal lhs rhs \<longleftrightarrow> lhs = rhs"

definition thrd_yield :: "c11_port \<Rightarrow> (c11 \<Rightarrow> c11) \<Rightarrow> c11 \<Rightarrow> c11 option" where
  "thrd_yield P run s = map_option (\<lambda>k. run (s\<lparr>knl := k\<rparr>)) (scheduler_yield (c_eframe P) (knl s))"

text \<open>The destructors of the values of a thread; \<open>call\<close> is what a destructor does. A round counts the calls.\<close>

fun tss_round :: "(addr \<Rightarrow> word32 \<Rightarrow> c11 \<Rightarrow> c11) \<Rightarrow> addr \<Rightarrow> nat list \<Rightarrow> nat \<Rightarrow> c11 \<Rightarrow> nat \<times> c11" where
  "tss_round call t [] left s = (left, s)"
| "tss_round call t (j # js) left s =
    (let target = tr_tss (thrd_of s t) ! j
     in if tss_used (tss_map s ! j) \<and> tss_destructor (tss_map s ! j) \<noteq> 0 \<and> target \<noteq> 0
        then tss_round call t js left
          (call (tss_destructor (tss_map s ! j)) target (thrd_upd t (\<lambda>x. x\<lparr>tr_tss := (tr_tss x)[j := 0]\<rparr>) s))
        else tss_round call t js (left - 1) s)"

fun tss_cleanup :: "(addr \<Rightarrow> word32 \<Rightarrow> c11 \<Rightarrow> c11) \<Rightarrow> addr \<Rightarrow> nat \<Rightarrow> c11 \<Rightarrow> c11" where
  "tss_cleanup call t 0 s = s"
| "tss_cleanup call t (Suc i) s =
    (let (left, s) = tss_round call t [0..<THRD_KEYS_MAX] THRD_KEYS_MAX s
     in if left = 0 then s else tss_cleanup call t i s)"

text \<open>The exit handler runs in the terminate call of the scheduler.\<close>

definition thrd_exit_handler :: "c11_port \<Rightarrow> addr \<Rightarrow> c11 \<Rightarrow> c11 option" where
  "thrd_exit_handler P task s = do {
     s \<leftarrow> check (task \<noteq> 0) s;
     let thread = t_context (task_of (knl s) task);
     let s = thrd_upd thread (\<lambda>x. x\<lparr>tr_terminated := True\<rparr>) s;
     (result, s) \<leftarrow> cnd_broadcast P (if tr_detached (thrd_of s thread) then thrds_reap P else joiners_at thread) s;
     check (result = thrd_success) s
   }"

definition c_terminate :: "c11_port \<Rightarrow> addr \<Rightarrow> c11 \<Rightarrow> (word32 \<times> c11) option" where
  "c_terminate P task s = do {
     current \<leftarrow> scheduler_task (knl s);
     let task = (if task = 0 then current else task);
     if 1 < scheduler_num_cores (knl s) \<and> task \<noteq> current then Some (- EINVAL, set_errno EINVAL s)
     else do {
       (frame, s) \<leftarrow> terminate_in knl knl_update
         (\<lambda>h t s. do {
            s \<leftarrow> check (h = c_exit P) s;
            s' \<leftarrow> thrd_exit_handler P t (s\<lparr>knl := (knl s)\<lparr>ipsr := 11\<rparr>\<rparr>);
            Some (s'\<lparr>knl := (knl s')\<lparr>ipsr := ipsr (knl s)\<rparr>\<rparr>)
          })
         ((c_eframe P)\<lparr>ef_r0 := task\<rparr>) s;
       Some (ef_r0 frame, if ef_r0 frame <s 0 then set_errno (- ef_r0 frame) s else s)
     }
   }"

text \<open>The state in which the thread is gone; a termination that fails stops the system.\<close>

definition thrd_exit :: "c11_port \<Rightarrow> (addr \<Rightarrow> word32 \<Rightarrow> c11 \<Rightarrow> c11) \<Rightarrow> word32 \<Rightarrow> c11 \<Rightarrow> c11 option" where
  "thrd_exit P call res s = do {
     t \<leftarrow> current_thrd s;
     let s = tss_cleanup call t TSS_DTOR_ITERATIONS s;
     t \<leftarrow> current_thrd s;
     let s = thrd_upd t (\<lambda>x. x\<lparr>tr_ret := res\<rparr>) s;
     (status, s) \<leftarrow> c_terminate P 0 s;
     check (\<not> status <s 0) s
   }"

definition thdr_dispatch ::
  "c11_port \<Rightarrow> (addr \<Rightarrow> addr \<Rightarrow> c11 \<Rightarrow> word32 \<times> c11) \<Rightarrow> (addr \<Rightarrow> word32 \<Rightarrow> c11 \<Rightarrow> c11) \<Rightarrow> addr \<Rightarrow> c11 \<Rightarrow> c11 option" where
  "thdr_dispatch P func call thread s = do {
     s \<leftarrow> check (thread \<noteq> 0) s;
     let (res, s) = func (tr_func (thrd_of s thread)) (tr_context (thrd_of s thread)) s;
     thrd_exit P call res s
   }"

text \<open>The first use of threads makes the program that runs the main task.\<close>

definition new_thrd :: "addr \<Rightarrow> addr \<Rightarrow> thrd \<Rightarrow> thrd" where
  "new_thrd func arg x = x\<lparr>tr_func := func, tr_context := arg, tr_ret := 0, tr_detached := False,
     tr_terminated := False, tr_joiner := 0\<rparr>"

definition thrds_init :: "c11_port \<Rightarrow> (c11 \<Rightarrow> c11) \<Rightarrow> c11 \<Rightarrow> c11 option" where
  "thrds_init P run s = do {
     let (_, k) = scheduler_init True (c_tls_size P) (knl s);
     let s = s\<lparr>knl := k, thrds := []\<rparr>;
     (result, s) \<leftarrow> mtx_init (thrds_lock P) (c_plain P) s;
     s \<leftarrow> check (result = thrd_success) s;
     let (thread, s) = c_alloc P (SIZEOF_THRD + SIZEOF_TASK) s;
     s \<leftarrow> check (thread \<noteq> 0) s;
     (task, k) \<leftarrow> scheduler_create (c_tls_init P) (stack_at thread) 0
       (Some \<lparr>entry_point = 0, d_exit_handler = c_exit P, d_context = thread,
         d_flags = SCHEDULER_NO_TLS_INIT OR SCHEDULER_NO_FRAME_INIT OR SCHEDULER_PRIMORDIAL_TASK,
         d_priority = THRD_PRIORITY, d_affinity = 0\<rparr>) (c_eframe P) (knl s);
     s \<leftarrow> check (task \<noteq> 0) (s\<lparr>knl := task_upd task (\<lambda>x. x\<lparr>tls := c_tls P\<rparr>) k, main_task := task\<rparr>);
     let s = thrd_upd thread (new_thrd 0 0) s;
     (result, s) \<leftarrow> cnd_init (joiners_at thread) s;
     s \<leftarrow> check (result = thrd_success) s;
     let s = c_startup P (s\<lparr>thrds := thrds s @ [thread]\<rparr>);
     let s = s\<lparr>knl := sched_upd (\<lambda>c. c\<lparr>running := 1\<rparr>) (knl s)\<rparr>;
     thrd_yield P run s
   }"

text \<open>The wait for the end of the scheduler: what happens until it no longer runs is \<open>run\<close>.\<close>

definition thrds_fini :: "c11_port \<Rightarrow> (c11 \<Rightarrow> c11) \<Rightarrow> c11 \<Rightarrow> c11 option" where
  "thrds_fini P run s =
    (if main_task s = 0 then Some s
     else do {
       k \<leftarrow> scheduler_set_flags (main_task s) SCHEDULER_IGNORE_VIABLE (knl s);
       let s = c_shutdown P (s\<lparr>knl := sched_upd (\<lambda>c. c\<lparr>running := running c - 1\<rparr>) k\<rparr>);
       let s = (if scheduler_is_running (knl s) then run s else s);
       check (\<not> scheduler_is_running (knl s)) s
     })"

text \<open>
  The scripts of a creation: the once function, and the four operations on the lock of the list.
\<close>

record create_script =
  cs_once :: "(c11 \<Rightarrow> c11) \<times> (c11 \<Rightarrow> c11) list"
  cs_main :: "c11 \<Rightarrow> c11"
  cs_lock :: "(c11 \<Rightarrow> c11) list"
  cs_unlock :: "c11 \<Rightarrow> c11"

definition error_release_thrd :: "c11_port \<Rightarrow> addr \<Rightarrow> c11 \<Rightarrow> (thrd_result \<times> addr \<times> c11) option" where
  "error_release_thrd P thread s = Some (thrd_error, 0, c_release P thread s)"

text \<open>As it is written, the head is taken out of the list instead of the new thread.\<close>

definition error_remove_thrds :: "c11_port \<Rightarrow> create_script \<Rightarrow> addr \<Rightarrow> c11 \<Rightarrow> (thrd_result \<times> addr \<times> c11) option" where
  "error_remove_thrds P sc thread s = do {
     (result, s) \<leftarrow> mtx_lock P (cs_lock sc) (thrds_lock P) s;
     s \<leftarrow> check (result = thrd_success) s;
     (result, s) \<leftarrow> mtx_unlock P (cs_unlock sc) (thrds_lock P) (s\<lparr>thrds := []\<rparr>);
     s \<leftarrow> check (result = thrd_success) s;
     error_release_thrd P thread s
   }"

definition thrd_create_with ::
  "c11_port \<Rightarrow> create_script \<Rightarrow> addr \<Rightarrow> addr \<Rightarrow> thrd_attr \<Rightarrow> c11 \<Rightarrow> (thrd_result \<times> addr \<times> c11) option" where
  "thrd_create_with P sc func arg attr s = do {
     s \<leftarrow> call_once P (fst (cs_once sc)) (snd (cs_once sc)) (thrds_init_flag P) (thrds_init P (cs_main sc)) s;
     let (thread, s) = c_alloc P (at_stack_size attr) s;
     if thread = 0 then Some (thrd_error, 0, set_errno ENOMEM s)
     else do {
       let s = thrd_upd thread (new_thrd func arg) s;
       (result, s) \<leftarrow> cnd_init (joiners_at thread) s;
       if result \<noteq> thrd_success then Some (thrd_error, 0, s)
       else do {
         (result, s) \<leftarrow> mtx_lock P (cs_lock sc) (thrds_lock P) s;
         if result \<noteq> thrd_success then error_release_thrd P thread s
         else do {
           (result, s) \<leftarrow> mtx_unlock P (cs_unlock sc) (thrds_lock P) (s\<lparr>thrds := thrds s @ [thread]\<rparr>);
           if result \<noteq> thrd_success then error_remove_thrds P sc thread s
           else do {
             (task, k) \<leftarrow> scheduler_create (c_tls_init P) (stack_at thread) (at_stack_size attr - SIZEOF_THRD)
               (Some \<lparr>entry_point = c_dispatch P, d_exit_handler = c_exit P, d_context = thread, d_flags = at_flags attr,
                 d_priority = at_priority attr, d_affinity = at_affinity attr\<rparr>) (c_eframe P) (knl s);
             let s = s\<lparr>knl := k\<rparr>;
             if task = 0 then error_remove_thrds P sc thread s else Some (thrd_success, thread, s)
           }
         }
       }
     }
   }"

definition thrd_create ::
  "c11_port \<Rightarrow> create_script \<Rightarrow> addr \<Rightarrow> addr \<Rightarrow> c11 \<Rightarrow> (thrd_result \<times> addr \<times> c11) option" where
  "thrd_create P sc func arg s = do {
     s \<leftarrow> check (func \<noteq> 0) s;
     thrd_create_with P sc func arg
       \<lparr>at_flags = 0, at_priority = THRD_PRIORITY, at_affinity = UINT32_MAX, at_stack_size = THRD_STACK_SIZE\<rparr> s
   }"

text \<open>The attributes as the application sets them.\<close>

definition thdr_attr_init :: "word32 \<Rightarrow> word32 \<Rightarrow> word32 \<Rightarrow> word32 \<Rightarrow> thrd_attr" where
  "thdr_attr_init flags priority stack_bytes affinity =
    \<lparr>at_flags = flags, at_priority = priority, at_affinity = affinity, at_stack_size = stack_bytes\<rparr>"

text \<open>A turn of the reaper, with the lock of the list held before and after.\<close>

definition thrds_reaper_start :: "c11_port \<Rightarrow> (c11 \<Rightarrow> c11) list \<Rightarrow> c11 \<Rightarrow> c11 option" where
  "thrds_reaper_start P envs s = do {
     (result, s) \<leftarrow> mtx_lock P envs (thrds_lock P) s;
     check (result = thrd_success) s
   }"

definition thrds_reaper_turn :: "c11_port \<Rightarrow> cnd_script \<Rightarrow> c11 \<Rightarrow> c11 option" where
  "thrds_reaper_turn P script s = do {
     (result, s) \<leftarrow> cnd_wait P script (thrds_reap P) (thrds_lock P) s;
     s \<leftarrow> check (result = thrd_success) s;
     let dead = filter (\<lambda>t. tr_detached (thrd_of s t) \<and> tr_terminated (thrd_of s t)) (thrds s);
     Some (foldl (\<lambda>s t. c_release P t s) (s\<lparr>thrds := filter (\<lambda>t. t \<notin> set dead) (thrds s)\<rparr>) dead)
   }"

definition thrds_reaper_init ::
  "c11_port \<Rightarrow> create_script \<Rightarrow> (addr \<Rightarrow> c11 \<Rightarrow> (thrd_result \<times> c11) option) \<Rightarrow> c11 \<Rightarrow> c11 option" where
  "thrds_reaper_init P sc detach s = do {
     (result, s) \<leftarrow> cnd_init (thrds_reap P) s;
     s \<leftarrow> check (result = thrd_success) s;
     (result, reaper, s) \<leftarrow> thrd_create P sc (c_reaper P) 0 s;
     s \<leftarrow> check (result = thrd_success) s;
     (result, s) \<leftarrow> detach reaper s;
     check (result = thrd_success) s
   }"

text \<open>
  \<open>thrd_detach\<close> and \<open>thrds_reaper_init\<close> call each other: the number bounds the depth. \<open>envs\<close> are the
  waits of the once function, at each depth.
\<close>

fun thrd_detach ::
  "nat \<Rightarrow> c11_port \<Rightarrow> create_script \<Rightarrow> (nat \<Rightarrow> (c11 \<Rightarrow> c11) \<times> (c11 \<Rightarrow> c11) list) \<Rightarrow> addr \<Rightarrow> c11 \<Rightarrow> (thrd_result \<times> c11) option" where
  "thrd_detach 0 P sc envs thrd s = None"
| "thrd_detach (Suc n) P sc envs thrd s = do {
     s \<leftarrow> call_once P (fst (envs n)) (snd (envs n)) (thrds_reaper_init_flag P)
       (thrds_reaper_init P sc (thrd_detach n P sc envs)) s;
     thread \<leftarrow> (if thrd = 0 then current_thrd s else Some thrd);
     k \<leftarrow> scheduler_set_flags (stack_at thread) SCHEDULER_IGNORE_VIABLE (knl s);
     Some (thrd_success, s\<lparr>knl := k\<rparr>)
   }"

declare thrd_detach.simps [simp del]

fun join_loop :: "c11_port \<Rightarrow> cnd_script list \<Rightarrow> addr \<Rightarrow> c11 \<Rightarrow> (thrd_result \<times> c11) option" where
  "join_loop P scripts thread s =
    (if tr_terminated (thrd_of s thread) then Some (thrd_success, s)
     else (case scripts of
         [] \<Rightarrow> None
       | script # scripts \<Rightarrow> do {
           (result, s) \<leftarrow> cnd_wait P script (joiners_at thread) (thrds_lock P) s;
           if result \<noteq> thrd_success then Some (result, s) else join_loop P scripts thread s
         }))"

declare join_loop.simps [simp del]

text \<open>The value is the result and the return code of the thread.\<close>

definition thrd_join ::
  "c11_port \<Rightarrow> (c11 \<Rightarrow> c11) list \<Rightarrow> (c11 \<Rightarrow> c11) \<Rightarrow> cnd_script list \<Rightarrow> addr \<Rightarrow> c11 \<Rightarrow> (thrd_result \<times> word32 option \<times> c11) option" where
  "thrd_join P envs env scripts thread s = do {
     s \<leftarrow> check (thread \<noteq> 0) s;
     (result, s) \<leftarrow> mtx_lock P envs (thrds_lock P) s;
     s \<leftarrow> check (result = thrd_success) s;
     if tr_detached (thrd_of s thread) \<or> tr_joiner (thrd_of s thread) \<noteq> 0
     then do {
       (result, s) \<leftarrow> mtx_unlock P env (thrds_lock P) s;
       s \<leftarrow> check (result = thrd_success) s;
       Some (thrd_error, None, s)
     }
     else do {
       self \<leftarrow> thrd_current s;
       let s = thrd_upd thread (\<lambda>x. x\<lparr>tr_joiner := self\<rparr>) s;
       (status, s) \<leftarrow> join_loop P scripts thread s;
       (result, s) \<leftarrow> mtx_unlock P env (thrds_lock P) (s\<lparr>thrds := filter ((\<noteq>) thread) (thrds s)\<rparr>);
       s \<leftarrow> check (result = thrd_success) s;
       let ret = tr_ret (thrd_of s thread);
       Some (status, Some ret, c_release P thread s)
     }
   }"

text \<open>The remaining time is always zero.\<close>

definition thrd_sleep :: "c11_port \<Rightarrow> (c11 \<Rightarrow> c11) \<Rightarrow> timespec \<Rightarrow> c11 \<Rightarrow> (word32 \<times> c11) option" where
  "thrd_sleep P run duration s =
    (let ticks = ucast (tm_ticks duration)
     in if ticks = 0 then map_option (Pair 0) (thrd_yield P run s)
        else do {
          task \<leftarrow> scheduler_task (knl s);
          (frame, k) \<leftarrow> scheduler_suspend_svc ((c_frame P)\<lparr>sf_r0 := task, sf_r1 := ticks\<rparr>) (knl s);
          let s = s\<lparr>knl := k\<rparr>;
          let (status, s) = (if current_task (this k) = task then (sf_r0 frame, s)
            else let s = run s in (sf_r0 (psp (task_of (knl s) task)), s));
          if status <s 0 \<and> status \<noteq> - ETIMEDOUT then Some (status, set_errno (- status) s) else Some (0, s)
        })"

section \<open>Properties\<close>

lemma missed_unless_now: "deadline \<noteq> ucast ticks \<Longrightarrow> missed ticks deadline"
proof -
  assume ne: "deadline \<noteq> ucast ticks"
  have t: "unat (ucast ticks :: 64 word) = unat ticks" using unat_less32 [of ticks]
    by (simp add: unsigned_ucast_eq take_bit_nat_eq_self_iff)
  have u: "unat (ucast UINT32_MAX :: 64 word) = 2 ^ 32 - 1" by simp
  show ?thesis
  proof (cases "ucast ticks < deadline")
    case False
    then have lt: "unat deadline < unat ticks" using ne t by (metis linorder_neqE word_less_nat_alt)
    have "unat (deadline - ucast ticks) = 2 ^ 64 + unat deadline - unat ticks"
      using lt t unat_less32 [of ticks] by (simp add: unat_sub_if_size size_word_def)
    then have "2 ^ 32 - 1 \<le> unat (deadline - ucast ticks)" using unat_less32 [of ticks] by simp
    then show ?thesis using u by (simp add: missed_def word_le_nat_alt)
  qed (simp add: missed_def)
qed

text \<open>
  A timed wait never waits: unless the given time is exactly the current tick, locking a mutex
  or waiting for a condition with a time limit gives up at once and changes nothing, whether the time
  is past or still to come.
\<close>

theorem timed_waits_give_up:
  assumes "mtx \<noteq> 0" and "mtx_type s mtx AND c_timed P \<noteq> 0" and "tm_ticks tm \<noteq> ucast (scheduler_get_ticks (knl s))"
  shows "mtx_timedlock P envs mtx tm s = Some (thrd_timedout, s) \<and> cnd_timedwait P script cnd mtx tm s = Some (thrd_timedout, s)"
  using assms missed_unless_now [OF assms(3)] by (simp add: mtx_timedlock_def cnd_timedwait_def)

text \<open>What blocks a task does not touch the words of memory.\<close>

lemma queue_mem:
  "sched_queue_push q t k = Some k' \<Longrightarrow> mem k' = mem k" "sched_queue_remove t k = Some k' \<Longrightarrow> mem k' = mem k"
  "scheduler_timer_push t ticks k = Some k' \<Longrightarrow> mem k' = mem k"
  by (auto simp: sched_queue_push_def sched_queue_remove_def scheduler_timer_push_def Let_def check_def
      split: Option.bind_splits if_splits option.splits)

lemma reprioritize_mem: "sched_queue_reprioritize t p k = Some k' \<Longrightarrow> mem k' = mem k"
  by (auto simp: sched_queue_reprioritize_def Let_def check_def dest!: queue_mem
      split: Option.bind_splits if_splits option.splits)

lemma wait_block_mem: "wait_block f val ticks t k = Some k' \<Longrightarrow> mem k' = mem k"
  by (auto simp: wait_block_def futex_boost_owner_def Let_def check_def dest!: queue_mem reprioritize_mem
      split: Option.bind_splits if_splits)

lemma wait_svc_mem:
  assumes w: "scheduler_wait_svc fr k = Some (fr', k')" and e: "sf_r1 fr = 1" and m: "mem k a = 1"
  shows "mem k' a = 1"
  using w e m
  by (auto simp: scheduler_wait_svc_def Let_def check_def sched_set_current_def sched_defs scheduler_switch_hook_def
      dest!: queue_mem wait_block_mem split: Option.bind_splits if_splits)

lemma set_word_sel [simp]:
  "knl (set_word a v s) = (knl s)\<lparr>mem := (mem (knl s))(a := v)\<rparr>" "mtx_type (set_word a v s) = mtx_type s"
  "cnd_mutex (set_word a v s) = cnd_mutex s" "thrd_of (set_word a v s) = thrd_of s" "thrds (set_word a v s) = thrds s"
  by (simp_all add: set_word_def)

lemma c_futex_wait_word:
  assumes "c_futex_wait P env f 1 ticks s = Some (status, s')" and "word_at s a = 1"
    and "\<And>s. word_at s a = 1 \<Longrightarrow> word_at (env s) a = 1"
  shows "word_at s' a = 1"
  using assms by (auto simp: c_futex_wait_def futex_wait_in_def Let_def check_def dest!: wait_svc_mem [where a = a]
      split: Option.bind_splits if_splits prod.splits)

lemma once_wait_stuck:
  assumes "\<forall>env\<in>set envs. \<forall>s. word_at s flag = 1 \<longrightarrow> word_at (env s) flag = 1" and "word_at s flag = 1"
  shows "once_wait P envs f flag s = None"
  using assms
proof (induction envs arbitrary: s)
  case Nil
  then show ?case by (simp add: once_wait.simps cas_word_def)
next
  case (Cons env envs)
  show ?case
  proof (cases "c_futex_wait P env f 1 SCHEDULER_WAIT_FOREVER s")
    case None
    then show ?thesis using Cons.prems(2) by (simp add: once_wait.simps [of P "env # envs"] cas_word_def)
  next
    case (Some r)
    obtain status s' where r: "r = (status, s')" by (cases r)
    have "word_at s' flag = 1" using c_futex_wait_word [of P env f _ s status s' flag] Some r Cons.prems by simp
    then show ?thesis using Cons Some r by (simp add: once_wait.simps [of P "env # envs"] cas_word_def)
  qed
qed

text \<open>
  While the reaper is being set up nobody can detach a thread: with the flag of the once
  function at 1 a call of \<open>thrd_detach\<close> waits for the set-up to finish and, as long as nobody else finishes it,
  does not return. The set-up makes exactly this call itself, for the reaper, and only its return
  would finish it: the first detached thread hangs its caller.
\<close>

theorem detach_waits_for_itself:
  assumes "word_at s (thrds_reaper_init_flag P) = 1"
    and "\<forall>i<n. \<forall>env\<in>set (fst (envs i) # snd (envs i)). \<forall>s. word_at s (thrds_reaper_init_flag P) = 1 \<longrightarrow>
      word_at (env s) (thrds_reaper_init_flag P) = 1"
  shows "thrd_detach n P sc envs thrd s = None"
proof (cases n)
  case (Suc i)
  let ?flag = "thrds_reaper_init_flag P"
  have e: "word_at (fst (envs i) s') ?flag = 1" if "word_at s' ?flag = 1" for s' using assms(2) Suc that by auto
  have stuck: "once_wait P (snd (envs i)) f ?flag s' = None" if "word_at s' ?flag = 1" for f s'
    by (rule once_wait_stuck [OF _ that]) (use assms(2) Suc in auto)
  have "call_once P (fst (envs i)) (snd (envs i)) ?flag func s = None" for func
  proof (cases "c_futex_init (c_local P) ?flag 0 s")
    case (Some s1)
    then have "word_at s1 ?flag = 1"
      using assms(1) by (auto simp: c_futex_init_def scheduler_futex_init_def check_def Let_def split: if_splits)
    then show ?thesis using Some assms(1) e stuck by (simp add: call_once_def cas_word_def)
  qed (use assms(1) in \<open>simp add: call_once_def\<close>)
  then show ?thesis using Suc by (simp add: thrd_detach.simps)
qed (simp add: thrd_detach.simps)

text \<open>The rest of a wait for a condition, once the caller runs again.\<close>

definition cnd_resume :: "c11_port \<Rightarrow> cnd_script \<Rightarrow> addr \<Rightarrow> addr \<Rightarrow> c11 \<Rightarrow> (thrd_result \<times> c11) option" where
  "cnd_resume P script cnd task s = do {
     let status = sf_r0 (psp (task_of (knl s) task));
     let s = (if status <s 0 then set_errno (- status) s else s);
     (_, s) \<leftarrow> mtx_lock P (in_lock script) (cnd_mutex s cnd) s;
     Some (if status <s 0
           then (if status = - ETIMEDOUT then thrd_timedout else thrd_error, set_errno (- status) s)
           else (thrd_success, s))
   }"

text \<open>A condition variable and the mutex that goes with it, held by the running task.\<close>

definition cnd_ok :: "c11_port \<Rightarrow> addr \<Rightarrow> addr \<Rightarrow> addr \<Rightarrow> c11 \<Rightarrow> bool" where
  "cnd_ok P cnd mtx task s \<longleftrightarrow> kinv (knl s) \<and> ipsr (knl s) = 0 \<and> current_task (this (knl s)) = task \<and> task \<noteq> 0 \<and> task AND 1 = 0 \<and>
    cnd \<noteq> 0 \<and> mtx \<noteq> 0 \<and> mtx \<noteq> cnd_sequence cnd \<and> (cnd_mutex s cnd = 0 \<or> cnd_mutex s cnd = mtx) \<and>
    word_at s mtx = task \<and> mtx_type s mtx AND c_recursive P = 0 \<and>
    futex_plain (cnd_futex cnd) (knl s) \<and> f_value (futex_of (knl s) (cnd_futex cnd)) = cnd_sequence cnd"

lemma even_owner: "task AND 1 = 0 \<Longrightarrow> owner_of task = task" for task :: word32
proof -
  assume a: "task AND 1 = 0"
  have "(task AND NOT 1) OR (task AND 1) = task" by (rule bit_word_eqI) (auto simp: bit_simps)
  then show ?thesis using a by simp
qed

lemma current_is: "kinv k \<Longrightarrow> current_task (this k) = task \<Longrightarrow> task \<noteq> 0 \<Longrightarrow> sched_get_current k = Some task"
  using current_marked [of k "this_core k"] by (simp add: sched_get_current_eq kinv_def)

lemma c_futex_wait_plain:
  assumes k: "kinv (knl s)" and c: "current_task (this (knl s)) = task" "task \<noteq> 0" and f: "futex_plain f (knl s)"
  shows "\<exists>k. c_futex_wait P run f val ticks s =
      (let w = run (s\<lparr>knl := k\<rparr>); status = sf_r0 (psp (task_of (knl w) task))
       in Some (status, if status <s 0 then set_errno (- status) w else w)) \<and> kinv k \<and> mem k = mem (knl s) \<and>
    (if word_at s (f_value (futex_of (knl s) f)) = val
     then state_of k task = TASK_BLOCKED \<and> task \<in> set (queues k (Waiters f))
     else state_of k task = TASK_READY \<and> task \<in> set (queues k ReadyQueue))"
proof -
  let ?fr = "(c_frame P)\<lparr>sf_r0 := f, sf_r1 := val, sf_r2 := ticks\<rparr>"
  have fl: "f \<noteq> 0" "f_marker (futex_of (knl s) f) = SCHEDULER_FUTEX_MARKER" "f_flags (futex_of (knl s) f) = 0"
    using f by (auto simp: futex_plain_def)
  have w: "wait_ok ?fr (knl s)" "wait_word (knl s) ?fr = val" using fl by (simp_all add: wait_ok_def owner_ok_def wait_word_def)
  obtain fr k' where k': "scheduler_wait_svc ?fr (knl s) = Some (fr, k')" "kinv k'" "current_task (this k') = 0"
    "mem k' = mem (knl s)"
    "if word_at s (f_value (futex_of (knl s) f)) = val
     then state_of k' task = TASK_BLOCKED \<and> task \<in> set (queues k' (Waiters f))
     else state_of k' task = TASK_READY \<and> task \<in> set (queues k' ReadyQueue)"
    using wait_svc_exact [OF k c w(1)] w(2) by (auto simp: Let_def split: if_splits)
  have "c_futex_wait P run f val ticks s =
      (let w = run (s\<lparr>knl := k'\<rparr>); status = sf_r0 (psp (task_of (knl w) task))
       in Some (status, if status <s 0 then set_errno (- status) w else w))"
    using k'(1,3) fl c(2) current_is [OF k c] by (simp add: c_futex_wait_def futex_wait_in_def Let_def set_errno_def)
  then show ?thesis using k'(2,4,5) by (intro exI [of _ k']) simp
qed

lemma cnd_wakeup_plain:
  assumes k: "kinv (knl s)" "ipsr (knl s) = 0" and f: "futex_plain (cnd_futex cnd) (knl s)" and c: "cnd \<noteq> 0"
  shows "\<exists>k n. cnd_wakeup P cnd all s = Some (thrd_success, s\<lparr>knl := k\<rparr>) \<and>
    plain_woken (cnd_futex cnd) n ((knl s)\<lparr>mem := (mem (knl s))(cnd_sequence cnd := word_at s (cnd_sequence cnd) + 1)\<rparr>) k"
proof -
  let ?k = "(knl s)\<lparr>mem := (mem (knl s))(cnd_sequence cnd := word_at s (cnd_sequence cnd) + 1)\<rparr>"
  have "kinv ?k" "ipsr ?k = 0" "futex_plain (cnd_futex cnd) ?k" using k f by simp_all
  from scheduler_futex_wake_plain [OF this, of _ all "c_eframe P"] obtain n k' where
    "scheduler_futex_wake (c_eframe P) (cnd_futex cnd) all ?k = Some (of_nat n, k')" "plain_woken (cnd_futex cnd) n ?k k'" by blast
  then show ?thesis using c by (intro exI [of _ k'] exI [of _ n]) (simp add: cnd_wakeup_def c_futex_wake_def set_word_def)
qed

text \<open>
  C36. No wake up is lost: a wait for a condition releases the mutex and then blocks in the queue of
  the condition, but if the condition is signalled after the release and before the caller has
  gone to sleep, it stays ready instead. When it runs again it takes the mutex back.
\<close>

theorem cnd_wait_not_lost:
  assumes o: "cnd_ok P cnd mtx task s"
    and sc: "in_unlock script = id"
      "before_wait script = (if signalled then \<lambda>s. snd (the (cnd_wakeup P cnd all s)) else id)"
  shows "\<exists>s1. cnd_wait P script cnd mtx s = cnd_resume P script cnd task (in_wait script s1) \<and> word_at s1 mtx = 0 \<and> cnd_mutex s1 cnd = mtx \<and>
    (if signalled then state_of (knl s1) task = TASK_READY \<and> task \<in> set (queues (knl s1) ReadyQueue)
     else state_of (knl s1) task = TASK_BLOCKED \<and> task \<in> set (queues (knl s1) (Waiters (cnd_futex cnd))))"
proof -
  let ?seq = "word_at s (cnd_sequence cnd)"
  let ?s0 = "s\<lparr>cnd_mutex := (cnd_mutex s)(cnd := mtx)\<rparr>"
  define s1 where "s1 = set_word mtx 0 ?s0"
  note d = o [unfolded cnd_ok_def]
  have st: "scheduler_task (knl s) = Some task"
    using d current_is [of "knl s" task] by (simp add: scheduler_task_def kinv_def)
  have un: "mtx_unlock P id mtx ?s0 = Some (thrd_success, s1)"
    using d st even_owner [of task] by (simp add: mtx_unlock_def cas_word_def s1_def Let_def)
  have s1: "kinv (knl s1)" "ipsr (knl s1) = 0" "current_task (this (knl s1)) = task" "futex_plain (cnd_futex cnd) (knl s1)"
    "word_at s1 mtx = 0" "word_at s1 (cnd_sequence cnd) = ?seq" "cnd_mutex s1 cnd = mtx"
    "f_value (futex_of (knl s1) (cnd_futex cnd)) = cnd_sequence cnd"
    using d by (auto simp: s1_def)
  obtain s2 where s2: "s2 = before_wait script s1" "kinv (knl s2)" "current_task (this (knl s2)) = task" "futex_plain (cnd_futex cnd) (knl s2)"
    "word_at s2 mtx = 0" "word_at s2 (cnd_sequence cnd) = (if signalled then ?seq + 1 else ?seq)" "cnd_mutex s2 cnd = mtx"
    "f_value (futex_of (knl s2) (cnd_futex cnd)) = cnd_sequence cnd"
  proof (cases signalled)
    case True
    obtain k n where k: "cnd_wakeup P cnd all s1 = Some (thrd_success, s1\<lparr>knl := k\<rparr>)"
      "plain_woken (cnd_futex cnd) n ((knl s1)\<lparr>mem := (mem (knl s1))(cnd_sequence cnd := word_at s1 (cnd_sequence cnd) + 1)\<rparr>) k"
      using cnd_wakeup_plain [OF s1(1,2,4), of P all] d by blast
    show ?thesis
      by (rule that [of "s1\<lparr>knl := k\<rparr>"]) (use k s1 True sc d in \<open>auto simp: plain_woken_def futex_plain_def\<close>)
  next
    case False
    show ?thesis by (rule that [of s1]) (use s1 False sc in simp_all)
  qed
  obtain k where k: "c_futex_wait P (in_wait script) (cnd_futex cnd) ?seq SCHEDULER_WAIT_FOREVER s2 =
      (let w = in_wait script (s2\<lparr>knl := k\<rparr>); status = sf_r0 (psp (task_of (knl w) task))
       in Some (status, if status <s 0 then set_errno (- status) w else w))" "mem k = mem (knl s2)"
    "if word_at s2 (cnd_sequence cnd) = ?seq
     then state_of k task = TASK_BLOCKED \<and> task \<in> set (queues k (Waiters (cnd_futex cnd)))
     else state_of k task = TASK_READY \<and> task \<in> set (queues k ReadyQueue)"
    using c_futex_wait_plain [OF s2(2,3) _ s2(4), of P "in_wait script" ?seq SCHEDULER_WAIT_FOREVER] d s2(8) by auto
  have "cnd_wait P script cnd mtx s = cnd_resume P script cnd task (in_wait script (s2\<lparr>knl := k\<rparr>))"
    using d un sc(1) k(1) s2(1) by (auto simp: cnd_wait_def cnd_wait_for_def cnd_resume_def Let_def fun_upd_idem)
  then show ?thesis using k(2,3) s2(5-7) by (intro exI [of _ "s2\<lparr>knl := k\<rparr>"]) (auto split: if_splits)
qed

text \<open>The sample system of the scheduler with a mutex at 0x6000 that its running task holds and a condition at 0x5000.\<close>

definition sample_c11_port :: c11_port where
  "sample_c11_port = \<lparr>c_alloc = (\<lambda>_ s. (0, s)), c_release = (\<lambda>_ s. s), c_startup = id, c_shutdown = id, c_tls_init = (\<lambda>_ s. s),
     c_tls_size = 0, c_tls = 0, c_frame = zero_frame, c_eframe = zero_eframe, c_plain = 1, c_recursive = 2, c_timed = 4,
     c_dispatch = 0x10000100, c_exit = 0x10000200, c_reaper = 0x10000300, thrds_lock = 0x20000100, thrds_reap = 0x20000200,
     thrds_init_flag = 0x20000300, thrds_reaper_init_flag = 0x20000400, c_local = 0x9000\<rparr>"

definition sample_c11 :: c11 where
  "sample_c11 = \<lparr>knl = sample_sys\<lparr>futex_of := (\<lambda>f. \<lparr>f_value = f - 4, f_flags = 0, f_marker = SCHEDULER_FUTEX_MARKER\<rparr>),
       mem := (\<lambda>_. 0)(0x6000 := 0x100)\<rparr>,
     mtx_type = (\<lambda>_. 4), mtx_count = (\<lambda>_. 0), cnd_mutex = (\<lambda>_. 0),
     tss_map = replicate 8 \<lparr>tss_used = False, tss_destructor = 0\<rparr>,
     thrd_of = (\<lambda>_. \<lparr>tr_func = 0, tr_context = 0, tr_ret = 0, tr_detached = False, tr_terminated = False, tr_joiner = 0,
       tr_tss = replicate 8 0\<rparr>), thrds = [], main_task = 0\<rparr>"

lemma sample_c11_kinv: "kinv (knl sample_c11)"
proof -
  have "deferred_wake (cores sample_sys c) = [0, 0, 0, 0, 0, 0, 0, 0]" for c
    by (simp add: sample_sys_def boot_core_def)
  then show ?thesis using sample_kinv by (simp add: kinv_def sample_c11_def slots_ok_def)
qed

lemma sample_cnd_ok: "cnd_ok sample_c11_port 0x5000 0x6000 0x100 sample_c11"
proof -
  have "current_task (this (knl sample_c11)) = 0x100" "ipsr (knl sample_c11) = 0"
    by (simp_all add: sample_c11_def sample_sys_def boot_core_def)
  moreover have "futex_plain 0x5008 (knl sample_c11)" "f_value (futex_of (knl sample_c11) 0x5008) = 0x5004"
    "word_at sample_c11 0x6000 = 0x100" "mtx_type sample_c11 0x6000 = 4" "cnd_mutex sample_c11 0x5000 = 0" "c_recursive sample_c11_port = 2"
    by (simp_all add: sample_c11_def sample_c11_port_def futex_plain_def)
  ultimately show ?thesis using sample_c11_kinv by (simp add: cnd_ok_def)
qed

definition sample_script :: "bool \<Rightarrow> cnd_script" where
  "sample_script signalled = \<lparr>in_unlock = id, before_wait = (if signalled
     then \<lambda>s. snd (the (cnd_wakeup sample_c11_port 0x5000 False s)) else id), in_wait = id, in_lock = []\<rparr>"

definition sample_create :: create_script where
  "sample_create = \<lparr>cs_once = (id, []), cs_main = id, cs_lock = [], cs_unlock = id\<rparr>"

theorem timed_waits_give_up_witness:
  "mtx_timedlock sample_c11_port [] 0x6000 \<lparr>tv_sec = 5, tv_nsec = 0\<rparr> sample_c11 = Some (thrd_timedout, sample_c11) \<and>
   cnd_timedwait sample_c11_port (sample_script False) 0x5000 0x6000 \<lparr>tv_sec = 5, tv_nsec = 0\<rparr> sample_c11 = Some (thrd_timedout, sample_c11)"
proof -
  have "scheduler_get_ticks (knl sample_c11) = 0"
    by (simp add: sample_c11_def scheduler_get_ticks_def sample_sys_def boot_core_def)
  moreover have "mtx_type sample_c11 0x6000 AND c_timed sample_c11_port \<noteq> 0" by (simp add: sample_c11_def sample_c11_port_def)
  ultimately show ?thesis
    using timed_waits_give_up [of "0x6000" sample_c11 sample_c11_port "\<lparr>tv_sec = 5, tv_nsec = 0\<rparr>" "[]" "sample_script False" "0x5000"]
    by (simp add: tm_ticks_def)
qed

theorem detach_waits_for_itself_witness:
  "thrd_detach 2 sample_c11_port sample_create (\<lambda>_. (id, [id, id])) 0x7000 (set_word 0x20000400 1 sample_c11) = None"
  by (rule detach_waits_for_itself) (simp_all add: sample_c11_port_def)

theorem cnd_wait_not_lost_witness:
  "\<exists>s1 s2. cnd_wait sample_c11_port (sample_script True) 0x5000 0x6000 sample_c11 =
      cnd_resume sample_c11_port (sample_script True) 0x5000 0x100 s1 \<and> state_of (knl s1) 0x100 = TASK_READY \<and>
    cnd_wait sample_c11_port (sample_script False) 0x5000 0x6000 sample_c11 =
      cnd_resume sample_c11_port (sample_script False) 0x5000 0x100 s2 \<and> state_of (knl s2) 0x100 = TASK_BLOCKED"
proof -
  have a: "in_unlock (sample_script b) = id" "in_wait (sample_script b) = id"
    "before_wait (sample_script b) = (if b then \<lambda>s. snd (the (cnd_wakeup sample_c11_port 0x5000 False s)) else id)" for b
    by (simp_all add: sample_script_def)
  from cnd_wait_not_lost [OF sample_cnd_ok a(1) a(3), of True] cnd_wait_not_lost [OF sample_cnd_ok a(1) a(3), of False]
  show ?thesis by (auto simp: a(2))
qed

end
