(* ===== verification/Pico_Atomic.thy ===== *)
theory Pico_Atomic
  imports Prelude
begin

text \<open>
  The atomic operations of \<open>pico-atomic.c\<close>, which every other part of the toolkit builds on: the
  sixteen two-bit locks in a scratch register, the calls of 1, 2, 4 and 8 bytes as programs of
  single memory accesses under such a lock, and the two cores that run calls in any order of
  their accesses. The theorems: a lock excludes, a call on its own ends, every interleaving is
  equivalent to calls made one after another, and \<open>__atomic_clear_m0\<close>, which takes no lock,
  can be undone by a call that does.
\<close>

section \<open>Memory\<close>

text \<open>Little-endian accesses of \<open>n\<close> bytes.\<close>

type_synonym memory = "addr \<Rightarrow> word8"

fun load :: "nat \<Rightarrow> memory \<Rightarrow> addr \<Rightarrow> word64" where
  "load 0 m a = 0"
| "load (Suc n) m a = ucast (m a) OR push_bit 8 (load n m (a + 1))"

fun store :: "nat \<Rightarrow> memory \<Rightarrow> addr \<Rightarrow> word64 \<Rightarrow> memory" where
  "store 0 m a v = m"
| "store (Suc n) m a v = (store n m (a + 1) (drop_bit 8 v))(a := ucast v)"

fun bytes :: "nat \<Rightarrow> addr \<Rightarrow> addr set" where
  "bytes 0 a = {}"
| "bytes (Suc n) a = insert a (bytes n (a + 1))"

section \<open>The locks\<close>

definition ATOMIC_STRIPE :: word32 where "ATOMIC_STRIPE = 4"
definition ATOMIC_LOCKS :: word32 where "ATOMIC_LOCKS = 16"
definition ATOMIC_LOCK_WIDTH :: word32 where "ATOMIC_LOCK_WIDTH = 2"

text \<open>The number of bits below the leading one of \<open>ATOMIC_STRIPE - 1\<close>, that one included.\<close>

definition ATOMIC_LOCK_IDX_Pos :: nat where
  "ATOMIC_LOCK_IDX_Pos = length (dropWhile Not (rev (map (bit (ATOMIC_STRIPE - 1)) [0..<32])))"

definition ATOMIC_LOCK_IDX_Msk :: word32 where
  "ATOMIC_LOCK_IDX_Msk = ATOMIC_LOCKS - 1"

definition lock_idx :: "addr \<Rightarrow> word32" where
  "lock_idx mem = drop_bit ATOMIC_LOCK_IDX_Pos mem AND ATOMIC_LOCK_IDX_Msk"

definition lock_pos :: "addr \<Rightarrow> word32" where
  "lock_pos mem = lock_idx mem * ATOMIC_LOCK_WIDTH"

definition lock_mask :: "addr \<Rightarrow> word32" where
  "lock_mask mem = push_bit (unat (lock_pos mem)) (push_bit (unat ATOMIC_LOCK_WIDTH) 1 - 1)"

definition locked_mask :: "addr \<Rightarrow> nat \<Rightarrow> word32" where
  "locked_mask mem core = push_bit (unat (lock_pos mem) + core) 1"

section \<open>The calls\<close>

text \<open>
  What a call does between lock and unlock: single accesses of memory, each of which may come
  between accesses of the other core. A variable is volatile, so each mention of it in the
  source is an access.
\<close>

datatype prog =
    Return word64
  | Read addr nat "word64 \<Rightarrow> prog"
  | Write addr nat word64 prog

primrec run_prog :: "prog \<Rightarrow> memory \<Rightarrow> word64 \<times> memory" where
  "run_prog (Return r) m = (r, m)"
| "run_prog (Read a n f) m = run_prog (f (load n m a)) m"
| "run_prog (Write a n v p) m = run_prog p (store n m a v)"

primrec touches :: "prog \<Rightarrow> addr set" where
  "touches (Return r) = {}"
| "touches (Read a n f) = bytes n a \<union> (\<Union>v. touches (f v))"
| "touches (Write a n v p) = bytes n a \<union> touches p"

text \<open>
  A call has its variable, the type of the local that keeps the interrupt state, its accesses,
  and whether it takes the lock at all.
\<close>

record atomic_call =
  call_mem :: addr
  call_state :: "word32 \<Rightarrow> word32"
  call_locks :: bool
  call_body :: prog

definition locked_call :: "addr \<Rightarrow> prog \<Rightarrow> atomic_call" where
  "locked_call mem p = \<lparr>call_mem = mem, call_state = id, call_locks = True, call_body = p\<rparr>"

text \<open>\<open>result = *ptr; *ptr = f *ptr;\<close> on a type of \<open>'a\<close> bits.\<close>

definition fetch_op :: "('a::len word \<Rightarrow> 'a word) \<Rightarrow> addr \<Rightarrow> prog" where
  "fetch_op f ptr = (let n = LENGTH('a) div 8
     in Read ptr n (\<lambda>result. Read ptr n (\<lambda>v. Write ptr n (ucast (f (ucast v))) (Return result))))"

definition exchange :: "'a::len word \<Rightarrow> addr \<Rightarrow> prog" where
  "exchange val ptr = (let n = LENGTH('a) div 8
     in Read ptr n (\<lambda>result. Write ptr n (ucast val) (Return result)))"

definition compare_exchange :: "'a::len word \<Rightarrow> addr \<Rightarrow> addr \<Rightarrow> prog" where
  "compare_exchange desired e_ptr ptr = (let n = LENGTH('a) div 8
     in Read ptr n (\<lambda>v. Read e_ptr n (\<lambda>e.
          if v = e then Write ptr n (ucast desired) (Return 1)
          else Read ptr n (\<lambda>v. Write e_ptr n v (Return 0)))))"

definition atomic_fetch_add_1 :: "addr \<Rightarrow> word8 \<Rightarrow> atomic_call" where
  "atomic_fetch_add_1 mem val = locked_call mem (fetch_op (\<lambda>x. x + val) mem)"

definition atomic_fetch_sub_1 :: "addr \<Rightarrow> word8 \<Rightarrow> atomic_call" where
  "atomic_fetch_sub_1 mem val = locked_call mem (fetch_op (\<lambda>x. x - val) mem)"

definition atomic_fetch_and_1 :: "addr \<Rightarrow> word8 \<Rightarrow> atomic_call" where
  "atomic_fetch_and_1 mem val = locked_call mem (fetch_op (\<lambda>x. x AND val) mem)"

definition atomic_fetch_or_1 :: "addr \<Rightarrow> word8 \<Rightarrow> atomic_call" where
  "atomic_fetch_or_1 mem val = locked_call mem (fetch_op (\<lambda>x. x OR val) mem)"

definition atomic_exchange_1 :: "addr \<Rightarrow> word8 \<Rightarrow> atomic_call" where
  "atomic_exchange_1 mem val = locked_call mem (exchange val mem)"

definition atomic_compare_exchange_1 :: "addr \<Rightarrow> addr \<Rightarrow> word8 \<Rightarrow> atomic_call" where
  "atomic_compare_exchange_1 mem expected desired = locked_call mem (compare_exchange desired expected mem)"

definition atomic_fetch_add_2 :: "addr \<Rightarrow> word16 \<Rightarrow> atomic_call" where
  "atomic_fetch_add_2 mem val = locked_call mem (fetch_op (\<lambda>x. x + val) mem)"

definition atomic_fetch_sub_2 :: "addr \<Rightarrow> word16 \<Rightarrow> atomic_call" where
  "atomic_fetch_sub_2 mem val = locked_call mem (fetch_op (\<lambda>x. x - val) mem)"

definition atomic_fetch_and_2 :: "addr \<Rightarrow> word16 \<Rightarrow> atomic_call" where
  "atomic_fetch_and_2 mem val = locked_call mem (fetch_op (\<lambda>x. x AND val) mem)"

text \<open>Alone among the calls, this one keeps the interrupt state in sixteen bits.\<close>

definition atomic_fetch_or_2 :: "addr \<Rightarrow> word16 \<Rightarrow> atomic_call" where
  "atomic_fetch_or_2 mem val =
    (locked_call mem (fetch_op (\<lambda>x. x OR val) mem))\<lparr>call_state := \<lambda>s. ucast (ucast s :: word16)\<rparr>"

definition atomic_exchange_2 :: "addr \<Rightarrow> word16 \<Rightarrow> atomic_call" where
  "atomic_exchange_2 mem val = locked_call mem (exchange val mem)"

definition atomic_compare_exchange_2 :: "addr \<Rightarrow> addr \<Rightarrow> word16 \<Rightarrow> atomic_call" where
  "atomic_compare_exchange_2 mem expected desired = locked_call mem (compare_exchange desired expected mem)"

definition atomic_fetch_add_4 :: "addr \<Rightarrow> word32 \<Rightarrow> atomic_call" where
  "atomic_fetch_add_4 mem val = locked_call mem (fetch_op (\<lambda>x. x + val) mem)"

definition atomic_fetch_sub_4 :: "addr \<Rightarrow> word32 \<Rightarrow> atomic_call" where
  "atomic_fetch_sub_4 mem val = locked_call mem (fetch_op (\<lambda>x. x - val) mem)"

definition atomic_fetch_and_4 :: "addr \<Rightarrow> word32 \<Rightarrow> atomic_call" where
  "atomic_fetch_and_4 mem val = locked_call mem (fetch_op (\<lambda>x. x AND val) mem)"

definition atomic_fetch_or_4 :: "addr \<Rightarrow> word32 \<Rightarrow> atomic_call" where
  "atomic_fetch_or_4 mem val = locked_call mem (fetch_op (\<lambda>x. x OR val) mem)"

definition atomic_exchange_4 :: "addr \<Rightarrow> word32 \<Rightarrow> atomic_call" where
  "atomic_exchange_4 mem val = locked_call mem (exchange val mem)"

definition atomic_compare_exchange_4 :: "addr \<Rightarrow> addr \<Rightarrow> word32 \<Rightarrow> atomic_call" where
  "atomic_compare_exchange_4 mem expected desired = locked_call mem (compare_exchange desired expected mem)"

definition atomic_fetch_add_8 :: "addr \<Rightarrow> word64 \<Rightarrow> atomic_call" where
  "atomic_fetch_add_8 mem val = locked_call mem (fetch_op (\<lambda>x. x + val) mem)"

definition atomic_fetch_sub_8 :: "addr \<Rightarrow> word64 \<Rightarrow> atomic_call" where
  "atomic_fetch_sub_8 mem val = locked_call mem (fetch_op (\<lambda>x. x - val) mem)"

definition atomic_fetch_and_8 :: "addr \<Rightarrow> word64 \<Rightarrow> atomic_call" where
  "atomic_fetch_and_8 mem val = locked_call mem (fetch_op (\<lambda>x. x AND val) mem)"

definition atomic_fetch_or_8 :: "addr \<Rightarrow> word64 \<Rightarrow> atomic_call" where
  "atomic_fetch_or_8 mem val = locked_call mem (fetch_op (\<lambda>x. x OR val) mem)"

definition atomic_exchange_8 :: "addr \<Rightarrow> word64 \<Rightarrow> atomic_call" where
  "atomic_exchange_8 mem val = locked_call mem (exchange val mem)"

definition atomic_compare_exchange_8 :: "addr \<Rightarrow> addr \<Rightarrow> word64 \<Rightarrow> atomic_call" where
  "atomic_compare_exchange_8 mem expected desired = locked_call mem (compare_exchange desired expected mem)"

text \<open>The value read goes through a local of 32 bits.\<close>

definition atomic_load_8 :: "addr \<Rightarrow> atomic_call" where
  "atomic_load_8 mem = locked_call mem (Read mem 8 (\<lambda>v. Return (ucast (ucast v :: word32))))"

definition atomic_store_8 :: "addr \<Rightarrow> word64 \<Rightarrow> atomic_call" where
  "atomic_store_8 mem val = locked_call mem (Write mem 8 val (Return 0))"

definition atomic_test_and_set_m0 :: "addr \<Rightarrow> atomic_call" where
  "atomic_test_and_set_m0 mem = locked_call mem (Read mem 1 (\<lambda>result. Write mem 1 1 (Return result)))"

definition atomic_clear_m0 :: "addr \<Rightarrow> atomic_call" where
  "atomic_clear_m0 mem = (locked_call mem (Write mem 1 0 (Return 0)))\<lparr>call_locks := False\<rparr>"

section \<open>Two cores\<close>

text \<open>
  Where a core is in a call, each phase before the next access of something shared. The saved
  interrupt state travels with the call. \<open>history\<close> lists the finished calls with their cores
  and results, in the order in which they gave up the lock.
\<close>

datatype core_state =
    Idle
  | Trying atomic_call word32
  | Checking atomic_call word32
  | Backing atomic_call word32
  | Inside atomic_call word32 prog
  | Leaving word32 word64

record atomic_world =
  lock_reg :: word32
  ram :: memory
  primask :: "nat \<Rightarrow> word32"
  core :: "nat \<Rightarrow> core_state"
  history :: "(nat \<times> atomic_call \<times> word64) list"

text \<open>The next step of core \<open>c\<close>; a core that is idle starts the call \<open>k\<close>.\<close>

definition atomic_step :: "nat \<Rightarrow> atomic_call \<Rightarrow> atomic_world \<Rightarrow> atomic_world" where
  "atomic_step c k w =
    (let at = (\<lambda>s w. w\<lparr>core := (core w)(c := s)\<rparr>)
     in case core w c of
          Idle \<Rightarrow>
            if call_locks k
            then at (Trying k (call_state k (primask w c))) (w\<lparr>primask := (primask w)(c := 1)\<rparr>)
            else at (Inside k 0 (call_body k)) w
        | Trying k s \<Rightarrow>
            at (Checking k s) (w\<lparr>lock_reg := lock_reg w OR locked_mask (call_mem k) c\<rparr>)
        | Checking k s \<Rightarrow>
            if lock_reg w AND lock_mask (call_mem k) = locked_mask (call_mem k) c
            then at (Inside k s (call_body k)) w
            else at (Backing k s) w
        | Backing k s \<Rightarrow>
            at (Trying k s) (w\<lparr>lock_reg := lock_reg w AND NOT (locked_mask (call_mem k) c)\<rparr>)
        | Inside k s (Read a n f) \<Rightarrow> at (Inside k s (f (load n (ram w) a))) w
        | Inside k s (Write a n v p) \<Rightarrow> at (Inside k s p) (w\<lparr>ram := store n (ram w) a v\<rparr>)
        | Inside k s (Return r) \<Rightarrow>
            let w = w\<lparr>history := history w @ [(c, k, r)]\<rparr>
            in if call_locks k
               then at (Leaving s r) (w\<lparr>lock_reg := lock_reg w AND NOT (locked_mask (call_mem k) c)\<rparr>)
               else at Idle w
        | Leaving s r \<Rightarrow> at Idle (w\<lparr>primask := (primask w)(c := s)\<rparr>))"

text \<open>\<open>__atomic_init\<close> clears the register before either core makes a call.\<close>

definition atomic_init :: "memory \<Rightarrow> (nat \<Rightarrow> word32) \<Rightarrow> atomic_world" where
  "atomic_init m p = \<lparr>lock_reg = 0, ram = m, primask = p, core = (\<lambda>_. Idle), history = []\<rparr>"

definition atomic_run :: "(nat \<times> atomic_call) list \<Rightarrow> atomic_world \<Rightarrow> atomic_world" where
  "atomic_run sched w = fold (\<lambda>(c, k). atomic_step c k) sched w"

section \<open>Accesses and what they touch\<close>

lemma load_cong: "(\<And>b. b \<in> bytes n a \<Longrightarrow> m b = m' b) \<Longrightarrow> load n m a = load n m' a"
  by (induction n arbitrary: a) auto

lemma store_outside: "b \<notin> bytes n a \<Longrightarrow> store n m a v b = m b"
  by (induction n arbitrary: a v) auto

lemma store_inside: "b \<in> bytes n a \<Longrightarrow> store n m a v b = store n m' a v b"
  by (induction n arbitrary: a v) auto

text \<open>Two outcomes agree on an area: the same result, the same bytes there.\<close>

definition agree :: "addr set \<Rightarrow> word64 \<times> memory \<Rightarrow> word64 \<times> memory \<Rightarrow> bool" where
  "agree F x y \<longleftrightarrow> fst x = fst y \<and> (\<forall>a\<in>F. snd x a = snd y a)"

lemma agree_trans: "agree F x y \<Longrightarrow> agree F y z \<Longrightarrow> agree F x z"
  and agree_sym: "agree F x y \<Longrightarrow> agree F y x"
  by (simp_all add: agree_def)

lemma run_prog_cong:
  assumes "touches p \<subseteq> F" and "\<forall>a\<in>F. m a = m' a"
  shows "agree F (run_prog p m) (run_prog p m')"
  using assms
proof (induction p arbitrary: m m')
  case (Read a n f)
  have "load n m a = load n m' a" using Read.prems by (intro load_cong) auto
  moreover have "touches (f v) \<subseteq> F" for v using Read.prems(1) by auto
  ultimately show ?case using Read.IH Read.prems(2) by simp
next
  case (Write a n v p)
  have "store n m a v b = store n m' a v b" if "b \<in> F" for b
    using that Write.prems(2) by (cases "b \<in> bytes n a") (auto simp: store_outside intro: store_inside)
  then show ?case using Write.IH Write.prems(1) by simp
qed (simp add: agree_def)

lemma run_prog_outside: "a \<notin> touches p \<Longrightarrow> snd (run_prog p m) a = m a"
  by (induction p arbitrary: m) (auto simp: store_outside)

section \<open>The lock excludes\<close>

lemma idx_pos [simp]: "ATOMIC_LOCK_IDX_Pos = 2"
  unfolding ATOMIC_LOCK_IDX_Pos_def ATOMIC_STRIPE_def by (simp add: upt_rec)

definition index :: "addr \<Rightarrow> nat" where
  "index mem = unat (lock_idx mem)"

lemma index_eq: "index mem = unat mem div 4 mod 16"
proof -
  have m: "(15 :: word32) = mask 4" by (simp add: mask_eq_exp_minus_1)
  show ?thesis
    unfolding index_def lock_idx_def ATOMIC_LOCK_IDX_Msk_def ATOMIC_LOCKS_def idx_pos
    by (simp add: m take_bit_eq_mask [symmetric] unsigned_take_bit_eq take_bit_eq_mod unat_drop_bit_eq
        drop_bit_eq_div unat_div unat_mod del: mask_numeral)
qed

lemma index_less: "index mem < 16"
  by (simp add: index_eq)

lemma lock_pos_index: "unat (lock_pos mem) = 2 * index mem"
proof -
  have "unat (lock_idx mem) * 2 < 2 ^ 32" using index_less [of mem] by (simp add: index_def)
  then show ?thesis
    by (simp add: lock_pos_def ATOMIC_LOCK_WIDTH_def index_def unat_word_ariths mult.commute)
qed

lemma bit_locked_mask: "bit (locked_mask mem c) j \<longleftrightarrow> j = 2 * index mem + c \<and> j < 32"
  by (auto simp: locked_mask_def lock_pos_index bit_simps)

lemma bit_lock_mask: "bit (lock_mask mem) j \<longleftrightarrow> j = 2 * index mem \<or> j = 2 * index mem + 1"
proof -
  have m: "push_bit 2 1 - 1 = (mask 2 :: word32)" by (simp add: mask_eq_exp_minus_1)
  show ?thesis using index_less [of mem]
    by (auto simp: lock_mask_def lock_pos_index ATOMIC_LOCK_WIDTH_def m bit_simps simp del: push_bit_of_1 mask_numeral)
qed

lemma split_pos: "c < 2 \<Longrightarrow> d < 2 \<Longrightarrow> 2 * i + c = 2 * j + d \<longleftrightarrow> i = j \<and> c = d" for c d i j :: nat
  by presburger

text \<open>The lock whose bit a core has set, and the calls a core may be in.\<close>

definition flagged :: "core_state \<Rightarrow> nat option" where
  "flagged s = (case s of Checking k _ \<Rightarrow> Some (index (call_mem k)) | Backing k _ \<Rightarrow> Some (index (call_mem k))
     | Inside k _ _ \<Rightarrow> if call_locks k then Some (index (call_mem k)) else None | _ \<Rightarrow> None)"

definition waits_for_lock :: "core_state \<Rightarrow> bool" where
  "waits_for_lock s \<longleftrightarrow> (case s of Trying k _ \<Rightarrow> call_locks k | Checking k _ \<Rightarrow> call_locks k
     | Backing k _ \<Rightarrow> call_locks k | _ \<Rightarrow> True)"

definition inside :: "core_state \<Rightarrow> nat option" where
  "inside s = (case s of Inside k _ _ \<Rightarrow> if call_locks k then Some (index (call_mem k)) else None | _ \<Rightarrow> None)"

definition lock_inv :: "atomic_world \<Rightarrow> bool" where
  "lock_inv w \<longleftrightarrow> (\<forall>c<2. \<forall>i<16. bit (lock_reg w) (2 * i + c) = (flagged (core w c) = Some i)) \<and>
     (\<forall>c<2. waits_for_lock (core w c)) \<and>
     (inside (core w 0) = None \<or> inside (core w 0) \<noteq> inside (core w 1))"

lemma inside_flagged: "inside s = Some i \<Longrightarrow> flagged s = Some i"
  by (auto simp: inside_def flagged_def split: core_state.splits if_splits)

lemma set_bit_pos:
  assumes "c < 2" "d < 2" "i < 16"
  shows "bit (r OR locked_mask mem c) (2 * i + d) \<longleftrightarrow> bit r (2 * i + d) \<or> i = index mem \<and> c = d"
    "bit (r AND NOT (locked_mask mem c)) (2 * i + d) \<longleftrightarrow> bit r (2 * i + d) \<and> \<not> (i = index mem \<and> c = d)"
  using assms split_pos [OF assms(2,1), of i "index mem"] by (auto simp: bit_simps bit_locked_mask)

text \<open>The test of \<open>__atomic_lock\<close> reads both bits at once.\<close>

lemma test_pos:
  assumes "c < 2"
  shows "r AND lock_mask mem = locked_mask mem c \<longleftrightarrow>
    bit r (2 * index mem + c) \<and> \<not> bit r (2 * index mem + (1 - c))"
proof -
  let ?i = "2 * index mem"
  have i: "?i + 1 < 32" using index_less [of mem] by simp
  have "r AND lock_mask mem = locked_mask mem c \<longleftrightarrow>
      (\<forall>j<32. bit r j \<and> (j = ?i \<or> j = ?i + 1) \<longleftrightarrow> j = ?i + c)"
    by (auto simp: bit_eq_iff bit_simps bit_lock_mask bit_locked_mask)
  also have "\<dots> \<longleftrightarrow> (\<forall>j\<in>{?i, ?i + 1}. bit r j \<longleftrightarrow> j = ?i + c)"
  proof (rule iffI, rule ballI)
    fix j
    assume "\<forall>j<32. bit r j \<and> (j = ?i \<or> j = ?i + 1) \<longleftrightarrow> j = ?i + c" and j: "j \<in> {?i, ?i + 1}"
    moreover have "j < 32" using i j by auto
    ultimately show "bit r j \<longleftrightarrow> j = ?i + c" by blast
  qed (use assms in \<open>auto simp: less_2_cases_iff\<close>)
  also have "\<dots> \<longleftrightarrow> bit r (?i + c) \<and> \<not> bit r (?i + (1 - c))"
    using assms by (auto simp: less_2_cases_iff)
  finally show ?thesis .
qed

text \<open>What one step does to the register, to the lock a core has flagged and to the one it is inside.\<close>

definition moves :: "nat \<Rightarrow> atomic_world \<Rightarrow> atomic_world \<Rightarrow> bool" where
  "moves c w w' \<longleftrightarrow> (\<forall>d. d \<noteq> c \<longrightarrow> core w' d = core w d) \<and> waits_for_lock (core w' c) \<and>
     (\<forall>d<2. \<forall>i<16. bit (lock_reg w') (2 * i + d) =
        (if d = c then flagged (core w' c) = Some i else bit (lock_reg w) (2 * i + d))) \<and>
     (\<forall>i. inside (core w' c) = Some i \<longrightarrow> i < 16 \<and> (inside (core w c) = Some i \<or> \<not> bit (lock_reg w) (2 * i + (1 - c))))"

lemma step_moves:
  assumes c: "c < 2" and w: "lock_inv w"
  shows "moves c w (atomic_step c k w)"
proof -
  have bits: "bit (lock_reg w) (2 * i + c) = (flagged (core w c) = Some i)" if "i < 16" for i
    using w c that by (simp add: lock_inv_def)
  have wl: "waits_for_lock (core w c)" using w c by (simp add: lock_inv_def)
  note defs = moves_def flagged_def waits_for_lock_def inside_def
  show ?thesis
  proof (cases "core w c")
    case Idle
    then show ?thesis using bits by (auto simp: atomic_step_def defs)
  next
    case (Trying k s)
    then show ?thesis using bits wl c by (auto simp: atomic_step_def defs set_bit_pos)
  next
    case (Checking k s)
    then show ?thesis using bits wl c index_less by (auto simp: atomic_step_def defs test_pos)
  next
    case (Backing k s)
    then show ?thesis using bits wl c by (auto simp: atomic_step_def defs set_bit_pos)
  next
    case (Inside k s p)
    then show ?thesis using bits wl c index_less
      by (cases p) (auto simp: atomic_step_def Let_def defs set_bit_pos)
  next
    case (Leaving s r)
    then show ?thesis using bits wl by (auto simp: atomic_step_def defs)
  qed
qed

lemma moves_lock_inv:
  assumes m: "moves c w w'" and c: "c < 2" and w: "lock_inv w"
  shows "lock_inv w'"
proof -
  have other: "core w' d = core w d" if "d \<noteq> c" for d using m that by (simp add: moves_def)
  have b: "bit (lock_reg w') (2 * i + d) = (flagged (core w' d) = Some i)" if "d < 2" "i < 16" for d i
    using m w other that by (cases "d = c") (auto simp: moves_def lock_inv_def)
  have x: "inside (core w' c) \<noteq> inside (core w' (1 - c))" if i: "inside (core w' c) = Some i" for i
  proof
    assume e: "inside (core w' c) = inside (core w' (1 - c))"
    have d: "1 - c \<noteq> c" "1 - c < 2" using c by arith+
    have o: "inside (core w (1 - c)) = Some i" using e i other [OF d(1)] by simp
    have "i < 16" "inside (core w c) = Some i \<or> \<not> bit (lock_reg w) (2 * i + (1 - c))"
      using m i by (auto simp: moves_def)
    then have "inside (core w c) = Some i"
      using w d(2) inside_flagged [OF o] by (auto simp: lock_inv_def)
    with o w c show False by (auto simp: lock_inv_def less_2_cases_iff)
  qed
  have "inside (core w' 0) = None \<or> inside (core w' 0) \<noteq> inside (core w' 1)"
    using x other w c by (cases "inside (core w' c)") (auto simp: lock_inv_def less_2_cases_iff)
  moreover have "waits_for_lock (core w' d)" if "d < 2" for d
    using m w other that by (cases "d = c") (auto simp: moves_def lock_inv_def)
  ultimately show ?thesis using b by (simp add: lock_inv_def)
qed

lemma lock_inv_step: "c < 2 \<Longrightarrow> lock_inv w \<Longrightarrow> lock_inv (atomic_step c k w)"
  using moves_lock_inv [OF step_moves] by blast

lemma lock_inv_init: "lock_inv (atomic_init m p)"
  by (simp add: lock_inv_def atomic_init_def flagged_def waits_for_lock_def inside_def)

text \<open>Runs by cores 0 and 1, and what every step of theirs keeps.\<close>

definition two_cores :: "(nat \<times> atomic_call) list \<Rightarrow> bool" where
  "two_cores sched \<longleftrightarrow> (\<forall>(c, k)\<in>set sched. c < 2)"

lemma atomic_run_induct:
  assumes "\<And>c k w. P w \<Longrightarrow> (c, k) \<in> set sched \<Longrightarrow> P (atomic_step c k w)" and "P w"
  shows "P (atomic_run sched w)"
  using assms unfolding atomic_run_def by (induction sched arbitrary: w) auto

lemma lock_inv_run:
  assumes "two_cores sched"
  shows "lock_inv (atomic_run sched (atomic_init m p))"
proof (rule atomic_run_induct)
  show "lock_inv (atomic_init m p)" by (rule lock_inv_init)
  show "lock_inv (atomic_step c k w)" if "lock_inv w" "(c, k) \<in> set sched" for c k w
    using assms that lock_inv_step by (auto simp: two_cores_def)
qed

section \<open>Interleavings are sequences of calls\<close>

text \<open>The finished calls made one after another; \<open>None\<close> if one would give another result.\<close>

fun replay :: "memory \<Rightarrow> (nat \<times> atomic_call \<times> word64) list \<Rightarrow> memory option" where
  "replay m [] = Some m"
| "replay m ((c, k, r) # h) =
    (case run_prog (call_body k) m of (r', m') \<Rightarrow> if r' = r then replay m' h else None)"

lemma replay_append: "replay m (h @ h') = Option.bind (replay m h) (\<lambda>m. replay m h')"
  by (induction m h rule: replay.induct) (auto split: prod.split)

text \<open>Calls under different locks have no byte in common.\<close>

definition independent :: "atomic_call set \<Rightarrow> bool" where
  "independent C \<longleftrightarrow> (\<forall>k\<in>C. \<forall>k'\<in>C. lock_idx (call_mem k) \<noteq> lock_idx (call_mem k') \<longrightarrow>
     touches (call_body k) \<inter> touches (call_body k') = {})"

definition area :: "core_state \<Rightarrow> addr set" where
  "area s = (case s of Inside k _ _ \<Rightarrow> touches (call_body k) | _ \<Rightarrow> {})"

lemma area_simps [simp]:
  "area Idle = {}" "area (Trying k s) = {}" "area (Checking k s) = {}" "area (Backing k s) = {}"
  "area (Leaving s r) = {}" "area (Inside k s p) = touches (call_body k)"
  by (simp_all add: area_def)

definition inside_call :: "core_state \<Rightarrow> bool" where
  "inside_call s \<longleftrightarrow> (case s of Inside _ _ _ \<Rightarrow> True | _ \<Rightarrow> False)"

definition call_of :: "core_state \<Rightarrow> atomic_call option" where
  "call_of s = (case s of Idle \<Rightarrow> None | Trying k _ \<Rightarrow> Some k | Checking k _ \<Rightarrow> Some k | Backing k _ \<Rightarrow> Some k
     | Inside k _ _ \<Rightarrow> Some k | Leaving _ _ \<Rightarrow> None)"

text \<open>
  A core inside a call will end it as if the call had been made at once on \<open>M\<close>, the memory the
  finished calls leave.
\<close>

definition tracks :: "memory \<Rightarrow> memory \<Rightarrow> core_state \<Rightarrow> bool" where
  "tracks M r s \<longleftrightarrow> (case s of Inside k _ p \<Rightarrow> touches p \<subseteq> touches (call_body k) \<and>
     agree (touches (call_body k)) (run_prog p r) (run_prog (call_body k) M) | _ \<Rightarrow> True)"

definition serial :: "memory \<Rightarrow> atomic_world \<Rightarrow> bool" where
  "serial m w \<longleftrightarrow> (\<exists>M. replay m (history w) = Some M \<and>
     (\<forall>a. (\<forall>c<2. a \<notin> area (core w c)) \<longrightarrow> ram w a = M a) \<and> (\<forall>c<2. tracks M (ram w) (core w c)))"

lemma tracks_cong:
  assumes t: "tracks M r s" and "\<forall>a\<in>area s. r a = r' a" and "\<forall>a\<in>area s. M a = M' a"
  shows "tracks M' r' s"
proof (cases s)
  case (Inside k x p)
  let ?F = "touches (call_body k)"
  have p: "touches p \<subseteq> ?F" "agree ?F (run_prog p r) (run_prog (call_body k) M)"
    using t by (simp_all add: tracks_def Inside)
  have "agree ?F (run_prog p r') (run_prog p r)"
    using run_prog_cong [OF p(1), of r' r] assms(2) by (simp add: area_def Inside)
  moreover have "agree ?F (run_prog (call_body k) M) (run_prog (call_body k) M')"
    using run_prog_cong [of "call_body k" ?F M M'] assms(3) by (simp add: area_def Inside)
  ultimately have "agree ?F (run_prog p r') (run_prog (call_body k) M')"
    using p(2) by (simp add: agree_def)
  then show ?thesis using p(1) by (simp add: tracks_def Inside)
qed (simp_all add: tracks_def)

text \<open>The frame of a step: the other core sees no change in its own bytes.\<close>

lemma serial_frame:
  assumes c: "c < 2" and o: "\<And>d. d < 2 \<Longrightarrow> d \<noteq> c \<Longrightarrow> core w' d = core w d \<and> area (core w d) \<inter> F = {}"
    and F: "\<And>a. a \<notin> F \<Longrightarrow> ram w' a = ram w a \<and> M' a = M a"
    and M: "\<forall>a. (\<forall>c<2. a \<notin> area (core w c)) \<longrightarrow> ram w a = M a" "\<forall>c<2. tracks M (ram w) (core w c)"
    and M': "replay m (history w') = Some M'" "tracks M' (ram w') (core w' c)"
      "\<And>a. a \<in> F \<Longrightarrow> a \<notin> area (core w' c) \<Longrightarrow> ram w' a = M' a" "area (core w c) \<subseteq> F"
  shows "serial m w'"
proof -
  have "tracks M' (ram w') (core w' d)" if "d < 2" for d
  proof (cases "d = c")
    case False
    then have "\<forall>a\<in>area (core w d). ram w a = ram w' a \<and> M a = M' a"
      using o [OF that False] F by (metis disjoint_iff)
    then show ?thesis using tracks_cong [of M "ram w" "core w d"] M(2) that o [OF that False] by simp
  qed (use M'(2) in simp)
  moreover have "ram w' a = M' a" if a: "\<forall>d<2. a \<notin> area (core w' d)" for a
  proof (cases "a \<in> F")
    case False
    have "\<forall>d<2. a \<notin> area (core w d)" using a o False M'(4) by (metis subsetD)
    then show ?thesis using M(1) F [OF False] by simp
  qed (use M'(3) a c in blast)
  ultimately show ?thesis using M'(1) by (auto simp: serial_def)
qed

lemma serial_quiet:
  assumes w: "serial m w" and o: "\<And>d. d \<noteq> c \<Longrightarrow> core w' d = core w d"
    and e: "ram w' = ram w" "history w' = history w" "inside_call (core w c) = False" "inside_call (core w' c) = False"
  shows "serial m w'"
proof -
  have "area (core w' d) = area (core w d)" "tracks M r (core w' d) = tracks M r (core w d)" for d M r
    using o [of d] e(3,4) by (cases "d = c"; simp add: area_def tracks_def inside_call_def split: core_state.splits)+
  then show ?thesis using w e(1,2) by (simp add: serial_def)
qed

definition calls_in :: "atomic_call set \<Rightarrow> atomic_world \<Rightarrow> bool" where
  "calls_in C w \<longleftrightarrow> (\<forall>c<2. \<forall>k. call_of (core w c) = Some k \<longrightarrow> k \<in> C)"

lemma calls_in_step: "calls_in C w \<Longrightarrow> k \<in> C \<Longrightarrow> calls_in C (atomic_step c k w)"
  by (auto simp: calls_in_def call_of_def atomic_step_def Let_def split: core_state.splits prog.splits if_splits)

text \<open>The other core is in another call, under another lock, so on other bytes.\<close>

lemma inside_apart:
  assumes "lock_inv w" "calls_in C w" "\<forall>k\<in>C. call_locks k" "independent C"
    and "c < 2" "d < 2" "d \<noteq> c"
  shows "area (core w d) \<inter> area (core w c) = {}"
proof (cases "\<exists>k s p k' s' p'. core w c = Inside k s p \<and> core w d = Inside k' s' p'")
  case True
  then obtain k s p k' s' p' where k: "core w c = Inside k s p" "core w d = Inside k' s' p'" by blast
  then have C: "k \<in> C" "k' \<in> C" using assms(2,5,6) unfolding calls_in_def call_of_def by force+
  then have "index (call_mem k) \<noteq> index (call_mem k')"
    using assms(1,3,5-7) k by (auto simp: lock_inv_def inside_def less_2_cases_iff)
  then have "lock_idx (call_mem k') \<noteq> lock_idx (call_mem k)" by (auto simp: index_def)
  then show ?thesis using assms(4) C k by (simp add: independent_def)
qed (auto simp: area_def split: core_state.splits)

lemma serial_step:
  assumes w: "serial m w" "lock_inv w" "calls_in C w" and C: "\<forall>k\<in>C. call_locks k" "independent C"
    and k: "k \<in> C" and c: "c < 2"
  shows "serial m (atomic_step c k w)" (is "serial m ?w")
proof -
  obtain M where M: "replay m (history w) = Some M" "\<forall>a. (\<forall>c<2. a \<notin> area (core w c)) \<longrightarrow> ram w a = M a"
    "\<forall>c<2. tracks M (ram w) (core w c)" using w(1) by (auto simp: serial_def)
  note frame = serial_frame [OF c _ _ M(2,3)]
  have new: "lock_inv ?w" "calls_in C ?w" by (rule lock_inv_step [OF c w(2)], rule calls_in_step [OF w(3) k])
  have same: "core ?w d = core w d" if "d \<noteq> c" for d
    using that by (auto simp: atomic_step_def Let_def split: core_state.splits prog.splits)
  have apart: "area (core w d) \<inter> area (core ?w c) = {}" "area (core w d) \<inter> area (core w c) = {}"
    if "d < 2" "d \<noteq> c" for d
    using inside_apart [OF new C c that] inside_apart [OF w(2,3) C c that] same [OF that(2)] by simp_all
  have quiet: "serial m ?w" if "ram ?w = ram w" "history ?w = history w" "\<not> inside_call (core w c)" "\<not> inside_call (core ?w c)"
    using serial_quiet [OF w(1) same] that by simp
  show ?thesis
  proof (cases "core w c")
    case (Checking k s)
    show ?thesis
    proof (cases "lock_reg w AND lock_mask (call_mem k) = locked_mask (call_mem k) c")
      case True
      let ?F = "touches (call_body k)"
      have s: "core ?w c = Inside k s (call_body k)" "ram ?w = ram w" "history ?w = history w"
        using True Checking by (simp_all add: atomic_step_def)
      have "a \<notin> area (core w d)" if "a \<in> ?F" "d < 2" for a d
        using apart(1) [of d] that Checking s(1) by (cases "d = c") auto
      then have "ram w a = M a" if "a \<in> ?F" for a using M(2) that by blast
      then have "tracks M (ram w) (core ?w c)" using run_prog_cong [of "call_body k" ?F] by (simp add: tracks_def s(1))
      then show ?thesis
        using same apart M(1) s Checking by (intro frame [where F = ?F and M' = M]) auto
    qed (use Checking in \<open>intro quiet; simp add: atomic_step_def inside_call_def\<close>)
  next
    case (Inside k s p)
    let ?F = "touches (call_body k)"
    have t: "touches p \<subseteq> ?F" "agree ?F (run_prog p (ram w)) (run_prog (call_body k) M)"
      using M(3) [rule_format, OF c] by (simp_all add: tracks_def Inside)
    show ?thesis
    proof (cases p)
      case (Return r)
      let ?M = "snd (run_prog (call_body k) M)"
      have s: "inside_call (core ?w c) = False" "ram ?w = ram w" "history ?w = history w @ [(c, k, r)]"
        using Return Inside by (simp_all add: atomic_step_def Let_def inside_call_def)
      have "replay m (history ?w) = Some ?M"
        using t(2) Return M(1) by (simp add: s(3) replay_append agree_def split: prod.split)
      moreover have "area (core ?w c) = {}" "tracks ?M (ram ?w) (core ?w c)"
        using s(1) by (auto simp: area_def tracks_def inside_call_def split: core_state.splits)
      moreover have "ram w a = ?M a" if "a \<in> ?F" for a using t(2) Return that by (simp add: agree_def)
      ultimately show ?thesis
        using same apart s Inside run_prog_outside by (intro frame [where F = ?F and M' = ?M]) auto
    next
      case (Read a n f)
      have s: "core ?w c = Inside k s (f (load n (ram w) a))" "ram ?w = ram w" "history ?w = history w"
        using Read Inside by (simp_all add: atomic_step_def)
      have "tracks M (ram w) (core ?w c)" using t Read by (auto simp: tracks_def s(1))
      then show ?thesis
        using same apart s Inside M(1) by (intro frame [where F = ?F and M' = M]) auto
    next
      case (Write a n v q)
      have s: "core ?w c = Inside k s q" "ram ?w = store n (ram w) a v" "history ?w = history w"
        using Write Inside by (simp_all add: atomic_step_def)
      have "tracks M (ram ?w) (core ?w c)" using t Write by (auto simp: tracks_def s(1,2))
      moreover have "ram ?w b = ram w b" if "b \<notin> ?F" for b
        using that t(1) Write by (auto simp: s(2) intro: store_outside)
      ultimately show ?thesis
        using same apart s(1,3) Inside M(1) by (intro frame [where F = ?F and M' = M]) auto
    qed
  qed (use C(1) k in \<open>intro quiet; simp add: atomic_step_def inside_call_def\<close>)+
qed

lemma serial_run:
  assumes C: "\<forall>(c, k)\<in>set sched. c < 2 \<and> k \<in> C" "\<forall>k\<in>C. call_locks k" "independent C"
  shows "serial m (atomic_run sched (atomic_init m p))"
proof -
  have "serial m w \<and> lock_inv w \<and> calls_in C w" if "w = atomic_run sched (atomic_init m p)" for w
    unfolding that
  proof (rule atomic_run_induct)
    show "serial m (atomic_init m p) \<and> lock_inv (atomic_init m p) \<and> calls_in C (atomic_init m p)"
      using lock_inv_init by (simp add: serial_def atomic_init_def tracks_def calls_in_def call_of_def)
  qed (use C serial_step lock_inv_step calls_in_step in blast)
  then show ?thesis by blast
qed

text \<open>
  The condition holds by itself for calls of 1, 2 and 4 bytes on aligned variables: two that
  share a byte share an aligned word, and the word selects the lock.
\<close>

definition word_sized :: "atomic_call \<Rightarrow> bool" where
  "word_sized k \<longleftrightarrow> (\<exists>n\<in>{1, 2, 4}. unat (call_mem k) mod n = 0 \<and> touches (call_body k) \<subseteq> bytes n (call_mem k))"

lemma bytes_offset: "b \<in> bytes n a \<Longrightarrow> \<exists>i<n. b = a + of_nat i"
proof (induction n arbitrary: a)
  case (Suc n)
  show ?case
  proof (cases "b = a")
    case False
    then obtain i where "i < n" "b = a + 1 + of_nat i" using Suc by auto
    then show ?thesis by (intro exI [of _ "Suc i"]) (simp add: add.assoc)
  qed (intro exI [of _ 0], simp)
qed simp

lemma index_in_word:
  assumes "b \<in> bytes n a" "unat a mod n = 0" "n \<in> {1, 2, 4}"
  shows "index b = index a"
proof -
  obtain i where i: "i < n" "b = a + of_nat i" using bytes_offset [OF assms(1)] by blast
  have a: "unat a < 2 ^ 32" by (rule order.strict_trans2 [OF unsigned_less]) simp
  then have "unat a + i < 2 ^ 32" using i(1) assms(2,3) by auto
  then have "unat b = unat a + i" using i assms(3) by (auto simp: unat_word_ariths unat_of_nat)
  moreover have "(unat a + i) div 4 = unat a div 4" using i(1) assms(2,3) by auto
  ultimately show ?thesis by (simp add: index_eq)
qed

lemma independent_words:
  assumes "\<forall>k\<in>C. word_sized k"
  shows "independent C"
  unfolding independent_def
proof (intro ballI impI, rule ccontr)
  fix k k'
  assume k: "k \<in> C" "k' \<in> C" "lock_idx (call_mem k) \<noteq> lock_idx (call_mem k')"
    and "touches (call_body k) \<inter> touches (call_body k') \<noteq> {}"
  then obtain b where b: "b \<in> touches (call_body k)" "b \<in> touches (call_body k')" by blast
  have "index b = index (call_mem x)" if "x \<in> C" "b \<in> touches (call_body x)" for x
  proof -
    have "word_sized x" using assms that(1) by blast
    then obtain n where n: "n \<in> {1, 2, 4}" "unat (call_mem x) mod n = 0" "touches (call_body x) \<subseteq> bytes n (call_mem x)"
      unfolding word_sized_def by (rule bexE) (elim conjE)
    from index_in_word [OF subsetD [OF n(3) that(2)] n(2,1)] show ?thesis .
  qed
  from this [OF k(1) b(1)] this [OF k(2) b(2)] have "index (call_mem k) = index (call_mem k')" by simp
  with k(3) show False by (simp add: index_def word_unat_eq_iff)
qed

lemma touches_ops [simp]:
  fixes f :: "'a::len word \<Rightarrow> 'a word"
  shows "touches (fetch_op f a) = bytes (LENGTH('a) div 8) a"
    "touches (exchange (v :: 'a word) a) = bytes (LENGTH('a) div 8) a"
  by (auto simp: fetch_op_def exchange_def Let_def)

section \<open>Interrupts\<close>

text \<open>
  PRIMASK has one bit; all calls give it back, \<open>__atomic_fetch_or_2\<close> with its narrower local
  included.
\<close>

definition keeps_mask :: "atomic_call \<Rightarrow> bool" where
  "keeps_mask k \<longleftrightarrow> call_state k 0 = 0 \<and> call_state k 1 = 1"

lemmas atomic_call_defs = locked_call_def
  atomic_fetch_add_1_def atomic_fetch_sub_1_def atomic_fetch_and_1_def atomic_fetch_or_1_def
  atomic_exchange_1_def atomic_compare_exchange_1_def atomic_fetch_add_2_def atomic_fetch_sub_2_def
  atomic_fetch_and_2_def atomic_fetch_or_2_def atomic_exchange_2_def atomic_compare_exchange_2_def
  atomic_fetch_add_4_def atomic_fetch_sub_4_def atomic_fetch_and_4_def atomic_fetch_or_4_def
  atomic_exchange_4_def atomic_compare_exchange_4_def atomic_fetch_add_8_def atomic_fetch_sub_8_def
  atomic_fetch_and_8_def atomic_fetch_or_8_def atomic_exchange_8_def atomic_compare_exchange_8_def
  atomic_load_8_def atomic_store_8_def atomic_test_and_set_m0_def atomic_clear_m0_def

lemma calls_keep_mask:
  "keeps_mask (atomic_fetch_add_1 mem v1)"
  "keeps_mask (atomic_fetch_sub_1 mem v1)"
  "keeps_mask (atomic_fetch_and_1 mem v1)"
  "keeps_mask (atomic_fetch_or_1 mem v1)"
  "keeps_mask (atomic_exchange_1 mem v1)"
  "keeps_mask (atomic_compare_exchange_1 mem expected v1)"
  "keeps_mask (atomic_fetch_add_2 mem v2)"
  "keeps_mask (atomic_fetch_sub_2 mem v2)"
  "keeps_mask (atomic_fetch_and_2 mem v2)"
  "keeps_mask (atomic_fetch_or_2 mem v2)"
  "keeps_mask (atomic_exchange_2 mem v2)"
  "keeps_mask (atomic_compare_exchange_2 mem expected v2)"
  "keeps_mask (atomic_fetch_add_4 mem v4)"
  "keeps_mask (atomic_fetch_sub_4 mem v4)"
  "keeps_mask (atomic_fetch_and_4 mem v4)"
  "keeps_mask (atomic_fetch_or_4 mem v4)"
  "keeps_mask (atomic_exchange_4 mem v4)"
  "keeps_mask (atomic_compare_exchange_4 mem expected v4)"
  "keeps_mask (atomic_fetch_add_8 mem v8)"
  "keeps_mask (atomic_fetch_sub_8 mem v8)"
  "keeps_mask (atomic_fetch_and_8 mem v8)"
  "keeps_mask (atomic_fetch_or_8 mem v8)"
  "keeps_mask (atomic_exchange_8 mem v8)"
  "keeps_mask (atomic_compare_exchange_8 mem expected v8)"
  "keeps_mask (atomic_load_8 mem)"
  "keeps_mask (atomic_store_8 mem v8)"
  "keeps_mask (atomic_test_and_set_m0 mem)"
  "keeps_mask (atomic_clear_m0 mem)"
  by (simp_all add: keeps_mask_def atomic_call_defs)

text \<open>What a core has in PRIMASK and in its local, \<open>x\<close> being the mask outside calls.\<close>

definition masked :: "word32 \<Rightarrow> word32 \<Rightarrow> core_state \<Rightarrow> bool" where
  "masked x pm s \<longleftrightarrow> (case s of
       Idle \<Rightarrow> pm = x
     | Trying k s \<Rightarrow> pm = 1 \<and> s = x
     | Checking k s \<Rightarrow> pm = 1 \<and> s = x
     | Backing k s \<Rightarrow> pm = 1 \<and> s = x
     | Inside k s _ \<Rightarrow> if call_locks k then pm = 1 \<and> s = x else pm = x
     | Leaving s r \<Rightarrow> pm = 1 \<and> s = x)"

lemma masked_step:
  assumes "masked x (primask w d) (core w d)" "waits_for_lock (core w d)" "keeps_mask k" "x = 0 \<or> x = 1"
  shows "masked x (primask (atomic_step c k w) d) (core (atomic_step c k w) d)"
proof (cases "d = c")
  case True
  have "call_state k x = x" using assms(3,4) by (auto simp: keeps_mask_def)
  then show ?thesis using assms(1,2) True
    by (auto simp: masked_def waits_for_lock_def atomic_step_def Let_def split: core_state.splits prog.splits)
next
  case False
  then have "core (atomic_step c k w) d = core w d" "primask (atomic_step c k w) d = primask w d"
    by (auto simp: atomic_step_def Let_def split: core_state.splits prog.splits)
  with assms(1) show ?thesis by simp
qed

lemma masked_run:
  assumes "\<forall>(c, k)\<in>set sched. c < 2 \<and> keeps_mask k" and "\<forall>c. p c = 0 \<or> p c = 1" and "d < 2"
  shows "masked (p d) (primask (atomic_run sched (atomic_init m p)) d) (core (atomic_run sched (atomic_init m p)) d)"
proof -
  let ?P = "\<lambda>w. lock_inv w \<and> masked (p d) (primask w d) (core w d)"
  have "?P (atomic_run sched (atomic_init m p))"
  proof (rule atomic_run_induct)
    show "?P (atomic_init m p)" using lock_inv_init by (simp add: masked_def atomic_init_def)
    show "?P (atomic_step c k w)" if "?P w" "(c, k) \<in> set sched" for c k w
      using assms that lock_inv_step [of c w k] masked_step [of "p d" w d k c] by (auto simp: lock_inv_def)
  qed
  then show ?thesis by simp
qed

section \<open>Values\<close>

lemma load_store:
  assumes "n \<le> 8"
  shows "load n (store n m a v) a = take_bit (8 * n) v"
proof -
  have far: "a \<notin> bytes j (a + of_nat i)" if "0 < i" "i + j \<le> 8" for a :: addr and i j
    using that
  proof (induction j arbitrary: i)
    case (Suc j)
    have "(of_nat i :: addr) \<noteq> 0" using Suc.prems by (simp add: word_unat_eq_iff unat_of_nat)
    then show ?case using Suc.IH [of "Suc i"] Suc.prems by (simp add: ac_simps)
  qed simp
  show ?thesis using assms
  proof (induction n arbitrary: a v)
    case (Suc n)
    let ?m = "store n m (a + 1) (drop_bit 8 v)"
    have "load n (?m(a := ucast v)) (a + 1) = load n ?m (a + 1)"
      using far [of 1 n a] Suc.prems by (intro load_cong) auto
    also have "\<dots> = take_bit (8 * n) (drop_bit 8 v)" using Suc by simp
    finally have "load (Suc n) (store (Suc n) m a v) a =
        ucast (ucast v :: word8) OR push_bit 8 (take_bit (8 * n) (drop_bit 8 v))" by simp
    also have "\<dots> = take_bit (8 * Suc n) v"
      using Suc.prems by (intro bit_word_eqI) (auto simp: bit_simps)
    finally show ?case .
  qed simp
qed

lemma run_fetch_op:
  "run_prog (fetch_op f a) m = (let n = LENGTH('a) div 8; v = load n m a
     in (v, store n m a (ucast (f (ucast v)))))" for f :: "'a::len word \<Rightarrow> 'a word"
  by (simp add: fetch_op_def Let_def)

lemma history_in_step:
  assumes "calls_in C w" "c < 2" "\<forall>(d, k, r)\<in>set (history w). k \<in> C"
  shows "\<forall>(d, k, r)\<in>set (history (atomic_step c k w)). k \<in> C"
proof (cases "core w c")
  case (Inside k' s p)
  have "call_of (core w c) = Some k'" by (simp add: Inside call_of_def)
  then have "k' \<in> C" using assms(1,2) unfolding calls_in_def by blast
  then show ?thesis using assms(3) Inside by (cases p) (auto simp: atomic_step_def Let_def)
qed (use assms(3) in \<open>simp_all add: atomic_step_def\<close>)

lemma history_in_run:
  assumes "\<forall>(c, k)\<in>set sched. c < 2 \<and> k \<in> C"
  shows "\<forall>(d, k, r)\<in>set (history (atomic_run sched (atomic_init m p))). k \<in> C"
proof -
  let ?P = "\<lambda>w. calls_in C w \<and> (\<forall>(d, k, r)\<in>set (history w). k \<in> C)"
  have "?P (atomic_run sched (atomic_init m p))"
  proof (rule atomic_run_induct)
    show "?P (atomic_init m p)" by (simp add: calls_in_def call_of_def atomic_init_def)
    show "?P (atomic_step c k w)" if "?P w" "(c, k) \<in> set sched" for c k w
    proof -
      have "c < 2" "k \<in> C" using assms that(2) by auto
      then show ?thesis using that(1) calls_in_step [of C w k c] history_in_step [of C w c k] by blast
    qed
  qed
  then show ?thesis by blast
qed

lemma serial_idle:
  assumes "serial m w" and "\<forall>c<2. core w c = Idle"
  shows "replay m (history w) = Some (ram w)"
proof -
  obtain M where "replay m (history w) = Some M" "\<forall>a. ram w a = M a"
    using assms by (auto simp: serial_def)
  then show ?thesis by (simp add: fun_eq_iff [symmetric])
qed

section \<open>A call on its own\<close>

lemma atomic_run_simps:
  "atomic_run [] w = w" "atomic_run ((c, k) # xs) w = atomic_run xs (atomic_step c k w)"
  "atomic_run (xs @ ys) w = atomic_run ys (atomic_run xs w)"
  by (simp_all add: atomic_run_def)

lemma solo_body:
  assumes "core w c = Inside k s p"
  shows "\<exists>n. atomic_run (replicate n (c, k')) w = w\<lparr>ram := snd (run_prog p (ram w)),
    core := (core w)(c := Inside k s (Return (fst (run_prog p (ram w)))))\<rparr>"
  using assms
proof (induction p arbitrary: w)
  case (Return r)
  then have "atomic_run (replicate 0 (c, k')) w = w\<lparr>ram := snd (run_prog (Return r) (ram w)),
    core := (core w)(c := Inside k s (Return (fst (run_prog (Return r) (ram w)))))\<rparr>"
    by (simp add: atomic_run_simps fun_upd_idem)
  then show ?case by blast
next
  case (Read a n f)
  let ?w = "w\<lparr>core := (core w)(c := Inside k s (f (load n (ram w) a)))\<rparr>"
  have s: "atomic_step c k' w = ?w" using Read.prems by (simp add: atomic_step_def)
  have "core ?w c = Inside k s (f (load n (ram w) a))" by simp
  from Read.IH [OF rangeI this] obtain j where "atomic_run (replicate j (c, k')) ?w =
      ?w\<lparr>ram := snd (run_prog (f (load n (ram w) a)) (ram ?w)),
        core := (core ?w)(c := Inside k s (Return (fst (run_prog (f (load n (ram w) a)) (ram ?w)))))\<rparr>" by blast
  then have "atomic_run (replicate (Suc j) (c, k')) w = w\<lparr>ram := snd (run_prog (Read a n f) (ram w)),
    core := (core w)(c := Inside k s (Return (fst (run_prog (Read a n f) (ram w)))))\<rparr>"
    using s by (simp add: atomic_run_simps)
  then show ?case by blast
next
  case (Write a n v p)
  let ?w = "w\<lparr>ram := store n (ram w) a v, core := (core w)(c := Inside k s p)\<rparr>"
  have s: "atomic_step c k' w = ?w" using Write.prems by (simp add: atomic_step_def)
  have "core ?w c = Inside k s p" by simp
  from Write.IH [OF this] obtain j where "atomic_run (replicate j (c, k')) ?w =
      ?w\<lparr>ram := snd (run_prog p (ram ?w)), core := (core ?w)(c := Inside k s (Return (fst (run_prog p (ram ?w)))))\<rparr>"
    by blast
  then have "atomic_run (replicate (Suc j) (c, k')) w = w\<lparr>ram := snd (run_prog (Write a n v p) (ram w)),
    core := (core w)(c := Inside k s (Return (fst (run_prog (Write a n v p) (ram w)))))\<rparr>"
    using s by (simp add: atomic_run_simps)
  then show ?case by blast
qed

lemma flag_unflag:
  assumes "\<not> bit r (2 * index mem + c)"
  shows "(r OR locked_mask mem c) AND NOT (locked_mask mem c) = r"
  using assms by (intro bit_word_eqI) (auto simp: bit_simps bit_locked_mask)

lemma solo_call:
  assumes w: "lock_inv w" "core w c = Idle" "c < 2" and k: "call_locks k" "call_state k (primask w c) = primask w c"
    and free: "\<not> bit (lock_reg w) (2 * index (call_mem k) + (1 - c))"
  shows "\<exists>n. atomic_run (replicate n (c, k)) w =
    (case run_prog (call_body k) (ram w) of (r, m) \<Rightarrow> w\<lparr>ram := m, history := history w @ [(c, k, r)]\<rparr>)"
proof -
  let ?mask = "locked_mask (call_mem k) c" and ?s = "primask w c"
  let ?w = "w\<lparr>primask := (primask w)(c := 1), lock_reg := lock_reg w OR ?mask, core := (core w)(c := Inside k ?s (call_body k))\<rparr>"
  let ?x = "run_prog (call_body k) (ram w)"
  have own: "\<not> bit (lock_reg w) (2 * index (call_mem k) + c)"
    using w index_less [of "call_mem k"] by (simp add: lock_inv_def flagged_def)
  have "1 - c \<noteq> c" using w(3) by arith
  then have "(lock_reg w OR ?mask) AND lock_mask (call_mem k) = ?mask"
    unfolding test_pos [OF w(3)]
    using free w(3) index_less [of "call_mem k"] set_bit_pos(1) [OF w(3), of _ "index (call_mem k)" "lock_reg w" "call_mem k"]
    by (metis less_2_cases_iff diff_zero diff_self_eq_0 One_nat_def)
  then have "atomic_run (replicate 3 (c, k)) w = ?w"
    using w(2) k by (simp add: numeral_3_eq_3 atomic_run_simps atomic_step_def)
  moreover obtain n where "atomic_run (replicate n (c, k)) ?w =
      ?w\<lparr>ram := snd ?x, core := (core ?w)(c := Inside k ?s (Return (fst ?x)))\<rparr>" (is "_ = ?v")
    using solo_body [of ?w c k ?s "call_body k" k] by auto
  moreover have "atomic_run (replicate 2 (c, k)) ?v = w\<lparr>ram := snd ?x, history := history w @ [(c, k, fst ?x)]\<rparr>"
    using k(1) w(2) flag_unflag [OF own]
    by (simp add: numeral_2_eq_2 atomic_run_simps atomic_step_def fun_upd_idem)
  ultimately have "atomic_run (replicate (3 + n + 2) (c, k)) w = w\<lparr>ram := snd ?x, history := history w @ [(c, k, fst ?x)]\<rparr>"
    by (simp only: replicate_add atomic_run_simps)
  then show ?thesis by (intro exI) (simp add: case_prod_beta)
qed

lemma ucast_take: "ucast (take_bit 32 (ucast x :: word64)) = x" for x :: word32
  by (rule bit_word_eqI) (simp add: bit_simps)

section \<open>What the atomic operations promise\<close>

text \<open>
  Mutual exclusion: whatever the order in which two cores take their steps, they are never
  both inside calls of the same lock, so never inside calls on one variable; a core inside a
  locked call has its interrupts masked, and a core outside has the mask it had at first.
\<close>

theorem atomic_mutual_exclusion:
  assumes "\<forall>(c, k)\<in>set sched. c < 2 \<and> keeps_mask k" and "\<forall>c. p c = 0 \<or> p c = 1"
    and "w = atomic_run sched (atomic_init m p)"
  shows "(\<forall>k s x k' s' x'. core w 0 = Inside k s x \<and> core w 1 = Inside k' s' x' \<and> call_locks k \<and> call_locks k' \<longrightarrow>
      lock_idx (call_mem k) \<noteq> lock_idx (call_mem k') \<and> call_mem k \<noteq> call_mem k') \<and>
    (\<forall>c<2. \<forall>k s x. core w c = Inside k s x \<and> call_locks k \<longrightarrow> primask w c = 1) \<and>
    (\<forall>c<2. core w c = Idle \<longrightarrow> primask w c = p c)"
proof -
  have "two_cores sched" using assms(1) by (auto simp: two_cores_def)
  then have "lock_inv w" using lock_inv_run assms(3) by blast
  then have "inside (core w 0) = None \<or> inside (core w 0) \<noteq> inside (core w 1)" by (simp add: lock_inv_def)
  then have "lock_idx (call_mem k) \<noteq> lock_idx (call_mem k') \<and> call_mem k \<noteq> call_mem k'"
    if "core w 0 = Inside k s x" "core w 1 = Inside k' s' x'" "call_locks k" "call_locks k'" for k s x k' s' x'
    using that by (auto simp: inside_def index_def)
  moreover have "masked (p c) (primask w c) (core w c)" if "c < 2" for c
    using masked_run [OF assms(1,2) that] assms(3) by simp
  then have "(core w c = Inside k s x \<and> call_locks k \<longrightarrow> primask w c = 1) \<and> (core w c = Idle \<longrightarrow> primask w c = p c)"
    if "c < 2" for c k s x using that by (fastforce simp: masked_def)
  ultimately show ?thesis by blast
qed

text \<open>
  C6. Equivalence with calls made one at a time, for calls that take the lock of their variable
  (\<open>call_locks\<close>): every function of \<open>pico-atomic.c\<close> but \<open>__atomic_clear_m0\<close>, for which the theorem
  \<open>flag_clear_lost\<close> below shows the contrary. However the accesses of two cores interleave,
  the results of the finished calls are those of a run in which each call is made at once, in
  the order in which they gave up their locks, and when no call is under way the memory is the
  one that run leaves. The calls may be on any variables as long as those under different locks
  do not overlap (\<open>independent\<close>).
\<close>

theorem atomic_calls_serialise:
  assumes "\<forall>(c, k)\<in>set sched. c < 2 \<and> k \<in> C" and "\<forall>k\<in>C. call_locks k" and "independent C"
    and "w = atomic_run sched (atomic_init m p)"
  shows "replay m (history w) \<noteq> None \<and>
    ((\<forall>c<2. core w c = Idle) \<longrightarrow> replay m (history w) = Some (ram w))"
  using serial_run [OF assms(1-3), of m p] serial_idle [of m w] assms(4) by (auto simp: serial_def)

text \<open>
  C39. Progress: a core that makes a call while the other one has not set its bit of that lock
  finishes it in finitely many steps of its own, with the result and the memory of the whole
  call, and leaves the register, the interrupt masks and the other core as they were.
\<close>

theorem atomic_call_ends:
  assumes "two_cores sched" and "w = atomic_run sched (atomic_init m p)" and "core w c = Idle" and "c < 2"
    and "call_locks k" and "keeps_mask k" and "primask w c = 0 \<or> primask w c = 1"
    and "\<not> bit (lock_reg w) (2 * index (call_mem k) + (1 - c))"
  shows "\<exists>n. atomic_run (replicate n (c, k)) w =
    (case run_prog (call_body k) (ram w) of (r, m) \<Rightarrow> w\<lparr>ram := m, history := history w @ [(c, k, r)]\<rparr>)"
proof (rule solo_call)
  show "lock_inv w" using lock_inv_run [OF assms(1)] assms(2) by blast
  show "call_state k (primask w c) = primask w c" using assms(6,7) by (auto simp: keeps_mask_def)
qed (use assms in auto)

text \<open>
  No increment is lost: after any interleaving of calls of \<open>__atomic_fetch_add_4\<close> by both
  cores on one counter, the counter holds its first value plus all the amounts added, modulo
  2 to the 32.
\<close>

theorem atomic_counter:
  assumes "\<forall>(c, k)\<in>set sched. c < 2 \<and> k \<in> range (atomic_fetch_add_4 a)"
    and "w = atomic_run sched (atomic_init m p)" and "\<forall>c<2. core w c = Idle"
  shows "\<exists>vs. map (fst \<circ> snd) (history w) = map (atomic_fetch_add_4 a) vs \<and>
    (ucast (load 4 (ram w) a) :: word32) = ucast (load 4 m a) + sum_list vs"
proof -
  let ?C = "range (atomic_fetch_add_4 a)"
  have C: "\<forall>k\<in>?C. call_locks k" "independent ?C"
    by (auto simp: atomic_fetch_add_4_def locked_call_def independent_def)
  have r: "replay m (history w) = Some (ram w)"
    using serial_idle [OF serial_run [OF assms(1) C, of m p]] assms(2,3) by blast
  have h: "\<forall>(d, k, r)\<in>set (history w). k \<in> ?C" using history_in_run [OF assms(1), of m p] assms(2) by simp
  have "\<exists>vs. map (fst \<circ> snd) h = map (atomic_fetch_add_4 a) vs \<and>
      (ucast (load 4 M a) :: word32) = ucast (load 4 m a) + sum_list vs"
    if "replay m h = Some M" "\<forall>(d, k, r)\<in>set h. k \<in> ?C" for h M
    using that
  proof (induction m h arbitrary: M rule: replay.induct)
    case (2 m c k r h)
    then obtain v where k: "k = atomic_fetch_add_4 a v" by auto
    let ?m = "store 4 m a (ucast (ucast (load 4 m a) + v))"
    have run: "run_prog (call_body k) m = (load 4 m a, ?m)"
      by (simp add: k atomic_fetch_add_4_def locked_call_def run_fetch_op Let_def)
    have "(ucast (load 4 ?m a) :: word32) = ucast (load 4 m a) + v"
      by (simp add: load_store ucast_take)
    moreover have "load 4 m a = r" "replay ?m h = Some M" "\<forall>(d, k, r)\<in>set h. k \<in> ?C"
      using 2(2,3) by (auto simp: run split: if_splits)
    from 2(1) [OF run [symmetric] this] obtain vs where "map (fst \<circ> snd) h = map (atomic_fetch_add_4 a) vs"
      "(ucast (load 4 M a) :: word32) = ucast (load 4 ?m a) + sum_list vs"
      by blast
    ultimately show ?case by (intro exI [of _ "v # vs"]) (simp add: k add.assoc comp_def)
  qed simp
  from this [OF r h] show ?thesis .
qed

text \<open>
  A run in which core 1 asks for the lock while core 0 is inside: core 1 fails, core 0 ends
  its call, core 1 tries again and ends its own.
\<close>

definition demo_add :: atomic_call where
  "demo_add = atomic_fetch_add_4 0x20000000 5"

definition demo_sched :: "(nat \<times> atomic_call) list" where
  "demo_sched = map (\<lambda>c. (c, demo_add)) [0, 0, 0, 0, 1, 1, 1, 0, 1, 0, 1, 0, 0, 1, 1, 1, 1, 1, 1]"

lemma demo_masks [simp]:
  "locked_mask 0x20000000 0 = 1" "locked_mask 0x20000000 (Suc 0) = 2" "lock_mask 0x20000000 = 3"
  by (simp_all add: locked_mask_def lock_mask_def lock_pos_def lock_idx_def ATOMIC_LOCK_IDX_Msk_def
      ATOMIC_LOCKS_def ATOMIC_LOCK_WIDTH_def)

lemma demo_memory:
  "load 4 m a = ucast (m a) OR push_bit 8 (ucast (m (a + 1)) OR push_bit 8 (ucast (m (a + 2)) OR push_bit 8 (ucast (m (a + 3)))))"
  "store 4 m a v = m(a + 3 := ucast (drop_bit 24 v), a + 2 := ucast (drop_bit 16 v), a + 1 := ucast (drop_bit 8 v), a := ucast v)"
  by (simp_all add: numeral_eq_Suc ac_simps)

lemma demo_run:
  "atomic_run demo_sched (atomic_init (\<lambda>_. 0) (\<lambda>_. 0)) =
    \<lparr>lock_reg = 0, ram = (\<lambda>_. 0)(0x20000000 := 10), primask = (\<lambda>_. 0), core = (\<lambda>_. Idle),
      history = [(0, demo_add, 0), (1, demo_add, 5)]\<rparr>"
proof -
  have k: "call_mem demo_add = 0x20000000" "call_locks demo_add" "call_state demo_add = id"
    "call_body demo_add = fetch_op (\<lambda>x. x + (5 :: word32)) 0x20000000"
    by (simp_all add: demo_add_def atomic_fetch_add_4_def locked_call_def)
  show ?thesis
    by (simp add: demo_sched_def atomic_init_def atomic_run_simps atomic_step_def k fetch_op_def demo_memory fun_upd_idem)
qed

lemma demo_keeps: "keeps_mask demo_add" "call_locks demo_add" "demo_add \<in> range (atomic_fetch_add_4 0x20000000)"
  by (simp_all add: keeps_mask_def demo_add_def atomic_fetch_add_4_def locked_call_def)

lemma demo_cores: "\<forall>(c, k)\<in>set demo_sched. c < 2 \<and> k = demo_add"
  by (simp add: demo_sched_def)

theorem atomic_mutual_exclusion_witness:
  "primask (atomic_run demo_sched (atomic_init (\<lambda>_. 0) (\<lambda>_. 0))) 1 = 0 \<and>
   (\<exists>s x. core (atomic_run (take 7 demo_sched) (atomic_init (\<lambda>_. 0) (\<lambda>_. 0))) 0 = Inside demo_add s x \<and>
     primask (atomic_run (take 7 demo_sched) (atomic_init (\<lambda>_. 0) (\<lambda>_. 0))) 0 = 1)"
proof -
  let ?w = "atomic_run (take 7 demo_sched) (atomic_init (\<lambda>_. 0) (\<lambda>_. 0))"
  have k: "call_mem demo_add = 0x20000000" "call_locks demo_add" "call_state demo_add = id"
    "call_body demo_add = fetch_op (\<lambda>x. x + (5 :: word32)) 0x20000000"
    by (simp_all add: demo_add_def atomic_fetch_add_4_def locked_call_def)
  have a: "\<forall>(c, k)\<in>set (take 7 demo_sched). c < 2 \<and> keeps_mask k" "\<forall>(c, k)\<in>set demo_sched. c < 2 \<and> keeps_mask k"
    using demo_cores demo_keeps by (auto dest: in_set_takeD)
  have "\<exists>s x. core ?w 0 = Inside demo_add s x"
    by (simp add: demo_sched_def atomic_init_def atomic_run_simps atomic_step_def k fetch_op_def)
  moreover have "core (atomic_run demo_sched (atomic_init (\<lambda>_. 0) (\<lambda>_. 0))) 1 = Idle" by (simp add: demo_run)
  ultimately show ?thesis
    using atomic_mutual_exclusion [OF a(1), of "\<lambda>_. 0" ?w "\<lambda>_. 0"] demo_keeps(2)
      atomic_mutual_exclusion [OF a(2), of "\<lambda>_. 0" _ "\<lambda>_. 0", OF _ refl] by fastforce
qed

theorem atomic_calls_serialise_witness:
  "replay (\<lambda>_. 0) [(0, demo_add, 0), (1, demo_add, 5)] = Some ((\<lambda>_. 0)(0x20000000 := 10))"
proof -
  have "independent {demo_add}" by (simp add: independent_def)
  then show ?thesis
    using atomic_calls_serialise [of demo_sched "{demo_add}" _ "\<lambda>_. 0" "\<lambda>_. 0", OF _ _ _ refl] demo_cores demo_keeps(2)
    by (simp add: demo_run)
qed

theorem atomic_call_ends_witness:
  "\<exists>n. atomic_run (replicate n (1, demo_add)) (atomic_init (\<lambda>_. 0) (\<lambda>_. 0)) =
    (atomic_init (\<lambda>_. 0) (\<lambda>_. 0))\<lparr>ram := (\<lambda>_. 0)(0x20000000 := 5), history := [(1, demo_add, 0)]\<rparr>"
proof -
  have "run_prog (call_body demo_add) (\<lambda>_. 0) = (0, (\<lambda>_. 0)(0x20000000 := 5))"
    by (simp add: demo_add_def atomic_fetch_add_4_def locked_call_def fetch_op_def demo_memory fun_upd_idem)
  then show ?thesis
    using atomic_call_ends [of "[]" "atomic_init (\<lambda>_. 0) (\<lambda>_. 0)" "\<lambda>_. 0" "\<lambda>_. 0" 1 demo_add] demo_keeps
    by (simp add: two_cores_def atomic_run_simps atomic_init_def)
qed

theorem atomic_counter_witness:
  "\<exists>vs. map (fst \<circ> snd) (history (atomic_run demo_sched (atomic_init (\<lambda>_. 0) (\<lambda>_. 0)))) = map (atomic_fetch_add_4 0x20000000) vs \<and>
    (10 :: word32) = sum_list vs"
proof -
  have "\<forall>(c, k)\<in>set demo_sched. c < 2 \<and> k \<in> range (atomic_fetch_add_4 0x20000000)"
    using demo_cores demo_keeps(3) by auto
  from atomic_counter [OF this refl, of "\<lambda>_. 0" "\<lambda>_. 0"] show ?thesis
    by (simp add: demo_run demo_memory)
qed

section \<open>The call that takes no lock\<close>

text \<open>
  \<open>__atomic_clear_m0\<close> stores without the lock. Here core 0 clears a flag it holds between the
  read and the write of a test-and-set by core 1.
\<close>

definition flag_sched :: "(nat \<times> atomic_call) list" where
  "flag_sched = (let tas = (1, atomic_test_and_set_m0 0x20000000); clear = (0, atomic_clear_m0 0x20000000)
     in [tas, tas, tas, tas, clear, clear, clear, tas, tas, tas])"

text \<open>
  Clearing a flag is not atomic with respect to test-and-set: there is an interleaving after
  which both calls have returned, the flag is still set although it was cleared and nobody
  acquired it, and neither order of the two calls has that outcome.
\<close>

theorem flag_clear_lost:
  "\<exists>w. w = atomic_run flag_sched (atomic_init ((\<lambda>_. 0)(0x20000000 := 1)) (\<lambda>_. 0)) \<and>
    core w = (\<lambda>_. Idle) \<and> ram w 0x20000000 = 1 \<and>
    history w = [(0, atomic_clear_m0 0x20000000, 0), (1, atomic_test_and_set_m0 0x20000000, 1)] \<and>
    replay ((\<lambda>_. 0)(0x20000000 := 1)) (history w) = None \<and>
    replay ((\<lambda>_. 0)(0x20000000 := 1)) (rev (history w)) \<noteq> Some (ram w)"
proof -
  let ?m = "(\<lambda>_. 0)(0x20000000 := 1) :: memory"
  let ?c = "atomic_clear_m0 0x20000000" and ?t = "atomic_test_and_set_m0 0x20000000"
  have k: "call_mem ?c = 0x20000000" "\<not> call_locks ?c" "call_state ?c = id"
    "call_body ?c = Write 0x20000000 1 0 (Return 0)"
    "call_mem ?t = 0x20000000" "call_locks ?t" "call_state ?t = id"
    "call_body ?t = Read 0x20000000 1 (\<lambda>r. Write 0x20000000 1 1 (Return r))"
    by (simp_all add: atomic_clear_m0_def atomic_test_and_set_m0_def locked_call_def)
  have "atomic_run flag_sched (atomic_init ?m (\<lambda>_. 0)) =
    \<lparr>lock_reg = 0, ram = ?m, primask = (\<lambda>_. 0), core = (\<lambda>_. Idle), history = [(0, ?c, 0), (1, ?t, 1)]\<rparr>"
    by (simp add: flag_sched_def Let_def atomic_init_def atomic_run_simps atomic_step_def k fun_upd_idem)
  moreover have "((\<lambda>_. 0)(0x20000000 := 0) :: memory) \<noteq> ?m" by (metis fun_upd_same zero_neq_one)
  ultimately show ?thesis by (simp add: k fun_upd_idem)
qed

end
