(* ===== verification/Nmi.thy ===== *)
theory Nmi
  imports Prelude "HOL-Library.Multiset"
begin

text \<open>
  Interrupts boosted to the non-maskable interrupt, \<open>pico-nmi/nmi.c\<close>: a table of handlers and a
  mask register for each core. The abstraction is the list of the handlers in the table; enabling
  appends, disabling removes the first occurrence, and the handler of the NMI calls all of them.
\<close>

section \<open>State\<close>

definition NUM_IRQS :: nat where "NUM_IRQS = 32"

text \<open>
  The core that runs, the mask registers and tables of all cores, PRIMASK of all cores. The
  vector table of the processor is the parameter \<open>irq_get_vtable_handler\<close>.
\<close>

record nmi_state =
  this_core_num :: nat
  nmi_masks :: "nat \<Rightarrow> word32"
  active_handlers :: "nat \<Rightarrow> addr list"
  nmi_primask :: "nat \<Rightarrow> word32"

abbreviation nmi_proc_mask :: "nmi_state \<Rightarrow> word32" where
  "nmi_proc_mask s \<equiv> nmi_masks s (this_core_num s)"

abbreviation handlers :: "nmi_state \<Rightarrow> addr list" where
  "handlers s \<equiv> active_handlers s (this_core_num s)"

definition set_nmi_proc_mask :: "word32 \<Rightarrow> nmi_state \<Rightarrow> nmi_state" where
  "set_nmi_proc_mask m s = s\<lparr>nmi_masks := (nmi_masks s)(this_core_num s := m)\<rparr>"

definition set_handlers :: "addr list \<Rightarrow> nmi_state \<Rightarrow> nmi_state" where
  "set_handlers t s = s\<lparr>active_handlers := (active_handlers s)(this_core_num s := t)\<rparr>"

section \<open>Operations\<close>

text \<open>The handlers the NMI calls, in their order: up to the first empty entry.\<close>

definition NMI_Handler :: "nmi_state \<Rightarrow> addr list" where
  "NMI_Handler s = takeWhile (\<lambda>current. current \<noteq> 0) (handlers s)"

definition nmi_is_enabled :: "nat \<Rightarrow> nmi_state \<Rightarrow> bool" where
  "nmi_is_enabled num s \<longleftrightarrow> nmi_proc_mask s AND push_bit num 1 \<noteq> 0"

text \<open>The first free entry, if there is one; the last entry of the table is never used.\<close>

function free_entry :: "nat \<Rightarrow> addr list \<Rightarrow> nat option" where
  "free_entry idx t = (if idx < NUM_IRQS then if t ! idx = 0 then Some idx else free_entry (idx + 1) t else None)"
  by pat_completeness auto
termination
  by (relation "measure (\<lambda>(idx, t). NUM_IRQS - idx)") auto

text \<open>Remove and compress in one pass.\<close>

function compress :: "nat \<Rightarrow> bool \<Rightarrow> addr \<Rightarrow> addr list \<Rightarrow> addr list" where
  "compress idx found h t =
    (if idx < NUM_IRQS \<and> t ! idx \<noteq> 0
     then let found = (found \<or> t ! idx = h)
          in compress (idx + 1) found h (if found then t[idx := t ! (idx + 1)] else t)
     else t)"
  by pat_completeness auto
termination
  by (relation "measure (\<lambda>(idx, found, h, t). NUM_IRQS - idx)") auto

declare free_entry.simps [simp del] compress.simps [simp del]

definition nmi_disable_interrupts :: "nmi_state \<Rightarrow> word32 \<times> nmi_state" where
  "nmi_disable_interrupts s = (nmi_primask s (this_core_num s), s\<lparr>nmi_primask := (nmi_primask s)(this_core_num s := 1)\<rparr>)"

definition nmi_enable_interrupts :: "word32 \<Rightarrow> nmi_state \<Rightarrow> nmi_state" where
  "nmi_enable_interrupts primask s = s\<lparr>nmi_primask := (nmi_primask s)(this_core_num s := primask)\<rparr>"

definition nmi_set_enable :: "(nat \<Rightarrow> addr) \<Rightarrow> nat \<Rightarrow> bool \<Rightarrow> nmi_state \<Rightarrow> nmi_state option" where
  "nmi_set_enable irq_get_vtable_handler num enabled s = do {
     s \<leftarrow> check (num < NUM_IRQS) s;
     if nmi_is_enabled num s = enabled then Some s
     else do {
       let (state, s) = nmi_disable_interrupts s;
       let nmi_state = nmi_proc_mask s;
       let s = set_nmi_proc_mask 0 s;
       let (nmi_state, s) =
         (if enabled
          then case free_entry 0 (handlers s) of
                 Some idx \<Rightarrow> (nmi_state OR push_bit num 1, set_handlers ((handlers s)[idx := irq_get_vtable_handler num]) s)
               | None \<Rightarrow> (nmi_state, s)
          else (nmi_state AND NOT (push_bit num 1), set_handlers (compress 0 False (irq_get_vtable_handler num) (handlers s)) s));
       let s = set_nmi_proc_mask nmi_state s;
       Some (nmi_enable_interrupts state s)
     }
   }"

text \<open>The type of the register decides the width of the exchange: only the mask of core 0.\<close>

definition nmi_mask :: "nmi_state \<Rightarrow> word64 \<times> nmi_state" where
  "nmi_mask s = (ucast (nmi_masks s 0), s\<lparr>nmi_masks := (nmi_masks s)(0 := 0)\<rparr>)"

definition nmi_unmask :: "word64 \<Rightarrow> nmi_state \<Rightarrow> nmi_state" where
  "nmi_unmask state s = s\<lparr>nmi_masks := (nmi_masks s)(0 := ucast state)\<rparr>"

section \<open>The table as a list of handlers\<close>

text \<open>The handlers first, then empty entries, of which there is at least one.\<close>

definition table_of :: "addr list \<Rightarrow> addr list" where
  "table_of hs = hs @ replicate (NUM_IRQS + 1 - length hs) 0"

lemma free_entry_table:
  assumes "0 \<notin> set hs" and "t = pre @ hs @ replicate (Suc k) 0" and "length t = NUM_IRQS + 1"
  shows "free_entry (length pre) t = (if k = 0 then None else Some (length pre + length hs))"
  using assms
proof (induction hs arbitrary: pre)
  case Nil
  then show ?case by (subst free_entry.simps) (auto simp: nth_append)
next
  case (Cons h hs)
  have "free_entry (length pre) t = free_entry (length (pre @ [h])) t"
    using Cons.prems by (subst free_entry.simps) (auto simp: nth_append)
  also have "\<dots> = (if k = 0 then None else Some (length (pre @ [h]) + length hs))"
    by (rule Cons.IH) (use Cons.prems in auto)
  finally show ?case by simp
qed

lemma compress_found:
  assumes "x \<noteq> 0" "0 \<notin> set xs" "length pre + length xs < NUM_IRQS"
    and "length pre + length xs + Suc k = NUM_IRQS"
  shows "compress (length pre) True h (pre @ x # xs @ replicate (Suc k) 0) = pre @ xs @ replicate (Suc (Suc k)) 0"
  using assms
proof (induction xs arbitrary: pre x)
  case Nil
  then show ?case
    by (subst compress.simps, subst compress.simps) (auto simp: nth_append)
next
  case (Cons y ys)
  have "compress (length pre) True h (pre @ x # (y # ys) @ replicate (Suc k) 0) =
      compress (length (pre @ [y])) True h ((pre @ [y]) @ y # ys @ replicate (Suc k) 0)"
    using Cons.prems by (subst compress.simps) (simp add: nth_append)
  also have "\<dots> = (pre @ [y]) @ ys @ replicate (Suc (Suc k)) 0"
    by (rule Cons.IH) (use Cons.prems in auto)
  finally show ?case by simp
qed

lemma compress_search:
  assumes "0 \<notin> set hs" and "length pre + length hs + Suc k = NUM_IRQS + 1"
  shows "compress (length pre) False h (pre @ hs @ replicate (Suc k) 0) =
    (if h \<in> set hs then pre @ remove1 h hs @ replicate (Suc (Suc k)) 0 else pre @ hs @ replicate (Suc k) 0)"
  using assms
proof (induction hs arbitrary: pre)
  case Nil
  then show ?case by (subst compress.simps) (simp add: nth_append)
next
  case (Cons x xs)
  let ?t = "pre @ (x # xs) @ replicate (Suc k) 0"
  have i: "length pre < NUM_IRQS" "?t ! length pre = x" "x \<noteq> 0" using Cons.prems by (auto simp: nth_append)
  show ?case
  proof (cases "x = h")
    case True
    have "compress (length pre) False h ?t = compress (length pre) True h ?t"
      using i True by (subst (1 2) compress.simps) (simp add: Let_def)
    then show ?thesis using compress_found [of x xs pre k h] Cons.prems i(3) True by simp
  next
    case False
    have "compress (length pre) False h ?t = compress (length (pre @ [x])) False h ((pre @ [x]) @ xs @ replicate (Suc k) 0)"
      using i False by (subst compress.simps) (simp add: Let_def)
    also have "\<dots> = (if h \<in> set xs then (pre @ [x]) @ remove1 h xs @ replicate (Suc (Suc k)) 0 else (pre @ [x]) @ xs @ replicate (Suc k) 0)"
      by (rule Cons.IH) (use Cons.prems in auto)
    finally show ?thesis using False by simp
  qed
qed

definition enabled_irqs :: "word32 \<Rightarrow> nat set" where
  "enabled_irqs m = {n. n < NUM_IRQS \<and> bit m n}"

text \<open>
  The table of the running core holds exactly the handlers of the interrupts in its mask, each
  as often as interrupts share it.
\<close>

definition nmi_inv :: "(nat \<Rightarrow> addr) \<Rightarrow> nmi_state \<Rightarrow> bool" where
  "nmi_inv vt s \<longleftrightarrow> (\<exists>hs. handlers s = table_of hs \<and>
     mset hs = image_mset vt (mset_set (enabled_irqs (nmi_proc_mask s))))"

lemma finite_enabled [simp]: "finite (enabled_irqs m)"
  by (simp add: enabled_irqs_def)

lemma enabled_iff: "num < NUM_IRQS \<Longrightarrow> nmi_is_enabled num s \<longleftrightarrow> num \<in> enabled_irqs (nmi_proc_mask s)"
  by (simp add: nmi_is_enabled_def enabled_irqs_def and_exp_eq_0_iff_not_bit)

lemma enabled_irqs_bit:
  assumes "num < NUM_IRQS"
  shows "enabled_irqs (m OR push_bit num 1) = insert num (enabled_irqs m)"
    "enabled_irqs (m AND NOT (push_bit num 1)) = enabled_irqs m - {num}"
  using assms by (auto simp: enabled_irqs_def bit_simps NUM_IRQS_def)

lemma NMI_Handler_table:
  assumes "handlers s = table_of hs" "0 \<notin> set hs"
  shows "NMI_Handler s = hs"
proof -
  have "takeWhile (\<lambda>x. x \<noteq> 0) (hs @ replicate n 0) = hs" for n
    using assms(2) by (subst takeWhile_append2) (auto simp: takeWhile_replicate)
  then show ?thesis by (simp add: NMI_Handler_def assms(1) table_of_def)
qed

text \<open>The table of a core: none of its handlers is null and there are as many as interrupts in the mask.\<close>

lemma nmi_table:
  assumes "\<forall>n<NUM_IRQS. vt n \<noteq> 0" and "mset hs = image_mset vt (mset_set (enabled_irqs m))"
  shows "0 \<notin> set hs" "length hs = card (enabled_irqs m)" "enabled_irqs m \<subseteq> {..<NUM_IRQS}"
proof -
  show "0 \<notin> set hs"
  proof
    assume "0 \<in> set hs"
    then have "0 \<in># image_mset vt (mset_set (enabled_irqs m))" by (simp flip: assms(2))
    with assms(1) show False by (auto simp: enabled_irqs_def)
  qed
  show "length hs = card (enabled_irqs m)" using assms(2) by (metis size_image_mset size_mset size_mset_set)
qed (auto simp: enabled_irqs_def)

text \<open>Mapping an interrupt appends its handler.\<close>

lemma nmi_map_step:
  assumes vt: "\<forall>n<NUM_IRQS. vt n \<noteq> 0" "num < NUM_IRQS" and off: "num \<notin> enabled_irqs (nmi_proc_mask s)"
    and hs: "handlers s = table_of hs" "mset hs = image_mset vt (mset_set (enabled_irqs (nmi_proc_mask s)))"
  defines "s' \<equiv> s\<lparr>nmi_masks := (nmi_masks s)(this_core_num s := nmi_proc_mask s OR push_bit num 1),
      active_handlers := (active_handlers s)(this_core_num s := table_of (hs @ [vt num]))\<rparr>"
  shows "nmi_set_enable vt num True s = Some s'" "nmi_inv vt s'" "NMI_Handler s' = hs @ [vt num]"
proof -
  note t = nmi_table [OF vt(1) hs(2)]
  have "enabled_irqs (nmi_proc_mask s) \<subset> {..<NUM_IRQS}" using t(3) off vt(2) by auto
  then have l: "length hs < NUM_IRQS" using psubset_card_mono [of "{..<NUM_IRQS}"] t(2) by simp
  obtain k where k: "NUM_IRQS + 1 - length hs = Suc (Suc k)"
    using l by (metis Suc_diff_le Suc_eq_plus1 diff_Suc_Suc less_imp_Suc_add add_diff_cancel_left' less_imp_le_nat add_Suc_right)
  then have k': "NUM_IRQS - length hs = Suc k" by simp
  have f: "free_entry 0 (table_of hs) = Some (length hs)"
    using free_entry_table [OF t(1), of "table_of hs" "[]" "Suc k"] l k by (simp add: table_of_def)
  have u: "(table_of hs)[length hs := vt num] = table_of (hs @ [vt num])"
    using k k' by (simp add: table_of_def list_update_append)
  have "\<not> nmi_is_enabled num s" using off vt(2) enabled_iff by simp
  then show "nmi_set_enable vt num True s = Some s'" using vt(2) f u
    by (simp add: s'_def nmi_set_enable_def nmi_disable_interrupts_def nmi_enable_interrupts_def set_nmi_proc_mask_def
        set_handlers_def hs(1) Let_def)
  show "nmi_inv vt s'" using hs(2) off enabled_irqs_bit(1) [OF vt(2)]
    by (auto simp: s'_def nmi_inv_def intro!: exI [of _ "hs @ [vt num]"])
  show "NMI_Handler s' = hs @ [vt num]" using t(1) vt by (intro NMI_Handler_table) (auto simp: s'_def)
qed

text \<open>Taking it back removes one occurrence.\<close>

lemma nmi_unmap_step:
  assumes vt: "\<forall>n<NUM_IRQS. vt n \<noteq> 0" "num < NUM_IRQS" and on: "num \<in> enabled_irqs (nmi_proc_mask s)"
    and hs: "handlers s = table_of hs" "mset hs = image_mset vt (mset_set (enabled_irqs (nmi_proc_mask s)))"
  defines "s' \<equiv> s\<lparr>nmi_masks := (nmi_masks s)(this_core_num s := nmi_proc_mask s AND NOT (push_bit num 1)),
      active_handlers := (active_handlers s)(this_core_num s := table_of (remove1 (vt num) hs))\<rparr>"
  shows "nmi_set_enable vt num False s = Some s'" "nmi_inv vt s'" "NMI_Handler s' = remove1 (vt num) hs"
proof -
  note t = nmi_table [OF vt(1) hs(2)]
  have "vt num \<in># mset hs" using on by (simp add: hs(2))
  then have h: "vt num \<in> set hs" by simp
  have l: "length hs \<le> NUM_IRQS" using card_mono [OF _ t(3)] t(2) by simp
  have r: "length (remove1 (vt num) hs) = length hs - 1" "0 < length hs" using h by (auto simp: length_remove1)
  have "NUM_IRQS - (length hs - Suc 0) = Suc (NUM_IRQS - length hs)" using l r(2) by arith
  then have e: "replicate (NUM_IRQS - (length hs - Suc 0)) (0 :: addr) = 0 # replicate (NUM_IRQS - length hs) 0"
    by (simp only: replicate_Suc)
  have c: "compress 0 False (vt num) (table_of hs) = table_of (remove1 (vt num) hs)"
    using compress_search [OF t(1), of "[]" "NUM_IRQS - length hs" "vt num"] h l r
    by (simp add: table_of_def Suc_diff_le e)
  have "nmi_is_enabled num s" using on vt(2) enabled_iff by simp
  then show "nmi_set_enable vt num False s = Some s'" using vt(2) c
    by (simp add: s'_def nmi_set_enable_def nmi_disable_interrupts_def nmi_enable_interrupts_def set_nmi_proc_mask_def
        set_handlers_def hs(1) Let_def)
  have "mset (remove1 (vt num) hs) = image_mset vt (mset_set (enabled_irqs (nmi_proc_mask s) - {num}))"
    using hs(2) on by (simp add: mset_set_Diff image_mset_Diff)
  then show "nmi_inv vt s'" using enabled_irqs_bit(2) [OF vt(2)] by (auto simp: s'_def nmi_inv_def)
  show "NMI_Handler s' = remove1 (vt num) hs" using t(1) notin_set_remove1 by (intro NMI_Handler_table) (auto simp: s'_def)
qed

text \<open>
  C23. Mapping an interrupt to the NMI and taking it back: with handlers in the vector table, the
  table holds the handlers of the mask before and after, the interrupt named changes its state
  and no other does, the NMI then calls one handler more, at the end, or one occurrence less, and
  the interrupt mask and the other cores are as before.
\<close>

theorem nmi_set_enable_exact:
  assumes "\<forall>n<NUM_IRQS. vt n \<noteq> 0" and "num < NUM_IRQS" and "nmi_inv vt s"
  shows "\<exists>s'. nmi_set_enable vt num en s = Some s' \<and> nmi_inv vt s' \<and>
    (\<forall>n<NUM_IRQS. nmi_is_enabled n s' = (if n = num then en else nmi_is_enabled n s)) \<and>
    NMI_Handler s' = (if nmi_is_enabled num s = en then NMI_Handler s
      else if en then NMI_Handler s @ [vt num] else remove1 (vt num) (NMI_Handler s)) \<and>
    nmi_primask s' = nmi_primask s \<and> this_core_num s' = this_core_num s \<and>
    (\<forall>c. c \<noteq> this_core_num s \<longrightarrow> nmi_masks s' c = nmi_masks s c \<and> active_handlers s' c = active_handlers s c)"
proof (cases "nmi_is_enabled num s = en")
  case True
  then show ?thesis using assms by (auto simp: nmi_set_enable_def)
next
  case False
  obtain hs where hs: "handlers s = table_of hs" "mset hs = image_mset vt (mset_set (enabled_irqs (nmi_proc_mask s)))"
    using assms(3) by (auto simp: nmi_inv_def)
  have run: "NMI_Handler s = hs" using NMI_Handler_table [OF hs(1) nmi_table(1) [OF assms(1) hs(2)]] .
  show ?thesis
  proof (cases en)
    case True
    then have off: "num \<notin> enabled_irqs (nmi_proc_mask s)" using False assms(2) enabled_iff by simp
    from nmi_map_step [OF assms(1,2) off hs] show ?thesis using True False run enabled_irqs_bit(1) [OF assms(2)]
      by (auto simp: enabled_iff)
  next
    case en: False
    then have on: "num \<in> enabled_irqs (nmi_proc_mask s)" using False assms(2) enabled_iff by simp
    from nmi_unmap_step [OF assms(1,2) on hs] show ?thesis using en False run enabled_irqs_bit(2) [OF assms(2)]
      by (auto simp: enabled_iff)
  qed
qed

text \<open>Masking all: what \<open>nmi_mask\<close> returns gives the state back, but only core 0 is masked.\<close>

lemma nmi_unmask_mask: "nmi_unmask (fst (nmi_mask s)) (snd (nmi_mask s)) = s"
proof -
  have "(ucast (ucast v :: word64) :: word32) = v" for v :: word32 by (rule bit_word_eqI) (simp add: bit_simps)
  then show ?thesis by (simp add: nmi_mask_def nmi_unmask_def)
qed

lemma nmi_mask_core_0: "c \<noteq> 0 \<Longrightarrow> nmi_masks (snd (nmi_mask s)) c = nmi_masks s c"
  by (simp add: nmi_mask_def)

definition nmi_start :: nmi_state where
  "nmi_start = \<lparr>this_core_num = 1, nmi_masks = (\<lambda>_. 0), active_handlers = (\<lambda>_. table_of []), nmi_primask = (\<lambda>_. 0)\<rparr>"

lemma nmi_start_inv: "nmi_inv vt nmi_start"
  by (auto simp: nmi_inv_def nmi_start_def enabled_irqs_def intro!: exI [of _ "[]"])

theorem nmi_set_enable_exact_witness:
  "\<exists>s'. nmi_set_enable (\<lambda>n. of_nat n + 0x100) 7 True nmi_start = Some s' \<and> NMI_Handler s' = [0x107]"
proof -
  have nz: "\<forall>n<NUM_IRQS. of_nat n + 0x100 \<noteq> (0 :: addr)"
  proof (intro allI impI)
    fix n assume "n < NUM_IRQS"
    then have "unat (of_nat n + 0x100 :: addr) = n + 0x100" by (simp add: NUM_IRQS_def unat_word_ariths unat_of_nat)
    then show "of_nat n + 0x100 \<noteq> (0 :: addr)" by (metis add_eq_0_iff_both_eq_0 unsigned_0 zero_neq_numeral)
  qed
  have "NMI_Handler nmi_start = []" "\<not> nmi_is_enabled 7 nmi_start"
    by (simp_all add: NMI_Handler_def nmi_start_def table_of_def nmi_is_enabled_def NUM_IRQS_def)
  then show ?thesis
    using nmi_set_enable_exact [OF nz _ nmi_start_inv, of 7 True] by (auto simp: NUM_IRQS_def)
qed

end
