(* ===== verification/Multicore_Irq.thy ===== *)
theory Multicore_Irq
  imports Nmi
begin

text \<open>
  Interrupts across the two cores, \<open>multicore-support/multicore-irq.c\<close>: requests that travel as
  one-word commands through the FIFO between the cores, the handler that carries them out, the
  interface on top, and the wrappers that send a request to the core an interrupt is bound to.
  The theorems: the handler carries out all the requests that wait, in order, for interrupts
  bound to its core as if that core had made the calls itself; the wrappers act on the core of the affinity and the caches tell the
  truth about it.
\<close>

section \<open>State\<close>

text \<open>
  The SDK and the processor: the NVIC of a core is a state \<open>'h\<close> with the SDK's operations on it;
  \<open>fifo_depth\<close> words fit into a FIFO, and a push into a full one does not return. \<open>call_fn\<close> is
  the function a command of the boot ROM names. \<open>None\<close> is an access outside an array, a failed
  assertion or a call that does not return.
\<close>

record 'h irq_state =
  nmi :: nmi_state
  nvic :: "nat \<Rightarrow> 'h"
  inbox :: "nat \<Rightarrow> word32 list"
  irq_enabled :: "nat \<Rightarrow> bool list"
  irq_priority :: "nat \<Rightarrow> word8 list"
  irq_affinity :: "nat list"

record 'h irq_port =
  vtable_handler :: "nat \<Rightarrow> addr"
  real_irq_set_enabled :: "int \<Rightarrow> bool \<Rightarrow> 'h \<Rightarrow> 'h"
  real_irq_is_enabled :: "int \<Rightarrow> 'h \<Rightarrow> bool"
  real_irq_set_pending :: "int \<Rightarrow> 'h \<Rightarrow> 'h"
  sdk_irq_clear :: "int \<Rightarrow> 'h \<Rightarrow> 'h"
  NVIC_SetPriority :: "int \<Rightarrow> word8 \<Rightarrow> 'h \<Rightarrow> 'h"
  set_ICSR :: "word32 \<Rightarrow> 'h \<Rightarrow> 'h"
  fifo_depth :: nat
  call_fn :: "word32 \<Rightarrow> 'h irq_state \<Rightarrow> 'h irq_state option"
  to_IRQn :: "word32 \<Rightarrow> int"

text \<open>
  \<open>to_IRQn\<close> is the conversion of an unsigned number to the enumeration \<open>IRQn_Type\<close>, whose width
  is the compiler's. It keeps the numbers the enumeration has.
\<close>

definition irqn_ok :: "'h irq_port \<Rightarrow> bool" where
  "irqn_ok P \<longleftrightarrow> (\<forall>i. - 16 \<le> i \<and> i < 32 \<longrightarrow> to_IRQn P (of_int i) = i)"

abbreviation get_core_num :: "'h irq_state \<Rightarrow> nat" where
  "get_core_num s \<equiv> this_core_num (nmi s)"

definition on_nvic :: "('h \<Rightarrow> 'h) \<Rightarrow> 'h irq_state \<Rightarrow> 'h irq_state" where
  "on_nvic f s = s\<lparr>nvic := (nvic s)(get_core_num s := f (nvic s (get_core_num s)))\<rparr>"

text \<open>Reading and writing the core local caches of a core.\<close>

definition at_irq :: "int \<Rightarrow> 'a list \<Rightarrow> 'a option" where
  "at_irq irq xs = (if 0 \<le> irq \<and> nat irq < length xs then Some (xs ! nat irq) else None)"

definition set_irq :: "int \<Rightarrow> 'a \<Rightarrow> 'a list \<Rightarrow> 'a list option" where
  "set_irq irq v xs = (if 0 \<le> irq \<and> nat irq < length xs then Some (xs[nat irq := v]) else None)"

definition cache_enabled :: "int \<Rightarrow> bool \<Rightarrow> 'h irq_state \<Rightarrow> 'h irq_state option" where
  "cache_enabled irq v s = do {
     t \<leftarrow> set_irq irq v (irq_enabled s (get_core_num s));
     Some (s\<lparr>irq_enabled := (irq_enabled s)(get_core_num s := t)\<rparr>)
   }"

definition cache_priority :: "int \<Rightarrow> word8 \<Rightarrow> 'h irq_state \<Rightarrow> 'h irq_state option" where
  "cache_priority irq v s = do {
     t \<leftarrow> set_irq irq v (irq_priority s (get_core_num s));
     Some (s\<lparr>irq_priority := (irq_priority s)(get_core_num s := t)\<rparr>)
   }"

abbreviation UINT8_MAX :: word8 where "UINT8_MAX \<equiv> 0xff"

section \<open>Commands\<close>

abbreviation MULTICORE_COMMAND_MSK :: word32 where "MULTICORE_COMMAND_MSK \<equiv> 0xf0000000"
abbreviation MULTICORE_EXECUTE_FLASH :: word32 where "MULTICORE_EXECUTE_FLASH \<equiv> 0x10000000"
abbreviation MULTICORE_EXECUTE_SRAM :: word32 where "MULTICORE_EXECUTE_SRAM \<equiv> 0x20000000"
abbreviation MULTICORE_EVENT :: word32 where "MULTICORE_EVENT \<equiv> 0x80000000"
abbreviation MULTICORE_PEND_IRQ :: word32 where "MULTICORE_PEND_IRQ \<equiv> 0x90000000"
abbreviation MULTICORE_CLEAR_IRQ :: word32 where "MULTICORE_CLEAR_IRQ \<equiv> 0xa0000000"
abbreviation MULTICORE_IRQ_ENABLE :: word32 where "MULTICORE_IRQ_ENABLE \<equiv> 0xb0000000"
abbreviation MULTICORE_IRQ_DISABLE :: word32 where "MULTICORE_IRQ_DISABLE \<equiv> 0xc0000000"
abbreviation MULTICORE_SET_PRIORITY :: word32 where "MULTICORE_SET_PRIORITY \<equiv> 0xd0000000"
abbreviation MULTICORE_UPDATE_CONFIG :: word32 where "MULTICORE_UPDATE_CONFIG \<equiv> 0xe0000000"

abbreviation NonMaskableInt_IRQn :: int where "NonMaskableInt_IRQn \<equiv> - 14"
abbreviation PendSV_IRQn :: int where "PendSV_IRQn \<equiv> - 2"
abbreviation SysTick_IRQn :: int where "SysTick_IRQn \<equiv> - 1"

definition pend_irq_cmd :: "'h irq_port \<Rightarrow> int \<Rightarrow> 'h irq_state \<Rightarrow> 'h irq_state option" where
  "pend_irq_cmd P irq s = Some (on_nvic
     (if irq = NonMaskableInt_IRQn then set_ICSR P (push_bit 31 1)
      else if irq = PendSV_IRQn then set_ICSR P (push_bit 28 1)
      else if irq = SysTick_IRQn then set_ICSR P (push_bit 26 1)
      else real_irq_set_pending P irq) s)"

definition clear_irq_cmd :: "'h irq_port \<Rightarrow> int \<Rightarrow> 'h irq_state \<Rightarrow> 'h irq_state option" where
  "clear_irq_cmd P irq s = Some (on_nvic (sdk_irq_clear P irq) s)"

definition call_nmi_set_enable :: "'h irq_port \<Rightarrow> int \<Rightarrow> bool \<Rightarrow> 'h irq_state \<Rightarrow> 'h irq_state option" where
  "call_nmi_set_enable P irq en s = do {
     n \<leftarrow> nmi_set_enable (vtable_handler P) (nat irq) en (nmi s);
     Some (s\<lparr>nmi := n\<rparr>)
   }"

definition enable_irq_cmd :: "'h irq_port \<Rightarrow> int \<Rightarrow> 'h irq_state \<Rightarrow> 'h irq_state option" where
  "enable_irq_cmd P irq s =
    (if irq < 0 then Some s
     else do {
       priority \<leftarrow> at_irq irq (irq_priority s (get_core_num s));
       s \<leftarrow> (if priority \<noteq> UINT8_MAX
             then Some (on_nvic (real_irq_set_enabled P irq True) (on_nvic (sdk_irq_clear P irq) s))
             else call_nmi_set_enable P irq True s);
       cache_enabled irq True s
     })"

definition disable_irq_cmd :: "'h irq_port \<Rightarrow> int \<Rightarrow> 'h irq_state \<Rightarrow> 'h irq_state option" where
  "disable_irq_cmd P irq s =
    (if irq < 0 then Some s
     else do {
       priority \<leftarrow> at_irq irq (irq_priority s (get_core_num s));
       s \<leftarrow> (if priority \<noteq> UINT8_MAX
             then Some (on_nvic (real_irq_set_enabled P irq False) s)
             else call_nmi_set_enable P irq False s);
       cache_enabled irq False s
     })"

definition set_priority_cmd :: "'h irq_port \<Rightarrow> int \<Rightarrow> word8 \<Rightarrow> 'h irq_state \<Rightarrow> 'h irq_state option" where
  "set_priority_cmd P irq priority s =
    (let s = (if priority \<noteq> UINT8_MAX then on_nvic (NVIC_SetPriority P irq priority) s else s)
     in cache_priority irq priority s)"

text \<open>
  Reading back: \<open>irq_is_enabled\<close> is the function of the SDK, \<open>irq_get_priority\<close> the wrapper
  below, which reads the cache of the core the interrupt is bound to.
\<close>

definition wrap_irq_get_priority :: "word32 \<Rightarrow> 'h irq_state \<Rightarrow> word8 option" where
  "wrap_irq_get_priority num s = do {
     s \<leftarrow> check (num < of_nat NUM_IRQS) s;
     core \<leftarrow> at_irq (uint num) (irq_affinity s);
     at_irq (uint num) (irq_priority s core)
   }"

definition update_irq_config_cmd :: "'h irq_port \<Rightarrow> int \<Rightarrow> 'h irq_state \<Rightarrow> 'h irq_state option" where
  "update_irq_config_cmd P irq s = do {
     s \<leftarrow> cache_enabled irq (real_irq_is_enabled P irq (nvic s (get_core_num s))) s;
     priority \<leftarrow> wrap_irq_get_priority (of_int irq) s;
     cache_priority irq priority s
   }"

section \<open>The FIFO\<close>

definition multicore_fifo_push_blocking :: "'h irq_port \<Rightarrow> word32 \<Rightarrow> 'h irq_state \<Rightarrow> 'h irq_state option" where
  "multicore_fifo_push_blocking P cmd s =
    (let other = 1 - get_core_num s
     in if length (inbox s other) < fifo_depth P
        then Some (s\<lparr>inbox := (inbox s)(other := inbox s other @ [cmd])\<rparr>)
        else None)"

text \<open>One command: the interrupt of a command is the low half less 16.\<close>

definition handle_cmd :: "'h irq_port \<Rightarrow> word32 \<Rightarrow> 'h irq_state \<Rightarrow> 'h irq_state option" where
  "handle_cmd P cmd s =
    (let op = cmd AND MULTICORE_COMMAND_MSK;
         irq = to_IRQn P ((cmd AND 0xffff) - 16);
         priority = ucast (drop_bit 16 cmd AND 0x00ff) :: word8
     in if op = MULTICORE_EXECUTE_FLASH \<or> op = MULTICORE_EXECUTE_SRAM then call_fn P cmd s
        else if op = MULTICORE_EVENT then Some s
        else if op = MULTICORE_PEND_IRQ then pend_irq_cmd P irq s
        else if op = MULTICORE_CLEAR_IRQ then clear_irq_cmd P irq s
        else if op = MULTICORE_IRQ_ENABLE then enable_irq_cmd P irq s
        else if op = MULTICORE_IRQ_DISABLE then disable_irq_cmd P irq s
        else if op = MULTICORE_SET_PRIORITY then set_priority_cmd P irq priority s
        else if op = MULTICORE_UPDATE_CONFIG then update_irq_config_cmd P irq s
        else Some s)"

text \<open>
  Empty the FIFO; a command may put new words into it, so the loop need not end, which is
  \<open>None\<close> as well.
\<close>

partial_function (option) multicore_irq_handler :: "'h irq_port \<Rightarrow> 'h irq_state \<Rightarrow> 'h irq_state option" where
  "multicore_irq_handler P s =
    (case inbox s (get_core_num s) of
       [] \<Rightarrow> Some s
     | cmd # rest \<Rightarrow>
         Option.bind (handle_cmd P cmd (s\<lparr>inbox := (inbox s)(get_core_num s := rest)\<rparr>)) (multicore_irq_handler P))"

section \<open>The wrappers\<close>

definition irq_set_affinity :: "word32 \<Rightarrow> nat \<Rightarrow> 'h irq_state \<Rightarrow> 'h irq_state option" where
  "irq_set_affinity num core s = do {
     s \<leftarrow> check (num < of_nat NUM_IRQS) s;
     t \<leftarrow> set_irq (uint num) (core mod 256) (irq_affinity s);
     Some (s\<lparr>irq_affinity := t\<rparr>)
   }"

definition irq_get_affinity :: "word32 \<Rightarrow> 'h irq_state \<Rightarrow> nat option" where
  "irq_get_affinity num s = do { s \<leftarrow> check (num < of_nat NUM_IRQS) s; at_irq (uint num) (irq_affinity s) }"

definition wrap_irq_set_priority :: "'h irq_port \<Rightarrow> word32 \<Rightarrow> word8 \<Rightarrow> 'h irq_state \<Rightarrow> 'h irq_state option" where
  "wrap_irq_set_priority P num hardware_priority s = do {
     s \<leftarrow> check (num < of_nat NUM_IRQS) s;
     core \<leftarrow> at_irq (uint num) (irq_affinity s);
     if core = get_core_num s then set_priority_cmd P (to_IRQn P num) hardware_priority s
     else multicore_fifo_push_blocking P
       (MULTICORE_SET_PRIORITY OR push_bit 16 (ucast hardware_priority) OR (num + 16)) s
   }"

definition wrap_irq_set_enabled :: "'h irq_port \<Rightarrow> word32 \<Rightarrow> bool \<Rightarrow> 'h irq_state \<Rightarrow> 'h irq_state option" where
  "wrap_irq_set_enabled P num enabled s = do {
     s \<leftarrow> check (num < of_nat NUM_IRQS) s;
     core \<leftarrow> at_irq (uint num) (irq_affinity s);
     if core = get_core_num s
     then if enabled then enable_irq_cmd P (to_IRQn P num) s else disable_irq_cmd P (to_IRQn P num) s
     else if enabled then multicore_fifo_push_blocking P (MULTICORE_IRQ_ENABLE OR (num + 16)) s
     else multicore_fifo_push_blocking P (MULTICORE_IRQ_DISABLE OR (num + 16)) s
   }"

definition wrap_irq_is_enabled :: "word32 \<Rightarrow> 'h irq_state \<Rightarrow> bool option" where
  "wrap_irq_is_enabled num s = do {
     s \<leftarrow> check (num < of_nat NUM_IRQS) s;
     core \<leftarrow> at_irq (uint num) (irq_affinity s);
     at_irq (uint num) (irq_enabled s core)
   }"

definition wrap_irq_set_pending :: "'h irq_port \<Rightarrow> word32 \<Rightarrow> 'h irq_state \<Rightarrow> 'h irq_state option" where
  "wrap_irq_set_pending P num s = do {
     s \<leftarrow> check (num < of_nat NUM_IRQS) s;
     core \<leftarrow> at_irq (uint num) (irq_affinity s);
     if core = get_core_num s then pend_irq_cmd P (to_IRQn P num) s
     else multicore_fifo_push_blocking P (MULTICORE_PEND_IRQ OR (num + 16)) s
   }"

section \<open>Requests to a core\<close>

text \<open>On the own core the first two go through the wrappers above.\<close>

definition multicore_irq_set_enable :: "'h irq_port \<Rightarrow> word32 \<Rightarrow> nat \<Rightarrow> bool \<Rightarrow> 'h irq_state \<Rightarrow> 'h irq_state option" where
  "multicore_irq_set_enable P num core enabled s =
    (if core = get_core_num s then wrap_irq_set_enabled P num enabled s
     else if enabled then multicore_fifo_push_blocking P (MULTICORE_IRQ_ENABLE OR (num + 16)) s
     else multicore_fifo_push_blocking P (MULTICORE_IRQ_DISABLE OR (num + 16)) s)"

definition multicore_irq_is_enabled :: "word32 \<Rightarrow> nat \<Rightarrow> 'h irq_state \<Rightarrow> bool option" where
  "multicore_irq_is_enabled num core s = at_irq (uint num) (irq_enabled s core)"

definition multicore_irq_set_priority :: "'h irq_port \<Rightarrow> word32 \<Rightarrow> nat \<Rightarrow> word8 \<Rightarrow> 'h irq_state \<Rightarrow> 'h irq_state option" where
  "multicore_irq_set_priority P num core hardware_priority s =
    (if core = get_core_num s then wrap_irq_set_priority P num hardware_priority s
     else multicore_fifo_push_blocking P
       (MULTICORE_SET_PRIORITY OR push_bit 16 (ucast hardware_priority) OR (num + 16)) s)"

definition mulitcore_irq_get_priority :: "word32 \<Rightarrow> nat \<Rightarrow> 'h irq_state \<Rightarrow> word8 option" where
  "mulitcore_irq_get_priority num core s = at_irq (uint num) (irq_priority s core)"

definition multicore_irq_set_pending :: "'h irq_port \<Rightarrow> word32 \<Rightarrow> nat \<Rightarrow> 'h irq_state \<Rightarrow> 'h irq_state option" where
  "multicore_irq_set_pending P num core s =
    (if core = get_core_num s then pend_irq_cmd P (to_IRQn P num) s
     else multicore_fifo_push_blocking P (MULTICORE_PEND_IRQ OR (num + 16)) s)"

definition multicore_irq_clear :: "'h irq_port \<Rightarrow> word32 \<Rightarrow> nat \<Rightarrow> 'h irq_state \<Rightarrow> 'h irq_state option" where
  "multicore_irq_clear P num core s =
    (if core = get_core_num s then clear_irq_cmd P (to_IRQn P num) s
     else multicore_fifo_push_blocking P (MULTICORE_CLEAR_IRQ OR (num + 16)) s)"

text \<open>
  The set-up of a core makes its end of the FIFO a real time interrupt; the start of core 1 by
  core 0 and its return to the boot ROM are not part of the state.
\<close>

definition multicore_irq_init :: "'h irq_port \<Rightarrow> 'h irq_state \<Rightarrow> 'h irq_state option" where
  "multicore_irq_init P s = do {
     let irq = (if get_core_num s \<noteq> 0 then 16 else 15);
     s \<leftarrow> irq_set_affinity irq (get_core_num s) s;
     s \<leftarrow> wrap_irq_set_priority P irq UINT8_MAX s;
     wrap_irq_set_enabled P irq True s
   }"

section \<open>Requests and their words\<close>

text \<open>What a request asks of the core that receives it.\<close>

datatype request = Pend word32 | Clear word32 | Enable word32 | Disable word32 | Prioritise word32 word8

fun request_irq :: "request \<Rightarrow> word32" where
  "request_irq (Pend num) = num"
| "request_irq (Clear num) = num"
| "request_irq (Enable num) = num"
| "request_irq (Disable num) = num"
| "request_irq (Prioritise num p) = num"

fun request_word :: "request \<Rightarrow> word32" where
  "request_word (Pend num) = MULTICORE_PEND_IRQ OR (num + 16)"
| "request_word (Clear num) = MULTICORE_CLEAR_IRQ OR (num + 16)"
| "request_word (Enable num) = MULTICORE_IRQ_ENABLE OR (num + 16)"
| "request_word (Disable num) = MULTICORE_IRQ_DISABLE OR (num + 16)"
| "request_word (Prioritise num p) = MULTICORE_SET_PRIORITY OR push_bit 16 (ucast p) OR (num + 16)"

fun perform :: "'h irq_port \<Rightarrow> request \<Rightarrow> 'h irq_state \<Rightarrow> 'h irq_state option" where
  "perform P (Pend num) s = pend_irq_cmd P (to_IRQn P num) s"
| "perform P (Clear num) s = clear_irq_cmd P (to_IRQn P num) s"
| "perform P (Enable num) s = enable_irq_cmd P (to_IRQn P num) s"
| "perform P (Disable num) s = disable_irq_cmd P (to_IRQn P num) s"
| "perform P (Prioritise num p) s = set_priority_cmd P (to_IRQn P num) p s"

fun perform_all :: "'h irq_port \<Rightarrow> request list \<Rightarrow> 'h irq_state \<Rightarrow> 'h irq_state option" where
  "perform_all P [] s = Some s"
| "perform_all P (r # rs) s = Option.bind (perform P r s) (perform_all P rs)"

text \<open>The call of the interface that makes a request of core \<open>d\<close>.\<close>

fun request_call :: "'h irq_port \<Rightarrow> nat \<Rightarrow> request \<Rightarrow> 'h irq_state \<Rightarrow> 'h irq_state option" where
  "request_call P d (Pend num) = multicore_irq_set_pending P num d"
| "request_call P d (Clear num) = multicore_irq_clear P num d"
| "request_call P d (Enable num) = multicore_irq_set_enable P num d True"
| "request_call P d (Disable num) = multicore_irq_set_enable P num d False"
| "request_call P d (Prioritise num p) = multicore_irq_set_priority P num d p"

fun request_calls :: "'h irq_port \<Rightarrow> nat \<Rightarrow> request list \<Rightarrow> 'h irq_state \<Rightarrow> 'h irq_state option" where
  "request_calls P d [] s = Some s"
| "request_calls P d (r # rs) s = Option.bind (request_call P d r s) (request_calls P d rs)"

text \<open>System exceptions have numbers from -16 on; the word has sixteen bits for the interrupt.\<close>

definition request_ok :: "request \<Rightarrow> bool" where
  "request_ok r \<longleftrightarrow> request_irq r + 16 < 0x10000"

lemma low_bits:
  fixes x :: word32
  assumes "x < 0x10000"
  shows "x AND 0xffff = x" "x AND 0xf0000000 = 0" "drop_bit 16 x AND 0xff = 0"
proof -
  have m: "(0xffff :: word32) = mask 16" by (simp add: mask_eq_exp_minus_1)
  have "take_bit 16 x = x" using assms 
    by (simp add: word_unat_eq_iff unat_mod take_bit_eq_mod word_less_nat_alt)
  then show x: "x AND 0xffff = x" unfolding m take_bit_eq_mask .
  have "x AND 0xf0000000 = x AND (0xffff AND 0xf0000000)" by (subst x [symmetric]) (simp only: and.assoc)
  then show "x AND 0xf0000000 = 0" by simp
  have "drop_bit 16 x = 0" using assms by (simp add: word_unat_eq_iff unat_div drop_bit_eq_div word_less_nat_alt)
  then show "drop_bit 16 x AND 0xff = 0" by simp
qed

lemma ucast_byte: "(ucast p :: word32) AND 0xff = ucast p" for p :: word8
proof -
  have m: "(0xff :: word32) = mask 8" by (simp add: mask_eq_exp_minus_1)
  show ?thesis unfolding m by (rule bit_word_eqI) (auto simp: bit_simps dest: bit_imp_le_length)
qed

lemma word_fields:
  fixes C x :: word32 and p :: word8
  assumes "x < 0x10000" "C AND 0xffff = 0" "C AND 0xf0000000 = C"
  shows "(C OR x) AND 0xf0000000 = C" "(C OR x) AND 0xffff = x"
    "(C OR push_bit 16 (ucast p) OR x) AND 0xf0000000 = C" "(C OR push_bit 16 (ucast p) OR x) AND 0xffff = x"
proof -
  have p: "push_bit 16 (ucast p) AND 0xffff = (0 :: word32)" "push_bit 16 (ucast p) AND 0xf0000000 = (0 :: word32)"
  proof -
    have a: "(push_bit 16 (ucast p) :: word32) AND 0xff0000 = push_bit 16 (ucast p)"
      using push_bit_and [of 16 "ucast p :: word32" "0xff"] by (simp add: ucast_byte)
    have "(push_bit 16 (ucast p) :: word32) AND m = push_bit 16 (ucast p) AND (0xff0000 AND m)" for m
      by (subst a [symmetric]) (simp only: and.assoc)
    from this [of "0xffff"] this [of "0xf0000000"]
    show "push_bit 16 (ucast p) AND 0xffff = (0 :: word32)" "push_bit 16 (ucast p) AND 0xf0000000 = (0 :: word32)" by simp_all
  qed
  note d = bit.conj_disj_distrib2
  show "(C OR x) AND 0xf0000000 = C" "(C OR x) AND 0xffff = x"
    "(C OR push_bit 16 (ucast p) OR x) AND 0xf0000000 = C" "(C OR push_bit 16 (ucast p) OR x) AND 0xffff = x"
    by (simp_all add: d p low_bits [OF assms(1)] assms(2,3))
qed

lemma priority_field:
  fixes x :: word32 and p :: word8
  assumes "x < 0x10000"
  shows "ucast (drop_bit 16 (MULTICORE_SET_PRIORITY OR push_bit 16 (ucast p) OR x) AND 0x00ff) = p"
proof -
  have "drop_bit 16 (push_bit 16 (ucast p) :: word32) = ucast p"
    by (rule bit_word_eqI) (auto simp: bit_simps dest: bit_imp_le_length)
  then have "drop_bit 16 (MULTICORE_SET_PRIORITY OR push_bit 16 (ucast p) OR x) AND 0x00ff = ucast p"
    using low_bits(3) [OF assms] by (simp add: drop_bit_or bit.conj_disj_distrib2 ucast_byte)
  moreover have "(ucast (ucast p :: word32) :: word8) = p" by (rule bit_word_eqI) (simp add: bit_simps)
  ultimately show ?thesis by simp
qed

lemma handle_request:
  assumes "request_ok r"
  shows "handle_cmd P (request_word r) s = perform P r s"
proof (cases r)
  case (Prioritise num p)
  then show ?thesis using assms word_fields(3,4) [of "num + 16" MULTICORE_SET_PRIORITY p] priority_field [of "num + 16" p]
    by (simp add: handle_cmd_def request_ok_def Let_def)
qed (use assms word_fields(1,2) [of "request_irq r + 16" MULTICORE_PEND_IRQ]
      word_fields(1,2) [of "request_irq r + 16" MULTICORE_CLEAR_IRQ] word_fields(1,2) [of "request_irq r + 16" MULTICORE_IRQ_ENABLE]
      word_fields(1,2) [of "request_irq r + 16" MULTICORE_IRQ_DISABLE]
    in \<open>simp_all add: handle_cmd_def request_ok_def\<close>)

section \<open>The handler carries out what waits\<close>

lemma nmi_set_enable_core: "nmi_set_enable vt n en s = Some s' \<Longrightarrow> this_core_num s' = this_core_num s"
  by (cases "n < NUM_IRQS")
    (auto simp: nmi_set_enable_def nmi_disable_interrupts_def nmi_enable_interrupts_def set_nmi_proc_mask_def
      set_handlers_def Let_def split: if_splits option.splits)

text \<open>A request neither looks at the FIFOs nor changes them, and stays on its core.\<close>

definition with_inbox :: "(nat \<Rightarrow> word32 list) \<Rightarrow> 'h irq_state \<Rightarrow> 'h irq_state" where
  "with_inbox i s = s\<lparr>inbox := i\<rparr>"

lemma with_inbox_simps [simp]:
  "inbox (with_inbox i s) = i" "get_core_num (with_inbox i s) = get_core_num s" "with_inbox i (with_inbox j s) = with_inbox i s"
  "with_inbox (inbox s) s = s"
  by (simp_all add: with_inbox_def)

lemmas request_defs = pend_irq_cmd_def clear_irq_cmd_def enable_irq_cmd_def disable_irq_cmd_def set_priority_cmd_def
  cache_enabled_def cache_priority_def call_nmi_set_enable_def on_nvic_def

lemma perform_inbox: "perform P r (with_inbox i s) = map_option (with_inbox i) (perform P r s)"
  by (cases r) (auto simp: request_defs with_inbox_def Let_def map_option_case split: option.splits Option.bind_splits)

lemma perform_same: "perform P r s = Some s' \<Longrightarrow> inbox s' = inbox s \<and> get_core_num s' = get_core_num s"
  by (cases r) (auto simp: request_defs Let_def dest: nmi_set_enable_core split: if_splits Option.bind_splits)

lemma perform_all_inbox: "perform_all P rs (with_inbox i s) = map_option (with_inbox i) (perform_all P rs s)"
  by (induction rs arbitrary: s) (auto simp: perform_inbox map_option_case split: option.splits Option.bind_splits)

lemma handler_performs:
  assumes "\<forall>r\<in>set rs. request_ok r" "inbox s (get_core_num s) = map request_word rs"
  shows "multicore_irq_handler P s = perform_all P rs (with_inbox ((inbox s)(get_core_num s := [])) s)"
  using assms
proof (induction rs arbitrary: s)
  case Nil
  then show ?case by (subst multicore_irq_handler.simps) (simp add: fun_upd_idem)
next
  case (Cons r rs)
  let ?c = "get_core_num s" and ?i = "(inbox s)(get_core_num s := map request_word rs)"
  have h: "multicore_irq_handler P s = Option.bind (perform P r (with_inbox ?i s)) (multicore_irq_handler P)"
    using Cons.prems handle_request [of r P "with_inbox ?i s"]
    by (subst multicore_irq_handler.simps) (simp flip: with_inbox_def)
  show ?case
  proof (cases "perform P r s")
    case None
    then show ?thesis using h by (simp add: perform_inbox)
  next
    case (Some s')
    have s': "inbox s' = inbox s" "get_core_num s' = ?c" using perform_same [OF Some] by simp_all
    have "multicore_irq_handler P (with_inbox ?i s') = perform_all P rs (with_inbox ((inbox s)(?c := [])) s')"
      using Cons.IH [of "with_inbox ?i s'"] Cons.prems s' by (simp add: fun_upd_def cong: if_cong)
    then show ?thesis using h Some by (simp add: perform_inbox fun_upd_def)
  qed
qed

text \<open>The other core runs.\<close>

definition at_core :: "nat \<Rightarrow> 'h irq_state \<Rightarrow> 'h irq_state" where
  "at_core d s = s\<lparr>nmi := (nmi s)\<lparr>this_core_num := d\<rparr>\<rparr>"

lemma request_call_push:
  assumes "d = 1 - get_core_num s" "d \<noteq> get_core_num s"
  shows "request_call P d r s = (if length (inbox s d) < fifo_depth P
    then Some (with_inbox ((inbox s)(d := inbox s d @ [request_word r])) s) else None)"
  using assms by (cases r) (auto simp: multicore_irq_set_pending_def multicore_irq_clear_def multicore_irq_set_enable_def
      multicore_irq_set_priority_def multicore_fifo_push_blocking_def with_inbox_def Let_def)

lemma request_calls_push:
  assumes "d = 1 - get_core_num s" "d \<noteq> get_core_num s" "length (inbox s d) + length rs \<le> fifo_depth P"
  shows "request_calls P d rs s = Some (with_inbox ((inbox s)(d := inbox s d @ map request_word rs)) s)"
  using assms
proof (induction rs arbitrary: s)
  case Nil
  then show ?case by (simp add: fun_upd_idem)
next
  case (Cons r rs)
  let ?s = "with_inbox ((inbox s)(d := inbox s d @ [request_word r])) s"
  have "request_calls P d rs ?s = Some (with_inbox ((inbox ?s)(d := inbox ?s d @ map request_word rs)) ?s)"
    using Cons.prems by (intro Cons.IH) simp_all
  then show ?case using request_call_push [OF Cons.prems(1,2), of P r] Cons.prems(3) by (simp add: fun_upd_def cong: if_cong)
qed

text \<open>
  Requests that a core would not forward if it made the calls itself: to pend and to clear, and
  those for an interrupt bound to it.
\<close>

fun local_to :: "nat \<Rightarrow> 'h irq_state \<Rightarrow> request \<Rightarrow> bool" where
  "local_to d s (Pend num) = True"
| "local_to d s (Clear num) = True"
| "local_to d s r = (irq_get_affinity (request_irq r) s = Some d)"

lemma local_call:
  assumes "local_to d s r" and "get_core_num s = d"
  shows "request_call P d r s = perform P r s"
  using assms
  by (cases r) (auto simp: irq_get_affinity_def check_def multicore_irq_set_pending_def multicore_irq_clear_def
      multicore_irq_set_enable_def multicore_irq_set_priority_def wrap_irq_set_enabled_def wrap_irq_set_priority_def
      split: if_splits)

lemma perform_affinity: "perform P r s = Some s' \<Longrightarrow> irq_affinity s' = irq_affinity s"
  by (cases r) (auto simp: request_defs Let_def split: if_splits Option.bind_splits)

lemma local_to_affinity: "irq_affinity s' = irq_affinity s \<Longrightarrow> local_to d s' r = local_to d s r"
  by (cases r) (auto simp: irq_get_affinity_def check_def)

lemma local_calls:
  assumes "\<forall>r\<in>set rs. local_to d s r" and "get_core_num s = d"
  shows "request_calls P d rs s = perform_all P rs s"
  using assms
proof (induction rs arbitrary: s)
  case (Cons r rs)
  show ?case
  proof (cases "perform P r s")
    case (Some s')
    have "\<forall>r\<in>set rs. local_to d s' r" using Cons.prems(1) local_to_affinity [OF perform_affinity [OF Some]] by simp
    then have "request_calls P d rs s' = perform_all P rs s'" using Cons.IH Cons.prems(2) perform_same [OF Some] by blast
    then show ?thesis using Cons.prems Some by (simp add: local_call)
  qed (use Cons.prems in \<open>simp add: local_call\<close>)
qed simp

text \<open>
  C15. Requests to the other core: when one core asks the other to pend, clear, enable, disable or
  prioritise interrupts and the FIFO is empty and has room for the words, the calls return, and
  when the handler of the other core then runs, it carries out exactly the commands asked for,
  in their order, on its own core, with the interrupt number, those of system exceptions
  included, and the priority asked for, and leaves the FIFO empty. The handler does not look at
  the affinity: for interrupts bound to that core, and for any interrupt to pend or to clear, the
  outcome is that of the same calls made by that core; for an interrupt bound elsewhere such a
  call would be forwarded instead.
\<close>

theorem remote_requests_exact:
  assumes "get_core_num s < 2" and "d = 1 - get_core_num s" and "inbox s d = []"
    and "length rs \<le> fifo_depth P" and "\<forall>r\<in>set rs. request_ok r"
  shows "\<exists>s'. request_calls P d rs s = Some s' \<and>
    multicore_irq_handler P (at_core d s') = perform_all P rs (at_core d s) \<and>
    ((\<forall>r\<in>set rs. local_to d s r) \<longrightarrow>
      multicore_irq_handler P (at_core d s') = request_calls P d rs (at_core d s))"
proof -
  have "d \<noteq> get_core_num s" using assms(1,2) by arith
  then have s': "request_calls P d rs s = Some (with_inbox ((inbox s)(d := map request_word rs)) s)" (is "_ = Some ?s")
    using request_calls_push [OF assms(2), of rs P] assms(3,4) by simp
  have h: "multicore_irq_handler P (at_core d ?s) = perform_all P rs (with_inbox ((inbox s)(d := [])) (at_core d s))"
    using handler_performs [OF assms(5), of "at_core d ?s" P] by (simp add: at_core_def with_inbox_def)
  have e: "with_inbox ((inbox s)(d := [])) (at_core d s) = at_core d s"
    using assms(3) by (simp add: with_inbox_def at_core_def fun_upd_idem)
  have "request_calls P d rs (at_core d s) = perform_all P rs (at_core d s)" if "\<forall>r\<in>set rs. local_to d s r"
    using that local_to_affinity [of "at_core d s" s d] by (intro local_calls) (simp_all add: at_core_def)
  with s' h e show ?thesis by simp
qed

section \<open>The wrappers\<close>

definition sized :: "'h irq_state \<Rightarrow> bool" where
  "sized s \<longleftrightarrow> (\<forall>c. length (irq_enabled s c) = NUM_IRQS \<and> length (irq_priority s c) = NUM_IRQS) \<and>
     length (irq_affinity s) = NUM_IRQS"

lemma irq_number:
  fixes num :: word32
  assumes "num < of_nat NUM_IRQS"
  shows "irqn_ok P \<Longrightarrow> to_IRQn P num = uint num" "nat (uint num) < NUM_IRQS" "nat (uint num) = unat num" "0 \<le> uint num"
proof -
  have n: "unat num < 32" using assms by (simp add: NUM_IRQS_def word_less_nat_alt)
  then show "nat (uint num) < NUM_IRQS" "nat (uint num) = unat num" "0 \<le> uint num" by (simp_all add: NUM_IRQS_def)
  have "uint num < 32" unfolding uint_nat using n by linarith
  moreover have "- 16 \<le> uint num" using uint_ge_0 [of num] by linarith
  ultimately show "to_IRQn P num = uint num" if "irqn_ok P"
    using that [unfolded irqn_ok_def, THEN spec, of "uint num"] by simp
qed

lemma at_set_irq:
  fixes num :: word32
  assumes "num < of_nat NUM_IRQS" "length xs = NUM_IRQS"
  shows "at_irq (uint num) xs = Some (xs ! unat num)" "set_irq (uint num) v xs = Some (xs[unat num := v])"
  using irq_number [OF assms(1)] assms(2) by (simp_all add: at_irq_def set_irq_def)

text \<open>
  Enabling an interrupt on the core it is bound to: the cache and so \<open>irq_is_enabled\<close> of the
  wrappers report the new state; an interrupt of real time priority is mapped to the NMI or taken
  back and the NVIC is left alone, any other one is enabled, with a pending request cleared
  first, or disabled in the NVIC and the NMI is left alone.
\<close>

theorem irq_set_enabled_exact:
  assumes "num < of_nat NUM_IRQS" and "sized s" and "irq_affinity s ! unat num = get_core_num s"
    and "\<forall>n<NUM_IRQS. vtable_handler P n \<noteq> 0" and "nmi_inv (vtable_handler P) (nmi s)" and "irqn_ok P"
  shows "\<exists>s'. wrap_irq_set_enabled P num en s = Some s' \<and> wrap_irq_is_enabled num s' = Some en \<and>
    sized s' \<and> nmi_inv (vtable_handler P) (nmi s') \<and>
    (if irq_priority s (get_core_num s) ! unat num = UINT8_MAX
     then nvic s' = nvic s \<and> (\<forall>n<NUM_IRQS. nmi_is_enabled n (nmi s') = (if n = unat num then en else nmi_is_enabled n (nmi s)))
     else nmi s' = nmi s \<and> nvic s' = (nvic s)(get_core_num s := real_irq_set_enabled P (uint num) en
       (if en then sdk_irq_clear P (uint num) (nvic s (get_core_num s)) else nvic s (get_core_num s))))"
proof -
  let ?c = "get_core_num s" and ?i = "uint num"
  note n = irq_number(1) [OF assms(1) assms(6)] irq_number(2-4) [OF assms(1)]
  have z: "length (irq_enabled s c) = NUM_IRQS" "length (irq_priority s c) = NUM_IRQS" "length (irq_affinity s) = NUM_IRQS" for c
    using assms(2) by (simp_all add: sized_def)
  note at = at_set_irq [OF assms(1)]
  have w: "wrap_irq_set_enabled P num en s = (if en then enable_irq_cmd P ?i s else disable_irq_cmd P ?i s)"
    using assms(1,3) z n by (simp add: wrap_irq_set_enabled_def check_def at)
  obtain m where m: "nmi_set_enable (vtable_handler P) (unat num) en (nmi s) = Some m"
    "nmi_inv (vtable_handler P) m" "this_core_num m = ?c"
    "\<forall>k<NUM_IRQS. nmi_is_enabled k m = (if k = unat num then en else nmi_is_enabled k (nmi s))"
    using nmi_set_enable_exact [OF assms(4) _ assms(5), of "unat num" en] n by auto
  let ?e = "(irq_enabled s)(?c := (irq_enabled s ?c)[unat num := en])"
  let ?h = "(nvic s)(?c := real_irq_set_enabled P ?i en (if en then sdk_irq_clear P ?i (nvic s ?c) else nvic s ?c))"
  let ?s = "if irq_priority s ?c ! unat num = UINT8_MAX then s\<lparr>nmi := m, irq_enabled := ?e\<rparr> else s\<lparr>nvic := ?h, irq_enabled := ?e\<rparr>"
  have s: "wrap_irq_set_enabled P num en s = Some ?s"
    using w z n m(1,3)
    by (cases en) (simp_all add: at enable_irq_cmd_def disable_irq_cmd_def call_nmi_set_enable_def cache_enabled_def on_nvic_def)
  have "wrap_irq_is_enabled num ?s = Some en"
    using assms(1,3) z n m(3) by (simp add: wrap_irq_is_enabled_def check_def at)
  moreover have "sized ?s" using z by (simp add: sized_def)
  ultimately show ?thesis using s m assms(5) by (intro exI [of _ ?s]) auto
qed

text \<open>
  On its own core \<open>multicore_irq_set_enable\<close> goes through the wrapper, which sends the request
  away when the interrupt is bound to the other core: there it is enabled, not here.
\<close>

lemma own_core_request_forwarded:
  assumes "num < of_nat NUM_IRQS" "sized s" "irq_affinity s ! unat num \<noteq> get_core_num s"
  shows "multicore_irq_set_enable P num (get_core_num s) True s = multicore_fifo_push_blocking P (MULTICORE_IRQ_ENABLE OR (num + 16)) s"
proof -
  have "at_irq (uint num) (irq_affinity s) = Some (irq_affinity s ! unat num)"
    using assms(1,2) by (intro at_set_irq) (simp_all add: sized_def)
  then show ?thesis using assms(1,3) by (simp add: multicore_irq_set_enable_def wrap_irq_set_enabled_def check_def)
qed

text \<open>A system exception has no entry in the cache: setting its priority writes in front of it.\<close>

lemma system_priority_outside: "irq < 0 \<Longrightarrow> set_priority_cmd P irq p s = None"
  by (simp add: set_priority_cmd_def cache_priority_def set_irq_def)

section \<open>Witnesses\<close>

text \<open>A NVIC that is the set of its enabled interrupts, FIFOs of eight words, core 0 running.\<close>

definition demo_port :: "int set irq_port" where
  "demo_port = \<lparr>vtable_handler = (\<lambda>n. of_nat n + 0x100), real_irq_set_enabled = (\<lambda>i en h. if en then insert i h else h - {i}),
     real_irq_is_enabled = (\<lambda>i h. i \<in> h), real_irq_set_pending = (\<lambda>i h. h), sdk_irq_clear = (\<lambda>i h. h),
     NVIC_SetPriority = (\<lambda>i p h. h), set_ICSR = (\<lambda>w h. h), fifo_depth = 8, call_fn = (\<lambda>w s. Some s), to_IRQn = sint\<rparr>"

definition demo_irqs :: "int set irq_state" where
  "demo_irqs = \<lparr>nmi = nmi_start\<lparr>this_core_num := 0\<rparr>, nvic = (\<lambda>_. {}), inbox = (\<lambda>_. []),
     irq_enabled = (\<lambda>_. replicate NUM_IRQS False), irq_priority = (\<lambda>_. replicate NUM_IRQS 0),
     irq_affinity = replicate NUM_IRQS 0\<rparr>"

text \<open>Interrupt 7 bound to core 1.\<close>

definition bound_irqs :: "int set irq_state" where
  "bound_irqs = demo_irqs\<lparr>irq_affinity := (replicate NUM_IRQS 0)[7 := 1]\<rparr>"

theorem remote_requests_exact_witness:
  "\<exists>s s'. request_calls demo_port 1 [Pend (- 2), Prioritise 7 0x40, Enable 7] bound_irqs = Some s \<and>
    multicore_irq_handler demo_port (at_core 1 s) = Some s' \<and> nvic s' 1 = {7} \<and> nvic s' 0 = {} \<and>
    mulitcore_irq_get_priority 7 1 s' = Some 0x40 \<and>
    multicore_irq_handler demo_port (at_core 1 s) =
      request_calls demo_port 1 [Pend (- 2), Prioritise 7 0x40, Enable 7] (at_core 1 bound_irqs)"
proof -
  let ?rs = "[Pend (- 2), Prioritise 7 0x40, Enable 7]"
  have "\<forall>r\<in>set ?rs. local_to 1 bound_irqs r"
    by (simp add: bound_irqs_def demo_irqs_def irq_get_affinity_def at_irq_def NUM_IRQS_def check_def)
  then obtain s where s: "request_calls demo_port 1 ?rs bound_irqs = Some s"
    "multicore_irq_handler demo_port (at_core 1 s) = perform_all demo_port ?rs (at_core 1 bound_irqs)"
    "multicore_irq_handler demo_port (at_core 1 s) = request_calls demo_port 1 ?rs (at_core 1 bound_irqs)"
    using remote_requests_exact [of bound_irqs 1 ?rs demo_port]
    by (auto simp: bound_irqs_def demo_irqs_def demo_port_def request_ok_def)
  have "\<exists>s'. perform_all demo_port ?rs (at_core 1 bound_irqs) = Some s' \<and> nvic s' 1 = {7} \<and> nvic s' 0 = {} \<and>
      mulitcore_irq_get_priority 7 1 s' = Some 0x40"
    by (simp add: request_defs bound_irqs_def demo_irqs_def demo_port_def at_core_def set_irq_def at_irq_def NUM_IRQS_def
        mulitcore_irq_get_priority_def)
  with s show ?thesis by auto
qed

lemma demo_irqn: "irqn_ok demo_port"
proof -
  have "sint (of_int i :: word32) = i" if "- 16 \<le> i" "i < 32" for i :: int
    using that by (simp add: signed_of_int signed_take_bit_int_eq_self)
  then show ?thesis by (simp add: irqn_ok_def demo_port_def)
qed

theorem irq_set_enabled_exact_witness:
  "\<exists>s'. wrap_irq_set_enabled demo_port 7 True demo_irqs = Some s' \<and> wrap_irq_is_enabled 7 s' = Some True \<and> nvic s' 0 = {7}"
proof -
  have "\<forall>n<NUM_IRQS. vtable_handler demo_port n \<noteq> 0"
  proof (intro allI impI)
    fix n assume "n < NUM_IRQS"
    then have "unat (of_nat n + 0x100 :: addr) = n + 0x100" by (simp add: NUM_IRQS_def unat_word_ariths unat_of_nat)
    then show "vtable_handler demo_port n \<noteq> 0" by (auto simp: demo_port_def)
  qed
  moreover have "nmi_inv (vtable_handler demo_port) (nmi demo_irqs)"
    by (auto simp: nmi_inv_def demo_irqs_def nmi_start_def enabled_irqs_def intro!: exI [of _ "[]"])
  moreover have "sized demo_irqs" by (simp add: sized_def demo_irqs_def)
  ultimately show ?thesis
    using irq_set_enabled_exact [of 7 demo_irqs demo_port True] demo_irqn
    by (auto simp: demo_irqs_def demo_port_def NUM_IRQS_def nmi_start_def)
qed

end
