(* ===== verification/Retarget_Lock.thy ===== *)
theory Retarget_Lock
  imports Sched_Props
begin

text \<open>
  The locks of the C library: \<open>picolibc-glue/retarget-lock.c\<close>, one access of the lock a step, by
  any number of clients; and what \<open>pico-scheduler/scheduler-glue.c\<close> puts in the place of its weak
  functions when the scheduler is linked. The theorems: calls that do not overlap are those of
  a recursive lock; two calls that do overlap can break it, because the comparison value is
  part of the lock and because waiting for the initialisation tests the wrong way.
\<close>

section \<open>State\<close>

abbreviation LIBC_LOCK_MARKER :: word32 where
  "LIBC_LOCK_MARKER \<equiv> 0x89988998"

record runtime_lock =
  lk_value :: word32
  lk_expected :: word32
  lk_count :: word32
  lk_allocated :: bool
  lk_marker :: word32

text \<open>
  The place of a client in a call, named after the access it makes next. \<open>Try\<close> tells the two
  callers of the attempt apart, and the last attempt of a client is kept as its result.
\<close>

datatype lock_op = Acquire | Try_Acquire | Release

datatype lock_pc =
    Outside
  | Init_Load bool | Init_Claim bool | Init_Wait bool | Init_Value bool | Init_Count bool | Init_Mark bool
  | Acq_Load bool | Acq_Expected bool | Acq_Exchange bool | Acq_Count
  | Relaxing
  | Rel_Load | Rel_Expected | Rel_Exchange
  | Aborted

record lock_world =
  the_lock :: runtime_lock
  lock_at :: "nat \<Rightarrow> lock_pc"
  lock_result :: "nat \<Rightarrow> bool"
  lock_errno :: "nat \<Rightarrow> word32"

definition EBUSY :: word32 where "EBUSY = 16"

text \<open>The weak version: the number of the core, plus one.\<close>

definition retarget_runtime_lock_value :: "nat \<Rightarrow> word32" where
  "retarget_runtime_lock_value core = of_nat core + 1"

section \<open>The calls\<close>

text \<open>
  \<open>__retarget_runtime_lock_init_once\<close>. The loop waits as long as the marker is there, as the
  source has it.
\<close>

definition retarget_runtime_lock_init_once :: "lock_pc \<Rightarrow> runtime_lock \<Rightarrow> lock_pc \<times> runtime_lock" where
  "retarget_runtime_lock_init_once pc l =
    (case pc of
       Init_Load t \<Rightarrow> (if lk_marker l = LIBC_LOCK_MARKER then Acq_Load t else Init_Claim t, l)
     | Init_Claim t \<Rightarrow> (if lk_marker l = 0 then (Init_Value t, l\<lparr>lk_marker := 1\<rparr>) else (Init_Wait t, l))
     | Init_Wait t \<Rightarrow> (if lk_marker l = LIBC_LOCK_MARKER then Init_Wait t else Acq_Load t, l)
     | Init_Value t \<Rightarrow> (Init_Count t, l\<lparr>lk_value := 0\<rparr>)
     | Init_Count t \<Rightarrow> (Init_Mark t, l\<lparr>lk_count := 0\<rparr>)
     | Init_Mark t \<Rightarrow> (Acq_Load t, l\<lparr>lk_marker := LIBC_LOCK_MARKER\<rparr>)
     | _ \<Rightarrow> (pc, l))"

text \<open>
  \<open>__retarget_runtime_lock_try_acquire\<close> with the value of the client: where the client goes,
  the result once there is one, and the lock.
\<close>

definition retarget_runtime_lock_try_acquire :: "word32 \<Rightarrow> lock_pc \<Rightarrow> runtime_lock \<Rightarrow> lock_pc \<times> bool option \<times> runtime_lock" where
  "retarget_runtime_lock_try_acquire self pc l =
    (case pc of
       Acq_Load t \<Rightarrow> (if self = lk_value l then (Outside, Some True, l\<lparr>lk_count := lk_count l + 1\<rparr>) else (Acq_Expected t, None, l))
     | Acq_Expected t \<Rightarrow> (Acq_Exchange t, None, l\<lparr>lk_expected := 0\<rparr>)
     | Acq_Exchange t \<Rightarrow>
         if lk_value l = lk_expected l then (Acq_Count, None, l\<lparr>lk_value := self\<rparr>)
         else (if t then Outside else Relaxing, Some False, l\<lparr>lk_expected := lk_value l\<rparr>)
     | Acq_Count \<Rightarrow> (Outside, Some True, l\<lparr>lk_count := 1\<rparr>)
     | _ \<Rightarrow> (pc, None, l))"

definition retarget_runtime_lock_release :: "word32 \<Rightarrow> lock_pc \<Rightarrow> runtime_lock \<Rightarrow> lock_pc \<times> runtime_lock" where
  "retarget_runtime_lock_release self pc l =
    (case pc of
       Rel_Load \<Rightarrow>
         if lk_value l = self
         then let l = l\<lparr>lk_count := lk_count l - 1\<rparr> in if 0 <s lk_count l then (Outside, l) else (Rel_Expected, l)
         else (Rel_Expected, l)
     | Rel_Expected \<Rightarrow> (Rel_Exchange, l\<lparr>lk_expected := self\<rparr>)
     | Rel_Exchange \<Rightarrow>
         if lk_value l = lk_expected l then (Outside, l\<lparr>lk_value := 0\<rparr>)
         else (Aborted, l\<lparr>lk_expected := lk_value l\<rparr>)
     | _ \<Rightarrow> (pc, l))"

text \<open>
  One step of client \<open>c\<close>, whose value is \<open>val c\<close>. A client outside a call makes the call \<open>op\<close>:
  \<open>__retarget_lock_acquire\<close> and \<open>__retarget_lock_try_acquire\<close> start with the initialisation, an
  attempt that fails is relaxed and repeated by the first and returned by the second.
\<close>

definition lock_step :: "(nat \<Rightarrow> word32) \<Rightarrow> nat \<Rightarrow> lock_op \<Rightarrow> lock_world \<Rightarrow> lock_world" where
  "lock_step val c op w =
    (let l = the_lock w;
         goto = (\<lambda>pc l w. w\<lparr>the_lock := l, lock_at := (lock_at w)(c := pc)\<rparr>);
         attempt = (case retarget_runtime_lock_try_acquire (val c) (lock_at w c) l of (pc, r, l') \<Rightarrow>
           case r of None \<Rightarrow> goto pc l' w
           | Some b \<Rightarrow> goto pc l' (w\<lparr>lock_result := (lock_result w)(c := b),
               lock_errno := (if b then lock_errno w else (lock_errno w)(c := EBUSY))\<rparr>))
     in case lock_at w c of
          Outside \<Rightarrow> (case op of Acquire \<Rightarrow> goto (Init_Load False) l w | Try_Acquire \<Rightarrow> goto (Init_Load True) l w
            | Release \<Rightarrow> goto Rel_Load l w)
        | Acq_Load t \<Rightarrow> attempt
        | Acq_Expected t \<Rightarrow> attempt
        | Acq_Exchange t \<Rightarrow> attempt
        | Acq_Count \<Rightarrow> attempt
        | Relaxing \<Rightarrow> goto (Acq_Load False) l w
        | Rel_Load \<Rightarrow> (case retarget_runtime_lock_release (val c) Rel_Load l of (pc, l) \<Rightarrow> goto pc l w)
        | Rel_Expected \<Rightarrow> (case retarget_runtime_lock_release (val c) Rel_Expected l of (pc, l) \<Rightarrow> goto pc l w)
        | Rel_Exchange \<Rightarrow> (case retarget_runtime_lock_release (val c) Rel_Exchange l of (pc, l) \<Rightarrow> goto pc l w)
        | Aborted \<Rightarrow> w
        | pc \<Rightarrow> (case retarget_runtime_lock_init_once pc l of (pc, l) \<Rightarrow> goto pc l w))"

definition lock_steps :: "(nat \<Rightarrow> word32) \<Rightarrow> (nat \<times> lock_op) list \<Rightarrow> lock_world \<Rightarrow> lock_world" where
  "lock_steps val xs w = fold (\<lambda>(c, op). lock_step val c op) xs w"

text \<open>
  A call that no other client disturbs: its first step, then steps until it is outside again, or
  has aborted; six steps are enough when the lock is initialised.
\<close>

fun until_outside :: "nat \<Rightarrow> (nat \<Rightarrow> word32) \<Rightarrow> nat \<Rightarrow> lock_op \<Rightarrow> lock_world \<Rightarrow> lock_world" where
  "until_outside 0 val c op w = w"
| "until_outside (Suc n) val c op w =
    (if lock_at w c = Outside then w else until_outside n val c op (lock_step val c op w))"

definition lock_call :: "(nat \<Rightarrow> word32) \<Rightarrow> nat \<Rightarrow> lock_op \<Rightarrow> lock_world \<Rightarrow> lock_world" where
  "lock_call val c op w = until_outside 5 val c op (lock_step val c op w)"

text \<open>
  Dynamic locks: \<open>__retarget_runtime_lock_init\<close> and \<open>__retarget_runtime_lock_close\<close>. \<open>calloc\<close>
  gives an address, 0 when there is no memory, which aborts.
\<close>

definition retarget_runtime_lock_init :: "addr \<Rightarrow> addr \<Rightarrow> (addr \<Rightarrow> runtime_lock) \<Rightarrow> (addr \<times> (addr \<Rightarrow> runtime_lock)) option" where
  "retarget_runtime_lock_init calloc lock locks =
    (if lock = 0
     then if calloc = 0 then None
       else Some (calloc, locks(calloc := \<lparr>lk_value = 0, lk_expected = 0, lk_count = 0, lk_allocated = True, lk_marker = 0\<rparr>))
     else Some (lock, locks))"

text \<open>Whether closing a lock gives its memory back.\<close>

definition retarget_runtime_lock_close :: "runtime_lock \<Rightarrow> bool" where
  "retarget_runtime_lock_close l = lk_allocated l"

section \<open>A recursive lock\<close>

text \<open>
  The specification: the owner and how often it has acquired the lock. An attempt fails when
  another client owns it; a release by a client that does not own it has no result.
\<close>

type_synonym rec_lock = "(nat \<times> nat) option"

fun rec_call :: "nat \<Rightarrow> lock_op \<Rightarrow> rec_lock \<Rightarrow> (bool \<times> rec_lock) option" where
  "rec_call c Release None = None"
| "rec_call c Release (Some (d, k)) = (if c = d then Some (True, if k = 1 then None else Some (d, k - 1)) else None)"
| "rec_call c op None = Some (True, Some (c, 1))"
| "rec_call c op (Some (d, k)) = (if c = d then Some (True, Some (d, k + 1)) else Some (False, Some (d, k)))"

definition lock_rel :: "nat \<Rightarrow> (nat \<Rightarrow> word32) \<Rightarrow> lock_world \<Rightarrow> rec_lock \<Rightarrow> bool" where
  "lock_rel n val w a \<longleftrightarrow> lk_marker (the_lock w) = LIBC_LOCK_MARKER \<and> (\<forall>c<n. lock_at w c = Outside) \<and>
     (case a of None \<Rightarrow> lk_value (the_lock w) = 0
      | Some (c, k) \<Rightarrow> c < n \<and> lk_value (the_lock w) = val c \<and> unat (lk_count (the_lock w)) = k \<and> 0 < k \<and> k < 2 ^ 31)"

definition distinct_values :: "nat \<Rightarrow> (nat \<Rightarrow> word32) \<Rightarrow> bool" where
  "distinct_values n val \<longleftrightarrow> inj_on val {..<n} \<and> (\<forall>c<n. val c \<noteq> 0)"

lemma positive_count:
  fixes v :: word32
  assumes "unat v < 2 ^ 31"
  shows "0 <s v \<longleftrightarrow> 0 < unat v"
proof -
  have "unat v < 2147483648" using assms by simp
  then have "uint v < 2147483648" "- 2147483648 \<le> uint v" unfolding uint_nat by linarith+
  then have "sint v = uint v" by (simp add: sint_uint signed_take_bit_int_eq_self)
  then show ?thesis by (simp add: word_sless_alt less_le uint_0_iff unat_eq_zero)
qed

lemma until_outside_5:
  "until_outside 5 val c op w = until_outside (Suc (Suc (Suc (Suc (Suc 0))))) val c op w"
  by (simp add: numeral_eq_Suc)

lemmas lock_defs = lock_call_def until_outside_5 lock_step_def retarget_runtime_lock_init_once_def
  retarget_runtime_lock_try_acquire_def retarget_runtime_lock_release_def

lemma acquire_free:
  assumes "lk_marker (the_lock w) = LIBC_LOCK_MARKER" "lock_at w c = Outside" "lk_value (the_lock w) = 0" "val c \<noteq> 0" "op \<noteq> Release"
  shows "lock_call val c op w = w\<lparr>the_lock := (the_lock w)\<lparr>lk_expected := 0, lk_value := val c, lk_count := 1\<rparr>,
    lock_result := (lock_result w)(c := True)\<rparr>"
  using assms by (cases op) (simp_all add: lock_defs Let_def fun_upd_idem)

lemma acquire_own:
  assumes "lk_marker (the_lock w) = LIBC_LOCK_MARKER" "lock_at w c = Outside" "lk_value (the_lock w) = val c" "op \<noteq> Release"
  shows "lock_call val c op w = w\<lparr>the_lock := (the_lock w)\<lparr>lk_count := lk_count (the_lock w) + 1\<rparr>,
    lock_result := (lock_result w)(c := True)\<rparr>"
  using assms by (cases op) (simp_all add: lock_defs Let_def fun_upd_idem)

lemma try_taken:
  assumes "lk_marker (the_lock w) = LIBC_LOCK_MARKER" "lock_at w c = Outside" "lk_value (the_lock w) \<noteq> val c" "lk_value (the_lock w) \<noteq> 0"
  shows "lock_call val c Try_Acquire w = w\<lparr>the_lock := (the_lock w)\<lparr>lk_expected := lk_value (the_lock w)\<rparr>,
    lock_result := (lock_result w)(c := False), lock_errno := (lock_errno w)(c := EBUSY)\<rparr>"
  using assms by (simp add: lock_defs Let_def fun_upd_idem)

lemma release_inner:
  assumes "lock_at w c = Outside" "lk_value (the_lock w) = val c" "0 <s lk_count (the_lock w) - 1"
  shows "lock_call val c Release w = w\<lparr>the_lock := (the_lock w)\<lparr>lk_count := lk_count (the_lock w) - 1\<rparr>\<rparr>"
  using assms by (simp add: lock_defs Let_def fun_upd_idem)

lemma release_last:
  assumes "lock_at w c = Outside" "lk_value (the_lock w) = val c" "\<not> 0 <s lk_count (the_lock w) - 1"
  shows "lock_call val c Release w = w\<lparr>the_lock := (the_lock w)\<lparr>lk_count := lk_count (the_lock w) - 1, lk_expected := val c, lk_value := 0\<rparr>\<rparr>"
  using assms by (simp add: lock_defs Let_def fun_upd_idem)

lemma release_foreign:
  assumes "lock_at w c = Outside" "lk_value (the_lock w) \<noteq> val c"
  shows "lock_at (lock_call val c Release w) c = Aborted"
  using assms by (simp add: lock_defs Let_def)

text \<open>What a call does to a lock that is free, held by the caller, and held by another client.\<close>

definition call_refines :: "nat \<Rightarrow> (nat \<Rightarrow> word32) \<Rightarrow> nat \<Rightarrow> lock_op \<Rightarrow> lock_world \<Rightarrow> (nat \<times> nat) option \<Rightarrow> bool" where
  "call_refines n val c op w a \<longleftrightarrow> (case rec_call c op a of
      None \<Rightarrow> lock_at (lock_call val c op w) c = Aborted
    | Some (r, a') \<Rightarrow> lock_rel n val (lock_call val c op w) a' \<and>
        (op \<noteq> Release \<longrightarrow> lock_result (lock_call val c op w) c = r \<and> (r \<or> lock_errno (lock_call val c op w) c = EBUSY)))"

lemma related_lock:
  assumes "lock_rel n val w a" and "c < n"
  shows "lk_marker (the_lock w) = LIBC_LOCK_MARKER" "lock_at w c = Outside" "\<forall>d<n. lock_at w d = Outside"
  using assms by (simp_all add: lock_rel_def)

lemma call_free:
  assumes "lock_rel n val w None" and "c < n" and "val c \<noteq> 0"
  shows "call_refines n val c op w None"
proof (cases "op = Release")
  case True
  then show ?thesis using release_foreign [where val = val, OF related_lock(2) [OF assms(1,2)]] assms(1,3)
    by (simp add: call_refines_def lock_rel_def)
next
  case False
  then have "rec_call c op None = Some (True, Some (c, 1))" by (cases op) simp_all
  then show ?thesis using acquire_free [where val = val, OF related_lock(1,2) [OF assms(1,2)] _ assms(3) False] assms(1,2)
    by (simp add: call_refines_def lock_rel_def)
qed

lemma owner_releases:
  assumes "lock_rel n val w (Some (c, k))" and "k + 1 < 2 ^ 31"
  shows "call_refines n val c Release w (Some (c, k))"
proof -
  let ?v = "lk_count (the_lock w) - 1"
  have l: "c < n" "lk_value (the_lock w) = val c" "unat (lk_count (the_lock w)) = k" "0 < k"
    using assms(1) by (simp_all add: lock_rel_def)
  note r = related_lock [OF assms(1) l(1)]
  have "lk_count (the_lock w) \<noteq> 0" using l(3,4) by auto
  then have u: "unat ?v = k - 1" using l(3) by (simp add: unat_minus_one)
  then have p: "0 <s ?v \<longleftrightarrow> 1 < k" using positive_count [of ?v] assms(2) by auto
  show ?thesis
  proof (cases "k = 1")
    case True
    with p show ?thesis using release_last [where val = val, OF r(2) l(2)] l r by (simp add: call_refines_def lock_rel_def)
  next
    case False
    with p l(4) show ?thesis using release_inner [where val = val, OF r(2) l(2)] l u r assms(2)
      by (simp add: call_refines_def lock_rel_def)
  qed
qed

lemma owner_acquires:
  assumes "lock_rel n val w (Some (c, k))" and "k + 1 < 2 ^ 31" and "op \<noteq> Release"
  shows "call_refines n val c op w (Some (c, k))"
proof -
  have l: "c < n" "lk_value (the_lock w) = val c" "unat (lk_count (the_lock w)) = k" "0 < k"
    using assms(1) by (simp_all add: lock_rel_def)
  have "unat (lk_count (the_lock w) + 1) = k + 1" using l(3) assms(2) by (simp add: unat_word_ariths)
  moreover have "rec_call c op (Some (c, k)) = Some (True, Some (c, k + 1))" using assms(3) by (cases op) simp_all
  ultimately show ?thesis
    using acquire_own [where val = val, OF related_lock(1,2) [OF assms(1) l(1)] l(2) assms(3)] l related_lock [OF assms(1) l(1)] assms(2)
    by (simp add: call_refines_def lock_rel_def)
qed

lemma other_calls:
  assumes "lock_rel n val w (Some (d, k))" and "distinct_values n val" and "c < n" and "c \<noteq> d" and "op \<noteq> Acquire"
  shows "call_refines n val c op w (Some (d, k))"
proof -
  have l: "d < n" "lk_value (the_lock w) = val d" using assms(1) by (simp_all add: lock_rel_def)
  note r = related_lock [OF assms(1,3)]
  have o: "lk_value (the_lock w) \<noteq> val c" "lk_value (the_lock w) \<noteq> 0"
    using assms(2-4) l by (auto simp: distinct_values_def inj_on_def)
  show ?thesis
  proof (cases op)
    case Release
    then show ?thesis using assms(4) release_foreign [where val = val, OF r(2) o(1)] by (simp add: call_refines_def)
  next
    case Try_Acquire
    then show ?thesis using assms(1,4) try_taken [where val = val, OF r(1,2) o] r by (simp add: call_refines_def lock_rel_def)
  qed (use assms(5) in simp)
qed

text \<open>
  C25. Calls that do not overlap are those of a recursive lock: attempts by the owner count up,
  releases count down and the last one frees the lock, an attempt by another client fails with
  EBUSY and leaves owner and count, and a release by a client that is not the owner aborts.
  An acquisition that has to wait is not a single call.
\<close>

theorem retarget_lock_refines:
  assumes "distinct_values n val" and "lock_rel n val w a" and "c < n"
    and "case a of None \<Rightarrow> True | Some (d, k) \<Rightarrow> (op = Acquire \<longrightarrow> c = d) \<and> k + 1 < 2 ^ 31"
  shows "case rec_call c op a of
      None \<Rightarrow> lock_at (lock_call val c op w) c = Aborted
    | Some (r, a') \<Rightarrow> lock_rel n val (lock_call val c op w) a' \<and>
        (op \<noteq> Release \<longrightarrow> lock_result (lock_call val c op w) c = r \<and> (r \<or> lock_errno (lock_call val c op w) c = EBUSY))"
proof -
  have "call_refines n val c op w a"
  proof (cases a)
    case None
    then show ?thesis using call_free assms(1-3) by (simp add: distinct_values_def)
  next
    case (Some p)
    then obtain d k where a: "a = Some (d, k)" by (cases p) auto
    then show ?thesis
      using assms owner_releases [of n val w c k] owner_acquires [of n val w c k op] other_calls [of n val w d k c op]
      by (cases "c = d"; cases "op = Release") auto
  qed
  then show ?thesis by (simp only: call_refines_def)
qed

section \<open>Calls that overlap\<close>

text \<open>The static lock of the library, and the two cores.\<close>

definition lock_start :: lock_world where
  "lock_start = \<lparr>the_lock = \<lparr>lk_value = 0, lk_expected = 0, lk_count = 0, lk_allocated = False, lk_marker = 0\<rparr>,
     lock_at = (\<lambda>_. Outside), lock_result = (\<lambda>_. False), lock_errno = (\<lambda>_. 0)\<rparr>"

definition lock_ready :: lock_world where
  "lock_ready = lock_start\<lparr>the_lock := (the_lock lock_start)\<lparr>lk_marker := LIBC_LOCK_MARKER\<rparr>\<rparr>"

lemma lock_steps_simps:
  "lock_steps val [] w = w" "lock_steps val ((c, op) # xs) w = lock_steps val xs (lock_step val c op w)"
  "lock_steps val (xs @ ys) w = lock_steps val ys (lock_steps val xs w)"
  by (simp_all add: lock_steps_def)

lemma core_values [simp]: "retarget_runtime_lock_value 0 = 1" "retarget_runtime_lock_value (Suc 0) = 2"
  by (simp_all add: retarget_runtime_lock_value_def)

lemma replicates:
  "replicate 2 x = [x, x]"
  "replicate 3 x = [x, x, x]"
  "replicate 4 x = [x, x, x, x]"
  "replicate 6 x = [x, x, x, x, x, x]"
  "replicate 7 x = [x, x, x, x, x, x, x]"
  "replicate 8 x = [x, x, x, x, x, x, x, x]"
  by (simp_all add: numeral_eq_Suc)

lemmas run_defs = lock_steps_simps lock_step_def Let_def replicates
  retarget_runtime_lock_init_once_def retarget_runtime_lock_try_acquire_def retarget_runtime_lock_release_def

text \<open>
  The comparison value is shared: core 0 holds the lock and releases it while core 1 tries to
  acquire it. When core 0 puts its own value into \<open>expected\<close> after core 1 has put 0 there, the
  exchange of core 1 finds what it expects: core 1 acquires the lock core 0 still holds, and the
  release by core 0 aborts the system.
\<close>

theorem shared_expected_breaks_lock:
  "\<exists>w w'. w = lock_steps retarget_runtime_lock_value
      (replicate 6 (0, Acquire) @ replicate 4 (1, Acquire) @ replicate 3 (0, Release) @ replicate 2 (1, Acquire)) lock_ready \<and>
    lock_at w 1 = Outside \<and> lock_result w 1 \<and> lock_at w 0 = Rel_Exchange \<and>
    w' = lock_step retarget_runtime_lock_value 0 Release w \<and> lock_at w' 0 = Aborted"
  by (simp add: run_defs lock_ready_def lock_start_def)

text \<open>
  The initialisation is not awaited: a client that finds it under way goes on at once and can
  acquire the lock, and the initialisation then clears the owner, so that both hold the lock.
  A client that looks again when the initialisation is complete waits for ever.
\<close>

theorem init_once_not_awaited:
  "\<exists>w. w = lock_steps retarget_runtime_lock_value
      (replicate 3 (0, Acquire) @ replicate 8 (1, Acquire) @ replicate 7 (0, Acquire)) lock_start \<and>
    lock_at w 0 = Outside \<and> lock_result w 0 \<and> lock_at w 1 = Outside \<and> lock_result w 1"
proof -
  let ?l = "\<lambda>v n m. \<lparr>lk_value = v, lk_expected = 0, lk_count = n, lk_allocated = False, lk_marker = m\<rparr>"
  let ?w = "\<lambda>l at r. \<lparr>the_lock = l, lock_at = at, lock_result = r, lock_errno = (\<lambda>_. 0)\<rparr>"
  let ?at = "(\<lambda>_. Outside)(0 := Init_Value False)" and ?r = "(\<lambda>_. False)(1 := True)"
  have "lock_steps retarget_runtime_lock_value (replicate 3 (0, Acquire)) lock_start = ?w (?l 0 0 1) ?at (\<lambda>_. False)"
    by (simp add: run_defs lock_start_def)
  moreover have "lock_steps retarget_runtime_lock_value (replicate 8 (1, Acquire)) (?w (?l 0 0 1) ?at (\<lambda>_. False)) = ?w (?l 2 1 1) ?at ?r"
    by (simp add: run_defs fun_upd_idem)
  moreover have "lock_steps retarget_runtime_lock_value (replicate 7 (0, Acquire)) (?w (?l 2 1 1) ?at ?r) =
      ?w (?l 1 1 LIBC_LOCK_MARKER) (\<lambda>_. Outside) (?r(0 := True))"
    by (simp add: run_defs fun_upd_idem)
  ultimately show ?thesis by (simp only: lock_steps_simps(3)) simp
qed


lemma init_wait_forever:
  assumes "lock_at w c = Init_Wait t" "lk_marker (the_lock w) = LIBC_LOCK_MARKER"
  shows "lock_steps val (replicate n (c, op)) w = w"
proof (induction n)
  case (Suc n)
  have "lock_step val c op w = w" using assms by (simp add: lock_step_def retarget_runtime_lock_init_once_def Let_def fun_upd_idem)
  with Suc show ?case by (simp add: lock_steps_def)
qed (simp add: lock_steps_def)

section \<open>With the scheduler\<close>

text \<open>
  The versions of \<open>scheduler-glue.c\<close>: a client is a task on a core, it waits on a futex of the
  lock with the value its failed attempt has left in \<open>expected\<close>, and a release wakes one waiter
  when that field names a task. An error of the scheduler aborts.
\<close>

definition rtos_lock_value :: "sys \<Rightarrow> word32 option" where
  "rtos_lock_value s = do {
     task \<leftarrow> scheduler_task s;
     Some (task OR (scheduler_current_core s + 1))
   }"

text \<open>
  \<open>__retarget_runtime_lock_init_once\<close> of \<open>scheduler-glue.c\<close>: as the weak version, with the futex
  of the lock set up in the step that clears the count, and a client that waits sleeps ten ticks
  a turn once the scheduler runs.
\<close>

definition rtos_lock_init_once ::
  "(sys \<Rightarrow> sys) \<Rightarrow> scheduler_frame \<Rightarrow> exception_frame \<Rightarrow> addr \<Rightarrow> addr \<Rightarrow> lock_pc \<Rightarrow> runtime_lock \<Rightarrow> sys
    \<Rightarrow> (lock_pc \<times> runtime_lock \<times> sys) option" where
  "rtos_lock_init_once run frame eframe futex value_ptr pc l s =
    (case pc of
       Init_Wait t \<Rightarrow>
         if lk_marker l = LIBC_LOCK_MARKER
         then if scheduler_is_running s
           then do { (status, s) \<leftarrow> scheduler_sleep run frame eframe 10 s; Some (Init_Wait t, l, s) }
           else Some (Init_Wait t, l, s)
         else Some (Acq_Load t, l, s)
     | Init_Count t \<Rightarrow> do { s \<leftarrow> scheduler_futex_init futex value_ptr 0 s; Some (Init_Mark t, l\<lparr>lk_count := 0\<rparr>, s) }
     | pc \<Rightarrow> let (pc, l) = retarget_runtime_lock_init_once pc l in Some (pc, l, s))"

text \<open>\<open>calloc\<close> gives the lock and its futex zeroed.\<close>

definition rtos_lock_init :: "addr \<Rightarrow> addr \<Rightarrow> (addr \<Rightarrow> runtime_lock) \<Rightarrow> (addr \<times> (addr \<Rightarrow> runtime_lock)) option" where
  "rtos_lock_init calloc lock locks =
    (if lock = 0
     then if calloc = 0 then None
       else Some (calloc, locks(calloc := \<lparr>lk_value = 0, lk_expected = 0, lk_count = 0, lk_allocated = True, lk_marker = 0\<rparr>))
     else Some (lock, locks))"

text \<open>An initialisation that is not disturbed leaves a free lock with an empty futex on its value.\<close>

lemma rtos_init_undisturbed:
  assumes "lk_marker l = 0" and "futex \<noteq> 0"
    and "step = (\<lambda>(pc, l, s). rtos_lock_init_once run frame eframe futex value_ptr pc l s)"
  shows "\<exists>s'. do { x \<leftarrow> step (Init_Load t, l, s); x \<leftarrow> step x; x \<leftarrow> step x; x \<leftarrow> step x; step x } =
      Some (Acq_Load t, l\<lparr>lk_marker := LIBC_LOCK_MARKER, lk_value := 0, lk_count := 0\<rparr>, s') \<and>
    futex_of s' futex = \<lparr>f_value = value_ptr, f_flags = 0, f_marker = SCHEDULER_FUTEX_MARKER\<rparr> \<and> queues s' (Waiters futex) = []"
  using assms(1,2)
  by (simp add: assms(3) rtos_lock_init_once_def retarget_runtime_lock_init_once_def scheduler_futex_init_def)

definition rtos_lock_relax :: "(sys \<Rightarrow> sys) \<Rightarrow> scheduler_frame \<Rightarrow> addr \<Rightarrow> runtime_lock \<Rightarrow> sys \<Rightarrow> sys option" where
  "rtos_lock_relax run frame futex l s = do {
     self \<leftarrow> rtos_lock_value s;
     if self AND 0xfffffffc \<noteq> 0
     then do {
       (status, s) \<leftarrow> scheduler_futex_wait run frame futex (lk_expected l) SCHEDULER_WAIT_FOREVER s;
       if status <s 0 then None else Some s
     }
     else Some s
   }"

definition rtos_lock_wake :: "exception_frame \<Rightarrow> addr \<Rightarrow> runtime_lock \<Rightarrow> sys \<Rightarrow> sys option" where
  "rtos_lock_wake frame futex l s =
    (if lk_expected l AND 0xfffffffc = 0 then Some s
     else do {
       (status, s) \<leftarrow> scheduler_futex_wake frame futex False s;
       if status <s 0 then None else Some s
     })"

text \<open>
  The value depends on the core: a task that runs on another core than before is another client
  of the lock, so it can neither acquire again nor release what it has acquired.
\<close>

lemma task_value_core:
  fixes task :: addr
  assumes "task AND 3 = 0"
  shows "task OR 1 \<noteq> task OR 2"
proof
  assume e: "task OR 1 = task OR 2"
  have "(task OR 1) AND 3 = 1" "(task OR 2) AND 3 = 2" using assms by (simp_all add: bit.conj_disj_distrib2)
  with e show False by simp
qed

text \<open>
  A task that has acquired a lock of the C library on one core and runs on the other core when
  it releases it aborts the system: its two values differ, and a release under the second value
  is that of a client that does not own the lock.
\<close>

theorem migrated_release_aborts:
  assumes "rtos_lock_value s = Some v" and "rtos_lock_value s' = Some v'"
    and "scheduler_task s = Some task" and "scheduler_task s' = Some task" and "task AND 3 = 0"
    and "scheduler_current_core s = 0" and "scheduler_current_core s' = 1"
    and "lk_value (the_lock w) = v" and "lock_at w c = Outside"
  shows "lock_at (lock_call (\<lambda>_. v') c Release w) c = Aborted"
proof -
  have "v = task OR 1" "v' = task OR 2" using assms(1-4,6,7) by (auto simp: rtos_lock_value_def)
  then have "lk_value (the_lock w) \<noteq> v'" using assms(8) task_value_core [OF assms(5)] by simp
  then show ?thesis using release_foreign [where val = "\<lambda>_. v'", OF assms(9)] by simp
qed

section \<open>Witnesses\<close>

theorem retarget_lock_refines_witness:
  "\<exists>w. lock_rel 2 retarget_runtime_lock_value w (Some (1, Suc 1)) \<and> lock_result w 1 \<and>
    \<not> lock_result (lock_call retarget_runtime_lock_value 0 Try_Acquire w) 0"
proof -
  have d: "distinct_values 2 retarget_runtime_lock_value"
    by (auto simp: distinct_values_def inj_on_def less_2_cases_iff)
  have 0: "lock_rel 2 retarget_runtime_lock_value lock_ready None" by (simp add: lock_rel_def lock_ready_def lock_start_def)
  let ?a = "lock_call retarget_runtime_lock_value 1 Acquire lock_ready" and ?c = "lock_call retarget_runtime_lock_value 1 Try_Acquire"
  have 1: "lock_rel 2 retarget_runtime_lock_value ?a (Some (1, 1))"
    using retarget_lock_refines [OF d 0, of 1 Acquire] by simp
  have 2: "lock_rel 2 retarget_runtime_lock_value (?c ?a) (Some (1, Suc 1)) \<and> lock_result (?c ?a) 1"
    using retarget_lock_refines [OF d 1, of 1 Try_Acquire] by simp
  then have "\<not> lock_result (lock_call retarget_runtime_lock_value 0 Try_Acquire (?c ?a)) 0"
    using retarget_lock_refines [OF d, of "?c ?a" "Some (1, Suc 1)" 0 Try_Acquire] by simp
  with 2 show ?thesis by blast
qed

theorem migrated_release_aborts_witness:
  "\<exists>v'. lock_at (lock_call (\<lambda>_. v') 0 Release
     (lock_call (\<lambda>_. 0x101) 0 Acquire lock_ready)) 0 = Aborted \<and> v' = 0x102"
proof -
  let ?s = "sample_sys\<lparr>this_core := 1, cores := (cores sample_sys)(1 := boot_core\<lparr>current_task := 0x100\<rparr>)\<rparr>"
  let ?w = "lock_call (\<lambda>_. 0x101) 0 Acquire lock_ready"
  have t: "scheduler_task sample_sys = Some 0x100" "scheduler_task ?s = Some 0x100"
    by (simp_all add: scheduler_task_def sched_get_current_def sample_sys_def boot_core_def sample_task_def check_def)
  have c: "scheduler_current_core sample_sys = 0" "scheduler_current_core ?s = 1"
    by (simp_all add: scheduler_current_core_def sample_sys_def)
  have v: "rtos_lock_value sample_sys = Some 0x101" "rtos_lock_value ?s = Some 0x102"
    using t c by (simp_all add: rtos_lock_value_def)
  have "?w = lock_ready\<lparr>the_lock := (the_lock lock_ready)\<lparr>lk_expected := 0, lk_value := 0x101, lk_count := 1\<rparr>,
      lock_result := (lock_result lock_ready)(0 := True)\<rparr>"
    by (rule acquire_free) (simp_all add: lock_ready_def lock_start_def)
  then have "lk_value (the_lock ?w) = 0x101" "lock_at ?w 0 = Outside" by (simp_all add: lock_ready_def lock_start_def)
  from migrated_release_aborts [OF v t _ c this] show ?thesis by simp
qed

end
