(* ===== verification/Core_Local.thy ===== *)
theory Core_Local
  imports Pico_Atomic Sched_Props
begin

text \<open>
  Core local and thread local storage (\<open>tls.h\<close>, \<open>tls.c\<close>) over byte memory, and what
  \<open>scheduler-glue.c\<close> and \<open>multicore-glue.c\<close> do with it when the scheduler starts, switches tasks and
  stops. The addresses the linker gives to the blocks are a record, what its script promises of
  them is \<open>layout_ok\<close>. The theorems: the start-up code builds the blocks of both cores, a core's
  thread pointer is that of the task it switched to last, the second core is up before the first
  one goes on, and stopping the scheduler does not restore the thread pointer.
\<close>

section \<open>Memory\<close>

definition load_word :: "memory \<Rightarrow> addr \<Rightarrow> word32" where
  "load_word m a = ucast (load 4 m a)"

definition store_word :: "memory \<Rightarrow> addr \<Rightarrow> word32 \<Rightarrow> memory" where
  "store_word m a v = store 4 m a (ucast v)"

text \<open>The functions of the C library, for areas that do not overlap.\<close>

definition memcpy :: "addr \<Rightarrow> addr \<Rightarrow> word32 \<Rightarrow> memory \<Rightarrow> memory" where
  "memcpy dst src n m = (\<lambda>a. if a - dst < n then m (src + (a - dst)) else m a)"

definition memset :: "addr \<Rightarrow> word8 \<Rightarrow> word32 \<Rightarrow> memory \<Rightarrow> memory" where
  "memset dst v n m = (\<lambda>a. if a - dst < n then v else m a)"

text \<open>Two areas that have no byte in common, distances taken around the address space.\<close>

definition apart :: "addr \<Rightarrow> word32 \<Rightarrow> addr \<Rightarrow> word32 \<Rightarrow> bool" where
  "apart a n b k \<longleftrightarrow> n \<le> b - a \<and> k \<le> a - b"

section \<open>Core local storage\<close>

text \<open>The symbols of the linker script and the variables of section \<open>.core_data\<close>.\<close>

record image_layout =
  core_data :: addr
  core_data_size :: word32
  core_0 :: addr
  core_1 :: addr
  tls_block_offset :: word32
  arm32_tls_tcb_offset :: word32
  tdata_source :: addr
  tdata_size :: word32
  tbss_size :: word32
  tbss_offset :: word32
  tls_var :: addr
  old_tls_var :: addr

definition NUM_CORES :: word32 where "NUM_CORES = 2"

definition aeabi_read_core_cls :: "image_layout \<Rightarrow> word32 \<Rightarrow> addr" where
  "aeabi_read_core_cls L k = (if k = 0 then core_0 L else core_1 L)"

text \<open>\<open>c\<close> is the core that runs, the register at \<open>0xd0000000\<close>.\<close>

definition aeabi_read_cls :: "image_layout \<Rightarrow> word32 \<Rightarrow> addr" where
  "aeabi_read_cls L c = (if c = 0 then core_0 L else core_1 L)"

definition cls_offset :: "image_layout \<Rightarrow> addr \<Rightarrow> word32" where
  "cls_offset L datum = datum - core_data L"

definition cls_datum_ptr :: "image_layout \<Rightarrow> word32 \<Rightarrow> addr \<Rightarrow> addr" where
  "cls_datum_ptr L c datum = aeabi_read_cls L c + cls_offset L datum"

definition cls_datum_core_ptr :: "image_layout \<Rightarrow> word32 \<Rightarrow> addr \<Rightarrow> addr" where
  "cls_datum_core_ptr L k datum = aeabi_read_core_cls L k + cls_offset L datum"

section \<open>Thread local storage\<close>

definition aeabi_read_tp :: "image_layout \<Rightarrow> word32 \<Rightarrow> memory \<Rightarrow> addr" where
  "aeabi_read_tp L c m = load_word m (aeabi_read_cls L c + (tls_var L - core_data L))"

definition set_tls :: "image_layout \<Rightarrow> word32 \<Rightarrow> addr \<Rightarrow> memory \<Rightarrow> memory" where
  "set_tls L c t m = store_word m (cls_datum_ptr L c (tls_var L)) (t - arm32_tls_tcb_offset L)"

definition init_tls :: "image_layout \<Rightarrow> addr \<Rightarrow> memory \<Rightarrow> memory" where
  "init_tls L t m = memset (t + tbss_offset L) 0 (tbss_size L) (memcpy t (tdata_source L) (tdata_size L) m)"

definition cls_tls_init_core :: "image_layout \<Rightarrow> word32 \<Rightarrow> memory \<Rightarrow> memory" where
  "cls_tls_init_core L k m =
    (let m = memcpy (aeabi_read_core_cls L k) (core_data L) (core_data_size L) m;
         m = init_tls L (aeabi_read_core_cls L k + tls_block_offset L) m
     in store_word m (cls_datum_core_ptr L k (tls_var L))
          (aeabi_read_core_cls L k + tls_block_offset L - arm32_tls_tcb_offset L))"

definition cls_tls_init :: "image_layout \<Rightarrow> memory \<Rightarrow> memory" where
  "cls_tls_init L m = fold (\<lambda>k. cls_tls_init_core L (of_nat k)) [0..<unat NUM_CORES] m"

section \<open>The hooks of the scheduler\<close>

text \<open>\<open>tls_of\<close> reads the field \<open>tls\<close> of a task.\<close>

definition scheduler_tls_init_hook :: "image_layout \<Rightarrow> addr \<Rightarrow> memory \<Rightarrow> memory" where
  "scheduler_tls_init_hook L t m = init_tls L t m"

definition switch_hook :: "image_layout \<Rightarrow> (addr \<Rightarrow> addr) \<Rightarrow> word32 \<Rightarrow> addr \<Rightarrow> memory \<Rightarrow> memory" where
  "switch_hook L tls_of c task m = set_tls L c (if task \<noteq> 0 then tls_of task else 0) m"


text \<open>
  What starting and stopping the scheduler on core \<open>c\<close> writes: memory, the system control register
  and the tick timer of the core. The functions of the SDK and the hook of \<open>multicore-glue.c\<close> are
  parameters.
\<close>

record glue =
  g_ram :: memory
  scb_scr :: "word32 \<Rightarrow> word32"
  systick_load :: "word32 \<Rightarrow> word32"
  systick_val :: "word32 \<Rightarrow> word32"
  systick_ctrl :: "word32 \<Rightarrow> word32"

record glue_sdk =
  nvic_set_priority :: "int \<Rightarrow> word32 \<Rightarrow> glue \<Rightarrow> glue"
  set_systick_handler :: "glue \<Rightarrow> glue"
  startup_next :: "glue \<Rightarrow> glue"
  shutdown_next :: "glue \<Rightarrow> glue"
  system_core_clock :: word32

definition SCHEDULER_PENDSV_PRIORITY :: word32 where "SCHEDULER_PENDSV_PRIORITY = 3"
definition SCHEDULER_SVC_PRIORITY :: word32 where "SCHEDULER_SVC_PRIORITY = SCHEDULER_PENDSV_PRIORITY - 1"
definition SCHEDULER_SYSTICK_PRIORITY :: word32 where "SCHEDULER_SYSTICK_PRIORITY = 0"

definition scheduler_startup_hook :: "image_layout \<Rightarrow> glue_sdk \<Rightarrow> word32 \<Rightarrow> glue \<Rightarrow> glue" where
  "scheduler_startup_hook L P c w =
    (let w = nvic_set_priority P (- 2) SCHEDULER_PENDSV_PRIORITY w;
         w = nvic_set_priority P (- 5) SCHEDULER_SVC_PRIORITY w;
         w = nvic_set_priority P (- 1) SCHEDULER_SYSTICK_PRIORITY w;
         w = w\<lparr>scb_scr := (scb_scr w)(c := 16)\<rparr>;
         w = set_systick_handler P w;
         w = w\<lparr>g_ram := store_word (g_ram w) (cls_datum_ptr L c (old_tls_var L)) (aeabi_read_tp L c (g_ram w))\<rparr>;
         w = w\<lparr>systick_load := (systick_load w)(c := system_core_clock P div 1000 - 1)\<rparr>;
         w = w\<lparr>systick_val := (systick_val w)(c := 0)\<rparr>;
         w = w\<lparr>systick_ctrl := (systick_ctrl w)(c := 4 OR 2 OR 1)\<rparr>
     in startup_next P w)"

definition scheduler_shutdown_hook :: "image_layout \<Rightarrow> glue_sdk \<Rightarrow> word32 \<Rightarrow> glue \<Rightarrow> glue" where
  "scheduler_shutdown_hook L P c w =
    (let w = w\<lparr>systick_ctrl := (systick_ctrl w)(c := 0)\<rparr>;
         w = w\<lparr>g_ram := set_tls L c (load_word (g_ram w) (cls_datum_ptr L c (old_tls_var L))) (g_ram w)\<rparr>
     in shutdown_next P w)"

section \<open>Starting the second core\<close>

text \<open>
  \<open>multicore_startup_hook\<close> on both cores, one access of a mask register at a time: the calls of
  \<open>pico-atomic.c\<close> are atomic (theory Pico_Atomic). Core 0 stands before the access its state
  names; core 1 sleeps until it is launched, then runs \<open>multicore_start\<close> up to its own hook.
\<close>

datatype start_0 = Masking_0 | Masking_1 | Launching | Spinning | Unmasking | Started
datatype start_1 = Asleep | Arriving | Up

record start_state =
  proc0_nmi_mask :: word32
  proc1_nmi_mask :: word32
  at_0 :: start_0
  at_1 :: start_1

definition SIO_IRQ_PROC0 :: nat where "SIO_IRQ_PROC0 = 15"
definition SIO_IRQ_PROC1 :: nat where "SIO_IRQ_PROC1 = 16"

definition start_step_0 :: "start_state \<Rightarrow> start_state" where
  "start_step_0 s = (case at_0 s of
     Masking_0 \<Rightarrow> s\<lparr>proc0_nmi_mask := proc0_nmi_mask s AND NOT (push_bit SIO_IRQ_PROC0 1), at_0 := Masking_1\<rparr>
   | Masking_1 \<Rightarrow> s\<lparr>proc1_nmi_mask := proc1_nmi_mask s AND NOT (push_bit SIO_IRQ_PROC1 1), at_0 := Launching\<rparr>
   | Launching \<Rightarrow> s\<lparr>at_0 := Spinning, at_1 := Arriving\<rparr>
   | Spinning \<Rightarrow> if proc1_nmi_mask s AND push_bit SIO_IRQ_PROC1 1 = 0 then s else s\<lparr>at_0 := Unmasking\<rparr>
   | Unmasking \<Rightarrow> s\<lparr>proc0_nmi_mask := proc0_nmi_mask s OR push_bit SIO_IRQ_PROC0 1, at_0 := Started\<rparr>
   | Started \<Rightarrow> s)"

definition start_step_1 :: "start_state \<Rightarrow> start_state" where
  "start_step_1 s = (case at_1 s of
     Asleep \<Rightarrow> s
   | Arriving \<Rightarrow> s\<lparr>proc1_nmi_mask := proc1_nmi_mask s OR push_bit SIO_IRQ_PROC1 1, at_1 := Up\<rparr>
   | Up \<Rightarrow> s)"

definition start_run :: "nat list \<Rightarrow> start_state \<Rightarrow> start_state" where
  "start_run cs s = fold (\<lambda>c. if c = 0 then start_step_0 else start_step_1) cs s"

section \<open>Areas\<close>

lemma wrap_sub: "u < d \<Longrightarrow> unat (u - d) = unat u + 2 ^ 32 - unat d" for u d :: word32
  by (simp add: unat_sub_if' word_less_nat_alt)

lemma apartD:
  assumes "apart a n b k" and "x - a < n"
  shows "\<not> x - b < k"
proof
  assume "x - b < k"
  define u d where "u = x - a" and "d = b - a"
  have eq: "x - b = u - d" "a - b = 0 - d" by (simp_all add: u_def d_def)
  have "u < d" "u - d < k" "k \<le> 0 - d"
    using assms \<open>x - b < k\<close> unfolding apart_def eq [symmetric] by (auto simp: u_def d_def)
  then show False using wrap_sub [of u d] wrap_sub [of 0 d] by (auto simp: word_less_nat_alt word_le_nat_alt)
qed

lemma memcpy_in: "i < n \<Longrightarrow> memcpy dst src n m (dst + i) = m (src + i)"
  and memset_in: "i < n \<Longrightarrow> memset dst v n m (dst + i) = v"
  by (simp_all add: memcpy_def memset_def)

lemma memcpy_out: "\<not> a - dst < n \<Longrightarrow> memcpy dst src n m a = m a"
  and memset_out: "\<not> a - dst < n \<Longrightarrow> memset dst v n m a = m a"
  by (simp_all add: memcpy_def memset_def)

lemma bytes_iff: "n \<le> 4 \<Longrightarrow> b \<in> bytes n a \<longleftrightarrow> b - a < of_nat n"
proof (induction n arbitrary: a)
  case (Suc n)
  have nat: "unat (of_nat (Suc n) :: word32) = Suc n" "unat (of_nat n :: word32) = n"
    using Suc.prems by (simp_all add: unat_of_nat del: of_nat_Suc)
  have "b - a < of_nat (Suc n) \<longleftrightarrow> b = a \<or> b - (a + 1) < of_nat n"
  proof (cases "b = a")
    case False
    have eq: "b - (a + 1) = (b - a) - 1" by (simp only: diff_diff_eq)
    have "unat (b - (a + 1)) = unat (b - a) - 1"
      unfolding eq by (rule unat_minus_one) (use False in simp)
    moreover have "unat (b - a) \<noteq> 0" using False by (simp add: unat_eq_0)
    ultimately show ?thesis using False nat unfolding word_less_nat_alt by auto
  next
    case True
    then show ?thesis using nat unfolding word_less_nat_alt by simp
  qed
  then show ?case using Suc.IH [of "a + 1"] Suc.prems by simp
qed simp

lemma load_store_word [simp]: "load_word (store_word m a v) a = v"
  by (simp add: load_word_def store_word_def load_store ucast_take)

lemma store_word_out: "\<not> b - a < 4 \<Longrightarrow> store_word m a v b = m b"
  using bytes_iff [of 4 b a] by (simp add: store_word_def store_outside)

lemma load_word_cong:
  assumes "\<And>b. b - a < 4 \<Longrightarrow> m b = m' b"
  shows "load_word m a = load_word m' a"
  using assms bytes_iff [of 4 _ a] by (auto simp: load_word_def intro!: arg_cong [where f = ucast] load_cong)


text \<open>Whether an offset lies in an area of a block.\<close>

lemma off_in:
  fixes x p n :: word32
  assumes "unat p + unat n < 2 ^ 32"
  shows "x - p < n \<longleftrightarrow> unat p \<le> unat x \<and> unat x < unat p + unat n"
  using assms unsigned_less [of x] by (auto simp: word_less_nat_alt unat_sub_if')

section \<open>The layout\<close>

text \<open>What the linker script sets aside for a core.\<close>

definition block_span :: "image_layout \<Rightarrow> word32" where
  "block_span L = tls_block_offset L + tbss_offset L + tbss_size L"

definition var_ok :: "image_layout \<Rightarrow> addr \<Rightarrow> bool" where
  "var_ok L v \<longleftrightarrow> unat (cls_offset L v) + 4 \<le> unat (core_data_size L)"

definition layout_ok :: "image_layout \<Rightarrow> bool" where
  "layout_ok L \<longleftrightarrow>
     core_data_size L \<le> tls_block_offset L \<and> tdata_size L \<le> tbss_offset L \<and>
     unat (tls_block_offset L) + unat (tbss_offset L) + unat (tbss_size L) < 2 ^ 32 \<and>
     apart (core_0 L) (block_span L) (core_1 L) (block_span L) \<and>
     (\<forall>b\<in>{core_0 L, core_1 L}. apart (core_data L) (core_data_size L) b (block_span L) \<and>
        apart (tdata_source L) (tdata_size L) b (block_span L)) \<and>
     var_ok L (tls_var L) \<and> var_ok L (old_tls_var L) \<and> apart (tls_var L) 4 (old_tls_var L) 4"

lemma areas_apart_sym: "apart a n b k = apart b k a n"
  by (auto simp: apart_def)

lemma span_nat:
  assumes "layout_ok L"
  shows "unat (block_span L) = unat (tls_block_offset L) + unat (tbss_offset L) + unat (tbss_size L)"
  using assms by (simp add: layout_ok_def block_span_def unat_word_ariths)

text \<open>The block of core \<open>k\<close> keeps clear of the sources.\<close>

lemma source_outside:
  assumes "layout_ok L"
  shows "i < core_data_size L \<Longrightarrow> \<not> core_data L + i - aeabi_read_core_cls L k < block_span L"
    "i < tdata_size L \<Longrightarrow> \<not> tdata_source L + i - aeabi_read_core_cls L k < block_span L"
  using assms by (auto simp: layout_ok_def aeabi_read_core_cls_def dest!: apartD [where x = "_ + i"])

lemma init_core:
  fixes m :: memory
  assumes L: "layout_ok L" and B: "B = aeabi_read_core_cls L k"
  defines "m' \<equiv> cls_tls_init_core L k m"
  shows "i < core_data_size L \<Longrightarrow> \<not> i - cls_offset L (tls_var L) < 4 \<Longrightarrow> m' (B + i) = m (core_data L + i)"
    "i < tdata_size L \<Longrightarrow> m' (B + tls_block_offset L + i) = m (tdata_source L + i)"
    "i < tbss_size L \<Longrightarrow> m' (B + tls_block_offset L + tbss_offset L + i) = 0"
    "load_word m' (B + cls_offset L (tls_var L)) = B + tls_block_offset L - arm32_tls_tcb_offset L"
    "\<not> a - B < block_span L \<Longrightarrow> m' a = m a"
proof -
  let ?V = "cls_offset L (tls_var L)"
  let ?T = "tls_block_offset L"
  let ?TU = "tls_block_offset L + tbss_offset L"
  let ?m1 = "memcpy B (core_data L) (core_data_size L) m"
  let ?m2 = "memcpy (B + ?T) (tdata_source L) (tdata_size L) ?m1"
  let ?m3 = "memset (B + ?TU) 0 (tbss_size L) ?m2"
  have m': "m' = store_word ?m3 (B + ?V) (B + ?T - arm32_tls_tcb_offset L)"
    by (simp add: m'_def cls_tls_init_core_def init_tls_def Let_def B cls_datum_core_ptr_def add.assoc)
  have sz: "unat ?V + 4 \<le> unat (core_data_size L)" "unat (core_data_size L) \<le> unat ?T"
      "unat (tdata_size L) \<le> unat (tbss_offset L)"
      "unat ?T + unat (tbss_offset L) + unat (tbss_size L) < 2 ^ 32"
    using L by (auto simp: layout_ok_def var_ok_def word_le_nat_alt)
  have TU: "unat ?TU = unat ?T + unat (tbss_offset L)" using sz(4) by (simp add: unat_word_ariths)
  have areas: "x - ?V < 4 \<longleftrightarrow> unat ?V \<le> unat x \<and> unat x < unat ?V + 4"
      "x - ?T < tdata_size L \<longleftrightarrow> unat ?T \<le> unat x \<and> unat x < unat ?T + unat (tdata_size L)"
      "x - ?TU < tbss_size L \<longleftrightarrow> unat ?TU \<le> unat x \<and> unat x < unat ?TU + unat (tbss_size L)" for x
    using sz TU off_in [of ?V 4 x] off_in [of ?T "tdata_size L" x] off_in [of ?TU "tbss_size L" x] by auto
  have shift: "B + x - (B + y) = x - y" for x y :: word32 by simp
  have at: "m' (B + x) = (if x < core_data_size L then m (core_data L + x) else
      if x - ?TU < tbss_size L then 0 else if x - ?T < tdata_size L then ?m1 (tdata_source L + (x - ?T)) else m (B + x))"
    if "\<not> x - ?V < 4" for x
  proof -
    have "m' (B + x) = ?m3 (B + x)" unfolding m' using that by (intro store_word_out) (simp only: shift, simp)
    then show ?thesis using sz TU unfolding memset_def memcpy_def shift areas
      by (simp add: word_less_nat_alt [of x "core_data_size L"])
  qed
  show "m' (B + i) = m (core_data L + i)" if "i < core_data_size L" "\<not> i - ?V < 4" for i
    using at [OF that(2)] that(1) by simp
  show "m' (B + ?T + i) = m (tdata_source L + i)" if "i < tdata_size L" for i
  proof -
    have i: "unat (?T + i) = unat ?T + unat i" "unat i < unat (tdata_size L)"
      using sz that by (auto simp: unat_word_ariths word_less_nat_alt)
    have "\<not> ?T + i - ?V < 4" "\<not> ?T + i < core_data_size L" "\<not> ?T + i - ?TU < tbss_size L"
      using i sz TU unfolding areas by (auto simp: word_less_nat_alt)
    moreover have "?m1 (tdata_source L + i) = m (tdata_source L + i)"
    proof (rule memcpy_out)
      have "unat (tdata_source L + i - B) < unat (core_data_size L) \<Longrightarrow> tdata_source L + i - B < block_span L"
        using sz span_nat [OF L] by (simp add: word_less_nat_alt)
      then show "\<not> tdata_source L + i - B < core_data_size L"
        using source_outside(2) [OF L that, of k] unfolding B by (auto simp: word_less_nat_alt)
    qed
    ultimately show ?thesis using at [of "?T + i"] that by (simp add: add.assoc)
  qed
  show "m' (B + ?T + tbss_offset L + i) = 0" if "i < tbss_size L" for i
  proof -
    have i: "unat (?TU + i) = unat ?TU + unat i"
      using sz TU that by (auto simp: unat_word_ariths word_less_nat_alt)
    have "\<not> ?TU + i - ?V < 4" "\<not> ?TU + i < core_data_size L"
      using i sz TU unfolding areas by (auto simp: word_less_nat_alt)
    then show ?thesis using at [of "?TU + i"] that by (simp add: add.assoc)
  qed
  show "load_word m' (B + ?V) = B + ?T - arm32_tls_tcb_offset L" by (simp add: m')
  show "m' a = m a" if "\<not> a - B < block_span L" for a
  proof -
    let ?x = "a - B"
    have x: "unat ?x \<ge> unat ?T + unat (tbss_offset L) + unat (tbss_size L)"
      using that span_nat [OF L] by (simp add: word_less_nat_alt)
    then have "\<not> ?x - ?V < 4" "\<not> ?x < core_data_size L" "\<not> ?x - ?TU < tbss_size L" "\<not> ?x - ?T < tdata_size L"
      using sz TU unfolding areas by (auto simp: word_less_nat_alt)
    then show ?thesis using at [of ?x] by simp
  qed
qed


lemma cls_tls_init_eq: "cls_tls_init L m = cls_tls_init_core L 1 (cls_tls_init_core L 0 m)"
  by (simp add: cls_tls_init_def NUM_CORES_def upt_rec)

text \<open>The block of one core lies outside the block of the other.\<close>

lemma other_block:
  assumes L: "layout_ok L" and "k = 0 \<longleftrightarrow> j \<noteq> 0" and "x < block_span L"
  shows "\<not> aeabi_read_core_cls L k + x - aeabi_read_core_cls L j < block_span L"
  using assms apartD [of "aeabi_read_core_cls L k" "block_span L" "aeabi_read_core_cls L j" "block_span L"]
  by (auto simp: layout_ok_def aeabi_read_core_cls_def areas_apart_sym)

section \<open>Thread pointers\<close>

lemma cls_same: "aeabi_read_cls = aeabi_read_core_cls"
  by (simp add: fun_eq_iff aeabi_read_cls_def aeabi_read_core_cls_def)

lemma tp_eq: "aeabi_read_tp L c m = load_word m (cls_datum_ptr L c (tls_var L))"
  by (simp add: aeabi_read_tp_def cls_datum_ptr_def cls_offset_def)

lemma read_set_tls: "aeabi_read_tp L c (set_tls L c t m) = t - arm32_tls_tcb_offset L"
  by (simp add: tp_eq set_tls_def)

text \<open>A word of one core's variables is apart from those of the other core.\<close>

lemma var_in_span:
  assumes "layout_ok L" "var_ok L v" "x < 4"
  shows "cls_offset L v + x < block_span L"
proof -
  have "unat (cls_offset L v + x) = unat (cls_offset L v) + unat x" "unat x < 4"
    using assms by (auto simp: layout_ok_def var_ok_def unat_word_ariths word_less_nat_alt word_le_nat_alt)
  then show ?thesis using assms span_nat [OF assms(1)]
    by (auto simp: layout_ok_def var_ok_def word_less_nat_alt word_le_nat_alt)
qed

lemma other_var:
  assumes L: "layout_ok L" and k: "k = 0 \<longleftrightarrow> j \<noteq> 0" and "var_ok L v" "var_ok L w" "x < 4"
  shows "\<not> cls_datum_ptr L k v + x - cls_datum_ptr L j w < 4"
proof
  let ?a = "cls_datum_ptr L k v + x"
  assume *: "?a - cls_datum_ptr L j w < 4"
  let ?y = "?a - cls_datum_ptr L j w"
  have y: "cls_offset L w + ?y < block_span L" using L assms(4) * by (rule var_in_span)
  have eq: "?a - aeabi_read_core_cls L j = cls_offset L w + ?y"
    by (simp add: cls_datum_ptr_def cls_same algebra_simps)
  have "\<not> ?a - aeabi_read_core_cls L j < block_span L"
    using other_block [OF L k var_in_span [OF L assms(3,5)]] by (simp add: cls_datum_ptr_def cls_same add.assoc)
  then show False using y unfolding eq by (rule notE)
qed

lemma store_other_var:
  assumes "layout_ok L" "k = 0 \<longleftrightarrow> j \<noteq> 0" "var_ok L v" "var_ok L w"
  shows "load_word (store_word m (cls_datum_ptr L j w) x) (cls_datum_ptr L k v) = load_word m (cls_datum_ptr L k v)"
proof (rule load_word_cong)
  fix b
  assume "b - cls_datum_ptr L k v < 4"
  then show "store_word m (cls_datum_ptr L j w) x b = m b"
    using other_var [OF assms, of "b - cls_datum_ptr L k v"] by (intro store_word_out) simp
qed

lemma tls_ok: "layout_ok L \<Longrightarrow> var_ok L (tls_var L)" "layout_ok L \<Longrightarrow> var_ok L (old_tls_var L)"
  by (simp_all add: layout_ok_def)

lemma read_other_tls:
  assumes "layout_ok L" "k = 0 \<longleftrightarrow> j \<noteq> 0"
  shows "aeabi_read_tp L k (set_tls L j t m) = aeabi_read_tp L k m"
  using assms by (simp add: tp_eq set_tls_def store_other_var tls_ok)

text \<open>The start-up code, block by block.\<close>

lemma cls_tls_init_reads:
  assumes L: "layout_ok L" and k: "k = 0 \<or> k = 1"
    and x: "x < block_span L"
  shows "cls_tls_init L m (aeabi_read_core_cls L k + x) =
    cls_tls_init_core L k (if k = 0 then m else cls_tls_init_core L 0 m) (aeabi_read_core_cls L k + x)"
proof (cases "k = 0")
  case True
  have "\<not> aeabi_read_core_cls L k + x - aeabi_read_core_cls L 1 < block_span L"
    using True by (intro other_block [OF L _ x]) simp
  then show ?thesis using init_core(5) [OF L refl, of _ 1] True by (simp add: cls_tls_init_eq)
next
  case False
  then show ?thesis using k by (simp add: cls_tls_init_eq)
qed



text \<open>The initial values of the core local variables.\<close>

lemma core_data_copied:
  assumes L: "layout_ok L" and k: "k = 0 \<or> k = 1" and i: "i < core_data_size L" "\<not> i - cls_offset L (tls_var L) < 4"
  shows "cls_tls_init L m (aeabi_read_core_cls L k + i) = m (core_data L + i)"
proof -
  let ?m0 = "if k = 0 then m else cls_tls_init_core L 0 m"
  have "i < block_span L" using L i(1) span_nat [OF L] by (auto simp: layout_ok_def word_less_nat_alt word_le_nat_alt)
  moreover have "?m0 (core_data L + i) = m (core_data L + i)"
    using source_outside(1) [OF L i(1)] init_core(5) [OF L refl] by simp
  ultimately show ?thesis using cls_tls_init_reads [OF L k] init_core(1) [OF L refl i, of k ?m0] by simp
qed

lemma load_word_shift:
  assumes "\<And>i. i < 4 \<Longrightarrow> m (a + i) = m' (b + i)"
  shows "load_word m a = load_word m' b"
proof -
  have four: "(4 :: nat) = Suc (Suc (Suc (Suc 0)))" by simp
  show ?thesis using assms [of 0] assms [of 1] assms [of 2] assms [of 3]
    unfolding load_word_def four load.simps by (simp add: add.assoc)
qed

section \<open>The hooks\<close>

lemma tp_cong: "g_ram w = g_ram w' \<Longrightarrow> aeabi_read_tp L c (g_ram w) = aeabi_read_tp L c (g_ram w')"
  by simp

text \<open>The saved thread pointer lies beside the current one.\<close>

lemma own_vars:
  assumes "layout_ok L"
  shows "load_word (store_word m (cls_datum_ptr L c (tls_var L)) x) (cls_datum_ptr L c (old_tls_var L)) =
      load_word m (cls_datum_ptr L c (old_tls_var L))"
    "load_word (store_word m (cls_datum_ptr L c (old_tls_var L)) x) (cls_datum_ptr L c (tls_var L)) =
      load_word m (cls_datum_ptr L c (tls_var L))"
proof -
  have p: "apart (cls_datum_ptr L c (tls_var L)) 4 (cls_datum_ptr L c (old_tls_var L)) 4"
    using assms by (simp add: layout_ok_def apart_def cls_datum_ptr_def cls_offset_def)
  show "load_word (store_word m (cls_datum_ptr L c (tls_var L)) x) (cls_datum_ptr L c (old_tls_var L)) =
      load_word m (cls_datum_ptr L c (old_tls_var L))"
    using apartD [OF p] by (intro load_word_cong store_word_out) blast
  show "load_word (store_word m (cls_datum_ptr L c (old_tls_var L)) x) (cls_datum_ptr L c (tls_var L)) =
      load_word m (cls_datum_ptr L c (tls_var L))"
    using apartD [OF p] by (intro load_word_cong store_word_out) blast
qed

text \<open>A sequence of task switches, each on its core.\<close>

definition switches :: "image_layout \<Rightarrow> (addr \<Rightarrow> addr) \<Rightarrow> (word32 \<times> addr) list \<Rightarrow> memory \<Rightarrow> memory" where
  "switches L tls_of ts m = fold (\<lambda>(c, task). switch_hook L tls_of c task) ts m"

definition last_tls :: "(addr \<Rightarrow> addr) \<Rightarrow> word32 \<Rightarrow> (word32 \<times> addr) list \<Rightarrow> addr option" where
  "last_tls tls_of c ts = fold (\<lambda>(k, task) r. if k = c then Some (if task \<noteq> 0 then tls_of task else 0) else r) ts None"

lemma last_tls_append:
  "last_tls tls_of c (ts @ [(k, task)]) =
    (if k = c then Some (if task \<noteq> 0 then tls_of task else 0) else last_tls tls_of c ts)"
  by (simp add: last_tls_def)

lemma switches_append: "switches L tls_of (ts @ [(k, task)]) m = switch_hook L tls_of k task (switches L tls_of ts m)"
  by (simp add: switches_def)

lemma switches_tp:
  assumes L: "layout_ok L" and "c < 2" and "\<forall>(k, task)\<in>set ts. k < 2"
  shows "aeabi_read_tp L c (switches L tls_of ts m) = (case last_tls tls_of c ts of
      None \<Rightarrow> aeabi_read_tp L c m | Some t \<Rightarrow> t - arm32_tls_tcb_offset L)"
  using assms(3)
proof (induction ts rule: rev_induct)
  case Nil
  then show ?case by (simp add: switches_def last_tls_def)
next
  case (snoc e ts)
  obtain k task where e: "e = (k, task)" by (cases e)
  have IH: "aeabi_read_tp L c (switches L tls_of ts m) = (case last_tls tls_of c ts of
      None \<Rightarrow> aeabi_read_tp L c m | Some t \<Rightarrow> t - arm32_tls_tcb_offset L)"
    using snoc by simp
  show ?case
  proof (cases "k = c")
    case True
    then show ?thesis by (simp add: e switches_append last_tls_append switch_hook_def read_set_tls)
  next
    case False
    have "k < 2" using snoc.prems e by simp
    then have "c = 0 \<longleftrightarrow> k \<noteq> 0" using False \<open>c < 2\<close> by (auto simp: word_less_nat_alt word_unat_eq_iff)
    then show ?thesis using IH False
      by (simp add: e switches_append last_tls_append switch_hook_def read_other_tls [OF L])
  qed
qed

text \<open>Switching tasks leaves the saved thread pointers alone.\<close>

lemma switches_old:
  assumes L: "layout_ok L" and "c < 2" and "\<forall>(k, task)\<in>set ts. k < 2"
  shows "load_word (switches L tls_of ts m) (cls_datum_ptr L c (old_tls_var L)) =
    load_word m (cls_datum_ptr L c (old_tls_var L))"
  using assms(3)
proof (induction ts rule: rev_induct)
  case (snoc e ts)
  obtain k task where e: "e = (k, task)" by (cases e)
  have "k < 2" using snoc.prems e by simp
  then have "c = k \<or> (c = 0 \<longleftrightarrow> k \<noteq> 0)" using \<open>c < 2\<close> by (auto simp: word_less_nat_alt word_unat_eq_iff)
  then show ?case using snoc tls_ok [OF L]
    by (auto simp: e switches_append switch_hook_def set_tls_def own_vars [OF L] store_other_var [OF L])
qed (simp add: switches_def)


section \<open>The second core\<close>

definition start_init :: "word32 \<Rightarrow> word32 \<Rightarrow> start_state" where
  "start_init m0 m1 = \<lparr>proc0_nmi_mask = m0, proc1_nmi_mask = m1, at_0 = Masking_0, at_1 = Asleep\<rparr>"

definition start_inv :: "word32 \<Rightarrow> word32 \<Rightarrow> start_state \<Rightarrow> bool" where
  "start_inv m0 m1 s \<longleftrightarrow>
     proc0_nmi_mask s = (if at_0 s = Masking_0 then m0 else if at_0 s = Started then m0 OR push_bit SIO_IRQ_PROC0 1
       else m0 AND NOT (push_bit SIO_IRQ_PROC0 1)) \<and>
     proc1_nmi_mask s = (if at_1 s = Up then m1 OR push_bit SIO_IRQ_PROC1 1 else if at_0 s \<in> {Masking_0, Masking_1} then m1
       else m1 AND NOT (push_bit SIO_IRQ_PROC1 1)) \<and>
     (at_1 s = Asleep \<longleftrightarrow> at_0 s \<in> {Masking_0, Masking_1, Launching}) \<and> (at_0 s \<in> {Unmasking, Started} \<longrightarrow> at_1 s = Up)"

lemma irq_small [simp]: "SIO_IRQ_PROC0 < 32" "SIO_IRQ_PROC1 < 32"
  by (simp_all add: SIO_IRQ_PROC0_def SIO_IRQ_PROC1_def)

lemma mask_bits:
  fixes v :: word32
  assumes "k < 32"
  shows "bit (v AND NOT (push_bit k 1)) n \<longleftrightarrow> bit v n \<and> n \<noteq> k" "bit (v OR push_bit k 1) n \<longleftrightarrow> bit v n \<or> n = k"
    "v AND push_bit k 1 = 0 \<longleftrightarrow> \<not> bit v k" "push_bit k 1 \<noteq> (0 :: word32)"
  using assms by (auto simp: bit_simps push_bit_of_1 and_exp_eq_0_iff_not_bit bit_eq_iff [of _ 0] dest: bit_imp_le_length)

lemmas start_defs = start_step_0_def start_step_1_def

lemma mask_and_set:
  fixes v :: word32
  assumes "k < 32"
  shows "(v AND NOT (push_bit k 1)) OR push_bit k 1 = v OR push_bit k 1" "(v OR push_bit k 1) AND push_bit k 1 \<noteq> 0"
    "(v AND NOT (push_bit k 1)) AND push_bit k 1 = 0"
  using assms by (auto intro!: bit_word_eqI simp: mask_bits simp del: push_bit_of_1)

lemma start_inv_step:
  assumes "start_inv m0 m1 s"
  shows "start_inv m0 m1 (start_step_0 s)" "start_inv m0 m1 (start_step_1 s)"
proof -
  show "start_inv m0 m1 (start_step_0 s)" using assms unfolding start_inv_def start_step_0_def
    by (cases "at_0 s"; cases "at_1 s") (auto simp: mask_and_set simp del: push_bit_of_1)
  show "start_inv m0 m1 (start_step_1 s)" using assms unfolding start_inv_def start_step_1_def
    by (cases "at_1 s") (auto simp: mask_and_set simp del: push_bit_of_1)
qed

lemma start_inv_run: "start_inv m0 m1 (start_run cs (start_init m0 m1))"
proof (induction cs rule: rev_induct)
  case Nil
  then show ?case by (simp add: start_run_def start_init_def start_inv_def)
next
  case (snoc c cs)
  then show ?case using start_inv_step [of m0 m1] by (simp add: start_run_def)
qed

lemma start_moves:
  assumes "start_inv m0 m1 s"
  shows "at_0 (start_step_0 s) = (case at_0 s of Masking_0 \<Rightarrow> Masking_1 | Masking_1 \<Rightarrow> Launching | Launching \<Rightarrow> Spinning
      | Spinning \<Rightarrow> if at_1 s = Up then Unmasking else Spinning | _ \<Rightarrow> Started)"
    "at_1 (start_step_0 s) = (if at_0 s = Launching then Arriving else at_1 s)"
    "at_0 (start_step_1 s) = at_0 s" "at_1 (start_step_1 s) = (if at_1 s = Asleep then Asleep else Up)"
proof -
  have "at_0 s = Spinning \<Longrightarrow> proc1_nmi_mask s AND push_bit SIO_IRQ_PROC1 1 = 0 \<longleftrightarrow> at_1 s \<noteq> Up"
    using assms by (cases "at_1 s") (simp_all add: start_inv_def mask_and_set mask_bits del: push_bit_of_1)
  then show "at_0 (start_step_0 s) = (case at_0 s of Masking_0 \<Rightarrow> Masking_1 | Masking_1 \<Rightarrow> Launching | Launching \<Rightarrow> Spinning
      | Spinning \<Rightarrow> if at_1 s = Up then Unmasking else Spinning | _ \<Rightarrow> Started)"
    by (cases "at_0 s") (simp_all add: start_step_0_def del: push_bit_of_1)
  show "at_1 (start_step_0 s) = (if at_0 s = Launching then Arriving else at_1 s)"
    by (cases "at_0 s") (simp_all add: start_step_0_def)
  show "at_0 (start_step_1 s) = at_0 s" "at_1 (start_step_1 s) = (if at_1 s = Asleep then Asleep else Up)"
    by (cases "at_1 s"; simp add: start_step_1_def)+
qed

lemma start_finishes:
  assumes "start_inv m0 m1 s"
  shows "at_0 (start_run [0, 0, 0, 1, 0, 0] s) = Started"
proof -
  have "(at_1 s = Asleep \<longleftrightarrow> at_0 s \<in> {Masking_0, Masking_1, Launching}) \<and> (at_0 s \<in> {Unmasking, Started} \<longrightarrow> at_1 s = Up)"
    using assms by (simp add: start_inv_def)
  then show ?thesis unfolding start_run_def
    by (cases "at_0 s"; cases "at_1 s") (simp_all add: start_moves [of m0 m1] start_inv_step assms)
qed

section \<open>The theorems\<close>

lemma core_read_back:
  assumes "layout_ok L" and "k = 0 \<or> k = 1" and "x < block_span L"
  shows "cls_tls_init L m (aeabi_read_core_cls L k + x) =
    cls_tls_init_core L k (if k = 0 then m else cls_tls_init_core L 0 m) (aeabi_read_core_cls L k + x)"
  by (rule cls_tls_init_reads [OF assms])

lemma tls_sizes:
  assumes "layout_ok L"
  shows "unat (tdata_size L) \<le> unat (tbss_offset L)" "unat (tls_block_offset L) + unat (tbss_offset L) + unat (tbss_size L) < 2 ^ 32"
  using assms by (auto simp: layout_ok_def word_le_nat_alt)

lemma core_tdata_copied:
  assumes "layout_ok L" and "k = 0 \<or> k = 1" and "i < tdata_size L"
  shows "cls_tls_init L m (aeabi_read_core_cls L k + tls_block_offset L + i) = m (tdata_source L + i)"
proof -
  let ?m0 = "if k = 0 then m else cls_tls_init_core L 0 m"
  have "tls_block_offset L + i < block_span L"
    using assms(3) tls_sizes [OF assms(1)] span_nat [OF assms(1)] by (simp add: word_less_nat_alt unat_word_ariths)
  moreover have "?m0 (tdata_source L + i) = m (tdata_source L + i)"
    using source_outside(2) [OF assms(1,3)] init_core(5) [OF assms(1) refl] by simp
  ultimately show ?thesis
    using core_read_back [OF assms(1,2), of "tls_block_offset L + i" m] init_core(2) [OF assms(1) refl assms(3), of k ?m0]
    by (simp add: add.assoc)
qed

lemma core_tbss_zero:
  assumes "layout_ok L" and "k = 0 \<or> k = 1" and "i < tbss_size L"
  shows "cls_tls_init L m (aeabi_read_core_cls L k + tls_block_offset L + tbss_offset L + i) = 0"
proof -
  let ?m0 = "if k = 0 then m else cls_tls_init_core L 0 m"
  have "tls_block_offset L + tbss_offset L + i < block_span L"
    using assms(3) tls_sizes [OF assms(1)] span_nat [OF assms(1)] by (simp add: word_less_nat_alt unat_word_ariths)
  then show ?thesis
    using core_read_back [OF assms(1,2), of "tls_block_offset L + tbss_offset L + i" m]
      init_core(3) [OF assms(1) refl assms(3), of k ?m0]
    by (simp add: add.assoc)
qed

lemma core_thread_pointer:
  assumes "layout_ok L" and "k = 0 \<or> k = 1"
  shows "aeabi_read_tp L k (cls_tls_init L m) + arm32_tls_tcb_offset L = aeabi_read_core_cls L k + tls_block_offset L"
proof -
  let ?v = "aeabi_read_core_cls L k + cls_offset L (tls_var L)"
  let ?m0 = "if k = 0 then m else cls_tls_init_core L 0 m"
  have "load_word (cls_tls_init L m) ?v = load_word (cls_tls_init_core L k ?m0) ?v"
  proof (rule load_word_cong)
    fix b
    assume "b - ?v < 4"
    then show "cls_tls_init L m b = cls_tls_init_core L k ?m0 b"
      using core_read_back [OF assms var_in_span [OF assms(1) tls_ok(1) [OF assms(1)]], of "b - ?v" m] by simp
  qed
  then show ?thesis using init_core(4) [OF assms(1) refl, of k ?m0]
    by (simp add: tp_eq cls_datum_ptr_def cls_same)
qed

lemma init_outside_blocks:
  assumes "layout_ok L" and "\<not> a - core_0 L < block_span L" and "\<not> a - core_1 L < block_span L"
  shows "cls_tls_init L m a = m a"
  using assms(2,3) init_core(5) [OF assms(1) refl, of a 0 m] init_core(5) [OF assms(1) refl, of a 1 "cls_tls_init_core L 0 m"]
  by (auto simp: cls_tls_init_eq aeabi_read_core_cls_def)

text \<open>
  C16. The start-up code gives each core its blocks: the initial values of the core local variables
  with the thread pointer set to the core's own thread local block, in which the initialised
  variables are copied and the others are zero. Nothing outside the two blocks changes.
\<close>

theorem core_storage_init:
  assumes "layout_ok L" and "k = 0 \<or> k = 1" and "aeabi_read_core_cls L k = B" and "cls_tls_init L m = m'"
  shows "(\<forall>i. i < core_data_size L \<and> \<not> i - cls_offset L (tls_var L) < 4 \<longrightarrow> m' (B + i) = m (core_data L + i)) \<and>
    (\<forall>i < tdata_size L. m' (B + tls_block_offset L + i) = m (tdata_source L + i)) \<and>
    (\<forall>i < tbss_size L. m' (B + tls_block_offset L + tbss_offset L + i) = 0) \<and>
    aeabi_read_tp L k m' + arm32_tls_tcb_offset L = B + tls_block_offset L \<and>
    (\<forall>a. \<not> a - core_0 L < block_span L \<and> \<not> a - core_1 L < block_span L \<longrightarrow> m' a = m a)"
  unfolding assms(3) [symmetric] assms(4) [symmetric]
  using core_data_copied [OF assms(1,2)] core_tdata_copied [OF assms(1,2)] core_tbss_zero [OF assms(1,2)]
    core_thread_pointer [OF assms(1,2)] init_outside_blocks [OF assms(1)]
  by blast

text \<open>
  On each core the thread pointer, taken to the block it belongs to, is that of the task the
  core switched to last, whatever the other core does; with no task it is null.
\<close>

theorem thread_pointer_last_switch:
  assumes "layout_ok L" and "c < 2" and "\<forall>(k, task)\<in>set ts. k < 2" and "last_tls tls_of c ts = Some t"
  shows "aeabi_read_tp L c (switches L tls_of ts m) + arm32_tls_tcb_offset L = t"
  using switches_tp [OF assms(1-3), of tls_of m] assms(4) by simp

text \<open>
  C40. The thread pointer of the scheduler model is the one in memory: the hook keeps
  them equal on both cores.
\<close>

theorem switch_hook_refines:
  assumes "layout_ok L" and "this_core s < 2"
    and "\<forall>c<2. aeabi_read_tp L c m + arm32_tls_tcb_offset L = c_tls (cores s c)"
  shows "\<forall>c<2. aeabi_read_tp L c (switch_hook L (\<lambda>t. tls (task_of s t)) (this_core s) task m) + arm32_tls_tcb_offset L =
    c_tls (cores (Sched_State.scheduler_switch_hook task s) c)"
proof (intro allI impI)
  fix c :: word32
  assume c: "c < 2"
  show "aeabi_read_tp L c (switch_hook L (\<lambda>t. tls (task_of s t)) (this_core s) task m) + arm32_tls_tcb_offset L =
    c_tls (cores (Sched_State.scheduler_switch_hook task s) c)"
    using switches_tp [OF assms(1) c, of "[(this_core s, task)]" "\<lambda>t. tls (task_of s t)" m] assms c
    by (simp add: switches_def last_tls_def scheduler_switch_hook_def core_upd_def split: if_splits)
qed

text \<open>
  Stopping the scheduler does not restore the thread pointer of the core: the saved value has
  the offset of the control block taken off already, and it is taken off again.
\<close>

theorem shutdown_shifts_thread_pointer:
  assumes "layout_ok L" and "c < 2" and "\<forall>(k, task)\<in>set ts. k < 2"
    and sdk: "\<And>i p w. g_ram (nvic_set_priority P i p w) = g_ram w" "\<And>w. g_ram (set_systick_handler P w) = g_ram w"
      "\<And>w. g_ram (startup_next P w) = g_ram w" "\<And>w. g_ram (shutdown_next P w) = g_ram w"
    and "scheduler_startup_hook L P c w = w1"
    and "scheduler_shutdown_hook L P c (w1\<lparr>g_ram := switches L tls_of ts (g_ram w1)\<rparr>) = w2"
  shows "aeabi_read_tp L c (g_ram w2) = aeabi_read_tp L c (g_ram w) - arm32_tls_tcb_offset L"
proof -
  have "load_word (g_ram w1) (cls_datum_ptr L c (old_tls_var L)) = aeabi_read_tp L c (g_ram w)"
    using assms(8) by (auto simp: scheduler_startup_hook_def Let_def sdk)
  then show ?thesis using assms(9) switches_old [OF assms(1-3), of tls_of "g_ram w1"]
    by (auto simp: scheduler_shutdown_hook_def Let_def sdk read_set_tls)
qed

text \<open>
  C18. Whatever the order in which the two cores take their steps, in every state \<open>s\<close> of the start:
  \<^item> the bit for interrupts from the other core is clear in the mask of core 0 from its first store
    until it leaves the hook, which is when the bit is set, and in the mask of core 1 from the
    second store of core 0 until core 1 sets it itself in its own hook; no other bit changes;
  \<^item> core 1 sleeps until both bits have been cleared, and core 0 leaves its wait, and the hook, only
    when core 1 has passed its own;
  \<^item> the start can be completed: the six steps named are enough from anywhere.
\<close>

theorem second_core_first:
  "(let s = start_run cs (start_init m0 m1); irq_0 = push_bit SIO_IRQ_PROC0 1; irq_1 = push_bit SIO_IRQ_PROC1 1
    in proc0_nmi_mask s = (case at_0 s of Masking_0 \<Rightarrow> m0 | Started \<Rightarrow> m0 OR irq_0 | _ \<Rightarrow> m0 AND NOT irq_0) \<and>
       proc1_nmi_mask s = (case at_1 s of
         Asleep \<Rightarrow> if at_0 s = Launching then m1 AND NOT irq_1 else m1 | Arriving \<Rightarrow> m1 AND NOT irq_1 | Up \<Rightarrow> m1 OR irq_1) \<and>
       (at_1 s \<noteq> Asleep \<longleftrightarrow> at_0 s \<in> {Spinning, Unmasking, Started}) \<and>
       (at_0 s \<in> {Unmasking, Started} \<longrightarrow> at_1 s = Up)) \<and>
   at_0 (start_run (cs @ [0, 0, 0, 1, 0, 0]) (start_init m0 m1)) = Started"
proof -
  let ?s = "start_run cs (start_init m0 m1)"
  have i: "start_inv m0 m1 ?s" by (rule start_inv_run)
  have "at_0 (start_run (cs @ [0, 0, 0, 1, 0, 0]) (start_init m0 m1)) = Started"
    using start_finishes [OF i] by (simp add: start_run_def)
  with i show ?thesis unfolding start_inv_def Let_def
    by (cases "at_0 ?s"; cases "at_1 ?s") (simp_all del: push_bit_of_1)
qed


section \<open>The theorems at concrete states\<close>

definition demo_layout :: image_layout where
  "demo_layout = \<lparr>core_data = 0x10005000, core_data_size = 0x20, core_0 = 0x20041000, core_1 = 0x20040000,
     tls_block_offset = 0x20, arm32_tls_tcb_offset = 8, tdata_source = 0x10005100, tdata_size = 4,
     tbss_size = 4, tbss_offset = 4, tls_var = 0x10005004, old_tls_var = 0x10005008\<rparr>"

lemma demo_layout_ok: "layout_ok demo_layout"
  by (simp add: demo_layout_def layout_ok_def var_ok_def cls_offset_def apart_def block_span_def)

definition demo_memory :: memory where
  "demo_memory = (\<lambda>a. if a = 0x10005000 then 7 else if a = 0x10005102 then 9 else 1)"

definition demo_sdk :: glue_sdk where
  "demo_sdk = \<lparr>nvic_set_priority = (\<lambda>_ _ w. w), set_systick_handler = id, startup_next = id, shutdown_next = id,
     system_core_clock = 125000000\<rparr>"

definition demo_glue :: glue where
  "demo_glue = \<lparr>g_ram = cls_tls_init demo_layout demo_memory, scb_scr = (\<lambda>_. 0), systick_load = (\<lambda>_. 0),
     systick_val = (\<lambda>_. 0), systick_ctrl = (\<lambda>_. 0)\<rparr>"

theorem core_storage_init_witness:
  "cls_tls_init demo_layout demo_memory 0x20040000 = 7 \<and> cls_tls_init demo_layout demo_memory 0x20040022 = 9 \<and>
   cls_tls_init demo_layout demo_memory 0x20040026 = 0 \<and>
   aeabi_read_tp demo_layout 1 (cls_tls_init demo_layout demo_memory) = 0x20040018"
proof -
  have a: "\<forall>i < 0x20. \<not> i - 4 < 4 \<longrightarrow> cls_tls_init demo_layout demo_memory (0x20040000 + i) = demo_memory (0x10005000 + i)"
    "\<forall>i < 4. cls_tls_init demo_layout demo_memory (0x20040020 + i) = demo_memory (0x10005100 + i)"
    "\<forall>i < 4. cls_tls_init demo_layout demo_memory (0x20040024 + i) = 0"
    "aeabi_read_tp demo_layout 1 (cls_tls_init demo_layout demo_memory) + 8 = 0x20040020"
    using core_storage_init [OF demo_layout_ok, of 1 "0x20040000" demo_memory, OF _ _ refl]
    by (simp_all add: demo_layout_def aeabi_read_core_cls_def cls_offset_def)
  have "aeabi_read_tp demo_layout 1 (cls_tls_init demo_layout demo_memory) = 0x20040020 - 8"
    using a(4) by (metis add_diff_cancel_right')
  then show ?thesis
    using a(1) [THEN spec, of 0] a(2) [THEN spec, of 2] a(3) [THEN spec, of 2] by (simp add: demo_memory_def)
qed

theorem thread_pointer_last_switch_witness:
  "aeabi_read_tp demo_layout 1 (switches demo_layout (\<lambda>t. t + 0x80) [(1, 0x20001000), (0, 0x20002000)] demo_memory) + 8
    = 0x20001080"
  using thread_pointer_last_switch [OF demo_layout_ok, of 1 "[(1, 0x20001000), (0, 0x20002000)]" "\<lambda>t. t + 0x80" "0x20001080" demo_memory]
  by (simp add: last_tls_def demo_layout_def)

theorem shutdown_shifts_thread_pointer_witness:
  "aeabi_read_tp demo_layout 1 (g_ram (scheduler_shutdown_hook demo_layout demo_sdk 1
      (scheduler_startup_hook demo_layout demo_sdk 1 demo_glue))) =
    aeabi_read_tp demo_layout 1 (g_ram demo_glue) - 8"
  using shutdown_shifts_thread_pointer [OF demo_layout_ok, of 1 "[]" demo_sdk demo_glue _ "\<lambda>_. 0"]
  by (simp add: demo_sdk_def demo_layout_def switches_def)

text \<open>Core 0 of the sample system switches to a task with its block at \<open>0x20001080\<close>.\<close>

theorem switch_hook_refines_witness:
  "aeabi_read_tp demo_layout 0 (switch_hook demo_layout (\<lambda>t. if t = 0x200 then 0x20001080 else 0) 0 0x200
      (switches demo_layout (\<lambda>_. 0) [(0, 0), (1, 0)] demo_memory)) + 8 = 0x20001080"
proof -
  let ?s = "task_upd 0x200 (\<lambda>x. x\<lparr>tls := 0x20001080\<rparr>) sample_sys"
  let ?m = "switches demo_layout (\<lambda>_. 0) [(0, 0), (1, 0)] demo_memory"
  have t: "(\<lambda>t. tls (task_of ?s t)) = (\<lambda>t. if t = 0x200 then 0x20001080 else 0)"
    by (auto simp: fun_eq_iff task_upd_def sample_sys_def sample_task_def)
  have c: "c < 2 \<Longrightarrow> c = 0 \<or> c = 1" for c :: word32
    by (auto simp: word_less_nat_alt word_unat_eq_iff)
  have "\<forall>c<2. aeabi_read_tp demo_layout c ?m + arm32_tls_tcb_offset demo_layout = c_tls (cores ?s c)"
    by (auto dest!: c simp: switches_tp [OF demo_layout_ok] last_tls_def sample_sys_def boot_core_def task_upd_def)
  then show ?thesis using switch_hook_refines [OF demo_layout_ok, where s = ?s and m = ?m and task = "0x200"] unfolding t
    by (auto simp: scheduler_switch_hook_def core_upd_def task_upd_def sample_sys_def boot_core_def demo_layout_def sample_task_def)
qed

theorem second_core_first_witness:
  "(let s = start_run [0, 0, 0, 0] (start_init 0xffffffff 0xffffffff)
    in at_0 s = Spinning \<and> at_1 s = Arriving \<and> proc0_nmi_mask s = 0xffff7fff \<and> proc1_nmi_mask s = 0xfffeffff) \<and>
   (let s = start_run [0, 0, 0, 0, 1, 0, 0] (start_init 0 0)
    in at_0 s = Started \<and> at_1 s = Up \<and> proc0_nmi_mask s = 0x8000 \<and> proc1_nmi_mask s = 0x10000)"
proof -
  have "start_run [0, 0, 0, 0] (start_init 0xffffffff 0xffffffff) =
      \<lparr>proc0_nmi_mask = 0xffff7fff, proc1_nmi_mask = 0xfffeffff, at_0 = Spinning, at_1 = Arriving\<rparr>"
    by (simp add: start_run_def start_init_def start_defs SIO_IRQ_PROC0_def SIO_IRQ_PROC1_def)
  moreover have "at_0 (start_run [0, 0, 0, 0, 1, 0, 0] (start_init 0 0)) = Started"
    by (simp add: start_run_def start_init_def start_defs SIO_IRQ_PROC0_def SIO_IRQ_PROC1_def)
  ultimately show ?thesis
    using second_core_first [of "[0, 0, 0, 0, 1, 0, 0]" 0 0] by (simp add: Let_def SIO_IRQ_PROC0_def SIO_IRQ_PROC1_def)
qed

end
