(* ===== verification/Libc_Glue.thy ===== *)
theory Libc_Glue
  imports Core_Local
begin

text \<open>
  What the C library is built on: the heap pointer of \<open>sbrk.c\<close> and the streams of \<open>iob.h\<close> and
  \<open>iob.c\<close>. The calls of \<open>sbrk\<close> are serialised by the lock of the C library (theory
  Retarget_Lock). The theorems: blocks are handed out one behind the other in multiples of eight,
  and the heap has no end.
\<close>

section \<open>The heap\<close>

text \<open>The addresses of the symbols \<open>end\<close> and \<open>__StackLimit\<close>.\<close>

record heap_syms =
  heap_end :: addr
  stack_limit :: addr

record heap_state =
  current_brk :: addr
  heap_enomem :: bool

definition sbrk_init :: "heap_syms \<Rightarrow> heap_state" where
  "sbrk_init H = \<lparr>current_brk = heap_end H, heap_enomem = False\<rparr>"

definition sbrk :: "heap_syms \<Rightarrow> word32 \<Rightarrow> heap_state \<Rightarrow> addr \<times> heap_state" where
  "sbrk H incr h =
    (let new_brk = current_brk h + ((incr + 7) AND NOT 7)
     in if new_brk \<ge> heap_end H \<or> new_brk \<le> stack_limit H
        then (current_brk h, h\<lparr>current_brk := new_brk\<rparr>)
        else (- 1, h\<lparr>heap_enomem := True\<rparr>))"

text \<open>The results of a sequence of calls.\<close>

fun sbrk_run :: "heap_syms \<Rightarrow> word32 list \<Rightarrow> heap_state \<Rightarrow> addr list \<times> heap_state" where
  "sbrk_run H [] h = ([], h)"
| "sbrk_run H (incr # incrs) h =
    (let (block, h) = sbrk H incr h; (blocks, h) = sbrk_run H incrs h in (block # blocks, h))"

section \<open>Streams\<close>

text \<open>A function is its address; \<open>flags\<close> as in \<open>stdio.h\<close>.\<close>

record iob =
  iob_put :: addr
  iob_get :: addr
  iob_flush :: addr
  iob_flags :: word8
  iob_close :: addr
  iob_platform :: addr

definition SPLATFORM :: word8 where "SPLATFORM = 0x80"

text \<open>\<open>sclose\<close> is the value of \<open>__SCLOSE\<close> of the C library.\<close>

definition IOB_DEV_SETUP :: "word8 \<Rightarrow> addr \<Rightarrow> addr \<Rightarrow> addr \<Rightarrow> addr \<Rightarrow> word8 \<Rightarrow> addr \<Rightarrow> iob" where
  "IOB_DEV_SETUP sclose put get flush close flags platform =
    \<lparr>iob_put = put, iob_get = get, iob_flush = flush, iob_flags = flags OR sclose OR SPLATFORM,
     iob_close = close, iob_platform = platform\<rparr>"

definition iob_setup_stream :: "addr \<Rightarrow> addr \<Rightarrow> addr \<Rightarrow> addr \<Rightarrow> word8 \<Rightarrow> addr \<Rightarrow> iob \<Rightarrow> iob" where
  "iob_setup_stream put get flush close flags platform iob =
    iob\<lparr>iob_put := put, iob_get := get, iob_flush := flush, iob_flags := flags, iob_platform := platform\<rparr>"

definition iob_get_platform :: "iob \<Rightarrow> addr" where
  "iob_get_platform iob = iob_platform iob"

definition iob_set_platform :: "addr \<Rightarrow> iob \<Rightarrow> iob" where
  "iob_set_platform platform iob = iob\<lparr>iob_platform := platform\<rparr>"


section \<open>Rounding\<close>

definition round8 :: "nat \<Rightarrow> nat" where
  "round8 n = (n + 7) div 8 * 8"

lemma unat_round_up:
  fixes i :: word32
  assumes "unat i + 7 < 2 ^ 32"
  shows "unat ((i + 7) AND NOT 7) = round8 (unat i)"
proof -
  have m: "(7 :: word32) = mask 3" by (simp add: mask_eq_exp_minus_1)
  have "(i + 7) AND NOT 7 = push_bit 3 (drop_bit 3 (i + 7))"
    unfolding m by (intro bit_word_eqI) (auto simp: bit_simps not_less simp del: mask_numeral)
  moreover have "unat (i + 7) = unat i + 7" using assms by (simp add: unat_word_ariths)
  moreover have "(unat i + 7) div 8 * 8 < 2 ^ 32" using assms by (simp add: le_less_trans [OF div_times_less_eq_dividend])
  ultimately show ?thesis
    by (simp add: round8_def push_bit_eq_mult drop_bit_eq_div unat_word_ariths unat_div)
qed

lemma round8_less: "round8 n < 2 ^ 32 \<Longrightarrow> n + 7 < 2 ^ 32 + 7"
  and round8_ge: "n \<le> round8 n" and round8_mod: "round8 n mod 8 = 0"
  by (simp_all add: round8_def)

definition heap_total :: "word32 list \<Rightarrow> nat" where
  "heap_total incrs = (\<Sum>i\<leftarrow>incrs. round8 (unat i))"

lemma heap_total_simps [simp]: "heap_total [] = 0" "heap_total (i # is) = round8 (unat i) + heap_total is"
  by (simp_all add: heap_total_def)

lemma heap_total_append: "heap_total (xs @ ys) = heap_total xs + heap_total ys"
  and heap_total_mod: "heap_total xs mod 8 = 0"
  by (induction xs) (simp_all add: mod_add_eq round8_def)

lemma sbrk_steps:
  assumes "heap_end H \<le> current_brk h" and "unat (current_brk h) + heap_total incrs + 8 \<le> 2 ^ 32"
  shows "sbrk_run H incrs h = (map (\<lambda>j. current_brk h + of_nat (heap_total (take j incrs))) [0..<length incrs],
    h\<lparr>current_brk := current_brk h + of_nat (heap_total incrs)\<rparr>)"
  using assms
proof (induction incrs arbitrary: h)
  case (Cons i incrs)
  let ?n = "current_brk h + ((i + 7) AND NOT 7)"
  have i: "unat ((i + 7) AND NOT 7) = round8 (unat i)"
    using Cons.prems(2) round8_ge [of "unat i"] by (intro unat_round_up) simp
  then have r: "(i + 7) AND NOT 7 = of_nat (round8 (unat i))" by (metis of_nat_unat ucast_id)
  have n: "unat ?n = unat (current_brk h) + round8 (unat i)"
    using Cons.prems(2) i by (simp add: unat_word_ariths)
  have s: "sbrk H i h = (current_brk h, h\<lparr>current_brk := ?n\<rparr>)"
    using Cons.prems(1) n by (simp add: sbrk_def word_le_nat_alt)
  have "sbrk_run H incrs (h\<lparr>current_brk := ?n\<rparr>) =
      (map (\<lambda>j. ?n + of_nat (heap_total (take j incrs))) [0..<length incrs], h\<lparr>current_brk := ?n + of_nat (heap_total incrs)\<rparr>)"
    using Cons.prems n by (subst Cons.IH) (simp_all add: word_le_nat_alt)
  moreover have "[0..<length (i # incrs)] = 0 # map Suc [0..<length incrs]" by (simp add: upt_conv_Cons map_Suc_upt del: upt_Suc)
  ultimately show ?case using r by (simp add: s add.assoc comp_def)
qed simp

section \<open>The theorems\<close>

text \<open>
  Blocks of the heap: as long as the address space lasts, the blocks of successive calls lie one
  behind the other, each as long as asked for, rounded up to a multiple of eight.
\<close>

theorem sbrk_blocks:
  assumes "heap_end H \<le> current_brk h" and "unat (current_brk h) + heap_total incrs + 8 \<le> 2 ^ 32"
    and "sbrk_run H incrs h = (blocks, h')"
  shows "length blocks = length incrs \<and>
    (\<forall>i<length incrs. unat (blocks ! i) mod 8 = unat (current_brk h) mod 8 \<and>
       unat (blocks ! i) + unat (incrs ! i) \<le> unat (if i + 1 < length incrs then blocks ! (i + 1) else current_brk h'))"
proof -
  let ?B = "unat (current_brk h)"
  have blocks: "blocks = map (\<lambda>j. current_brk h + of_nat (heap_total (take j incrs))) [0..<length incrs]"
      "current_brk h' = current_brk h + of_nat (heap_total incrs)"
    using sbrk_steps [OF assms(1,2)] assms(3) by auto
  have at: "unat (current_brk h + of_nat (heap_total (take j incrs))) = ?B + heap_total (take j incrs)" for j
  proof -
    have "heap_total incrs = heap_total (take j incrs) + heap_total (drop j incrs)"
      by (metis append_take_drop_id heap_total_append)
    then show ?thesis using assms(2) by (simp add: unat_word_ariths unat_of_nat)
  qed
  have following: "unat (if i + 1 < length incrs then blocks ! (i + 1) else current_brk h') =
      ?B + heap_total (take i incrs) + round8 (unat (incrs ! i))" if "i < length incrs" for i
  proof (cases "i + 1 < length incrs")
    case True
    then show ?thesis using at [of "i + 1"] by (simp add: blocks take_Suc_conv_app_nth heap_total_append)
  next
    case False
    have "heap_total incrs = heap_total (take i incrs) + round8 (unat (incrs ! i))"
      using False that heap_total_append [of "take i incrs" "[incrs ! i]"] by (simp flip: take_Suc_conv_app_nth)
    then show ?thesis using False at [of "i + 1"] by (simp add: blocks)
  qed
  show ?thesis
  proof (intro conjI allI impI)
    show "length blocks = length incrs" by (simp add: blocks)
    fix i
    assume i: "i < length incrs"
    have "unat (blocks ! i) = ?B + heap_total (take i incrs)" using i at by (simp add: blocks)
    then show "unat (blocks ! i) mod 8 = ?B mod 8"
      "unat (blocks ! i) + unat (incrs ! i) \<le> unat (if i + 1 < length incrs then blocks ! (i + 1) else current_brk h')"
      using heap_total_mod [of "take i incrs"] round8_ge [of "unat (incrs ! i)"] following [OF i] by (auto simp: mod_add_eq)
  qed
qed

text \<open>
  The heap has no end: wherever the linker put \<open>end\<close> below the stack limit, every call succeeds,
  whatever the increment and however far the heap has grown, and \<open>ENOMEM\<close> is never reported.
\<close>

theorem sbrk_never_fails:
  assumes "heap_end H \<le> stack_limit H"
  shows "sbrk H incr h = (current_brk h, h\<lparr>current_brk := current_brk h + ((incr + 7) AND NOT 7)\<rparr>)"
proof -
  have "x \<ge> heap_end H \<or> x \<le> stack_limit H" for x using assms by auto
  then show ?thesis by (auto simp: sbrk_def Let_def)
qed

text \<open>A stream set up at run time keeps the close function it had, whatever is asked for.\<close>

lemma setup_keeps_close: "iob_close (iob_setup_stream put get flush close flags platform iob) = iob_close iob"
  by (simp add: iob_setup_stream_def)


section \<open>The theorems at concrete states\<close>

definition demo_heap :: heap_syms where
  "demo_heap = \<lparr>heap_end = 0x20002000, stack_limit = 0x20040000\<rparr>"

theorem sbrk_blocks_witness:
  "length [0x20002000 :: addr, 0x20002008, 0x20002018] = 3 \<and>
   sbrk_run demo_heap [1, 16, 200] (sbrk_init demo_heap) =
     ([0x20002000, 0x20002008, 0x20002018], \<lparr>current_brk = 0x200020e0, heap_enomem = False\<rparr>)"
proof -
  have "sbrk_run demo_heap [1, 16, 200] (sbrk_init demo_heap) =
     ([0x20002000, 0x20002008, 0x20002018], \<lparr>current_brk = 0x200020e0, heap_enomem = False\<rparr>)"
    by (simp add: demo_heap_def sbrk_init_def sbrk_def)
  with sbrk_blocks [OF _ _ this] show ?thesis by (simp add: demo_heap_def sbrk_init_def round8_def)
qed

text \<open>A call that would have to fail: the break is at the limit and moves a megabyte past it.\<close>

theorem sbrk_never_fails_witness:
  "sbrk demo_heap 0x100000 \<lparr>current_brk = 0x20040000, heap_enomem = False\<rparr> =
    (0x20040000, \<lparr>current_brk = 0x20140000, heap_enomem = False\<rparr>)"
  using sbrk_never_fails [of demo_heap "0x100000" "\<lparr>current_brk = 0x20040000, heap_enomem = False\<rparr>"]
  by (simp add: demo_heap_def)

end
