(* ===== verification/Backtrace.thy ===== *)
theory Backtrace
  imports Prelude
begin

text \<open>
  The stack unwinder of \<open>pico-fault/backtrace.c\<close>: the search of the index the linker sorts, the
  interpreter of the unwind instructions of the ARM ABI on a virtual register set, one frame, and
  the walk over all frames. \<open>None\<close> is a write outside an array. The theorems: the search finds
  the function that holds an address, the interpreter keeps to its registers, popping undoes the
  push of a function's prologue, and the walk stays within its buffer.
\<close>

section \<open>Data\<close>

record backtrace_frame =
  frame_fp :: word32
  frame_sp :: word32
  frame_lr :: word32
  frame_pc :: word32

text \<open>A name is a string constant of the source, the address of one in the image, or null.\<close>

datatype bt_name = No_Name | Text string | Name_At addr

record backtrace =
  bt_function :: addr
  bt_address :: addr
  bt_name_of :: bt_name

text \<open>
  The control block. \<open>remaining\<close> is a natural number: the source sets it to a positive number and
  decrements it only when it is not zero.
\<close>

record unwind_control_block =
  vrs :: "word32 list"
  current :: addr
  remaining :: nat
  ucb_byte :: int

text \<open>
  What the code reads: memory, the index from \<open>__exidx_start\<close> with its number of entries of two
  words each, the process stack pointer and the address of \<open>_entry_point\<close>.
\<close>

record image =
  mem_word :: "addr \<Rightarrow> word32"
  exidx_start :: addr
  exidx_count :: int
  psp_reg :: word32
  entry_point :: addr

definition addr_offset :: "image \<Rightarrow> int \<Rightarrow> addr" where
  "addr_offset im i = exidx_start im + 8 * of_int i"

definition insn :: "image \<Rightarrow> int \<Rightarrow> addr" where
  "insn im i = exidx_start im + 8 * of_int i + 4"

section \<open>The index\<close>

definition prel31_to_addr :: "image \<Rightarrow> addr \<Rightarrow> addr" where
  "prel31_to_addr im prel31 =
    (let offset = signed_drop_bit 1 (push_bit 1 (mem_word im prel31))
     in (prel31 + offset) AND 0x7fffffff)"

text \<open>Pointers into the index are positions, as pointer arithmetic within an array is.\<close>

function unwind_search_index :: "image \<Rightarrow> int \<Rightarrow> int \<Rightarrow> word32 \<Rightarrow> int" where
  "unwind_search_index im start end ip =
    (if start < end - 1
     then let middle = start + (end - start + 1) div 2
          in if ip < prel31_to_addr im (addr_offset im middle)
             then unwind_search_index im start middle ip
             else unwind_search_index im middle end ip
     else start)"
  by pat_completeness auto
termination
  by (relation "measure (\<lambda>(im, start, end, ip). nat (end - start))") auto

declare unwind_search_index.simps [simp del]

definition unwind_get_function_name :: "image \<Rightarrow> addr \<Rightarrow> bt_name" where
  "unwind_get_function_name im address =
    (if address AND 3 = 0
     then let flag_word = mem_word im (address - 4)
          in if flag_word AND 0xff000000 = 0xff000000
             then Name_At (address - 4 - (flag_word AND 0x00ffffff))
             else Text ''unknown''
     else Text ''unknown'')"

section \<open>The instructions\<close>

text \<open>The next byte, high bytes of a word first; -1, as an unsigned number, at the end.\<close>

definition unwind_get_next_byte :: "image \<Rightarrow> unwind_control_block \<Rightarrow> word32 \<times> unwind_control_block" where
  "unwind_get_next_byte im ucb =
    (if remaining ucb = 0 then (UINT32_MAX, ucb)
     else let instruction = drop_bit (nat (ucb_byte ucb * 8)) (mem_word im (current ucb)) AND 0xff;
              ucb = ucb\<lparr>ucb_byte := ucb_byte ucb - 1\<rparr>;
              ucb = (if ucb_byte ucb < 0 then ucb\<lparr>current := current ucb + 4, ucb_byte := 3\<rparr> else ucb)
          in (instruction, ucb\<lparr>remaining := remaining ucb - 1\<rparr>))"

definition unwind_control_block_init :: "image \<Rightarrow> addr \<Rightarrow> backtrace_frame option \<Rightarrow> unwind_control_block option" where
  "unwind_control_block_init im instructions frame =
    (let word = mem_word im instructions;
         ucb = \<lparr>vrs = replicate 16 0, current = instructions, remaining = 0, ucb_byte = 0\<rparr>;
         regs = (\<lambda>ucb. case frame of None \<Rightarrow> ucb
           | Some f \<Rightarrow> ucb\<lparr>vrs := (vrs ucb)[7 := frame_fp f, 13 := frame_sp f, 14 := frame_lr f, 15 := 0]\<rparr>)
     in if word AND 0xff000000 = 0x80000000 then Some (regs (ucb\<lparr>remaining := 3, ucb_byte := 2\<rparr>))
        else if word AND 0xff000000 = 0x81000000
        then Some (regs (ucb\<lparr>remaining := unat (drop_bit 14 (word AND 0x00ff0000) + 2), ucb_byte := 1\<rparr>))
        else None)"

text \<open>A write to the virtual register set; past its end it would reach the rest of the block.\<close>

definition set_vrs :: "nat \<Rightarrow> word32 \<Rightarrow> word32 list \<Rightarrow> word32 list option" where
  "set_vrs reg v regs = (if reg < length regs then Some (regs[reg := v]) else None)"

lemma half_less: "v \<noteq> 0 \<Longrightarrow> unat (drop_bit (Suc 0) v) < unat v" for v :: word32
  by (simp add: drop_bit_Suc unat_div unat_gt_0)

text \<open>Popping under a mask: the loops that shift the mask and step through the registers.\<close>

function pop_mask :: "image \<Rightarrow> word32 \<Rightarrow> nat \<Rightarrow> addr \<Rightarrow> word32 list \<Rightarrow> (word32 \<times> addr \<times> word32 list) option" where
  "pop_mask im msk reg vsp regs =
    (if msk = 0 then Some (msk, vsp, regs)
     else if msk AND 1 \<noteq> 0
     then do { regs \<leftarrow> set_vrs reg (mem_word im vsp) regs; pop_mask im (drop_bit 1 msk) (reg + 1) (vsp + 4) regs }
     else pop_mask im (drop_bit 1 msk) (reg + 1) vsp regs)"
  by pat_completeness auto
termination
  by (relation "measure (\<lambda>(im, msk, reg, vsp, regs). unat msk)") (auto simp: half_less)

declare pop_mask.simps [simp del]

text \<open>Popping a range of registers, the \<open>for\<close> loop.\<close>

fun pop_range :: "image \<Rightarrow> nat \<Rightarrow> nat \<Rightarrow> addr \<Rightarrow> word32 list \<Rightarrow> (addr \<times> word32 list) option" where
  "pop_range im 0 reg vsp regs = Some (vsp, regs)"
| "pop_range im (Suc n) reg vsp regs =
    do { regs \<leftarrow> set_vrs reg (mem_word im vsp) regs; pop_range im n (reg + 1) (vsp + 4) regs }"

text \<open>What one turn of the loop does: go on with a block, or return a status.\<close>

datatype turn = Next unwind_control_block | Done int unwind_control_block

definition unwind_turn :: "image \<Rightarrow> word32 \<Rightarrow> unwind_control_block \<Rightarrow> turn option" where
  "unwind_turn im instruction ucb =
    (let sp = vrs ucb ! 13;
         set_sp = (\<lambda>v ucb. ucb\<lparr>vrs := (vrs ucb)[13 := v]\<rparr>)
     in if instruction AND 0xc0 = 0x00
        then Some (Next (set_sp (sp + (push_bit 2 (instruction AND 0x3f) + 4)) ucb))
        else if instruction AND 0xc0 = 0x40
        then Some (Next (set_sp (sp - (push_bit 2 (instruction AND 0x3f) + 4)) ucb))
        else if instruction AND 0xf0 = 0x80
        then
          let (low, ucb) = unwind_get_next_byte im ucb;
              instruction = push_bit 8 instruction OR low
          in if instruction = 0x8000 then Some (Done 0 ucb)
             else do {
               (msk, vsp, regs) \<leftarrow> pop_mask im (instruction AND 0xfff) 4 sp (vrs ucb);
               Some (Next (if msk AND push_bit (13 - 4) 1 = 0 then ucb\<lparr>vrs := regs[13 := vsp]\<rparr> else ucb\<lparr>vrs := regs\<rparr>))
             }
        else if instruction AND 0xf0 = 0x90 \<and> instruction \<noteq> 0x9d \<and> instruction \<noteq> 0x9f
        then Some (Next (set_sp (vrs ucb ! unat (instruction AND 0x0f)) ucb))
        else if instruction AND 0xf0 = 0xa0
        then do {
          (vsp, regs) \<leftarrow> pop_range im (unat (instruction AND 0x07) + 1) 4 sp (vrs ucb);
          let (vsp, regs) = (if instruction AND 0x08 \<noteq> 0 then (vsp + 4, regs[14 := mem_word im vsp]) else (vsp, regs));
          Some (Next (ucb\<lparr>vrs := regs[13 := vsp]\<rparr>))
        }
        else if instruction = 0xb0
        then Some (Done 0 (if vrs ucb ! 15 = 0 then ucb\<lparr>vrs := (vrs ucb)[15 := vrs ucb ! 14]\<rparr> else ucb))
        else if instruction = 0xb1
        then
          let (msk, ucb) = unwind_get_next_byte im ucb
          in do {
               (_, vsp, regs) \<leftarrow> pop_mask im msk 0 sp (vrs ucb);
               Some (Next (ucb\<lparr>vrs := regs[13 := vsp]\<rparr>))
             }
        else if instruction = 0xb2
        then
          let (n, ucb) = unwind_get_next_byte im ucb
          in Some (Next (set_sp (sp + (0x204 + push_bit 2 n)) ucb))
        else if instruction = 0xb3 \<or> instruction = 0xc8 \<or> instruction = 0xc9
        then
          let (n, ucb) = unwind_get_next_byte im ucb;
              vsp = sp + 4 * (2 * ((n AND 0x0f) + 1))
          in Some (Next (set_sp (if instruction = 0xb3 then vsp + 4 else vsp) ucb))
        else if instruction AND 0xf8 = 0xb8 \<or> instruction AND 0xf8 = 0xd0
        then
          let vsp = sp + 4 * (2 * ((instruction AND 0x07) + 1))
          in Some (Next (set_sp (if instruction AND 0xf8 = 0xb8 then vsp + 4 else vsp) ucb))
        else Some (Done (- 1) ucb))"

text \<open>The loop over the bytes, which ends because each turn takes at least one.\<close>

lemma next_byte_remaining: "remaining (snd (unwind_get_next_byte im ucb)) = remaining ucb - 1"
  by (simp add: unwind_get_next_byte_def Let_def)

text \<open>A turn changes registers only, apart from the byte it may take itself.\<close>

primrec turn_ucb :: "turn \<Rightarrow> unwind_control_block" where
  "turn_ucb (Next ucb) = ucb"
| "turn_ucb (Done r ucb) = ucb"

definition shaped :: "image \<Rightarrow> unwind_control_block \<Rightarrow> turn option \<Rightarrow> bool" where
  "shaped im ucb x \<longleftrightarrow> (\<forall>t. x = Some t \<longrightarrow>
     (\<exists>v. turn_ucb t = ucb\<lparr>vrs := v\<rparr> \<or> turn_ucb t = (snd (unwind_get_next_byte im ucb))\<lparr>vrs := v\<rparr>))"

lemma shapedI:
  "shaped im ucb (Some (Next (ucb\<lparr>vrs := v\<rparr>)))"
  "shaped im ucb (Some (Next ((snd (unwind_get_next_byte im ucb))\<lparr>vrs := v\<rparr>)))"
  "shaped im ucb (Some (Done r ucb))" "shaped im ucb (Some (Done r (ucb\<lparr>vrs := v\<rparr>)))"
  "shaped im ucb (Some (Done r (snd (unwind_get_next_byte im ucb))))"
  "shaped im ucb x \<Longrightarrow> shaped im ucb y \<Longrightarrow> shaped im ucb (if b then x else y)"
  "shaped im ucb (Some (Next a)) \<Longrightarrow> shaped im ucb (Some (Next a')) \<Longrightarrow> shaped im ucb (Some (Next (if b then a else a')))"
  "shaped im ucb (Some (Done r a)) \<Longrightarrow> shaped im ucb (Some (Done r a')) \<Longrightarrow> shaped im ucb (Some (Done r (if b then a else a')))"
  "(\<And>y. shaped im ucb (f y)) \<Longrightarrow> shaped im ucb (Option.bind z f)"
  by (auto simp: shaped_def split: Option.bind_splits
      intro: exI [of _ "vrs ucb"] exI [of _ "vrs (snd (unwind_get_next_byte im ucb))"])

lemma unwind_turn_shaped: "shaped im ucb (unwind_turn im i ucb)"
  unfolding unwind_turn_def Let_def case_prod_beta by (intro shapedI)

lemma turn_remaining:
  assumes "unwind_turn im i ucb = Some t"
  shows "remaining (turn_ucb t) \<le> remaining ucb"
  using unwind_turn_shaped [of im ucb i] assms by (auto simp: shaped_def next_byte_remaining)

lemma next_byte_less:
  assumes "unwind_get_next_byte im ucb = (i, ucb')" and "i \<noteq> UINT32_MAX"
  shows "remaining ucb' < remaining ucb"
  using assms by (cases "remaining ucb = 0") (auto simp: unwind_get_next_byte_def Let_def)

function unwind_execute_instruction :: "image \<Rightarrow> unwind_control_block \<Rightarrow> (int \<times> unwind_control_block) option" where
  "unwind_execute_instruction im ucb =
    (let (instruction, ucb') = unwind_get_next_byte im ucb
     in if instruction \<noteq> UINT32_MAX
        then case unwind_turn im instruction ucb' of
               None \<Rightarrow> None
             | Some (Done r ucb) \<Rightarrow> Some (r, ucb)
             | Some (Next ucb) \<Rightarrow> unwind_execute_instruction im ucb
        else Some (of_bool (instruction \<noteq> UINT32_MAX), ucb'))"
  by pat_completeness auto
termination
proof (relation "measure (\<lambda>(im, ucb). remaining ucb)")
  fix im ucb x i ucb' t ucb''
  assume x: "x = unwind_get_next_byte im ucb" "(i, ucb') = x" and i: "i \<noteq> UINT32_MAX"
    and t: "unwind_turn im i ucb' = Some t" "t = Next ucb''"
  have "remaining ucb' < remaining ucb" using next_byte_less x i by metis
  moreover have "remaining ucb'' \<le> remaining ucb'" using turn_remaining [OF t(1)] t(2) by simp
  ultimately show "((im, ucb''), im, ucb) \<in> measure (\<lambda>(im, ucb). remaining ucb)" by simp
qed simp

declare unwind_execute_instruction.simps [simp del]

section \<open>Frames\<close>

text \<open>
  One frame. The status is that of the source: 1 to go on, 0 at the end, -1 when the tables do
  not make sense. The interpreter never returns a positive status (see below), so the loop
  around it makes one call.
\<close>

definition unwind_frame :: "image \<Rightarrow> backtrace_frame \<Rightarrow> (int \<times> backtrace_frame) option" where
  "unwind_frame im frame =
    (let index = unwind_search_index im 0 (exidx_count im) (frame_pc frame);
         word = mem_word im (insn im index)
     in if word = 0x00000001 then Some (0, frame)
        else
          let instructions = (if word AND 0x80000000 \<noteq> 0 then insn im index else prel31_to_addr im (insn im index))
          in case unwind_control_block_init im instructions (Some frame) of
               None \<Rightarrow> Some (- 1, frame)
             | Some ucb \<Rightarrow> do {
                 (execution_result, ucb) \<leftarrow> unwind_execute_instruction im ucb;
                 if execution_result = - 1 then Some (- 1, frame)
                 else do {
                   let r = vrs ucb;
                   let r = (if r ! 15 = 0 then r[15 := r ! 14] else r);
                   let r = (if r ! 15 AND 0xf0000000 = 0xf0000000
                     then let r = r[13 := r ! 7 AND NOT 7];
                              stack = (if r ! 15 AND 0xc = 0
                                then let stack = r ! 13 - 4 * 2
                                     in if r ! 15 AND 0xf0 = 0xe0 then stack - 4 * 18 else stack
                                else psp_reg im + 4 * 6)
                          in r[15 := mem_word im stack, 14 := mem_word im (stack - 4)]
                     else r);
                   if frame_pc frame = r ! 15 then Some (0, frame)
                   else Some (1, \<lparr>frame_fp = r ! 7, frame_sp = r ! 13, frame_lr = r ! 14, frame_pc = r ! 15\<rparr>)
                 }
               })"

section \<open>The walk\<close>

text \<open>A write to an entry of the buffer.\<close>

definition set_entry :: "int \<Rightarrow> (backtrace \<Rightarrow> backtrace) \<Rightarrow> backtrace list \<Rightarrow> backtrace list option" where
  "set_entry i f buffer = (if 0 \<le> i \<and> nat i < length buffer then Some (buffer[nat i := f (buffer ! nat i)]) else None)"

function unwind_walk :: "image \<Rightarrow> int \<Rightarrow> int \<Rightarrow> backtrace list \<Rightarrow> backtrace_frame \<Rightarrow> (int \<times> backtrace list) option" where
  "unwind_walk im sz count buffer frame =
    (if frame_pc frame = 0
     then do { buffer \<leftarrow> set_entry count (\<lambda>e. e\<lparr>bt_name_of := Text ''<reached end of unwind table>''\<rparr>) buffer; Some (count + 1, buffer) }
     else if frame_pc frame = 1
     then do { buffer \<leftarrow> set_entry count (\<lambda>e. e\<lparr>bt_name_of := Text ''<reached .cantunwind>''\<rparr>) buffer; Some (count + 1, buffer) }
     else if entry_point im \<le> frame_pc frame \<and> frame_pc frame \<le> entry_point im + 64
     then do {
       buffer \<leftarrow> set_entry count (\<lambda>e. e\<lparr>bt_address := frame_pc frame AND 0xfffffffe, bt_function := entry_point im,
         bt_name_of := Text ''_entry_point''\<rparr>) buffer;
       Some (count + 1, buffer) }
     else
       let index = unwind_search_index im 0 (exidx_count im) (frame_pc frame);
           frame = frame\<lparr>frame_pc := frame_pc frame AND 0xfffffffe\<rparr>;
           f = prel31_to_addr im (addr_offset im index)
       in do {
            buffer \<leftarrow> set_entry count (\<lambda>e. e\<lparr>bt_address := frame_pc frame, bt_function := f,
              bt_name_of := unwind_get_function_name im f\<rparr>) buffer;
            (more, frame) \<leftarrow> unwind_frame im frame;
            if more \<noteq> 0 \<and> count + 1 < sz then unwind_walk im sz (count + 1) buffer frame
            else Some (count + 1, buffer)
          })"
  by pat_completeness auto
termination
  by (relation "measure (\<lambda>(im, sz, count, buffer, frame). nat (sz - count))") auto

declare unwind_walk.simps [simp del]

text \<open>\<open>buffer\<close> is the array of the caller; the first \<open>size\<close> entries are cleared.\<close>

definition backtrace_unwind :: "image \<Rightarrow> backtrace list \<Rightarrow> int \<Rightarrow> backtrace_frame \<Rightarrow> (int \<times> backtrace list) option" where
  "backtrace_unwind im buffer sz frame =
    (if 0 \<le> sz \<and> nat sz \<le> length buffer
     then unwind_walk im sz 0
       (replicate (nat sz) \<lparr>bt_function = 0, bt_address = 0, bt_name_of = No_Name\<rparr> @ drop (nat sz) buffer) frame
     else None)"

definition backtrace_function_name :: "image \<Rightarrow> word32 \<Rightarrow> bt_name" where
  "backtrace_function_name im pc =
    unwind_get_function_name im (prel31_to_addr im (addr_offset im (unwind_search_index im 0 (exidx_count im) pc)))"

section \<open>The search\<close>

definition function_start :: "image \<Rightarrow> int \<Rightarrow> addr" where
  "function_start im i = prel31_to_addr im (addr_offset im i)"

lemma search_bracket:
  assumes "start < end"
  shows "start \<le> unwind_search_index im start end ip \<and> unwind_search_index im start end ip < end \<and>
    (unwind_search_index im start end ip \<noteq> start \<longrightarrow> function_start im (unwind_search_index im start end ip) \<le> ip) \<and>
    (unwind_search_index im start end ip + 1 \<noteq> end \<longrightarrow> ip < function_start im (unwind_search_index im start end ip + 1))"
  using assms
proof (induction im start "end" ip rule: unwind_search_index.induct)
  case (1 im start "end" ip)
  let ?m = "start + (end - start + 1) div 2"
  show ?case
  proof (cases "start < end - 1")
    case True
    then have m: "start < ?m" "?m < end" by auto
    show ?thesis
    proof (cases "ip < prel31_to_addr im (addr_offset im ?m)")
      case b: True
      have r: "unwind_search_index im start end ip = unwind_search_index im start ?m ip" (is "_ = ?r")
        using True b by (subst unwind_search_index.simps) (simp add: Let_def)
      have "start \<le> ?r \<and> ?r < ?m \<and> (?r \<noteq> start \<longrightarrow> function_start im ?r \<le> ip) \<and> (?r + 1 \<noteq> ?m \<longrightarrow> ip < function_start im (?r + 1))"
        using 1(1) [OF True refl b m(1)] .
      moreover have "ip < function_start im ?m" using b by (simp add: function_start_def)
      ultimately show ?thesis unfolding r using m(2) by (cases "?r + 1 = ?m") auto
    next
      case b: False
      have r: "unwind_search_index im start end ip = unwind_search_index im ?m end ip" (is "_ = ?r")
        using True b by (subst unwind_search_index.simps) (simp add: Let_def)
      have "?m \<le> ?r \<and> ?r < end \<and> (?r \<noteq> ?m \<longrightarrow> function_start im ?r \<le> ip) \<and> (?r + 1 \<noteq> end \<longrightarrow> ip < function_start im (?r + 1))"
        using 1(2) [OF True refl b m(2)] .
      moreover have "function_start im ?m \<le> ip" using b by (simp add: function_start_def)
      ultimately show ?thesis unfolding r using m(1) by (cases "?r = ?m") auto
    qed
  next
    case False
    then have "unwind_search_index im start end ip = start" by (subst unwind_search_index.simps) simp
    then show ?thesis using False 1(3) by simp
  qed
qed

section \<open>The interpreter keeps to the registers\<close>

function ucb_bytes :: "image \<Rightarrow> unwind_control_block \<Rightarrow> word32 list" where
  "ucb_bytes im ucb = (if remaining ucb = 0 then []
     else fst (unwind_get_next_byte im ucb) # ucb_bytes im (snd (unwind_get_next_byte im ucb)))"
  by pat_completeness auto
termination
  by (relation "measure (\<lambda>(im, ucb). remaining ucb)") (auto simp: next_byte_remaining)

declare ucb_bytes.simps [simp del]

lemma and_le: "unat (v AND m) \<le> unat m" for v m :: word32
  using word_and_le1 by (simp add: word_le_nat_alt)

lemma next_byte_small: "remaining ucb \<noteq> 0 \<Longrightarrow> unat (fst (unwind_get_next_byte im ucb)) < 256"
proof -
  have "unat (v AND 0xff) < 256" for v :: word32
    using and_le [of v "0xff"] by simp
  then show "remaining ucb \<noteq> 0 \<Longrightarrow> ?thesis" by (simp add: unwind_get_next_byte_def Let_def)
qed

lemma next_byte_vrs [simp]: "vrs (snd (unwind_get_next_byte im ucb)) = vrs ucb"
  by (simp add: unwind_get_next_byte_def Let_def)

lemma pop_mask_safe:
  assumes "unat msk < 2 ^ k" and "reg + k \<le> length regs"
  shows "\<exists>vsp' regs'. pop_mask im msk reg vsp regs = Some (0, vsp', regs') \<and> length regs' = length regs"
  using assms
proof (induction im msk reg vsp regs arbitrary: k rule: pop_mask.induct)
  case (1 im msk reg vsp regs)
  show ?case
  proof (cases "msk = 0")
    case False
    then obtain j where j: "k = Suc j" using 1(3) by (cases k) (auto simp: unat_eq_zero)
    then have h: "unat (drop_bit 1 msk) < 2 ^ j" "reg < length regs"
      using 1(3,4) by (simp_all add: drop_bit_Suc unat_div)
    show ?thesis
    proof (cases "msk AND 1 = 0")
      case True
      with 1(2) [OF False] h 1(4) j False show ?thesis by (subst pop_mask.simps) simp
    next
      case b: False
      have "set_vrs reg (mem_word im vsp) regs = Some (regs[reg := mem_word im vsp])"
        using h(2) by (simp add: set_vrs_def)
      with 1(1) [OF False b this, of j] h 1(4) j False b show ?thesis by (subst pop_mask.simps) simp
    qed
  qed (subst pop_mask.simps, simp)
qed

lemma pop_range_nth:
  assumes "reg + n \<le> length regs"
  shows "\<exists>regs'. pop_range im n reg vsp regs = Some (vsp + 4 * of_nat n, regs') \<and> length regs' = length regs \<and>
    (\<forall>k<length regs. regs' ! k = (if reg \<le> k \<and> k < reg + n then mem_word im (vsp + 4 * of_nat (k - reg)) else regs ! k))"
  using assms
proof (induction n arbitrary: reg vsp regs)
  case (Suc n)
  let ?r = "regs[reg := mem_word im vsp]"
  obtain regs' where r: "pop_range im n (reg + 1) (vsp + 4) ?r = Some (vsp + 4 + 4 * of_nat n, regs')"
    "length regs' = length ?r"
    "\<forall>k<length ?r. regs' ! k = (if reg + 1 \<le> k \<and> k < reg + 1 + n then mem_word im (vsp + 4 + 4 * of_nat (k - (reg + 1))) else ?r ! k)"
    using Suc.IH [of "reg + 1" ?r "vsp + 4"] Suc.prems by auto
  have "regs' ! k = (if reg \<le> k \<and> k < reg + Suc n then mem_word im (vsp + 4 * of_nat (k - reg)) else regs ! k)"
    if "k < length regs" for k
  proof (cases "reg + 1 \<le> k \<and> k < reg + 1 + n")
    case True
    then have "k - reg = Suc (k - (reg + 1))" by arith
    then have "vsp + 4 * of_nat (k - reg) = vsp + 4 + 4 * of_nat (k - (reg + 1))" by (simp add: algebra_simps)
    then show ?thesis using r(3) that True by simp
  next
    case False
    then show ?thesis using r(3) that by (cases "k = reg") auto
  qed
  then show ?case using r(1,2) Suc.prems by (simp add: set_vrs_def algebra_simps)
qed auto

definition safe :: "turn option \<Rightarrow> bool" where
  "safe x \<longleftrightarrow> (\<exists>t. x = Some t \<and> length (vrs (turn_ucb t)) = 16 \<and> (\<forall>r ucb. t = Done r ucb \<longrightarrow> r = 0 \<or> r = - 1))"

lemma safeI:
  "length (vrs ucb) = 16 \<Longrightarrow> safe (Some (Next ucb))"
  "length (vrs ucb) = 16 \<Longrightarrow> safe (Some (Done 0 ucb))"
  "length (vrs ucb) = 16 \<Longrightarrow> safe (Some (Done (- 1) ucb))"
  "(b \<Longrightarrow> safe x) \<Longrightarrow> (\<not> b \<Longrightarrow> safe y) \<Longrightarrow> safe (if b then x else y)"
  by (simp_all add: safe_def)

lemma safe_pop_mask:
  assumes "unat msk < 2 ^ k" "reg + k \<le> 16" "length regs = 16" "\<And>vsp regs. length regs = 16 \<Longrightarrow> safe (f (0, vsp, regs))"
  shows "safe (Option.bind (pop_mask im msk reg vsp regs) f)"
proof -
  obtain vsp' regs' where "pop_mask im msk reg vsp regs = Some (0, vsp', regs')" "length regs' = 16"
    using pop_mask_safe [of msk k reg regs im vsp] assms(1-3) by auto
  then show ?thesis using assms(4) by simp
qed

lemma safe_pop_range:
  assumes "reg + n \<le> 16" "length regs = 16" "\<And>vsp regs. length regs = 16 \<Longrightarrow> safe (f (vsp, regs))"
  shows "safe (Option.bind (pop_range im n reg vsp regs) f)"
  using pop_range_nth [of reg n regs im vsp] assms by auto

lemma unwind_turn_safe:
  assumes l: "length (vrs ucb) = 16" and b: "i = 0xb1 \<Longrightarrow> remaining ucb \<noteq> 0"
  shows "safe (unwind_turn im i ucb)"
proof -
  have m12: "unat (v AND 0xfff) < 2 ^ 12" for v :: word32
    using and_le [of v "0xfff"] by simp
  have m3: "unat (v AND 7) \<le> 7" for v :: word32
    using and_le [of v 7] by simp
  show ?thesis
    unfolding unwind_turn_def Let_def case_prod_beta
    using l b next_byte_small [of ucb im] m3 [of i]
    by (intro safeI safe_pop_mask [OF m12] safe_pop_mask [where k = 8] safe_pop_range) simp_all
qed

text \<open>
  Without the byte its mask comes from, the pop under a mask takes -1 for the mask and runs
  past the sixteen registers.
\<close>

lemma pop_past_end:
  assumes "length (vrs ucb) = 16" "remaining ucb = 0"
  shows "unwind_turn im 0xb1 ucb = None"
proof -
  have "pop_mask im 0xffffffff 0 vsp regs = None" if "length regs = 16" for vsp regs
    using that by (simp add: pop_mask.simps set_vrs_def)
  then show ?thesis using assms by (simp add: unwind_turn_def unwind_get_next_byte_def)
qed

lemma ucb_bytes_cong:
  assumes "current u = current v" "remaining u = remaining v" "ucb_byte u = ucb_byte v"
  shows "ucb_bytes im u = ucb_bytes im v"
  using assms
proof (induction im u arbitrary: v rule: ucb_bytes.induct)
  case (1 im u)
  have "fst (unwind_get_next_byte im u) = fst (unwind_get_next_byte im v)"
    "current (snd (unwind_get_next_byte im u)) = current (snd (unwind_get_next_byte im v))"
    "remaining (snd (unwind_get_next_byte im u)) = remaining (snd (unwind_get_next_byte im v))"
    "ucb_byte (snd (unwind_get_next_byte im u)) = ucb_byte (snd (unwind_get_next_byte im v))"
    using 1(2-4) by (simp_all add: unwind_get_next_byte_def Let_def)
  then show ?case using 1 by (subst (1 2) ucb_bytes.simps) simp
qed

text \<open>The bytes left after a turn are the last of those before it.\<close>

lemma turn_bytes:
  assumes "unwind_turn im i ucb = Some t" "ucb_bytes im (turn_ucb t) \<noteq> []"
  shows "last (ucb_bytes im (turn_ucb t)) = last (ucb_bytes im ucb)"
proof -
  let ?n = "snd (unwind_get_next_byte im ucb)"
  have "ucb_bytes im (turn_ucb t) = ucb_bytes im ucb \<or> ucb_bytes im (turn_ucb t) = ucb_bytes im ?n"
    using unwind_turn_shaped [of im ucb i] assms(1) by (auto simp: shaped_def intro!: ucb_bytes_cong)
  moreover have "ucb_bytes im ?n = [] \<or> last (ucb_bytes im ?n) = last (ucb_bytes im ucb)"
    by (cases "remaining ucb = 0") (simp_all add: ucb_bytes.simps [of im ucb] ucb_bytes.simps [of im ?n] next_byte_remaining)
  ultimately show ?thesis using assms(2) by auto
qed

lemma execute_safe:
  assumes "length (vrs ucb) = 16" and "ucb_bytes im ucb \<noteq> [] \<longrightarrow> last (ucb_bytes im ucb) \<noteq> 0xb1"
  shows "\<exists>r ucb'. unwind_execute_instruction im ucb = Some (r, ucb') \<and> (r = 0 \<or> r = - 1) \<and> length (vrs ucb') = 16"
  using assms
proof (induction im ucb rule: unwind_execute_instruction.induct)
  case (1 im ucb)
  obtain i u where n: "unwind_get_next_byte im ucb = (i, u)" by fastforce
  show ?case
  proof (cases "i = UINT32_MAX")
    case True
    then show ?thesis using n 1(2) next_byte_vrs [of im ucb] by (subst unwind_execute_instruction.simps) simp
  next
    case False
    have b: "ucb_bytes im ucb = i # ucb_bytes im u"
      using next_byte_less [OF n False] n by (subst ucb_bytes.simps) simp
    have l: "length (vrs u) = 16" using 1(2) n next_byte_vrs [of im ucb] by simp
    have "i = 0xb1 \<Longrightarrow> remaining u \<noteq> 0" using 1(3) b ucb_bytes.simps [of im u] by (auto split: if_splits)
    then have "safe (unwind_turn im i u)" using unwind_turn_safe [OF l] by blast
    then obtain t where t: "unwind_turn im i u = Some t" "length (vrs (turn_ucb t)) = 16"
      "\<forall>r ucb. t = Done r ucb \<longrightarrow> r = 0 \<or> r = - 1" by (auto simp: safe_def)
    show ?thesis
    proof (cases t)
      case (Next v)
      have "ucb_bytes im v \<noteq> [] \<longrightarrow> last (ucb_bytes im v) \<noteq> 0xb1"
      proof
        assume v: "ucb_bytes im v \<noteq> []"
        then have "last (ucb_bytes im v) = last (ucb_bytes im u)" using turn_bytes [OF t(1)] Next by simp
        moreover have "ucb_bytes im u \<noteq> []"
          using v turn_remaining [OF t(1)] Next ucb_bytes.simps [of im v] ucb_bytes.simps [of im u] by (auto split: if_splits)
        ultimately show "last (ucb_bytes im v) \<noteq> 0xb1" using 1(3) b by simp
      qed
      then have "\<exists>r ucb'. unwind_execute_instruction im v = Some (r, ucb') \<and> (r = 0 \<or> r = - 1) \<and> length (vrs ucb') = 16"
        using 1(1) [OF n [symmetric] refl False t(1) Next] t(2) Next by simp
      then show ?thesis using n False t(1) Next by (subst unwind_execute_instruction.simps) simp
    next
      case (Done r v)
      then show ?thesis using n False t by (subst unwind_execute_instruction.simps) simp
    qed
  qed
qed

section \<open>The walk keeps to its buffer\<close>

text \<open>The descriptions the index leads to, and that none of them ends inside an instruction.\<close>

definition description :: "image \<Rightarrow> int \<Rightarrow> addr" where
  "description im i = (if mem_word im (insn im i) AND 0x80000000 \<noteq> 0 then insn im i else prel31_to_addr im (insn im i))"

definition complete_tables :: "image \<Rightarrow> bool" where
  "complete_tables im \<longleftrightarrow> 0 < exidx_count im \<and> (\<forall>i frame ucb. 0 \<le> i \<and> i < exidx_count im \<and>
     unwind_control_block_init im (description im i) (Some frame) = Some ucb \<longrightarrow>
     ucb_bytes im ucb \<noteq> [] \<longrightarrow> last (ucb_bytes im ucb) \<noteq> 0xb1)"

lemma init_length: "unwind_control_block_init im a frame = Some ucb \<Longrightarrow> length (vrs ucb) = 16"
  by (auto simp: unwind_control_block_init_def Let_def split: if_splits option.splits)

lemma frame_safe:
  assumes "complete_tables im"
  shows "\<exists>r f. unwind_frame im frame = Some (r, f)"
proof -
  let ?i = "unwind_search_index im 0 (exidx_count im) (frame_pc frame)"
  have i: "0 \<le> ?i" "?i < exidx_count im"
    using search_bracket [of 0 "exidx_count im"] assms by (simp_all add: complete_tables_def)
  show ?thesis
  proof (cases "unwind_control_block_init im (description im ?i) (Some frame)")
    case None
    then show ?thesis by (auto simp: unwind_frame_def Let_def description_def)
  next
    case (Some ucb)
    then obtain r u where "unwind_execute_instruction im ucb = Some (r, u)"
      using execute_safe [OF init_length [OF Some]] assms i unfolding complete_tables_def by blast
    with Some show ?thesis by (auto simp: unwind_frame_def Let_def description_def)
  qed
qed

lemma walk_unfold:
  assumes "0 \<le> count" "nat count < length buffer" "unwind_frame im (frame\<lparr>frame_pc := frame_pc frame AND 0xfffffffe\<rparr>) = Some (r, f)"
  shows "\<exists>x. unwind_walk im sz count buffer frame = Some (count + 1, buffer[nat count := x]) \<or>
    count + 1 < sz \<and> unwind_walk im sz count buffer frame = unwind_walk im sz (count + 1) (buffer[nat count := x]) f"
proof -
  have e: "set_entry count g buffer = Some (buffer[nat count := g (buffer ! nat count)])" for g
    using assms(1,2) by (simp add: set_entry_def)
  show ?thesis using assms(3) by (subst (1 2) unwind_walk.simps) (auto simp: e Let_def)
qed

lemma walk_safe:
  assumes im: "complete_tables im" and "0 \<le> count" "count < sz" "nat sz \<le> length buffer"
  shows "\<exists>c buf. unwind_walk im sz count buffer frame = Some (c, buf) \<and> count < c \<and> c \<le> sz \<and>
    length buf = length buffer \<and> drop (nat c) buf = drop (nat c) buffer"
  using assms(2-4)
proof (induction "nat (sz - count)" arbitrary: count buffer frame)
  case (Suc n)
  obtain r f where fr: "unwind_frame im (frame\<lparr>frame_pc := frame_pc frame AND 0xfffffffe\<rparr>) = Some (r, f)"
    using frame_safe [OF im] by blast
  have "nat count < length buffer" using Suc.prems by linarith
  from walk_unfold [OF Suc.prems(1) this fr, of sz] obtain x where
    x: "unwind_walk im sz count buffer frame = Some (count + 1, buffer[nat count := x]) \<or>
      count + 1 < sz \<and> unwind_walk im sz count buffer frame = unwind_walk im sz (count + 1) (buffer[nat count := x]) f"
    by blast
  have d: "drop (nat c) (buffer[nat count := x]) = drop (nat c) buffer" if "count < c" for c
    using that Suc.prems(1) by simp
  from x show ?case
  proof
    assume "unwind_walk im sz count buffer frame = Some (count + 1, buffer[nat count := x])"
    then show ?thesis using d [of "count + 1"] Suc.prems by auto
  next
    assume w: "count + 1 < sz \<and> unwind_walk im sz count buffer frame = unwind_walk im sz (count + 1) (buffer[nat count := x]) f"
    have "n = nat (sz - (count + 1))" using Suc.hyps(2) by linarith
    from Suc.hyps(1) [OF this, of "buffer[nat count := x]" f] w Suc.prems obtain c buf where
      "unwind_walk im sz (count + 1) (buffer[nat count := x]) f = Some (c, buf)" "count + 1 < c" "c \<le> sz"
      "length buf = length buffer" "drop (nat c) buf = drop (nat c) (buffer[nat count := x])" by auto
    then show ?thesis using w d [of c] by auto
  qed
qed simp

lemma unwind_bounded:
  assumes "complete_tables im" and "1 \<le> sz" and "nat sz \<le> length buffer"
  shows "\<exists>c buf. backtrace_unwind im buffer sz frame = Some (c, buf) \<and> 1 \<le> c \<and> c \<le> sz \<and>
    length buf = length buffer \<and> drop (nat sz) buf = drop (nat sz) buffer"
proof -
  let ?b = "replicate (nat sz) \<lparr>bt_function = 0, bt_address = 0, bt_name_of = No_Name\<rparr> @ drop (nat sz) buffer"
  have l: "length ?b = length buffer" using assms(3) by simp
  obtain c buf where w: "unwind_walk im sz 0 ?b frame = Some (c, buf)" "0 < c" "c \<le> sz" "length buf = length buffer"
    "drop (nat c) buf = drop (nat c) ?b"
    using walk_safe [OF assms(1), of 0 sz ?b frame] assms(2,3) l by auto
  have "nat sz = (nat sz - nat c) + nat c" using w(3) by simp
  then have "drop (nat sz) buf = drop (nat sz - nat c) (drop (nat c) buf)" by (metis drop_drop)
  also have "\<dots> = drop (nat sz) ?b" unfolding w(5) using w(3) by simp
  finally show ?thesis using w assms(2,3) by (auto simp: backtrace_unwind_def)
qed

lemma entry_eta:
  "e\<lparr>bt_address := a, bt_function := f, bt_name_of := n\<rparr> = \<lparr>bt_function = f, bt_address = a, bt_name_of = n\<rparr>"
  by (cases e) simp

text \<open>A frame that cannot be unwound, seen again and again.\<close>

lemma walk_repeats:
  assumes f: "unwind_frame im frame = Some (- 1, frame)" "frame_pc frame AND 0xfffffffe = frame_pc frame"
    and pc: "frame_pc frame \<noteq> 0" "frame_pc frame \<noteq> 1" "\<not> (entry_point im \<le> frame_pc frame \<and> frame_pc frame \<le> entry_point im + 64)"
    and fn: "fn = function_start im (unwind_search_index im 0 (exidx_count im) (frame_pc frame))"
    and count: "0 \<le> count" "count < sz" "nat sz \<le> length buffer"
  shows "\<exists>buf. unwind_walk im sz count buffer frame = Some (sz, buf) \<and> length buf = length buffer \<and>
    (\<forall>i<nat count. buf ! i = buffer ! i) \<and>
    (\<forall>i. nat count \<le> i \<and> i < nat sz \<longrightarrow> buf ! i = \<lparr>bt_function = fn, bt_address = frame_pc frame, bt_name_of = unwind_get_function_name im fn\<rparr>)"
  using count
proof (induction "nat (sz - count)" arbitrary: count buffer)
  case (Suc n)
  let ?x = "\<lparr>bt_function = fn, bt_address = frame_pc frame, bt_name_of = unwind_get_function_name im fn\<rparr>"
  let ?b = "buffer[nat count := ?x]"
  have c: "nat count < length buffer" "nat (count + 1) = Suc (nat count)" using Suc.prems by auto
  have "frame\<lparr>frame_pc := frame_pc frame\<rparr> = frame" by simp
  then have w: "unwind_walk im sz count buffer frame =
      (if count + 1 < sz then unwind_walk im sz (count + 1) ?b frame else Some (count + 1, ?b))"
    using f c Suc.prems(1) fn unfolding unwind_walk.simps [of im sz count] if_not_P [OF pc(1)] if_not_P [OF pc(2)] if_not_P [OF pc(3)]
    by (simp add: Let_def set_entry_def function_start_def entry_eta)
  show ?case
  proof (cases "count + 1 < sz")
    case True
    have "n = nat (sz - (count + 1))" using Suc.hyps(2) by linarith
    from Suc.hyps(1) [OF this, of ?b] True Suc.prems obtain buf where
      b: "unwind_walk im sz (count + 1) ?b frame = Some (sz, buf)" "length buf = length buffer"
      "\<forall>i<nat (count + 1). buf ! i = ?b ! i" "\<forall>i. nat (count + 1) \<le> i \<and> i < nat sz \<longrightarrow> buf ! i = ?x" by auto
    have "buf ! i = ?x" if "nat count \<le> i" "i < nat sz" for i
      using b(3,4) that c by (cases "i = nat count") auto
    moreover have "buf ! i = buffer ! i" if "i < nat count" for i using b(3) that c by simp
    ultimately show ?thesis using w True b(1,2) by simp
  next
    case False
    then have "count + 1 = sz" using Suc.prems(2) by simp
    then show ?thesis using w c by (auto simp: less_Suc_eq)
  qed
qed simp

section \<open>Popping undoes a prologue\<close>

text \<open>
  What \<open>push {r4, ..., r(4+n), lr}\<close> at the head of a function leaves: the registers in ascending
  order below the stack pointer of the caller.
\<close>

fun stm :: "addr \<Rightarrow> word32 list \<Rightarrow> (addr \<Rightarrow> word32) \<Rightarrow> addr \<Rightarrow> word32" where
  "stm a [] m = m"
| "stm a (x # xs) m = (stm (a + 4) xs m)(a := x)"

definition pushed :: "nat \<Rightarrow> word32 list \<Rightarrow> word32 list" where
  "pushed n r = map (\<lambda>k. r ! (4 + k)) [0..<Suc n] @ [r ! 14]"

definition prologue :: "nat \<Rightarrow> word32 list \<Rightarrow> image \<Rightarrow> image" where
  "prologue n r im = im\<lparr>mem_word := stm (r ! 13 - 4 * of_nat (n + 2)) (pushed n r) (mem_word im)\<rparr>"

lemma stm_nth: "i < length xs \<Longrightarrow> length xs \<le> 64 \<Longrightarrow> stm a xs m (a + 4 * of_nat i) = xs ! i"
proof (induction xs arbitrary: a i)
  case (Cons x xs)
  show ?case
  proof (cases i)
    case (Suc j)
    have "unat (4 * of_nat (Suc j) :: word32) = 4 * Suc j"
      using Cons.prems Suc by (simp add: unat_word_ariths unat_of_nat del: of_nat_Suc)
    then have "4 * of_nat (Suc j) \<noteq> (0 :: word32)" by (metis nat_0_less_mult_iff not_gr0 unsigned_0 zero_less_Suc zero_less_numeral)
    then show ?thesis using Cons.IH [of j "a + 4"] Cons.prems Suc by (simp add: algebra_simps)
  qed simp
qed simp

lemma stm_outside: "(\<And>i. i < length xs \<Longrightarrow> b \<noteq> a + 4 * of_nat i) \<Longrightarrow> stm a xs m b = m b"
proof (induction xs arbitrary: a)
  case (Cons x xs)
  have "b \<noteq> a + 4 + 4 * of_nat i" if "i < length xs" for i
    using Cons.prems [of "Suc i"] that by (simp add: algebra_simps)
  then show ?case using Cons.IH [of "a + 4"] Cons.prems [of 0] by simp
qed simp

lemma eight_cases: "n < 8 \<Longrightarrow> n = 0 \<or> n = 1 \<or> n = 2 \<or> n = 3 \<or> n = 4 \<or> n = 5 \<or> n = 6 \<or> n = 7" for n :: nat
  by arith

lemma turn_pops:
  assumes n: "n < 8" and v: "length (vrs ucb) = 16" "vrs ucb ! 13 = r ! 13 - 4 * of_nat (n + 2)"
  shows "\<exists>v'. unwind_turn (prologue n r im) (0xa8 OR of_nat n) ucb = Some (Next (ucb\<lparr>vrs := v'\<rparr>)) \<and> length v' = 16 \<and>
    v' ! 13 = r ! 13 \<and> v' ! 14 = r ! 14 \<and> v' ! 15 = vrs ucb ! 15 \<and>
    (\<forall>k<12. v' ! k = (if 4 \<le> k \<and> k \<le> 4 + n then r ! k else vrs ucb ! k))"
proof -
  let ?i = "0xa8 OR of_nat n :: word32" and ?im = "prologue n r im" and ?a = "r ! 13 - 4 * of_nat (n + 2) :: word32"
  have i: "?i AND 0xc0 = 0x80" "?i AND 0xf0 = 0xa0" "?i AND 7 = of_nat n" "?i AND 8 = 8"
    using eight_cases [OF n] by (elim disjE; simp)+
  have m: "mem_word ?im (?a + 4 * of_nat k) = pushed n r ! k" if "k < n + 2" for k
    using stm_nth [of k "pushed n r" ?a] that n by (simp add: prologue_def pushed_def)
  obtain v' where v': "pop_range ?im (Suc n) 4 ?a (vrs ucb) = Some (?a + 4 * of_nat (Suc n), v')" "length v' = 16"
    "\<forall>k<16. v' ! k = (if 4 \<le> k \<and> k < 4 + Suc n then mem_word ?im (?a + 4 * of_nat (k - 4)) else vrs ucb ! k)"
    using pop_range_nth [of 4 "Suc n" "vrs ucb" ?im ?a] v(1) n by auto
  have lr: "mem_word ?im (?a + 4 * of_nat (Suc n)) = r ! 14"
    using m [of "Suc n"] by (simp add: pushed_def nth_append)
  have low: "mem_word ?im (?a + 4 * of_nat (k - 4)) = r ! k" if "4 \<le> k" "k \<le> 4 + n" for k
  proof -
    have "k - 4 \<le> n" using that by arith
    then have "pushed n r ! (k - 4) = r ! (4 + (k - 4))" by (simp add: pushed_def nth_append del: upt_Suc)
    then show ?thesis using m [of "k - 4"] that by simp
  qed
  have "unat (of_nat n :: word32) = n" using n by (simp add: unat_of_nat)
  then have "unwind_turn ?im ?i ucb = Some (Next (ucb\<lparr>vrs := v'[14 := r ! 14, 13 := ?a + 4 * of_nat (Suc n) + 4]\<rparr>))"
    using v'(1) lr v(2) i by (simp add: unwind_turn_def Let_def del: pop_range.simps)
  moreover have "?a + 4 * of_nat (Suc n) + 4 = r ! 13" by (simp add: algebra_simps)
  ultimately show ?thesis using v'(2,3) low n
    by (intro exI [of _ "v'[14 := r ! 14, 13 := r ! 13]"]) (auto simp: nth_list_update)
qed

text \<open>
  The short description of such a function: pop, then finish twice.
\<close>

definition prologue_word :: "nat \<Rightarrow> word32" where
  "prologue_word n = 0x8000b0b0 OR push_bit 16 (0xa8 OR of_nat n)"

lemma prologue_word_bytes:
  assumes "n < 8"
  shows "prologue_word n AND 0xff000000 = 0x80000000" "prologue_word n AND 0x80000000 \<noteq> 0" "prologue_word n \<noteq> 1"
    "drop_bit 16 (prologue_word n) AND 0xff = 0xa8 OR of_nat n" "drop_bit 8 (prologue_word n) AND 0xff = 0xb0"
  using eight_cases [OF assms] by (elim disjE; simp add: prologue_word_def)+

lemma execute_prologue:
  assumes n: "n < 8" and a: "mem_word (prologue n r im) a = prologue_word n"
    and u: "ucb = \<lparr>vrs = v, current = a, remaining = 3, ucb_byte = 2\<rparr>" "length v = 16"
      "v ! 13 = r ! 13 - 4 * of_nat (n + 2)" "v ! 15 = 0"
  shows "\<exists>ucb'. unwind_execute_instruction (prologue n r im) ucb = Some (0, ucb') \<and>
    vrs ucb' ! 13 = r ! 13 \<and> vrs ucb' ! 14 = r ! 14 \<and> vrs ucb' ! 15 = r ! 14 \<and>
    vrs ucb' ! 7 = (if 3 \<le> n then r ! 7 else v ! 7)"
proof -
  let ?im = "prologue n r im" and ?i = "0xa8 OR of_nat n :: word32"
  let ?u = "\<lparr>vrs = v, current = a, remaining = 2, ucb_byte = 1\<rparr>"
  have i: "?i \<noteq> UINT32_MAX" using eight_cases [OF n] by (elim disjE; simp)
  obtain v' where v': "unwind_turn ?im ?i ?u = Some (Next (?u\<lparr>vrs := v'\<rparr>))" "length v' = 16" "v' ! 13 = r ! 13"
    "v' ! 14 = r ! 14" "v' ! 15 = 0" "v' ! 7 = (if 3 \<le> n then r ! 7 else v ! 7)"
    using turn_pops [OF n, of ?u r im] u by auto
  let ?w = "?u\<lparr>vrs := v'\<rparr>"
  have s1: "unwind_get_next_byte ?im ucb = (?i, ?u)"
    using prologue_word_bytes [OF n] a u(1) by (simp add: unwind_get_next_byte_def)
  have s2: "unwind_get_next_byte ?im ?w = (0xb0, ?w\<lparr>remaining := 1, ucb_byte := 0\<rparr>)"
    using prologue_word_bytes [OF n] a by (simp add: unwind_get_next_byte_def)
  have "unwind_turn ?im 0xb0 (?w\<lparr>remaining := 1, ucb_byte := 0\<rparr>) = Some (Done 0 (?w\<lparr>remaining := 1, ucb_byte := 0, vrs := v'[15 := v' ! 14]\<rparr>))"
    using v'(5) by (simp add: unwind_turn_def Let_def)
  then have e: "unwind_execute_instruction ?im ?w = Some (0, ?w\<lparr>remaining := 1, ucb_byte := 0, vrs := v'[15 := v' ! 14]\<rparr>)"
    using s2 by (subst unwind_execute_instruction.simps) simp
  have "unwind_execute_instruction ?im ucb = unwind_execute_instruction ?im ?w"
    using s1 v'(1) i by (subst unwind_execute_instruction.simps) simp
  with e have "unwind_execute_instruction ?im ucb = Some (0, ?w\<lparr>remaining := 1, ucb_byte := 0, vrs := v'[15 := v' ! 14]\<rparr>)"
    by simp
  then show ?thesis using v'(2-6) by simp
qed

section \<open>What the unwinder promises\<close>

text \<open>
  C24. The binary search finds the entry of a function: on an index of at least one entry in
  ascending order it returns a position of the index, and the entries from the second on that
  start at or below the address are exactly those up to that position. So the entry is the last
  one that starts at or below the address, or the first one of all when there is none.
\<close>

theorem unwind_search_finds:
  assumes "0 < n" and "\<And>i j. 0 \<le> i \<Longrightarrow> i < j \<Longrightarrow> j < n \<Longrightarrow> function_start im i \<le> function_start im j"
    and "r = unwind_search_index im 0 n ip"
  shows "0 \<le> r \<and> r < n \<and> (\<forall>i. 0 < i \<and> i < n \<longrightarrow> (function_start im i \<le> ip \<longleftrightarrow> i \<le> r))"
proof -
  have b: "0 \<le> r" "r < n" "r \<noteq> 0 \<longrightarrow> function_start im r \<le> ip" "r + 1 \<noteq> n \<longrightarrow> ip < function_start im (r + 1)"
    using search_bracket [OF assms(1), of im ip] assms(3) by simp_all
  have "function_start im i \<le> ip \<longleftrightarrow> i \<le> r" if i: "0 < i" "i < n" for i
  proof (cases "i \<le> r")
    case True
    then have "function_start im i \<le> function_start im r" using assms(2) [of i r] b(2) i(1) by (cases "i = r") auto
    with b(3) True i(1) show ?thesis by auto
  next
    case False
    then have "function_start im (r + 1) \<le> function_start im i"
      using assms(2) [of "r + 1" i] b(1) i(2) by (cases "i = r + 1") auto
    moreover have "r + 1 \<noteq> n" using False i(2) by linarith
    ultimately show ?thesis using b(4) False by auto
  qed
  with b show ?thesis by blast
qed

text \<open>
  C22. Unwinding undoes the prologue: for a function that starts with a push of r4 to r(4+n) and
  the link register, described in the short form, unwinding a frame inside it gives the stack
  pointer, the link register and, when it was pushed, the frame pointer its caller had, and goes
  on at the return address.
\<close>

theorem unwind_frame_prologue:
  assumes "n < 8" and "i = unwind_search_index (prologue n r im) 0 (exidx_count im) (frame_pc frame)"
    and "mem_word (prologue n r im) (insn im i) = prologue_word n"
    and "frame_sp frame = r ! 13 - 4 * of_nat (n + 2)"
    and "r ! 14 \<noteq> 0" and "r ! 14 AND 0xf0000000 \<noteq> 0xf0000000" and "r ! 14 \<noteq> frame_pc frame"
  shows "unwind_frame (prologue n r im) frame =
    Some (1, \<lparr>frame_fp = (if 3 \<le> n then r ! 7 else frame_fp frame), frame_sp = r ! 13, frame_lr = r ! 14, frame_pc = r ! 14\<rparr>)"
proof -
  let ?im = "prologue n r im"
  have im: "exidx_count ?im = exidx_count im" "insn ?im = insn im" by (simp_all add: prologue_def insn_def fun_eq_iff)
  let ?v = "(replicate 16 0)[7 := frame_fp frame, 13 := frame_sp frame, 14 := frame_lr frame, 15 := 0] :: word32 list"
  let ?u = "\<lparr>vrs = ?v, current = insn im i, remaining = 3, ucb_byte = 2\<rparr>"
  have init: "unwind_control_block_init ?im (insn im i) (Some frame) = Some ?u"
    using assms(3) prologue_word_bytes [OF assms(1)] by (simp add: unwind_control_block_init_def)
  obtain u where u: "unwind_execute_instruction ?im ?u = Some (0, u)"
    "vrs u ! 13 = r ! 13" "vrs u ! 14 = r ! 14" "vrs u ! 15 = r ! 14" "vrs u ! 7 = (if 3 \<le> n then r ! 7 else ?v ! 7)"
    using execute_prologue [OF assms(1,3) refl, of ?v] assms(4) by auto
  show ?thesis
    unfolding unwind_frame_def Let_def im assms(2) [symmetric] assms(3)
    using prologue_word_bytes(2,3) [OF assms(1)] init u assms(5-7) by simp
qed

text \<open>
  The interpreter keeps to its registers: from a control block with sixteen registers whose
  last instruction byte is not the pop under a mask of r0 to r3, which needs one more byte,
  execution ends, writes no register beyond the sixteen and returns 0 or -1, never a positive
  status.
\<close>

theorem unwind_stays_in_registers:
  assumes "length (vrs ucb) = 16" and "ucb_bytes im ucb \<noteq> [] \<longrightarrow> last (ucb_bytes im ucb) \<noteq> 0xb1"
  shows "\<exists>r ucb'. unwind_execute_instruction im ucb = Some (r, ucb') \<and> (r = 0 \<or> r = - 1) \<and> length (vrs ucb') = 16"
  using assms by (rule execute_safe)

text \<open>
  C21. The walk over the frames ends within its buffer, whatever the stack holds: for a size of
  at least one it fills between one and \<open>size\<close> entries, and no entry of the caller's array
  beyond \<open>size\<close> changes.
\<close>

theorem backtrace_bounded:
  assumes "complete_tables im" and "1 \<le> sz" and "nat sz \<le> length buffer"
  shows "\<exists>c buf. backtrace_unwind im buffer sz frame = Some (c, buf) \<and> 1 \<le> c \<and> c \<le> sz \<and>
    length buf = length buffer \<and> drop (nat sz) buf = drop (nat sz) buffer"
  using assms by (rule unwind_bounded)

text \<open>
  A frame that cannot be unwound does not end the walk: the status -1 counts as success, so
  the same entry fills the whole buffer and the count returned is \<open>size\<close>.
\<close>

theorem backtrace_error_repeats:
  assumes "unwind_frame im frame = Some (- 1, frame)" and "frame_pc frame AND 0xfffffffe = frame_pc frame"
    and "frame_pc frame \<noteq> 0" and "\<not> (entry_point im \<le> frame_pc frame \<and> frame_pc frame \<le> entry_point im + 64)"
    and "fn = function_start im (unwind_search_index im 0 (exidx_count im) (frame_pc frame))" and "1 \<le> sz"
  shows "backtrace_unwind im (replicate (nat sz) e) sz frame =
    Some (sz, replicate (nat sz) \<lparr>bt_function = fn, bt_address = frame_pc frame, bt_name_of = unwind_get_function_name im fn\<rparr>)"
proof -
  have "frame_pc frame \<noteq> 1" using assms(2) by auto
  from walk_repeats [OF assms(1,2,3) this assms(4,5), of 0 sz "replicate (nat sz) \<lparr>bt_function = 0, bt_address = 0, bt_name_of = No_Name\<rparr>"]
  obtain buf where b: "unwind_walk im sz 0 (replicate (nat sz) \<lparr>bt_function = 0, bt_address = 0, bt_name_of = No_Name\<rparr>) frame = Some (sz, buf)"
    "length buf = nat sz" "\<forall>i<nat sz. buf ! i = \<lparr>bt_function = fn, bt_address = frame_pc frame, bt_name_of = unwind_get_function_name im fn\<rparr>"
    using assms(6) by auto
  then have "buf = replicate (nat sz) \<lparr>bt_function = fn, bt_address = frame_pc frame, bt_name_of = unwind_get_function_name im fn\<rparr>"
    by (intro nth_equalityI) simp_all
  with b(1) assms(6) show ?thesis by (simp add: backtrace_unwind_def)
qed

section \<open>Witnesses\<close>

text \<open>
  An image with two functions: the index lies at 0x1000, the functions start at 0x1000 + 0x100 and
  0x1008 + 0x200, each pushes r4 and the link register. A second image has descriptions of an
  unknown kind.
\<close>

definition demo_image :: image where
  "demo_image = \<lparr>mem_word = (\<lambda>_. 0x80a8b0b0)(0x1000 := 0x100, 0x1008 := 0x200), exidx_start = 0x1000, exidx_count = 2,
     psp_reg = 0, entry_point = 0x8000\<rparr>"

definition bad_image :: image where
  "bad_image = \<lparr>mem_word = (\<lambda>_. 0x90000000), exidx_start = 0x1000, exidx_count = 1, psp_reg = 0, entry_point = 0x8000\<rparr>"

definition demo_entry :: backtrace where
  "demo_entry = \<lparr>bt_function = 1, bt_address = 2, bt_name_of = No_Name\<rparr>"

definition demo_frame :: backtrace_frame where
  "demo_frame = \<lparr>frame_fp = 0, frame_sp = 0, frame_lr = 0, frame_pc = 0x2000\<rparr>"

theorem unwind_search_finds_witness:
  "function_start demo_image 1 = 0x1208 \<and> unwind_search_index demo_image 0 2 0x1300 = 1"
proof -
  have s: "function_start demo_image 0 = 0x1100" "function_start demo_image 1 = 0x1208"
    by (simp_all add: function_start_def prel31_to_addr_def addr_offset_def demo_image_def)
  have "function_start demo_image i \<le> function_start demo_image j" if "0 \<le> i" "i < j" "j < 2" for i j
  proof -
    have "i = 0" "j = 1" using that by simp_all
    with s show ?thesis by simp
  qed
  note w = unwind_search_finds [of 2 demo_image "unwind_search_index demo_image 0 2 0x1300" "0x1300", OF _ this refl]
  from w have "unwind_search_index demo_image 0 2 0x1300 < 2" by simp
  moreover from w have "1 \<le> unwind_search_index demo_image 0 2 0x1300" by (auto simp: s(2) dest: spec [of _ 1])
  ultimately have "unwind_search_index demo_image 0 2 0x1300 = 1" by linarith
  with s show ?thesis by simp
qed

theorem unwind_frame_prologue_witness:
  "unwind_frame (prologue 0 ((replicate 16 0)[4 := 7, 13 := 0x20000100, 14 := 0x1150]) demo_image)
     \<lparr>frame_fp = 9, frame_sp = 0x200000f8, frame_lr = 5, frame_pc = 0x1300\<rparr> =
   Some (1, \<lparr>frame_fp = 9, frame_sp = 0x20000100, frame_lr = 0x1150, frame_pc = 0x1150\<rparr>)"
proof -
  let ?r = "(replicate 16 0)[4 := 7, 13 := 0x20000100, 14 := 0x1150] :: word32 list"
  let ?im = "prologue 0 ?r demo_image"
  have m: "mem_word ?im a = mem_word demo_image a" if "a \<noteq> 0x200000f8" "a \<noteq> 0x200000fc" for a
    using that by (simp add: prologue_def pushed_def)
  have "prel31_to_addr ?im (addr_offset ?im 1) = 0x1208"
    by (simp add: prel31_to_addr_def m) (simp add: addr_offset_def prologue_def demo_image_def pushed_def)
  then have "unwind_search_index ?im 0 2 0x1300 = 1"
    by (simp add: unwind_search_index.simps [of _ 0 2] unwind_search_index.simps [of _ 1 2])
  moreover have "mem_word ?im (insn demo_image 1) = prologue_word 0"
    by (simp add: prologue_def insn_def demo_image_def pushed_def prologue_word_def)
  ultimately show ?thesis
    using unwind_frame_prologue [of 0 1 ?r demo_image "\<lparr>frame_fp = 9, frame_sp = 0x200000f8, frame_lr = 5, frame_pc = 0x1300\<rparr>"]
    by (simp add: demo_image_def)
qed

lemma demo_bytes:
  assumes "unwind_control_block_init demo_image (description demo_image i) (Some frame) = Some ucb" "0 \<le> i" "i < 2"
  shows "ucb_bytes demo_image ucb = [0xa8, 0xb0, 0xb0]"
proof -
  have "i = 0 \<or> i = 1" using assms(2,3) by auto
  then have d: "description demo_image i = 0x1004 \<or> description demo_image i = 0x100c"
    by (auto simp: description_def insn_def demo_image_def)
  have w: "mem_word demo_image a = 0x80a8b0b0" if "a = 0x1004 \<or> a = 0x100c" for a
    using that by (auto simp: demo_image_def)
  have "current ucb = description demo_image i" "remaining ucb = 3" "ucb_byte ucb = 2"
    using assms(1) w [OF d] by (auto simp: unwind_control_block_init_def)
  then show ?thesis using w [OF d]
    by (simp add: ucb_bytes.simps unwind_get_next_byte_def)
qed

theorem unwind_stays_in_registers_witness:
  "\<exists>r ucb. unwind_execute_instruction demo_image \<lparr>vrs = replicate 16 0, current = 0x1004, remaining = 3, ucb_byte = 2\<rparr> = Some (r, ucb) \<and>
    (r = 0 \<or> r = - 1) \<and> length (vrs ucb) = 16"
  by (rule unwind_stays_in_registers) (simp_all add: ucb_bytes.simps unwind_get_next_byte_def demo_image_def)

theorem backtrace_bounded_witness:
  "\<exists>c buf. backtrace_unwind demo_image [demo_entry, demo_entry, demo_entry] 2 demo_frame = Some (c, buf) \<and> 1 \<le> c \<and> c \<le> 2 \<and> length buf = 3 \<and> drop 2 buf = [demo_entry]"
proof -
  have "complete_tables demo_image"
    using demo_bytes by (auto simp: complete_tables_def) (auto simp: demo_image_def)
  from backtrace_bounded [OF this, of 2 "[demo_entry, demo_entry, demo_entry]" demo_frame] show ?thesis
    by (simp add: numeral_3_eq_3)
qed

theorem backtrace_error_repeats_witness:
  "\<exists>x. backtrace_unwind bad_image (replicate 5 demo_entry) 5 demo_frame =
    Some (5, replicate 5 x)"
proof -
  have "unwind_frame bad_image demo_frame = Some (- 1, demo_frame)"
    by (simp add: unwind_frame_def Let_def unwind_search_index.simps bad_image_def demo_frame_def unwind_control_block_init_def)
  from backtrace_error_repeats [OF this _ _ _ refl, of 5 demo_entry] show ?thesis
    by (auto simp: bad_image_def demo_frame_def)
qed

end
