(* ===== verification/Fault_Handler.thy ===== *)
theory Fault_Handler
  imports Backtrace Libc_Glue
begin

text \<open>
  The hard fault handler: the entry in \<open>fault-m0plus-asm.S\<close>, which moves to a stack of the core's
  own, and \<open>fault.c\<close>, which collects the registers and unwinds the stack. The theorems: the report
  holds the registers at the fault and the backtrace from there, and the second core has no stack to
  report on. \<open>writable\<close> says which addresses take a store: a push anywhere else faults, inside the handler
  of faults, and the core locks up.
\<close>

section \<open>Data\<close>

record fault_frame =
  ff_r0 :: word32
  ff_r1 :: word32
  ff_r2 :: word32
  ff_r3 :: word32
  ff_ip :: word32
  ff_lr :: word32
  ff_pc :: word32
  ff_psr :: word32

record callee_registers =
  cr_r8 :: word32
  cr_r9 :: word32
  cr_r10 :: word32
  cr_r11 :: word32
  cr_r4 :: word32
  cr_r5 :: word32
  cr_r6 :: word32
  cr_r7 :: word32

record cortexm_fault =
  f_r0 :: word32
  f_r1 :: word32
  f_r2 :: word32
  f_r3 :: word32
  f_r4 :: word32
  f_r5 :: word32
  f_r6 :: word32
  f_r7 :: word32
  f_r8 :: word32
  f_r9 :: word32
  f_r10 :: word32
  f_r11 :: word32
  f_IP :: word32
  f_LR :: word32
  f_SP :: word32
  f_PC :: word32
  f_PSR :: word32
  fault_type :: word32
  exception_return :: word32
  f_core :: word32

text \<open>The structures the pointers of the handler point to, word by word.\<close>

definition fault_frame_at :: "memory \<Rightarrow> addr \<Rightarrow> fault_frame" where
  "fault_frame_at m a = \<lparr>ff_r0 = load_word m a, ff_r1 = load_word m (a + 4), ff_r2 = load_word m (a + 8),
     ff_r3 = load_word m (a + 12), ff_ip = load_word m (a + 16), ff_lr = load_word m (a + 20),
     ff_pc = load_word m (a + 24), ff_psr = load_word m (a + 28)\<rparr>"

definition callee_registers_at :: "memory \<Rightarrow> addr \<Rightarrow> callee_registers" where
  "callee_registers_at m a = \<lparr>cr_r8 = load_word m a, cr_r9 = load_word m (a + 4), cr_r10 = load_word m (a + 8),
     cr_r11 = load_word m (a + 12), cr_r4 = load_word m (a + 16), cr_r5 = load_word m (a + 20),
     cr_r6 = load_word m (a + 24), cr_r7 = load_word m (a + 28)\<rparr>"

section \<open>The entry\<close>

text \<open>The registers when the handler starts: \<open>low\<close> are r4 to r7, \<open>high\<close> are r8 to r11.\<close>

record cpu =
  low :: "word32 list"
  high :: "word32 list"
  cpu_msp :: addr
  cpu_psp :: addr
  cpu_lr :: word32
  cpu_core :: word32
  icsr :: word32

text \<open>\<open>push\<close> of registers in ascending order: the lowest at the lowest address.\<close>

fun store_words :: "memory \<Rightarrow> addr \<Rightarrow> word32 list \<Rightarrow> memory" where
  "store_words m a [] = m"
| "store_words m a (v # vs) = store_words (store_word m a v) (a + 4) vs"

definition push_words :: "(addr \<Rightarrow> bool) \<Rightarrow> word32 list \<Rightarrow> addr \<times> memory \<Rightarrow> (addr \<times> memory) option" where
  "push_words writable vs = (\<lambda>(sp, m).
    let sp = sp - 4 * of_nat (length vs)
    in if list_all (\<lambda>i. writable (sp + of_nat i)) [0..<4 * length vs] then Some (sp, store_words m sp vs) else None)"

text \<open>
  \<open>HardFault_Handler\<close>: what it passes to \<open>hard_fault\<close>, the pointer to the stacked frame, the
  pointer to the registers it pushed and the value of the link register; \<open>None\<close> when a push faults.
\<close>

definition HardFault_Handler ::
  "(addr \<Rightarrow> bool) \<Rightarrow> image_layout \<Rightarrow> addr \<Rightarrow> cpu \<Rightarrow> memory \<Rightarrow> (addr \<times> addr \<times> word32 \<times> memory) option" where
  "HardFault_Handler writable L fault_stack c m = do {
     let r0 = (if cpu_core c = 0 then core_0 L else core_1 L);
     let r1 = fault_stack - core_data L;
     let r2 = load_word m (r0 + r1);
     let frame = (if 4 AND cpu_lr c = 0 then cpu_msp c else cpu_psp c);
     (sp, m) \<leftarrow> push_words writable (low c) (r2, m);
     (sp, m) \<leftarrow> push_words writable (high c) (sp, m);
     Some (frame, sp, cpu_lr c, m)
   }"

section \<open>The report\<close>

definition assemble_cortexm_fault :: "cpu \<Rightarrow> memory \<Rightarrow> addr \<Rightarrow> addr \<Rightarrow> word32 \<Rightarrow> cortexm_fault" where
  "assemble_cortexm_fault c m frame callee exc =
    (let ff = fault_frame_at m frame; cr = callee_registers_at m callee
     in \<lparr>f_r0 = ff_r0 ff, f_r1 = ff_r1 ff, f_r2 = ff_r2 ff, f_r3 = ff_r3 ff, f_r4 = cr_r4 cr, f_r5 = cr_r5 cr,
         f_r6 = cr_r6 cr, f_r7 = cr_r7 cr, f_r8 = cr_r8 cr, f_r9 = cr_r9 cr, f_r10 = cr_r10 cr, f_r11 = cr_r11 cr,
         f_IP = ff_ip ff, f_LR = ff_lr ff, f_SP = frame, f_PC = ff_pc ff, f_PSR = ff_psr ff,
         fault_type = icsr c AND 0x1ff, exception_return = exc, f_core = cpu_core c\<rparr>)"

text \<open>What is printed: the header, the rows of registers and the entries of the backtrace.\<close>

record fault_report =
  rep_header :: "word32 \<times> word32 \<times> word32"
  rep_rows :: "word32 list list"
  rep_entries :: "backtrace list"

definition FAULT_ENTRIES :: nat where "FAULT_ENTRIES = 10"

definition fault_backtrace_frame :: "cortexm_fault \<Rightarrow> backtrace_frame" where
  "fault_backtrace_frame f =
    \<lparr>frame_fp = f_r7 f, frame_sp = f_SP f, frame_lr = f_LR f,
     frame_pc = (if exception_return f = 0xfffffff1 then f_LR f else f_PC f)\<rparr>"

text \<open>\<open>None\<close> stands for a write outside the array \<open>fault_backtrace\<close> of the core.\<close>

definition save_fault :: "image \<Rightarrow> backtrace list \<Rightarrow> cortexm_fault \<Rightarrow> (fault_report \<times> backtrace list) option" where
  "save_fault im buffer f = do {
     let fault_pc = (if exception_return f = 0xfffffff1 then f_LR f else f_PC f);
     (backtrace_entries, buffer) \<leftarrow> backtrace_unwind im buffer (int FAULT_ENTRIES) (fault_backtrace_frame f);
     Some (\<lparr>rep_header = (f_core f, fault_pc, f_PSR f),
            rep_rows = [[f_r0 f, f_r1 f, f_r2 f, f_r3 f], [f_r4 f, f_r5 f, f_r6 f, f_r7 f],
              [f_r8 f, f_r9 f, f_r10 f, f_r11 f], [f_IP f, f_LR f, f_SP f, f_PC f]],
            rep_entries = take (nat backtrace_entries) buffer\<rparr>, buffer)
   }"

text \<open>
  \<open>hard_fault\<close>: \<open>init\<close> is \<open>init_fault\<close>, which \<open>multicore-glue.c\<close> replaces by sending the other core
  into a trap; \<open>None\<close> is an \<open>init\<close> that waits for ever. The handler does not return: \<open>reset_fault\<close>
  stops the system after the report.
\<close>

definition hard_fault ::
  "('w \<Rightarrow> 'w option) \<Rightarrow> image \<Rightarrow> cpu \<Rightarrow> backtrace list \<Rightarrow> addr \<times> addr \<times> word32 \<times> memory \<Rightarrow> 'w
    \<Rightarrow> (fault_report \<times> backtrace list \<times> 'w) option" where
  "hard_fault init im c buffer = (\<lambda>(frame, callee, exc, m) w. do {
     w \<leftarrow> init w;
     let fault = assemble_cortexm_fault c m frame callee exc;
     (report, buffer) \<leftarrow> save_fault (im\<lparr>mem_word := load_word m, psp_reg := cpu_psp c\<rparr>) buffer fault;
     Some (report, buffer, w)
   })"

text \<open>
  \<open>init_fault\<close> of \<open>multicore-glue.c\<close>: the address of the trap goes into the FIFO to the other core,
  which holds \<open>depth\<close> words. The push into a full FIFO waits for the other core to take a word out:
  \<open>None\<close> when it does not.
\<close>

definition multicore_init_fault :: "nat \<Rightarrow> addr \<Rightarrow> word32 list \<Rightarrow> word32 list option" where
  "multicore_init_fault depth multicore_trap fifo =
    (if length fifo < depth then Some (fifo @ [multicore_trap]) else None)"

definition FAULT_HANDLER_STACK_SIZE :: word32 where "FAULT_HANDLER_STACK_SIZE = 512"

text \<open>\<open>fault_init\<close> runs once, before \<open>main\<close>, on core \<open>c\<close>.\<close>

definition fault_init :: "image_layout \<Rightarrow> heap_syms \<Rightarrow> addr \<Rightarrow> word32 \<Rightarrow> heap_state \<times> memory \<Rightarrow> heap_state \<times> memory" where
  "fault_init L H fault_stack c = (\<lambda>(h, m).
    let (stack, h) = sbrk H FAULT_HANDLER_STACK_SIZE h
    in (h, store_word m (cls_datum_ptr L c fault_stack) (stack + FAULT_HANDLER_STACK_SIZE)))"


section \<open>What the entry pushes\<close>

lemma load_store_apart: "apart a 4 b 4 \<Longrightarrow> load_word (store_word m a v) b = load_word m b"
  by (intro load_word_cong store_word_out) (meson apartD areas_apart_sym)

text \<open>What the handler leaves below \<open>tos\<close>, the end of its stack: r8 to r11 under r4 to r7.\<close>

definition handler_saves :: "cpu \<Rightarrow> addr \<Rightarrow> memory \<Rightarrow> memory" where
  "handler_saves c tos m = store_words (store_words m (tos - 16) (low c)) (tos - 32) (high c)"

lemma handler_pushes:
  assumes "length (low c) = 4" and "length (high c) = 4"
    and "stack_top = load_word m (cls_datum_ptr L (cpu_core c) fault_stack)"
    and writable: "\<forall>b. b - (stack_top - 32) < 32 \<longrightarrow> writable b"
  shows "HardFault_Handler writable L fault_stack c m =
    Some (if cpu_lr c AND 4 = 0 then cpu_msp c else cpu_psp c, stack_top - 32, cpu_lr c, handler_saves c stack_top m)"
proof -
  have b: "writable (stack_top - 32 + of_nat i)" if "i < 32" for i
    using writable that by (simp add: word_less_nat_alt unat_of_nat)
  have "writable (stack_top - 16 + of_nat i)" if "i < 16" for i
    using b [of "16 + i"] that by (simp add: algebra_simps)
  then have "list_all (\<lambda>i. writable (stack_top - 16 + of_nat i)) [0..<16]" "list_all (\<lambda>i. writable (stack_top - 32 + of_nat i)) [0..<16]"
    using b by (simp_all add: list_all_iff)
  then show ?thesis
    using assms(1-3)
    by (auto simp: HardFault_Handler_def push_words_def handler_saves_def cls_datum_ptr_def aeabi_read_cls_def cls_offset_def
        and.commute [of 4] Let_def split: if_splits)
qed

text \<open>The pushed registers, seen through the pointer the handler passes on.\<close>

lemma pushed_registers:
  assumes "low c = [r4, r5, r6, r7]" and "high c = [r8, r9, r10, r11]"
  shows "callee_registers_at (handler_saves c tos m) (tos - 32) = \<lparr>cr_r8 = r8, cr_r9 = r9, cr_r10 = r10, cr_r11 = r11,
       cr_r4 = r4, cr_r5 = r5, cr_r6 = r6, cr_r7 = r7\<rparr>"
    "\<And>b. \<not> b - (tos - 32) < 32 \<Longrightarrow> handler_saves c tos m b = m b"
proof -
  show "callee_registers_at (handler_saves c tos m) (tos - 32) = \<lparr>cr_r8 = r8, cr_r9 = r9, cr_r10 = r10, cr_r11 = r11,
       cr_r4 = r4, cr_r5 = r5, cr_r6 = r6, cr_r7 = r7\<rparr>"
    by (simp add: assms handler_saves_def callee_registers_at_def load_store_apart apart_def)
  show "handler_saves c tos m b = m b" if "\<not> b - (tos - 32) < 32" for b
  proof -
    have "\<not> b - (tos - of_nat k) < 4" if k: "4 \<le> k" "k \<le> 32" for k
    proof -
      have "(b - (tos - 32)) - (32 - of_nat k) = b - (tos - of_nat k)" by simp
      moreover have "\<not> x - (32 - of_nat k) < 4" if "\<not> x < 32" for x :: word32
        using that k off_in [of "32 - of_nat k" 4 x] by (simp add: word_less_nat_alt unat_sub word_le_nat_alt unat_of_nat) linarith
      ultimately show ?thesis using that \<open>\<not> b - (tos - 32) < 32\<close> by metis
    qed
    note this [of 4] this [of 8] this [of 12] this [of 16] this [of 20] this [of 24] this [of 28] this [of 32]
    then show ?thesis by (simp add: assms handler_saves_def store_word_out)
  qed
qed

text \<open>The stacked frame is still there.\<close>

lemma pushed_keeps_frame:
  assumes "low c = [r4, r5, r6, r7]" and "high c = [r8, r9, r10, r11]" and "apart (tos - 32) 32 frame 32"
  shows "fault_frame_at (handler_saves c tos m) frame = fault_frame_at m frame"
proof -
  let ?m = "handler_saves c tos m"
  have kept: "?m b = m b" if "b - frame < 32" for b
    using pushed_registers(2) [OF assms(1,2)] apartD [of frame 32 "tos - 32" 32 b] assms(3) that by (simp add: areas_apart_sym)
  have "load_word ?m (frame + of_nat k) = load_word m (frame + of_nat k)" if "k \<le> 28" for k
  proof (intro load_word_cong)
    fix b
    assume "b - (frame + of_nat k) < 4"
    then have "unat (b - frame) < k + 4"
      using that off_in [of "of_nat k" 4 "b - frame"] by (simp add: diff_diff_eq unat_of_nat)
    then show "?m b = m b" using \<open>k \<le> 28\<close> kept by (simp add: word_less_nat_alt)
  qed
  from this [of 0] this [of 4] this [of 8] this [of 12] this [of 16] this [of 20] this [of 24] this [of 28]
  show ?thesis by (simp add: fault_frame_at_def)
qed


section \<open>The theorems\<close>

text \<open>
  C17. A fault on a core whose fault stack has been set up, 32 bytes of RAM below its top being all
  the entry needs. The report holds the registers at the fault: those the processor stacked in the
  frame, those the handler saved on its own stack, and the kind of fault. Its backtrace is what
  \<open>_backtrace_unwind\<close> writes, between one and ten entries, when it starts at the fault: with the
  frame pointer r7, the stack pointer at the stacked frame, the stacked link register, and as pc the
  stacked program counter, or the link register after a fault in a handler. The other core has been
  sent into the trap, if there is room in its FIFO; if there is none and the other core does not
  make any, the handler never gets to the report. (Core 1 has no fault stack: see below.)
\<close>

theorem hard_fault_reports:
  assumes "low c = [r4, r5, r6, r7]" and "high c = [r8, r9, r10, r11]"
    and "frame = (if cpu_lr c AND 4 = 0 then cpu_msp c else cpu_psp c)"
    and "stack_top = load_word m (cls_datum_ptr L (cpu_core c) fault_stack)" and "\<forall>b. b - (stack_top - 32) < 32 \<longrightarrow> writable b"
    and "apart (stack_top - 32) 32 frame 32"
    and "at_fault = im\<lparr>mem_word := load_word (handler_saves c stack_top m), psp_reg := cpu_psp c\<rparr>"
    and "complete_tables at_fault" and "length buffer = FAULT_ENTRIES"
    and "fault_pc = (if cpu_lr c = 0xfffffff1 then load_word m (frame + 20) else load_word m (frame + 24))"
  shows "\<exists>passed n entries. HardFault_Handler writable L fault_stack c m = Some passed \<and>
    backtrace_unwind at_fault buffer 10
      \<lparr>frame_fp = r7, frame_sp = frame, frame_lr = load_word m (frame + 20), frame_pc = fault_pc\<rparr> = Some (n, entries) \<and>
    1 \<le> n \<and> n \<le> 10 \<and> length entries = 10 \<and>
    hard_fault (multicore_init_fault depth trap) im c buffer passed fifo =
      (if length fifo < depth
       then Some (\<lparr>rep_header = (cpu_core c, fault_pc, load_word m (frame + 28)),
              rep_rows = [[load_word m frame, load_word m (frame + 4), load_word m (frame + 8), load_word m (frame + 12)],
                [r4, r5, r6, r7], [r8, r9, r10, r11],
                [load_word m (frame + 16), load_word m (frame + 20), frame, load_word m (frame + 24)]],
              rep_entries = take (nat n) entries\<rparr>, entries, fifo @ [trap])
       else None)"
proof -
  let ?m = "handler_saves c stack_top m"
  let ?start = "\<lparr>frame_fp = r7, frame_sp = frame, frame_lr = load_word m (frame + 20), frame_pc = fault_pc\<rparr>"
  have h: "HardFault_Handler writable L fault_stack c m = Some (frame, stack_top - 32, cpu_lr c, ?m)"
    using handler_pushes [of c stack_top m L fault_stack writable] assms(1-5) by simp
  have ff: "fault_frame_at ?m frame = fault_frame_at m frame" by (rule pushed_keeps_frame [OF assms(1,2,6)])
  obtain n entries where w: "backtrace_unwind at_fault buffer 10 ?start = Some (n, entries)"
    "1 \<le> n" "n \<le> 10" "length entries = length buffer"
    using unwind_bounded [OF assms(8), of 10 buffer ?start] assms(9) by (auto simp: FAULT_ENTRIES_def)
  define f where "f = assemble_cortexm_fault c ?m frame (stack_top - 32) (cpu_lr c)"
  have regs: "f_r0 f = load_word m frame" "f_r1 f = load_word m (frame + 4)" "f_r2 f = load_word m (frame + 8)"
    "f_r3 f = load_word m (frame + 12)" "f_IP f = load_word m (frame + 16)" "f_LR f = load_word m (frame + 20)"
    "f_PC f = load_word m (frame + 24)" "f_PSR f = load_word m (frame + 28)" "f_SP f = frame"
    "f_r4 f = r4" "f_r5 f = r5" "f_r6 f = r6" "f_r7 f = r7" "f_r8 f = r8" "f_r9 f = r9" "f_r10 f = r10" "f_r11 f = r11"
    "exception_return f = cpu_lr c" "f_core f = cpu_core c"
    by (simp_all add: f_def assemble_cortexm_fault_def Let_def ff pushed_registers(1) [OF assms(1,2)]) (simp_all add: fault_frame_at_def)
  have "fault_backtrace_frame f = ?start" by (simp add: fault_backtrace_frame_def regs assms(10))
  then have "save_fault at_fault buffer f =
      Some (\<lparr>rep_header = (cpu_core c, fault_pc, load_word m (frame + 28)),
              rep_rows = [[load_word m frame, load_word m (frame + 4), load_word m (frame + 8), load_word m (frame + 12)],
                [r4, r5, r6, r7], [r8, r9, r10, r11],
                [load_word m (frame + 16), load_word m (frame + 20), frame, load_word m (frame + 24)]],
              rep_entries = take (nat n) entries\<rparr>, entries)"
    using w(1) by (simp add: save_fault_def regs FAULT_ENTRIES_def assms(10))
  then have "hard_fault (multicore_init_fault depth trap) im c buffer (frame, stack_top - 32, cpu_lr c, ?m) fifo =
      (if length fifo < depth
       then Some (\<lparr>rep_header = (cpu_core c, fault_pc, load_word m (frame + 28)),
              rep_rows = [[load_word m frame, load_word m (frame + 4), load_word m (frame + 8), load_word m (frame + 12)],
                [r4, r5, r6, r7], [r8, r9, r10, r11],
                [load_word m (frame + 16), load_word m (frame + 20), frame, load_word m (frame + 24)]],
              rep_entries = take (nat n) entries\<rparr>, entries, fifo @ [trap])
       else None)"
    by (simp add: hard_fault_def multicore_init_fault_def f_def assms(7))
  with h w assms(9) show ?thesis by (auto simp: FAULT_ENTRIES_def)
qed

text \<open>
  The second core has no fault stack: \<open>fault_init\<close> sets the variable of the core that runs it, so
  on core 1 it keeps the null of the image. The handler there moves to the address 0 and pushes
  below it, at the top of the address space, where there is no memory: the push faults in turn, and
  nothing is reported.
\<close>

theorem core_1_has_no_fault_stack:
  assumes "layout_ok L" and "var_ok L fault_stack" and "apart (tls_var L) 4 fault_stack 4"
    and "load_word m fault_stack = 0" and "length (low c) = 4" and "cpu_core c = 1" and "\<not> writable 0xfffffff0"
    and "fault_init L H fault_stack 0 (h, cls_tls_init L m) = (h', m')"
  shows "HardFault_Handler writable L fault_stack c m' = None"
proof -
  have m': "m' = store_word (cls_tls_init L m) (cls_datum_ptr L 0 fault_stack) (fst (sbrk H FAULT_HANDLER_STACK_SIZE h) + FAULT_HANDLER_STACK_SIZE)"
    using assms(8) by (simp add: fault_init_def split_def Let_def)
  have "load_word m' (cls_datum_ptr L 1 fault_stack) = load_word (cls_tls_init L m) (cls_datum_ptr L 1 fault_stack)"
    unfolding m' by (rule store_other_var [OF assms(1) _ assms(2,2)]) simp
  also have "\<dots> = load_word m fault_stack"
  proof (rule load_word_shift)
    fix i :: word32
    assume "i < 4"
    have o: "unat (cls_offset L fault_stack + i) = unat (cls_offset L fault_stack) + unat i" "unat i < 4"
      using \<open>i < 4\<close> assms(1,2)
      by (auto simp: layout_ok_def var_ok_def unat_word_ariths word_less_nat_alt word_le_nat_alt)
    have "cls_offset L fault_stack + i < core_data_size L" using o assms(2) by (simp add: var_ok_def word_less_nat_alt)
    moreover have "\<not> cls_offset L fault_stack + i - cls_offset L (tls_var L) < 4"
    proof -
      have "cls_offset L fault_stack + i - cls_offset L (tls_var L) = fault_stack + i - tls_var L"
        by (simp add: cls_offset_def)
      then show ?thesis using apartD [of fault_stack 4 "tls_var L" 4 "fault_stack + i"] assms(3) \<open>i < 4\<close>
        by (simp only: areas_apart_sym) simp
    qed
    ultimately show "cls_tls_init L m (cls_datum_ptr L 1 fault_stack + i) = m (fault_stack + i)"
      using core_data_copied [OF assms(1), of 1 "cls_offset L fault_stack + i" m]
      by (simp add: cls_datum_ptr_def cls_same add.assoc) (simp add: cls_offset_def)
  qed
  finally have "load_word m' (cls_datum_ptr L 1 fault_stack) = 0" using assms(4) by simp
  moreover have "(- 16 :: word32) = 0xfffffff0" by simp
  then have "\<not> writable (- 16)" using assms(7) by (simp only: not_False_eq_True)
  ultimately show ?thesis using assms(5,6)
    by (simp add: HardFault_Handler_def push_words_def Let_def cls_datum_ptr_def aeabi_read_cls_def cls_offset_def upt_rec [of 0])
qed


section \<open>The theorems at concrete states\<close>

text \<open>A fault in a thread of core 0, at \<open>0x1234\<close>.\<close>

definition demo_cpu :: "word32 \<Rightarrow> cpu" where
  "demo_cpu c = \<lparr>low = [4, 5, 6, 7], high = [8, 9, 10, 11], cpu_msp = 0x20001000, cpu_psp = 0x20002000,
     cpu_lr = 0xfffffffd, cpu_core = c, icsr = 3\<rparr>"

definition fault_memory :: memory where
  "fault_memory = store_word (store_word (\<lambda>_. 0) 0x2004100c 0x20003000) 0x20002018 0x1234"

text \<open>The memory of the chip: RAM from \<open>0x20000000\<close> to \<open>0x20042000\<close>.\<close>

definition demo_ram :: "addr \<Rightarrow> bool" where
  "demo_ram a \<longleftrightarrow> 0x20000000 \<le> a \<and> a < 0x20042000"

theorem hard_fault_reports_witness:
  "\<exists>passed n entries. HardFault_Handler demo_ram demo_layout 0x1000500c (demo_cpu 0) fault_memory = Some passed \<and>
    1 \<le> n \<and> n \<le> 10 \<and>
    hard_fault (multicore_init_fault 8 0x10000401) bad_image (demo_cpu 0) (replicate 10 demo_entry) passed [] =
    Some (\<lparr>rep_header = (0, 0x1234, 0), rep_rows = [[0, 0, 0, 0], [4, 5, 6, 7], [8, 9, 10, 11], [0, 0, 0x20002000, 0x1234]],
      rep_entries = take (nat n) entries\<rparr>, entries, [0x10000401])"
proof -
  let ?m = "handler_saves (demo_cpu 0) 0x20003000 fault_memory"
  have ptr: "cls_datum_ptr demo_layout 0 0x1000500c = 0x2004100c"
    by (simp add: cls_datum_ptr_def aeabi_read_cls_def cls_offset_def demo_layout_def)
  have zero: "load_word fault_memory a = 0" if "apart 0x2004100c 4 a 4" "apart 0x20002018 4 a 4" for a
    using that by (simp add: fault_memory_def load_store_apart) (simp add: load_word_def eval_nat_numeral)
  have tops: "load_word fault_memory 0x2004100c = 0x20003000" and pc: "load_word fault_memory 0x20002018 = 0x1234"
    by (simp_all add: fault_memory_def load_store_apart apart_def)
  have writable: "\<forall>b. b - 0x20002fe0 < 32 \<longrightarrow> demo_ram b"
  proof (intro allI impI)
    fix b :: addr
    assume "b - 0x20002fe0 < 32"
    moreover have "b = (b - 0x20002fe0) + 0x20002fe0" by simp
    ultimately obtain i :: word32 where "i < 32" "b = i + 0x20002fe0" by blast
    then show "demo_ram b" by (simp add: demo_ram_def word_less_nat_alt word_le_nat_alt unat_word_ariths)
  qed
  have "load_word ?m a = load_word fault_memory a" if "apart 0x20002fe0 32 a 4" for a
    using pushed_registers(2) [of "demo_cpu 0" 4 5 6 7 8 9 10 11] apartD [of a 4 "0x20002fe0" 32] that
    by (intro load_word_cong) (simp add: demo_cpu_def areas_apart_sym)
  then have w: "load_word ?m 0x1004 = 0" by (simp add: apart_def zero)
  let ?im = "bad_image\<lparr>mem_word := load_word ?m, psp_reg := cpu_psp (demo_cpu 0)\<rparr>"
  have "description ?im 0 = 0x1004" using w by (simp add: description_def insn_def prel31_to_addr_def bad_image_def)
  then have none: "unwind_control_block_init ?im (description ?im 0) f = None" for f
    using w by (simp add: unwind_control_block_init_def Let_def)
  have "complete_tables ?im" unfolding complete_tables_def
  proof (intro conjI allI impI)
    show "0 < exidx_count ?im" by (simp add: bad_image_def)
    fix i frame ucb
    assume a: "0 \<le> i \<and> i < exidx_count ?im \<and> unwind_control_block_init ?im (description ?im i) (Some frame) = Some ucb"
    then have "i = 0" by (simp add: bad_image_def)
    with a none show "last (ucb_bytes ?im ucb) \<noteq> 0xb1" by (metis option.distinct(1))
  qed
  from hard_fault_reports [of "demo_cpu 0" 4 5 6 7 8 9 10 11 _ "0x20003000" fault_memory demo_layout "0x1000500c" demo_ram,
      OF _ _ refl _ _ _ refl this _ refl, of "replicate 10 demo_entry" 8 "0x10000401" "[]"] writable
  show ?thesis by (simp add: demo_cpu_def ptr tops pc zero apart_def FAULT_ENTRIES_def) blast
qed

theorem core_1_has_no_fault_stack_witness:
  "HardFault_Handler demo_ram demo_layout 0x1000500c (demo_cpu 1)
      (snd (fault_init demo_layout demo_heap 0x1000500c 0 (sbrk_init demo_heap, cls_tls_init demo_layout (\<lambda>_. 0)))) = None"
proof -
  obtain h' m' where f: "fault_init demo_layout demo_heap 0x1000500c 0 (sbrk_init demo_heap, cls_tls_init demo_layout (\<lambda>_. 0)) = (h', m')"
    by (metis surj_pair)
  have "load_word (\<lambda>_. 0) 0x1000500c = 0" by (simp add: load_word_def eval_nat_numeral)
  from core_1_has_no_fault_stack [OF demo_layout_ok _ _ this, of "demo_cpu 1" demo_ram, OF _ _ _ _ _ f] show ?thesis unfolding f
    by (simp add: demo_layout_def var_ok_def cls_offset_def apart_def demo_cpu_def demo_ram_def)
qed

end
