(* ===== verification/Rtt_Ring.thy ===== *)
theory Rtt_Ring
  imports Prelude
begin

text \<open>
  The ring buffers of \<open>pico-rtt/SEGGER_RTT.c\<close>: the functions that write to and read from one ring,
  over byte memory, with the offsets as 32-bit words. A ring holds the bytes from the read
  offset up to the write offset, around the end. The lemmas: every writer appends to these bytes what
  it reports, every reader takes what it returns from their front, and nothing else changes.
\<close>

section \<open>Memory\<close>

type_synonym byte_mem = "addr \<Rightarrow> word8"

text \<open>\<open>memcpy\<close> of bytes of the caller into memory, and out of it.\<close>

definition put_bytes :: "addr \<Rightarrow> word8 list \<Rightarrow> byte_mem \<Rightarrow> byte_mem" where
  "put_bytes p bs m = (\<lambda>a. if unat (a - p) < length bs then bs ! unat (a - p) else m a)"

definition get_bytes :: "addr \<Rightarrow> word32 \<Rightarrow> byte_mem \<Rightarrow> word8 list" where
  "get_bytes p n m = map (\<lambda>i. m (p + of_nat i)) [0..<unat n]"

section \<open>The ring\<close>

text \<open>\<open>SEGGER_RTT_BUFFER_UP\<close> and \<open>SEGGER_RTT_BUFFER_DOWN\<close>, which differ in what is volatile.\<close>

record ring =
  sName :: addr
  pBuffer :: addr
  SizeOfBuffer :: word32
  WrOff :: word32
  RdOff :: word32
  Flags :: word32

definition MODE_NO_BLOCK_SKIP :: word32 where "MODE_NO_BLOCK_SKIP = 0"
definition MODE_NO_BLOCK_TRIM :: word32 where "MODE_NO_BLOCK_TRIM = 1"
definition MODE_BLOCK_IF_FIFO_FULL :: word32 where "MODE_BLOCK_IF_FIFO_FULL = 2"
definition MODE_MASK :: word32 where "MODE_MASK = 3"

text \<open>
  The two reading functions have the same body: \<open>BufferSize\<close> is the room of the caller, the result
  are the bytes read.
\<close>

definition ReadNoLock :: "word32 \<Rightarrow> ring \<Rightarrow> byte_mem \<Rightarrow> word8 list \<times> ring" where
  "ReadNoLock BufferSize r m =
    (let rd = RdOff r; wr = WrOff r;
         (first, BufferSize, rd) =
           (if rd > wr
            then let n = min (SizeOfBuffer r - rd) BufferSize; bs = get_bytes (pBuffer r + rd) n m;
                     BufferSize = BufferSize - n; rd = rd + n
                 in (bs, BufferSize, if rd = SizeOfBuffer r then 0 else rd)
            else ([], BufferSize, rd));
         n = min (wr - rd) BufferSize;
         (second, rd) = (if n > 0 then (get_bytes (pBuffer r + rd) n m, rd + n) else ([], rd));
         bs = first @ second
     in (bs, if bs \<noteq> [] then r\<lparr>RdOff := rd\<rparr> else r))"

section \<open>Writing\<close>

text \<open>\<open>_GetAvailWriteSpace\<close>.\<close>

definition avail_write_space :: "ring \<Rightarrow> word32" where
  "avail_write_space r =
    (if RdOff r \<le> WrOff r then SizeOfBuffer r - 1 - WrOff r + RdOff r else RdOff r - WrOff r - 1)"

text \<open>\<open>_WriteNoCheck\<close>: the number of bytes is the length of the data.\<close>

definition WriteNoCheck :: "word8 list \<Rightarrow> ring \<Rightarrow> byte_mem \<Rightarrow> ring \<times> byte_mem" where
  "WriteNoCheck bs r m =
    (let NumBytes = of_nat (length bs); Rem = SizeOfBuffer r - WrOff r
     in if Rem > NumBytes
        then (r\<lparr>WrOff := WrOff r + NumBytes\<rparr>, put_bytes (pBuffer r + WrOff r) bs m)
        else let m = put_bytes (pBuffer r + WrOff r) (take (unat Rem) bs) m;
                 m = put_bytes (pBuffer r) (drop (unat Rem) bs) m
             in (r\<lparr>WrOff := NumBytes - Rem\<rparr>, m))"

text \<open>
  \<open>_WriteBlocking\<close>: each turn of the loop reads the offset the host may have moved. The host takes
  bytes as the reading function above does; \<open>hs\<close> says how many before each turn. The result is the number of bytes
  written and the bytes the host has taken; \<open>None\<close>: the script ends and the loop still waits.
\<close>

definition blocking_turn :: "word32 \<Rightarrow> word8 list \<Rightarrow> ring \<Rightarrow> byte_mem \<Rightarrow> word32 \<times> word8 list \<times> ring \<times> byte_mem" where
  "blocking_turn h bs r m =
    (let (got, r) = ReadNoLock h r m;
         rd = RdOff r; wr = WrOff r;
         n = (if rd > wr then rd - wr - 1 else SizeOfBuffer r - (wr - rd + 1));
         n = min n (SizeOfBuffer r - wr);
         n = min n (of_nat (length bs));
         m = put_bytes (pBuffer r + wr) (take (unat n) bs) m;
         wr = wr + n;
         wr = (if wr = SizeOfBuffer r then 0 else wr)
     in (n, got, r\<lparr>WrOff := wr\<rparr>, m))"

fun WriteBlocking :: "word32 list \<Rightarrow> word8 list \<Rightarrow> ring \<Rightarrow> byte_mem \<Rightarrow> (word32 \<times> word8 list \<times> ring \<times> byte_mem) option" where
  "WriteBlocking [] bs r m = None"
| "WriteBlocking (h # hs) bs r m =
    (case blocking_turn h bs r m of (n, got, r, m) \<Rightarrow>
       if drop (unat n) bs = [] then Some (n, got, r, m)
       else do {
         (written, taken, r, m) \<leftarrow> WriteBlocking hs (drop (unat n) bs) r m;
         Some (n + written, got @ taken, r, m)
       })"

text \<open>\<open>SEGGER_RTT_WriteSkipNoLock\<close> on one ring.\<close>

definition WriteSkipNoLock :: "word8 list \<Rightarrow> ring \<Rightarrow> byte_mem \<Rightarrow> word32 \<times> ring \<times> byte_mem" where
  "WriteSkipNoLock bs r m =
    (let NumBytes = of_nat (length bs); rd = RdOff r; wr = WrOff r; pDst = pBuffer r + wr
     in if rd \<le> wr
        then let Avail = SizeOfBuffer r - wr - 1
             in if Avail \<ge> NumBytes then (1, r\<lparr>WrOff := wr + NumBytes\<rparr>, put_bytes pDst bs m)
                else let Avail = Avail + rd
                     in if Avail \<ge> NumBytes
                        then let Rem = SizeOfBuffer r - wr;
                                 m = put_bytes pDst (take (unat Rem) bs) m;
                                 NumBytes = NumBytes - Rem;
                                 m = (if NumBytes \<noteq> 0 then put_bytes (pBuffer r) (drop (unat Rem) bs) m else m)
                             in (1, r\<lparr>WrOff := NumBytes\<rparr>, m)
                        else (0, r, m)
        else let Avail = rd - wr - 1
             in if Avail \<ge> NumBytes then (1, r\<lparr>WrOff := wr + NumBytes\<rparr>, put_bytes pDst bs m)
                else (0, r, m))"

text \<open>The body of \<open>SEGGER_RTT_WriteNoLock\<close> and \<open>SEGGER_RTT_WriteDownBufferNoLock\<close>.\<close>

definition WriteNoLock :: "word32 list \<Rightarrow> word8 list \<Rightarrow> ring \<Rightarrow> byte_mem \<Rightarrow> (word32 \<times> word8 list \<times> ring \<times> byte_mem) option" where
  "WriteNoLock hs bs r m =
    (let NumBytes = of_nat (length bs)
     in if Flags r = MODE_NO_BLOCK_SKIP
        then let Avail = avail_write_space r
             in if Avail < NumBytes then Some (0, [], r, m)
                else (case WriteNoCheck bs r m of (r, m) \<Rightarrow> Some (NumBytes, [], r, m))
        else if Flags r = MODE_NO_BLOCK_TRIM
        then let Avail = avail_write_space r; Status = (if Avail < NumBytes then Avail else NumBytes)
             in (case WriteNoCheck (take (unat Status) bs) r m of (r, m) \<Rightarrow> Some (Status, [], r, m))
        else if Flags r = MODE_BLOCK_IF_FIFO_FULL
        then WriteBlocking hs bs r m
        else Some (0, [], r, m))"

text \<open>\<open>SEGGER_RTT_PutCharSkipNoLock\<close> on one ring.\<close>

definition PutCharSkipNoLock :: "word8 \<Rightarrow> ring \<Rightarrow> byte_mem \<Rightarrow> word32 \<times> ring \<times> byte_mem" where
  "PutCharSkipNoLock c r m =
    (let wr = WrOff r + 1; wr = (if wr = SizeOfBuffer r then 0 else wr)
     in if wr \<noteq> RdOff r then (1, r\<lparr>WrOff := wr\<rparr>, m(pBuffer r + WrOff r := c)) else (0, r, m))"

text \<open>The loop of \<open>SEGGER_RTT_PutChar\<close> that waits in blocking mode for the host to take something.\<close>

fun wait_for_space :: "word32 list \<Rightarrow> word32 \<Rightarrow> ring \<Rightarrow> byte_mem \<Rightarrow> (word8 list \<times> ring) option" where
  "wait_for_space [] wr r m = None"
| "wait_for_space (h # hs) wr r m =
    (let (got, r) = ReadNoLock h r m
     in if wr \<noteq> RdOff r then Some (got, r)
        else do { (taken, r) \<leftarrow> wait_for_space hs wr r m; Some (got @ taken, r) })"

definition PutChar :: "word32 list \<Rightarrow> word8 \<Rightarrow> ring \<Rightarrow> byte_mem \<Rightarrow> (word32 \<times> word8 list \<times> ring \<times> byte_mem) option" where
  "PutChar hs c r m =
    (let wr = WrOff r + 1; wr = (if wr = SizeOfBuffer r then 0 else wr)
     in do {
       (taken, r) \<leftarrow> (if Flags r = MODE_BLOCK_IF_FIFO_FULL then wait_for_space hs wr r m else Some ([], r));
       if wr \<noteq> RdOff r then Some (1, taken, r\<lparr>WrOff := wr\<rparr>, m(pBuffer r + WrOff r := c)) else Some (0, taken, r, m)
     })"

section \<open>Overwriting\<close>

lemma sub_less:
  fixes n rd :: word32
  assumes "n \<noteq> 0" and "n \<le> rd"
  shows "unat (rd - n) < unat rd"
proof -
  have "0 < unat n" using assms(1) by (simp add: unat_gt_0)
  then show ?thesis using assms(2) by (simp add: unat_sub word_le_nat_alt)
qed

text \<open>The loop that brings the read offset back into the ring; \<open>None\<close> for a ring of no bytes.\<close>

function wrap_read :: "word32 \<Rightarrow> word32 \<Rightarrow> word32 option" where
  "wrap_read n rd = (if n = 0 then None else if rd \<ge> n then wrap_read n (rd - n) else Some rd)"
  by pat_completeness auto
termination
  by (relation "measure (\<lambda>(n, rd). unat rd)") (auto simp: sub_less)

declare wrap_read.simps [simp del]

text \<open>The copying loop: \<open>Avail\<close> is the room up to where the code wraps; \<open>None\<close> when it copies nothing for ever.\<close>

function overwrite_loop :: "word32 \<Rightarrow> word8 list \<Rightarrow> ring \<Rightarrow> byte_mem \<Rightarrow> (ring \<times> byte_mem) option" where
  "overwrite_loop Avail bs r m =
    (let NumBytes = of_nat (length bs); pDst = pBuffer r + WrOff r
     in if Avail > NumBytes then Some (r\<lparr>WrOff := WrOff r + NumBytes\<rparr>, put_bytes pDst bs m)
        else let m = put_bytes pDst (take (unat Avail) bs) m; r = r\<lparr>WrOff := 0\<rparr>; rest = drop (unat Avail) bs
             in if rest = [] then Some (r, m)
                else if Avail = 0 \<and> SizeOfBuffer r = 1 then None
                else overwrite_loop (SizeOfBuffer r - 1) rest r m)"
  by pat_completeness auto
termination
proof (relation "measures [\<lambda>(Avail, bs, r, m). length bs, \<lambda>(Avail, bs, r, m). if Avail = 0 then 1 else 0]", goal_cases)
  case (2 Avail bs r m NumBytes pDst m' r' rest)
  then have "\<not> of_nat (length bs) < Avail" by simp
  then have "unat Avail \<le> length bs" by (simp add: word_less_nat_alt unat_of_nat not_less)
  moreover have "0 < unat Avail" if "Avail \<noteq> 0" using that by (simp add: unat_gt_0)
  ultimately show ?case using 2 by (cases "Avail = 0") auto
qed simp

declare overwrite_loop.simps [simp del]

definition WriteWithOverwriteNoLock :: "word8 list \<Rightarrow> ring \<Rightarrow> byte_mem \<Rightarrow> (ring \<times> byte_mem) option" where
  "WriteWithOverwriteNoLock bs r m =
    (let NumBytes = of_nat (length bs);
         Avail = (if WrOff r = RdOff r then SizeOfBuffer r - 1
           else if WrOff r < RdOff r then RdOff r - WrOff r - 1
           else RdOff r - WrOff r - 1 + SizeOfBuffer r)
     in do {
       r \<leftarrow> (if NumBytes > Avail
             then do { rd \<leftarrow> wrap_read (SizeOfBuffer r) (RdOff r + (NumBytes - Avail)); Some (r\<lparr>RdOff := rd\<rparr>) }
             else Some r);
       overwrite_loop (SizeOfBuffer r - WrOff r) bs r m
     })"

text \<open>\<open>SEGGER_RTT_GetBytesInBuffer\<close> on one ring.\<close>

definition bytes_in_buffer :: "ring \<Rightarrow> word32" where
  "bytes_in_buffer r = (if RdOff r \<le> WrOff r then WrOff r - RdOff r else SizeOfBuffer r - (WrOff r - RdOff r))"


section \<open>What a ring holds\<close>

definition ring_ok :: "ring \<Rightarrow> bool" where
  "ring_ok r \<longleftrightarrow> WrOff r < SizeOfBuffer r \<and> RdOff r < SizeOfBuffer r"

definition ring_used :: "ring \<Rightarrow> nat" where
  "ring_used r = (if RdOff r \<le> WrOff r then unat (WrOff r) - unat (RdOff r)
     else unat (SizeOfBuffer r) - unat (RdOff r) + unat (WrOff r))"

definition ring_free :: "ring \<Rightarrow> nat" where
  "ring_free r = unat (SizeOfBuffer r) - 1 - ring_used r"

definition held :: "ring \<Rightarrow> byte_mem \<Rightarrow> word8 list" where
  "held r m = map (\<lambda>k. m (pBuffer r + of_nat ((unat (RdOff r) + k) mod unat (SizeOfBuffer r)))) [0..<ring_used r]"

text \<open>The bytes from the write offset on, around the end, and the write offset behind them.\<close>

definition put_ring :: "word8 list \<Rightarrow> ring \<Rightarrow> byte_mem \<Rightarrow> byte_mem" where
  "put_ring bs r m = (let k = unat (SizeOfBuffer r) - unat (WrOff r)
     in put_bytes (pBuffer r) (drop k bs) (put_bytes (pBuffer r + WrOff r) (take k bs) m))"

definition advance :: "nat \<Rightarrow> ring \<Rightarrow> ring" where
  "advance n r = r\<lparr>WrOff := of_nat ((unat (WrOff r) + n) mod unat (SizeOfBuffer r))\<rparr>"

text \<open>The read offset moved over \<open>n\<close> bytes.\<close>

definition consume :: "nat \<Rightarrow> ring \<Rightarrow> ring" where
  "consume n r = r\<lparr>RdOff := of_nat ((unat (RdOff r) + n) mod unat (SizeOfBuffer r))\<rparr>"

lemma get_bytes_0 [simp]: "get_bytes p 0 m = []"
  by (simp add: get_bytes_def)

lemma put_bytes_Nil [simp]: "put_bytes p [] m = m"
  by (simp add: put_bytes_def)

lemma unat_32: "unat (x :: word32) < 2 ^ 32"
  by (rule order.strict_trans2 [OF unsigned_less]) simp

lemma unat_of_nat_32: "n < 2 ^ 32 \<Longrightarrow> unat (of_nat n :: word32) = n"
  by (simp add: unat_of_nat)

lemma put_bytes_at:
  assumes "unat p + length bs \<le> 2 ^ 32" and "i < 2 ^ 32"
  shows "put_bytes (b + p) bs m (b + of_nat i) =
    (if unat p \<le> i \<and> i < unat p + length bs then bs ! (i - unat p) else m (b + of_nat i))"
proof -
  have "(b + of_nat i) - (b + p) = of_nat i - p" by simp
  moreover have "unat (of_nat i - p) = (if unat p \<le> i then i - unat p else i + 2 ^ 32 - unat p)"
    using assms(2) by (simp add: unat_sub_if' unat_of_nat_32)
  ultimately show ?thesis using assms by (auto simp: put_bytes_def)
qed

lemma put_bytes_at_0:
  assumes "length bs \<le> 2 ^ 32" and "i < 2 ^ 32"
  shows "put_bytes b bs m (b + of_nat i) = (if i < length bs then bs ! i else m (b + of_nat i))"
  using put_bytes_at [of 0 bs i b m] assms by simp

text \<open>A byte of the ring after writing: \<open>i\<close> is its place, \<open>k\<close> its distance from the write offset.\<close>

lemma put_ring_at:
  assumes "ring_ok r" and "length bs < unat (SizeOfBuffer r)" and "k < unat (SizeOfBuffer r)"
  defines "i \<equiv> (unat (WrOff r) + k) mod unat (SizeOfBuffer r)"
  shows "put_ring bs r m (pBuffer r + of_nat i) = (if k < length bs then bs ! k else m (pBuffer r + of_nat i))"
proof -
  let ?S = "unat (SizeOfBuffer r)" and ?w = "unat (WrOff r)"
  have w: "?w < ?S" "?S < 2 ^ 32" using assms(1) unat_32 by (auto simp: ring_ok_def word_less_nat_alt)
  have i: "i = (if ?w + k < ?S then ?w + k else ?w + k - ?S)" "i < ?S"
    using w assms(3) by (auto simp: i_def mod_if)
  have "i < 2 ^ 32" using i w by linarith
  have l: "length (drop (?S - ?w) bs) \<le> 2 ^ 32" "?w + length (take (?S - ?w) bs) \<le> 2 ^ 32"
    using assms(2) w by auto
  show ?thesis
    unfolding put_ring_def Let_def put_bytes_at_0 [OF l(1) \<open>i < 2 ^ 32\<close>] put_bytes_at [OF l(2) \<open>i < 2 ^ 32\<close>]
    using i(1) w assms(2,3) by (auto simp: min_def nth_append add.commute split: if_splits)
qed

lemma put_ring_out:
  assumes "ring_ok r" and "length bs < unat (SizeOfBuffer r)" and "\<not> a - pBuffer r < SizeOfBuffer r"
  shows "put_ring bs r m a = m a"
proof -
  let ?S = "unat (SizeOfBuffer r)" and ?w = "unat (WrOff r)"
  have w: "?w < ?S" using assms(1) by (simp add: ring_ok_def word_less_nat_alt)
  have a: "?S \<le> unat (a - pBuffer r)" using assms(3) by (simp add: word_less_nat_alt)
  have "unat (a - (pBuffer r + WrOff r)) = unat (a - pBuffer r) - ?w"
    unfolding diff_diff_eq [symmetric] using a w by (subst unat_sub) (simp_all add: word_le_nat_alt)
  then show ?thesis using a w assms(2) by (auto simp: put_ring_def Let_def put_bytes_def)
qed


text \<open>Distances around the ring.\<close>

lemma used_less: "ring_ok r \<Longrightarrow> ring_used r < unat (SizeOfBuffer r)"
  by (auto simp: ring_ok_def ring_used_def word_less_nat_alt word_le_nat_alt)

lemma write_place:
  assumes "ring_ok r"
  shows "unat (WrOff r) = (unat (RdOff r) + ring_used r) mod unat (SizeOfBuffer r)"
  using assms by (auto simp: ring_ok_def ring_used_def word_less_nat_alt word_le_nat_alt mod_if)

lemma used_unique:
  assumes "ring_ok r" and "u < unat (SizeOfBuffer r)" and "unat (WrOff r) = (unat (RdOff r) + u) mod unat (SizeOfBuffer r)"
  shows "ring_used r = u"
  using assms by (auto simp: ring_ok_def ring_used_def word_less_nat_alt word_le_nat_alt mod_if split: if_splits)

lemma advance_ok:
  assumes "ring_ok r" and "n + ring_used r < unat (SizeOfBuffer r)"
  shows "ring_ok (advance n r)" "ring_used (advance n r) = ring_used r + n"
proof -
  let ?S = "unat (SizeOfBuffer r)"
  have S: "0 < ?S" "?S < 2 ^ 32" using assms(2) unat_32 by auto
  have "(unat (WrOff r) + n) mod ?S < 2 ^ 32" using S by (meson mod_less_divisor order.strict_trans)
  then have w: "unat (WrOff (advance n r)) = (unat (WrOff r) + n) mod ?S" by (simp add: advance_def unat_of_nat_32)
  show ok: "ring_ok (advance n r)" using assms(1) S w by (simp add: ring_ok_def word_less_nat_alt) (simp add: advance_def)
  have "(unat (WrOff r) + n) mod ?S = (unat (RdOff r) + (ring_used r + n)) mod ?S"
    using write_place [OF assms(1)] by (simp add: mod_add_left_eq add.assoc)
  then show "ring_used (advance n r) = ring_used r + n"
    using w assms(2) by (intro used_unique [OF ok]) (simp_all add: advance_def)
qed

lemma consume_ok:
  assumes "ring_ok r" and "n \<le> ring_used r"
  shows "ring_ok (consume n r)" "ring_used (consume n r) = ring_used r - n"
proof -
  let ?S = "unat (SizeOfBuffer r)"
  have S: "0 < ?S" "?S < 2 ^ 32" using assms(1) unat_32 by (auto simp: ring_ok_def word_less_nat_alt)
  have "(unat (RdOff r) + n) mod ?S < 2 ^ 32" using S by (meson mod_less_divisor order.strict_trans)
  then have w: "unat (RdOff (consume n r)) = (unat (RdOff r) + n) mod ?S" by (simp add: consume_def unat_of_nat_32)
  show ok: "ring_ok (consume n r)" using assms(1) S w by (simp add: ring_ok_def word_less_nat_alt) (simp add: consume_def)
  have "unat (WrOff r) = ((unat (RdOff r) + n) + (ring_used r - n)) mod ?S"
    using write_place [OF assms(1)] assms(2) by simp
  then have "unat (WrOff (consume n r)) = (unat (RdOff (consume n r)) + (ring_used r - n)) mod ?S"
    unfolding w by (simp add: consume_def mod_add_left_eq)
  then show "ring_used (consume n r) = ring_used r - n"
    using used_less [OF assms(1)] by (intro used_unique [OF ok]) (simp_all add: consume_def)
qed

lemma length_held [simp]: "length (held r m) = ring_used r"
  by (simp add: held_def)

text \<open>Writing appends, reading takes from the front.\<close>

lemma held_write:
  assumes r: "ring_ok r" and n: "length bs + ring_used r < unat (SizeOfBuffer r)"
  shows "held (advance (length bs) r) (put_ring bs r m) = held r m @ bs"
proof (rule nth_equalityI)
  let ?S = "unat (SizeOfBuffer r)" and ?u = "ring_used r"
  note a = advance_ok [OF r n]
  show "length (held (advance (length bs) r) (put_ring bs r m)) = length (held r m @ bs)" using a by simp
  fix k
  assume "k < length (held (advance (length bs) r) (put_ring bs r m))"
  then have k: "k < ?u + length bs" using a by simp
  have S: "0 < ?S" using n by linarith
  define d where "d = (if k < ?u then k + ?S - ?u else k - ?u)"
  have d: "d < ?S" "k < ?u \<Longrightarrow> length bs \<le> d" using k n by (auto simp: d_def)
  have "(unat (WrOff r) + d) mod ?S = (unat (RdOff r) + (?u + d)) mod ?S"
    using write_place [OF r] by (simp add: mod_add_left_eq add.assoc)
  also have "\<dots> = (unat (RdOff r) + k) mod ?S"
  proof (cases "k < ?u")
    case True
    then have "unat (RdOff r) + (?u + d) = unat (RdOff r) + k + ?S" using used_less [OF r] by (simp add: d_def)
    then show ?thesis by (metis mod_add_self2)
  qed (simp add: d_def)
  finally have p: "(unat (WrOff r) + d) mod ?S = (unat (RdOff r) + k) mod ?S" .
  have "held (advance (length bs) r) (put_ring bs r m) ! k = put_ring bs r m (pBuffer r + of_nat ((unat (RdOff r) + k) mod ?S))"
    using a k by (simp add: held_def) (simp add: advance_def)
  also have "\<dots> = (if d < length bs then bs ! d else m (pBuffer r + of_nat ((unat (RdOff r) + k) mod ?S)))"
    using put_ring_at [OF r _ d(1), of bs m] n unfolding p by simp
  also have "\<dots> = (held r m @ bs) ! k"
    using d(2) k by (auto simp: held_def nth_append d_def)
  finally show "held (advance (length bs) r) (put_ring bs r m) ! k = (held r m @ bs) ! k" .
qed

lemma held_consume:
  assumes r: "ring_ok r" and n: "n \<le> ring_used r"
  shows "held (consume n r) m = drop n (held r m)"
proof (rule nth_equalityI)
  let ?S = "unat (SizeOfBuffer r)"
  note c = consume_ok [OF r n]
  show "length (held (consume n r) m) = length (drop n (held r m))" using c by simp
  fix k
  assume "k < length (held (consume n r) m)"
  then have k: "k < ring_used r - n" using c by simp
  have S: "0 < ?S" "?S < 2 ^ 32" using r unat_32 by (auto simp: ring_ok_def word_less_nat_alt)
  have "(unat (RdOff r) + n) mod ?S < 2 ^ 32" using S by (meson mod_less_divisor order.strict_trans)
  then have w: "unat (RdOff (consume n r)) = (unat (RdOff r) + n) mod ?S" by (simp add: consume_def unat_of_nat_32)
  have "((unat (RdOff r) + n) mod ?S + k) mod ?S = (unat (RdOff r) + (n + k)) mod ?S"
    by (simp add: mod_add_left_eq add.assoc)
  then show "held (consume n r) m ! k = drop n (held r m) ! k"
    using k c w by (simp add: held_def) (simp add: consume_def)
qed

lemma held_cong:
  assumes "ring_ok r" and "\<And>a. a - pBuffer r < SizeOfBuffer r \<Longrightarrow> m a = m' a"
  shows "held r m = held r m'"
proof -
  let ?S = "unat (SizeOfBuffer r)"
  have S: "0 < ?S" "?S < 2 ^ 32" using assms(1) unat_32 by (auto simp: ring_ok_def word_less_nat_alt)
  have "of_nat (n mod ?S) < SizeOfBuffer r" for n
  proof -
    have "n mod ?S < ?S" using S by simp
    moreover from this have "n mod ?S < 2 ^ 32" using S(2) by (rule order.strict_trans)
    ultimately show ?thesis by (simp add: word_less_nat_alt unat_of_nat_32)
  qed
  then show ?thesis by (simp add: held_def assms(2))
qed


section \<open>Writers\<close>

text \<open>Every writer that fits its data puts it into the ring and advances over it.\<close>

lemma avail_free:
  assumes "ring_ok r"
  shows "unat (avail_write_space r) = ring_free r"
proof -
  have w: "unat (WrOff r) < unat (SizeOfBuffer r)" "unat (RdOff r) < unat (SizeOfBuffer r)"
    using assms by (simp_all add: ring_ok_def word_less_nat_alt)
  show ?thesis
  proof (cases "RdOff r \<le> WrOff r")
    case True
    have "SizeOfBuffer r - 1 - WrOff r + RdOff r = SizeOfBuffer r - 1 - (WrOff r - RdOff r)" by simp
    then have "avail_write_space r = SizeOfBuffer r - 1 - (WrOff r - RdOff r)" using True by (simp add: avail_write_space_def)
    moreover have "unat (SizeOfBuffer r - 1 - (WrOff r - RdOff r)) = unat (SizeOfBuffer r) - 1 - (unat (WrOff r) - unat (RdOff r))"
      using w True by (simp add: unat_sub_if' word_le_nat_alt)
    ultimately show ?thesis using True by (simp add: ring_free_def ring_used_def)
  next
    case False
    have "unat (RdOff r - WrOff r - 1) = unat (RdOff r) - unat (WrOff r) - 1"
      using False by (simp add: unat_sub_if' word_le_nat_alt)
    then show ?thesis using w False by (simp add: avail_write_space_def ring_free_def ring_used_def word_le_nat_alt)
  qed
qed

lemma write_offset:
  assumes "ring_ok r" and "n < unat (SizeOfBuffer r)"
  shows "of_nat ((unat (WrOff r) + n) mod unat (SizeOfBuffer r)) =
    (if of_nat n < SizeOfBuffer r - WrOff r then WrOff r + of_nat n else of_nat n - (SizeOfBuffer r - WrOff r))"
proof -
  let ?S = "unat (SizeOfBuffer r)" and ?w = "unat (WrOff r)"
  have w: "?w < ?S" using assms(1) by (simp add: ring_ok_def word_less_nat_alt)
  have n: "unat (of_nat n :: word32) = n" using assms(2) unat_32 [of "SizeOfBuffer r"] by (intro unat_of_nat_32) linarith
  have rem: "unat (SizeOfBuffer r - WrOff r) = ?S - ?w" using w by (simp add: unat_sub word_le_nat_alt)
  show ?thesis
  proof (cases "?w + n < ?S")
    case True
    then have "n < ?S - ?w" by linarith
    with True show ?thesis using n rem by (simp add: word_less_nat_alt)
  next
    case False
    then have "(?w + n) mod ?S = n - (?S - ?w)" using w assms(2) by (auto simp: mod_if)
    moreover have "of_nat (n - (?S - ?w)) = of_nat n - (SizeOfBuffer r - WrOff r)"
    proof -
      have "of_nat (?S - ?w) = SizeOfBuffer r - WrOff r" by (metis rem of_nat_unat ucast_id)
      then show ?thesis using False w by (subst of_nat_diff) simp_all
    qed
    moreover have "\<not> n < ?S - ?w" using False by linarith
    ultimately show ?thesis using n rem by (simp add: word_less_nat_alt)
  qed
qed

lemma WriteNoCheck_puts:
  assumes "ring_ok r" and "length bs < unat (SizeOfBuffer r)"
  shows "WriteNoCheck bs r m = (advance (length bs) r, put_ring bs r m)"
proof -
  have w: "unat (WrOff r) < unat (SizeOfBuffer r)" using assms(1) by (simp add: ring_ok_def word_less_nat_alt)
  have rem: "unat (SizeOfBuffer r - WrOff r) = unat (SizeOfBuffer r) - unat (WrOff r)"
    using w by (simp add: unat_sub word_le_nat_alt)
  have n: "unat (of_nat (length bs) :: word32) = length bs"
    using assms(2) unat_32 [of "SizeOfBuffer r"] by (intro unat_of_nat_32) linarith
  show ?thesis
    using write_offset [OF assms] n rem by (auto simp: WriteNoCheck_def advance_def put_ring_def Let_def word_less_nat_alt)
qed


text \<open>\<open>SEGGER_RTT_WriteSkipNoLock\<close> is the writer in skip mode, in one function.\<close>

lemma small_bytes: "length bs < 2 ^ 32 \<Longrightarrow> unat (of_nat (length bs) :: word32) = length bs"
  by (rule unat_of_nat_32)

lemma skip_space:
  assumes "ring_ok r" and "RdOff r \<le> WrOff r"
  shows "SizeOfBuffer r - WrOff r - 1 + RdOff r = avail_write_space r"
    "unat (SizeOfBuffer r - WrOff r - 1) = unat (SizeOfBuffer r) - unat (WrOff r) - 1"
    "unat (SizeOfBuffer r - WrOff r) = unat (SizeOfBuffer r) - unat (WrOff r)"
proof -
  have w: "unat (WrOff r) < unat (SizeOfBuffer r)" using assms(1) by (simp add: ring_ok_def word_less_nat_alt)
  show "SizeOfBuffer r - WrOff r - 1 + RdOff r = avail_write_space r" using assms(2) by (simp add: avail_write_space_def)
  show rem: "unat (SizeOfBuffer r - WrOff r) = unat (SizeOfBuffer r) - unat (WrOff r)"
    using w by (simp add: unat_sub word_le_nat_alt)
  have "SizeOfBuffer r - WrOff r \<noteq> 0" using w by auto
  then show "unat (SizeOfBuffer r - WrOff r - 1) = unat (SizeOfBuffer r) - unat (WrOff r) - 1"
    using rem by (subst unat_minus_one) simp_all
qed

lemma WriteSkipNoLock_puts:
  assumes r: "ring_ok r" and n: "length bs < 2 ^ 32"
  shows "WriteSkipNoLock bs r m =
    (if length bs \<le> ring_free r then (1, advance (length bs) r, put_ring bs r m) else (0, r, m))"
proof -
  let ?n = "of_nat (length bs) :: word32"
  have free: "unat (avail_write_space r) = ring_free r" by (rule avail_free [OF r])
  have fits: "?n \<le> avail_write_space r \<longleftrightarrow> length bs \<le> ring_free r"
    using free small_bytes [OF n] by (simp add: word_le_nat_alt)
  have small: "length bs < unat (SizeOfBuffer r)" if "length bs \<le> ring_free r"
    using that used_less [OF r] by (simp add: ring_free_def)
  have one: "put_ring bs r m = put_bytes (pBuffer r + WrOff r) bs m" if "length bs \<le> unat (SizeOfBuffer r) - unat (WrOff r)"
    using that by (simp add: put_ring_def)
  show ?thesis
  proof (cases "RdOff r \<le> WrOff r")
    case le: True
    note sp = skip_space [OF r le]
    have first: "?n \<le> SizeOfBuffer r - WrOff r - 1 \<longleftrightarrow> length bs \<le> unat (SizeOfBuffer r) - unat (WrOff r) - 1"
      using sp(2) small_bytes [OF n] by (simp add: word_le_nat_alt)
    show ?thesis
    proof (cases "length bs \<le> unat (SizeOfBuffer r) - unat (WrOff r) - 1")
      case True
      then have "length bs \<le> ring_free r" using le r by (simp add: ring_free_def ring_used_def ring_ok_def word_le_nat_alt word_less_nat_alt)
      moreover have "?n < SizeOfBuffer r - WrOff r" using True sp(3) small_bytes [OF n] r
        by (simp add: word_less_nat_alt ring_ok_def) linarith
      ultimately show ?thesis using True le first one write_offset [OF r small]
        by (simp add: WriteSkipNoLock_def advance_def Let_def)
    next
      case False
      have "\<not> ?n < SizeOfBuffer r - WrOff r" using False sp(3) small_bytes [OF n] by (simp add: word_less_nat_alt)
      moreover have "drop (unat (SizeOfBuffer r) - unat (WrOff r)) bs = []" if "?n = SizeOfBuffer r - WrOff r"
        using arg_cong [OF that, of unat] sp(3) small_bytes [OF n] by simp
      ultimately show ?thesis using False le first sp fits write_offset [OF r small]
        by (auto simp: WriteSkipNoLock_def advance_def put_ring_def Let_def)
    qed
  next
    case False
    have a: "RdOff r - WrOff r - 1 = avail_write_space r" using False by (simp add: avail_write_space_def)
    have "length bs \<le> ring_free r \<Longrightarrow> length bs < unat (SizeOfBuffer r) - unat (WrOff r)"
      using False r by (simp add: ring_free_def ring_used_def ring_ok_def word_less_nat_alt word_le_nat_alt) linarith
    moreover from this have "length bs \<le> ring_free r \<Longrightarrow> ?n < SizeOfBuffer r - WrOff r"
      using small_bytes [OF n] r by (simp add: word_less_nat_alt ring_ok_def unat_sub word_le_nat_alt)
    ultimately show ?thesis using False a fits one write_offset [OF r small]
      by (cases "length bs \<le> ring_free r") (simp_all add: WriteSkipNoLock_def advance_def Let_def less_imp_le)
  qed
qed

lemma next_offset:
  assumes r: "ring_ok r"
  shows "(if WrOff r + 1 = SizeOfBuffer r then 0 else WrOff r + 1) = WrOff (advance 1 r)"
    "WrOff (advance 1 r) = RdOff r \<longleftrightarrow> ring_free r = 0"
proof -
  let ?S = "unat (SizeOfBuffer r)" and ?w = "unat (WrOff r)"
  have w: "?w < ?S" "unat (RdOff r) < ?S" "?S < 2 ^ 32"
    using r unat_32 by (simp_all add: ring_ok_def word_less_nat_alt)
  have one: "unat (WrOff r + 1) = ?w + 1" using w by (simp add: unat_word_ariths)
  then have "WrOff r + 1 = SizeOfBuffer r \<longleftrightarrow> ?w + 1 = ?S" by (simp add: word_unat_eq_iff)
  moreover have "(?w + 1) mod ?S = (if ?w + 1 = ?S then 0 else ?w + 1)" using w by (simp add: mod_if)
  ultimately show a: "(if WrOff r + 1 = SizeOfBuffer r then 0 else WrOff r + 1) = WrOff (advance 1 r)"
    by (simp add: advance_def)
  have "unat (WrOff (advance 1 r)) = (if ?w + 1 = ?S then 0 else ?w + 1)"
    unfolding a [symmetric] using one by (simp add: word_unat_eq_iff)
  then show "WrOff (advance 1 r) = RdOff r \<longleftrightarrow> ring_free r = 0"
    using w by (auto simp: word_unat_eq_iff ring_free_def ring_used_def word_le_nat_alt)
qed

lemma put_one:
  assumes "ring_ok r"
  shows "put_ring [c] r m = m(pBuffer r + WrOff r := c)"
proof -
  have "\<not> unat (SizeOfBuffer r) - unat (WrOff r) = 0" using assms by (simp add: ring_ok_def word_less_nat_alt)
  then show ?thesis by (auto simp: put_ring_def put_bytes_def Let_def fun_eq_iff unat_eq_0)
qed

lemma PutCharSkipNoLock_puts:
  assumes r: "ring_ok r"
  shows "PutCharSkipNoLock c r m =
    (if ring_free r = 0 then (0, r, m) else (1, advance 1 r, put_ring [c] r m))"
proof -
  have "advance 1 r = r\<lparr>WrOff := WrOff (advance 1 r)\<rparr>" by (simp add: advance_def)
  then show ?thesis unfolding PutCharSkipNoLock_def Let_def next_offset(1) [OF r] put_one [OF r]
    using next_offset(2) [OF r] by auto
qed

section \<open>Readers\<close>

lemma get_front:
  assumes r: "ring_ok r" and n: "unat n \<le> ring_used r" "unat (RdOff r) + unat n \<le> unat (SizeOfBuffer r)"
  shows "get_bytes (pBuffer r + RdOff r) n m = take (unat n) (held r m)"
proof (rule nth_equalityI)
  fix i
  assume "i < length (get_bytes (pBuffer r + RdOff r) n m)"
  then have i: "i < unat n" by (simp add: get_bytes_def)
  have "(unat (RdOff r) + i) mod unat (SizeOfBuffer r) = unat (RdOff r) + i" using i n(2) by simp
  moreover have "of_nat (unat (RdOff r)) = RdOff r" by simp
  ultimately show "get_bytes (pBuffer r + RdOff r) n m ! i = take (unat n) (held r m) ! i"
    using i n(1) by (simp add: get_bytes_def held_def add.assoc)
qed (use n in \<open>simp add: get_bytes_def min_def\<close>)

lemma consume_0 [simp]: "ring_ok r \<Longrightarrow> consume 0 r = r"
  by (simp add: consume_def ring_ok_def word_less_nat_alt)

lemma consume_short:
  assumes "unat (RdOff r) + unat n < unat (SizeOfBuffer r)"
  shows "consume (unat n) r = r\<lparr>RdOff := RdOff r + n\<rparr>"
  using assms by (simp add: consume_def)

lemma take_drop_append: "take a xs @ take b (drop a xs) = take (a + b) xs"
  by (simp add: take_add)

text \<open>The reader takes from the front.\<close>

lemma ReadNoLock_takes:
  assumes r: "ring_ok r"
  shows "ReadNoLock n r m = (take (unat n) (held r m), consume (min (unat n) (ring_used r)) r)"
proof (cases "RdOff r > WrOff r")
  case False
  have w: "unat (WrOff r) < unat (SizeOfBuffer r)" "unat (RdOff r) \<le> unat (WrOff r)"
    using r False by (simp_all add: ring_ok_def word_less_nat_alt)
  define k where "k = min (WrOff r - RdOff r) n"
  have u: "ring_used r = unat (WrOff r) - unat (RdOff r)" "unat (WrOff r - RdOff r) = ring_used r"
    using w by (simp_all add: ring_used_def word_le_nat_alt unat_sub)
  have k: "unat k = min (ring_used r) (unat n)" using u by (simp add: k_def min_def word_le_nat_alt)
  then have k': "min (unat n) (ring_used r) = unat k" by simp
  have g: "get_bytes (pBuffer r + RdOff r) k m = take (unat k) (held r m)"
    using k u w by (intro get_front [OF r]) auto
  have c: "consume (unat k) r = r\<lparr>RdOff := RdOff r + k\<rparr>"
    using k u w by (intro consume_short) auto
  have t: "take (unat k) (held r m) = take (unat n) (held r m)" using k by (simp add: min_def)
  have z: "take (unat k) (held r m) = [] \<longleftrightarrow> k = 0" using k length_held [of r m] by (auto simp: unat_eq_0 simp del: length_held)
  show ?thesis
  proof (cases "k = 0")
    case True
    then show ?thesis using False t z k' r by (auto simp: ReadNoLock_def Let_def k_def [symmetric] get_bytes_def)
  next
    case nz: False
    then have "0 < k" by (simp add: word_gt_0)
    moreover from this have "0 < WrOff r - RdOff r \<and> 0 < n" by (simp add: k_def)
    ultimately show ?thesis using False g c t z nz k' by (simp add: ReadNoLock_def Let_def k_def [symmetric])
  qed
next
  case True
  let ?S = "unat (SizeOfBuffer r)" and ?d = "unat (RdOff r)"
  have w: "unat (WrOff r) < ?d" "?d < ?S" using r True by (simp_all add: ring_ok_def word_less_nat_alt)
  have u: "ring_used r = ?S - ?d + unat (WrOff r)" using w by (simp add: ring_used_def word_le_nat_alt)
  have rem: "unat (SizeOfBuffer r - RdOff r) = ?S - ?d" using w by (simp add: unat_sub word_le_nat_alt)
  define k where "k = min (SizeOfBuffer r - RdOff r) n"
  have k: "unat k = min (?S - ?d) (unat n)" using rem by (simp add: k_def min_def word_le_nat_alt)
  have g: "get_bytes (pBuffer r + RdOff r) k m = take (unat k) (held r m)"
    using k u w by (intro get_front [OF r]) auto
  show ?thesis
  proof (cases "unat n < ?S - ?d")
    case short: True
    then have "k = n" using k by (simp add: word_unat_eq_iff)
    have c: "consume (unat n) r = r\<lparr>RdOff := RdOff r + n\<rparr>" using short by (intro consume_short) auto
    have "RdOff r + n \<noteq> SizeOfBuffer r" using short w by (auto simp: word_unat_eq_iff unat_word_ariths)
    moreover have "take (unat n) (held r m) = [] \<longleftrightarrow> n = 0"
      using u w length_held [of r m] by (auto simp: unat_eq_0 simp del: length_held)
    moreover have "min (unat n) (ring_used r) = unat n" using short u by simp
    moreover have "min (SizeOfBuffer r - RdOff r) n = n" using \<open>k = n\<close> by (simp add: k_def)
    moreover have "min x 0 = 0" for x :: word32 by (simp add: min_def)
    ultimately show ?thesis using True g c r \<open>k = n\<close>
      by (cases "n = 0") (auto simp: ReadNoLock_def Let_def)
  next
    case long: False
    let ?j = "?S - ?d"
    have kw: "k = SizeOfBuffer r - RdOff r" using long rem by (auto simp: k_def min_def word_le_nat_alt)
    have c1: "consume ?j r = r\<lparr>RdOff := 0\<rparr>" using w by (simp add: consume_def)
    have j: "?j \<le> ring_used r" using u by simp
    note r1 = consume_ok [OF r j, unfolded c1] held_consume [OF r j, unfolded c1]
    define q where "q = min (WrOff r) (n - k)"
    have "unat (n - k) = unat n - ?j" using long rem by (simp add: kw unat_sub word_le_nat_alt)
    then have q: "unat q = min (unat (WrOff r)) (unat n - ?j)" by (simp add: q_def min_def word_le_nat_alt)
    have g2: "get_bytes (pBuffer r) q m = take (unat q) (drop ?j (held r m))"
      using get_front [OF r1(1), of q m] q u w r1(2,3) by simp
    have total: "?j + unat q = min (unat n) (ring_used r)" using q u long by (auto simp: min_def)
    have c: "consume (min (unat n) (ring_used r)) r = r\<lparr>RdOff := q\<rparr>"
    proof -
      have "(?d + (?j + unat q)) mod ?S = unat q" using w q by simp
      then show ?thesis unfolding total [symmetric] consume_def by simp
    qed
    have t: "take ?j (held r m) @ take (unat q) (drop ?j (held r m)) = take (unat n) (held r m)"
      unfolding take_drop_append total by (simp add: min_def)
    have ne: "take ?j (held r m) \<noteq> []" using w u length_held [of r m] by (auto simp del: length_held)
    have kj: "unat k = ?j" using k long by simp
    have kn: "min k n = k" using kj long by (simp add: min_def word_le_nat_alt)
    have sum: "RdOff r + k = SizeOfBuffer r" by (simp add: kw)
    show ?thesis
    proof (cases "q = 0")
      case True
      then show ?thesis using \<open>RdOff r > WrOff r\<close> g c t ne kj kn sum q
        by (auto simp: ReadNoLock_def Let_def kw [symmetric] q_def [symmetric])
    next
      case False
      then have "0 < q" by (simp add: word_gt_0)
      moreover from this have "0 < WrOff r" "0 < n - k" by (simp_all add: q_def)
      ultimately show ?thesis using \<open>RdOff r > WrOff r\<close> g g2 c t ne kj kn sum
        by (simp add: ReadNoLock_def Let_def kw [symmetric] q_def [symmetric])
    qed
  qed
qed

end
