(* ===== verification/Rtt_Writers.thy ===== *)
theory Rtt_Writers
  imports Rtt_Ring
begin

text \<open>
  What the writers of theory Rtt_Ring do to the bytes a ring holds, mode by mode: the blocking
  writer with a host that reads, the writer that drops or trims, a single character, and the writer
  that overwrites.
\<close>

lemma consume_simps [simp]:
  "sName (consume n r) = sName r" "pBuffer (consume n r) = pBuffer r" "SizeOfBuffer (consume n r) = SizeOfBuffer r"
  "WrOff (consume n r) = WrOff r" "Flags (consume n r) = Flags r"
  by (simp_all add: consume_def)

lemma advance_simps [simp]:
  "sName (advance n r) = sName r" "pBuffer (advance n r) = pBuffer r" "SizeOfBuffer (advance n r) = SizeOfBuffer r"
  "RdOff (advance n r) = RdOff r" "Flags (advance n r) = Flags r"
  by (simp_all add: advance_def)

text \<open>What a write leaves: the ring at the same place and in order, and memory outside of it as it was.\<close>

definition same_place :: "ring \<Rightarrow> ring \<Rightarrow> bool" where
  "same_place r r' \<longleftrightarrow> sName r' = sName r \<and> pBuffer r' = pBuffer r \<and> SizeOfBuffer r' = SizeOfBuffer r \<and> Flags r' = Flags r"

definition keeps_outside :: "ring \<Rightarrow> byte_mem \<Rightarrow> byte_mem \<Rightarrow> bool" where
  "keeps_outside r m m' \<longleftrightarrow> (\<forall>a. \<not> a - pBuffer r < SizeOfBuffer r \<longrightarrow> m' a = m a)"

lemma same_place_simps [simp]: "same_place r r" "same_place r (consume n r)" "same_place r (advance n r)"
  by (simp_all add: same_place_def)

lemma same_place_trans: "same_place r r' \<Longrightarrow> same_place r' r'' \<Longrightarrow> same_place r r''"
  by (simp add: same_place_def)

lemma keeps_outside_simps [simp]: "keeps_outside r m m"
  by (simp add: keeps_outside_def)

lemma keeps_outside_trans:
  "keeps_outside r m m' \<Longrightarrow> keeps_outside r' m' m'' \<Longrightarrow> same_place r r' \<Longrightarrow> keeps_outside r m m''"
  by (simp add: keeps_outside_def same_place_def)

lemma put_keeps: "ring_ok r \<Longrightarrow> length bs < unat (SizeOfBuffer r) \<Longrightarrow> keeps_outside r m (put_ring bs r m)"
  by (simp add: keeps_outside_def put_ring_out)

lemma blocking_turn_puts:
  assumes r: "ring_ok r" and n: "length bs < 2 ^ 32"
  shows "\<exists>k. blocking_turn h bs r m = (of_nat k, take (unat h) (held r m),
      advance k (consume (min (unat h) (ring_used r)) r), put_ring (take k bs) (consume (min (unat h) (ring_used r)) r) m) \<and>
    k \<le> length bs \<and> k \<le> ring_free (consume (min (unat h) (ring_used r)) r) \<and>
    (0 < ring_free (consume (min (unat h) (ring_used r)) r) \<and> bs \<noteq> [] \<longrightarrow> 0 < k) \<and>
    k = min (min (ring_free (consume (min (unat h) (ring_used r)) r)) (unat (SizeOfBuffer r) - unat (WrOff r))) (length bs)"
proof -
  define q where "q = consume (min (unat h) (ring_used r)) r"
  have q: "ring_ok q" unfolding q_def using r by (rule consume_ok) simp
  define n where "n = min (min (avail_write_space q) (SizeOfBuffer q - WrOff q)) (of_nat (length bs))"
  have w: "unat (WrOff q) < unat (SizeOfBuffer q)" using q by (simp add: ring_ok_def word_less_nat_alt)
  have rem: "unat (SizeOfBuffer q - WrOff q) = unat (SizeOfBuffer q) - unat (WrOff q)"
    using w by (simp add: unat_sub word_le_nat_alt)
  have un: "unat n = min (min (ring_free q) (unat (SizeOfBuffer q) - unat (WrOff q))) (length bs)"
    using avail_free [OF q] rem small_bytes [OF assms(2)] by (simp add: n_def min_def word_le_nat_alt)
  have av: "(if RdOff q > WrOff q then RdOff q - WrOff q - 1 else SizeOfBuffer q - (WrOff q - RdOff q + 1)) = avail_write_space q"
    by (auto simp: avail_write_space_def)
  have off: "(if WrOff q + n = SizeOfBuffer q then 0 else WrOff q + n) = WrOff (advance (unat n) q)"
  proof -
    have "unat n < unat (SizeOfBuffer q)" using un w by (simp add: ring_free_def)
    note o = write_offset [OF q this]
    show ?thesis
    proof (cases "n < SizeOfBuffer q - WrOff q")
      case True
      then have "WrOff q + n \<noteq> SizeOfBuffer q" by (auto simp: eq_diff_eq [symmetric] add.commute)
      then show ?thesis using o True by (simp add: advance_def)
    next
      case False
      then have "n = SizeOfBuffer q - WrOff q"
        using un rem by (simp add: word_unat_eq_iff word_less_nat_alt)
      then show ?thesis using o by (simp add: advance_def)
    qed
  qed
  have mem: "put_bytes (pBuffer q + WrOff q) (take (unat n) bs) m = put_ring (take (unat n) bs) q m"
    using un by (simp add: put_ring_def)
  have "blocking_turn h bs r m =
      (of_nat (unat n), take (unat h) (held r m), advance (unat n) q, put_ring (take (unat n) bs) q m)"
    using ReadNoLock_takes [OF r, of h m] av off mem
    by (simp add: blocking_turn_def Let_def q_def [symmetric] n_def [symmetric] advance_def split del: if_split cong del: if_weak_cong)
  moreover have "unat n \<le> length bs" "unat n \<le> ring_free q" "0 < ring_free q \<and> bs \<noteq> [] \<longrightarrow> 0 < unat n"
    using un w by auto
  moreover have "unat n = min (min (ring_free q) (unat (SizeOfBuffer r) - unat (WrOff r))) (length bs)"
    unfolding un by (simp add: q_def)
  ultimately show ?thesis unfolding q_def [symmetric] by blast
qed


text \<open>
  The blocking writer: when it returns it has written everything, behind what the ring held; what
  the host has not taken of that is still there.
\<close>

lemma WriteBlocking_writes:
  assumes "ring_ok r" and "length bs < 2 ^ 32" and "WriteBlocking hs bs r m = Some (n, taken, r', m')"
  shows "n = of_nat (length bs) \<and> ring_ok r' \<and> taken @ held r' m' = held r m @ bs \<and> same_place r r' \<and> keeps_outside r m m'"
  using assms
proof (induction hs arbitrary: bs r m n taken r' m')
  case (Cons h hs)
  define q where "q = consume (min (unat h) (ring_used r)) r"
  have q: "ring_ok q" "held q m = drop (unat h) (held r m)" "same_place r q"
    using consume_ok(1) [OF Cons.prems(1), of "min (unat h) (ring_used r)"]
      held_consume [OF Cons.prems(1), of "min (unat h) (ring_used r)" m]
    by (simp_all add: q_def min_def)
  obtain k where t: "blocking_turn h bs r m = (of_nat k, take (unat h) (held r m), advance k q, put_ring (take k bs) q m)"
    and k: "k \<le> length bs" "k \<le> ring_free q"
    using blocking_turn_puts [OF Cons.prems(1,2), of h m] unfolding q_def by blast
  have fits: "length (take k bs) + ring_used q < unat (SizeOfBuffer q)"
    using k used_less [OF q(1)] by (simp add: ring_free_def)
  have uk: "unat (of_nat k :: word32) = k" using k Cons.prems(2) by (intro unat_of_nat_32) simp
  have lk: "length (take k bs) = k" using k by simp
  note a = advance_ok [OF q(1) fits, unfolded lk] held_write [OF q(1) fits, of m, unfolded lk]
  have keep: "keeps_outside r m (put_ring (take k bs) q m)"
    using put_keeps [OF q(1), of "take k bs" m] fits q(3) by (simp add: keeps_outside_def same_place_def)
  have place: "same_place r (advance k q)" using q(3) by (rule same_place_trans) simp
  show ?case
  proof (cases "drop k bs = []")
    case True
    then have "take k bs = bs" "k = length bs" using k by simp_all
    then show ?thesis using Cons.prems(3) t uk True a q(2) keep place append_take_drop_id [of "unat h" "held r m"]
      by (auto simp flip: append_assoc)
  next
    case False
    from Cons.prems(3) t uk False obtain n2 taken2 where
      w: "WriteBlocking hs (drop k bs) (advance k q) (put_ring (take k bs) q m) = Some (n2, taken2, r', m')"
      and e: "n = of_nat k + n2" "taken = take (unat h) (held r m) @ taken2"
      by (auto split: bind_splits)
    from Cons.IH [OF a(1) _ w] Cons.prems(2)
    have i: "n2 = of_nat (length (drop k bs))" "ring_ok r'" "taken2 @ held r' m' = held (advance k q) (put_ring (take k bs) q m) @ drop k bs"
      "same_place (advance k q) r'" "keeps_outside (advance k q) (put_ring (take k bs) q m) m'"
      by simp_all
    have "n = of_nat (length bs)" using e(1) i(1) k by (simp flip: of_nat_add)
    moreover have "taken @ held r' m' = held r m @ bs"
      using e(2) i(3) a(3) q(2) by (simp add: append_assoc)
    ultimately show ?thesis
      using i keep place same_place_trans [OF place i(4)] keeps_outside_trans [OF keep i(5) place] by blast
  qed
qed simp

text \<open>It returns after at most as many turns as there are bytes, if the host takes something each time.\<close>

lemma WriteBlocking_returns:
  assumes "ring_ok r" and "1 < SizeOfBuffer r" and "length bs < 2 ^ 32" and "length bs \<le> length hs" and "hs \<noteq> []" and "0 \<notin> set hs"
  shows "WriteBlocking hs bs r m \<noteq> None"
  using assms
proof (induction hs arbitrary: bs r m)
  case (Cons h hs)
  define q where "q = consume (min (unat h) (ring_used r)) r"
  have le: "min (unat h) (ring_used r) \<le> ring_used r" by simp
  note c = consume_ok [OF Cons.prems(1) le]
  have q: "ring_ok q" "SizeOfBuffer q = SizeOfBuffer r" using c by (simp_all add: q_def)
  have S: "1 < unat (SizeOfBuffer r)" using Cons.prems(2) by (simp add: word_less_nat_alt)
  have h: "0 < unat h" using Cons.prems(6) by (auto simp: unat_gt_0)
  have free: "0 < ring_free q"
    using c(2) used_less [OF Cons.prems(1)] S h by (auto simp: q_def ring_free_def min_def)
  obtain k where t: "blocking_turn h bs r m = (of_nat k, take (unat h) (held r m), advance k q, put_ring (take k bs) q m)"
    and k: "k \<le> length bs" "k \<le> ring_free q" "bs \<noteq> [] \<Longrightarrow> 0 < k"
    using blocking_turn_puts [OF Cons.prems(1,3), of h m] free unfolding q_def by blast
  have uk: "unat (of_nat k :: word32) = k" using k Cons.prems(3) by (intro unat_of_nat_32) simp
  show ?case
  proof (cases "drop k bs = []")
    case False
    have "ring_ok (advance k q)" using k used_less [OF q(1)] by (intro advance_ok [OF q(1)]) (simp add: ring_free_def)
    moreover have "0 < k" using k(3) False by (cases "bs = []") auto
    then have "length (drop k bs) \<le> length hs" "hs \<noteq> []" using False Cons.prems(4) by auto
    ultimately have "WriteBlocking hs (drop k bs) (advance k q) (put_ring (take k bs) q m) \<noteq> None"
      using Cons.prems q by (intro Cons.IH) auto
    then show ?thesis using t uk False by auto
  qed (use t uk in simp)
qed simp


text \<open>What fits is written in two turns at most, even if the host takes nothing.\<close>

lemma free_consume: "ring_ok r \<Longrightarrow> ring_free r \<le> ring_free (consume (min n (ring_used r)) r)"
  using consume_ok(2) [of r "min n (ring_used r)"] by (simp add: ring_free_def)

lemma WriteBlocking_fits:
  assumes r: "ring_ok r" and n: "length bs \<le> ring_free r" and hs: "2 \<le> length hs"
  shows "WriteBlocking hs bs r m \<noteq> None"
proof -
  obtain h1 h2 hs' where hs: "hs = h1 # h2 # hs'" using hs by (cases hs rule: remdups_adj.cases) auto
  have small: "length bs < 2 ^ 32" using n used_less [OF r] unat_32 [of "SizeOfBuffer r"] by (simp add: ring_free_def)
  define q where "q = consume (min (unat h1) (ring_used r)) r"
  have q: "ring_ok q" "length bs \<le> ring_free q" unfolding q_def
    using consume_ok(1) [OF r, of "min (unat h1) (ring_used r)"] free_consume [OF r, of "unat h1"] n by simp_all
  obtain k where t: "blocking_turn h1 bs r m = (of_nat k, take (unat h1) (held r m), advance k q, put_ring (take k bs) q m)"
    and k0: "k = min (min (ring_free q) (unat (SizeOfBuffer r) - unat (WrOff r))) (length bs)"
    using blocking_turn_puts [OF r small, of h1 m] unfolding q_def [symmetric] by blast
  have k: "k = min (unat (SizeOfBuffer r) - unat (WrOff r)) (length bs)" unfolding k0 using q(2) by (simp add: min_def)
  have uk: "unat (of_nat k :: word32) = k" using k small by (intro unat_of_nat_32) simp
  show ?thesis
  proof (cases "drop k bs = []")
    case False
    have w: "unat (WrOff r) < unat (SizeOfBuffer r)" using r by (simp add: ring_ok_def word_less_nat_alt)
    then have k2: "unat (WrOff q) + k = unat (SizeOfBuffer q)" using False k by (simp add: q_def)
    define p where "p = advance k q"
    have kf: "k + ring_used q < unat (SizeOfBuffer q)" using k q(2) used_less [OF q(1)] by (simp add: ring_free_def)
    have p: "ring_ok p" "length (drop k bs) \<le> ring_free p" "WrOff p = 0"
      using advance_ok [OF q(1) kf] q(2) k2 by (simp_all add: p_def ring_free_def) (simp add: advance_def)
    define p2 where "p2 = consume (min (unat h2) (ring_used p)) p"
    have p2: "length (drop k bs) \<le> ring_free p2" using free_consume [OF p(1), of "unat h2"] p(2) by (simp add: p2_def)
    have "length (drop k bs) < 2 ^ 32" using small by simp
    from blocking_turn_puts [OF p(1) this, of h2 "put_ring (take k bs) q m"] obtain j where
      b: "blocking_turn h2 (drop k bs) p (put_ring (take k bs) q m) =
        (of_nat j, take (unat h2) (held p (put_ring (take k bs) q m)), advance j p2, put_ring (take j (drop k bs)) p2 (put_ring (take k bs) q m))"
      and j: "j = min (min (ring_free p2) (unat (SizeOfBuffer p) - unat (WrOff p))) (length (drop k bs))"
      unfolding p2_def [symmetric] by blast
    from b have t2: "fst (blocking_turn h2 (drop k bs) p (put_ring (take k bs) q m)) = of_nat j" by simp
    have "length (drop k bs) \<le> unat (SizeOfBuffer p)" using p(2) by (simp add: ring_free_def)
    then have "j = length (drop k bs)" unfolding j p(3) using p2 by (simp add: min_def)
    moreover from this have "unat (of_nat j :: word32) = j" using small by (intro unat_of_nat_32) simp
    ultimately have "drop (unat (fst (blocking_turn h2 (drop k bs) p (put_ring (take k bs) q m)))) (drop k bs) = []" using t2 by simp
    then show ?thesis using t uk False by (auto simp: hs p_def split: prod.splits)
  qed (use t uk hs in simp)
qed

text \<open>A write of what fits.\<close>

lemma puts_append:
  assumes "ring_ok r" and "length bs \<le> ring_free r"
  shows "ring_ok (advance (length bs) r)" "held (advance (length bs) r) (put_ring bs r m) = held r m @ bs"
    "keeps_outside r m (put_ring bs r m)" "length bs < unat (SizeOfBuffer r)"
proof -
  have "length bs + ring_used r < unat (SizeOfBuffer r)" using assms used_less [OF assms(1)] by (simp add: ring_free_def)
  then show "ring_ok (advance (length bs) r)" "held (advance (length bs) r) (put_ring bs r m) = held r m @ bs"
    "keeps_outside r m (put_ring bs r m)" "length bs < unat (SizeOfBuffer r)"
    using assms(1) by (simp_all add: advance_ok held_write put_keeps)
qed

text \<open>
  How many of the bytes a call in one of the modes that do not block takes: all or none, or what
  fits.
\<close>

definition accepted :: "ring \<Rightarrow> nat \<Rightarrow> nat" where
  "accepted r n =
    (if Flags r = MODE_NO_BLOCK_SKIP then if n \<le> ring_free r then n else 0
     else if Flags r = MODE_NO_BLOCK_TRIM then min n (ring_free r) else 0)"

lemma WriteNoLock_appends:
  assumes r: "ring_ok r" and n: "length bs < 2 ^ 32" and "Flags r \<noteq> MODE_BLOCK_IF_FIFO_FULL"
  shows "\<exists>r' m'. WriteNoLock hs bs r m = Some (of_nat (accepted r (length bs)), [], r', m') \<and> ring_ok r' \<and>
    held r' m' = held r m @ take (accepted r (length bs)) bs \<and> same_place r r' \<and> keeps_outside r m m'"
proof -
  let ?k = "accepted r (length bs)"
  have k: "?k \<le> ring_free r" "?k \<le> length bs" by (auto simp: accepted_def)
  have lk: "length (take ?k bs) = ?k" using k by simp
  note p = puts_append [OF r, where bs = "take ?k bs", unfolded lk, OF k(1)]
  note no_check = WriteNoCheck_puts [OF r, of "take ?k bs" m, unfolded lk, OF p(4)]
  have free: "unat (avail_write_space r) = ring_free r" by (rule avail_free [OF r])
  have lt: "avail_write_space r < of_nat (length bs) \<longleftrightarrow> ring_free r < length bs"
    using free small_bytes [OF n] by (simp add: word_less_nat_alt)
  have tr: "(if ring_free r < length bs then avail_write_space r else of_nat (length bs)) = of_nat (min (length bs) (ring_free r))"
  proof -
    have "of_nat (ring_free r) = avail_write_space r" by (metis free of_nat_unat ucast_id)
    then show ?thesis by (simp add: min_def)
  qed
  consider (skip) "Flags r = MODE_NO_BLOCK_SKIP" | (trim) "Flags r = MODE_NO_BLOCK_TRIM"
    | (other) "Flags r \<noteq> MODE_NO_BLOCK_SKIP" "Flags r \<noteq> MODE_NO_BLOCK_TRIM" by blast
  then show ?thesis
  proof cases
    case skip
    then show ?thesis using p no_check lt r by (auto simp: WriteNoLock_def accepted_def not_less split: if_splits)
  next
    case trim
    then have a: "?k = min (length bs) (ring_free r)" by (simp add: accepted_def MODE_NO_BLOCK_SKIP_def MODE_NO_BLOCK_TRIM_def)
    have "unat (of_nat ?k :: word32) = ?k" using k n by (intro unat_of_nat_32) linarith
    then show ?thesis using trim p no_check lt tr a
      by (simp add: WriteNoLock_def Let_def MODE_NO_BLOCK_SKIP_def MODE_NO_BLOCK_TRIM_def split del: if_split)
  next
    case other
    then show ?thesis using assms by (auto simp: WriteNoLock_def accepted_def)
  qed
qed

text \<open>The three ways to write in skip mode do the same.\<close>

lemma skip_modes_agree:
  assumes r: "ring_ok r" and n: "length bs < 2 ^ 32" and "Flags r = MODE_NO_BLOCK_SKIP" and "bs \<noteq> []"
  shows "WriteNoLock hs bs r m =
    (case WriteSkipNoLock bs r m of (ok, r', m') \<Rightarrow> Some (if ok = 1 then of_nat (length bs) else 0, [], r', m'))"
proof -
  have "avail_write_space r < of_nat (length bs) \<longleftrightarrow> ring_free r < length bs"
    using avail_free [OF r] small_bytes [OF n] by (simp add: word_less_nat_alt)
  moreover have "length bs \<le> ring_free r \<Longrightarrow> WriteNoCheck bs r m = (advance (length bs) r, put_ring bs r m)"
    using puts_append(4) [OF r] by (intro WriteNoCheck_puts [OF r])
  ultimately show ?thesis using assms(3) by (simp add: WriteNoLock_def WriteSkipNoLock_puts [OF r n] not_less)
qed

lemma put_char_agrees: "ring_ok r \<Longrightarrow> PutCharSkipNoLock c r m = WriteSkipNoLock [c] r m"
  by (simp add: PutCharSkipNoLock_puts WriteSkipNoLock_puts Suc_le_eq)


section \<open>A character\<close>

lemma wait_for_space_takes:
  assumes "ring_ok r" and "wait_for_space hs wr r m = Some (taken, r')"
  shows "ring_ok r' \<and> taken @ held r' m = held r m \<and> same_place r r' \<and> WrOff r' = WrOff r \<and> wr \<noteq> RdOff r'"
  using assms
proof (induction hs arbitrary: r taken)
  case (Cons h hs)
  define k where "k = min (unat h) (ring_used r)"
  have k: "k \<le> ring_used r" "take (unat h) (held r m) = take k (held r m)" by (simp_all add: k_def min_def)
  note c = consume_ok(1) [OF Cons.prems(1) k(1)] held_consume [OF Cons.prems(1) k(1), of m]
  note rd = ReadNoLock_takes [OF Cons.prems(1), of h m, folded k_def, unfolded k(2)]
  show ?case
  proof (cases "wr = RdOff (consume k r)")
    case True
    then obtain t where t: "wait_for_space hs wr (consume k r) m = Some (t, r')" "taken = take k (held r m) @ t"
      using Cons.prems(2) rd by (auto split: bind_splits)
    have i: "ring_ok r' \<and> t @ held r' m = held (consume k r) m \<and> same_place (consume k r) r' \<and>
        WrOff r' = WrOff (consume k r) \<and> wr \<noteq> RdOff r'" by (rule Cons.IH [OF c(1) t(1)])
    then show ?thesis using t(2) c(2) same_place_trans [of r "consume k r" r'] by simp
  qed (use Cons.prems(2) rd c in auto)
qed simp

lemma advance_same: "same_place r r' \<Longrightarrow> WrOff r' = WrOff r \<Longrightarrow> WrOff (advance n r') = WrOff (advance n r)"
  by (simp add: advance_def same_place_def)

text \<open>A character that is put behind what the ring holds, after the host has taken some of it.\<close>

lemma PutChar_puts:
  assumes r: "ring_ok r" and p: "PutChar hs c r m = Some (n, taken, r', m')"
  shows "ring_ok r' \<and> same_place r r' \<and> keeps_outside r m m' \<and>
    (if Flags r = MODE_BLOCK_IF_FIFO_FULL then n = 1 \<and> taken @ held r' m' = held r m @ [c]
     else taken = [] \<and> (n, r', m') = PutCharSkipNoLock c r m)"
proof -
  let ?w = "WrOff (advance 1 r)"
  have w: "(if WrOff r + 1 = SizeOfBuffer r then 0 else WrOff r + 1) = ?w" by (rule next_offset(1) [OF r])
  have put: "ring_ok (q\<lparr>WrOff := ?w\<rparr>) \<and> held (q\<lparr>WrOff := ?w\<rparr>) (m(pBuffer q + WrOff q := c)) = held q m @ [c] \<and>
      keeps_outside r m (m(pBuffer q + WrOff q := c)) \<and> same_place r (q\<lparr>WrOff := ?w\<rparr>)"
    if q: "ring_ok q" "same_place r q" "WrOff q = WrOff r" "?w \<noteq> RdOff q" for q
  proof -
    have e: "q\<lparr>WrOff := ?w\<rparr> = advance 1 q" using advance_same [OF q(2,3), of 1] by (simp add: advance_def)
    have "ring_free q \<noteq> 0" using next_offset(2) [OF q(1)] q(4) advance_same [OF q(2,3), of 1] by simp
    then show ?thesis using puts_append [OF q(1), where bs = "[c]"] q(2) same_place_trans [OF q(2), of "advance 1 q"]
      unfolding e put_one [OF q(1)] by (simp add: Suc_le_eq keeps_outside_def same_place_def)
  qed
  show ?thesis
  proof (cases "Flags r = MODE_BLOCK_IF_FIFO_FULL")
    case True
    obtain t q where t: "wait_for_space hs ?w r m = Some (t, q)"
      and e: "?w \<noteq> RdOff q \<Longrightarrow> n = 1 \<and> taken = t \<and> r' = q\<lparr>WrOff := ?w\<rparr> \<and> m' = m(pBuffer q + WrOff q := c)"
      using p True unfolding PutChar_def Let_def w by (auto split: bind_splits if_splits simp del: One_nat_def)
    note q = wait_for_space_takes [OF r t]
    then show ?thesis using e put [of q] True by (auto simp flip: append_assoc)
  next
    case False
    then show ?thesis using p put [OF r] r unfolding PutChar_def PutCharSkipNoLock_def Let_def w
      by (auto split: if_splits)
  qed
qed

section \<open>Overwriting\<close>

lemma wrap_read_mod: "n \<noteq> 0 \<Longrightarrow> wrap_read n rd = Some (of_nat (unat rd mod unat n))"
proof (induction n rd rule: wrap_read.induct)
  case (1 n rd)
  show ?case
  proof (cases "n \<le> rd")
    case True
    then have "unat (rd - n) mod unat n = unat rd mod unat n"
      by (simp add: unat_sub word_le_nat_alt le_mod_geq)
    then show ?thesis using 1 True by (subst wrap_read.simps) simp
  next
    case False
    then show ?thesis using 1 by (subst wrap_read.simps) (simp add: word_le_nat_alt)
  qed
qed

lemma overwrite_puts:
  assumes r: "ring_ok r" and n: "length bs < unat (SizeOfBuffer r)"
  shows "overwrite_loop (SizeOfBuffer r - WrOff r) bs r m = Some (advance (length bs) r, put_ring bs r m)"
proof -
  let ?S = "unat (SizeOfBuffer r)" and ?w = "unat (WrOff r)"
  have w: "?w < ?S" using r by (simp add: ring_ok_def word_less_nat_alt)
  have rem: "unat (SizeOfBuffer r - WrOff r) = ?S - ?w" using w by (simp add: unat_sub word_le_nat_alt)
  have small: "unat (of_nat k :: word32) = k" if "k \<le> length bs" for k
    using that n unat_32 [of "SizeOfBuffer r"] by (intro unat_of_nat_32) linarith
  note o = write_offset [OF r n]
  show ?thesis
  proof (cases "length bs < ?S - ?w")
    case True
    then have "of_nat (length bs) < SizeOfBuffer r - WrOff r" using small rem by (simp add: word_less_nat_alt)
    then show ?thesis using True o by (subst overwrite_loop.simps) (simp add: advance_def put_ring_def Let_def)
  next
    case False
    let ?rest = "drop (?S - ?w) bs"
    have lt: "\<not> of_nat (length bs) < SizeOfBuffer r - WrOff r" using False small rem by (simp add: word_less_nat_alt)
    have nz: "SizeOfBuffer r - WrOff r \<noteq> 0" using w by auto
    have "\<not> ?w + length bs < ?S" "?w + length bs - ?S < ?S"
      "?w + length bs - ?S = length ?rest" using False w n by auto
    then have "(?w + length bs) mod ?S = length ?rest" using le_mod_geq [of ?S "?w + length bs"] by simp
    then have off: "(of_nat ((?w + length bs) mod ?S) :: word32) = of_nat (length ?rest)" by simp
    have "?S \<noteq> 0" using w by simp
    then have "unat (SizeOfBuffer r - 1) = ?S - 1" by (intro unat_minus_one) auto
    moreover have "length ?rest < ?S - 1" using n w False by auto
    ultimately have room: "of_nat (length ?rest) < SizeOfBuffer r - 1"
      using small [of "length ?rest"] by (simp only: word_less_nat_alt) simp
    have last: "overwrite_loop (SizeOfBuffer r - 1) ?rest (r\<lparr>WrOff := 0\<rparr>) m2 =
        Some (advance (length bs) r, put_bytes (pBuffer r) ?rest m2)" for m2
      using room off by (subst overwrite_loop.simps) (simp add: advance_def Let_def)
    show ?thesis
    proof (cases "?rest = []")
      case True
      then show ?thesis using lt off rem
        by (subst overwrite_loop.simps) (simp add: advance_def put_ring_def Let_def)
    next
      case False
      then show ?thesis using lt nz rem last
        by (subst overwrite_loop.simps) (simp add: put_ring_def Let_def)
    qed
  qed
qed

lemma overwrite_avail:
  "(if WrOff r = RdOff r then SizeOfBuffer r - 1 else if WrOff r < RdOff r then RdOff r - WrOff r - 1
    else RdOff r - WrOff r - 1 + SizeOfBuffer r) = avail_write_space r"
  by (auto simp: avail_write_space_def)

lemma overwrite_drops:
  assumes r: "ring_ok r" and S: "unat (SizeOfBuffer r) \<le> 2 ^ 31" and n: "length bs \<le> unat (SizeOfBuffer r)"
    and "ring_free r < length bs"
  shows "WriteWithOverwriteNoLock bs r m =
    overwrite_loop (SizeOfBuffer r - WrOff r) bs (consume (length bs - ring_free r) r) m"
proof -
  let ?S = "unat (SizeOfBuffer r)"
  have free: "unat (avail_write_space r) = ring_free r" by (rule avail_free [OF r])
  have ln: "unat (of_nat (length bs) :: word32) = length bs" using n S by (intro unat_of_nat_32) simp
  have gt: "avail_write_space r < of_nat (length bs)" using free ln assms(4) by (simp add: word_less_nat_alt)
  have d: "unat (of_nat (length bs) - avail_write_space r) = length bs - ring_free r"
    using free ln assms(4) by (simp add: unat_sub word_le_nat_alt)
  have rd: "unat (RdOff r) < ?S" using r by (simp add: ring_ok_def word_less_nat_alt)
  have "unat (RdOff r + (of_nat (length bs) - avail_write_space r)) = unat (RdOff r) + (length bs - ring_free r)"
    using rd S n d by (simp add: unat_word_ariths)
  moreover have "SizeOfBuffer r \<noteq> 0" using rd by auto
  ultimately have "wrap_read (SizeOfBuffer r) (RdOff r + (of_nat (length bs) - avail_write_space r)) =
      Some (of_nat ((unat (RdOff r) + (length bs - ring_free r)) mod ?S))" by (simp add: wrap_read_mod)
  then show ?thesis using gt
    by (simp add: WriteWithOverwriteNoLock_def Let_def overwrite_avail consume_def)
qed

text \<open>Writing less than the size of the ring drops as many of the oldest bytes as do not fit.\<close>

lemma overwrite_newest:
  assumes r: "ring_ok r" and n: "length bs < unat (SizeOfBuffer r)" and S: "unat (SizeOfBuffer r) \<le> 2 ^ 31"
  shows "\<exists>r' m'. WriteWithOverwriteNoLock bs r m = Some (r', m') \<and> ring_ok r' \<and> same_place r r' \<and> keeps_outside r m m' \<and>
    held r' m' = drop (length bs - ring_free r) (held r m @ bs)"
proof -
  let ?x = "length bs - ring_free r"
  have x: "?x \<le> ring_used r" using n used_less [OF r] by (simp add: ring_free_def)
  note c = consume_ok [OF r x] held_consume [OF r x, of m]
  have fits: "length bs \<le> ring_free (consume ?x r)" using c(2) n used_less [OF r] by (simp add: ring_free_def)
  have "WriteWithOverwriteNoLock bs r m = overwrite_loop (SizeOfBuffer r - WrOff r) bs (consume ?x r) m"
  proof (cases "ring_free r < length bs")
    case True
    then show ?thesis using n by (intro overwrite_drops [OF r S]) simp_all
  next
    case False
    have "unat (of_nat (length bs) :: word32) = length bs" using n S by (intro unat_of_nat_32) simp
    then have "\<not> avail_write_space r < of_nat (length bs)" using False avail_free [OF r] by (simp add: word_less_nat_alt)
    then show ?thesis using False r by (simp add: WriteWithOverwriteNoLock_def Let_def overwrite_avail)
  qed
  also have "\<dots> = Some (advance (length bs) (consume ?x r), put_ring bs (consume ?x r) m)"
    using overwrite_puts [OF c(1), of bs m] n by simp
  finally show ?thesis
    using puts_append [OF c(1) fits] c(3) x same_place_trans [of r "consume ?x r" "advance (length bs) (consume ?x r)"]
    by (simp add: keeps_outside_def)
qed

text \<open>Writing as many bytes as the ring has places, from the last place on, empties the ring.\<close>

lemma overwrite_loses:
  assumes r: "ring_ok r" and n: "length bs = unat (SizeOfBuffer r)" and S: "unat (SizeOfBuffer r) \<le> 2 ^ 31" "1 < SizeOfBuffer r"
    and last: "WrOff r = SizeOfBuffer r - 1"
  shows "\<exists>r' m'. WriteWithOverwriteNoLock bs r m = Some (r', m') \<and> held r' m' = []"
proof -
  let ?S = "unat (SizeOfBuffer r)" and ?x = "length bs - ring_free r"
  have S1: "1 < ?S" using S(2) by (simp add: word_less_nat_alt)
  have w: "unat (WrOff r) = ?S - 1" unfolding last using S1 by (intro unat_minus_one) auto
  have x: "?x = ring_used r + 1" using n used_less [OF r] by (simp add: ring_free_def)
  have "(unat (RdOff r) + ?x) mod ?S = (unat (WrOff r) + 1) mod ?S"
    unfolding x write_place [OF r] by (simp only: mod_add_left_eq add.assoc)
  then have rd: "RdOff (consume ?x r) = 0" using w S1 by (simp add: consume_def)
  have e: "of_nat (length bs) = SizeOfBuffer r" by (simp add: n)
  have one: "SizeOfBuffer r - WrOff r = 1" by (simp add: last)
  have rest: "of_nat (length (drop 1 bs)) = SizeOfBuffer r - 1" using n S1 by (simp add: of_nat_diff)
  have ne: "drop 1 bs \<noteq> []" using n S1 by auto
  have all: "drop (unat (SizeOfBuffer r - 1)) (drop 1 bs) = []" using n w last by simp
  have second: "\<exists>m3. overwrite_loop (SizeOfBuffer r - 1) (drop 1 bs) (q\<lparr>WrOff := 0\<rparr>) m2 = Some (q\<lparr>WrOff := 0\<rparr>, m3)"
    if "SizeOfBuffer q = SizeOfBuffer r" for q m2
    using rest all that by (subst overwrite_loop.simps) (simp add: Let_def)
  have "\<exists>m3. overwrite_loop 1 bs (consume ?x r) m = Some ((consume ?x r)\<lparr>WrOff := 0\<rparr>, m3)"
    using e S(2) ne second [of "consume ?x r"] S1 by (subst overwrite_loop.simps) (auto simp: Let_def)
  then obtain m3 where "WriteWithOverwriteNoLock bs r m = Some ((consume ?x r)\<lparr>WrOff := 0\<rparr>, m3)"
    using overwrite_drops [OF r S(1), of bs m] n used_less [OF r] one by (auto simp: ring_free_def)
  moreover have "held ((consume ?x r)\<lparr>WrOff := 0\<rparr>) m3 = []" using rd by (simp add: held_def ring_used_def)
  ultimately show ?thesis by blast
qed

section \<open>The number of bytes\<close>

lemma bytes_in_buffer_wraps:
  assumes "ring_ok r" and "unat (SizeOfBuffer r) \<le> 2 ^ 31"
  shows "unat (bytes_in_buffer r) = (if RdOff r \<le> WrOff r then ring_used r else 2 * unat (SizeOfBuffer r) - ring_used r)"
proof -
  have w: "unat (WrOff r) < unat (SizeOfBuffer r)" "unat (RdOff r) < unat (SizeOfBuffer r)"
    using assms(1) by (simp_all add: ring_ok_def word_less_nat_alt)
  show ?thesis
  proof (cases "RdOff r \<le> WrOff r")
    case True
    then show ?thesis by (simp add: bytes_in_buffer_def ring_used_def unat_sub)
  next
    case False
    have "bytes_in_buffer r = SizeOfBuffer r + (RdOff r - WrOff r)" using False by (simp add: bytes_in_buffer_def)
    moreover have "unat (SizeOfBuffer r + (RdOff r - WrOff r)) = unat (SizeOfBuffer r) + (unat (RdOff r) - unat (WrOff r))"
      using False w assms(2) by (simp add: unat_word_ariths unat_sub)
    ultimately show ?thesis using False w by (simp add: ring_used_def word_le_nat_alt)
  qed
qed

end
