(* ===== verification/Rtt.thy ===== *)
theory Rtt
  imports Rtt_Writers Refinement
begin

text \<open>
  The control block and the interface of \<open>pico-rtt/SEGGER_RTT.c\<close>: three channels to the host and
  three from it, each with a ring of theory Rtt_Ring. Functions that take the lock are one step;
  the lock is the one of theory Spinlock. The theorems: the channels are bounded queues that do not
  disturb each other, a blocking write delivers everything, output to another terminal leaves
  the stream of the active one as it was.
\<close>

section \<open>The control block\<close>

record rtt =
  acID :: "word8 list"
  MaxNumUpBuffers :: int
  MaxNumDownBuffers :: int
  aUp :: "ring list"
  aDown :: "ring list"
  ActiveTerminal :: word8
  rtt_ram :: byte_mem

text \<open>The addresses of \<open>_acUpBuffer\<close>, of \<open>_acDownBuffer\<close> and of the name of channel 0.\<close>

record rtt_link =
  acUpBuffer :: addr
  acDownBuffer :: addr
  terminal_name :: addr

definition MAX_NUM_UP_BUFFERS :: nat where "MAX_NUM_UP_BUFFERS = 3"
definition MAX_NUM_DOWN_BUFFERS :: nat where "MAX_NUM_DOWN_BUFFERS = 3"
definition BUFFER_SIZE_UP :: word32 where "BUFFER_SIZE_UP = 1024"
definition BUFFER_SIZE_DOWN :: word32 where "BUFFER_SIZE_DOWN = 16"
definition MODE_DEFAULT :: word32 where "MODE_DEFAULT = MODE_NO_BLOCK_SKIP"

definition zero_ring :: ring where
  "zero_ring = \<lparr>sName = 0, pBuffer = 0, SizeOfBuffer = 0, WrOff = 0, RdOff = 0, Flags = 0\<rparr>"

definition set_ring :: "addr \<Rightarrow> addr \<Rightarrow> word32 \<Rightarrow> word32 \<Rightarrow> ring \<Rightarrow> ring" where
  "set_ring name buf n flags r =
    r\<lparr>sName := name, pBuffer := buf, SizeOfBuffer := n, RdOff := 0, WrOff := 0, Flags := flags\<rparr>"

text \<open>Zeros and the identification backwards.\<close>

definition aInitStr :: "word8 list" where
  "aInitStr = replicate 6 0 @ map of_char ''TTR REGGES''"

definition DoInit :: "rtt_link \<Rightarrow> rtt \<Rightarrow> rtt" where
  "DoInit L s =
    (let s = s\<lparr>acID := replicate 16 0, MaxNumUpBuffers := 0, MaxNumDownBuffers := 0,
           aUp := replicate MAX_NUM_UP_BUFFERS zero_ring, aDown := replicate MAX_NUM_DOWN_BUFFERS zero_ring\<rparr>;
         s = s\<lparr>MaxNumUpBuffers := int MAX_NUM_UP_BUFFERS, MaxNumDownBuffers := int MAX_NUM_DOWN_BUFFERS\<rparr>;
         s = s\<lparr>aUp := (aUp s)[0 := set_ring (terminal_name L) (acUpBuffer L) BUFFER_SIZE_UP MODE_DEFAULT (aUp s ! 0)]\<rparr>;
         s = s\<lparr>aDown := (aDown s)[0 := set_ring (terminal_name L) (acDownBuffer L) BUFFER_SIZE_DOWN MODE_DEFAULT (aDown s ! 0)]\<rparr>
     in s\<lparr>acID := map (\<lambda>i. aInitStr ! (15 - i)) [0..<16]\<rparr>)"

definition INIT :: "rtt_link \<Rightarrow> rtt \<Rightarrow> rtt" where
  "INIT L s = (if acID s ! 0 \<noteq> of_char (CHR ''S'') then DoInit L s else s)"

definition SEGGER_RTT_Init :: "rtt_link \<Rightarrow> rtt \<Rightarrow> rtt" where
  "SEGGER_RTT_Init L s = DoInit L s"

text \<open>A function on the ring of a channel; \<open>None\<close> is an index outside of the array.\<close>

definition with_up :: "word32 \<Rightarrow> (ring \<Rightarrow> byte_mem \<Rightarrow> ('a \<times> ring \<times> byte_mem) option) \<Rightarrow> rtt \<Rightarrow> ('a \<times> rtt) option" where
  "with_up i f s =
    (if unat i < length (aUp s)
     then do { (x, r, m) \<leftarrow> f (aUp s ! unat i) (rtt_ram s); Some (x, s\<lparr>aUp := (aUp s)[unat i := r], rtt_ram := m\<rparr>) }
     else None)"

definition with_down :: "word32 \<Rightarrow> (ring \<Rightarrow> byte_mem \<Rightarrow> ('a \<times> ring \<times> byte_mem) option) \<Rightarrow> rtt \<Rightarrow> ('a \<times> rtt) option" where
  "with_down i f s =
    (if unat i < length (aDown s)
     then do { (x, r, m) \<leftarrow> f (aDown s ! unat i) (rtt_ram s); Some (x, s\<lparr>aDown := (aDown s)[unat i := r], rtt_ram := m\<rparr>) }
     else None)"

section \<open>Reading\<close>

definition SEGGER_RTT_ReadUpBufferNoLock :: "rtt_link \<Rightarrow> word32 \<Rightarrow> word32 \<Rightarrow> rtt \<Rightarrow> (word8 list \<times> rtt) option" where
  "SEGGER_RTT_ReadUpBufferNoLock L BufferIndex BufferSize s =
    with_up BufferIndex (\<lambda>r m. case ReadNoLock BufferSize r m of (bs, r) \<Rightarrow> Some (bs, r, m)) (INIT L s)"

definition SEGGER_RTT_ReadNoLock :: "rtt_link \<Rightarrow> word32 \<Rightarrow> word32 \<Rightarrow> rtt \<Rightarrow> (word8 list \<times> rtt) option" where
  "SEGGER_RTT_ReadNoLock L BufferIndex BufferSize s =
    with_down BufferIndex (\<lambda>r m. case ReadNoLock BufferSize r m of (bs, r) \<Rightarrow> Some (bs, r, m)) (INIT L s)"

definition SEGGER_RTT_ReadUpBuffer :: "rtt_link \<Rightarrow> word32 \<Rightarrow> word32 \<Rightarrow> rtt \<Rightarrow> (word8 list \<times> rtt) option" where
  "SEGGER_RTT_ReadUpBuffer L BufferIndex BufferSize s = SEGGER_RTT_ReadUpBufferNoLock L BufferIndex BufferSize s"

definition SEGGER_RTT_Read :: "rtt_link \<Rightarrow> word32 \<Rightarrow> word32 \<Rightarrow> rtt \<Rightarrow> (word8 list \<times> rtt) option" where
  "SEGGER_RTT_Read L BufferIndex BufferSize s = SEGGER_RTT_ReadNoLock L BufferIndex BufferSize s"

definition SEGGER_RTT_GetKey :: "rtt_link \<Rightarrow> rtt \<Rightarrow> (int \<times> rtt) option" where
  "SEGGER_RTT_GetKey L s = do {
     (bs, s) \<leftarrow> SEGGER_RTT_Read L 0 1 s;
     Some (if length bs = 1 then uint (bs ! 0) else - 1, s)
   }"

text \<open>One change of the state before each attempt; \<open>None\<close>: the script ends and no key has come.\<close>

fun SEGGER_RTT_WaitKey :: "rtt_link \<Rightarrow> (rtt \<Rightarrow> rtt) list \<Rightarrow> rtt \<Rightarrow> (int \<times> rtt) option" where
  "SEGGER_RTT_WaitKey L [] s = None"
| "SEGGER_RTT_WaitKey L (env # envs) s = do {
     (r, s) \<leftarrow> SEGGER_RTT_GetKey L (env s);
     if r < 0 then SEGGER_RTT_WaitKey L envs s else Some (r, s)
   }"

definition SEGGER_RTT_HasKey :: "rtt_link \<Rightarrow> rtt \<Rightarrow> (int \<times> rtt) option" where
  "SEGGER_RTT_HasKey L s = with_down 0 (\<lambda>r m. Some (if RdOff r \<noteq> WrOff r then 1 else 0, r, m)) (INIT L s)"

definition SEGGER_RTT_HasData :: "word32 \<Rightarrow> rtt \<Rightarrow> (word32 \<times> rtt) option" where
  "SEGGER_RTT_HasData BufferIndex s = with_down BufferIndex (\<lambda>r m. Some (WrOff r - RdOff r, r, m)) s"

definition SEGGER_RTT_HasDataUp :: "word32 \<Rightarrow> rtt \<Rightarrow> (word32 \<times> rtt) option" where
  "SEGGER_RTT_HasDataUp BufferIndex s = with_up BufferIndex (\<lambda>r m. Some (WrOff r - RdOff r, r, m)) s"

definition SEGGER_RTT_GetAvailWriteSpace :: "word32 \<Rightarrow> rtt \<Rightarrow> (word32 \<times> rtt) option" where
  "SEGGER_RTT_GetAvailWriteSpace BufferIndex s = with_up BufferIndex (\<lambda>r m. Some (avail_write_space r, r, m)) s"

definition SEGGER_RTT_GetBytesInBuffer :: "word32 \<Rightarrow> rtt \<Rightarrow> (word32 \<times> rtt) option" where
  "SEGGER_RTT_GetBytesInBuffer BufferIndex s = with_up BufferIndex (\<lambda>r m. Some (bytes_in_buffer r, r, m)) s"

section \<open>Writing\<close>

definition SEGGER_RTT_WriteWithOverwriteNoLock :: "word32 \<Rightarrow> word8 list \<Rightarrow> rtt \<Rightarrow> (unit \<times> rtt) option" where
  "SEGGER_RTT_WriteWithOverwriteNoLock BufferIndex bs s =
    with_up BufferIndex (\<lambda>r m. do { (r, m) \<leftarrow> WriteWithOverwriteNoLock bs r m; Some ((), r, m) }) s"

definition SEGGER_RTT_WriteSkipNoLock :: "word32 \<Rightarrow> word8 list \<Rightarrow> rtt \<Rightarrow> (word32 \<times> rtt) option" where
  "SEGGER_RTT_WriteSkipNoLock BufferIndex bs s = with_up BufferIndex (\<lambda>r m. Some (WriteSkipNoLock bs r m)) s"

text \<open>Of a writer that may wait: the result, and the bytes the other side has taken meanwhile.\<close>

definition paired :: "(word32 \<times> word8 list \<times> ring \<times> byte_mem) option \<Rightarrow> ((word32 \<times> word8 list) \<times> ring \<times> byte_mem) option" where
  "paired x = do { (n, taken, r, m) \<leftarrow> x; Some ((n, taken), r, m) }"

definition SEGGER_RTT_WriteDownBufferNoLock :: "word32 list \<Rightarrow> word32 \<Rightarrow> word8 list \<Rightarrow> rtt \<Rightarrow> ((word32 \<times> word8 list) \<times> rtt) option" where
  "SEGGER_RTT_WriteDownBufferNoLock hs BufferIndex bs s = with_down BufferIndex (\<lambda>r m. paired (WriteNoLock hs bs r m)) s"

definition SEGGER_RTT_WriteNoLock :: "word32 list \<Rightarrow> word32 \<Rightarrow> word8 list \<Rightarrow> rtt \<Rightarrow> ((word32 \<times> word8 list) \<times> rtt) option" where
  "SEGGER_RTT_WriteNoLock hs BufferIndex bs s = with_up BufferIndex (\<lambda>r m. paired (WriteNoLock hs bs r m)) s"

definition SEGGER_RTT_WriteDownBuffer ::
  "rtt_link \<Rightarrow> word32 list \<Rightarrow> word32 \<Rightarrow> word8 list \<Rightarrow> rtt \<Rightarrow> ((word32 \<times> word8 list) \<times> rtt) option" where
  "SEGGER_RTT_WriteDownBuffer L hs BufferIndex bs s = SEGGER_RTT_WriteDownBufferNoLock hs BufferIndex bs (INIT L s)"

definition SEGGER_RTT_Write ::
  "rtt_link \<Rightarrow> word32 list \<Rightarrow> word32 \<Rightarrow> word8 list \<Rightarrow> rtt \<Rightarrow> ((word32 \<times> word8 list) \<times> rtt) option" where
  "SEGGER_RTT_Write L hs BufferIndex bs s = SEGGER_RTT_WriteNoLock hs BufferIndex bs (INIT L s)"

text \<open>The string ends before its first zero.\<close>

definition STRLEN :: "word8 list \<Rightarrow> nat" where
  "STRLEN s = length (takeWhile (\<lambda>c. c \<noteq> 0) s)"

definition SEGGER_RTT_WriteString ::
  "rtt_link \<Rightarrow> word32 list \<Rightarrow> word32 \<Rightarrow> word8 list \<Rightarrow> rtt \<Rightarrow> ((word32 \<times> word8 list) \<times> rtt) option" where
  "SEGGER_RTT_WriteString L hs BufferIndex str s = SEGGER_RTT_Write L hs BufferIndex (take (STRLEN str) str) s"

definition SEGGER_RTT_PutCharSkipNoLock :: "word32 \<Rightarrow> word8 \<Rightarrow> rtt \<Rightarrow> (word32 \<times> rtt) option" where
  "SEGGER_RTT_PutCharSkipNoLock BufferIndex c s = with_up BufferIndex (\<lambda>r m. Some (PutCharSkipNoLock c r m)) s"

definition SEGGER_RTT_PutCharSkip :: "rtt_link \<Rightarrow> word32 \<Rightarrow> word8 \<Rightarrow> rtt \<Rightarrow> (word32 \<times> rtt) option" where
  "SEGGER_RTT_PutCharSkip L BufferIndex c s = with_up BufferIndex (\<lambda>r m. Some (PutCharSkipNoLock c r m)) (INIT L s)"

definition SEGGER_RTT_PutChar ::
  "rtt_link \<Rightarrow> word32 list \<Rightarrow> word32 \<Rightarrow> word8 \<Rightarrow> rtt \<Rightarrow> ((word32 \<times> word8 list) \<times> rtt) option" where
  "SEGGER_RTT_PutChar L hs BufferIndex c s = with_up BufferIndex (\<lambda>r m. paired (PutChar hs c r m)) (INIT L s)"

section \<open>Channels\<close>

text \<open>The search for a channel without buffer; \<open>i\<close> is the index of the first entry of the rest.\<close>

fun find_unused :: "int \<Rightarrow> int \<Rightarrow> ring list \<Rightarrow> int option" where
  "find_unused i n [] = None"
| "find_unused i n (r # rs) =
    (if pBuffer r = 0 then Some i else if i + 1 < n then find_unused (i + 1) n rs else Some (i + 1))"

definition SEGGER_RTT_AllocDownBuffer :: "rtt_link \<Rightarrow> addr \<Rightarrow> addr \<Rightarrow> word32 \<Rightarrow> word32 \<Rightarrow> rtt \<Rightarrow> (int \<times> rtt) option" where
  "SEGGER_RTT_AllocDownBuffer L name buf n flags s = (let s = INIT L s in do {
     i \<leftarrow> find_unused 0 (MaxNumDownBuffers s) (aDown s);
     if i < MaxNumDownBuffers s
     then Some (i, s\<lparr>aDown := (aDown s)[nat i := set_ring name buf n flags (aDown s ! nat i)]\<rparr>)
     else Some (- 1, s)
   })"

definition SEGGER_RTT_AllocUpBuffer :: "rtt_link \<Rightarrow> addr \<Rightarrow> addr \<Rightarrow> word32 \<Rightarrow> word32 \<Rightarrow> rtt \<Rightarrow> (int \<times> rtt) option" where
  "SEGGER_RTT_AllocUpBuffer L name buf n flags s = (let s = INIT L s in do {
     i \<leftarrow> find_unused 0 (MaxNumUpBuffers s) (aUp s);
     if i < MaxNumUpBuffers s
     then Some (i, s\<lparr>aUp := (aUp s)[nat i := set_ring name buf n flags (aUp s ! nat i)]\<rparr>)
     else Some (- 1, s)
   })"

text \<open>The functions that set fields of a channel: \<open>f\<close> is the change of the ring.\<close>

definition set_up :: "word32 \<Rightarrow> (ring \<Rightarrow> ring) \<Rightarrow> rtt \<Rightarrow> (int \<times> rtt) option" where
  "set_up i f s = (if unat i < MAX_NUM_UP_BUFFERS then with_up i (\<lambda>r m. Some (0, f r, m)) s else Some (- 1, s))"

definition set_down :: "word32 \<Rightarrow> (ring \<Rightarrow> ring) \<Rightarrow> rtt \<Rightarrow> (int \<times> rtt) option" where
  "set_down i f s = (if unat i < MAX_NUM_DOWN_BUFFERS then with_down i (\<lambda>r m. Some (0, f r, m)) s else Some (- 1, s))"

definition SEGGER_RTT_ConfigUpBuffer ::
  "rtt_link \<Rightarrow> word32 \<Rightarrow> addr \<Rightarrow> addr \<Rightarrow> word32 \<Rightarrow> word32 \<Rightarrow> rtt \<Rightarrow> (int \<times> rtt) option" where
  "SEGGER_RTT_ConfigUpBuffer L BufferIndex name buf n flags s =
    set_up BufferIndex (\<lambda>r. if BufferIndex \<noteq> 0 then set_ring name buf n flags r else r\<lparr>Flags := flags\<rparr>) (INIT L s)"

definition SEGGER_RTT_ConfigDownBuffer ::
  "rtt_link \<Rightarrow> word32 \<Rightarrow> addr \<Rightarrow> addr \<Rightarrow> word32 \<Rightarrow> word32 \<Rightarrow> rtt \<Rightarrow> (int \<times> rtt) option" where
  "SEGGER_RTT_ConfigDownBuffer L BufferIndex name buf n flags s =
    set_down BufferIndex (\<lambda>r. if BufferIndex \<noteq> 0 then set_ring name buf n flags r else r\<lparr>Flags := flags\<rparr>) (INIT L s)"

definition SEGGER_RTT_SetNameUpBuffer :: "rtt_link \<Rightarrow> word32 \<Rightarrow> addr \<Rightarrow> rtt \<Rightarrow> (int \<times> rtt) option" where
  "SEGGER_RTT_SetNameUpBuffer L BufferIndex name s = set_up BufferIndex (\<lambda>r. r\<lparr>sName := name\<rparr>) (INIT L s)"

definition SEGGER_RTT_SetNameDownBuffer :: "rtt_link \<Rightarrow> word32 \<Rightarrow> addr \<Rightarrow> rtt \<Rightarrow> (int \<times> rtt) option" where
  "SEGGER_RTT_SetNameDownBuffer L BufferIndex name s = set_down BufferIndex (\<lambda>r. r\<lparr>sName := name\<rparr>) (INIT L s)"

definition SEGGER_RTT_SetFlagsUpBuffer :: "rtt_link \<Rightarrow> word32 \<Rightarrow> word32 \<Rightarrow> rtt \<Rightarrow> (int \<times> rtt) option" where
  "SEGGER_RTT_SetFlagsUpBuffer L BufferIndex flags s = set_up BufferIndex (\<lambda>r. r\<lparr>Flags := flags\<rparr>) (INIT L s)"

definition SEGGER_RTT_SetFlagsDownBuffer :: "rtt_link \<Rightarrow> word32 \<Rightarrow> word32 \<Rightarrow> rtt \<Rightarrow> (int \<times> rtt) option" where
  "SEGGER_RTT_SetFlagsDownBuffer L BufferIndex flags s = set_down BufferIndex (\<lambda>r. r\<lparr>Flags := flags\<rparr>) (INIT L s)"

section \<open>Terminals\<close>

definition aTerminalId :: "word8 list" where
  "aTerminalId = map of_char ''0123456789ABCDEF''"

definition PostTerminalSwitch :: "word32 list \<Rightarrow> word8 \<Rightarrow> ring \<Rightarrow> byte_mem \<Rightarrow> (word8 list \<times> ring \<times> byte_mem) option" where
  "PostTerminalSwitch hs TerminalId r m = do {
     (n, taken, r, m) \<leftarrow> WriteBlocking hs [0xFF, aTerminalId ! unat TerminalId] r m;
     Some (taken, r, m)
   }"

definition SEGGER_RTT_SetTerminal :: "rtt_link \<Rightarrow> word32 list \<Rightarrow> word8 \<Rightarrow> rtt \<Rightarrow> ((int \<times> word8 list) \<times> rtt) option" where
  "SEGGER_RTT_SetTerminal L hs TerminalId s = (let s = INIT L s in
     if unat TerminalId < length aTerminalId
     then let ac = [0xFF, aTerminalId ! unat TerminalId]; r = aUp s ! 0
       in if Flags r AND MODE_MASK = MODE_BLOCK_IF_FIFO_FULL
          then with_up 0 (\<lambda>r m. do { (n, taken, r, m) \<leftarrow> WriteBlocking hs ac r m; Some ((0, taken), r, m) })
            (s\<lparr>ActiveTerminal := TerminalId\<rparr>)
          else if avail_write_space r \<ge> 2
          then with_up 0 (\<lambda>r m. case WriteNoCheck ac r m of (r, m) \<Rightarrow> Some ((0, []), r, m)) (s\<lparr>ActiveTerminal := TerminalId\<rparr>)
          else Some ((- 1, []), s)
     else Some ((- 1, []), s))"

text \<open>The three writes of \<open>SEGGER_RTT_TerminalOut\<close>, with a script for each.\<close>

definition switched_write :: "word32 list \<Rightarrow> word32 list \<Rightarrow> word32 list \<Rightarrow> word8 \<Rightarrow> word8 \<Rightarrow> word8 list \<Rightarrow> ring \<Rightarrow> byte_mem
    \<Rightarrow> ((int \<times> word8 list) \<times> ring \<times> byte_mem) option" where
  "switched_write hs1 hs2 hs3 TerminalId active bs r m = do {
     (taken1, r, m) \<leftarrow> PostTerminalSwitch hs1 TerminalId r m;
     (Status, taken2, r, m) \<leftarrow> WriteBlocking hs2 bs r m;
     (taken3, r, m) \<leftarrow> PostTerminalSwitch hs3 active r m;
     Some ((sint Status, taken1 @ taken2 @ taken3), r, m)
   }"

definition SEGGER_RTT_TerminalOut ::
  "rtt_link \<Rightarrow> word32 list \<Rightarrow> word32 list \<Rightarrow> word32 list \<Rightarrow> word8 \<Rightarrow> word8 list \<Rightarrow> rtt \<Rightarrow> ((int \<times> word8 list) \<times> rtt) option" where
  "SEGGER_RTT_TerminalOut L hs1 hs2 hs3 TerminalId str s = (let s = INIT L s in
     if TerminalId < 16
     then with_up 0 (\<lambda>r m.
       let FragLen = of_nat (STRLEN str); Avail = avail_write_space r; mode = Flags r AND MODE_MASK;
           write = (\<lambda>n. switched_write hs1 hs2 hs3 TerminalId (ActiveTerminal s) (take (unat n) str) r m)
       in if mode = MODE_NO_BLOCK_SKIP then if Avail < FragLen + 4 then Some ((0, []), r, m) else write FragLen
          else if mode = MODE_NO_BLOCK_TRIM
          then if Avail < 4 then Some ((- 1, []), r, m) else write (if FragLen < Avail - 4 then FragLen else Avail - 4)
          else if mode = MODE_BLOCK_IF_FIFO_FULL then write FragLen
          else Some ((- 1, []), r, m)) s
     else Some ((- 1, []), s))"

section \<open>The channels as queues\<close>

lemma with_up_Some:
  assumes "unat i < length (aUp s)" and "f (aUp s ! unat i) (rtt_ram s) = Some (x, r, m)"
  shows "with_up i f s = Some (x, s\<lparr>aUp := (aUp s)[unat i := r], rtt_ram := m\<rparr>)"
  using assms by (simp add: with_up_def)

lemma with_down_Some:
  assumes "unat i < length (aDown s)" and "f (aDown s ! unat i) (rtt_ram s) = Some (x, r, m)"
  shows "with_down i f s = Some (x, s\<lparr>aDown := (aDown s)[unat i := r], rtt_ram := m\<rparr>)"
  using assms by (simp add: with_down_def)

datatype chan = Up word32 | Down word32

definition ring_at :: "rtt \<Rightarrow> chan \<Rightarrow> ring option" where
  "ring_at s c = (case c of
     Up i \<Rightarrow> if unat i < length (aUp s) then Some (aUp s ! unat i) else None
   | Down i \<Rightarrow> if unat i < length (aDown s) then Some (aDown s ! unat i) else None)"

definition set_ring_at :: "chan \<Rightarrow> ring \<Rightarrow> byte_mem \<Rightarrow> rtt \<Rightarrow> rtt" where
  "set_ring_at c r m s = (case c of
     Up i \<Rightarrow> s\<lparr>aUp := (aUp s)[unat i := r], rtt_ram := m\<rparr>
   | Down i \<Rightarrow> s\<lparr>aDown := (aDown s)[unat i := r], rtt_ram := m\<rparr>)"

text \<open>What a client sees of a channel: its mode, its room and the bytes in it.\<close>

record channel =
  ch_flags :: word32
  ch_room :: nat
  ch_bytes :: "word8 list"

definition channel_of :: "ring \<Rightarrow> byte_mem \<Rightarrow> channel" where
  "channel_of r m = \<lparr>ch_flags = Flags r, ch_room = unat (SizeOfBuffer r) - 1, ch_bytes = held r m\<rparr>"

definition in_ring :: "ring \<Rightarrow> addr \<Rightarrow> bool" where
  "in_ring r x \<longleftrightarrow> x - pBuffer r < SizeOfBuffer r"

definition rtt_rep :: "chan set \<Rightarrow> rtt \<Rightarrow> (chan \<Rightarrow> channel) \<Rightarrow> bool" where
  "rtt_rep C s a \<longleftrightarrow> acID s ! 0 = of_char (CHR ''S'') \<and>
     (\<forall>c\<in>C. \<exists>r. ring_at s c = Some r \<and> ring_ok r \<and> Flags r \<noteq> MODE_BLOCK_IF_FIFO_FULL \<and> a c = channel_of r (rtt_ram s)) \<and>
     (\<forall>c\<in>C. \<forall>d\<in>C. c \<noteq> d \<longrightarrow> (\<forall>x. \<not> (in_ring (the (ring_at s c)) x \<and> in_ring (the (ring_at s d)) x)))"

datatype rtt_op = Send chan "word8 list" | Take chan word32 | Send_Char word32 word8 | Room word32
datatype rtt_res = Count word32 | Bytes "word8 list"

fun rtt_client :: "rtt_link \<Rightarrow> rtt_op \<Rightarrow> rtt \<Rightarrow> (rtt_res \<times> rtt) option" where
  "rtt_client L (Send (Up i) bs) s = do { ((n, taken), s) \<leftarrow> SEGGER_RTT_Write L [] i bs s; Some (Count n, s) }"
| "rtt_client L (Send (Down i) bs) s = do { ((n, taken), s) \<leftarrow> SEGGER_RTT_WriteDownBuffer L [] i bs s; Some (Count n, s) }"
| "rtt_client L (Take (Up i) n) s = do { (bs, s) \<leftarrow> SEGGER_RTT_ReadUpBuffer L i n s; Some (Bytes bs, s) }"
| "rtt_client L (Take (Down i) n) s = do { (bs, s) \<leftarrow> SEGGER_RTT_Read L i n s; Some (Bytes bs, s) }"
| "rtt_client L (Send_Char i c) s = do { (n, s) \<leftarrow> SEGGER_RTT_PutCharSkip L i c s; Some (Count n, s) }"
| "rtt_client L (Room i) s = do { (n, s) \<leftarrow> SEGGER_RTT_GetAvailWriteSpace i s; Some (Count n, s) }"

text \<open>The specification: queues with room for a number of bytes.\<close>

definition room_left :: "channel \<Rightarrow> nat" where
  "room_left ch = ch_room ch - length (ch_bytes ch)"

definition accepts :: "channel \<Rightarrow> nat \<Rightarrow> nat" where
  "accepts ch n =
    (if ch_flags ch = MODE_NO_BLOCK_SKIP then if n \<le> room_left ch then n else 0
     else if ch_flags ch = MODE_NO_BLOCK_TRIM then min n (room_left ch) else 0)"

definition append_to :: "chan \<Rightarrow> word8 list \<Rightarrow> (chan \<Rightarrow> channel) \<Rightarrow> chan \<Rightarrow> channel" where
  "append_to c bs a = a(c := (a c)\<lparr>ch_bytes := ch_bytes (a c) @ bs\<rparr>)"

fun spec_rtt :: "rtt_op \<Rightarrow> (chan \<Rightarrow> channel) \<Rightarrow> rtt_res \<times> (chan \<Rightarrow> channel)" where
  "spec_rtt (Send c bs) a = (let k = accepts (a c) (length bs) in (Count (of_nat k), append_to c (take k bs) a))"
| "spec_rtt (Take c n) a =
    (Bytes (take (unat n) (ch_bytes (a c))), a(c := (a c)\<lparr>ch_bytes := drop (unat n) (ch_bytes (a c))\<rparr>))"
| "spec_rtt (Send_Char i b) a = (if room_left (a (Up i)) = 0 then (Count 0, a) else (Count 1, append_to (Up i) [b] a))"
| "spec_rtt (Room i) a = (Count (of_nat (room_left (a (Up i)))), a)"

fun rtt_valid :: "chan set \<Rightarrow> rtt_op \<Rightarrow> bool" where
  "rtt_valid C (Send c bs) = (c \<in> C \<and> length bs < 2 ^ 32)"
| "rtt_valid C (Take c n) = (c \<in> C)"
| "rtt_valid C (Send_Char i b) = (Up i \<in> C)"
| "rtt_valid C (Room i) = (Up i \<in> C)"

text \<open>Changing the ring of one channel within its buffer changes that channel only.\<close>

lemma rtt_repD:
  assumes "rtt_rep C s a" and "c \<in> C"
  obtains r where "ring_at s c = Some r" "ring_ok r" "Flags r \<noteq> MODE_BLOCK_IF_FIFO_FULL" "a c = channel_of r (rtt_ram s)"
    "INIT L s = s"
  using assms by (auto simp: rtt_rep_def INIT_def)

lemma ring_at_set: "ring_at s c \<noteq> None \<Longrightarrow> ring_at (set_ring_at c r m s) d = (if d = c then Some r else ring_at s d)"
  by (auto simp: ring_at_def set_ring_at_def nth_list_update word_unat_eq_iff [symmetric] split: chan.splits if_splits)

lemma set_ring_at_sel [simp]: "acID (set_ring_at c r m s) = acID s" "rtt_ram (set_ring_at c r m s) = m"
  by (simp_all add: set_ring_at_def split: chan.splits)

lemma ring_place: "ring_ok r \<Longrightarrow> in_ring r (pBuffer r + of_nat (k mod unat (SizeOfBuffer r)))"
proof -
  assume "ring_ok r"
  then have "0 < unat (SizeOfBuffer r)" by (auto simp: ring_ok_def word_less_nat_alt)
  then have less: "k mod unat (SizeOfBuffer r) < unat (SizeOfBuffer r)" by simp
  moreover from this have "unat (of_nat (k mod unat (SizeOfBuffer r)) :: word32) = k mod unat (SizeOfBuffer r)"
    using unat_32 [of "SizeOfBuffer r"] by (intro unat_of_nat_32) linarith
  ultimately show ?thesis by (simp add: in_ring_def word_less_nat_alt)
qed

lemma held_outside:
  assumes "ring_ok q" and "keeps_outside r m m'" and "\<And>x. \<not> (in_ring r x \<and> in_ring q x)"
  shows "held q m' = held q m"
proof -
  have "m' x = m x" if "in_ring q x" for x using that assms(2,3) by (auto simp: keeps_outside_def in_ring_def)
  then show ?thesis using ring_place [OF assms(1)] by (simp add: held_def)
qed

lemma rtt_rep_set:
  assumes rep: "rtt_rep C s a" and c: "c \<in> C" "ring_at s c = Some r"
    and r': "ring_ok r'" "same_place r r'" "keeps_outside r (rtt_ram s) m'"
  shows "rtt_rep C (set_ring_at c r' m' s) (a(c := channel_of r' m'))"
proof -
  have ne: "ring_at s c \<noteq> None" using c by simp
  have place: "in_ring r' = in_ring r" "Flags r' = Flags r" using r'(2) by (simp_all add: same_place_def in_ring_def fun_eq_iff)
  have held: "held q m' = held q (rtt_ram s)" if d: "d \<in> C" "d \<noteq> c" "ring_at s d = Some q" "ring_ok q" for d q
  proof (rule held_outside [OF d(4) r'(3)])
    have "\<not> (in_ring (the (ring_at s c)) x \<and> in_ring (the (ring_at s d)) x)" for x
      using rep c(1) d(1,2) unfolding rtt_rep_def by blast
    then show "\<not> (in_ring r x \<and> in_ring q x)" for x using c(2) d(3) by simp
  qed
  show ?thesis unfolding rtt_rep_def ring_at_set [OF ne]
  proof (intro conjI ballI impI allI)
    show "acID (set_ring_at c r' m' s) ! 0 = of_char (CHR ''S'')" using rep by (simp add: rtt_rep_def)
  next
    fix d
    assume d: "d \<in> C"
    from rep d obtain q where "ring_at s d = Some q" "ring_ok q" "Flags q \<noteq> MODE_BLOCK_IF_FIFO_FULL" "a d = channel_of q (rtt_ram s)"
      by (rule rtt_repD)
    then show "\<exists>q. (if d = c then Some r' else ring_at s d) = Some q \<and> ring_ok q \<and> Flags q \<noteq> MODE_BLOCK_IF_FIFO_FULL \<and>
        (a(c := channel_of r' m')) d = channel_of q (rtt_ram (set_ring_at c r' m' s))"
      using c r'(1) place held [OF d] by (auto simp: channel_of_def)
  next
    fix d e x
    assume de: "d \<in> C" "e \<in> C" "d \<noteq> e"
    have old: "\<not> (in_ring (the (ring_at s d)) x \<and> in_ring (the (ring_at s e)) x)" using rep de unfolding rtt_rep_def by blast
    have "in_ring (the (if k = c then Some r' else ring_at s k)) = in_ring (the (ring_at s k))" for k
      using place(1) c(2) by simp
    with old show "\<not> (in_ring (the (if d = c then Some r' else ring_at s d)) x \<and>
        in_ring (the (if e = c then Some r' else ring_at s e)) x)" by simp
  qed
qed

text \<open>What the functions on rings do, as channels.\<close>

lemma room_left_ring: "ring_ok r \<Longrightarrow> room_left (channel_of r m) = ring_free r"
  by (simp add: room_left_def channel_of_def ring_free_def)

lemma accepts_ring: "ring_ok r \<Longrightarrow> accepts (channel_of r m) n = accepted r n"
  by (simp add: accepts_def accepted_def room_left_ring) (simp add: channel_of_def)

lemma channel_appended:
  assumes "same_place r r'" and "held r' m' = held r m @ bs"
  shows "channel_of r' m' = (channel_of r m)\<lparr>ch_bytes := ch_bytes (channel_of r m) @ bs\<rparr>"
  using assms by (simp add: channel_of_def same_place_def)

lemma channel_send_refines:
  assumes rep: "rtt_rep C s a" and c: "c \<in> C" and n: "length bs < 2 ^ 32"
  shows "\<exists>s'. rtt_client L (Send c bs) s = Some (fst (spec_rtt (Send c bs) a), s') \<and> rtt_rep C s' (snd (spec_rtt (Send c bs) a))"
proof -
  from rep c obtain r where r: "ring_at s c = Some r" "ring_ok r" "Flags r \<noteq> MODE_BLOCK_IF_FIFO_FULL"
    "a c = channel_of r (rtt_ram s)" "INIT L s = s" by (rule rtt_repD)
  from WriteNoLock_appends [OF r(2) n r(3), of "[]" "rtt_ram s"] obtain r' m' where
    w: "WriteNoLock [] bs r (rtt_ram s) = Some (of_nat (accepted r (length bs)), [], r', m')" "ring_ok r'"
      "held r' m' = held r (rtt_ram s) @ take (accepted r (length bs)) bs" "same_place r r'" "keeps_outside r (rtt_ram s) m'"
    by blast
  have "rtt_client L (Send c bs) s = Some (Count (of_nat (accepted r (length bs))), set_ring_at c r' m' s)"
    using w(1) r(1,5)
    by (cases c) (auto simp: SEGGER_RTT_Write_def SEGGER_RTT_WriteNoLock_def SEGGER_RTT_WriteDownBuffer_def
        SEGGER_RTT_WriteDownBufferNoLock_def with_up_def with_down_def paired_def ring_at_def set_ring_at_def split: if_splits)
  moreover have "rtt_rep C (set_ring_at c r' m' s) (a(c := channel_of r' m'))" by (rule rtt_rep_set [OF rep c r(1) w(2,4,5)])
  ultimately show ?thesis using channel_appended [OF w(4,3)] r(4) accepts_ring [OF r(2)]
    by (simp add: append_to_def Let_def)
qed

lemma take_refines:
  assumes rep: "rtt_rep C s a" and c: "c \<in> C"
  shows "\<exists>s'. rtt_client L (Take c n) s = Some (fst (spec_rtt (Take c n) a), s') \<and> rtt_rep C s' (snd (spec_rtt (Take c n) a))"
proof -
  from rep c obtain r where r: "ring_at s c = Some r" "ring_ok r" "Flags r \<noteq> MODE_BLOCK_IF_FIFO_FULL"
    "a c = channel_of r (rtt_ram s)" "INIT L s = s" by (rule rtt_repD)
  let ?k = "min (unat n) (ring_used r)"
  have k: "?k \<le> ring_used r" by simp
  note t = ReadNoLock_takes [OF r(2), of n "rtt_ram s"] and h = held_consume [OF r(2) k, of "rtt_ram s"]
  have "rtt_client L (Take c n) s = Some (Bytes (take (unat n) (held r (rtt_ram s))), set_ring_at c (consume ?k r) (rtt_ram s) s)"
    using t r(1,5)
    by (cases c) (auto simp: SEGGER_RTT_Read_def SEGGER_RTT_ReadNoLock_def SEGGER_RTT_ReadUpBuffer_def
        SEGGER_RTT_ReadUpBufferNoLock_def with_up_def with_down_def ring_at_def set_ring_at_def split: if_splits)
  moreover have "rtt_rep C (set_ring_at c (consume ?k r) (rtt_ram s) s) (a(c := channel_of (consume ?k r) (rtt_ram s)))"
    by (rule rtt_rep_set [OF rep c r(1)]) (simp_all add: consume_ok(1) [OF r(2)])
  moreover have "channel_of (consume ?k r) (rtt_ram s) = (a c)\<lparr>ch_bytes := drop (unat n) (ch_bytes (a c))\<rparr>"
    unfolding r(4) using h by (simp add: channel_of_def min_def)
  ultimately show ?thesis using r(4) by (simp add: channel_of_def)
qed

lemma send_char_refines:
  assumes rep: "rtt_rep C s a" and c: "Up i \<in> C"
  shows "\<exists>s'. rtt_client L (Send_Char i b) s = Some (fst (spec_rtt (Send_Char i b) a), s') \<and>
    rtt_rep C s' (snd (spec_rtt (Send_Char i b) a))"
proof -
  from rep c obtain r where r: "ring_at s (Up i) = Some r" "ring_ok r" "Flags r \<noteq> MODE_BLOCK_IF_FIFO_FULL"
    "a (Up i) = channel_of r (rtt_ram s)" "INIT L s = s" by (rule rtt_repD)
  obtain r' m' where p: "PutCharSkipNoLock b r (rtt_ram s) = (if ring_free r = 0 then 0 else 1, r', m')"
    "ring_ok r'" "same_place r r'" "keeps_outside r (rtt_ram s) m'"
    "held r' m' = held r (rtt_ram s) @ (if ring_free r = 0 then [] else [b])"
    using PutCharSkipNoLock_puts [OF r(2), of b "rtt_ram s"] puts_append [OF r(2), where bs = "[b]"] r(2)
    by (cases "ring_free r = 0") (simp_all add: Suc_le_eq)
  have "rtt_client L (Send_Char i b) s = Some (Count (if ring_free r = 0 then 0 else 1), set_ring_at (Up i) r' m' s)"
    using p(1) r(1,5) by (auto simp: SEGGER_RTT_PutCharSkip_def with_up_def ring_at_def set_ring_at_def split: if_splits)
  moreover have "rtt_rep C (set_ring_at (Up i) r' m' s) (a(Up i := channel_of r' m'))"
    by (rule rtt_rep_set [OF rep c r(1) p(2,3,4)])
  ultimately show ?thesis using channel_appended [OF p(3,5)] r(4) room_left_ring [OF r(2)]
    by (auto simp: append_to_def fun_upd_idem split: if_splits)
qed

lemma room_refines:
  assumes rep: "rtt_rep C s a" and c: "Up i \<in> C"
  shows "rtt_client L (Room i) s = Some (Count (of_nat (room_left (a (Up i)))), s)"
proof -
  from rep c obtain r where r: "ring_at s (Up i) = Some r" "ring_ok r" "a (Up i) = channel_of r (rtt_ram s)" by (rule rtt_repD)
  have "of_nat (ring_free r) = avail_write_space r" by (metis avail_free [OF r(2)] of_nat_unat ucast_id)
  then show ?thesis using r room_left_ring [OF r(2)]
    by (auto simp: SEGGER_RTT_GetAvailWriteSpace_def with_up_def ring_at_def split: if_splits)
qed

interpretation rttq: refines "rtt_client L" spec_rtt "rtt_rep C" "rtt_valid C" for L C
proof (unfold_locales, goal_cases)
  case (1 s a op)
  then show ?case using channel_send_refines [where C = C and s = s and a = a] take_refines [where C = C and s = s and a = a]
      send_char_refines [where C = C and s = s and a = a] room_refines [where C = C and s = s and a = a]
    by (cases op) (auto simp del: rtt_client.simps spec_rtt.simps(1-3))
qed

text \<open>Buffers that lie side by side, neither of them around the end of the address space.\<close>

lemma buffers_apart:
  assumes "unat p + unat n \<le> unat q" and "unat q + unat k \<le> 2 ^ 32"
  shows "\<not> (x - p < n \<and> x - q < (k :: word32))"
proof
  assume x: "x - p < n \<and> x - q < k"
  have "unat (x - p) = (if p \<le> x then unat x - unat p else unat x + 2 ^ 32 - unat p)"
    "unat (x - q) = (if q \<le> x then unat x - unat q else unat x + 2 ^ 32 - unat q)"
    by (simp_all add: unat_sub_if' word_le_nat_alt)
  then show False using x assms unat_32 [of x] unat_32 [of q]
    by (auto simp: word_less_nat_alt word_le_nat_alt split: if_splits)
qed

definition rtt_areas_ok :: "rtt_link \<Rightarrow> addr \<Rightarrow> word32 \<Rightarrow> bool" where
  "rtt_areas_ok L buf n \<longleftrightarrow>
     unat (acUpBuffer L) + 1024 \<le> unat (acDownBuffer L) \<and> unat (acDownBuffer L) + 16 \<le> unat buf \<and> unat buf + unat n \<le> 2 ^ 32"

text \<open>The channels after initialisation and the configuration of one more channel.\<close>

definition rtt_fresh :: "word32 \<Rightarrow> word32 \<Rightarrow> chan \<Rightarrow> channel" where
  "rtt_fresh n flags c =
    (if c = Up 0 then \<lparr>ch_flags = MODE_NO_BLOCK_SKIP, ch_room = 1023, ch_bytes = []\<rparr>
     else if c = Down 0 then \<lparr>ch_flags = MODE_NO_BLOCK_SKIP, ch_room = 15, ch_bytes = []\<rparr>
     else \<lparr>ch_flags = flags, ch_room = unat n - 1, ch_bytes = []\<rparr>)"

lemma init_string: "map (\<lambda>i. aInitStr ! (15 - i)) [0..<16] = map of_char ''SEGGER RTT'' @ replicate 6 (0 :: word8)"
  by code_simp

lemma DoInit_id: "acID (DoInit L s) = map of_char ''SEGGER RTT'' @ replicate 6 0"
  unfolding DoInit_def Let_def init_string by simp

lemma INIT_idem [simp]: "INIT L (DoInit L s) = DoInit L s"
  by (simp add: INIT_def DoInit_id)

lemma fresh_rep:
  assumes "rtt_areas_ok L buf n" and "0 < n" and "flags \<noteq> MODE_BLOCK_IF_FIFO_FULL"
  shows "\<exists>s1. SEGGER_RTT_ConfigUpBuffer L 1 name buf n flags (SEGGER_RTT_Init L s) = Some (0, s1) \<and>
    rtt_rep {Up 0, Down 0, Up 1} s1 (rtt_fresh n flags)"
proof -
  let ?u = "set_ring (terminal_name L) (acUpBuffer L) 1024 0 zero_ring"
  let ?d = "set_ring (terminal_name L) (acDownBuffer L) 16 0 zero_ring"
  let ?c = "set_ring name buf n flags zero_ring"
  let ?s = "(DoInit L s)\<lparr>aUp := [?u, ?c, zero_ring]\<rparr>"
  have i: "aUp (DoInit L s) = [?u, zero_ring, zero_ring]" "aDown (DoInit L s) = [?d, zero_ring, zero_ring]"
    "acID (DoInit L s) ! 0 = of_char (CHR ''S'')"
    by (simp_all add: DoInit_id) (simp_all add: DoInit_def Let_def MAX_NUM_UP_BUFFERS_def MAX_NUM_DOWN_BUFFERS_def BUFFER_SIZE_UP_def
        BUFFER_SIZE_DOWN_def MODE_DEFAULT_def MODE_NO_BLOCK_SKIP_def numeral_eq_Suc)
  have "SEGGER_RTT_ConfigUpBuffer L 1 name buf n flags (SEGGER_RTT_Init L s) = Some (0, ?s)"
    using i by (simp add: SEGGER_RTT_ConfigUpBuffer_def SEGGER_RTT_Init_def set_up_def with_up_def MAX_NUM_UP_BUFFERS_def)
  moreover have at: "ring_at ?s (Up 0) = Some ?u" "ring_at ?s (Down 0) = Some ?d" "ring_at ?s (Up 1) = Some ?c"
    using i by (simp_all add: ring_at_def)
  have apart: "\<not> (in_ring ?u x \<and> in_ring ?d x)" "\<not> (in_ring ?u x \<and> in_ring ?c x)" "\<not> (in_ring ?d x \<and> in_ring ?c x)" for x
    using assms(1) buffers_apart [of "acUpBuffer L" 1024 "acDownBuffer L" 16 x] buffers_apart [of "acUpBuffer L" 1024 buf n x]
      buffers_apart [of "acDownBuffer L" 16 buf n x]
    by (simp_all add: in_ring_def set_ring_def rtt_areas_ok_def)
  have "rtt_rep {Up 0, Down 0, Up 1} ?s (rtt_fresh n flags)"
    unfolding rtt_rep_def
  proof (intro conjI)
    show "acID ?s ! 0 = of_char (CHR ''S'')" using i(3) by simp
    show "\<forall>c\<in>{Up 0, Down 0, Up 1}. \<exists>r. ring_at ?s c = Some r \<and> ring_ok r \<and> Flags r \<noteq> MODE_BLOCK_IF_FIFO_FULL \<and>
        rtt_fresh n flags c = channel_of r (rtt_ram ?s)"
      using at assms(2,3) by (simp add: ring_ok_def set_ring_def channel_of_def rtt_fresh_def held_def ring_used_def
          MODE_NO_BLOCK_SKIP_def MODE_BLOCK_IF_FIFO_FULL_def)
    show "\<forall>c\<in>{Up 0, Down 0, Up 1}. \<forall>d\<in>{Up 0, Down 0, Up 1}. c \<noteq> d \<longrightarrow>
        (\<forall>x. \<not> (in_ring (the (ring_at ?s c)) x \<and> in_ring (the (ring_at ?s d)) x))"
      using at apart by auto
  qed
  ultimately show ?thesis by blast
qed

section \<open>The theorems\<close>

text \<open>
  C10. After initialisation and the configuration of up channel 1 with a buffer of \<open>n\<close> bytes, every
  sequence of writes to and reads from the channels \<open>Up 0\<close>, \<open>Down 0\<close> and \<open>Up 1\<close>, in any order, is answered as by three
  independent queues of 1023, 15 and \<open>n - 1\<close> bytes: bytes come out unchanged and in order, a write in skip mode is
  taken whole or not at all, one in trim mode up to the room, and the counts are exact.
\<close>

theorem rtt_channels_refine:
  assumes "rtt_areas_ok L buf n" and "0 < n" and "flags \<noteq> MODE_BLOCK_IF_FIFO_FULL"
    and "\<forall>op\<in>set ops. rtt_valid {Up 0, Down 0, Up 1} op"
  shows "\<exists>s1 s2. SEGGER_RTT_ConfigUpBuffer L 1 name buf n flags (SEGGER_RTT_Init L s) = Some (0, s1) \<and>
    run_ops (rtt_client L) ops s1 = Some (fst (run_spec spec_rtt ops (rtt_fresh n flags)), s2)"
  using fresh_rep [OF assms(1-3), of name s] rttq.run_refines [of "{Up 0, Down 0, Up 1}" _ "rtt_fresh n flags" ops L] assms(4) by blast

text \<open>
  C19. A write to an up channel in blocking mode. If the host takes something before each turn and
  there are as many turns as bytes, the call returns, reports the length, and what the host has taken with what
  is left in the ring is what was in the ring with the bytes of the call behind it. No other
  channel and no memory outside of the buffer changes.
\<close>

theorem rtt_blocking_write:
  assumes "acID s ! 0 = of_char (CHR ''S'')" and r: "ring_at s (Up i) = Some r" "ring_ok r" "1 < SizeOfBuffer r"
    and mode: "Flags r = MODE_BLOCK_IF_FIFO_FULL" and n: "length bs < 2 ^ 32"
    and hs: "length bs \<le> length hs" "hs \<noteq> []" "0 \<notin> set hs"
  shows "\<exists>taken s' r'. SEGGER_RTT_Write L hs i bs s = Some ((of_nat (length bs), taken), s') \<and>
    ring_at s' (Up i) = Some r' \<and> ring_ok r' \<and> taken @ held r' (rtt_ram s') = held r (rtt_ram s) @ bs \<and>
    (\<forall>c. c \<noteq> Up i \<longrightarrow> ring_at s' c = ring_at s c) \<and> (\<forall>x. \<not> in_ring r x \<longrightarrow> rtt_ram s' x = rtt_ram s x)"
proof -
  obtain k taken r' m' where w: "WriteBlocking hs bs r (rtt_ram s) = Some (k, taken, r', m')"
    using WriteBlocking_returns [OF r(2,3) n hs, of "rtt_ram s"] by (cases "WriteBlocking hs bs r (rtt_ram s)") auto
  note e = WriteBlocking_writes [OF r(2) n w]
  let ?s = "set_ring_at (Up i) r' m' s"
  have "SEGGER_RTT_Write L hs i bs s = Some ((of_nat (length bs), taken), ?s)"
    using w r(1) mode e assms(1)
    by (auto simp: SEGGER_RTT_Write_def SEGGER_RTT_WriteNoLock_def INIT_def with_up_def paired_def WriteNoLock_def Let_def
        ring_at_def set_ring_at_def MODE_BLOCK_IF_FIFO_FULL_def MODE_NO_BLOCK_SKIP_def MODE_NO_BLOCK_TRIM_def split: if_splits)
  moreover have "ring_at ?s c = (if c = Up i then Some r' else ring_at s c)" for c by (rule ring_at_set) (simp add: r(1))
  ultimately show ?thesis using e by (auto simp: keeps_outside_def in_ring_def)
qed

section \<open>Output to a terminal\<close>

text \<open>
  How the host splits the stream of channel 0: a byte \<open>0xFF\<close> announces that the next byte names
  the terminal of what follows. The state is the terminal and whether an announcement is open.
\<close>

fun demux :: "word8 \<times> bool \<Rightarrow> word8 list \<Rightarrow> (word8 \<times> word8) list \<times> word8 \<times> bool" where
  "demux st [] = ([], st)"
| "demux (t, True) (c # cs) = demux (c, False) cs"
| "demux (t, False) (c # cs) =
    (if c = 0xFF then demux (t, True) cs else case demux (t, False) cs of (out, st) \<Rightarrow> ((t, c) # out, st))"

lemma demux_append:
  "demux st (xs @ ys) = (fst (demux st xs) @ fst (demux (snd (demux st xs)) ys), snd (demux (snd (demux st xs)) ys))"
  by (induction st xs rule: demux.induct) (auto simp: case_prod_beta)

lemma demux_text: "0xFF \<notin> set xs \<Longrightarrow> demux (t, False) xs = (map (Pair t) xs, t, False)"
  by (induction xs) auto

lemma demux_switched:
  assumes "0xFF \<notin> set xs"
  shows "demux (t, False) ([0xFF, u] @ xs @ [0xFF, v]) = (map (Pair u) xs, v, False)"
  using assms by (simp add: demux_append demux_text)

text \<open>One write that fits, and how much room it leaves.\<close>

lemma fitting_write:
  assumes r: "ring_ok r" and n: "length bs \<le> ring_free r" and hs: "2 \<le> length hs"
  shows "\<exists>taken r' m'. WriteBlocking hs bs r m = Some (of_nat (length bs), taken, r', m') \<and> ring_ok r' \<and>
    taken @ held r' m' = held r m @ bs \<and> same_place r r' \<and> ring_free r - length bs \<le> ring_free r'"
proof -
  have small: "length bs < 2 ^ 32" using n used_less [OF r] unat_32 [of "SizeOfBuffer r"] by (simp add: ring_free_def)
  obtain k taken r' m' where w: "WriteBlocking hs bs r m = Some (k, taken, r', m')"
    using WriteBlocking_fits [OF r n hs, of m] by (cases "WriteBlocking hs bs r m") auto
  note e = WriteBlocking_writes [OF r small w]
  have "length (taken @ held r' m') = length (held r m @ bs)" using e by simp
  then have "ring_used r' \<le> ring_used r + length bs" by simp
  then show ?thesis using w e by (auto simp: ring_free_def same_place_def)
qed

lemma switched_write_exact:
  assumes r: "ring_ok r" and n: "length bs + 4 \<le> ring_free r"
    and hs: "2 \<le> length hs1" "2 \<le> length hs2" "2 \<le> length hs3"
  shows "\<exists>taken r' m'. switched_write hs1 hs2 hs3 t active bs r m = Some ((sint (of_nat (length bs) :: word32), taken), r', m') \<and>
    taken @ held r' m' = held r m @ [0xFF, aTerminalId ! unat t] @ bs @ [0xFF, aTerminalId ! unat active]"
proof -
  let ?a = "[0xFF, aTerminalId ! unat t]" and ?b = "[0xFF, aTerminalId ! unat active]"
  have "length ?a \<le> ring_free r" using n by simp
  from fitting_write [OF r this hs(1), of m] obtain t1 r1 m1 where 1: "WriteBlocking hs1 ?a r m = Some (2, t1, r1, m1)"
    "ring_ok r1" "t1 @ held r1 m1 = held r m @ ?a" "ring_free r - 2 \<le> ring_free r1" by auto
  have "length bs \<le> ring_free r1" using n 1(4) by simp
  from fitting_write [OF 1(2) this hs(2), of m1] obtain t2 r2 m2 where 2: "WriteBlocking hs2 bs r1 m1 = Some (of_nat (length bs), t2, r2, m2)"
    "ring_ok r2" "t2 @ held r2 m2 = held r1 m1 @ bs" "ring_free r1 - length bs \<le> ring_free r2" by blast
  have "length ?b \<le> ring_free r2" using n 1(4) 2(4) by simp
  from fitting_write [OF 2(2) this hs(3), of m2] obtain t3 r3 m3 where 3: "WriteBlocking hs3 ?b r2 m2 = Some (2, t3, r3, m3)"
    "t3 @ held r3 m3 = held r2 m2 @ ?b" by auto
  have "switched_write hs1 hs2 hs3 t active bs r m = Some ((sint (of_nat (length bs) :: word32), t1 @ t2 @ t3), r3, m3)"
    using 1(1) 2(1) 3(1) by (simp add: switched_write_def PostTerminalSwitch_def)
  moreover have "(t1 @ t2 @ t3) @ held r3 m3 = held r m @ ?a @ bs @ ?b"
    using 1(3) 2(3) 3(2) by (metis append.assoc)
  ultimately show ?thesis by blast
qed

text \<open>How many bytes of a string of \<open>n\<close> the call writes between the two switches.\<close>

definition terminal_fit :: "ring \<Rightarrow> nat \<Rightarrow> nat option" where
  "terminal_fit r n =
    (if Flags r = MODE_NO_BLOCK_SKIP then if n + 4 \<le> ring_free r then Some n else None
     else if 4 \<le> ring_free r then Some (min n (ring_free r - 4)) else None)"

lemma terminal_out_cases:
  assumes r: "aUp s ! 0 = r" "aUp s \<noteq> []" "ring_ok r" "unat (SizeOfBuffer r) \<le> 2 ^ 31" "acID s ! 0 = of_char (CHR ''S'')"
    and mode: "Flags r = MODE_NO_BLOCK_SKIP \<or> Flags r = MODE_NO_BLOCK_TRIM" and t: "t < 16" and n: "STRLEN str < 2 ^ 31"
  shows "SEGGER_RTT_TerminalOut L hs1 hs2 hs3 t str s =
    (case terminal_fit r (STRLEN str) of
       None \<Rightarrow> Some ((if Flags r = MODE_NO_BLOCK_SKIP then 0 else - 1, []), s)
     | Some k \<Rightarrow> do {
         (x, r', m') \<leftarrow> switched_write hs1 hs2 hs3 t (ActiveTerminal s) (take k str) r (rtt_ram s);
         Some (x, set_ring_at (Up 0) r' m' s) })"
proof -
  let ?A = "avail_write_space r" and ?n = "of_nat (STRLEN str) :: word32"
  have A: "unat ?A = ring_free r" by (rule avail_free [OF r(3)])
  have un: "unat ?n = STRLEN str" "unat (?n + 4) = STRLEN str + 4" using n by (simp_all add: unat_of_nat_32 unat_word_ariths)
  have skip: "?A < ?n + 4 \<longleftrightarrow> \<not> STRLEN str + 4 \<le> ring_free r" using A un by (simp add: word_less_nat_alt not_le)
  have trim: "?A < 4 \<longleftrightarrow> \<not> 4 \<le> ring_free r" using A by (simp add: word_less_nat_alt not_le)
  have cut: "unat (if ?n < ?A - 4 then ?n else ?A - 4) = min (STRLEN str) (ring_free r - 4)" if "4 \<le> ring_free r"
  proof -
    have "unat (?A - 4) = ring_free r - 4" using that A by (simp add: unat_sub word_le_nat_alt)
    then show ?thesis using un(1) by (simp add: word_less_nat_alt min_def)
  qed
  have "INIT L s = s" using r(5) by (simp add: INIT_def)
  moreover have "with_up 0 f s = do { (x, r', m') \<leftarrow> f r (rtt_ram s); Some (x, set_ring_at (Up 0) r' m' s) }"
    for f :: "ring \<Rightarrow> byte_mem \<Rightarrow> ((int \<times> word8 list) \<times> ring \<times> byte_mem) option"
    using r(1,2) by (simp add: with_up_def set_ring_at_def)
  ultimately have out: "SEGGER_RTT_TerminalOut L hs1 hs2 hs3 t str s = do { (x, r', m') \<leftarrow>
      (let write = (\<lambda>n. switched_write hs1 hs2 hs3 t (ActiveTerminal s) (take (unat n) str) r (rtt_ram s))
       in if Flags r = MODE_NO_BLOCK_SKIP then if ?A < ?n + 4 then Some ((0, []), r, rtt_ram s) else write ?n
          else if ?A < 4 then Some ((- 1, []), r, rtt_ram s) else write (if ?n < ?A - 4 then ?n else ?A - 4));
      Some (x, set_ring_at (Up 0) r' m' s) }"
    using t mode by (auto simp: SEGGER_RTT_TerminalOut_def Let_def MODE_NO_BLOCK_SKIP_def MODE_NO_BLOCK_TRIM_def MODE_MASK_def
        split del: if_split)
  have same: "set_ring_at (Up 0) r (rtt_ram s) s = s" by (simp add: set_ring_at_def flip: r(1))
  show ?thesis unfolding out Let_def skip trim using mode cut un(1) same
    by (cases "Flags r = MODE_NO_BLOCK_SKIP"; cases "4 \<le> ring_free r"; cases "STRLEN str + 4 \<le> ring_free r")
      (simp_all add: terminal_fit_def split del: if_split)
qed

text \<open>
  C20. Output of a string to a terminal, in skip or trim mode and whatever the host reads meanwhile:
  the host finds exactly the bytes written, attributed to that terminal, behind everything it would have
  found before, and the stream goes on with the active terminal. In skip mode the string is written whole or
  not at all, in trim mode as far as it fits with the two switches; the result is the number of
  bytes, or -1 if in trim mode not even the switches fit.
\<close>

theorem terminal_out_roundtrip:
  assumes r: "aUp s ! 0 = r" "aUp s \<noteq> []" "ring_ok r" "unat (SizeOfBuffer r) \<le> 2 ^ 31" "acID s ! 0 = of_char (CHR ''S'')"
    and mode: "Flags r = MODE_NO_BLOCK_SKIP \<or> Flags r = MODE_NO_BLOCK_TRIM" and t: "t < 16"
    and str: "STRLEN str < 2 ^ 31" "0xFF \<notin> set str" and hs: "2 \<le> length hs1" "2 \<le> length hs2" "2 \<le> length hs3"
    and active: "snd (demux st (past @ held r (rtt_ram s))) = (aTerminalId ! unat (ActiveTerminal s), False)"
    and k: "k = (case terminal_fit r (STRLEN str) of None \<Rightarrow> 0 | Some k \<Rightarrow> k)"
  shows "\<exists>n taken s' r'. SEGGER_RTT_TerminalOut L hs1 hs2 hs3 t str s = Some ((n, taken), s') \<and> ring_at s' (Up 0) = Some r' \<and>
    n = (if Flags r = MODE_NO_BLOCK_TRIM \<and> ring_free r < 4 then - 1 else int k) \<and> ActiveTerminal s' = ActiveTerminal s \<and>
    demux st (past @ taken @ held r' (rtt_ram s')) =
      (fst (demux st (past @ held r (rtt_ram s))) @ map (Pair (aTerminalId ! unat t)) (take k str),
       aTerminalId ! unat (ActiveTerminal s), False)"
proof (cases "terminal_fit r (STRLEN str)")
  case None
  have "ring_at s (Up 0) = Some r" using r(1,2) by (simp add: ring_at_def)
  moreover have "demux st (past @ held r (rtt_ram s)) =
      (fst (demux st (past @ held r (rtt_ram s))), aTerminalId ! unat (ActiveTerminal s), False)"
    using active by (metis prod.collapse)
  ultimately show ?thesis using terminal_out_cases [OF r mode t str(1)] None mode k
    by (auto simp: terminal_fit_def MODE_NO_BLOCK_SKIP_def MODE_NO_BLOCK_TRIM_def split: if_splits)
next
  case (Some j)
  have j: "j + 4 \<le> ring_free r" "j \<le> STRLEN str" "k = j" "\<not> ring_free r < 4"
    using Some k by (auto simp: terminal_fit_def split: if_splits)
  have len: "length (take j str) = j"
    using j(2) length_takeWhile_le [of "\<lambda>c. c \<noteq> 0" str] by (simp add: STRLEN_def)
  from switched_write_exact [OF r(3), of "take j str" hs1 hs2 hs3, unfolded len, OF j(1) hs] obtain taken r' m' where
    w: "switched_write hs1 hs2 hs3 t (ActiveTerminal s) (take j str) r (rtt_ram s) = Some ((sint (of_nat j :: word32), taken), r', m')"
      "taken @ held r' m' = held r (rtt_ram s) @ [0xFF, aTerminalId ! unat t] @ take j str @ [0xFF, aTerminalId ! unat (ActiveTerminal s)]"
    by blast
  have "sint (of_nat j :: word32) = int j"
    using j(2) str(1) by (simp add: signed_of_nat signed_take_bit_int_eq_self)
  moreover have "0xFF \<notin> set (take j str)" using str(2) by (meson in_set_takeD)
  then have "demux st (past @ taken @ held r' m') =
      (fst (demux st (past @ held r (rtt_ram s))) @ map (Pair (aTerminalId ! unat t)) (take j str),
       aTerminalId ! unat (ActiveTerminal s), False)"
    unfolding w(2) append_assoc [symmetric, of past] by (subst demux_append) (simp add: active demux_switched del: append.simps)
  moreover have "ring_at (set_ring_at (Up 0) r' m' s) (Up 0) = Some r'" using r(2) by (simp add: ring_at_def set_ring_at_def)
  moreover have "ActiveTerminal (set_ring_at (Up 0) r' m' s) = ActiveTerminal s" by (simp add: set_ring_at_def)
  ultimately show ?thesis using terminal_out_cases [OF r mode t str(1), of L hs1 hs2 hs3] Some w(1) j(3,4) by simp
qed

section \<open>More of the interface\<close>

text \<open>
  The writer that overwrites: of what the ring held and the bytes of the call behind it, the
  newest remain, as many as there is room for. Other channels stay as they are.
\<close>

theorem rtt_overwrite_newest:
  assumes r: "ring_at s (Up i) = Some r" "ring_ok r" and n: "length bs < unat (SizeOfBuffer r)" "unat (SizeOfBuffer r) \<le> 2 ^ 31"
  shows "\<exists>s' r'. SEGGER_RTT_WriteWithOverwriteNoLock i bs s = Some ((), s') \<and> ring_at s' (Up i) = Some r' \<and> ring_ok r' \<and>
    held r' (rtt_ram s') = drop (length bs - ring_free r) (held r (rtt_ram s) @ bs) \<and>
    (\<forall>c. c \<noteq> Up i \<longrightarrow> ring_at s' c = ring_at s c) \<and> (\<forall>x. \<not> in_ring r x \<longrightarrow> rtt_ram s' x = rtt_ram s x)"
proof -
  from overwrite_newest [OF r(2) n, of "rtt_ram s"] obtain r' m' where
    w: "WriteWithOverwriteNoLock bs r (rtt_ram s) = Some (r', m')" "ring_ok r'" "keeps_outside r (rtt_ram s) m'"
      "held r' m' = drop (length bs - ring_free r) (held r (rtt_ram s) @ bs)" by blast
  have "SEGGER_RTT_WriteWithOverwriteNoLock i bs s = Some ((), set_ring_at (Up i) r' m' s)"
    using w(1) r(1) by (auto simp: SEGGER_RTT_WriteWithOverwriteNoLock_def with_up_def ring_at_def set_ring_at_def split: if_splits)
  moreover have "ring_at (set_ring_at (Up i) r' m' s) c = (if c = Up i then Some r' else ring_at s c)" for c
    by (rule ring_at_set) (simp add: r(1))
  ultimately show ?thesis using w by (auto simp: keeps_outside_def in_ring_def)
qed

text \<open>
  A write to a channel that has not been configured reports success and copies the bytes to
  address 0 and following: the ring has no bytes, so the free space wraps around to \<open>2 ^ 32 - 1\<close>.
\<close>

theorem write_to_unconfigured:
  assumes "acID s ! 0 = of_char (CHR ''S'')" and r: "ring_at s (Up i) = Some zero_ring" and n: "length bs < 2 ^ 32"
  shows "\<exists>s'. SEGGER_RTT_Write L hs i bs s = Some ((of_nat (length bs), []), s') \<and> rtt_ram s' = put_bytes 0 bs (rtt_ram s)"
proof -
  have "\<not> (- 1 :: word32) < of_nat (length bs)" by (simp add: not_less)
  then have "WriteNoLock hs bs zero_ring (rtt_ram s) =
      Some (of_nat (length bs), [], zero_ring\<lparr>WrOff := of_nat (length bs)\<rparr>, put_bytes 0 bs (rtt_ram s))"
    by (simp add: WriteNoLock_def Let_def avail_write_space_def WriteNoCheck_def zero_ring_def MODE_NO_BLOCK_SKIP_def)
  then show ?thesis using assms
    by (auto simp: SEGGER_RTT_Write_def SEGGER_RTT_WriteNoLock_def INIT_def with_up_def paired_def ring_at_def split: if_splits)
qed

text \<open>The allocators take the first channel that has no buffer.\<close>

lemma find_unused_first:
  "rs \<noteq> [] \<Longrightarrow> find_unused (int i) (int (i + length rs)) rs = Some (int (i + length (takeWhile (\<lambda>r. pBuffer r \<noteq> 0) rs)))"
proof (induction rs arbitrary: i)
  case (Cons r rs)
  show ?case
  proof (cases "rs = []")
    case False
    have "int (i + length (r # rs)) = int (Suc i + length rs)" "int i + 1 = int (Suc i)" by simp_all
    then show ?thesis using Cons.IH [OF False, of "Suc i"] False by (auto simp: ac_simps)
  qed simp
qed simp

lemma alloc_up_first:
  assumes "acID s ! 0 = of_char (CHR ''S'')" and "MaxNumUpBuffers s = int (length (aUp s))" and "aUp s \<noteq> []"
  shows "SEGGER_RTT_AllocUpBuffer L name buf n flags s =
    (let k = length (takeWhile (\<lambda>r. pBuffer r \<noteq> 0) (aUp s))
     in if k < length (aUp s) then Some (int k, s\<lparr>aUp := (aUp s)[k := set_ring name buf n flags (aUp s ! k)]\<rparr>) else Some (- 1, s))"
  using assms find_unused_first [of "aUp s" 0] by (simp add: SEGGER_RTT_AllocUpBuffer_def INIT_def Let_def)

lemma alloc_down_first:
  assumes "acID s ! 0 = of_char (CHR ''S'')" and "MaxNumDownBuffers s = int (length (aDown s))" and "aDown s \<noteq> []"
  shows "SEGGER_RTT_AllocDownBuffer L name buf n flags s =
    (let k = length (takeWhile (\<lambda>r. pBuffer r \<noteq> 0) (aDown s))
     in if k < length (aDown s) then Some (int k, s\<lparr>aDown := (aDown s)[k := set_ring name buf n flags (aDown s ! k)]\<rparr>) else Some (- 1, s))"
  using assms find_unused_first [of "aDown s" 0] by (simp add: SEGGER_RTT_AllocDownBuffer_def INIT_def Let_def)

text \<open>A key is the first byte of down channel 0.\<close>

lemma get_key_front:
  assumes "acID s ! 0 = of_char (CHR ''S'')" and "ring_at s (Down 0) = Some r" and r: "ring_ok r"
  shows "\<exists>s'. SEGGER_RTT_GetKey L s = Some (case held r (rtt_ram s) of [] \<Rightarrow> - 1 | c # cs \<Rightarrow> uint c, s')"
proof -
  have "ring_used r = length (held r (rtt_ram s))" by simp
  then show ?thesis using assms ReadNoLock_takes [OF r, of 1 "rtt_ram s"]
    by (cases "held r (rtt_ram s)") (auto simp: SEGGER_RTT_GetKey_def SEGGER_RTT_Read_def SEGGER_RTT_ReadNoLock_def INIT_def
        with_down_def ring_at_def simp del: length_held split: if_splits)
qed

text \<open>
  Initialising empties channel 0. The test of \<open>INIT\<close> comes before the lock: when both cores make their first call
  at once, the second to pass the test empties the channel after the first has written to it.
\<close>

lemma init_empties: "held (aUp (DoInit L s) ! 0) m = []"
  by (simp add: DoInit_def Let_def set_ring_def zero_ring_def held_def ring_used_def MAX_NUM_UP_BUFFERS_def)

section \<open>The theorems at concrete states\<close>

definition demo_link :: rtt_link where
  "demo_link = \<lparr>acUpBuffer = 0x20000000, acDownBuffer = 0x20000400, terminal_name = 0x1000\<rparr>"

definition demo_rtt :: rtt where
  "demo_rtt = \<lparr>acID = replicate 16 0, MaxNumUpBuffers = 0, MaxNumDownBuffers = 0, aUp = [], aDown = [], ActiveTerminal = 0,
     rtt_ram = (\<lambda>_. 0)\<rparr>"

theorem rtt_channels_refine_witness:
  "\<exists>s1 s2. SEGGER_RTT_ConfigUpBuffer demo_link 1 0x2000 0x20000500 4 MODE_NO_BLOCK_TRIM (SEGGER_RTT_Init demo_link demo_rtt) = Some (0, s1) \<and>
    run_ops (rtt_client demo_link) [Send (Up 0) [1, 2], Send (Up 1) [7, 8, 9, 10], Send (Down 0) [65], Take (Up 1) 2, Send_Char 1 11,
      Room 1, Take (Up 1) 9, Room 1, Take (Up 0) 5, Take (Down 0) 1, Take (Down 0) 1] s1 =
    Some ([Count 2, Count 3, Count 1, Bytes [7, 8], Count 1, Count 1, Bytes [9, 11], Count 3, Bytes [1, 2], Bytes [65], Bytes []], s2)"
proof -
  let ?ops = "[Send (Up 0) [1, 2], Send (Up 1) [7, 8, 9, 10], Send (Down 0) [65], Take (Up 1) 2, Send_Char 1 11,
      Room 1, Take (Up 1) 9, Room 1, Take (Up 0) 5, Take (Down 0) 1, Take (Down 0) 1]"
  have "rtt_areas_ok demo_link 0x20000500 4" by (simp add: rtt_areas_ok_def demo_link_def)
  moreover have "MODE_NO_BLOCK_TRIM \<noteq> MODE_BLOCK_IF_FIFO_FULL" by (simp add: MODE_NO_BLOCK_TRIM_def MODE_BLOCK_IF_FIFO_FULL_def)
  ultimately show ?thesis
    using rtt_channels_refine [of demo_link "0x20000500" 4 MODE_NO_BLOCK_TRIM ?ops "0x2000" demo_rtt]
    by (simp add: rtt_fresh_def accepts_def room_left_def append_to_def Let_def MODE_NO_BLOCK_SKIP_def MODE_NO_BLOCK_TRIM_def
        del: run_ops.simps)
qed

definition demo_with :: "ring \<Rightarrow> rtt" where
  "demo_with r = demo_rtt\<lparr>acID := map of_char ''SEGGER RTT'' @ replicate 6 0, aUp := [r, zero_ring, zero_ring], rtt_ram := (\<lambda>_. 9)\<rparr>"

definition demo_ring :: "word32 \<Rightarrow> word32 \<Rightarrow> ring" where
  "demo_ring n flags = \<lparr>sName = 0, pBuffer = 0x100, SizeOfBuffer = n, WrOff = 2, RdOff = 1, Flags = flags\<rparr>"

lemma demo_with_sel [simp]: "ring_at (demo_with r) (Up 0) = Some r" "acID (demo_with r) ! 0 = 83" "rtt_ram (demo_with r) = (\<lambda>_. 9)"
  "aUp (demo_with r) = [r, zero_ring, zero_ring]" "ActiveTerminal (demo_with r) = 0"
  by (simp_all add: demo_with_def demo_rtt_def ring_at_def)

lemma demo_ring_facts: "2 < n \<Longrightarrow> ring_ok (demo_ring n f)" "held (demo_ring n f) (\<lambda>_. 9) = [9]" "ring_free (demo_ring n f) = unat n - 2"
  "Flags (demo_ring n f) = f" "SizeOfBuffer (demo_ring n f) = n"
proof -
  assume n: "2 < n"
  have "1 < n" by (rule less_trans [OF _ n]) simp
  with n show "ring_ok (demo_ring n f)" by (simp add: demo_ring_def ring_ok_def)
qed (simp_all add: demo_ring_def held_def ring_free_def ring_used_def)

theorem rtt_blocking_write_witness:
  "\<exists>taken s' r'. SEGGER_RTT_Write demo_link [1, 1, 1, 1, 1] 0 [1, 2, 3, 4, 5] (demo_with (demo_ring 4 MODE_BLOCK_IF_FIFO_FULL)) =
      Some ((5, taken), s') \<and> ring_at s' (Up 0) = Some r' \<and> taken @ held r' (rtt_ram s') = [9, 1, 2, 3, 4, 5]"
proof -
  have "\<exists>taken s' r'. SEGGER_RTT_Write demo_link [1, 1, 1, 1, 1] 0 [1, 2, 3, 4, 5] (demo_with (demo_ring 4 MODE_BLOCK_IF_FIFO_FULL)) =
      Some ((of_nat (length [1, 2, 3, 4, 5 :: word8]), taken), s') \<and> ring_at s' (Up 0) = Some r' \<and> ring_ok r' \<and>
      taken @ held r' (rtt_ram s') = [9] @ [1, 2, 3, 4, 5] \<and>
      (\<forall>c. c \<noteq> Up 0 \<longrightarrow> ring_at s' c = ring_at (demo_with (demo_ring 4 MODE_BLOCK_IF_FIFO_FULL)) c) \<and>
      (\<forall>x. \<not> in_ring (demo_ring 4 MODE_BLOCK_IF_FIFO_FULL) x \<longrightarrow>
        rtt_ram s' x = rtt_ram (demo_with (demo_ring 4 MODE_BLOCK_IF_FIFO_FULL)) x)"
    using rtt_blocking_write [of "demo_with (demo_ring 4 MODE_BLOCK_IF_FIFO_FULL)" 0 "demo_ring 4 MODE_BLOCK_IF_FIFO_FULL"
        "[1, 2, 3, 4, 5]" "[1, 1, 1, 1, 1]" demo_link]
    by (simp add: demo_ring_facts)
  then show ?thesis by auto
qed

theorem terminal_out_roundtrip_witness:
  "\<exists>taken s' r'. SEGGER_RTT_TerminalOut demo_link [0, 0] [0, 0] [0, 0] 3 [72, 105, 0, 1] (demo_with (demo_ring 16 MODE_NO_BLOCK_TRIM)) =
      Some ((2, taken), s') \<and> ring_at s' (Up 0) = Some r' \<and>
    demux (48, False) (taken @ held r' (rtt_ram s')) = ([(48, 9), (51, 72), (51, 105)], 48, False)"
proof -
  let ?r = "demo_ring 16 MODE_NO_BLOCK_TRIM"
  have len: "STRLEN [72, 105, 0, 1] = 2" by (simp add: STRLEN_def)
  have ids: "aTerminalId ! 0 = 48" "aTerminalId ! 3 = 51" by (simp_all add: aTerminalId_def)
  have pre: "aUp (demo_with ?r) ! 0 = ?r" "aUp (demo_with ?r) \<noteq> []" "ring_ok ?r" "unat (SizeOfBuffer ?r) \<le> 2 ^ 31"
    "acID (demo_with ?r) ! 0 = of_char (CHR ''S'')" "Flags ?r = MODE_NO_BLOCK_SKIP \<or> Flags ?r = MODE_NO_BLOCK_TRIM" "(3 :: word8) < 16"
    "STRLEN [72, 105, 0, 1] < 2 ^ 31" "0xFF \<notin> set [72, 105, 0, 1 :: word8]" "2 \<le> length [0, 0 :: word32]"
    by (simp_all add: demo_ring_facts len)
  have old: "demux (48, False) ([] @ held ?r (rtt_ram (demo_with ?r))) = ([(48, 9)], 48, False)" by (simp add: demo_ring_facts)
  have fit: "2 = (case terminal_fit ?r (STRLEN [72, 105, 0, 1]) of None \<Rightarrow> 0 | Some k \<Rightarrow> k)"
    unfolding len by (simp add: terminal_fit_def demo_ring_facts MODE_NO_BLOCK_TRIM_def MODE_NO_BLOCK_SKIP_def)
  have "snd (demux (48, False) ([] @ held ?r (rtt_ram (demo_with ?r)))) = (aTerminalId ! unat (ActiveTerminal (demo_with ?r)), False)"
    unfolding old by (simp add: ids)
  from terminal_out_roundtrip [OF pre pre(10) pre(10) this fit, of demo_link] show ?thesis
    unfolding old by (auto simp: ids demo_ring_facts)
qed

theorem rtt_overwrite_newest_witness:
  "\<exists>s' r'. SEGGER_RTT_WriteWithOverwriteNoLock 0 [1, 2, 3] (demo_with (demo_ring 4 0)) = Some ((), s') \<and>
    ring_at s' (Up 0) = Some r' \<and> held r' (rtt_ram s') = [1, 2, 3]"
  using rtt_overwrite_newest [of "demo_with (demo_ring 4 0)" 0 "demo_ring 4 0" "[1, 2, 3]"] by (auto simp: demo_ring_facts)

theorem write_to_unconfigured_witness:
  "\<exists>s'. SEGGER_RTT_Write demo_link [] 1 [7, 8] (demo_with (demo_ring 4 0)) = Some ((2, []), s') \<and> rtt_ram s' 1 = 8"
proof -
  have "ring_at (demo_with (demo_ring 4 0)) (Up 1) = Some zero_ring" by (simp add: ring_at_def)
  then show ?thesis using write_to_unconfigured [of "demo_with (demo_ring 4 0)" 1 "[7, 8]" demo_link "[]"]
    by (auto simp: put_bytes_def)
qed

end
