(* ===== verification/Rtt_Spsc.thy ===== *)
theory Rtt_Spsc
  imports Rtt_Writers
begin

text \<open>
  One writer and one reader on the same ring without the lock: \<open>SEGGER_RTT_WriteSkipNoLock\<close> on the
  target against \<open>SEGGER_RTT_ReadUpBufferNoLock\<close> (or the host, which reads in the same way), one access to
  shared memory at a time and in any order. The writer reads the offset of the reader once, stores the
  bytes and then its own offset; the reader reads the offset of the writer once, loads the bytes and then
  stores its own offset. Nothing is lost, nothing is read twice or before it is complete.
\<close>

section \<open>The accesses of a call\<close>

text \<open>The accesses of one \<open>memcpy\<close> into the ring and out of it.\<close>

definition stores :: "addr \<Rightarrow> word8 list \<Rightarrow> (addr \<times> word8) list" where
  "stores p bs = map (\<lambda>i. (p + of_nat i, bs ! i)) [0..<length bs]"

definition loads :: "addr \<Rightarrow> word32 \<Rightarrow> addr list" where
  "loads p n = map (\<lambda>i. p + of_nat i) [0..<unat n]"

text \<open>
  The writer after it has read both offsets: the bytes it will store and where, and the offset it
  will set; \<open>None\<close> when they do not fit.
\<close>

definition write_plan :: "word8 list \<Rightarrow> ring \<Rightarrow> ((addr \<times> word8) list \<times> word32) option" where
  "write_plan bs r =
    (let NumBytes = of_nat (length bs); rd = RdOff r; wr = WrOff r; pDst = pBuffer r + wr
     in if rd \<le> wr
        then let Avail = SizeOfBuffer r - wr - 1
             in if Avail \<ge> NumBytes then Some (stores pDst bs, wr + NumBytes)
                else let Avail = Avail + rd
                     in if Avail \<ge> NumBytes
                        then let Rem = SizeOfBuffer r - wr; NumBytes = NumBytes - Rem
                             in Some (stores pDst (take (unat Rem) bs) @
                                  (if NumBytes \<noteq> 0 then stores (pBuffer r) (drop (unat Rem) bs) else []), NumBytes)
                        else None
        else let Avail = rd - wr - 1
             in if Avail \<ge> NumBytes then Some (stores pDst bs, wr + NumBytes) else None)"

text \<open>The reader after it has read both offsets: where it will load, and the offset it will set.\<close>

definition read_plan :: "word32 \<Rightarrow> ring \<Rightarrow> addr list \<times> word32" where
  "read_plan BufferSize r =
    (let rd = RdOff r; wr = WrOff r;
         (first, BufferSize, rd) =
           (if rd > wr
            then let n = min (SizeOfBuffer r - rd) BufferSize; as = loads (pBuffer r + rd) n;
                     BufferSize = BufferSize - n; rd = rd + n
                 in (as, BufferSize, if rd = SizeOfBuffer r then 0 else rd)
            else ([], BufferSize, rd));
         n = min (wr - rd) BufferSize
     in if n > 0 then (first @ loads (pBuffer r + rd) n, rd + n) else (first, rd))"

section \<open>Steps\<close>

datatype writer = W_Idle | W_Store "(addr \<times> word8) list" word32
datatype reader = R_Idle | R_Load "addr list" "word8 list" word32

text \<open>The ring, memory, both sides, and what the calls have returned: bytes accepted and bytes read.\<close>

record spsc =
  sp_ring :: ring
  sp_ram :: byte_mem
  sp_writer :: writer
  sp_reader :: reader
  accepted_bytes :: "word8 list"
  read_bytes :: "word8 list"

text \<open>A step of the writer; between calls the next one is \<open>bs\<close>.\<close>

definition writer_step :: "word8 list \<Rightarrow> spsc \<Rightarrow> spsc" where
  "writer_step bs s = (case sp_writer s of
     W_Idle \<Rightarrow> (case write_plan bs (sp_ring s) of
         None \<Rightarrow> s
       | Some (todo, wr) \<Rightarrow> s\<lparr>sp_writer := W_Store todo wr, accepted_bytes := accepted_bytes s @ bs\<rparr>)
   | W_Store [] wr \<Rightarrow> s\<lparr>sp_ring := (sp_ring s)\<lparr>WrOff := wr\<rparr>, sp_writer := W_Idle\<rparr>
   | W_Store ((a, b) # todo) wr \<Rightarrow> s\<lparr>sp_ram := (sp_ram s)(a := b), sp_writer := W_Store todo wr\<rparr>)"

text \<open>A step of the reader; between calls the next one asks for \<open>n\<close> bytes.\<close>

definition reader_step :: "word32 \<Rightarrow> spsc \<Rightarrow> spsc" where
  "reader_step n s = (case sp_reader s of
     R_Idle \<Rightarrow> (case read_plan n (sp_ring s) of (todo, rd) \<Rightarrow> s\<lparr>sp_reader := R_Load todo [] rd\<rparr>)
   | R_Load [] got rd \<Rightarrow> s\<lparr>sp_ring := (if got \<noteq> [] then (sp_ring s)\<lparr>RdOff := rd\<rparr> else sp_ring s),
       sp_reader := R_Idle, read_bytes := read_bytes s @ got\<rparr>
   | R_Load (a # todo) got rd \<Rightarrow> s\<lparr>sp_reader := R_Load todo (got @ [sp_ram s a]) rd\<rparr>)"

datatype spsc_turn = Writer_Turn "word8 list" | Reader_Turn word32

fun spsc_step :: "spsc_turn \<Rightarrow> spsc \<Rightarrow> spsc" where
  "spsc_step (Writer_Turn bs) s = writer_step bs s"
| "spsc_step (Reader_Turn n) s = reader_step n s"

definition spsc_run :: "spsc_turn list \<Rightarrow> spsc \<Rightarrow> spsc" where
  "spsc_run ts s = fold spsc_step ts s"

text \<open>Both sides outside of a call.\<close>

definition spsc_start :: "ring \<Rightarrow> byte_mem \<Rightarrow> spsc" where
  "spsc_start r m = \<lparr>sp_ring = r, sp_ram = m, sp_writer = W_Idle, sp_reader = R_Idle, accepted_bytes = [], read_bytes = []\<rparr>"

section \<open>Places\<close>

definition wr_place :: "ring \<Rightarrow> nat \<Rightarrow> addr" where
  "wr_place r k = pBuffer r + of_nat ((unat (WrOff r) + k) mod unat (SizeOfBuffer r))"

definition rd_place :: "ring \<Rightarrow> nat \<Rightarrow> addr" where
  "rd_place r k = pBuffer r + of_nat ((unat (RdOff r) + k) mod unat (SizeOfBuffer r))"

definition put_plan :: "ring \<Rightarrow> word8 list \<Rightarrow> (addr \<times> word8) list" where
  "put_plan r bs = map (\<lambda>k. (wr_place r k, bs ! k)) [0..<length bs]"

lemma held_places: "held r m = map (\<lambda>k. m (rd_place r k)) [0..<ring_used r]"
  by (simp add: held_def rd_place_def)

lemma wr_rd_place: "ring_ok r \<Longrightarrow> wr_place r k = rd_place r (ring_used r + k)"
  by (simp add: wr_place_def rd_place_def write_place mod_add_left_eq add.assoc)

lemma rd_place_inj:
  assumes r: "ring_ok r" and i: "i < unat (SizeOfBuffer r)" "j < unat (SizeOfBuffer r)" and e: "rd_place r i = rd_place r j"
  shows "i = j"
proof -
  let ?S = "unat (SizeOfBuffer r)" and ?d = "unat (RdOff r)"
  have d: "?d < ?S" using r by (simp add: ring_ok_def word_less_nat_alt)
  have small: "unat (of_nat (k mod ?S) :: word32) = k mod ?S" for k
    using d unat_32 [of "SizeOfBuffer r"] mod_less_divisor [of ?S k] by (intro unat_of_nat_32) linarith
  have "(?d + i) mod ?S = (?d + j) mod ?S" using arg_cong [OF e, of "\<lambda>x. unat (x - pBuffer r)"] by (simp add: rd_place_def small)
  then show ?thesis using d i by (auto simp: mod_if split: if_splits)
qed

lemma wr_place_at:
  assumes "ring_ok r" and "unat (WrOff r) + k < unat (SizeOfBuffer r)"
  shows "wr_place r k = pBuffer r + WrOff r + of_nat k"
  using assms by (simp add: wr_place_def add.assoc)

lemma wr_place_wrapped:
  assumes "ring_ok r" and "unat (SizeOfBuffer r) \<le> unat (WrOff r) + k" and "k < unat (SizeOfBuffer r)"
  shows "wr_place r k = pBuffer r + of_nat (k - (unat (SizeOfBuffer r) - unat (WrOff r)))"
proof -
  have "(unat (WrOff r) + k) mod unat (SizeOfBuffer r) = k - (unat (SizeOfBuffer r) - unat (WrOff r))"
    using assms by (auto simp: mod_if ring_ok_def word_less_nat_alt)
  then show ?thesis by (simp add: wr_place_def)
qed

lemma stores_plan:
  assumes r: "ring_ok r" and n: "length bs < unat (SizeOfBuffer r)"
  shows "stores (pBuffer r + WrOff r) (take (unat (SizeOfBuffer r) - unat (WrOff r)) bs) @
    stores (pBuffer r) (drop (unat (SizeOfBuffer r) - unat (WrOff r)) bs) = put_plan r bs"
proof (rule nth_equalityI)
  let ?S = "unat (SizeOfBuffer r)" and ?w = "unat (WrOff r)"
  fix i
  assume "i < length (stores (pBuffer r + WrOff r) (take (?S - ?w) bs) @ stores (pBuffer r) (drop (?S - ?w) bs))"
  then have i: "i < length bs" by (simp add: stores_def split: if_splits)
  have w: "?w < ?S" using r by (simp add: ring_ok_def word_less_nat_alt)
  show "(stores (pBuffer r + WrOff r) (take (?S - ?w) bs) @ stores (pBuffer r) (drop (?S - ?w) bs)) ! i = put_plan r bs ! i"
  proof (cases "?w + i < ?S")
    case True
    then have "i < ?S - ?w" by linarith
    then show ?thesis using i w wr_place_at [OF r True] by (simp add: stores_def put_plan_def nth_append)
  next
    case False
    define j where "j = i - (?S - ?w)"
    have len: "length (stores (pBuffer r + WrOff r) (take (?S - ?w) bs)) = ?S - ?w" using False i by (simp add: stores_def)
    have ij: "i = ?S - ?w + j" using False w by (simp add: j_def)
    have "put_plan r bs ! i = (pBuffer r + of_nat j, bs ! i)"
      using i False n wr_place_wrapped [OF r, of i] by (simp add: put_plan_def j_def)
    moreover have "j < length bs - (?S - ?w)" using i ij by linarith
    then have "stores (pBuffer r) (drop (?S - ?w) bs) ! j = (pBuffer r + of_nat j, bs ! i)" using ij by (simp add: stores_def)
    ultimately show ?thesis unfolding nth_append len using ij by simp
  qed
qed (simp add: stores_def put_plan_def min_def)

lemma stores_short:
  assumes "ring_ok r" and "length bs \<le> unat (SizeOfBuffer r) - unat (WrOff r)" and "length bs < unat (SizeOfBuffer r)"
  shows "stores (pBuffer r + WrOff r) bs = put_plan r bs"
  using stores_plan [OF assms(1,3)] assms(2) by (simp add: stores_def)

text \<open>The writer stores the bytes behind what the ring holds, or nothing.\<close>

lemma write_plan_eq:
  assumes r: "ring_ok r" and n: "length bs < 2 ^ 32"
  shows "write_plan bs r =
    (if length bs \<le> ring_free r then Some (put_plan r bs, WrOff (advance (length bs) r)) else None)"
proof -
  let ?n = "of_nat (length bs) :: word32"
  have free: "unat (avail_write_space r) = ring_free r" by (rule avail_free [OF r])
  have fits: "?n \<le> avail_write_space r \<longleftrightarrow> length bs \<le> ring_free r"
    using free small_bytes [OF n] by (simp add: word_le_nat_alt)
  have small: "length bs < unat (SizeOfBuffer r)" if "length bs \<le> ring_free r"
    using that used_less [OF r] by (simp add: ring_free_def)
  have adv: "WrOff (advance (length bs) r) = (if ?n < SizeOfBuffer r - WrOff r then WrOff r + ?n else ?n - (SizeOfBuffer r - WrOff r))"
    if "length bs \<le> ring_free r" using write_offset [OF r small [OF that]] by (simp add: advance_def)
  show ?thesis
  proof (cases "RdOff r \<le> WrOff r")
    case le: True
    note sp = skip_space [OF r le]
    have first: "?n \<le> SizeOfBuffer r - WrOff r - 1 \<longleftrightarrow> length bs \<le> unat (SizeOfBuffer r) - unat (WrOff r) - 1"
      using sp(2) small_bytes [OF n] by (simp add: word_le_nat_alt)
    show ?thesis
    proof (cases "length bs \<le> unat (SizeOfBuffer r) - unat (WrOff r) - 1")
      case True
      then have f: "length bs \<le> ring_free r" using le r by (simp add: ring_free_def ring_used_def ring_ok_def word_le_nat_alt word_less_nat_alt)
      moreover have "?n < SizeOfBuffer r - WrOff r" using True sp(3) small_bytes [OF n] r
        by (simp add: word_less_nat_alt ring_ok_def) linarith
      ultimately show ?thesis using True le first stores_short [OF r _ small [OF f]] adv [OF f]
        by (simp add: write_plan_def Let_def)
    next
      case False
      have nl: "\<not> ?n < SizeOfBuffer r - WrOff r" using False sp(3) small_bytes [OF n] by (simp add: word_less_nat_alt)
      have tail: "stores (pBuffer r) (drop (unat (SizeOfBuffer r) - unat (WrOff r)) bs) = []" if "?n = SizeOfBuffer r - WrOff r"
        using arg_cong [OF that, of unat] sp(3) small_bytes [OF n] by (simp add: stores_def)
      show ?thesis
      proof (cases "?n = SizeOfBuffer r - WrOff r")
        case True
        then show ?thesis using False le first sp fits adv nl stores_plan [OF r small] tail [OF True]
          by (simp add: write_plan_def Let_def)
      next
        case ne: False
        then show ?thesis using False le first sp fits adv nl stores_plan [OF r small] by (simp add: write_plan_def Let_def)
      qed
    qed
  next
    case False
    have a: "RdOff r - WrOff r - 1 = avail_write_space r" using False by (simp add: avail_write_space_def)
    have "length bs \<le> ring_free r \<Longrightarrow> length bs < unat (SizeOfBuffer r) - unat (WrOff r)"
      using False r by (simp add: ring_free_def ring_used_def ring_ok_def word_less_nat_alt word_le_nat_alt) linarith
    moreover from this have "length bs \<le> ring_free r \<Longrightarrow> ?n < SizeOfBuffer r - WrOff r"
      using small_bytes [OF n] r by (simp add: word_less_nat_alt ring_ok_def unat_sub word_le_nat_alt)
    ultimately show ?thesis using False a fits stores_short [OF r _ small] adv
      by (cases "length bs \<le> ring_free r") (simp_all add: write_plan_def Let_def less_imp_le)
  qed
qed

text \<open>The reader loads the bytes at the front.\<close>

lemma loads_front:
  assumes r: "ring_ok r" and n: "unat (RdOff r) + unat n \<le> unat (SizeOfBuffer r)"
  shows "loads (pBuffer r + RdOff r) n = map (rd_place r) [0..<unat n]"
proof -
  have "rd_place r i = pBuffer r + RdOff r + of_nat i" if "i < unat n" for i
    using that n by (simp add: rd_place_def add.assoc)
  then show ?thesis by (simp add: loads_def)
qed

lemma rd_place_consume: "ring_ok r \<Longrightarrow> rd_place (consume k r) i = rd_place r (k + i)"
proof -
  assume "ring_ok r"
  then have "0 < unat (SizeOfBuffer r)" by (auto simp: ring_ok_def word_less_nat_alt)
  then have "(unat (RdOff r) + k) mod unat (SizeOfBuffer r) < 2 ^ 32"
    using unat_32 [of "SizeOfBuffer r"] mod_less_divisor [of "unat (SizeOfBuffer r)" "unat (RdOff r) + k"] by linarith
  then have "unat (RdOff (consume k r)) = (unat (RdOff r) + k) mod unat (SizeOfBuffer r)"
    by (simp add: consume_def unat_of_nat_32)
  then show ?thesis by (simp add: rd_place_def mod_add_left_eq add.assoc)
qed

lemma map_upt_append: "map f [0..<a + b] = map f [0..<a] @ map (\<lambda>i. f (a + i)) [0..<b]"
  by (induction b) simp_all

lemma read_plan_eq:
  assumes r: "ring_ok r"
  shows "read_plan n r = (map (rd_place r) [0..<min (unat n) (ring_used r)], RdOff (consume (min (unat n) (ring_used r)) r))"
proof (cases "RdOff r > WrOff r")
  case False
  have w: "unat (WrOff r) < unat (SizeOfBuffer r)" "unat (RdOff r) \<le> unat (WrOff r)"
    using r False by (simp_all add: ring_ok_def word_less_nat_alt)
  define k where "k = min (WrOff r - RdOff r) n"
  have u: "ring_used r = unat (WrOff r) - unat (RdOff r)" "unat (WrOff r - RdOff r) = ring_used r"
    using w by (simp_all add: ring_used_def word_le_nat_alt unat_sub)
  have k: "unat k = min (unat n) (ring_used r)" using u by (simp add: k_def min_def word_le_nat_alt)
  have g: "loads (pBuffer r + RdOff r) k = map (rd_place r) [0..<unat k]"
    using k u w by (intro loads_front [OF r]) auto
  have c: "consume (unat k) r = r\<lparr>RdOff := RdOff r + k\<rparr>" using k u w by (intro consume_short) auto
  show ?thesis unfolding k [symmetric] using False g c
    by (cases "k = 0") (simp_all add: read_plan_def Let_def k_def [symmetric] word_gt_0)
next
  case True
  let ?S = "unat (SizeOfBuffer r)" and ?d = "unat (RdOff r)"
  have w: "unat (WrOff r) < ?d" "?d < ?S" using r True by (simp_all add: ring_ok_def word_less_nat_alt)
  have u: "ring_used r = ?S - ?d + unat (WrOff r)" using w by (simp add: ring_used_def word_le_nat_alt)
  have rem: "unat (SizeOfBuffer r - RdOff r) = ?S - ?d" using w by (simp add: unat_sub word_le_nat_alt)
  define k where "k = min (SizeOfBuffer r - RdOff r) n"
  have k: "unat k = min (?S - ?d) (unat n)" using rem by (simp add: k_def min_def word_le_nat_alt)
  have g: "loads (pBuffer r + RdOff r) k = map (rd_place r) [0..<unat k]"
    using k w by (intro loads_front [OF r]) auto
  show ?thesis
  proof (cases "unat n < ?S - ?d")
    case short: True
    then have kn: "k = n" using k by (simp add: word_unat_eq_iff)
    have c: "consume (unat n) r = r\<lparr>RdOff := RdOff r + n\<rparr>" using short by (intro consume_short) auto
    have "RdOff r + n \<noteq> SizeOfBuffer r" using short w by (auto simp: word_unat_eq_iff unat_word_ariths)
    moreover have "min (unat n) (ring_used r) = unat n" using short u by simp
    moreover have "min x 0 = 0" for x :: word32 by (simp add: min_def)
    ultimately show ?thesis using True g c kn by (simp add: read_plan_def Let_def k_def [symmetric])
  next
    case long: False
    let ?j = "?S - ?d"
    have kw: "k = SizeOfBuffer r - RdOff r" using long rem by (auto simp: k_def min_def word_le_nat_alt)
    have c1: "consume ?j r = r\<lparr>RdOff := 0\<rparr>" using w by (simp add: consume_def)
    have j: "?j \<le> ring_used r" using u by simp
    have r1: "ring_ok (r\<lparr>RdOff := 0\<rparr>)" using consume_ok(1) [OF r j] by (simp add: c1)
    define q where "q = min (WrOff r) (n - k)"
    have "unat (n - k) = unat n - ?j" using long rem by (simp add: kw unat_sub word_le_nat_alt)
    then have q: "unat q = min (unat (WrOff r)) (unat n - ?j)" by (simp add: q_def min_def word_le_nat_alt)
    have g2: "loads (pBuffer r) q = map (\<lambda>i. rd_place r (?j + i)) [0..<unat q]"
      using loads_front [OF r1, of q] q w rd_place_consume [OF r, of ?j] by (simp add: c1)
    have total: "min (unat n) (ring_used r) = ?j + unat q" using q u long by (auto simp: min_def)
    have c: "RdOff (consume (?j + unat q) r) = q"
    proof -
      have "(?d + (?j + unat q)) mod ?S = unat q" using w q by simp
      then show ?thesis unfolding consume_def by simp
    qed
    have kj: "unat k = ?j" using k long by simp
    have both: "map (rd_place r) [0..<?j + unat q] = loads (pBuffer r + RdOff r) k @ loads (pBuffer r) q"
      unfolding map_upt_append g g2 kj by simp
    have sum: "RdOff r + k = SizeOfBuffer r" by (simp add: kw)
    have "read_plan n r = (loads (pBuffer r + RdOff r) k @ loads (pBuffer r) q, q)"
      using True sum by (cases "q = 0") (simp_all add: read_plan_def Let_def k_def [symmetric] q_def [symmetric] word_gt_0 loads_def)
    then show ?thesis unfolding total both c by simp
  qed
qed

section \<open>The invariant\<close>

fun writer_inv :: "ring \<Rightarrow> byte_mem \<Rightarrow> writer \<Rightarrow> word8 list \<Rightarrow> bool" where
  "writer_inv r m W_Idle pend \<longleftrightarrow> pend = []"
| "writer_inv r m (W_Store todo wr) pend \<longleftrightarrow> length pend \<le> ring_free r \<and> wr = WrOff (advance (length pend) r) \<and>
     (\<exists>j\<le>length pend. todo = drop j (put_plan r pend) \<and> (\<forall>k<j. m (wr_place r k) = pend ! k))"

fun reader_inv :: "ring \<Rightarrow> byte_mem \<Rightarrow> reader \<Rightarrow> bool" where
  "reader_inv r m R_Idle \<longleftrightarrow> True"
| "reader_inv r m (R_Load todo got rd) \<longleftrightarrow> (\<exists>k\<le>ring_used r. length got \<le> k \<and> rd = RdOff (consume k r) \<and>
     todo = drop (length got) (map (rd_place r) [0..<k]) \<and> got = take (length got) (held r m))"

text \<open>
  \<open>base\<close> is what the ring held at first. Behind what has been read and what the ring holds come the
  bytes of the write under way.
\<close>

definition spsc_inv :: "word8 list \<Rightarrow> spsc \<Rightarrow> bool" where
  "spsc_inv base s \<longleftrightarrow> ring_ok (sp_ring s) \<and> reader_inv (sp_ring s) (sp_ram s) (sp_reader s) \<and>
     (\<exists>pend. writer_inv (sp_ring s) (sp_ram s) (sp_writer s) pend \<and>
       base @ accepted_bytes s = read_bytes s @ held (sp_ring s) (sp_ram s) @ pend)"

lemma length_put_plan [simp]: "length (put_plan r bs) = length bs"
  by (simp add: put_plan_def)

lemma nth_put_plan: "k < length bs \<Longrightarrow> put_plan r bs ! k = (wr_place r k, bs ! k)"
  by (simp add: put_plan_def)

lemma drop_ConsD:
  assumes "a # xs = drop j ys" and "j \<le> length ys"
  shows "j < length ys \<and> a = ys ! j \<and> xs = drop (Suc j) ys"
proof -
  have "j < length ys" using assms by (cases "j = length ys") auto
  moreover from this have "ys ! j # drop (Suc j) ys = a # xs" using assms(1) by (simp add: Cons_nth_drop_Suc)
  ultimately show ?thesis by simp
qed

lemma free_places:
  assumes r: "ring_ok r" and k: "k < ring_free r"
  shows "i < ring_used r \<Longrightarrow> rd_place r i \<noteq> wr_place r k" "j < ring_free r \<Longrightarrow> j \<noteq> k \<Longrightarrow> wr_place r j \<noteq> wr_place r k"
proof -
  have u: "ring_used r + k < unat (SizeOfBuffer r)" "j < ring_free r \<Longrightarrow> ring_used r + j < unat (SizeOfBuffer r)" for j
    using k used_less [OF r] by (auto simp: ring_free_def)
  show "i < ring_used r \<Longrightarrow> rd_place r i \<noteq> wr_place r k"
    using rd_place_inj [OF r, of i "ring_used r + k"] u used_less [OF r] unfolding wr_rd_place [OF r] by auto
  show "j < ring_free r \<Longrightarrow> j \<noteq> k \<Longrightarrow> wr_place r j \<noteq> wr_place r k"
    using rd_place_inj [OF r, of "ring_used r + j" "ring_used r + k"] u unfolding wr_rd_place [OF r] by auto
qed

lemma held_store: "ring_ok r \<Longrightarrow> k < ring_free r \<Longrightarrow> held r (m(wr_place r k := b)) = held r m"
  using free_places(1) by (simp add: held_places)

lemma consume_places [simp]: "wr_place (consume k r) = wr_place r" "put_plan (consume k r) = put_plan r"
  by (simp_all add: wr_place_def put_plan_def fun_eq_iff)

lemma advance_places [simp]: "rd_place (advance k r) = rd_place r" "RdOff (consume j (advance k r)) = RdOff (consume j r)"
  by (simp_all add: rd_place_def consume_def advance_def fun_eq_iff)

lemma held_advance:
  assumes r: "ring_ok r" and n: "n \<le> ring_free r"
  shows "ring_ok (advance n r)" "ring_used (advance n r) = ring_used r + n"
    "held (advance n r) m = held r m @ map (\<lambda>k. m (wr_place r k)) [0..<n]"
proof -
  have "n + ring_used r < unat (SizeOfBuffer r)" using n used_less [OF r] by (simp add: ring_free_def)
  note a = advance_ok [OF r this]
  show "ring_ok (advance n r)" "ring_used (advance n r) = ring_used r + n" using a by simp_all
  then show "held (advance n r) m = held r m @ map (\<lambda>k. m (wr_place r k)) [0..<n]"
    unfolding held_places wr_rd_place [OF r] by (simp add: map_upt_append)
qed

section \<open>The steps keep it\<close>

lemma writer_inv_consume:
  assumes r: "ring_ok r" and k: "k \<le> ring_used r" and w: "writer_inv r m w pend"
  shows "writer_inv (consume k r) m w pend"
proof -
  have "ring_free r \<le> ring_free (consume k r)" using free_consume [OF r, of k] k by (simp add: min_def)
  moreover have "WrOff (advance n (consume k r)) = WrOff (advance n r)" for n by (simp add: advance_def)
  ultimately show ?thesis using w by (cases w) auto
qed

lemma reader_inv_advance:
  assumes r: "ring_ok r" and n: "n \<le> ring_free r" and i: "reader_inv r m x"
  shows "reader_inv (advance n r) m x"
proof (cases x)
  case (R_Load todo got rd)
  then obtain k where k: "k \<le> ring_used r" "length got \<le> k" "rd = RdOff (consume k r)"
    "todo = drop (length got) (map (rd_place r) [0..<k])" "got = take (length got) (held r m)" using i by auto
  have "length got \<le> length (held r m)" using k by simp
  then have "take (length got) (held (advance n r) m) = take (length got) (held r m)" by (simp add: held_advance [OF r n])
  moreover have "k \<le> ring_used (advance n r)" using k(1) held_advance(2) [OF r n] by simp
  ultimately show ?thesis using k(2-5) R_Load by (auto intro!: exI [of _ k])
qed simp

lemma writer_step_inv:
  assumes i: "spsc_inv base s" and n: "length bs < 2 ^ 32"
  shows "spsc_inv base (writer_step bs s)"
proof -
  let ?r = "sp_ring s" and ?m = "sp_ram s"
  from i obtain pend where r: "ring_ok ?r" and rd: "reader_inv ?r ?m (sp_reader s)"
    and w: "writer_inv ?r ?m (sp_writer s) pend" and e: "base @ accepted_bytes s = read_bytes s @ held ?r ?m @ pend"
    by (auto simp: spsc_inv_def)
  show ?thesis
  proof (cases "sp_writer s")
    case W_Idle
    show ?thesis
    proof (cases "length bs \<le> ring_free ?r")
      case True
      then have "writer_inv ?r ?m (W_Store (put_plan ?r bs) (WrOff (advance (length bs) ?r))) bs" by auto
      then show ?thesis using r rd e w W_Idle True unfolding spsc_inv_def writer_step_def write_plan_eq [OF r n]
        by (simp flip: append_assoc)
    qed (use i W_Idle in \<open>simp add: writer_step_def write_plan_eq [OF r n]\<close>)
  next
    case (W_Store todo wr)
    with w obtain j where p: "length pend \<le> ring_free ?r" "wr = WrOff (advance (length pend) ?r)" "j \<le> length pend"
      "todo = drop j (put_plan ?r pend)" "\<forall>k<j. ?m (wr_place ?r k) = pend ! k" by auto
    show ?thesis
    proof (cases todo)
      case Nil
      then have "j = length pend" using p(3,4) by simp
      then have "?m (wr_place ?r k) = pend ! k" if "k < length pend" for k using p(5) that by blast
      then have all: "map (\<lambda>k. ?m (wr_place ?r k)) [0..<length pend] = pend" by (intro nth_equalityI) simp_all
      have "?r\<lparr>WrOff := wr\<rparr> = advance (length pend) ?r" using p(2) by (simp add: advance_def)
      then show ?thesis using W_Store Nil e all held_advance [OF r p(1)] reader_inv_advance [OF r p(1) rd]
        by (simp add: spsc_inv_def writer_step_def)
    next
      case (Cons ab rest)
      from drop_ConsD [of ab rest j "put_plan ?r pend"] Cons p(3,4) have
        j: "j < length pend" "ab = (wr_place ?r j, pend ! j)" "rest = drop (Suc j) (put_plan ?r pend)"
        by (auto simp: nth_put_plan)
      let ?m2 = "?m(wr_place ?r j := pend ! j)"
      have free: "j < ring_free ?r" using j(1) p(1) by simp
      have held: "held ?r ?m2 = held ?r ?m" by (rule held_store [OF r free])
      have stored: "\<forall>k<Suc j. ?m2 (wr_place ?r k) = pend ! k" using p(5) free_places(2) [OF r free] free by (auto simp: less_Suc_eq)
      have "writer_inv ?r ?m2 (W_Store rest wr) pend"
        unfolding writer_inv.simps using p(1,2) j(1,3) stored by (intro conjI exI [of _ "Suc j"]) (simp_all del: fun_upd_apply)
      moreover have "reader_inv ?r ?m2 (sp_reader s)" using rd held by (cases "sp_reader s") auto
      ultimately show ?thesis using W_Store Cons j(2) r e held by (auto simp: spsc_inv_def writer_step_def)
    qed
  qed
qed

lemma reader_step_inv:
  assumes i: "spsc_inv base s"
  shows "spsc_inv base (reader_step n s)"
proof -
  let ?r = "sp_ring s" and ?m = "sp_ram s"
  from i obtain pend where r: "ring_ok ?r" and rd: "reader_inv ?r ?m (sp_reader s)"
    and w: "writer_inv ?r ?m (sp_writer s) pend" and e: "base @ accepted_bytes s = read_bytes s @ held ?r ?m @ pend"
    by (auto simp: spsc_inv_def)
  show ?thesis
  proof (cases "sp_reader s")
    case R_Idle
    have "reader_inv ?r ?m (R_Load (map (rd_place ?r) [0..<min (unat n) (ring_used ?r)]) [] (RdOff (consume (min (unat n) (ring_used ?r)) ?r)))"
      by (auto intro: exI [of _ "min (unat n) (ring_used ?r)"])
    then show ?thesis using R_Idle r w e by (auto simp: spsc_inv_def reader_step_def read_plan_eq [OF r])
  next
    case (R_Load todo got rdo)
    with rd obtain k where p: "k \<le> ring_used ?r" "length got \<le> k" "rdo = RdOff (consume k ?r)"
      "todo = drop (length got) (map (rd_place ?r) [0..<k])" "got = take (length got) (held ?r ?m)" by auto
    show ?thesis
    proof (cases todo)
      case Nil
      then have lg: "length got = k" using p(2,4) by simp
      have c: "(if got \<noteq> [] then ?r\<lparr>RdOff := rdo\<rparr> else ?r) = consume k ?r"
        using p(3) lg consume_0 [OF r] by (cases "got = []") (auto simp: consume_def)
      note h = consume_ok(1) [OF r p(1)] held_consume [OF r p(1), of ?m]
      have "got @ held (consume k ?r) ?m = held ?r ?m" using p(5) h(2) lg by (metis append_take_drop_id)
      then have "base @ accepted_bytes s = (read_bytes s @ got) @ held (consume k ?r) ?m @ pend" using e by (metis append_assoc)
      then show ?thesis using R_Load Nil c h(1) writer_inv_consume [OF r p(1) w] by (auto simp: spsc_inv_def reader_step_def)
    next
      case (Cons a rest)
      from drop_ConsD [of a rest "length got" "map (rd_place ?r) [0..<k]"] Cons p(2,4) have
        j: "length got < k" "a = rd_place ?r (length got)" "rest = drop (Suc (length got)) (map (rd_place ?r) [0..<k])" by auto
      have "?m a = held ?r ?m ! length got" using j(1,2) p(1) by (simp add: held_places)
      then have "got @ [?m a] = take (Suc (length got)) (held ?r ?m)"
        using p(5) j(1) p(1) take_Suc_conv_app_nth [of "length got" "held ?r ?m"] by simp
      then have "reader_inv ?r ?m (R_Load rest (got @ [?m a]) rdo)" using p(1,3) j(1,3) by (auto intro: exI [of _ k])
      then show ?thesis using R_Load Cons r w e by (auto simp: spsc_inv_def reader_step_def)
    qed
  qed
qed

text \<open>The accesses stay within the buffer, and nobody moves it.\<close>

definition spsc_frame :: "ring \<Rightarrow> byte_mem \<Rightarrow> spsc \<Rightarrow> bool" where
  "spsc_frame r m s \<longleftrightarrow> same_place r (sp_ring s) \<and> keeps_outside r m (sp_ram s)"

lemma wr_place_inside:
  assumes "ring_ok r"
  shows "wr_place r k - pBuffer r < SizeOfBuffer r"
proof -
  let ?S = "unat (SizeOfBuffer r)"
  have "0 < ?S" using assms by (auto simp: ring_ok_def word_less_nat_alt)
  then have less: "(unat (WrOff r) + k) mod ?S < ?S" by simp
  then have "unat (of_nat ((unat (WrOff r) + k) mod ?S) :: word32) = (unat (WrOff r) + k) mod ?S"
    using unat_32 [of "SizeOfBuffer r"] by (intro unat_of_nat_32) linarith
  with less show ?thesis by (simp add: wr_place_def word_less_nat_alt)
qed

lemma spsc_frame_step:
  assumes i: "spsc_inv base s" and f: "spsc_frame r m s"
  shows "spsc_frame r m (spsc_step t s)"
proof (cases t)
  case (Writer_Turn bs)
  have ring: "ring_ok (sp_ring s)" using i by (simp add: spsc_inv_def)
  show ?thesis
  proof (cases "sp_writer s")
    case W_Idle
    then show ?thesis using f Writer_Turn by (simp add: writer_step_def spsc_frame_def split: option.splits prod.splits)
  next
    case (W_Store todo wr)
    show ?thesis
    proof (cases todo)
      case (Cons ab rest)
      from i W_Store obtain pend j where "j \<le> length pend" "todo = drop j (put_plan (sp_ring s) pend)"
        by (auto simp: spsc_inv_def)
      then have "fst ab = wr_place (sp_ring s) j"
        using Cons drop_ConsD [of ab rest j "put_plan (sp_ring s) pend"] by (auto simp: nth_put_plan)
      moreover have "wr_place (sp_ring s) j - pBuffer r < SizeOfBuffer r"
        using wr_place_inside [OF ring, of j] f by (simp add: spsc_frame_def same_place_def)
      ultimately show ?thesis using f Writer_Turn W_Store Cons
        by (cases ab) (auto simp: writer_step_def spsc_frame_def keeps_outside_def)
    qed (use f Writer_Turn W_Store in \<open>simp add: writer_step_def spsc_frame_def same_place_def\<close>)
  qed
next
  case (Reader_Turn n)
  then show ?thesis using f
    by (auto simp: reader_step_def spsc_frame_def same_place_def split: reader.splits list.splits prod.splits)
qed

lemma spsc_run_inv:
  assumes "spsc_inv base s" and "spsc_frame r m s" and "\<forall>bs. Writer_Turn bs \<in> set ts \<longrightarrow> length bs < 2 ^ 32"
  shows "spsc_inv base (spsc_run ts s) \<and> spsc_frame r m (spsc_run ts s)"
  using assms
proof (induction ts arbitrary: s)
  case (Cons t ts)
  have "spsc_inv base (spsc_step t s)"
    using Cons.prems(1,3) by (cases t) (simp_all add: writer_step_inv reader_step_inv)
  moreover have "spsc_frame r m (spsc_step t s)" by (rule spsc_frame_step [OF Cons.prems(1,2)])
  ultimately show ?case using Cons.IH [of "spsc_step t s"] Cons.prems(3) by (simp add: spsc_run_def)
qed (simp add: spsc_run_def)

section \<open>Calls that nobody disturbs\<close>

definition store_at :: "addr \<times> word8 \<Rightarrow> byte_mem \<Rightarrow> byte_mem" where
  "store_at ab m = m(fst ab := snd ab)"

lemma stores_put:
  assumes "length bs \<le> 2 ^ 32"
  shows "fold store_at (stores p bs) m = put_bytes p bs m"
  using assms
proof (induction bs rule: rev_induct)
  case (snoc b bs)
  have n: "length bs < 2 ^ 32" using snoc.prems by simp
  have "stores p (bs @ [b]) = stores p bs @ [(p + of_nat (length bs), b)]" by (simp add: stores_def nth_append)
  moreover have "(put_bytes p bs m)(p + of_nat (length bs) := b) = put_bytes p (bs @ [b]) m"
  proof
    fix a
    have "a = p + of_nat (length bs) \<longleftrightarrow> unat (a - p) = length bs"
      using unat_of_nat_32 [OF n] by (metis add_diff_cancel_left' add.commute diff_add_cancel of_nat_unat ucast_id)
    then show "((put_bytes p bs m)(p + of_nat (length bs) := b)) a = put_bytes p (bs @ [b]) m a"
      by (auto simp: put_bytes_def nth_append less_Suc_eq)
  qed
  ultimately show ?case using snoc by (simp add: store_at_def del: fun_upd_apply)
qed (simp add: stores_def)

lemma put_plan_put:
  assumes "ring_ok r" and "length bs < unat (SizeOfBuffer r)"
  shows "fold store_at (put_plan r bs) m = put_ring bs r m"
proof -
  have "length bs \<le> 2 ^ 32" using assms(2) unat_32 [of "SizeOfBuffer r"] by linarith
  then show ?thesis unfolding stores_plan [OF assms, symmetric] by (simp add: stores_put put_ring_def Let_def)
qed

lemma writer_stores:
  "sp_writer s = W_Store todo wr \<Longrightarrow> (writer_step bs ^^ Suc (length todo)) s =
    s\<lparr>sp_ram := fold store_at todo (sp_ram s), sp_ring := (sp_ring s)\<lparr>WrOff := wr\<rparr>, sp_writer := W_Idle\<rparr>"
proof (induction todo arbitrary: s)
  case (Cons ab todo)
  let ?s = "writer_step bs s"
  have s: "?s = s\<lparr>sp_ram := store_at ab (sp_ram s), sp_writer := W_Store todo wr\<rparr>"
    using Cons.prems by (simp add: writer_step_def store_at_def split: prod.split)
  have "(writer_step bs ^^ Suc (length (ab # todo))) s = (writer_step bs ^^ Suc (length todo)) ?s"
    by (simp add: funpow_swap1)
  also have "\<dots> = ?s\<lparr>sp_ram := fold store_at todo (sp_ram ?s), sp_ring := (sp_ring ?s)\<lparr>WrOff := wr\<rparr>, sp_writer := W_Idle\<rparr>"
    by (rule Cons.IH) (simp add: s)
  finally show ?case unfolding s by simp
qed (simp add: writer_step_def)

lemma reader_loads:
  "sp_reader s = R_Load todo got rd \<Longrightarrow> (reader_step n ^^ Suc (length todo)) s =
    (let got = got @ map (sp_ram s) todo
     in s\<lparr>sp_ring := (if got \<noteq> [] then (sp_ring s)\<lparr>RdOff := rd\<rparr> else sp_ring s), sp_reader := R_Idle, read_bytes := read_bytes s @ got\<rparr>)"
proof (induction todo arbitrary: s got)
  case (Cons a todo)
  let ?s = "reader_step n s"
  have s: "?s = s\<lparr>sp_reader := R_Load todo (got @ [sp_ram s a]) rd\<rparr>" using Cons.prems by (simp add: reader_step_def)
  have "(reader_step n ^^ Suc (length (a # todo))) s = (reader_step n ^^ Suc (length todo)) ?s" by (simp add: funpow_swap1)
  also have "\<dots> = (let got = (got @ [sp_ram s a]) @ map (sp_ram ?s) todo
     in ?s\<lparr>sp_ring := (if got \<noteq> [] then (sp_ring ?s)\<lparr>RdOff := rd\<rparr> else sp_ring ?s), sp_reader := R_Idle, read_bytes := read_bytes ?s @ got\<rparr>)"
    by (rule Cons.IH) (simp add: s)
  finally show ?case unfolding s by (simp add: Let_def)
qed (simp add: reader_step_def Let_def)

text \<open>Made of its accesses, a call does what the function of theory Rtt_Ring does in one step.\<close>

lemma writer_alone:
  assumes "sp_writer s = W_Idle" and r: "ring_ok (sp_ring s)" and n: "length bs \<le> ring_free (sp_ring s)"
  shows "WriteSkipNoLock bs (sp_ring s) (sp_ram s) =
    (let s' = (writer_step bs ^^ (length bs + 2)) s in (1, sp_ring s', sp_ram s'))"
proof -
  have small: "length bs < unat (SizeOfBuffer (sp_ring s))" using n used_less [OF r] by (simp add: ring_free_def)
  then have l: "length bs < 2 ^ 32" using unat_32 [of "SizeOfBuffer (sp_ring s)"] by linarith
  let ?s = "writer_step bs s"
  have s: "?s = s\<lparr>sp_writer := W_Store (put_plan (sp_ring s) bs) (WrOff (advance (length bs) (sp_ring s))),
      accepted_bytes := accepted_bytes s @ bs\<rparr>"
    using assms(1) n by (simp add: writer_step_def write_plan_eq [OF r l])
  have "(writer_step bs ^^ (length bs + 2)) s = (writer_step bs ^^ Suc (length (put_plan (sp_ring s) bs))) ?s"
    by (simp add: funpow_swap1)
  also have "\<dots> = ?s\<lparr>sp_ram := put_ring bs (sp_ring s) (sp_ram s), sp_ring := (sp_ring s)\<lparr>WrOff := WrOff (advance (length bs) (sp_ring s))\<rparr>,
      sp_writer := W_Idle\<rparr>"
    by (subst writer_stores [where todo = "put_plan (sp_ring s) bs"]) (simp_all add: s put_plan_put [OF r small])
  finally have f: "(writer_step bs ^^ (length bs + 2)) s = \<dots>" .
  have "(sp_ring s)\<lparr>WrOff := WrOff (advance (length bs) (sp_ring s))\<rparr> = advance (length bs) (sp_ring s)" by (simp add: advance_def)
  then show ?thesis unfolding f WriteSkipNoLock_puts [OF r l] using n by (simp add: Let_def)
qed

lemma reader_alone:
  assumes "sp_reader s = R_Idle" and r: "ring_ok (sp_ring s)"
  shows "\<exists>s'. (reader_step n ^^ (min (unat n) (ring_used (sp_ring s)) + 2)) s = s' \<and> sp_ram s' = sp_ram s \<and>
    ReadNoLock n (sp_ring s) (sp_ram s) = (drop (length (read_bytes s)) (read_bytes s'), sp_ring s')"
proof -
  let ?r = "sp_ring s" and ?k = "min (unat n) (ring_used (sp_ring s))"
  let ?todo = "map (rd_place ?r) [0..<?k]" and ?s = "reader_step n s"
  have s: "?s = s\<lparr>sp_reader := R_Load ?todo [] (RdOff (consume ?k ?r))\<rparr>"
    using assms(1) by (simp add: reader_step_def read_plan_eq [OF r])
  have got: "map (sp_ram s) ?todo = take (unat n) (held ?r (sp_ram s))"
    by (rule nth_equalityI) (auto simp: held_places)
  have "(reader_step n ^^ (?k + 2)) s = (reader_step n ^^ Suc (length ?todo)) ?s" by (simp add: funpow_swap1)
  also have "\<dots> = (let got = [] @ map (sp_ram ?s) ?todo in ?s\<lparr>sp_ring := (if got \<noteq> [] then (sp_ring ?s)\<lparr>RdOff := RdOff (consume ?k ?r)\<rparr>
      else sp_ring ?s), sp_reader := R_Idle, read_bytes := read_bytes ?s @ got\<rparr>)"
    by (rule reader_loads) (simp add: s)
  finally have f: "(reader_step n ^^ (?k + 2)) s = \<dots>" .
  have "?r\<lparr>RdOff := RdOff (consume ?k ?r)\<rparr> = consume ?k ?r" by (simp add: consume_def)
  moreover have "consume ?k ?r = ?r" if "take (unat n) (held ?r (sp_ram s)) = []"
  proof -
    have "?k = 0" using arg_cong [OF that, of length] by (simp add: min.commute)
    then show ?thesis using r by simp
  qed
  ultimately show ?thesis unfolding f ReadNoLock_takes [OF r] by (simp add: s got Let_def del: map_map)
qed

section \<open>The theorem\<close>

text \<open>
  C9. A writer and a reader that share a ring without the lock, their accesses in any order, any
  number of calls on both sides: what the ring held at first and the bytes of the accepted writes
  are, in order and unchanged, the bytes the reads have returned, then the bytes in the ring, then the bytes of a write that
  is still under way. Memory outside of the buffer is never touched.
\<close>

theorem rtt_lock_free_fifo:
  assumes r: "ring_ok r" and n: "\<forall>bs. Writer_Turn bs \<in> set ts \<longrightarrow> length bs < 2 ^ 32"
    and s: "s = spsc_run ts (spsc_start r m)"
  shows "\<exists>rest. held r m @ accepted_bytes s = read_bytes s @ held (sp_ring s) (sp_ram s) @ rest \<and>
    (sp_writer s = W_Idle \<longrightarrow> rest = []) \<and> ring_ok (sp_ring s) \<and> (\<forall>x. \<not> x - pBuffer r < SizeOfBuffer r \<longrightarrow> sp_ram s x = m x)"
proof -
  have "spsc_inv (held r m) (spsc_start r m)" "spsc_frame r m (spsc_start r m)"
    using r by (simp_all add: spsc_inv_def spsc_frame_def spsc_start_def)
  from spsc_run_inv [OF this n] have i: "spsc_inv (held r m) s" "spsc_frame r m s" by (simp_all add: s)
  from i(1) obtain pend where "writer_inv (sp_ring s) (sp_ram s) (sp_writer s) pend" "ring_ok (sp_ring s)"
    "held r m @ accepted_bytes s = read_bytes s @ held (sp_ring s) (sp_ram s) @ pend" by (auto simp: spsc_inv_def)
  moreover from this have "sp_writer s = W_Idle \<longrightarrow> pend = []" by auto
  ultimately show ?thesis using i(2) by (auto simp: spsc_frame_def keeps_outside_def)
qed

text \<open>
  A run on a ring of four bytes that holds one: the write of two bytes goes around the end while the
  reader takes the old byte, and a second read takes what has been written.
\<close>

definition demo_spsc_ring :: ring where
  "demo_spsc_ring = \<lparr>sName = 0, pBuffer = 0x100, SizeOfBuffer = 4, WrOff = 3, RdOff = 2, Flags = 0\<rparr>"

definition demo_turns :: "spsc_turn list" where
  "demo_turns = [Reader_Turn 8, Writer_Turn [1, 2], Reader_Turn 8, Writer_Turn [], Reader_Turn 8, Reader_Turn 8, Writer_Turn [],
     Reader_Turn 8, Writer_Turn [], Reader_Turn 8, Reader_Turn 8, Reader_Turn 8, Reader_Turn 8, Writer_Turn [3]]"

theorem rtt_lock_free_fifo_witness:
  "let s = spsc_run demo_turns (spsc_start demo_spsc_ring (\<lambda>_. 9))
   in accepted_bytes s = [1, 2, 3] \<and> read_bytes s = [9, 1, 2] \<and> [9, 1, 2, 3] = read_bytes s @ held (sp_ring s) (sp_ram s) @ [3]"
proof -
  let ?s = "spsc_run demo_turns (spsc_start demo_spsc_ring (\<lambda>_. 9))"
  have run: "accepted_bytes ?s = [1, 2, 3]" "read_bytes ?s = [9, 1, 2]" "held (sp_ring ?s) (sp_ram ?s) = []" by code_simp+
  have old: "held demo_spsc_ring (\<lambda>_. 9) = [9]" by code_simp
  have "ring_ok demo_spsc_ring" by (simp add: ring_ok_def demo_spsc_ring_def)
  moreover have "\<forall>bs. Writer_Turn bs \<in> set demo_turns \<longrightarrow> length bs < 2 ^ 32" by (simp add: demo_turns_def)
  ultimately obtain rest where "held demo_spsc_ring (\<lambda>_. 9) @ accepted_bytes ?s = read_bytes ?s @ held (sp_ring ?s) (sp_ram ?s) @ rest"
    using rtt_lock_free_fifo by blast
  then have "[9, 1, 2, 3] = [9, 1, 2] @ rest" by (simp add: run old)
  then show ?thesis by (simp add: run Let_def)
qed

end
