(* ===== verification/Spec2Isabelle.thy ===== *)
theory Spec2Isabelle
  imports Sched_Props Rtos_Mutex Rtos_Semaphore Rtos_Event_Flags Rtos_Message_Queue Rtos_Kernel Rtos_Thread Rtos_Deque Rtos_Timer C11_Threads
    Pico_Atomic Multicore_Irq Retarget_Lock Core_Local Libc_Glue Fault_Handler Rtt Rtt_Spsc
begin

text \<open>
  The pico-toolkit: a preemptive scheduler for both cores of the RP2040 and, on top of it, the
  CMSIS-RTOS2 interface with threads, mutexes, semaphores, event flags, memory pools, message
  queues, deques and timers, or instead the threads of C11. File names below are under \<open>src/src/\<close>.

  \<^bold>\<open>Parts and theories.\<close>

  \<^item> Prelude: words and pointers of the 32-bit target, \<open>check\<close> for assertions, \<open>has_flag\<close>, ordered
    insertion (\<open>insert_before_first\<close>) with its order and stability lemmas.
  \<^item> Linked_List: the intrusive lists of \<open>toolkit-support/.../linked-list.h\<close> and of the scheduler
    (\<open>sched_list_*\<close>) on a heap of next and previous pointers. The locale \<open>intrusive_list\<close> states what
    both promise; the search loops are \<open>partial_function\<close>s whose value \<open>None\<close> means that the
    walk does not end. The layers above use the lists these theorems show the pointers to hold.
  \<^item> Sched_State to Sched_Props: \<open>pico-scheduler/scheduler.c\<close> with the services of \<open>scheduler-glue.c\<close>
    and \<open>multicore-support/multicore-glue.c\<close>. The record \<open>sys\<close> is the memory the scheduler sees: tasks,
    futexes, queues, timers, the variables of each core and the words of memory that futexes
    guard. Sched_Queue has the queues and timers, Sched_Svc one definition per system call handler,
    Sched_Switch the context switch, Sched_Api the functions of \<open>scheduler.h\<close>. Sched_Inv has the
    invariant and its preservation by the primitives, Sched_Calls, Sched_Futex and Sched_Dispatch by
    the handlers, the futex calls and the context switch; Sched_Steps makes them the step relation
    \<open>kstep\<close> of a system with any number of cores, and Sched_Props states the properties.
  \<^item> Spinlock: the ticket lock of \<open>toolkit-support/.../spinlock.h\<close> as a step relation of clients on
    the lock word, simulated by a first-in first-out lock.
  \<^item> Rtos_State: the control blocks of \<open>pico-cmsis-rtos2\<close>, the lists of kernel resources, sections
    under a spin lock, and the futex services. The record \<open>rtos\<close> holds the scheduler as \<open>ker\<close>. Every
    kind of control block is a map from addresses (a typed heap); an object that is part
    of another is at its offset in it. \<open>bytes\<close> is the memory that \<open>memcpy\<close> copies.
  \<^item> Rtos_Semaphore, Rtos_Mutex, Rtos_Event_Flags, Rtos_Pool, Rtos_Message_Queue, Rtos_Deque,
    Rtos_Timer, Rtos_Kernel, Rtos_Thread: the files \<open>cmsis-rtos2-*.c\<close>, one definition per function and
    one per loop. A message queue is made of a pool and a semaphore, a deque of event flags, a
    thread of a task and two event flags, the timers use a message queue and a thread, as in
    the code. Rtos_Bytes and Refinement are shared: ranges of bytes, and the locale \<open>refines\<close> that
    lifts a refinement of one operation to runs of a client.
  \<^item> C11_Threads: \<open>pico-threads/threads.c\<close>, an alternative to the RTOS layer with a state of its own,
    the record \<open>c11\<close>: once functions, mutexes, condition variables, thread specific storage, threads
    and their reaper.
  \<^item> Pico_Atomic: \<open>pico-atomic/pico-atomic.c\<close>, the atomic operations everything above takes as single steps.
    A call is a program of single accesses of byte memory under one of sixteen two-bit locks;
    \<open>atomic_step\<close> is one access of one of the two cores, and a run is given by its schedule.
  \<^item> Nmi and Multicore_Irq: \<open>pico-nmi/nmi.c\<close> and \<open>multicore-support/multicore-irq.c\<close>, the tables of
    handlers of the non-maskable interrupt and the requests between the cores. The NVIC is a parameter.
  \<^item> Retarget_Lock: \<open>picolibc-glue/retarget-lock.c\<close>, the locks of the C library, one access a step, with
    the functions \<open>scheduler-glue.c\<close> replaces. Six steps are enough for a call on an initialised lock
    that nobody disturbs.
  \<^item> Backtrace: \<open>pico-fault/backtrace.c\<close>, the search of the unwind index, the interpreter of unwind
    instructions on a virtual register set, and the walk over the frames.
  \<^item> Core_Local: \<open>pico-tls/tls.c\<close> over byte memory with the addresses the linker gives as a record, the hooks of
    \<open>scheduler-glue.c\<close> that start, switch and stop, and the start of the second core in
    \<open>multicore-glue.c\<close>, one access a step.
  \<^item> Libc_Glue: \<open>picolibc-glue/sbrk.c\<close>, the heap pointer, and \<open>iob.h\<close>, the set-up of streams.
  \<^item> Fault_Handler: \<open>pico-fault/fault.c\<close> and the entry in \<open>fault-m0plus-asm.S\<close>, which uses the stack set up
    through \<open>sbrk\<close> in core local storage and the walk of Backtrace.
  \<^item> Rtt_Ring, Rtt_Writers, Rtt, Rtt_Spsc: \<open>pico-rtt/SEGGER_RTT.c\<close>. Rtt_Ring has the functions on one ring
    buffer, Rtt_Writers what each mode of writing does to the bytes a ring holds, Rtt the control block with its
    channels and every function of the interface, Rtt_Spsc the lock-free writer and reader access by
    access. The host that reads is a script that says how much it takes before each turn of a loop
    that waits; two turns are enough for what fits, as many turns as bytes when the host keeps reading.

  \<^bold>\<open>How the code is modelled.\<close> A function becomes a function on the state that returns the result and
  the new state; integers are words of their width, so additions wrap. \<open>None\<close> is a call that
  does not return: a failed assertion, \<open>abort\<close>, a lock that is never free, or, for a loop, an exhausted
  script. What other threads, interrupts and the other core do while a call waits, or between two
  of its accesses to shared memory, is an argument: \<open>env\<close> and \<open>run\<close> are arbitrary changes of the
  state, and a loop has one entry of its script for each turn. So a theorem with a script of one
  turn and \<open>id\<close> speaks of a call that is not disturbed, and the theorems about races give the
  disturbance explicitly. Loops of the scheduler have fuel; \<open>handlers_return\<close> shows that the fuel they
  are called with is always enough.
  Code that is not in the repository is a parameter: \<open>port\<close> has the allocator, the interrupt
  priorities, the size and set-up of thread local storage and the addresses the linker chooses.

  \<^bold>\<open>What is shown.\<close>

  \<^item> Lists: insertion, removal and size on pointers are the list operations, for both implementations.
  \<^item> Scheduler: in every reachable state the queues are ordered, each task is where its state
    says and runs on at most one core; handlers return; the context switch runs the most important task
    that may run; wait and wake of futexes, timers, priority inheritance, round robin, termination.
  \<^item> Ticket lock: mutual exclusion in order of arrival up to 65535 clients.
  \<^item> Semaphores conserve tokens, mutexes and event flags do exactly what their contract says, blocks of a pool
    never overlap, message queues refine a bounded priority queue with the bytes of the messages,
    deques refine a bounded first-in first-out queue, timers stay in order.
  \<^item> C11 threads: a wait for a condition loses no wake up.
  \<^item> Atomic operations: the locks exclude, a call ends, and every interleaving of two cores is equivalent to
    calls made one at a time; so the models above may take an atomic access for one step.
  \<^item> Interrupts: a request to the other core has the effect of the call on that core; the NMI calls exactly the
    handlers of the interrupts mapped to it.
  \<^item> Locks of the C library: without overlap they are recursive locks with one owner.
  \<^item> Unwinder: the search finds the function of an address, unwinding undoes the push of a prologue, and the walk
    stays within its buffer and its registers.
  \<^item> Storage: start-up gives each core its own blocks, the thread pointer in memory is the one of the scheduler
    model, the heap hands out adjoining blocks, and a fault is reported with the registers it interrupted.
  \<^item> RTT: the channels are independent bounded queues, a lock-free writer and reader lose and reorder
    nothing, a blocking write returns when the host reads, output to another terminal leaves the stream of the active one
    as it was; the writer that overwrites keeps the newest bytes.
  \<^item> Where the code departs from its intention a theorem shows the run: a waiter that
    is left asleep, a limit that is passed, flags consumed twice, an owner that stays after a timeout, a
    block past the end of the pool, a lock that stays, an element that is not inserted, a timer list that
    becomes circular, a timed wait that does not wait, a call that waits for itself, a flag that cannot be
    cleared, a lock of the C library with two owners, a frame that is reported again and again, a
    thread pointer shifted when the scheduler stops, a heap without end, a core without a fault stack, a
    channel without buffer that is written to, a ring emptied by overwriting.

  \<^bold>\<open>Not modelled.\<close> The assembler stubs of the scheduler (saving registers, supervisor calls) pass
  frames that the model passes as values. The output of characters is left to functions that devices
  replace. \<open>osKernelResourceDump\<close> only prints. The tick hook of the timers is modelled; that it posts
  every expired timer from the interrupt is not yet proved. The memory is sequentially
  consistent, as that of the two cores is, and the delays that break ties between them are not steps.
\<close>

end
